(* ===== verification/Prelude.thy ===== *)
theory Prelude
  imports Main "HOL-Library.Word" "HOL-Library.AList"
begin

text \<open>
  Shared vocabulary of the development.

  \<^item> Machine integers: \<open>u8\<close> \<dots> \<open>u64\<close> are words; \<open>saturating_add\<close> is Rust's operation of that
    name. \<open>usize\<close> values (lengths, frame counts) are naturals, with the saturation of the
    64-bit targets written out.
  \<^item> Time: \<open>Instant\<close> and \<open>Duration\<close> are naturals counting nanoseconds. Rust's
    \<open>Instant::duration_since\<close>, \<open>elapsed\<close> and \<open>saturating_duration_since\<close> all return zero
    when the argument lies in the future, which is subtraction on naturals. Every operation
    that reads the clock takes the reading as an argument.
  \<^item> Hash maps: a \<open>HashMap\<close> is an association list with distinct keys whose order is the
    iteration order of the map. Nothing is assumed about that order, so a statement about all
    lists is a statement about every iteration order.
  \<^item> Runs: the locale \<open>event_machine\<close> lifts a one-step invariant to whole runs, and
    \<open>ranked_machine\<close> lifts a one-step order.
\<close>

section \<open>Machine integers\<close>

type_synonym u8 = "8 word"
type_synonym u16 = "16 word"
type_synonym u32 = "32 word"
type_synonym u64 = "64 word"
type_synonym usize = nat

definition saturating_add :: "'a::len word \<Rightarrow> 'a word \<Rightarrow> 'a word" where
  "saturating_add a b = (if unat a + unat b < 2 ^ LENGTH('a) then a + b else - 1)"

definition usize_max :: nat where
  "usize_max = 2 ^ 64 - 1"

definition usize_sat_mul :: "nat \<Rightarrow> nat \<Rightarrow> nat" where
  "usize_sat_mul a b = min (a * b) usize_max"

definition usize_sat_add :: "nat \<Rightarrow> nat \<Rightarrow> nat" where
  "usize_sat_add a b = min (a + b) usize_max"

lemma unat_max_word: "unat (- 1 :: 'a::len word) = 2 ^ LENGTH('a) - 1"
  by (simp add: unsigned_minus_1_eq_mask mask_eq_exp_minus_1)

lemma unat_below: "unat (a :: 'a::len word) < 2 ^ LENGTH('a)"
  by simp

lemma unat_saturating_add:
  "unat (saturating_add a b :: 'a::len word) = min (unat a + unat b) (2 ^ LENGTH('a) - 1)"
proof (cases "unat a + unat b < 2 ^ LENGTH('a)")
  case True
  then have "unat (a + b) = unat a + unat b" by (rule unat_add_lem [THEN iffD1])
  with True show ?thesis by (simp add: saturating_add_def)
next
  case False
  then show ?thesis by (simp add: saturating_add_def unat_max_word)
qed

lemma saturating_add_ge: "a \<le> (saturating_add a b :: 'a::len word)"
proof -
  have "unat a \<le> 2 ^ LENGTH('a) - 1" using unat_below [of a] by linarith
  then show ?thesis by (simp add: word_le_nat_alt unat_saturating_add)
qed

lemma saturating_add_mono_left: "a \<le> b \<Longrightarrow> a \<le> (saturating_add b c :: 'a::len word)"
  using saturating_add_ge order_trans by blast

lemma saturating_inc_greater:
  "a \<noteq> - 1 \<Longrightarrow> a < (saturating_add a 1 :: 'a::len word)"
proof -
  assume "a \<noteq> - 1"
  then have "unat a \<noteq> unat (- 1 :: 'a word)" by (simp add: word_unat_eq_iff)
  then have "unat a < 2 ^ LENGTH('a) - 1"
    using unat_below [of a] unat_max_word [where 'a = 'a] by linarith
  moreover have "unat (1 :: 'a word) = 1" by simp
  ultimately show ?thesis by (simp add: word_less_nat_alt unat_saturating_add)
qed

lemma saturating_add_self_iff:
  "saturating_add a 1 = a \<longleftrightarrow> a = (- 1 :: 'a::len word)"
proof
  assume "saturating_add a 1 = a"
  then show "a = - 1" using saturating_inc_greater [of a] by force
next
  assume "a = - 1"
  then show "saturating_add a 1 = a"
    using saturating_add_ge [of a 1] by (simp add: word_order.extremum_unique)
qed

section \<open>Time\<close>

type_synonym instant = nat
type_synonym duration = nat

definition from_millis :: "nat \<Rightarrow> duration" where
  "from_millis n = n * 1000000"

definition from_secs :: "nat \<Rightarrow> duration" where
  "from_secs n = n * 1000000000"

lemma from_secs_millis: "from_secs n = from_millis (1000 * n)"
  by (simp add: from_secs_def from_millis_def)

section \<open>Hash maps\<close>

type_synonym ('k, 'v) hashmap = "('k \<times> 'v) list"

definition hm_ok :: "('k, 'v) hashmap \<Rightarrow> bool" where
  "hm_ok m \<longleftrightarrow> distinct (map fst m)"

definition hm_get :: "('k, 'v) hashmap \<Rightarrow> 'k \<Rightarrow> 'v option" where
  "hm_get m k = map_of m k"

definition hm_insert :: "'k \<Rightarrow> 'v \<Rightarrow> ('k, 'v) hashmap \<Rightarrow> ('k, 'v) hashmap" where
  "hm_insert k v m = AList.update k v m"

definition hm_remove :: "'k \<Rightarrow> ('k, 'v) hashmap \<Rightarrow> ('k, 'v) hashmap" where
  "hm_remove k m = AList.delete k m"

text \<open>\<open>entry(k).or_default()\<close>: the value stored at \<open>k\<close>, or the type's default.\<close>

definition hm_entry :: "'v \<Rightarrow> 'k \<Rightarrow> ('k, 'v) hashmap \<Rightarrow> 'v" where
  "hm_entry d k m = (case hm_get m k of None \<Rightarrow> d | Some v \<Rightarrow> v)"

text \<open>\<open>retain\<close> on a map and \<open>values\<close> in iteration order.\<close>

definition hm_retain :: "('v \<Rightarrow> bool) \<Rightarrow> ('k, 'v) hashmap \<Rightarrow> ('k, 'v) hashmap" where
  "hm_retain p m = filter (\<lambda>(k, v). p v) m"

definition hm_values :: "('k, 'v) hashmap \<Rightarrow> 'v list" where
  "hm_values m = map snd m"

definition hm_map :: "('v \<Rightarrow> 'w) \<Rightarrow> ('k, 'v) hashmap \<Rightarrow> ('k, 'w) hashmap" where
  "hm_map f m = map (\<lambda>(k, v). (k, f v)) m"

text \<open>What the components rely on a keyed map for.\<close>

locale keyed_map =
  fixes lookup_at :: "'m \<Rightarrow> 'k \<Rightarrow> 'v option"
    and put_at :: "'k \<Rightarrow> 'v \<Rightarrow> 'm \<Rightarrow> 'm"
    and drop_at :: "'k \<Rightarrow> 'm \<Rightarrow> 'm"
    and map_inv :: "'m \<Rightarrow> bool"
  assumes lookup_put: "lookup_at (put_at k v m) j = (if j = k then Some v else lookup_at m j)"
    and lookup_drop: "lookup_at (drop_at k m) j = (if j = k then None else lookup_at m j)"
    and inv_put: "map_inv m \<Longrightarrow> map_inv (put_at k v m)"
    and inv_drop: "map_inv m \<Longrightarrow> map_inv (drop_at k m)"
begin

lemma lookup_put_same: "lookup_at (put_at k v m) k = Some v"
  by (simp add: lookup_put)

lemma lookup_put_other: "j \<noteq> k \<Longrightarrow> lookup_at (put_at k v m) j = lookup_at m j"
  by (simp add: lookup_put)

lemma lookup_drop_same: "lookup_at (drop_at k m) k = None"
  by (simp add: lookup_drop)

lemma lookup_fold_drop:
  "lookup_at (foldl (\<lambda>acc k. drop_at k acc) m ks) j = (if j \<in> set ks then None else lookup_at m j)"
  by (induction ks arbitrary: m) (auto simp: lookup_drop)

lemma inv_fold_drop: "map_inv m \<Longrightarrow> map_inv (foldl (\<lambda>acc k. drop_at k acc) m ks)"
  by (induction ks arbitrary: m) (auto simp: inv_drop)

end

interpretation hm: keyed_map hm_get hm_insert hm_remove hm_ok
  by unfold_locales
    (auto simp: hm_get_def hm_insert_def hm_remove_def hm_ok_def AList.update_conv'
      AList.delete_conv' AList.distinct_update AList.distinct_delete)

lemmas hm_simps [simp] = hm.lookup_put hm.lookup_drop

lemmas hm_ok_intros [simp, intro] = hm.inv_put hm.inv_drop

lemma hm_get_Nil [simp]: "hm_get [] k = None"
  by (simp add: hm_get_def)

lemma hm_ok_Nil [simp]: "hm_ok []"
  by (simp add: hm_ok_def)

lemma hm_get_mem: "hm_get m k = Some v \<Longrightarrow> (k, v) \<in> set m"
  by (simp add: hm_get_def map_of_SomeD)

lemma hm_get_iff: "hm_ok m \<Longrightarrow> hm_get m k = Some v \<longleftrightarrow> (k, v) \<in> set m"
  by (simp add: hm_get_def hm_ok_def)

lemma hm_get_None_iff: "hm_get m k = None \<longleftrightarrow> k \<notin> fst ` set m"
  by (simp add: hm_get_def map_of_eq_None_iff)

lemma hm_ok_retain [simp]: "hm_ok m \<Longrightarrow> hm_ok (hm_retain p m)"
  by (auto simp: hm_ok_def hm_retain_def intro: distinct_map_filter)

lemma hm_get_retain:
  "hm_ok m \<Longrightarrow>
   hm_get (hm_retain p m) k = (case hm_get m k of None \<Rightarrow> None | Some v \<Rightarrow> if p v then Some v else None)"
proof (induction m)
  case Nil
  then show ?case by (simp add: hm_retain_def)
next
  case (Cons kv m)
  obtain k' v' where kv: "kv = (k', v')" by force
  have ok: "hm_ok m" and fresh: "k' \<notin> fst ` set m"
    using Cons.prems by (auto simp: hm_ok_def kv)
  have none: "hm_get m k' = None" using fresh by (simp add: hm_get_None_iff)
  have IH: "hm_get (hm_retain p m) k =
      (case hm_get m k of None \<Rightarrow> None | Some v \<Rightarrow> if p v then Some v else None)"
    by (rule Cons.IH [OF ok])
  show ?case
  proof (cases "p v'")
    case True
    then show ?thesis using IH by (simp add: kv hm_retain_def hm_get_def)
  next
    case False
    then show ?thesis using IH none by (auto simp: kv hm_retain_def hm_get_def)
  qed
qed

lemma hm_get_map: "hm_get (hm_map f m) k = map_option f (hm_get m k)"
  by (induction m) (auto simp: hm_map_def hm_get_def)

lemma fst_hm_map: "map fst (hm_map f m) = map fst m"
  by (auto simp: hm_map_def)

lemma hm_ok_map [simp]: "hm_ok (hm_map f m) = hm_ok m"
  by (simp add: hm_ok_def fst_hm_map)

section \<open>Runs of a deterministic component\<close>

locale event_machine =
  fixes step :: "'s \<Rightarrow> 'e \<Rightarrow> 's"
    and inv :: "'s \<Rightarrow> bool"
  assumes step_inv: "inv s \<Longrightarrow> inv (step s e)"
begin

lemma run_inv: "inv s \<Longrightarrow> inv (foldl step s es)"
  by (induction es arbitrary: s) (auto simp: step_inv)

end

text \<open>The same for runs whose events all satisfy a guard.\<close>

locale guarded_machine =
  fixes step :: "'s \<Rightarrow> 'e \<Rightarrow> 's"
    and inv :: "'s \<Rightarrow> bool"
    and guard :: "'e \<Rightarrow> bool"
  assumes step_inv: "inv s \<Longrightarrow> guard e \<Longrightarrow> inv (step s e)"
begin

lemma run_inv: "inv s \<Longrightarrow> list_all guard es \<Longrightarrow> inv (foldl step s es)"
  by (induction es arbitrary: s) (auto simp: step_inv)

end

locale ranked_machine = event_machine step inv
  for step :: "'s \<Rightarrow> 'e \<Rightarrow> 's" and inv :: "'s \<Rightarrow> bool" +
  fixes rank :: "'s \<Rightarrow> 'r::preorder"
  assumes step_rank: "inv s \<Longrightarrow> rank s \<le> rank (step s e)"
begin

lemma run_rank: "inv s \<Longrightarrow> rank s \<le> rank (foldl step s es)"
proof (induction es arbitrary: s)
  case Nil
  then show ?case by simp
next
  case (Cons e es)
  then have "rank (step s e) \<le> rank (foldl step (step s e) es)"
    by (simp add: step_inv)
  with step_rank [OF Cons.prems, of e] show ?case
    by (auto intro: order_trans)
qed

end

end
