(* ===== verification/Text_Error.thy ===== *)
theory Text_Error
  imports Prelude
begin

text \<open>
  Byte strings and the error type (\<open>src/error.rs\<close>). A Rust \<open>String\<close> is its UTF-8 bytes, one
  \<open>char\<close> per byte; the ASCII operations of the standard library act byte by byte, and substring
  search on UTF-8 text is substring search on the bytes.
\<close>

section \<open>ASCII and substring operations of the standard library\<close>

definition is_ascii_upper :: "char \<Rightarrow> bool" where
  "is_ascii_upper c \<longleftrightarrow> 65 \<le> (of_char c :: nat) \<and> (of_char c :: nat) \<le> 90"

definition is_ascii_lower :: "char \<Rightarrow> bool" where
  "is_ascii_lower c \<longleftrightarrow> 97 \<le> (of_char c :: nat) \<and> (of_char c :: nat) \<le> 122"

definition is_ascii_digit :: "char \<Rightarrow> bool" where
  "is_ascii_digit c \<longleftrightarrow> 48 \<le> (of_char c :: nat) \<and> (of_char c :: nat) \<le> 57"

definition is_ascii_alphanumeric :: "char \<Rightarrow> bool" where
  "is_ascii_alphanumeric c \<longleftrightarrow> is_ascii_upper c \<or> is_ascii_lower c \<or> is_ascii_digit c"

definition ascii_lower :: "char \<Rightarrow> char" where
  "ascii_lower c = (if is_ascii_upper c then char_of ((of_char c :: nat) + 32) else c)"

definition to_ascii_lowercase :: "string \<Rightarrow> string" where
  "to_ascii_lowercase s = map ascii_lower s"

definition starts_with :: "string \<Rightarrow> string \<Rightarrow> bool" where
  "starts_with s p \<longleftrightarrow> take (length p) s = p"

fun str_contains :: "string \<Rightarrow> string \<Rightarrow> bool" where
  "str_contains [] p = (p = [])"
| "str_contains (c # s) p = (starts_with (c # s) p \<or> str_contains s p)"

lemma starts_with_iff: "starts_with s p \<longleftrightarrow> (\<exists>rest. s = p @ rest)"
  unfolding starts_with_def by (metis append_eq_conv_conj append_take_drop_id)

lemma str_contains_iff: "str_contains s p \<longleftrightarrow> (\<exists>pre post. s = pre @ p @ post)"
proof (induction s)
  case Nil
  then show ?case by simp
next
  case (Cons c s)
  show ?case
  proof
    assume "str_contains (c # s) p"
    then consider "starts_with (c # s) p" | "str_contains s p" by auto
    then show "\<exists>pre post. c # s = pre @ p @ post"
    proof cases
      case 1
      then obtain rest where "c # s = [] @ p @ rest" by (auto simp: starts_with_iff)
      then show ?thesis by blast
    next
      case 2
      then obtain pre post where "s = pre @ p @ post" using Cons.IH by blast
      then have "c # s = (c # pre) @ p @ post" by simp
      then show ?thesis by blast
    qed
  next
    assume "\<exists>pre post. c # s = pre @ p @ post"
    then obtain pre post where eq: "c # s = pre @ p @ post" by blast
    show "str_contains (c # s) p"
    proof (cases pre)
      case Nil
      with eq have "starts_with (c # s) p" by (simp add: starts_with_iff)
      then show ?thesis by simp
    next
      case (Cons c' pre')
      with eq have "s = pre' @ p @ post" by simp
      then have "str_contains s p" using Cons.IH by blast
      then show ?thesis by simp
    qed
  qed
qed

lemma ascii_lower_not_upper: "\<not> is_ascii_upper (ascii_lower c)"
proof (cases "is_ascii_upper c")
  case True
  then have b: "(of_char c :: nat) + 32 < 256" "65 \<le> (of_char c :: nat)"
    by (auto simp: is_ascii_upper_def)
  have "(of_char (ascii_lower c) :: nat) = of_char c + 32"
    using True b by (simp add: ascii_lower_def)
  with b show ?thesis by (simp add: is_ascii_upper_def)
next
  case False
  then show ?thesis by (simp add: ascii_lower_def)
qed

lemma ascii_lower_idem [simp]: "ascii_lower (ascii_lower c) = ascii_lower c"
  using ascii_lower_not_upper [of c] by (simp add: ascii_lower_def)

lemma to_ascii_lowercase_idem [simp]:
  "to_ascii_lowercase (to_ascii_lowercase s) = to_ascii_lowercase s"
  by (simp add: to_ascii_lowercase_def)

lemma str_contains_append_left: "str_contains s p \<Longrightarrow> str_contains (a @ s) p"
  by (metis append.assoc str_contains_iff)

text \<open>Decimal text of a number, as \<open>format!\<close> prints it.\<close>

fun show_nat :: "nat \<Rightarrow> string" where
  "show_nat n = (if n < 10 then [char_of (48 + n)] else show_nat (n div 10) @ [char_of (48 + n mod 10)])"

declare show_nat.simps [simp del]

section \<open>Errors\<close>

datatype config_error = ConfigIo string | ConfigParse string

datatype error =
    ErrConfig string config_error
  | ErrDiscovery string
  | ErrMedia string
  | ErrCast string
  | ErrAirPlay string
  | ErrAudio string
  | ErrBridge string
  | ErrIo string

text \<open>The \<open>Display\<close> texts, which the Cast pool searches for the markers of a failure class.\<close>

primrec config_error_text :: "config_error \<Rightarrow> string" where
  "config_error_text (ConfigIo s) = s"
| "config_error_text (ConfigParse s) = ''TOML parse error: '' @ s"

primrec error_text :: "error \<Rightarrow> string" where
  "error_text (ErrConfig path e) = ''config error at '' @ path @ '': '' @ config_error_text e"
| "error_text (ErrDiscovery s) = ''discovery error: '' @ s"
| "error_text (ErrMedia s) = ''media server error: '' @ s"
| "error_text (ErrCast s) = ''cast error: '' @ s"
| "error_text (ErrAirPlay s) = ''airplay error: '' @ s"
| "error_text (ErrAudio s) = ''audio error: '' @ s"
| "error_text (ErrBridge s) = ''bridge error: '' @ s"
| "error_text (ErrIo s) = ''I/O error: '' @ s"

type_synonym 'a result = "error + 'a"

definition is_ok :: "'a result \<Rightarrow> bool" where
  "is_ok r = (case r of Inl e \<Rightarrow> False | Inr x \<Rightarrow> True)"

lemma is_ok_simps [simp]: "is_ok (Inl e) = False" "is_ok (Inr x) = True"
  by (simp_all add: is_ok_def)

end
