(* ===== verification/Float32.thy ===== *)
theory Float32
  imports Prelude
begin

text \<open>
  Single-precision floats as bit patterns. The control plane stores, compares, clamps and
  subtracts volume levels; each of those operations is exact on the bits, so none needs a model of
  the reals. A finite \<open>f32\<close> is an integer multiple of \<open>2 ^ - 149\<close>, and \<open>f32_scaled\<close> is that integer.
\<close>

datatype f32 = F32 u32

primrec f32_bits :: "f32 \<Rightarrow> nat" where
  "f32_bits (F32 b) = unat b"

definition f32_negative :: "f32 \<Rightarrow> bool" where
  "f32_negative x \<longleftrightarrow> 2 ^ 31 \<le> f32_bits x"

definition f32_magnitude :: "f32 \<Rightarrow> nat" where
  "f32_magnitude x = f32_bits x mod 2 ^ 31"

definition f32_exponent :: "f32 \<Rightarrow> nat" where
  "f32_exponent x = f32_magnitude x div 2 ^ 23"

definition f32_fraction :: "f32 \<Rightarrow> nat" where
  "f32_fraction x = f32_magnitude x mod 2 ^ 23"

definition f32_is_nan :: "f32 \<Rightarrow> bool" where
  "f32_is_nan x \<longleftrightarrow> f32_exponent x = 255 \<and> f32_fraction x \<noteq> 0"

definition f32_is_infinite :: "f32 \<Rightarrow> bool" where
  "f32_is_infinite x \<longleftrightarrow> f32_exponent x = 255 \<and> f32_fraction x = 0"

definition f32_scaled_abs :: "f32 \<Rightarrow> nat" where
  "f32_scaled_abs x =
     (if f32_exponent x = 0 then f32_fraction x
      else (2 ^ 23 + f32_fraction x) * 2 ^ (f32_exponent x - 1))"

definition f32_scaled :: "f32 \<Rightarrow> int" where
  "f32_scaled x = (if f32_negative x then - int (f32_scaled_abs x) else int (f32_scaled_abs x))"

text \<open>
  Comparison: false when either side is not a number. An infinity has a larger scaled value than
  every finite float, so no case is needed for it.
\<close>

definition f32_less :: "f32 \<Rightarrow> f32 \<Rightarrow> bool" where
  "f32_less x y \<longleftrightarrow> \<not> f32_is_nan x \<and> \<not> f32_is_nan y \<and> f32_scaled x < f32_scaled y"

definition f32_zero :: f32 where
  "f32_zero = F32 0"

definition f32_one :: f32 where
  "f32_one = F32 0x3F800000"

text \<open>
  \<open>(x - y).abs() < bound\<close>. The exact difference is rounded to the nearest float, ties to the even
  fraction, before it is compared. When \<open>bound\<close> has an even fraction and is not a power of two, the
  rounded difference is below \<open>bound\<close> exactly when the exact one is below \<open>bound\<close> by more than half
  a unit in its last place (a tie rounds up to \<open>bound\<close>).
\<close>

definition f32_ulp :: "f32 \<Rightarrow> int" where
  "f32_ulp x = (if f32_exponent x = 0 then 1 else 2 ^ (f32_exponent x - 1))"

definition f32_rounding_bound :: "f32 \<Rightarrow> bool" where
  "f32_rounding_bound b \<longleftrightarrow>
     \<not> f32_negative b \<and> f32_exponent b \<noteq> 0 \<and> f32_exponent b < 255 \<and>
     even (f32_fraction b) \<and> f32_fraction b \<noteq> 0"

definition f32_within :: "f32 \<Rightarrow> f32 \<Rightarrow> f32 \<Rightarrow> bool" where
  "f32_within bound x y \<longleftrightarrow>
     \<not> f32_is_nan x \<and> \<not> f32_is_nan y \<and> \<not> (f32_is_infinite x \<and> f32_is_infinite y) \<and>
     2 * \<bar>f32_scaled x - f32_scaled y\<bar> < 2 * f32_scaled bound - f32_ulp bound"

lemma f32_less_irrefl [simp]: "\<not> f32_less x x"
  by (simp add: f32_less_def)

lemma f32_less_trans: "f32_less x y \<Longrightarrow> f32_less y z \<Longrightarrow> f32_less x z"
  by (auto simp: f32_less_def)

lemma f32_scaled_zero [simp]: "f32_scaled f32_zero = 0"
  by (simp add: f32_scaled_def f32_scaled_abs_def f32_zero_def f32_exponent_def f32_fraction_def
      f32_magnitude_def f32_negative_def)

lemma f32_scaled_one [simp]: "f32_scaled f32_one = 2 ^ 149"
  by (simp add: f32_scaled_def f32_scaled_abs_def f32_one_def f32_exponent_def f32_fraction_def
      f32_magnitude_def f32_negative_def)

lemma f32_not_nan_zero_one [simp]: "\<not> f32_is_nan f32_zero" "\<not> f32_is_nan f32_one"
  by (simp_all add: f32_is_nan_def f32_zero_def f32_one_def f32_exponent_def f32_fraction_def
      f32_magnitude_def)

lemma f32_scaled_one_pos: "f32_scaled f32_zero < f32_scaled f32_one"
  by (simp only: f32_scaled_zero f32_scaled_one)
     simp

lemma f32_within_sym: "f32_within b x y = f32_within b y x"
  by (auto simp: f32_within_def abs_minus_commute)

lemma f32_within_self:
  assumes "f32_rounding_bound b" and "\<not> f32_is_nan x" and "\<not> f32_is_infinite x"
  shows "f32_within b x x"
proof -
  have e: "f32_exponent b \<noteq> 0" and p: "\<not> f32_negative b"
    using assms by (auto simp: f32_rounding_bound_def)
  have "f32_ulp b < 2 * f32_scaled b"
  proof -
    have "(1::int) * 2 ^ (f32_exponent b - 1)
        < (2 * (2 ^ 23 + int (f32_fraction b))) * 2 ^ (f32_exponent b - 1)"
      by (rule mult_strict_right_mono) auto
    then show ?thesis using e p by (simp add: f32_ulp_def f32_scaled_def f32_scaled_abs_def mult.assoc)
  qed
  with assms show ?thesis by (simp add: f32_within_def)
qed

end
