(* ===== verification/Bridge_Decisions.thy ===== *)
theory Bridge_Decisions
  imports Text_Error Float32
begin

text \<open>
  The pure decisions of the session bridge (\<open>src/bridge\<close>): egress selection, what a re-LOAD may
  do, FLAC failure strikes, the stall watchdog, resume, teardown policy, and the member list of a
  multizone group. Each is the \<open>const fn\<close> (or the pure helper) of the same name.
\<close>

section \<open>Egress (state.rs)\<close>

datatype egress_kind = FlacLive | WavBuffered

definition select_egress :: "bool \<Rightarrow> egress_kind" where
  "select_egress device_remembered_wav = (if device_remembered_wav then WavBuffered else FlacLive)"

section \<open>LOAD and re-LOAD (load.rs)\<close>

datatype load_volume_policy = PreserveDevice | Rollover "f32 option"

fun volume_after_load :: "load_volume_policy \<Rightarrow> f32 option" where
  "volume_after_load PreserveDevice = None"
| "volume_after_load (Rollover last_volume) = last_volume"

definition late_load_should_stop :: "bool \<Rightarrow> bool \<Rightarrow> bool" where
  "late_load_should_stop alive late_stop_allowed \<longleftrightarrow> \<not> alive \<and> late_stop_allowed"

definition discard_successful_reload_should_stop :: "bool \<Rightarrow> bool \<Rightarrow> bool \<Rightarrow> bool" where
  "discard_successful_reload_should_stop paused alive late_stop_allowed \<longleftrightarrow>
     paused \<or> late_load_should_stop alive late_stop_allowed"

datatype reload_validity_kind = Valid | ReloadPaused | Stale

definition reload_validity :: "u64 \<Rightarrow> u64 \<Rightarrow> bool \<Rightarrow> bool \<Rightarrow> reload_validity_kind" where
  "reload_validity live_gen expected_gen alive paused =
     (if live_gen \<noteq> expected_gen \<or> \<not> alive then Stale
      else if paused then ReloadPaused
      else Valid)"

datatype reload_outcome = Loaded | OutcomePaused | Failed

datatype reload_gate_kind = Abort | GatePaused | AlreadySatisfied | Proceed u64

section \<open>FLAC strikes (fallback.rs)\<close>

definition FLAC_FALLBACK_WINDOW :: duration where
  "FLAC_FALLBACK_WINDOW = from_secs 10"

definition FLAC_STRIKE_PAIR_WINDOW :: duration where
  "FLAC_STRIKE_PAIR_WINDOW = from_secs 90"

definition transport_markers :: "string list" where
  "transport_markers =
     [''timeout'', ''timed out'', ''disconnected'', ''reply dropped'', ''no warm cast worker'',
      ''no active session'', ''not connected'', ''reconnect backoff'', ''broken pipe'',
      ''connection'', ''connect '']"

definition transport_shaped_message :: "string \<Rightarrow> bool" where
  "transport_shaped_message msg \<longleftrightarrow> list_ex (str_contains (to_ascii_lowercase msg)) transport_markers"

fun is_transport_shaped_cast_error :: "error \<Rightarrow> bool" where
  "is_transport_shaped_cast_error (ErrCast msg) = transport_shaped_message msg"
| "is_transport_shaped_cast_error (ErrBridge msg) = transport_shaped_message msg"
| "is_transport_shaped_cast_error (ErrIo _) = True"
| "is_transport_shaped_cast_error (ErrConfig _ _) = False"
| "is_transport_shaped_cast_error (ErrDiscovery _) = False"
| "is_transport_shaped_cast_error (ErrMedia _) = False"
| "is_transport_shaped_cast_error (ErrAirPlay _) = False"
| "is_transport_shaped_cast_error (ErrAudio _) = False"

datatype flac_strike_reason = MediaRecovered | StallWatchdogReload

datatype flac_strike_outcome = RecordOnly | FallbackToWav

definition flac_strike_decision ::
  "(instant \<times> flac_strike_reason) option \<Rightarrow> instant \<Rightarrow> flac_strike_reason \<Rightarrow> duration \<Rightarrow>
   flac_strike_outcome \<times> (instant \<times> flac_strike_reason) option" where
  "flac_strike_decision previous now reason pair_window =
     (case previous of
        Some (prev_at, _) \<Rightarrow> (if now - prev_at < pair_window then FallbackToWav else RecordOnly)
      | None \<Rightarrow> RecordOnly,
      Some (now, reason))"

section \<open>Stall watchdog (stall.rs)\<close>

definition STALL_BODY_STALE :: duration where
  "STALL_BODY_STALE = from_secs 5"

definition STALL_REPEAT_WINDOW :: duration where
  "STALL_REPEAT_WINDOW = from_secs 60"

definition body_is_stale :: "duration option \<Rightarrow> duration \<Rightarrow> bool" where
  "body_is_stale last_write_age started_age =
     (case last_write_age of
        None \<Rightarrow> started_age \<ge> STALL_BODY_STALE
      | Some age \<Rightarrow> age \<ge> STALL_BODY_STALE)"

datatype stall_action_kind = NoStall | EarlyFlacFallback | TerminalEnd | StallReload

definition stall_action :: "bool \<Rightarrow> bool \<Rightarrow> nat \<Rightarrow> egress_kind \<Rightarrow> bool \<Rightarrow> bool \<Rightarrow> stall_action_kind" where
  "stall_action paused body_stale ring_frames egress early_flac_window repeat_within_window =
     (if paused \<or> \<not> body_stale \<or> ring_frames = 0 then NoStall
      else if egress = FlacLive \<and> early_flac_window then EarlyFlacFallback
      else if repeat_within_window then TerminalEnd
      else StallReload)"

section \<open>Pause and resume (playback.rs)\<close>

definition LONG_PAUSE_RELOAD :: duration where
  "LONG_PAUSE_RELOAD = from_secs 30"

definition detached_cast_control_allowed :: "bool \<Rightarrow> u64 option \<Rightarrow> u64 \<Rightarrow> bool" where
  "detached_cast_control_allowed alive live_gen expected_gen \<longleftrightarrow>
     alive \<and> live_gen = Some expected_gen"

datatype resume_decision_kind =
  ResumePlay | ResumeReload | ResumeReloadFlush | ResumeReloadStall | ResumeNone

datatype owed_reload = OwedNone | OwedFlush | OwedStall

fun resume_decision :: "bool \<Rightarrow> bool \<Rightarrow> owed_reload \<Rightarrow> resume_decision_kind" where
  "resume_decision paused long_pause OwedFlush = ResumeReloadFlush"
| "resume_decision paused long_pause OwedStall = ResumeReloadStall"
| "resume_decision paused long_pause OwedNone =
     (if paused \<and> long_pause then ResumeReload
      else if paused then ResumePlay
      else ResumeNone)"

section \<open>Teardown policy (teardown.rs)\<close>

datatype teardown_cast_policy = StopBestEffort | SkipStopForReplace

definition replace_skips_cast_stop :: "teardown_cast_policy \<Rightarrow> bool" where
  "replace_skips_cast_stop policy \<longleftrightarrow> policy = SkipStopForReplace"

section \<open>Multizone member list (group.rs)\<close>

fun push_missing :: "string list \<Rightarrow> string list \<Rightarrow> string list" where
  "push_missing desired [] = desired"
| "push_missing desired (i # ids) =
     push_missing (if i \<in> set desired then desired else desired @ [i]) ids"

definition desired_members :: "string list \<Rightarrow> string \<Rightarrow> string list \<Rightarrow> string list" where
  "desired_members cast_members owner followers =
     push_missing
       (filter (\<lambda>i. i = owner \<or> i \<in> set followers) cast_members)
       (owner # followers)"

definition session_name :: "string list \<Rightarrow> string option" where
  "session_name names =
     (case names of
        [] \<Rightarrow> None
      | first # rest \<Rightarrow>
          Some (if rest = [] then first else first @ '' + '' @ show_nat (length names - 1)))"

definition session_host_key_at :: "string \<Rightarrow> u16 \<Rightarrow> string" where
  "session_host_key_at ip port = ''cast-session:'' @ ip @ '':'' @ show_nat (unat port)"

section \<open>Facts about the decisions\<close>

lemma reload_validity_Valid_iff:
  "reload_validity live_gen expected_gen alive paused = Valid \<longleftrightarrow>
     live_gen = expected_gen \<and> alive \<and> \<not> paused"
  by (auto simp: reload_validity_def)

lemma reload_validity_Paused_iff:
  "reload_validity live_gen expected_gen alive paused = ReloadPaused \<longleftrightarrow>
     live_gen = expected_gen \<and> alive \<and> paused"
  by (auto simp: reload_validity_def)

lemma reload_validity_Stale_iff:
  "reload_validity live_gen expected_gen alive paused = Stale \<longleftrightarrow>
     live_gen \<noteq> expected_gen \<or> \<not> alive"
  by (auto simp: reload_validity_def)

lemmas reload_validity_iffs =
  reload_validity_Valid_iff reload_validity_Paused_iff reload_validity_Stale_iff

lemma flac_fallback_needs_previous:
  "fst (flac_strike_decision previous now reason w) = FallbackToWav \<Longrightarrow> previous \<noteq> None"
  by (auto simp: flac_strike_decision_def split: option.splits)

lemma resume_play_only_when_nothing_owed:
  "resume_decision p l owed = ResumePlay \<longleftrightarrow> owed = OwedNone \<and> p \<and> \<not> l"
  by (cases owed) auto

lemma push_missing_set: "set (push_missing xs ys) = set xs \<union> set ys"
  by (induction xs ys rule: push_missing.induct) auto

lemma push_missing_distinct: "distinct xs \<Longrightarrow> distinct (push_missing xs ys)"
  by (induction xs ys rule: push_missing.induct) auto

lemma push_missing_prefix: "\<exists>zs. push_missing xs ys = xs @ zs \<and> set zs \<subseteq> set ys - set xs"
proof (induction xs ys rule: push_missing.induct)
  case (1 desired)
  then show ?case by simp
next
  case (2 desired i ids)
  then obtain zs where zs:
    "push_missing (if i \<in> set desired then desired else desired @ [i]) ids
       = (if i \<in> set desired then desired else desired @ [i]) @ zs"
    "set zs \<subseteq> set ids - set (if i \<in> set desired then desired else desired @ [i])"
    by blast
  show ?case
  proof (cases "i \<in> set desired")
    case True
    with zs show ?thesis by auto
  next
    case False
    with zs have "push_missing desired (i # ids) = desired @ (i # zs)" by simp
    moreover have "set (i # zs) \<subseteq> set (i # ids) - set desired" using False zs by auto
    ultimately show ?thesis by blast
  qed
qed

lemma desired_members_set: "set (desired_members cm owner fs) = insert owner (set fs)"
  by (auto simp: desired_members_def push_missing_set)

lemma desired_members_distinct: "distinct cm \<Longrightarrow> distinct (desired_members cm owner fs)"
  by (simp add: desired_members_def push_missing_distinct)

lemma desired_members_prefix:
  "\<exists>new. desired_members cm owner fs = filter (\<lambda>i. i = owner \<or> i \<in> set fs) cm @ new
       \<and> set new \<inter> set cm = {}"
proof -
  obtain zs where zs: "desired_members cm owner fs = filter (\<lambda>i. i = owner \<or> i \<in> set fs) cm @ zs"
    "set zs \<subseteq> set (owner # fs) - set (filter (\<lambda>i. i = owner \<or> i \<in> set fs) cm)"
    using push_missing_prefix unfolding desired_members_def by blast
  then have "set zs \<inter> set cm = {}" by auto
  with zs(1) show ?thesis by blast
qed

end
