(* ===== verification/Media_State.thy ===== *)
theory Media_State
  imports Text_Error
begin

text \<open>
  The media server handle of a session (\<open>src/media/http.rs\<close>), as far as the bridge drives it:
  the content slot, the generation counter that live bodies poll, artwork, and shutdown.

  An \<open>Arc<PcmRing>\<close> is a \<open>ring_ref\<close>: its address (what \<open>Arc::ptr_eq\<close> compares) and its channel
  count, which never changes. The slots behind the handle's \<open>Arc\<close>s are fields of one record,
  because every clone reads and writes the same cell.
\<close>

record ring_ref =
  ring_ptr :: nat
  ring_channels :: u16

definition ptr_eq :: "ring_ref \<Rightarrow> ring_ref \<Rightarrow> bool" where
  "ptr_eq a b \<longleftrightarrow> ring_ptr a = ring_ptr b"

datatype media_content =
    StaticBody string "u8 list"
  | LiveWav ring_ref u16 u32
  | LiveFlac ring_ref u16 u32
  | EmptyContent

record artwork =
  art_id :: u64
  art_type :: string
  art_body :: "u8 list"

record media_handle =
  base_url :: string
  content :: media_content
  live_generation :: u64
  max_body_bytes :: u64
  bytes_served :: u64
  last_body_write :: "instant option"
  served_artwork :: "artwork option"
  serving :: bool

definition CAST_READ_AHEAD :: duration where
  "CAST_READ_AHEAD = from_secs 8"

definition MAX_ARTWORK_BYTES :: usize where
  "MAX_ARTWORK_BYTES = 4 * 1024 * 1024"

definition LIVE_CONTENT_LENGTH :: u64 where
  "LIVE_CONTENT_LENGTH = 2147483647 + 44"

definition stream_url :: "media_handle \<Rightarrow> string" where
  "stream_url m = base_url m @ ''/stream''"

definition set_content :: "media_content \<Rightarrow> media_handle \<Rightarrow> media_handle" where
  "set_content c m = m\<lparr>content := c\<rparr>"

definition set_artwork :: "artwork option \<Rightarrow> media_handle \<Rightarrow> media_handle" where
  "set_artwork a m = m\<lparr>served_artwork := a\<rparr>"

definition invalidate_live :: "media_handle \<Rightarrow> media_handle" where
  "invalidate_live m = m\<lparr>content := EmptyContent, live_generation := live_generation m + 1\<rparr>"

definition end_live_bodies :: "media_handle \<Rightarrow> media_handle" where
  "end_live_bodies m = m\<lparr>live_generation := live_generation m + 1\<rparr>"

definition progress :: "media_handle \<Rightarrow> u64 \<times> instant option" where
  "progress m = (bytes_served m, last_body_write m)"

definition set_max_body_bytes :: "u64 \<Rightarrow> media_handle \<Rightarrow> media_handle" where
  "set_max_body_bytes n m = m\<lparr>max_body_bytes := max n 44\<rparr>"

text \<open>\<open>shutdown\<close> drops the handle; \<open>Drop\<close> invalidates live bodies and aborts the serve task.\<close>

definition media_shutdown :: "media_handle \<Rightarrow> media_handle" where
  "media_shutdown m = (invalidate_live m)\<lparr>serving := False\<rparr>"

text \<open>A live body opened at generation \<open>g\<close> stops once the counter moved on.\<close>

definition is_superseded :: "u64 \<Rightarrow> media_handle \<Rightarrow> bool" where
  "is_superseded my_generation m \<longleftrightarrow> live_generation m \<noteq> my_generation"

lemma end_live_bodies_supersedes: "is_superseded (live_generation m) (end_live_bodies m)"
  by (simp add: is_superseded_def end_live_bodies_def)

lemma invalidate_live_supersedes: "is_superseded (live_generation m) (invalidate_live m)"
  by (simp add: is_superseded_def invalidate_live_def)

lemma media_shutdown_facts:
  "content (media_shutdown m) = EmptyContent" "\<not> serving (media_shutdown m)"
  "is_superseded (live_generation m) (media_shutdown m)"
  by (simp_all add: media_shutdown_def invalidate_live_def is_superseded_def)

end
