(* ===== verification/Cast_Payload.thy ===== *)
theory Cast_Payload
  imports Text_Error Float32
begin

text \<open>
  Cast payloads (\<open>src/cast/mod.rs\<close> and \<open>src/cast/multizone.rs\<close>): LOAD requests, now-playing
  metadata, \<open>QUEUE_UPDATE\<close>, and the multizone \<open>SET_PLAYBACK_DEVICES\<close> exchange.

  JSON text is parsed and printed by serde, so the parsers take the parsed value; the parse
  function and the derived decoding of a status body are arguments. A JSON object is the list of
  its members. A JSON integer is an \<open>int\<close>; a fraction is the bits of its \<open>f64\<close>.
\<close>

section \<open>JSON values\<close>

datatype json =
    JNull
  | JBool bool
  | JInt int
  | JFloat u64
  | JStr string
  | JArr "json list"
  | JObj "(string \<times> json) list"

fun json_get :: "string \<Rightarrow> json \<Rightarrow> json option" where
  "json_get k (JObj members) = map_of members k"
| "json_get k _ = None"

fun as_u64 :: "json \<Rightarrow> nat option" where
  "as_u64 (JInt n) = (if 0 \<le> n \<and> n < 2 ^ 64 then Some (nat n) else None)"
| "as_u64 _ = None"

fun as_str :: "json \<Rightarrow> string option" where
  "as_str (JStr s) = Some s"
| "as_str _ = None"

fun as_array :: "json \<Rightarrow> json list option" where
  "as_array (JArr xs) = Some xs"
| "as_array _ = None"

section \<open>Media LOAD (cast/mod.rs)\<close>

definition CONTENT_TYPE_FLAC :: string where
  "CONTENT_TYPE_FLAC = ''audio/flac''"

definition CONTENT_TYPE_WAV :: string where
  "CONTENT_TYPE_WAV = ''audio/wav''"

definition MEDIA_NAMESPACE :: string where
  "MEDIA_NAMESPACE = ''urn:x-cast:com.google.cast.media''"

datatype cast_stream_kind = Buffered | Live

fun wire_name :: "cast_stream_kind \<Rightarrow> string" where
  "wire_name Buffered = ''BUFFERED''"
| "wire_name Live = ''LIVE''"

record cast_track =
  title :: "string option"
  artist :: "string option"
  album :: "string option"
  image_url :: "string option"

definition default_track :: cast_track where
  "default_track = \<lparr>title = None, artist = None, album = None, image_url = None\<rparr>"

definition track_is_empty :: "cast_track \<Rightarrow> bool" where
  "track_is_empty t \<longleftrightarrow> title t = None \<and> artist t = None \<and> album t = None \<and> image_url t = None"

definition track_to_json :: "cast_track \<Rightarrow> json" where
  "track_to_json t = JObj
     ([(''metadataType'', JInt 3)]
      @ map (\<lambda>(k, v). (k, JStr (the v)))
          (filter (\<lambda>(k, v). v \<noteq> None)
            [(''title'', title t), (''artist'', artist t), (''albumName'', album t)])
      @ (case image_url t of None \<Rightarrow> []
         | Some url \<Rightarrow> [(''images'', JArr [JObj [(''url'', JStr url)]])]))"

record media_load_request =
  content_url :: string
  content_type :: string
  stream_kind :: cast_stream_kind
  load_track :: cast_track

definition load_flac :: "string \<Rightarrow> cast_stream_kind \<Rightarrow> media_load_request" where
  "load_flac url kind =
     \<lparr>content_url = url, content_type = CONTENT_TYPE_FLAC, stream_kind = kind, load_track = default_track\<rparr>"

definition load_wav :: "string \<Rightarrow> cast_stream_kind \<Rightarrow> media_load_request" where
  "load_wav url kind =
     \<lparr>content_url = url, content_type = CONTENT_TYPE_WAV, stream_kind = kind, load_track = default_track\<rparr>"

definition with_track :: "media_load_request \<Rightarrow> cast_track \<Rightarrow> media_load_request" where
  "with_track req t = req\<lparr>load_track := t\<rparr>"

text \<open>
  The \<open>Media\<close> message of \<open>rust_cast\<close>, with the fields the conversion fills; it leaves the album
  artist, composer, track and disc numbers, release date and duration unset.
\<close>

record music_metadata =
  md_title :: "string option"
  md_artist :: "string option"
  md_album :: "string option"
  md_images :: "string list"

record cast_media =
  content_id :: string
  media_stream_type :: cast_stream_kind
  media_content_type :: string
  media_metadata :: "music_metadata option"

definition track_to_metadata :: "cast_track \<Rightarrow> music_metadata option" where
  "track_to_metadata t =
     (if track_is_empty t then None
      else Some \<lparr>md_title = title t, md_artist = artist t, md_album = album t,
                 md_images = (case image_url t of None \<Rightarrow> [] | Some url \<Rightarrow> [url])\<rparr>)"

definition to_media :: "media_load_request \<Rightarrow> cast_media" where
  "to_media req =
     \<lparr>content_id = content_url req, media_stream_type = stream_kind req,
      media_content_type = content_type req, media_metadata = track_to_metadata (load_track req)\<rparr>"

definition queue_update_payload :: "media_load_request \<Rightarrow> nat \<Rightarrow> int \<Rightarrow> int \<Rightarrow> json" where
  "queue_update_payload req request_id media_sess item_id = JObj
     [(''type'', JStr ''QUEUE_UPDATE''),
      (''requestId'', JInt (int request_id)),
      (''mediaSessionId'', JInt media_sess),
      (''items'', JArr [JObj
         [(''itemId'', JInt item_id),
          (''media'', JObj
             [(''contentId'', JStr (content_url req)),
              (''streamType'', JStr (wire_name (stream_kind req))),
              (''contentType'', JStr (content_type req)),
              (''metadata'', track_to_json (load_track req))])]])]"

text \<open>A change made on the Cast side of a device (\<open>CastRemoteKind\<close>).\<close>

datatype cast_remote_kind = KindPaused | KindPlayed | KindVolume f32 bool

definition volume_level_clamped :: "f32 \<Rightarrow> f32" where
  "volume_level_clamped level =
     (if f32_less level f32_zero then f32_zero
      else if f32_less f32_one level then f32_one
      else level)"

record media_session_ref =
  transport_id :: string
  session_id :: string
  media_session_id :: int
  queue_item_id :: "int option"

datatype player_state = PlayerIdle | PlayerPlaying | PlayerBuffering | PlayerPaused

datatype idle_reason_code = IdleCancelled | IdleInterrupted | IdleFinished | IdleError

record status_entry =
  entry_media_session_id :: int
  current_item_id :: "int option"
  entry_player_state :: player_state
  entry_idle_reason :: "idle_reason_code option"
  entry_current_time :: "f32 option"

record media_playback =
  player_state_of :: player_state
  current_time_of :: "f32 option"

definition media_playback_from :: "status_entry \<Rightarrow> media_playback" where
  "media_playback_from e =
     \<lparr>player_state_of = entry_player_state e, current_time_of = entry_current_time e\<rparr>"

definition media_session_from_status ::
  "string \<Rightarrow> string \<Rightarrow> status_entry list \<Rightarrow> media_session_ref result" where
  "media_session_from_status transport session entries =
     (case entries of
        entry # _ \<Rightarrow>
          Inr \<lparr>transport_id = transport, session_id = session,
               media_session_id = entry_media_session_id entry,
               queue_item_id = current_item_id entry\<rparr>
      | [] \<Rightarrow> Inl (ErrCast ''LOAD status had no media session entries''))"

section \<open>Multizone (cast/multizone.rs)\<close>

definition MULTIZONE_NAMESPACE :: string where
  "MULTIZONE_NAMESPACE = ''urn:x-cast:com.google.cast.multizone''"

record playback_device =
  pd_device_id :: string
  pd_ip_address :: string
  pd_port :: u16

record set_playback_devices =
  spd_devices :: "playback_device list"
  spd_session_name :: "string option"

definition set_playback_devices_payload :: "set_playback_devices \<Rightarrow> nat \<Rightarrow> string \<Rightarrow> json" where
  "set_playback_devices_payload r request_id sess_id = JObj
     ([(''requestId'', JInt (int request_id)),
       (''type'', JStr ''SET_PLAYBACK_DEVICES''),
       (''sessionId'', JStr sess_id),
       (''deviceList'', JArr (map (\<lambda>d. JObj
          [(''deviceId'', JStr (pd_device_id d)),
           (''ipAddress'', JStr (pd_ip_address d)),
           (''port'', JInt (uint (pd_port d)))]) (spd_devices r)))]
      @ (case spd_session_name r of None \<Rightarrow> [] | Some name \<Rightarrow> [(''sessionName'', JStr name)]))"

record session_endpoint =
  ep_device_id :: string
  ep_ip_address :: string
  ep_port :: u16
  ep_session_id :: "string option"

record playback_session_update =
  psu_name :: "string option"
  failed_devices :: "string list"
  psu_endpoint :: "session_endpoint option"

record multizone_member =
  mm_device_id :: string
  mm_level :: u32

definition get_status_payload :: "nat \<Rightarrow> json" where
  "get_status_payload request_id =
     JObj [(''requestId'', JInt (int request_id)), (''type'', JStr ''GET_STATUS'')]"

definition normalize_device_id :: "string \<Rightarrow> string" where
  "normalize_device_id i = map ascii_lower (filter (\<lambda>c. c \<noteq> CHR ''-'') i)"

definition invalid_request_error :: "json \<Rightarrow> error" where
  "invalid_request_error v = ErrCast (''multizone INVALID_REQUEST: '' @
     (case Option.bind (json_get ''reason'' v) as_str of None \<Rightarrow> ''unknown'' | Some r \<Rightarrow> r))"

text \<open>
  \<open>decode_status\<close> is the derived decoding of \<open>StatusBody\<close>: the listed devices, each with the level
  (its bits) when the message carries one.
\<close>

definition parse_multizone_status_reply ::
  "(string \<Rightarrow> json option) \<Rightarrow> (json \<Rightarrow> (string \<times> u32 option) list option) \<Rightarrow> string \<Rightarrow> nat
    \<Rightarrow> multizone_member list result option" where
  "parse_multizone_status_reply from_str decode_status payload request_id =
     (case from_str payload of None \<Rightarrow> None
      | Some v \<Rightarrow>
         if Option.bind (json_get ''requestId'' v) as_u64 \<noteq> Some request_id then None
         else (case Option.bind (json_get ''type'' v) as_str of None \<Rightarrow> None
           | Some t \<Rightarrow>
              if t = ''MULTIZONE_STATUS'' then
                Some (case Option.bind (json_get ''status'' v) decode_status of
                    None \<Rightarrow> Inl (ErrCast ''MULTIZONE_STATUS without a member list'')
                  | Some devs \<Rightarrow> Inr (List.map_filter (\<lambda>(did, level).
                      map_option (\<lambda>l. \<lparr>mm_device_id = normalize_device_id did, mm_level = l\<rparr>) level) devs))
              else if t = ''INVALID_REQUEST'' then Some (Inl (invalid_request_error v))
              else None))"

definition parse_endpoint :: "json \<Rightarrow> session_endpoint option" where
  "parse_endpoint v =
     (case Option.bind (json_get ''deviceId'' v) as_str of None \<Rightarrow> None
      | Some did \<Rightarrow> (case Option.bind (json_get ''ipAddress'' v) as_str of None \<Rightarrow> None
      | Some ip \<Rightarrow> (case Option.bind (json_get ''port'' v) as_u64 of None \<Rightarrow> None
      | Some p \<Rightarrow>
          if p < 2 ^ 16 then
            Some \<lparr>ep_device_id = did, ep_ip_address = ip, ep_port = of_nat p,
                  ep_session_id = Option.bind (json_get ''sessionId'' v) as_str\<rparr>
          else None)))"

definition parse_set_playback_devices_reply ::
  "(string \<Rightarrow> json option) \<Rightarrow> string \<Rightarrow> nat \<Rightarrow> playback_session_update result option" where
  "parse_set_playback_devices_reply from_str payload request_id =
     (case from_str payload of None \<Rightarrow> None
      | Some v \<Rightarrow>
         if Option.bind (json_get ''requestId'' v) as_u64 \<noteq> Some request_id then None
         else (case Option.bind (json_get ''type'' v) as_str of None \<Rightarrow> None
           | Some t \<Rightarrow>
              if t = ''PLAYBACK_SESSION_UPDATED'' then
                Some (Inr \<lparr>psu_name = Option.bind (json_get ''name'' v) as_str,
                  failed_devices =
                    (case Option.bind (json_get ''failedDevices'' v) as_array of
                       None \<Rightarrow> []
                     | Some ids \<Rightarrow> map normalize_device_id (List.map_filter as_str ids)),
                  psu_endpoint = Option.bind (json_get ''sessionEndpoint'' v) parse_endpoint\<rparr>)
              else if t = ''INVALID_REQUEST'' then Some (Inl (invalid_request_error v))
              else None))"

section \<open>Facts\<close>

lemma normalize_device_id_idem: "normalize_device_id (normalize_device_id i) = normalize_device_id i"
proof -
  have "ascii_lower c \<noteq> CHR ''-''" if "c \<noteq> CHR ''-''" for c
  proof (cases "is_ascii_upper c")
    case True
    then have b: "(of_char c :: nat) + 32 < 256" "65 \<le> (of_char c :: nat)"
      by (auto simp: is_ascii_upper_def)
    have "(of_char (ascii_lower c) :: nat) = of_char c + 32"
      using True b by (simp add: ascii_lower_def)
    with b have "(of_char (ascii_lower c) :: nat) \<noteq> of_char (CHR ''-'')" by simp
    then show ?thesis by metis
  next
    case False
    with that show ?thesis by (simp add: ascii_lower_def)
  qed
  then have "filter (\<lambda>c. c \<noteq> CHR ''-'' \<and> ascii_lower c \<noteq> CHR ''-'') i = filter (\<lambda>c. c \<noteq> CHR ''-'') i"
    by (intro filter_cong) auto
  then have "filter (\<lambda>c. c \<noteq> CHR ''-'') (map ascii_lower (filter (\<lambda>c. c \<noteq> CHR ''-'') i))
      = map ascii_lower (filter (\<lambda>c. c \<noteq> CHR ''-'') i)"
    by (simp add: filter_map o_def conj_commute)
  then show ?thesis by (simp add: normalize_device_id_def)
qed

lemma reply_none_for_other_request:
  assumes "from_str payload = Some v" and "Option.bind (json_get ''requestId'' v) as_u64 \<noteq> Some n"
  shows "parse_set_playback_devices_reply from_str payload n = None"
    and "parse_multizone_status_reply from_str dec payload n = None"
  using assms by (simp_all add: parse_set_playback_devices_reply_def parse_multizone_status_reply_def)

end
