(* ===== verification/Registry.thy ===== *)
theory Registry
  imports Prelude
begin

text \<open>
  The registry of discovered Cast devices (\<open>src/registry.rs\<close>): appear and leave, the debounced
  (pending) leave driven by mDNS removes, the stale backstop, and the decision to withdraw an
  AirPlay receiver. The read-write lock is held for the whole of every operation, so each one is
  a function on the registry; clock readings are arguments.
\<close>

section \<open>Constants and pure decisions\<close>

definition DEFAULT_PENDING_LEAVE :: duration where
  "DEFAULT_PENDING_LEAVE = from_secs 20"

definition SESSION_GUARD_GONE :: duration where
  "SESSION_GUARD_GONE = from_secs 60"

definition DEFAULT_STALE_TTL :: duration where
  "DEFAULT_STALE_TTL = from_secs 600"

definition should_leave_linux_stale :: "bool \<Rightarrow> bool \<Rightarrow> bool" where
  "should_leave_linux_stale ttl_expired cast_reachable \<longleftrightarrow> ttl_expired \<and> \<not> cast_reachable"

definition linux_service_removed_triggers_leave :: bool where
  "linux_service_removed_triggers_leave \<longleftrightarrow> False"

definition CAST_GROUP_MODEL :: string where
  "CAST_GROUP_MODEL = ''Google Cast Group''"

definition pending_leave_is_due :: "instant \<Rightarrow> instant \<Rightarrow> bool" where
  "pending_leave_is_due deadline now \<longleftrightarrow> deadline \<le> now"

datatype withdraw_decision = Keep | Defer | Withdraw

definition decide_airplay_withdraw :: "bool \<Rightarrow> bool \<Rightarrow> duration \<Rightarrow> duration \<Rightarrow> withdraw_decision" where
  "decide_airplay_withdraw is_desired has_session gone_for min_gone =
     (if is_desired then Keep
      else if has_session then Defer
      else if gone_for \<ge> min_gone then Withdraw
      else Defer)"

section \<open>Devices and the registry\<close>

record device =
  dev_id :: string
  dev_name :: string
  dev_model :: string
  dev_host :: string
  dev_hostname :: string
  dev_port :: u16
  last_seen :: instant
  dev_instance :: string
  pending_leave_deadline :: "instant option"
  pending_leave_since :: "instant option"

definition device_new :: "string \<Rightarrow> string \<Rightarrow> string \<Rightarrow> string \<Rightarrow> u16 \<Rightarrow> string \<Rightarrow> instant \<Rightarrow> device" where
  "device_new did name host hostname port instance_name now =
     \<lparr>dev_id = did, dev_name = name, dev_model = [], dev_host = host, dev_hostname = hostname,
      dev_port = port, last_seen = now, dev_instance = instance_name,
      pending_leave_deadline = None, pending_leave_since = None\<rparr>"

definition with_model :: "device \<Rightarrow> string \<Rightarrow> device" where
  "with_model dev model = dev\<lparr>dev_model := model\<rparr>"

datatype pending_leave_mark = NotFound | NewlyMarked | AlreadyPending

definition match_device_for_leave :: "device list \<Rightarrow> string \<Rightarrow> device option" where
  "match_device_for_leave devices instance_name =
     (case find (\<lambda>d. dev_id d = instance_name) devices of
        Some d \<Rightarrow> Some d
      | None \<Rightarrow> find (\<lambda>d. dev_instance d = instance_name) devices)"

record registry =
  inner :: "(string, device) hashmap"
  pending_leave_cancellations :: "string list"

definition registry_new :: registry where
  "registry_new = \<lparr>inner = [], pending_leave_cancellations = []\<rparr>"

definition is_pending :: "device \<Rightarrow> bool" where
  "is_pending d \<longleftrightarrow> pending_leave_deadline d \<noteq> None"

definition clear_pending :: "device \<Rightarrow> device" where
  "clear_pending d = d\<lparr>pending_leave_deadline := None, pending_leave_since := None\<rparr>"

definition appear :: "device \<Rightarrow> instant \<Rightarrow> registry \<Rightarrow> bool \<times> registry" where
  "appear dev now r =
     (let key = dev_id dev;
          is_new = (hm_get (inner r) key = None);
          was_pending = (case hm_get (inner r) key of None \<Rightarrow> False | Some d \<Rightarrow> is_pending d);
          fresh = (clear_pending dev)\<lparr>last_seen := now\<rparr>;
          r' = r\<lparr>inner := hm_insert key fresh (inner r)\<rparr>
      in (is_new,
          if was_pending
          then r'\<lparr>pending_leave_cancellations := pending_leave_cancellations r' @ [key]\<rparr>
          else r'))"

definition drain_pending_leave_cancellations :: "registry \<Rightarrow> string list \<times> registry" where
  "drain_pending_leave_cancellations r =
     (pending_leave_cancellations r, r\<lparr>pending_leave_cancellations := []\<rparr>)"

definition leave :: "string \<Rightarrow> registry \<Rightarrow> device option \<times> registry" where
  "leave did r = (hm_get (inner r) did, r\<lparr>inner := hm_remove did (inner r)\<rparr>)"

definition mark_pending_leave ::
  "string \<Rightarrow> instant \<Rightarrow> duration \<Rightarrow> registry \<Rightarrow> pending_leave_mark \<times> registry" where
  "mark_pending_leave did now grace r =
     (case hm_get (inner r) did of
        None \<Rightarrow> (NotFound, r)
      | Some d \<Rightarrow>
          if is_pending d then (AlreadyPending, r)
          else (NewlyMarked,
                r\<lparr>inner := hm_insert did
                    (d\<lparr>pending_leave_since := Some now,
                       pending_leave_deadline := Some (now + grace)\<rparr>) (inner r)\<rparr>))"

definition mark_pending_leave_by_instance ::
  "string \<Rightarrow> instant \<Rightarrow> duration \<Rightarrow> registry \<Rightarrow> (string \<times> pending_leave_mark) option \<times> registry" where
  "mark_pending_leave_by_instance instance_name now grace r =
     (case match_device_for_leave (hm_values (inner r)) instance_name of
        None \<Rightarrow> (None, r)
      | Some d \<Rightarrow>
          (let (mark, r') = mark_pending_leave (dev_id d) now grace r
           in (Some (dev_id d, mark), r')))"

definition cancel_pending_leave :: "string \<Rightarrow> registry \<Rightarrow> bool \<times> registry" where
  "cancel_pending_leave did r =
     (case hm_get (inner r) did of
        None \<Rightarrow> (False, r)
      | Some d \<Rightarrow> (is_pending d, r\<lparr>inner := hm_insert did (clear_pending d) (inner r)\<rparr>))"

definition is_pending_leave :: "string \<Rightarrow> registry \<Rightarrow> bool" where
  "is_pending_leave did r = (case hm_get (inner r) did of None \<Rightarrow> False | Some d \<Rightarrow> is_pending d)"

text \<open>The removal loop shared by \<open>take_due_leaves\<close>, \<open>prune_older_than\<close> and \<open>expire_stale_where\<close>.\<close>

fun remove_ids :: "string list \<Rightarrow> (string, device) hashmap \<Rightarrow> device list \<times> (string, device) hashmap" where
  "remove_ids [] m = ([], m)"
| "remove_ids (did # ids) m =
     (case hm_get m did of
        None \<Rightarrow> remove_ids ids (hm_remove did m)
      | Some d \<Rightarrow> (let (removed, m') = remove_ids ids (hm_remove did m) in (d # removed, m')))"

definition take_due_leaves :: "instant \<Rightarrow> registry \<Rightarrow> device list \<times> registry" where
  "take_due_leaves now r =
     (let due = map fst (filter (\<lambda>(did, d).
                  case pending_leave_deadline d of
                    None \<Rightarrow> False
                  | Some deadline \<Rightarrow> pending_leave_is_due deadline now) (inner r));
          (removed, m) = remove_ids due (inner r)
      in (removed, r\<lparr>inner := m\<rparr>))"

definition list_all_devices :: "registry \<Rightarrow> device list" where
  "list_all_devices r = hm_values (inner r)"

definition list_present :: "registry \<Rightarrow> device list" where
  "list_present r = filter (\<lambda>d. \<not> is_pending d) (hm_values (inner r))"

definition get :: "string \<Rightarrow> registry \<Rightarrow> device option" where
  "get did r = hm_get (inner r) did"

definition registry_len :: "registry \<Rightarrow> nat" where
  "registry_len r = length (inner r)"

definition registry_is_empty :: "registry \<Rightarrow> bool" where
  "registry_is_empty r \<longleftrightarrow> inner r = []"

definition prune_older_than :: "duration \<Rightarrow> instant \<Rightarrow> registry \<Rightarrow> device list \<times> registry" where
  "prune_older_than max_age now r =
     (let stale = map fst (filter (\<lambda>(did, d).
                    if is_pending d then False else now - last_seen d > max_age) (inner r));
          (removed, m) = remove_ids stale (inner r)
      in (removed, r\<lparr>inner := m\<rparr>))"

definition expire_stale :: "duration \<Rightarrow> instant \<Rightarrow> registry \<Rightarrow> device list \<times> registry" where
  "expire_stale ttl now r = prune_older_than ttl now r"

definition expire_stale_where ::
  "duration \<Rightarrow> (device \<Rightarrow> bool) \<Rightarrow> instant \<Rightarrow> registry \<Rightarrow> device list \<times> registry" where
  "expire_stale_where ttl should_expire now r =
     (let stale = map fst (filter (\<lambda>(did, d).
                    if is_pending d then False
                    else now - last_seen d > ttl \<and> should_expire d) (inner r));
          (removed, m) = remove_ids stale (inner r)
      in (removed, r\<lparr>inner := m\<rparr>))"

section \<open>Invariant and runs\<close>

text \<open>
  Every entry sits under its own id, and the two pending-leave fields are set together.
\<close>

definition registry_ok :: "registry \<Rightarrow> bool" where
  "registry_ok r \<longleftrightarrow>
     hm_ok (inner r) \<and>
     (\<forall>did d. hm_get (inner r) did = Some d \<longrightarrow>
        dev_id d = did \<and> (pending_leave_deadline d = None \<longleftrightarrow> pending_leave_since d = None))"

datatype registry_op =
    Appear device instant
  | DrainCancellations
  | Leave string
  | Mark string instant duration
  | MarkByInstance string instant duration
  | Cancel string
  | TakeDue instant
  | Prune duration instant
  | ExpireWhere duration "device \<Rightarrow> bool" instant

fun registry_step :: "registry \<Rightarrow> registry_op \<Rightarrow> registry" where
  "registry_step r (Appear d now) = snd (appear d now r)"
| "registry_step r DrainCancellations = snd (drain_pending_leave_cancellations r)"
| "registry_step r (Leave did) = snd (leave did r)"
| "registry_step r (Mark did now grace) = snd (mark_pending_leave did now grace r)"
| "registry_step r (MarkByInstance inst now grace) =
     snd (mark_pending_leave_by_instance inst now grace r)"
| "registry_step r (Cancel did) = snd (cancel_pending_leave did r)"
| "registry_step r (TakeDue now) = snd (take_due_leaves now r)"
| "registry_step r (Prune age now) = snd (prune_older_than age now r)"
| "registry_step r (ExpireWhere ttl p now) = snd (expire_stale_where ttl p now r)"

lemma remove_ids_map: "snd (remove_ids ids m) = foldl (\<lambda>acc k. hm_remove k acc) m ids"
  by (induction ids m rule: remove_ids.induct) (auto split: option.splits prod.splits)

lemma remove_ids_get:
  "hm_get (snd (remove_ids ids m)) k = (if k \<in> set ids then None else hm_get m k)"
  by (simp add: remove_ids_map hm.lookup_fold_drop)

lemma remove_ids_ok: "hm_ok m \<Longrightarrow> hm_ok (snd (remove_ids ids m))"
  by (simp add: remove_ids_map hm.inv_fold_drop)

lemma remove_ids_removed:
  "distinct ids \<Longrightarrow> set (fst (remove_ids ids m)) = {d. \<exists>did \<in> set ids. hm_get m did = Some d}"
proof (induction ids m rule: remove_ids.induct)
  case (1 m)
  then show ?case by simp
next
  case (2 did ids m)
  have fresh: "did \<notin> set ids" using "2.prems" by simp
  have tail: "set (fst (remove_ids ids (hm_remove did m))) = {d. \<exists>j \<in> set ids. hm_get m j = Some d}"
  proof -
    have "set (fst (remove_ids ids (hm_remove did m)))
        = {d. \<exists>j \<in> set ids. hm_get (hm_remove did m) j = Some d}"
      using 2 by (cases "hm_get m did") auto
    also have "\<dots> = {d. \<exists>j \<in> set ids. hm_get m j = Some d}"
      using fresh by auto
    finally show ?thesis .
  qed
  show ?case
    using tail by (cases "hm_get m did") (auto split: prod.splits)
qed

text \<open>The removal by a predicate on the entries, in one lemma for the three callers.\<close>

lemma remove_where:
  assumes ok: "hm_ok m"
    and eq: "remove_ids (map fst (filter (\<lambda>(did, d). p d) m)) m = (removed, m')"
  shows "hm_ok m'"
    and "set removed = {d. \<exists>did. hm_get m did = Some d \<and> p d}"
    and "hm_get m' k = (case hm_get m k of None \<Rightarrow> None | Some d \<Rightarrow> if p d then None else Some d)"
proof -
  let ?ids = "map fst (filter (\<lambda>(did, d). p d) m)"
  have ids: "j \<in> set ?ids \<longleftrightarrow> (\<exists>d. hm_get m j = Some d \<and> p d)" for j
    using ok by (force simp: hm_get_iff)
  have dist: "distinct ?ids"
    using ok by (auto simp: hm_ok_def intro: distinct_map_filter)
  show "hm_ok m'"
    using remove_ids_ok [OF ok, of ?ids] eq by simp
  show "set removed = {d. \<exists>did. hm_get m did = Some d \<and> p d}"
  proof -
    have "set removed = {d. \<exists>j \<in> set ?ids. hm_get m j = Some d}"
      using remove_ids_removed [OF dist, of m] eq by (simp only: fst_conv)
    also have "\<dots> = {d. \<exists>j. hm_get m j = Some d \<and> p d}"
      unfolding Bex_def ids by auto
    finally show ?thesis .
  qed
  have "hm_get m' k = (if k \<in> set ?ids then None else hm_get m k)"
    using remove_ids_get [of ?ids m k] eq by simp
  then show "hm_get m' k = (case hm_get m k of None \<Rightarrow> None | Some d \<Rightarrow> if p d then None else Some d)"
    using ids [of k] by (auto split: option.splits)
qed

lemma registry_ok_sub:
  assumes "registry_ok r" and "hm_ok m'"
    and "\<And>k d. hm_get m' k = Some d \<Longrightarrow> hm_get (inner r) k = Some d"
  shows "registry_ok (r\<lparr>inner := m'\<rparr>)"
  using assms by (auto simp: registry_ok_def)

lemma registry_ok_remove_where:
  assumes "registry_ok r"
  shows "registry_ok (r\<lparr>inner := snd (remove_ids (map fst (filter (\<lambda>(did, d). p d) (inner r))) (inner r))\<rparr>)"
proof -
  obtain removed m' where eq:
    "remove_ids (map fst (filter (\<lambda>(did, d). p d) (inner r))) (inner r) = (removed, m')" by force
  have ok: "hm_ok (inner r)" using assms by (simp add: registry_ok_def)
  show ?thesis
    using registry_ok_sub [OF assms remove_where(1) [OF ok eq]] remove_where(3) [OF ok eq] eq
    by (force split: option.splits if_splits)
qed

lemma registry_ok_insert:
  assumes "registry_ok r" and "dev_id d = did"
    and "pending_leave_deadline d = None \<longleftrightarrow> pending_leave_since d = None"
  shows "registry_ok (r\<lparr>inner := hm_insert did d (inner r)\<rparr>)"
  using assms by (auto simp: registry_ok_def)

lemma registry_ok_cancellations:
  "registry_ok (r\<lparr>pending_leave_cancellations := cs\<rparr>) = registry_ok r"
  by (simp add: registry_ok_def)

lemma registry_ok_appear: "registry_ok r \<Longrightarrow> registry_ok (snd (appear d now r))"
  using registry_ok_insert [of r "(clear_pending d)\<lparr>last_seen := now\<rparr>" "dev_id d"]
  by (auto simp: appear_def Let_def clear_pending_def registry_ok_cancellations)

lemma registry_ok_mark: "registry_ok r \<Longrightarrow> registry_ok (snd (mark_pending_leave did now grace r))"
  by (auto simp: mark_pending_leave_def registry_ok_def split: option.splits)

lemma registry_ok_step: "registry_ok r \<Longrightarrow> registry_ok (registry_step r op)"
proof (cases op)
  case (Leave did)
  assume "registry_ok r"
  with Leave show ?thesis by (auto simp: leave_def registry_ok_def)
next
  case (Cancel did)
  assume "registry_ok r"
  with Cancel show ?thesis
    by (auto simp: cancel_pending_leave_def registry_ok_def clear_pending_def split: option.splits)
next
  case (TakeDue now)
  assume "registry_ok r"
  from registry_ok_remove_where [OF this,
      of "\<lambda>d. case pending_leave_deadline d of None \<Rightarrow> False | Some t \<Rightarrow> pending_leave_is_due t now"]
  show ?thesis by (simp add: TakeDue take_due_leaves_def Let_def case_prod_beta)
next
  case (Prune age now)
  assume "registry_ok r"
  from registry_ok_remove_where [OF this,
      of "\<lambda>d. if is_pending d then False else now - last_seen d > age"]
  show ?thesis by (simp add: Prune prune_older_than_def Let_def case_prod_beta)
next
  case (ExpireWhere ttl p now)
  assume "registry_ok r"
  from registry_ok_remove_where [OF this,
      of "\<lambda>d. if is_pending d then False else now - last_seen d > ttl \<and> p d"]
  show ?thesis by (simp add: ExpireWhere expire_stale_where_def Let_def case_prod_beta)
next
  case (MarkByInstance inst now grace)
  assume ok: "registry_ok r"
  have "registry_ok (snd (mark_pending_leave (dev_id d) now grace r))" for d
    by (rule registry_ok_mark [OF ok])
  with ok MarkByInstance show ?thesis
    by (auto simp: mark_pending_leave_by_instance_def case_prod_beta split: option.splits)
qed (auto simp: registry_ok_appear registry_ok_mark registry_ok_cancellations
      drain_pending_leave_cancellations_def)

interpretation reg: event_machine registry_step registry_ok
  by unfold_locales (rule registry_ok_step)

lemma registry_ok_new: "registry_ok registry_new"
  by (simp add: registry_ok_def registry_new_def)


section \<open>Functional behaviour\<close>

lemma appear_get:
  "get k (snd (appear d now r)) =
     (if k = dev_id d then Some ((clear_pending d)\<lparr>last_seen := now\<rparr>) else get k r)"
  by (simp add: appear_def get_def Let_def)

lemma take_due_get:
  assumes "registry_ok r"
  shows "get k (snd (take_due_leaves now r)) =
     (case get k r of None \<Rightarrow> None
      | Some d \<Rightarrow> (case pending_leave_deadline d of
            None \<Rightarrow> Some d
          | Some t \<Rightarrow> if t \<le> now then None else Some d))"
    and "set (fst (take_due_leaves now r)) =
     {d. \<exists>k t. get k r = Some d \<and> pending_leave_deadline d = Some t \<and> t \<le> now}"
proof -
  let ?p = "\<lambda>d. case pending_leave_deadline d of None \<Rightarrow> False | Some t \<Rightarrow> pending_leave_is_due t now"
  have ok: "hm_ok (inner r)" using assms by (simp add: registry_ok_def)
  obtain removed m' where eq:
    "remove_ids (map fst (filter (\<lambda>(k, d). ?p d) (inner r))) (inner r) = (removed, m')" by force
  have res: "take_due_leaves now r = (removed, r\<lparr>inner := m'\<rparr>)"
    using eq by (simp add: take_due_leaves_def Let_def)
  show "get k (snd (take_due_leaves now r)) =
     (case get k r of None \<Rightarrow> None
      | Some d \<Rightarrow> (case pending_leave_deadline d of
            None \<Rightarrow> Some d
          | Some t \<Rightarrow> if t \<le> now then None else Some d))"
    using remove_where(3) [OF ok eq, of k]
    by (auto simp: res get_def pending_leave_is_due_def split: option.splits)
  show "set (fst (take_due_leaves now r)) =
     {d. \<exists>k t. get k r = Some d \<and> pending_leave_deadline d = Some t \<and> t \<le> now}"
    using remove_where(2) [OF ok eq]
    by (auto simp: res get_def pending_leave_is_due_def split: option.splits)
qed

lemma expire_where_get:
  assumes "registry_ok r"
  shows "get k (snd (expire_stale_where ttl p now r)) =
     (case get k r of None \<Rightarrow> None
      | Some d \<Rightarrow> if \<not> is_pending d \<and> ttl < now - last_seen d \<and> p d then None else Some d)"
    and "set (fst (expire_stale_where ttl p now r)) =
     {d. \<exists>k. get k r = Some d \<and> \<not> is_pending d \<and> ttl < now - last_seen d \<and> p d}"
proof -
  let ?p = "\<lambda>d. if is_pending d then False else now - last_seen d > ttl \<and> p d"
  have ok: "hm_ok (inner r)" using assms by (simp add: registry_ok_def)
  obtain removed m' where eq:
    "remove_ids (map fst (filter (\<lambda>(k, d). ?p d) (inner r))) (inner r) = (removed, m')" by force
  have res: "expire_stale_where ttl p now r = (removed, r\<lparr>inner := m'\<rparr>)"
    using eq by (simp add: expire_stale_where_def Let_def)
  show "get k (snd (expire_stale_where ttl p now r)) =
     (case get k r of None \<Rightarrow> None
      | Some d \<Rightarrow> if \<not> is_pending d \<and> ttl < now - last_seen d \<and> p d then None else Some d)"
    using remove_where(3) [OF ok eq, of k] by (auto simp: res get_def split: option.splits)
  show "set (fst (expire_stale_where ttl p now r)) =
     {d. \<exists>k. get k r = Some d \<and> \<not> is_pending d \<and> ttl < now - last_seen d \<and> p d}"
    using remove_where(2) [OF ok eq] by (auto simp: res get_def)
qed

lemma mark_newly_get:
  assumes "get k r = Some d" and "\<not> is_pending d"
  shows "fst (mark_pending_leave k t g r) = NewlyMarked"
    and "get k (snd (mark_pending_leave k t g r)) =
         Some (d\<lparr>pending_leave_since := Some t, pending_leave_deadline := Some (t + g)\<rparr>)"
  using assms by (auto simp: mark_pending_leave_def get_def)

lemma mark_again: 
  assumes "get k r = Some d" and "is_pending d"
  shows "mark_pending_leave k t g r = (AlreadyPending, r)"
  using assms by (simp add: mark_pending_leave_def get_def)

lemma foldl_mark_again:
  assumes "get k r = Some d" and "is_pending d"
  shows "foldl (\<lambda>s (t, g). snd (mark_pending_leave k t g s)) r marks = r"
  using mark_again [OF assms] by (induction marks) auto

section \<open>Properties\<close>

text \<open>
  in every run of the registry's operations from the empty registry, each entry is stored
  once, under its own device id, and its two pending-leave fields are set and cleared together.
\<close>

theorem registry_run_ok: "registry_ok (foldl registry_step registry_new ops)"
  by (rule reg.run_inv [OF registry_ok_new])

text \<open>
  a debounced leave. A present device marked at time \<open>t\<close> with grace \<open>g\<close>, and then marked
  again any number of times, leaves exactly at the tick whose time has reached \<open>t + g\<close>: the later
  marks do not move the deadline, and every other device keeps its own state.
\<close>

theorem pending_leave_debounce:
  assumes ok: "registry_ok r" and dev: "get k r = Some d" and present: "\<not> is_pending d"
  shows "get k (snd (take_due_leaves now
           (foldl (\<lambda>s (t', g'). snd (mark_pending_leave k t' g' s))
             (snd (mark_pending_leave k t g r)) marks)))
         = (if t + g \<le> now then None
            else Some (d\<lparr>pending_leave_since := Some t, pending_leave_deadline := Some (t + g)\<rparr>))"
proof -
  let ?d = "d\<lparr>pending_leave_since := Some t, pending_leave_deadline := Some (t + g)\<rparr>"
  let ?r = "snd (mark_pending_leave k t g r)"
  have marked: "get k ?r = Some ?d" by (rule mark_newly_get(2) [OF dev present])
  have "foldl (\<lambda>s (t', g'). snd (mark_pending_leave k t' g' s)) ?r marks = ?r"
    by (rule foldl_mark_again [OF marked]) (simp add: is_pending_def)
  with take_due_get(1) [OF registry_ok_mark [OF ok], of k now k t g] marked
  show ?thesis by simp
qed

definition nest_audio :: device where
  "nest_audio = device_new ''k1'' ''Kitchen'' ''10.0.0.7'' ''k1.local'' 8009 ''Nest-k1'' 0"

definition nest_registry :: registry where
  "nest_registry = snd (appear nest_audio 5 registry_new)"

lemma nest_registry_ok: "registry_ok nest_registry"
  by (simp add: nest_registry_def registry_ok_appear registry_ok_new)

lemma nest_registry_get: "get ''k1'' nest_registry = Some (nest_audio\<lparr>last_seen := 5\<rparr>)"
  by (simp add: nest_registry_def appear_get nest_audio_def device_new_def clear_pending_def)

lemma nest_not_pending: "\<not> is_pending (nest_audio\<lparr>last_seen := 5\<rparr>)"
  by (simp add: nest_audio_def device_new_def is_pending_def)

theorem pending_leave_debounce_witness:
  "get ''k1'' (snd (take_due_leaves 30
      (foldl (\<lambda>s (t', g'). snd (mark_pending_leave ''k1'' t' g' s))
        (snd (mark_pending_leave ''k1'' 10 20 nest_registry)) [(25, 20)]))) = None"
  using pending_leave_debounce [OF nest_registry_ok nest_registry_get nest_not_pending,
      of 30 10 20 "[(25, 20)]"] by simp

text \<open>
  a re-sighting cancels the debounce: after \<open>appear\<close> the device survives every later tick
  of \<open>take_due_leaves\<close>, its id is queued for \<open>drain_pending_leave_cancellations\<close> exactly when a
  leave was pending, and \<open>appear\<close> reports a first sighting exactly when the id was absent.
\<close>

theorem reappear_cancels_leave:
  assumes "registry_ok r"
  shows "get (dev_id d) (snd (take_due_leaves later (snd (appear d now r))))
           = Some ((clear_pending d)\<lparr>last_seen := now\<rparr>)
    \<and> pending_leave_cancellations (snd (appear d now r)) =
           pending_leave_cancellations r @ (if is_pending_leave (dev_id d) r then [dev_id d] else [])
    \<and> (fst (appear d now r) \<longleftrightarrow> get (dev_id d) r = None)"
proof (intro conjI)
  show "get (dev_id d) (snd (take_due_leaves later (snd (appear d now r))))
           = Some ((clear_pending d)\<lparr>last_seen := now\<rparr>)"
    using take_due_get(1) [OF registry_ok_appear [OF assms], of "dev_id d" later d now]
    by (simp add: appear_get clear_pending_def)
  show "pending_leave_cancellations (snd (appear d now r)) =
           pending_leave_cancellations r @ (if is_pending_leave (dev_id d) r then [dev_id d] else [])"
    by (auto simp: appear_def Let_def is_pending_leave_def split: option.splits)
  show "fst (appear d now r) \<longleftrightarrow> get (dev_id d) r = None"
    by (simp add: appear_def Let_def get_def)
qed

theorem reappear_cancels_leave_witness:
  "get ''k1'' (snd (take_due_leaves 99
     (snd (appear nest_audio 12 (snd (mark_pending_leave ''k1'' 10 20 nest_registry))))))
   = Some ((clear_pending nest_audio)\<lparr>last_seen := 12\<rparr>)"
  using reappear_cancels_leave
    [OF registry_ok_mark [OF nest_registry_ok], of nest_audio 99 12 "''k1''" 10 20]
  by (simp add: nest_audio_def device_new_def)

text \<open>
  the Linux backstop. An expiry pass removes exactly the devices that are not pending leave,
  whose last sighting is older than the TTL, and whose warm Cast worker is unreachable; a healthy
  worker keeps a device however stale its mDNS record is, and the removed devices are returned.
\<close>

theorem linux_stale_expiry:
  fixes reach :: "string \<Rightarrow> bool" and ttl now :: nat and r :: registry
  defines "pass \<equiv> expire_stale_where ttl
     (\<lambda>d. should_leave_linux_stale True (reach (dev_id d))) now r"
  assumes ok: "registry_ok r"
  shows "get k (snd pass) = (case get k r of None \<Rightarrow> None
      | Some d \<Rightarrow> if \<not> is_pending d \<and> ttl < now - last_seen d \<and> \<not> reach k then None else Some d)
    \<and> set (fst pass) =
      {d. get (dev_id d) r = Some d \<and> \<not> is_pending d \<and> ttl < now - last_seen d \<and> \<not> reach (dev_id d)}"
proof -
  have own: "dev_id d = j" if "get j r = Some d" for j d
    using ok that by (auto simp: registry_ok_def get_def)
  have "get k (snd pass) = (case get k r of None \<Rightarrow> None
      | Some d \<Rightarrow> if \<not> is_pending d \<and> ttl < now - last_seen d \<and> \<not> reach k then None else Some d)"
    using expire_where_get(1) [OF ok, of k ttl] own
    by (auto simp: pass_def should_leave_linux_stale_def split: option.splits)
  moreover have "set (fst pass) =
      {d. get (dev_id d) r = Some d \<and> \<not> is_pending d \<and> ttl < now - last_seen d \<and> \<not> reach (dev_id d)}"
    using expire_where_get(2) [OF ok, of ttl] own
    by (auto simp: pass_def should_leave_linux_stale_def)
  ultimately show ?thesis by blast
qed

theorem linux_stale_expiry_witness:
  "get ''k1'' (snd (expire_stale_where 600
     (\<lambda>d. should_leave_linux_stale True ((\<lambda>_. False) (dev_id d))) 1000 nest_registry)) = None"
  using linux_stale_expiry [OF nest_registry_ok, of "''k1''" 600 "\<lambda>_. False" 1000]
  by (simp add: nest_registry_get nest_not_pending)

end
