(* ===== verification/Bridge_State.thy ===== *)
theory Bridge_State
  imports Bridge_Decisions Media_State Cast_Payload Registry
begin

text \<open>
  The state of the session bridge (\<open>src/bridge/state.rs\<close>, \<open>src/bridge/mod.rs\<close>): per-device slots
  with generation stamps, the playing session, and the bridge itself.

  Aliasing. A playing session shares some cells (liveness flags, the paused mirror, the Cast
  route, volume, track, re-LOAD flight) with its detached tasks through \<open>Arc\<close>s, and those tasks
  outlive the slot that held the session. The cells live in a store \<open>shared\<close> indexed by the
  session's identity \<open>sid\<close>, so a task still sees the writes of a teardown after the session was
  taken out of its slot. Everything else in the session is owned by the slot.

  Effects. What an operation hands to other parts of the program (detached teardowns, queued
  events, session hosts to close, watchdogs, commands to the sender) is appended to \<open>effects\<close>,
  in order.
\<close>

section \<open>Session data\<close>

record ring_pump =
  pump_source :: ring_ref
  pump_target :: "ring_ref option"

definition pump_spawn :: "ring_ref \<Rightarrow> ring_pump" where
  "pump_spawn source = \<lparr>pump_source = source, pump_target = None\<rparr>"

definition forward_into :: "ring_ref \<Rightarrow> ring_pump \<Rightarrow> ring_pump" where
  "forward_into sink p = p\<lparr>pump_target := Some sink\<rparr>"

record cast_route =
  route_media :: string
  route_volume :: string

definition cast_route_new :: "string \<Rightarrow> string \<Rightarrow> cast_route" where
  "cast_route_new media vol = \<lparr>route_media = media, route_volume = vol\<rparr>"

record shared_cells =
  route :: cast_route
  playback_paused :: bool
  session_alive :: bool
  late_stop_allowed :: bool
  last_volume_linear :: "f32 option"
  track :: cast_track
  reload_flight_held :: bool

datatype session_task =
    PauseTask u64 instant u64
  | PlayTask u64
  | ReloadTask u64 string "u64 option"
  | GroupReloadTask u64 string

fun task_generation :: "session_task \<Rightarrow> u64" where
  "task_generation (PauseTask g _ _) = g"
| "task_generation (PlayTask g) = g"
| "task_generation (ReloadTask g _ _) = g"
| "task_generation (GroupReloadTask g _) = g"

record playing_session =
  sid :: nat
  media :: media_handle
  ps_device_id :: string
  ps_group :: "string option"
  ps_ring :: ring_ref
  ps_source :: "ring_pump option"
  ps_stream_url :: string
  cast_name :: string
  ps_channels :: u16
  ps_sample_rate :: u32
  ps_egress :: egress_kind
  paused :: bool
  paused_at :: "instant option"
  flush_reload_requested :: u64
  flush_reload_done :: u64
  last_stall_reload_at :: "instant option"
  stall_reload_owed :: bool
  started_at :: instant
  flac_strike :: "(instant \<times> flac_strike_reason) option"
  tasks :: "session_task list"
  rollover_running :: bool
  watchdog :: "(string \<times> u64) option"

record following_session =
  fs_group :: string
  fs_sample_rate :: u32
  fs_pump :: ring_pump

datatype device_state =
    Idle
  | Starting u64
  | Playing u64 playing_session
  | Following u64 following_session

record device_slot =
  slot_generation :: u64
  slot_state :: device_state

definition default_slot :: device_slot where
  "default_slot = \<lparr>slot_generation = 0, slot_state = Idle\<rparr>"

fun live_gen :: "device_state \<Rightarrow> u64 option" where
  "live_gen Idle = None"
| "live_gen (Starting g) = Some g"
| "live_gen (Playing g _) = Some g"
| "live_gen (Following g _) = Some g"

fun is_live :: "device_state \<Rightarrow> bool" where
  "is_live Idle = False"
| "is_live (Starting _) = True"
| "is_live (Playing _ _) = True"
| "is_live (Following _ _) = True"

definition flush_reload_owed :: "playing_session \<Rightarrow> bool" where
  "flush_reload_owed s \<longleftrightarrow> flush_reload_requested s > flush_reload_done s"

definition airplay_ring :: "playing_session \<Rightarrow> ring_ref" where
  "airplay_ring s = (case ps_source s of None \<Rightarrow> ps_ring s | Some p \<Rightarrow> pump_source p)"

section \<open>Events and effects\<close>

record now_playing =
  np_title :: "string option"
  np_artist :: "string option"
  np_album :: "string option"
  np_artwork :: "artwork option"

datatype airplay_event =
    EvStarted string u32 ring_ref "string option"
  | EvEnded string
  | EvPaused string instant
  | EvResumed string
  | EvFlushed string
  | EvVolume string f32
  | EvNowPlaying string now_playing

fun event_device_id :: "airplay_event \<Rightarrow> string" where
  "event_device_id (EvStarted d _ _ _) = d"
| "event_device_id (EvEnded d) = d"
| "event_device_id (EvPaused d _) = d"
| "event_device_id (EvResumed d) = d"
| "event_device_id (EvFlushed d) = d"
| "event_device_id (EvVolume d _) = d"
| "event_device_id (EvNowPlaying d _) = d"

datatype remote_command = RemotePause | RemotePlay

datatype bridge_effect =
    Teardown playing_session teardown_cast_policy
  | KickClients "string list"
  | SpawnReconcile string
  | RedispatchEvent airplay_event
  | CloseSessionHost string
  | StopPump ring_pump
  | StopWatchdog string u64
  | SpawnWatchdog string u64
  | SpawnRollover nat
  | UpdateMetadata string cast_track
  | SendToSender string remote_command
  | ReportVolume string f32 bool
  | SetReportedVolume string f32
  | MediaShutdown media_handle
  | CastLoad string media_load_request
  | CastStop string
  | CastPause string
  | CastPlay string
  | CastPlaybackProbe string
  | CastSetVolume string f32
  | CastSessionEnded string
  | AbortSessionTasks nat
  | StopRollover nat
  | JoinInflightLoad nat
  | CastSetPlaybackDevices string set_playback_devices
  | CastOpenHost string string u16
  | CastMoveSession string string "string option"
  | ReadGroupMembers string
  | SpawnGroupVolume string

text \<open>
  The \<open>Cast\<dots>\<close> effects are the calls of the \<open>CastControl\<close> trait, in the order they are made;
  what they return is an input of the step that follows the call.
\<close>

section \<open>Groups and the bridge\<close>

record cast_group =
  owner :: "string option"
  followers :: "string list"
  cast_members :: "string list"
  host_key :: "string option"
  excluded :: "string set"
  promoting :: "string option"
  reconcile_running :: bool
  reconcile_dirty :: bool

definition default_group :: cast_group where
  "default_group = \<lparr>owner = None, followers = [], cast_members = [], host_key = None,
     excluded = {}, promoting = None, reconcile_running = False, reconcile_dirty = False\<rparr>"

definition group_is_empty :: "cast_group \<Rightarrow> bool" where
  "group_is_empty g \<longleftrightarrow> owner g = None \<and> followers g = [] \<and> excluded g = {}"

definition media_key :: "cast_group \<Rightarrow> string option" where
  "media_key g = (case host_key g of Some k \<Rightarrow> Some k | None \<Rightarrow> owner g)"

record group_member =
  gm_device_id :: string
  gm_level :: f32

record group_volume =
  gv_target :: "f32 option"
  gv_running :: bool
  gv_members :: "(instant \<times> group_member list) option"

definition default_group_volume :: group_volume where
  "default_group_volume = \<lparr>gv_target = None, gv_running = False, gv_members = None\<rparr>"

record bridge =
  registry_of :: registry
  devices :: "(string, device_slot) hashmap"
  groups :: "(string, cast_group) hashmap"
  flac_fallback :: "string set"
  group_volumes :: "(string, group_volume) hashmap"
  shared :: "nat \<Rightarrow> shared_cells"
  next_sid :: nat
  effects :: "bridge_effect list"

definition default_cells :: shared_cells where
  "default_cells =
     \<lparr>route = cast_route_new [] [], playback_paused = False, session_alive = False,
      late_stop_allowed = False, last_volume_linear = None, track = default_track,
      reload_flight_held = False\<rparr>"

definition bridge_new :: "registry \<Rightarrow> bridge" where
  "bridge_new r = \<lparr>registry_of = r, devices = [], groups = [], flac_fallback = {},
     group_volumes = [], shared = (\<lambda>_. default_cells), next_sid = 0, effects = []\<rparr>"

section \<open>Access to slots, cells and effects\<close>

definition emit :: "bridge_effect \<Rightarrow> bridge \<Rightarrow> bridge" where
  "emit e b = b\<lparr>effects := effects b @ [e]\<rparr>"

definition emit_all :: "bridge_effect list \<Rightarrow> bridge \<Rightarrow> bridge" where
  "emit_all es b = b\<lparr>effects := effects b @ es\<rparr>"

definition slot_of :: "string \<Rightarrow> bridge \<Rightarrow> device_slot" where
  "slot_of d b = hm_entry default_slot d (devices b)"

definition set_slot :: "string \<Rightarrow> device_slot \<Rightarrow> bridge \<Rightarrow> bridge" where
  "set_slot d slot b = b\<lparr>devices := hm_insert d slot (devices b)\<rparr>"

definition state_of :: "string \<Rightarrow> bridge \<Rightarrow> device_state option" where
  "state_of d b = map_option slot_state (hm_get (devices b) d)"

definition set_state :: "string \<Rightarrow> device_state \<Rightarrow> bridge \<Rightarrow> bridge" where
  "set_state d st b = set_slot d ((slot_of d b)\<lparr>slot_state := st\<rparr>) b"

definition playing_at :: "string \<Rightarrow> bridge \<Rightarrow> (u64 \<times> playing_session) option" where
  "playing_at d b = (case state_of d b of Some (Playing g s) \<Rightarrow> Some (g, s) | _ \<Rightarrow> None)"

definition upd_cells :: "nat \<Rightarrow> (shared_cells \<Rightarrow> shared_cells) \<Rightarrow> bridge \<Rightarrow> bridge" where
  "upd_cells n f b = b\<lparr>shared := (shared b)(n := f (shared b n))\<rparr>"

definition set_group :: "string \<Rightarrow> cast_group \<Rightarrow> bridge \<Rightarrow> bridge" where
  "set_group u g b = b\<lparr>groups := hm_insert u g (groups b)\<rparr>"

definition has_session :: "string \<Rightarrow> bridge \<Rightarrow> bool" where
  "has_session d b = (case state_of d b of None \<Rightarrow> False | Some st \<Rightarrow> is_live st)"

definition session_generation :: "string \<Rightarrow> bridge \<Rightarrow> u64 option" where
  "session_generation d b = Option.bind (state_of d b) live_gen"

definition spawn_session_task :: "string \<Rightarrow> u64 \<Rightarrow> session_task \<Rightarrow> bridge \<Rightarrow> bridge" where
  "spawn_session_task d generation task b =
     (case playing_at d b of
        Some (g, s) \<Rightarrow>
          if g = generation then set_state d (Playing g (s\<lparr>tasks := tasks s @ [task]\<rparr>)) b else b
      | None \<Rightarrow> b)"

named_theorems bridge_access "unfolding of the access functions into the stored maps"

lemma state_of_set_slot [simp]:
  "state_of d' (set_slot d slot b) = (if d' = d then Some (slot_state slot) else state_of d' b)"
  by (simp add: state_of_def set_slot_def)

lemma state_of_set_state [simp]:
  "state_of d' (set_state d st b) = (if d' = d then Some st else state_of d' b)"
  by (simp add: set_state_def)

lemma slot_of_set_slot [simp]:
  "slot_of d' (set_slot d slot b) = (if d' = d then slot else slot_of d' b)"
  by (simp add: slot_of_def set_slot_def hm_entry_def)

lemma slot_of_set_state [simp]:
  "slot_of d' (set_state d st b) =
     (if d' = d then (slot_of d b)\<lparr>slot_state := st\<rparr> else slot_of d' b)"
  by (simp add: set_state_def)

lemma access_frames [simp]:
  "state_of d (emit e b) = state_of d b" "slot_of d (emit e b) = slot_of d b"
  "state_of d (emit_all es b) = state_of d b" "slot_of d (emit_all es b) = slot_of d b"
  "state_of d (upd_cells n f b) = state_of d b" "slot_of d (upd_cells n f b) = slot_of d b"
  "state_of d (set_group u g b) = state_of d b" "slot_of d (set_group u g b) = slot_of d b"
  "groups (set_slot d slot b) = groups b" "groups (set_state d st b) = groups b"
  "groups (emit e b) = groups b" "groups (emit_all es b) = groups b"
  "groups (upd_cells n f b) = groups b"
  "groups (set_group u g b) = hm_insert u g (groups b)"
  "shared (set_slot d slot b) = shared b" "shared (set_state d st b) = shared b"
  "shared (emit e b) = shared b" "shared (emit_all es b) = shared b"
  "shared (set_group u g b) = shared b"
  "shared (upd_cells n f b) = (shared b)(n := f (shared b n))"
  "next_sid (set_slot d slot b) = next_sid b" "next_sid (set_state d st b) = next_sid b"
  "next_sid (emit e b) = next_sid b" "next_sid (emit_all es b) = next_sid b"
  "next_sid (set_group u g b) = next_sid b" "next_sid (upd_cells n f b) = next_sid b"
  "effects (set_slot d slot b) = effects b" "effects (set_state d st b) = effects b"
  "effects (emit e b) = effects b @ [e]" "effects (emit_all es b) = effects b @ es"
  "effects (set_group u g b) = effects b" "effects (upd_cells n f b) = effects b"
  "devices (emit e b) = devices b" "devices (emit_all es b) = devices b"
  "devices (upd_cells n f b) = devices b" "devices (set_group u g b) = devices b"
  "devices (set_slot d slot b) = hm_insert d slot (devices b)"
  "registry_of (set_slot d slot b) = registry_of b" "registry_of (set_state d st b) = registry_of b"
  "registry_of (emit e b) = registry_of b" "registry_of (upd_cells n f b) = registry_of b"
  "flac_fallback (set_slot d slot b) = flac_fallback b"
  "flac_fallback (set_state d st b) = flac_fallback b"
  "flac_fallback (emit e b) = flac_fallback b" "flac_fallback (upd_cells n f b) = flac_fallback b"
  "flac_fallback (emit_all es b) = flac_fallback b" "flac_fallback (set_group u g b) = flac_fallback b"
  "registry_of (emit_all es b) = registry_of b" "registry_of (set_group u g b) = registry_of b"
  by (simp_all add: state_of_def slot_of_def emit_def emit_all_def upd_cells_def set_group_def
      set_slot_def set_state_def)

lemma playing_at_iff: "playing_at d b = Some (g, s) \<longleftrightarrow> state_of d b = Some (Playing g s)"
  by (auto simp: playing_at_def split: option.splits device_state.splits)

lemma playing_at_None_iff: "playing_at d b = None \<longleftrightarrow> (\<nexists>g s. state_of d b = Some (Playing g s))"
  by (auto simp: playing_at_def split: option.splits device_state.splits)

lemma spawn_stale_dropped:
  "(\<And>s. state_of d b \<noteq> Some (Playing generation s)) \<Longrightarrow> spawn_session_task d generation task b = b"
  by (auto simp: spawn_session_task_def playing_at_def split: option.splits device_state.splits)

end
