(* ===== verification/Bridge_Slots.thy ===== *)
theory Bridge_Slots
  imports Bridge_State
begin

text \<open>
  The generation-stamped slot of one device: accepting a start, clearing a start that did not
  come through, taking the live session out (\<open>src/bridge/start.rs\<close>, \<open>src/bridge/teardown.rs\<close>).

  Each function is one critical section of \<open>Bridge::devices\<close>. A task handle that is aborted
  (\<open>RingPump::stop\<close>) is recorded as an effect.
\<close>

section \<open>Accepting a start\<close>

text \<open>The result is the new slot, its generation, the session it replaced, and the stopped pump.\<close>

definition accept_start_in ::
  "device_slot \<Rightarrow> device_slot \<times> u64 \<times> playing_session option \<times> ring_pump option" where
  "accept_start_in slot =
     (let generation = saturating_add (slot_generation slot) 1;
          slot' = \<lparr>slot_generation = generation, slot_state = Starting generation\<rparr>
      in case slot_state slot of
           Playing _ session \<Rightarrow> (slot', generation, Some session, None)
         | Starting _ \<Rightarrow> (slot', generation, None, None)
         | Following _ follower \<Rightarrow> (slot', generation, None, Some (fs_pump follower))
         | Idle \<Rightarrow> (slot', generation, None, None))"

definition stop_pump :: "ring_pump option \<Rightarrow> bridge \<Rightarrow> bridge" where
  "stop_pump p b = (case p of None \<Rightarrow> b | Some pump \<Rightarrow> emit (StopPump pump) b)"

definition accept_start :: "string \<Rightarrow> bridge \<Rightarrow> bridge \<times> u64 \<times> playing_session option" where
  "accept_start d b =
     (let (slot', generation, prior, pump) = accept_start_in (slot_of d b)
      in (stop_pump pump (set_slot d slot' b), generation, prior))"

definition clear_starting_if :: "string \<Rightarrow> u64 \<Rightarrow> bridge \<Rightarrow> bridge" where
  "clear_starting_if d generation b =
     (if state_of d b = Some (Starting generation) then set_state d Idle b else b)"

definition starting_still :: "string \<Rightarrow> u64 \<Rightarrow> bridge \<Rightarrow> bool" where
  "starting_still d generation b \<longleftrightarrow> state_of d b = Some (Starting generation)"

section \<open>Taking the live session\<close>

definition take_live_session :: "string \<Rightarrow> bridge \<Rightarrow> bridge \<times> (u64 \<times> playing_session) option" where
  "take_live_session d b =
     (case state_of d b of
        None \<Rightarrow> (b, None)
      | Some (Playing g s) \<Rightarrow> (set_state d Idle b, Some (g, s))
      | Some Idle \<Rightarrow> (b, None)
      | Some (Starting _) \<Rightarrow> (set_state d Idle b, None)
      | Some (Following _ f) \<Rightarrow> (emit (StopPump (fs_pump f)) (set_state d Idle b), None))"

definition take_live_session_if_gen ::
  "string \<Rightarrow> u64 \<Rightarrow> bridge \<Rightarrow> bridge \<times> playing_session option" where
  "take_live_session_if_gen d generation b =
     (case playing_at d b of
        Some (g, s) \<Rightarrow> if g = generation then (set_state d Idle b, Some s) else (b, None)
      | None \<Rightarrow> (b, None))"

definition detach_teardown :: "playing_session \<Rightarrow> teardown_cast_policy \<Rightarrow> bridge \<Rightarrow> bridge" where
  "detach_teardown s policy b = emit (Teardown s policy) b"

text \<open>What a start does with the session it replaced.\<close>

definition detach_prior :: "playing_session option \<Rightarrow> teardown_cast_policy \<Rightarrow> bridge \<Rightarrow> bridge" where
  "detach_prior prior policy b =
     (case prior of None \<Rightarrow> b | Some s \<Rightarrow> detach_teardown s policy b)"

definition is_following :: "string \<Rightarrow> bridge \<Rightarrow> bool" where
  "is_following d b \<longleftrightarrow> (case state_of d b of Some (Following _ _) \<Rightarrow> True | _ \<Rightarrow> False)"

definition session_group :: "string \<Rightarrow> bridge \<Rightarrow> string option" where
  "session_group d b = (case playing_at d b of Some (_, s) \<Rightarrow> ps_group s | None \<Rightarrow> None)"

definition remember_flac_fallback :: "string \<Rightarrow> bridge \<Rightarrow> bridge" where
  "remember_flac_fallback d b = b\<lparr>flac_fallback := insert d (flac_fallback b)\<rparr>"

section \<open>Sessions held by slots\<close>

text \<open>Every session is either in exactly one slot or handed to a teardown.\<close>

definition slot_session :: "device_slot \<Rightarrow> playing_session list" where
  "slot_session slot = (case slot_state slot of Playing _ s \<Rightarrow> [s] | _ \<Rightarrow> [])"

definition sessions_in :: "(string, device_slot) hashmap \<Rightarrow> playing_session list" where
  "sessions_in m = concat (map (\<lambda>(d, slot). slot_session slot) m)"

definition torn_down :: "bridge_effect list \<Rightarrow> playing_session list" where
  "torn_down es = List.map_filter (\<lambda>e. case e of Teardown s _ \<Rightarrow> Some s | _ \<Rightarrow> None) es"

lemma torn_down_simps [simp]:
  "torn_down [] = []"
  "torn_down (es @ fs) = torn_down es @ torn_down fs"
  "torn_down (Teardown s p # es) = s # torn_down es"
  by (simp_all add: torn_down_def List.map_filter_def)

lemma torn_down_skip [simp]: "(\<And>s p. e \<noteq> Teardown s p) \<Longrightarrow> torn_down (e # es) = torn_down es"
  by (cases e) (auto simp: torn_down_def List.map_filter_def)

lemma stop_pump_frames [simp]:
  "devices (stop_pump p b) = devices b" "groups (stop_pump p b) = groups b"
  "shared (stop_pump p b) = shared b" "next_sid (stop_pump p b) = next_sid b"
  "state_of d (stop_pump p b) = state_of d b" "slot_of d (stop_pump p b) = slot_of d b"
  "registry_of (stop_pump p b) = registry_of b" "flac_fallback (stop_pump p b) = flac_fallback b"
  "torn_down (effects (stop_pump p b)) = torn_down (effects b)"
  by (auto simp: stop_pump_def split: option.splits)

section \<open>Facts about one slot\<close>

lemma accept_start_in_fresh:
  assumes "slot_generation slot \<noteq> - 1" "accept_start_in slot = (slot', g, prior, pump)"
  shows "slot_generation slot < g" "slot_generation slot' = g" "slot_state slot' = Starting g"
  using assms saturating_inc_greater [OF assms(1)]
  by (auto simp: accept_start_in_def Let_def split: device_state.splits)

lemma accept_start_in_prior:
  "accept_start_in slot = (slot', g, prior, pump) \<Longrightarrow>
     prior = (case slot_state slot of Playing _ s \<Rightarrow> Some s | _ \<Rightarrow> None)"
  by (auto simp: accept_start_in_def Let_def split: device_state.splits)

lemma clear_starting_if_not_starting [simp]:
  "state_of d (clear_starting_if d g b) \<noteq> Some (Starting g)"
  by (simp add: clear_starting_if_def)

lemma clear_starting_if_keeps:
  "state_of d b \<noteq> Some (Starting g) \<Longrightarrow> clear_starting_if d g b = b"
  by (simp add: clear_starting_if_def)

lemma clear_starting_if_other: "d' \<noteq> d \<Longrightarrow> state_of d' (clear_starting_if d g b) = state_of d' b"
  by (simp add: clear_starting_if_def)

lemma take_live_session_ends:
  "take_live_session d b = (b', r) \<Longrightarrow> state_of d b' \<in> {None, Some Idle}"
  by (auto simp: take_live_session_def split: option.splits device_state.splits)

lemma take_live_session_result:
  "take_live_session d b = (b', r) \<Longrightarrow> r = playing_at d b"
  by (auto simp: take_live_session_def playing_at_def split: option.splits device_state.splits)

lemma take_live_session_if_gen_result:
  "take_live_session_if_gen d g b = (b', Some s) \<longleftrightarrow>
     playing_at d b = Some (g, s) \<and> b' = set_state d Idle b"
  by (auto simp: take_live_session_if_gen_def split: option.splits if_splits)

lemma take_live_session_if_gen_None:
  "take_live_session_if_gen d g b = (b', None) \<longleftrightarrow>
     b' = b \<and> (\<nexists>s. playing_at d b = Some (g, s))"
  by (auto simp: take_live_session_if_gen_def split: option.splits if_splits)

end
