(* ===== verification/Bridge_Wf.thy ===== *)
theory Bridge_Wf
  imports Bridge_Slots "HOL-Library.Multiset"
begin

text \<open>
  Well-formedness of the bridge, and how it survives the primitive updates (a slot, a session in
  place, the shared cells of a session, a group, an effect). The components prove that their
  operations preserve it from these lemmas.

  A session is \<^emph>\<open>accounted for\<close> when it sits in exactly one slot or was handed to exactly one
  teardown: \<open>sids_ok\<close> says that of every session ever created.
\<close>

section \<open>Definitions\<close>

definition session_ok :: "shared_cells \<Rightarrow> string \<Rightarrow> u64 \<Rightarrow> playing_session \<Rightarrow> bool" where
  "session_ok c d g s \<longleftrightarrow>
     ps_device_id s = d \<and> route_volume (route c) = d \<and> watchdog s = Some (d, g) \<and>
     playback_paused c = paused s \<and> (paused s \<longleftrightarrow> paused_at s \<noteq> None) \<and>
     session_alive c \<and> late_stop_allowed c \<and>
     (ps_egress s = WavBuffered \<longrightarrow> rollover_running s) \<and>
     flush_reload_done s \<le> flush_reload_requested s"

definition slot_ok :: "(nat \<Rightarrow> shared_cells) \<Rightarrow> string \<Rightarrow> device_slot \<Rightarrow> bool" where
  "slot_ok sh d slot \<longleftrightarrow>
     (case slot_state slot of
        Idle \<Rightarrow> True
      | Starting g \<Rightarrow> g = slot_generation slot
      | Playing g s \<Rightarrow> g = slot_generation slot \<and> session_ok (sh (sid s)) d g s
      | Following g _ \<Rightarrow> g = slot_generation slot)"

definition group_ok :: "cast_group \<Rightarrow> bool" where
  "group_ok g \<longleftrightarrow>
     distinct (followers g) \<and> (\<forall>o'. owner g = Some o' \<longrightarrow> o' \<notin> set (followers g)) \<and>
     set (followers g) \<inter> excluded g = {} \<and> (reconcile_dirty g \<longrightarrow> reconcile_running g)"

definition sids_ok :: "bridge \<Rightarrow> bool" where
  "sids_ok b \<longleftrightarrow>
     mset (map sid (sessions_in (devices b))) + mset (map sid (torn_down (effects b)))
       = mset [0..<next_sid b]"

definition slots_ok :: "bridge \<Rightarrow> bool" where
  "slots_ok b \<longleftrightarrow> hm_ok (devices b) \<and> (\<forall>d. slot_ok (shared b) d (slot_of d b))"

definition groups_ok :: "bridge \<Rightarrow> bool" where
  "groups_ok b \<longleftrightarrow> hm_ok (groups b) \<and> (\<forall>u g. hm_get (groups b) u = Some g \<longrightarrow> group_ok g)"

definition bridge_ok :: "bridge \<Rightarrow> bool" where
  "bridge_ok b \<longleftrightarrow> slots_ok b \<and> groups_ok b \<and> sids_ok b"

section \<open>Sessions of a slot map\<close>

lemma slot_session_simps [simp]:
  "slot_session \<lparr>slot_generation = g', slot_state = Playing g s\<rparr> = [s]"
  "slot_session \<lparr>slot_generation = g', slot_state = Starting g\<rparr> = []"
  "slot_session \<lparr>slot_generation = g', slot_state = Following g f\<rparr> = []"
  "slot_session \<lparr>slot_generation = g', slot_state = Idle\<rparr> = []"
  "slot_session (slot\<lparr>slot_state := Playing g s\<rparr>) = [s]"
  "slot_session (slot\<lparr>slot_state := Starting g\<rparr>) = []"
  "slot_session (slot\<lparr>slot_state := Following g f\<rparr>) = []"
  "slot_session (slot\<lparr>slot_state := Idle\<rparr>) = []"
  "slot_session default_slot = []"
  by (simp_all add: slot_session_def default_slot_def)

lemma sessions_in_insert:
  "hm_ok m \<Longrightarrow>
   mset (sessions_in (hm_insert d slot m)) + mset (slot_session (hm_entry default_slot d m))
     = mset (sessions_in m) + mset (slot_session slot)"
proof (induction m)
  case Nil
  then show ?case by (simp add: sessions_in_def hm_insert_def hm_entry_def)
next
  case (Cons kv m)
  obtain k v where kv: "kv = (k, v)" by force
  have ok: "hm_ok m" and fresh: "k \<notin> fst ` set m"
    using Cons.prems by (auto simp: hm_ok_def kv)
  show ?case
  proof (cases "k = d")
    case True
    then show ?thesis by (simp add: kv sessions_in_def hm_insert_def hm_entry_def hm_get_def)
  next
    case False
    then show ?thesis
      using Cons.IH [OF ok] by (simp add: kv sessions_in_def hm_insert_def hm_entry_def hm_get_def)
  qed
qed

lemma sids_in_insert:
  assumes "hm_ok (devices b)"
  shows "mset (map sid (sessions_in (hm_insert d slot (devices b)))) + mset (map sid (slot_session (slot_of d b)))
     = mset (map sid (sessions_in (devices b))) + mset (map sid (slot_session slot))"
proof -
  from sessions_in_insert [OF assms, of d slot]
  have "image_mset sid (mset (sessions_in (hm_insert d slot (devices b))) + mset (slot_session (slot_of d b)))
      = image_mset sid (mset (sessions_in (devices b)) + mset (slot_session slot))"
    by (simp add: slot_of_def)
  then show ?thesis by simp
qed

lemma playing_at_slot: "playing_at d b = Some (g, s) \<longleftrightarrow> hm_get (devices b) d \<noteq> None \<and> slot_state (slot_of d b) = Playing g s"
  by (auto simp: playing_at_iff state_of_def slot_of_def hm_entry_def split: option.splits)

lemma playing_slot_session: "playing_at d b = Some (g, s) \<Longrightarrow> slot_session (slot_of d b) = [s]"
  by (simp add: playing_at_slot slot_session_def)

lemma playing_in_sessions: "playing_at d b = Some (g, s) \<Longrightarrow> s \<in> set (sessions_in (devices b))"
proof -
  assume p: "playing_at d b = Some (g, s)"
  then obtain slot where "hm_get (devices b) d = Some slot" and "slot_state slot = Playing g s"
    by (auto simp: playing_at_slot slot_of_def hm_entry_def)
  then show ?thesis
    by (force simp: sessions_in_def slot_session_def dest: hm_get_mem)
qed

lemma distinct_concat_shared:
  assumes "distinct (concat (map f xs))" "x \<in> set xs" "y \<in> set xs" "a \<in> set (f x)" "a \<in> set (f y)"
  shows "x = y"
  using assms by (induction xs) auto

lemma sids_distinct:
  assumes "sids_ok b"
  shows "distinct (map sid (sessions_in (devices b)))"
proof -
  have "distinct (map sid (sessions_in (devices b)) @ map sid (torn_down (effects b)))"
    using assms unfolding sids_ok_def by (metis distinct_upt mset_append mset_eq_imp_distinct_iff)
  then show ?thesis by simp
qed

lemma sid_owner_unique:
  assumes ok: "sids_ok b" and d: "playing_at d b = Some (g, s)" and d': "playing_at d' b = Some (g', s')"
    and same: "sid s = sid s'"
  shows "d = d'"
proof -
  obtain v where v: "(d, v) \<in> set (devices b)" "slot_session v = [s]"
    using d by (force simp: playing_at_slot slot_of_def hm_entry_def slot_session_def dest: hm_get_mem)
  obtain v' where v': "(d', v') \<in> set (devices b)" "slot_session v' = [s']"
    using d' by (force simp: playing_at_slot slot_of_def hm_entry_def slot_session_def dest: hm_get_mem)
  have "distinct (concat (map (\<lambda>(d, slot). map sid (slot_session slot)) (devices b)))"
    using sids_distinct [OF ok] by (simp add: sessions_in_def map_concat comp_def case_prod_unfold)
  from distinct_concat_shared [OF this v(1) v'(1), of "sid s"] v v' same show ?thesis by simp
qed

lemma live_sid_bound: "sids_ok b \<Longrightarrow> playing_at d b = Some (g, s) \<Longrightarrow> sid s < next_sid b"
proof -
  assume ok: "sids_ok b" and p: "playing_at d b = Some (g, s)"
  have "sid s \<in># mset (map sid (sessions_in (devices b))) + mset (map sid (torn_down (effects b)))"
    using playing_in_sessions [OF p] by simp
  then have "sid s \<in># mset [0..<next_sid b]" unfolding ok [unfolded sids_ok_def] .
  then have "sid s \<in> set [0..<next_sid b]" by (simp only: set_mset_mset)
  then show ?thesis by simp
qed

lemma fresh_sid_not_live: "sids_ok b \<Longrightarrow> playing_at d b = Some (g, s) \<Longrightarrow> sid s \<noteq> next_sid b"
  by (drule (1) live_sid_bound) simp

section \<open>Primitive updates\<close>

lemma slots_ok_get: "slots_ok b \<Longrightarrow> slot_ok (shared b) d (slot_of d b)"
  by (simp add: slots_ok_def)

lemma slots_ok_playing:
  "slots_ok b \<Longrightarrow> playing_at d b = Some (g, s) \<Longrightarrow>
     g = slot_generation (slot_of d b) \<and> session_ok (shared b (sid s)) d g s"
  using slots_ok_get [of b d] by (auto simp: slot_ok_def playing_at_slot)

lemma slots_ok_set_slot:
  "slots_ok b \<Longrightarrow> slot_ok (shared b) d slot \<Longrightarrow> slots_ok (set_slot d slot b)"
  by (auto simp: slots_ok_def)

lemma slots_ok_set_state:
  "slots_ok b \<Longrightarrow> slot_ok (shared b) d ((slot_of d b)\<lparr>slot_state := st\<rparr>) \<Longrightarrow> slots_ok (set_state d st b)"
  by (simp add: set_state_def slots_ok_set_slot)

lemma slots_ok_cong:
  "devices b' = devices b \<Longrightarrow> shared b' = shared b \<Longrightarrow> slots_ok b' = slots_ok b"
  by (simp add: slots_ok_def slot_of_def)

lemma groups_ok_cong: "groups b' = groups b \<Longrightarrow> groups_ok b' = groups_ok b"
  by (simp add: groups_ok_def)

lemma sids_ok_cong:
  "devices b' = devices b \<Longrightarrow> next_sid b' = next_sid b \<Longrightarrow>
   torn_down (effects b') = torn_down (effects b) \<Longrightarrow> sids_ok b' = sids_ok b"
  by (simp add: sids_ok_def)

text \<open>Cells of a session only matter to the slot that holds it.\<close>

lemma slots_ok_upd_cells:
  assumes "slots_ok b"
    and "\<And>d g s. playing_at d b = Some (g, s) \<Longrightarrow> sid s = n \<Longrightarrow> session_ok (f (shared b n)) d g s"
  shows "slots_ok (upd_cells n f b)"
proof -
  have "slot_ok ((shared b)(n := f (shared b n))) d (slot_of d b)" for d
  proof (cases "slot_state (slot_of d b)")
    case (Playing g s)
    then have p: "playing_at d b = Some (g, s)"
      by (auto simp: playing_at_slot slot_of_def hm_entry_def default_slot_def split: option.splits)
    with assms(2) [OF p] slots_ok_playing [OF assms(1) p] Playing show ?thesis
      by (auto simp: slot_ok_def)
  qed (use slots_ok_get [OF assms(1), of d] in \<open>auto simp: slot_ok_def\<close>)
  with assms(1) show ?thesis by (simp add: slots_ok_def)
qed

lemma groups_ok_set_group: "groups_ok b \<Longrightarrow> group_ok g \<Longrightarrow> groups_ok (set_group u g b)"
  by (auto simp: groups_ok_def)

lemma groups_ok_get: "groups_ok b \<Longrightarrow> hm_get (groups b) u = Some g \<Longrightarrow> group_ok g"
  by (simp add: groups_ok_def)

lemma group_ok_default [simp]: "group_ok default_group"
  by (simp add: group_ok_def default_group_def)

lemma group_ok_entry: "groups_ok b \<Longrightarrow> group_ok (hm_entry default_group u (groups b))"
  by (auto simp: hm_entry_def groups_ok_def split: option.splits)

lemma groups_ok_remove: "groups_ok b \<Longrightarrow> groups_ok (b\<lparr>groups := hm_remove u (groups b)\<rparr>)"
  by (auto simp: groups_ok_def)

lemma bridge_ok_frames [simp]:
  "slots_ok (emit e b) = slots_ok b" "slots_ok (emit_all es b) = slots_ok b"
  "slots_ok (set_group u g b) = slots_ok b" "slots_ok (stop_pump p b) = slots_ok b"
  "slots_ok (b\<lparr>groups := gs\<rparr>) = slots_ok b" "slots_ok (b\<lparr>flac_fallback := x\<rparr>) = slots_ok b"
  "slots_ok (b\<lparr>group_volumes := v\<rparr>) = slots_ok b"
  "groups_ok (emit e b) = groups_ok b" "groups_ok (emit_all es b) = groups_ok b"
  "groups_ok (set_slot d slot b) = groups_ok b" "groups_ok (set_state d st b) = groups_ok b"
  "groups_ok (upd_cells n f b) = groups_ok b" "groups_ok (stop_pump p b) = groups_ok b"
  "groups_ok (b\<lparr>flac_fallback := x\<rparr>) = groups_ok b" "groups_ok (b\<lparr>group_volumes := v\<rparr>) = groups_ok b"
  "sids_ok (set_group u g b) = sids_ok b" "sids_ok (upd_cells n f b) = sids_ok b"
  "sids_ok (stop_pump p b) = sids_ok b" "sids_ok (b\<lparr>groups := gs\<rparr>) = sids_ok b"
  "sids_ok (b\<lparr>flac_fallback := x\<rparr>) = sids_ok b" "sids_ok (b\<lparr>group_volumes := v\<rparr>) = sids_ok b"
  by (rule slots_ok_cong groups_ok_cong sids_ok_cong; simp)+

lemma sids_ok_emit [simp]: "(\<And>s p. e \<noteq> Teardown s p) \<Longrightarrow> sids_ok (emit e b) = sids_ok b"
  by (rule sids_ok_cong) auto

lemma sids_ok_emit_all [simp]: "torn_down es = [] \<Longrightarrow> sids_ok (emit_all es b) = sids_ok b"
  by (rule sids_ok_cong) auto

lemma sids_ok_set_slot:
  assumes "sids_ok b" "hm_ok (devices b)"
    and "mset (map sid (slot_session slot)) = mset (map sid (slot_session (slot_of d b)))"
  shows "sids_ok (set_slot d slot b)"
  using sids_in_insert [OF assms(2), of d slot] assms(1,3) by (simp add: sids_ok_def)

lemma sids_ok_set_state:
  "sids_ok b \<Longrightarrow> hm_ok (devices b) \<Longrightarrow>
   map sid (slot_session ((slot_of d b)\<lparr>slot_state := st\<rparr>)) = map sid (slot_session (slot_of d b)) \<Longrightarrow>
   sids_ok (set_state d st b)"
  unfolding set_state_def by (rule sids_ok_set_slot) auto

text \<open>Taking the session out of a slot and handing it to a teardown keeps the account.\<close>

lemma sids_ok_take:
  assumes "sids_ok b" "hm_ok (devices b)" "slot_session (slot_of d b) = [s]" "slot_session slot = []"
  shows "sids_ok (emit (Teardown s p) (set_slot d slot b))"
proof -
  let ?new = "mset (map sid (sessions_in (hm_insert d slot (devices b))))"
    and ?old = "mset (map sid (sessions_in (devices b)))"
    and ?td = "mset (map sid (torn_down (effects b)))"
  have one: "?new + {#sid s#} = ?old"
    using sids_in_insert [OF assms(2), of d slot] assms(3,4) by simp
  have "?new + (?td + {#sid s#}) = (?new + {#sid s#}) + ?td" by (simp only: ac_simps)
  also have "\<dots> = mset [0..<next_sid b]" unfolding one using assms(1) by (simp only: sids_ok_def)
  finally show ?thesis by (simp add: sids_ok_def)
qed

lemma bridge_okI: "slots_ok b \<Longrightarrow> groups_ok b \<Longrightarrow> sids_ok b \<Longrightarrow> bridge_ok b"
  by (simp add: bridge_ok_def)

lemma bridge_okD:
  assumes "bridge_ok b"
  shows "slots_ok b" "groups_ok b" "sids_ok b" "hm_ok (devices b)" "hm_ok (groups b)"
  using assms by (auto simp: bridge_ok_def slots_ok_def groups_ok_def)

lemma bridge_ok_new: "bridge_ok (bridge_new r)"
  by (simp add: bridge_ok_def slots_ok_def groups_ok_def sids_ok_def bridge_new_def sessions_in_def
      slot_of_def hm_entry_def slot_ok_def default_slot_def)

section \<open>Editing a session where it sits\<close>

definition edit_session ::
  "string \<Rightarrow> u64 \<Rightarrow> playing_session \<Rightarrow> playing_session \<Rightarrow> (shared_cells \<Rightarrow> shared_cells) \<Rightarrow> bridge \<Rightarrow> bridge" where
  "edit_session d g s s' f b = set_state d (Playing g s') (upd_cells (sid s) f b)"

lemma edit_session_frames [simp]:
  "state_of e (edit_session d g s s' f b) = (if e = d then Some (Playing g s') else state_of e b)"
  "groups (edit_session d g s s' f b) = groups b" "effects (edit_session d g s s' f b) = effects b"
  "next_sid (edit_session d g s s' f b) = next_sid b"
  "shared (edit_session d g s s' f b) = (shared b)(sid s := f (shared b (sid s)))"
  "flac_fallback (edit_session d g s s' f b) = flac_fallback b"
  by (simp_all add: edit_session_def)

lemma playing_at_edit_session [simp]:
  "playing_at e (edit_session d g s s' f b) = (if e = d then Some (g, s') else playing_at e b)"
  by (simp add: playing_at_def)

section \<open>Slot operations\<close>

lemma sids_ok_replace_slot:
  assumes ok: "sids_ok b" "hm_ok (devices b)"
    and new: "slot_session slot = []"
    and prior: "prior = (case slot_state (slot_of d b) of Playing _ s \<Rightarrow> Some s | _ \<Rightarrow> None)"
  shows "sids_ok (detach_prior prior p (set_slot d slot b))"
proof (cases "slot_state (slot_of d b)")
  case (Playing g s)
  with prior have "prior = Some s" "slot_session (slot_of d b) = [s]"
    by (simp_all add: slot_session_def)
  with sids_ok_take [OF ok _ new, where s = s and p = p] show ?thesis
    by (simp add: detach_prior_def detach_teardown_def)
qed (use assms sids_ok_set_slot [OF ok, of slot d] in \<open>auto simp: detach_prior_def slot_session_def\<close>)

lemma detach_prior_frames [simp]:
  "slots_ok (detach_prior prior p b) = slots_ok b" "groups_ok (detach_prior prior p b) = groups_ok b"
  "state_of d (detach_prior prior p b) = state_of d b" "groups (detach_prior prior p b) = groups b"
  "shared (detach_prior prior p b) = shared b" "devices (detach_prior prior p b) = devices b"
  "next_sid (detach_prior prior p b) = next_sid b"
  by (auto simp: detach_prior_def detach_teardown_def split: option.splits)

lemma sids_ok_detach_cong:
  "devices b' = devices b \<Longrightarrow> next_sid b' = next_sid b \<Longrightarrow>
   torn_down (effects b') = torn_down (effects b) \<Longrightarrow>
   sids_ok (detach_prior prior p b') = sids_ok (detach_prior prior p b)"
  by (rule sids_ok_cong; cases prior; simp add: detach_prior_def detach_teardown_def)

lemma torn_down_close_hosts [simp]: "torn_down (map CloseSessionHost ks) = []"
  by (induction ks) (auto simp: torn_down_def List.map_filter_def)

lemma detach_prior_commute:
  "sids_ok (detach_prior prior p (stop_pump q b)) = sids_ok (detach_prior prior p b)"
  "sids_ok (detach_prior prior p (emit_all (map CloseSessionHost ks) b)) = sids_ok (detach_prior prior p b)"
  "sids_ok (detach_prior prior p (emit (StopPump r) b)) = sids_ok (detach_prior prior p b)"
  by (rule sids_ok_detach_cong; simp)+

lemma accept_start_ok:
  assumes "bridge_ok b" "accept_start d b = (b', g, prior)"
  shows "bridge_ok (detach_prior prior p b')" "slots_ok b'" "groups_ok b'"
    "state_of d b' = Some (Starting g)" "groups b' = groups b" "shared b' = shared b"
    "\<And>e. e \<noteq> d \<Longrightarrow> state_of e b' = state_of e b"
    "prior = map_option snd (playing_at d b)"
proof -
  obtain slot' pump where a: "accept_start_in (slot_of d b) = (slot', g, prior, pump)"
    and b': "b' = stop_pump pump (set_slot d slot' b)"
    using assms(2) by (auto simp: accept_start_def split: prod.splits)
  have slot': "slot_state slot' = Starting g" "slot_generation slot' = g"
    using a by (auto simp: accept_start_in_def Let_def split: device_state.splits)
  then have ss: "slot_session slot' = []" by (simp add: slot_session_def)
  show so: "slots_ok b'"
    unfolding b' using bridge_okD(1) [OF assms(1)] slot' by (simp add: slots_ok_set_slot slot_ok_def)
  show go: "groups_ok b'" unfolding b' using bridge_okD(2) [OF assms(1)] by simp
  have "sids_ok (detach_prior prior p b')"
    unfolding b' detach_prior_commute
    using bridge_okD [OF assms(1)] ss accept_start_in_prior [OF a] by (intro sids_ok_replace_slot) auto
  with so go show "bridge_ok (detach_prior prior p b')" by (simp add: bridge_okI)
  show "state_of d b' = Some (Starting g)" "groups b' = groups b" "shared b' = shared b"
    "\<And>e. e \<noteq> d \<Longrightarrow> state_of e b' = state_of e b"
    by (simp_all add: b' slot')
  show "prior = map_option snd (playing_at d b)"
    using accept_start_in_prior [OF a]
    by (auto simp: playing_at_def state_of_def slot_of_def hm_entry_def default_slot_def
        split: option.splits device_state.splits)
qed

lemma set_idle_ok:
  "bridge_ok b \<Longrightarrow> playing_at d b = None \<Longrightarrow> bridge_ok (set_state d Idle b)"
proof -
  assume ok: "bridge_ok b" and np: "playing_at d b = None"
  have "slot_session (slot_of d b) = []"
    using np by (auto simp: playing_at_None_iff state_of_def slot_of_def hm_entry_def slot_session_def
        default_slot_def split: option.splits device_state.splits)
  then have "sids_ok (set_state d Idle b)"
    using bridge_okD [OF ok] by (intro sids_ok_set_state) auto
  moreover have "slots_ok (set_state d Idle b)"
    using bridge_okD(1) [OF ok] by (intro slots_ok_set_state) (auto simp: slot_ok_def)
  ultimately show ?thesis using bridge_okD(2) [OF ok] by (simp add: bridge_okI)
qed

lemma take_session_ok:
  "bridge_ok b \<Longrightarrow> playing_at d b = Some (g, s) \<Longrightarrow>
     bridge_ok (emit (Teardown s p) (set_state d Idle b))"
proof -
  assume ok: "bridge_ok b" and p: "playing_at d b = Some (g, s)"
  have "sids_ok (emit (Teardown s p) (set_state d Idle b))"
    unfolding set_state_def using bridge_okD [OF ok] playing_slot_session [OF p]
    by (intro sids_ok_take) auto
  moreover have "slots_ok (set_state d Idle b)"
    using bridge_okD(1) [OF ok] by (intro slots_ok_set_state) (auto simp: slot_ok_def)
  ultimately show ?thesis using bridge_okD(2) [OF ok] by (simp add: bridge_okI)
qed

lemma clear_starting_if_ok: "bridge_ok b \<Longrightarrow> bridge_ok (clear_starting_if d g b)"
  by (auto simp: clear_starting_if_def playing_at_def intro!: set_idle_ok)

lemma emit_ok [intro]: "bridge_ok b \<Longrightarrow> (\<And>s p. e \<noteq> Teardown s p) \<Longrightarrow> bridge_ok (emit e b)"
  by (simp add: bridge_ok_def)

lemma emit_all_ok [intro]: "bridge_ok b \<Longrightarrow> torn_down es = [] \<Longrightarrow> bridge_ok (emit_all es b)"
  by (simp add: bridge_ok_def)

text \<open>Updating a session where it sits.\<close>

lemma update_session_ok:
  assumes ok: "bridge_ok b" and p: "playing_at d b = Some (g, s)" and same: "sid s' = sid s"
    and new: "session_ok (f (shared b (sid s))) d g s'"
  shows "bridge_ok (set_state d (Playing g s') (upd_cells (sid s) f b))"
proof -
  have gen: "g = slot_generation (slot_of d b)"
    using slots_ok_playing [OF bridge_okD(1) [OF ok] p] by simp
  have "slot_ok (shared (upd_cells (sid s) f b)) e
      (slot_of e (set_state d (Playing g s') (upd_cells (sid s) f b)))" for e
  proof (cases "e = d")
    case True
    with gen new same show ?thesis by (simp add: slot_ok_def)
  next
    case False
    show ?thesis
    proof (cases "slot_state (slot_of e b)")
      case (Playing h t)
      then have pe: "playing_at e b = Some (h, t)"
        by (auto simp: playing_at_slot slot_of_def hm_entry_def default_slot_def split: option.splits)
      then have "sid t \<noteq> sid s"
        using sid_owner_unique [OF bridge_okD(3) [OF ok] pe p] False by blast
      with slots_ok_playing [OF bridge_okD(1) [OF ok] pe] Playing False show ?thesis
        by (auto simp: slot_ok_def)
    qed (use slots_ok_get [OF bridge_okD(1) [OF ok], of e] False in \<open>auto simp: slot_ok_def\<close>)
  qed
  then have "slots_ok (set_state d (Playing g s') (upd_cells (sid s) f b))"
    using bridge_okD(4) [OF ok] by (simp add: slots_ok_def set_state_def)
  moreover have "sids_ok (set_state d (Playing g s') (upd_cells (sid s) f b))"
    using bridge_okD [OF ok] playing_slot_session [OF p] same
    by (intro sids_ok_set_state) auto
  ultimately show ?thesis using bridge_okD(2) [OF ok] by (simp add: bridge_okI)
qed

lemma edit_session_ok:
  "bridge_ok b \<Longrightarrow> playing_at d b = Some (g, s) \<Longrightarrow> sid s' = sid s \<Longrightarrow>
   session_ok (f (shared b (sid s))) d g s' \<Longrightarrow> bridge_ok (edit_session d g s s' f b)"
  unfolding edit_session_def by (rule update_session_ok)

lemma upd_cells_id: "upd_cells n (\<lambda>c. c) b = b"
  by (simp add: upd_cells_def)

lemma update_session_plain_ok:
  assumes "bridge_ok b" "playing_at d b = Some (g, s)" "sid s' = sid s"
    "session_ok (shared b (sid s)) d g s'"
  shows "bridge_ok (set_state d (Playing g s') b)"
  using update_session_ok [OF assms(1-3), of "\<lambda>c. c"] assms(4) by (simp add: upd_cells_id)

lemma playing_session_ok:
  "bridge_ok b \<Longrightarrow> playing_at d b = Some (g, s) \<Longrightarrow> session_ok (shared b (sid s)) d g s"
  using slots_ok_playing bridge_okD(1) by blast

lemma upd_cells_ok:
  assumes "bridge_ok b"
    and "\<And>d g s. playing_at d b = Some (g, s) \<Longrightarrow> sid s = n \<Longrightarrow>
      session_ok (shared b n) d g s \<Longrightarrow> session_ok (f (shared b n)) d g s"
  shows "bridge_ok (upd_cells n f b)"
proof -
  have "slots_ok (upd_cells n f b)"
    using bridge_okD(1) [OF assms(1)] assms(2) slots_ok_playing by (intro slots_ok_upd_cells) auto
  then show ?thesis using bridge_okD [OF assms(1)] by (simp add: bridge_okI)
qed

lemma spawn_session_task_ok: "bridge_ok b \<Longrightarrow> bridge_ok (spawn_session_task d g t b)"
proof -
  assume ok: "bridge_ok b"
  show ?thesis
  proof (cases "playing_at d b")
    case None
    with ok show ?thesis by (simp add: spawn_session_task_def)
  next
    case (Some gs)
    obtain g' s where gs: "gs = (g', s)" by force
    have "session_ok (shared b (sid s)) d g' (s\<lparr>tasks := tasks s @ [t]\<rparr>)"
      using playing_session_ok [OF ok Some [unfolded gs]] by (simp add: session_ok_def)
    from update_session_plain_ok [OF ok Some [unfolded gs] _ this] ok show ?thesis
      by (auto simp: spawn_session_task_def Some gs)
  qed
qed

lemma remember_flac_fallback_ok: "bridge_ok b \<Longrightarrow> bridge_ok (remember_flac_fallback d b)"
  by (simp add: bridge_ok_def remember_flac_fallback_def)

section \<open>How slots evolve\<close>

text \<open>
  \<open>slot_evolves\<close> relates a slot before and after a piece of the program: the generation only
  grows, a new occupant has a new generation, a slot becomes \<open>Playing\<close> only from \<open>Starting\<close> or
  \<open>Following\<close> of the same generation, and the flush counters of a session in place only grow. It
  is a preorder, so it describes any interference between two steps of a task.
\<close>

definition slot_evolves :: "device_slot \<Rightarrow> device_slot \<Rightarrow> bool" where
  "slot_evolves a z \<longleftrightarrow>
     slot_generation a \<le> slot_generation z \<and>
     (case slot_state z of
        Idle \<Rightarrow> True
      | Starting g \<Rightarrow> slot_state a = Starting g \<or> slot_generation a < g
      | Following g _ \<Rightarrow> (case slot_state a of Following g' _ \<Rightarrow> g' = g | _ \<Rightarrow> False) \<or> slot_generation a < g
      | Playing g s' \<Rightarrow>
          (case slot_state a of
             Playing g' s \<Rightarrow> g' = g \<and> sid s = sid s' \<and>
               flush_reload_requested s \<le> flush_reload_requested s' \<and>
               flush_reload_done s \<le> flush_reload_done s'
           | Starting g' \<Rightarrow> g' = g
           | Following g' _ \<Rightarrow> g' = g
           | Idle \<Rightarrow> False) \<or> slot_generation a < g)"

definition evolves :: "bridge \<Rightarrow> bridge \<Rightarrow> bool" where
  "evolves b b' \<longleftrightarrow> (\<forall>d. slot_evolves (slot_of d b) (slot_of d b'))"

lemma slot_evolves_refl [simp]: "slot_evolves a a"
  by (auto simp: slot_evolves_def split: device_state.splits)

lemma slot_evolves_trans: "slot_evolves a y \<Longrightarrow> slot_evolves y z \<Longrightarrow> slot_evolves a z"
  unfolding slot_evolves_def
  by (cases "slot_state a"; cases "slot_state y"; cases "slot_state z") auto

lemma evolves_refl [simp]: "evolves b b"
  by (simp add: evolves_def)

lemma evolves_trans [trans]: "evolves a b \<Longrightarrow> evolves b c \<Longrightarrow> evolves a c"
  unfolding evolves_def using slot_evolves_trans by blast

lemma evolves_devices: "devices b' = devices b \<Longrightarrow> evolves b b'"
  by (simp add: evolves_def slot_of_def)

lemma evolves_step:
  "evolves a b \<Longrightarrow> devices b' = devices b \<Longrightarrow> evolves a b'"
  using evolves_devices evolves_trans by blast

lemma evolves_set_slot: "slot_evolves (slot_of d b) slot \<Longrightarrow> evolves b (set_slot d slot b)"
  by (simp add: evolves_def)

lemma evolves_set_state: "slot_evolves (slot_of d b) ((slot_of d b)\<lparr>slot_state := st\<rparr>) \<Longrightarrow> evolves b (set_state d st b)"
  by (simp add: evolves_def)

lemma evolves_set_idle [simp]: "evolves b (set_state d Idle b)"
  by (rule evolves_set_state) (simp add: slot_evolves_def)

lemma evolves_emit [simp]:
  "evolves a (emit e b) = evolves a b" "evolves a (emit_all es b) = evolves a b"
  "evolves a (set_group u g b) = evolves a b" "evolves a (upd_cells n f b) = evolves a b"
  "evolves a (stop_pump p b) = evolves a b" "evolves a (detach_prior prior pol b) = evolves a b"
  "evolves a (b\<lparr>groups := gs\<rparr>) = evolves a b" "evolves a (b\<lparr>flac_fallback := x\<rparr>) = evolves a b"
  "evolves a (b\<lparr>group_volumes := v\<rparr>) = evolves a b"
  "evolves a (remember_flac_fallback d b) = evolves a b"
  by (simp_all add: evolves_def slot_of_def remember_flac_fallback_def)

lemma evolves_accept_start:
  assumes "slot_generation (slot_of d b) \<noteq> - 1" "accept_start d b = (b', g, prior)"
  shows "evolves b b'"
proof -
  obtain slot' pump where a: "accept_start_in (slot_of d b) = (slot', g, prior, pump)"
    and b': "b' = stop_pump pump (set_slot d slot' b)"
    using assms(2) by (auto simp: accept_start_def split: prod.splits)
  have "slot_evolves (slot_of d b) slot'"
    using accept_start_in_fresh [OF assms(1) a] by (simp add: slot_evolves_def)
  then show ?thesis unfolding b' by (simp add: evolves_set_slot)
qed

lemma evolves_clear_starting [simp]: "evolves b (clear_starting_if d g b)"
  by (simp add: clear_starting_if_def)

lemma evolves_edit_session:
  assumes "playing_at d b = Some (g, s)" "sid s' = sid s"
    "flush_reload_requested s \<le> flush_reload_requested s'" "flush_reload_done s \<le> flush_reload_done s'"
  shows "evolves b (edit_session d g s s' f b)"
proof -
  have "slot_state (slot_of d b) = Playing g s" using assms(1) by (simp add: playing_at_slot)
  then have "slot_evolves (slot_of d b) ((slot_of d b)\<lparr>slot_state := Playing g s'\<rparr>)"
    using assms by (simp add: slot_evolves_def)
  then show ?thesis by (simp add: evolves_def edit_session_def)
qed

lemma evolves_spawn_session_task [simp]: "evolves b (spawn_session_task d g t b)"
proof (cases "playing_at d b")
  case None
  then show ?thesis by (simp add: spawn_session_task_def)
next
  case (Some gs)
  obtain g' s where gs: "gs = (g', s)" by force
  from evolves_edit_session [OF Some [unfolded gs], of "s\<lparr>tasks := tasks s @ [t]\<rparr>" "\<lambda>c. c"]
  show ?thesis by (auto simp: spawn_session_task_def Some gs edit_session_def upd_cells_id)
qed

end
