(* ===== verification/Bridge_Group.thy ===== *)
theory Bridge_Group
  imports Bridge_Wf
begin

text \<open>
  AirPlay multi-select played as one Cast multizone session (\<open>src/bridge/group.rs\<close>).

  Every function is the sequence of critical sections of the method of the same name; where the
  method waits for Cast in between (\<open>apply_group_plan\<close>, \<open>follow_session_endpoint\<close>), it is split
  at the wait: the part before emits the request, the part after takes the answer. A plan
  names its session by \<open>sid\<close>, because it holds the session's shared route.
\<close>

section \<open>Helpers\<close>

definition close_session_host :: "string \<Rightarrow> bridge \<Rightarrow> bridge" where
  "close_session_host key b = emit (CloseSessionHost key) b"

definition close_hosts :: "string list \<Rightarrow> bridge \<Rightarrow> bridge" where
  "close_hosts keys b = emit_all (map CloseSessionHost keys) b"

definition with_group :: "string \<Rightarrow> (cast_group \<Rightarrow> cast_group) \<Rightarrow> bridge \<Rightarrow> bridge" where
  "with_group uuid f b =
     (case hm_get (groups b) uuid of None \<Rightarrow> b | Some g \<Rightarrow> set_group uuid (f g) b)"

definition opt_list :: "'a option \<Rightarrow> 'a list" where
  "opt_list x = (case x of None \<Rightarrow> [] | Some v \<Rightarrow> [v])"

definition starting_or_playing :: "string \<Rightarrow> bridge \<Rightarrow> bool" where
  "starting_or_playing d b \<longleftrightarrow>
     (case state_of d b of Some (Starting _) \<Rightarrow> True | Some (Playing _ _) \<Rightarrow> True | _ \<Rightarrow> False)"

definition follows_group :: "string \<Rightarrow> string \<Rightarrow> bridge \<Rightarrow> bool" where
  "follows_group uuid d b \<longleftrightarrow>
     (case state_of d b of Some (Following _ f) \<Rightarrow> fs_group f = uuid | _ \<Rightarrow> False)"

section \<open>Reconcile scheduling\<close>

definition schedule_group_reconcile :: "string \<Rightarrow> bridge \<Rightarrow> bridge" where
  "schedule_group_reconcile uuid b =
     (case hm_get (groups b) uuid of
        None \<Rightarrow> b
      | Some g \<Rightarrow>
          if reconcile_running g then set_group uuid (g\<lparr>reconcile_dirty := True\<rparr>) b
          else emit (SpawnReconcile uuid)
                 (set_group uuid (g\<lparr>reconcile_running := True, reconcile_dirty := False\<rparr>) b))"

definition set_reconcile_dirty :: "string \<Rightarrow> bool \<Rightarrow> bridge \<Rightarrow> bridge \<times> bool" where
  "set_reconcile_dirty uuid dirty b =
     (with_group uuid (\<lambda>g. g\<lparr>reconcile_dirty := dirty\<rparr>) b, hm_get (groups b) uuid \<noteq> None)"

definition finish_reconcile_pass :: "string \<Rightarrow> bridge \<Rightarrow> bridge \<times> bool" where
  "finish_reconcile_pass uuid b =
     (case hm_get (groups b) uuid of
        None \<Rightarrow> (b, True)
      | Some g \<Rightarrow>
          if reconcile_dirty g then (b, False)
          else (set_group uuid (g\<lparr>reconcile_running := False\<rparr>) b, True))"

section \<open>Joining a group\<close>

datatype group_entry =
    EntryOwner u64 "playing_session option" "string option"
  | EntryFollowing "playing_session option"
  | EntryStandalone

definition owner_live :: "string \<Rightarrow> cast_group \<Rightarrow> bridge \<Rightarrow> bool" where
  "owner_live d g b \<longleftrightarrow>
     (case owner g of None \<Rightarrow> False | Some o' \<Rightarrow> o' \<noteq> d \<and> starting_or_playing o' b)"

definition enter_as_follower :: "string \<Rightarrow> string \<Rightarrow> u32 \<Rightarrow> ring_ref \<Rightarrow> cast_group \<Rightarrow> bridge \<Rightarrow> bridge \<times> group_entry" where
  "enter_as_follower d uuid rate ring g b =
     (let g' = (if d \<in> set (followers g) then g else g\<lparr>followers := followers g @ [d]\<rparr>);
          slot = slot_of d b;
          generation = saturating_add (slot_generation slot) 1;
          following = Following generation
            \<lparr>fs_group = uuid, fs_sample_rate = rate, fs_pump = pump_spawn ring\<rparr>;
          b' = set_slot d \<lparr>slot_generation = generation, slot_state = following\<rparr> (set_group uuid g' b)
      in case slot_state slot of
           Playing _ s \<Rightarrow> (b', EntryFollowing (Some s))
         | Following _ f \<Rightarrow> (emit (StopPump (fs_pump f)) b', EntryFollowing None)
         | Starting _ \<Rightarrow> (b', EntryFollowing None)
         | Idle \<Rightarrow> (b', EntryFollowing None))"

definition enter_as_owner :: "string \<Rightarrow> string \<Rightarrow> cast_group \<Rightarrow> bridge \<Rightarrow> bridge \<times> group_entry" where
  "enter_as_owner d uuid g b =
     (let restart = owner g = Some d;
          stale_host = (if restart then None else host_key g);
          media_at = (if restart then host_key g else None);
          g1 = (if restart then g else g\<lparr>cast_members := [], host_key := None\<rparr>);
          g2 = g1\<lparr>owner := Some d, followers := filter (\<lambda>i. i \<noteq> d) (followers g1),
                  promoting := (if promoting g1 = Some d then None else promoting g1)\<rparr>;
          (b', generation, prior) = accept_start d (set_group uuid g2 b)
      in (close_hosts (opt_list stale_host) b', EntryOwner generation prior media_at))"

definition enter_group :: "string \<Rightarrow> string \<Rightarrow> u32 \<Rightarrow> ring_ref \<Rightarrow> bridge \<Rightarrow> bridge \<times> group_entry" where
  "enter_group d uuid rate ring b =
     (let g = hm_entry default_group uuid (groups b)
      in if d \<in> excluded g then (b, EntryStandalone)
         else if owner_live d g b then enter_as_follower d uuid rate ring g b
         else enter_as_owner d uuid g b)"

section \<open>The owner's session\<close>

definition owner_for_cast_key :: "string \<Rightarrow> bridge \<Rightarrow> string option" where
  "owner_for_cast_key key b =
     map_option fst (List.find (\<lambda>(d, slot).
       (case slot_state slot of
          Playing _ s \<Rightarrow> route_media (route (shared b (sid s))) = key
        | _ \<Rightarrow> False)) (devices b))"

definition group_owner_playing :: "string \<Rightarrow> string \<Rightarrow> bridge \<Rightarrow> bridge" where
  "group_owner_playing uuid d b =
     (case hm_get (groups b) uuid of
        None \<Rightarrow> b
      | Some g \<Rightarrow>
          if owner g \<noteq> Some d then b
          else schedule_group_reconcile uuid
                 (set_group uuid
                    (if cast_members g = [] then g\<lparr>cast_members := [d]\<rparr> else g) b))"

definition confirm_group_session :: "string \<Rightarrow> bridge \<Rightarrow> bridge" where
  "confirm_group_session d b =
     (case session_group d b of
        None \<Rightarrow> b
      | Some uuid \<Rightarrow>
          (case hm_get (groups b) uuid of
             None \<Rightarrow> b
           | Some g \<Rightarrow>
               if owner g = Some d \<and> cast_members g = [] then group_owner_playing uuid d b else b))"

section \<open>Ownerless groups\<close>

definition redispatch_start :: "string \<Rightarrow> bridge \<Rightarrow> bridge" where
  "redispatch_start d b =
     (case state_of d b of
        Some (Following _ f) \<Rightarrow>
          emit (RedispatchEvent
            (EvStarted d (fs_sample_rate f) (pump_source (fs_pump f)) (Some (fs_group f)))) b
      | _ \<Rightarrow> b)"

definition promote_if_ownerless :: "string \<Rightarrow> bridge \<Rightarrow> bridge" where
  "promote_if_ownerless uuid b =
     (case hm_get (groups b) uuid of
        None \<Rightarrow> b
      | Some g \<Rightarrow>
          if owner g \<noteq> None then b
          else if (case promoting g of None \<Rightarrow> False | Some p \<Rightarrow> p \<in> set (followers g)) then b
          else (case followers g of
              first # _ \<Rightarrow>
                redispatch_start first (set_group uuid (g\<lparr>promoting := Some first\<rparr>) b)
            | [] \<Rightarrow>
                close_hosts (opt_list (host_key g))
                  (if group_is_empty g then b\<lparr>groups := hm_remove uuid (groups b)\<rparr>
                   else set_group uuid (g\<lparr>host_key := None\<rparr>) b)))"

text \<open>
  \<open>group_check_owner\<close> visits every group in the map's iteration order: first the sweep that
  forgets \<open>d\<close>, then \<open>retain\<close>, which drops the groups that became empty.
\<close>

definition forget_member :: "string \<Rightarrow> cast_group \<Rightarrow> cast_group" where
  "forget_member d g =
     (let g1 = g\<lparr>excluded := excluded g - {d}\<rparr>
      in if owner g = Some d then g1\<lparr>owner := None, cast_members := [], host_key := None\<rparr> else g1)"

definition group_check_owner :: "string \<Rightarrow> bridge \<Rightarrow> bridge" where
  "group_check_owner d b =
     (if has_session d b then b
      else
        let gs = groups b;
            owned = filter (\<lambda>(u, g). owner g = Some d) gs;
            swept = hm_map (forget_member d) gs;
            hosts = List.map_filter (\<lambda>(u, g). host_key g) owned
                  @ List.map_filter (\<lambda>(u, g). if group_is_empty g then host_key g else None) swept;
            b' = b\<lparr>groups := hm_retain (\<lambda>g. \<not> group_is_empty g) swept\<rparr>
        in foldl (\<lambda>acc u. promote_if_ownerless u acc) (close_hosts hosts b') (map fst owned))"

section \<open>Members leaving\<close>

definition end_following :: "string \<Rightarrow> u64 \<Rightarrow> bridge \<Rightarrow> bridge" where
  "end_following d generation b =
     (case state_of d b of
        Some (Following g f) \<Rightarrow>
          if g \<noteq> generation then b
          else
            schedule_group_reconcile (fs_group f)
              (promote_if_ownerless (fs_group f)
                (with_group (fs_group f) (\<lambda>gr. gr\<lparr>followers := filter (\<lambda>i. i \<noteq> d) (followers gr)\<rparr>)
                  (emit (StopPump (fs_pump f)) (set_state d Idle b))))
      | _ \<Rightarrow> b)"

text \<open>A member that can take the owner's Cast session over: already in it, with its format.\<close>

definition can_take_over :: "cast_group \<Rightarrow> playing_session \<Rightarrow> bridge \<Rightarrow> string \<Rightarrow> bool" where
  "can_take_over g s b i \<longleftrightarrow>
     i \<in> set (cast_members g) \<and>
     (case state_of i b of
        Some (Following _ f) \<Rightarrow>
          fs_sample_rate f = ps_sample_rate s \<and> ring_channels (pump_source (fs_pump f)) = ps_channels s
      | _ \<Rightarrow> False)"

definition following_at :: "string \<Rightarrow> bridge \<Rightarrow> (u64 \<times> following_session) option" where
  "following_at d b = (case state_of d b of Some (Following g f) \<Rightarrow> Some (g, f) | _ \<Rightarrow> None)"

definition watchdog_stop :: "playing_session \<Rightarrow> bridge_effect list" where
  "watchdog_stop s = (case watchdog s of None \<Rightarrow> [] | Some (d, g) \<Rightarrow> [StopWatchdog d g])"

definition hand_over ::
  "string \<Rightarrow> string \<Rightarrow> string \<Rightarrow> cast_group \<Rightarrow> playing_session \<Rightarrow> u64 \<Rightarrow> following_session \<Rightarrow> bridge \<Rightarrow> bridge" where
  "hand_over d uuid survivor gr s survivor_gen f b =
     (let s' = s\<lparr>ps_device_id := survivor, watchdog := Some (survivor, survivor_gen),
                 ps_source := Some (forward_into (ps_ring s) (fs_pump f))\<rparr>;
          gr' = gr\<lparr>owner := Some survivor, followers := filter (\<lambda>i. i \<noteq> survivor) (followers gr)\<rparr>
      in set_group uuid gr'
           (set_state survivor (Playing survivor_gen s')
             (stop_pump (ps_source s)
               (emit_all (watchdog_stop s @ [SpawnWatchdog survivor survivor_gen])
                 (upd_cells (sid s) (\<lambda>c. c\<lparr>route := (route c)\<lparr>route_volume := survivor\<rparr>\<rparr>)
                   (set_state d Idle b))))))"

definition group_owner_left :: "string \<Rightarrow> u64 \<Rightarrow> bridge \<Rightarrow> bridge \<times> bool" where
  "group_owner_left d generation b =
     (case playing_at d b of
        None \<Rightarrow> (b, False)
      | Some (g, s) \<Rightarrow>
          if g \<noteq> generation then (b, False)
          else (case ps_group s of
              None \<Rightarrow> (b, False)
            | Some uuid \<Rightarrow>
                (case hm_get (groups b) uuid of
                   None \<Rightarrow> (b, False)
                 | Some gr \<Rightarrow>
                     if owner gr \<noteq> Some d then (b, False)
                     else (case List.find (can_take_over gr s b) (followers gr) of
                         None \<Rightarrow> (b, False)
                       | Some survivor \<Rightarrow>
                           (case following_at survivor b of
                              None \<Rightarrow> (b, False)
                            | Some (survivor_gen, f) \<Rightarrow>
                                (schedule_group_reconcile uuid
                                   (hand_over d uuid survivor gr s survivor_gen f b), True))))))"

definition end_follower :: "string \<Rightarrow> bridge \<times> string list \<Rightarrow> string \<Rightarrow> bridge \<times> string list" where
  "end_follower uuid acc i =
     (if follows_group uuid i (fst acc) then
        (case following_at i (fst acc) of
           Some (_, f) \<Rightarrow> (emit (StopPump (fs_pump f)) (set_state i Idle (fst acc)), snd acc @ [i])
         | None \<Rightarrow> acc)
      else acc)"

definition end_followers :: "string \<Rightarrow> string list \<Rightarrow> bridge \<Rightarrow> bridge \<times> string list" where
  "end_followers uuid ids b = foldl (end_follower uuid) (b, []) ids"

definition end_group :: "string \<Rightarrow> bridge \<Rightarrow> bridge \<times> string list \<times> string option" where
  "end_group uuid b =
     (case hm_get (groups b) uuid of
        None \<Rightarrow> (b, [], None)
      | Some g \<Rightarrow>
          let (b', ended) = end_followers uuid (followers g) (b\<lparr>groups := hm_remove uuid (groups b)\<rparr>)
          in (b', ended, host_key g))"

definition forget_all_groups :: "bridge \<Rightarrow> bridge" where
  "forget_all_groups b =
     close_hosts (List.map_filter (\<lambda>(u, g). host_key g) (groups b)) (b\<lparr>groups := []\<rparr>)"

section \<open>Membership plans\<close>

record group_plan =
  gp_sid :: nat
  gp_owner :: string
  gp_desired :: "string list"
  gp_added :: "string list"
  gp_request :: set_playback_devices

definition plan_devices :: "registry \<Rightarrow> string list \<Rightarrow> device list" where
  "plan_devices r ids = List.map_filter (\<lambda>i. get i r) ids"

definition plan_request :: "registry \<Rightarrow> string list \<Rightarrow> set_playback_devices" where
  "plan_request r ids =
     \<lparr>spd_devices = map (\<lambda>dev. \<lparr>pd_device_id = dev_id dev, pd_ip_address = dev_host dev, pd_port = dev_port dev\<rparr>)
        (plan_devices r ids),
      spd_session_name = session_name (map dev_name (plan_devices r ids))\<rparr>"

definition group_plan :: "string \<Rightarrow> bridge \<Rightarrow> group_plan option" where
  "group_plan uuid b =
     (case hm_get (groups b) uuid of
        None \<Rightarrow> None
      | Some g \<Rightarrow>
          (case owner g of
             None \<Rightarrow> None
           | Some o' \<Rightarrow>
               (case playing_at o' b of
                  None \<Rightarrow> None
                | Some (_, s) \<Rightarrow>
                    if ps_group s \<noteq> Some uuid then None
                    else
                      let fs = filter (\<lambda>i. follows_group uuid i b) (followers g);
                          desired = desired_members (cast_members g) o' fs
                      in if cast_members g = [] \<or> desired = cast_members g then None
                         else Some \<lparr>gp_sid = sid s, gp_owner = o', gp_desired = desired,
                           gp_added = filter (\<lambda>i. i \<notin> set (cast_members g)) desired,
                           gp_request = plan_request (registry_of b) desired\<rparr>)))"

text \<open>Under the re-LOAD flight, the request goes to the worker that hosts the session now.\<close>

definition apply_group_plan_send :: "group_plan \<Rightarrow> bridge \<Rightarrow> bridge" where
  "apply_group_plan_send plan b =
     emit (CastSetPlaybackDevices (route_media (route (shared b (gp_sid plan)))) (gp_request plan)) b"

definition plan_failed :: "group_plan \<Rightarrow> playback_session_update result \<Rightarrow> string list" where
  "plan_failed plan answer =
     (let candidates = filter (\<lambda>i. i \<noteq> gp_owner plan) (gp_added plan)
      in case answer of
           Inl _ \<Rightarrow> candidates
         | Inr update \<Rightarrow> filter (\<lambda>i. normalize_device_id i \<in> set (failed_devices update)) candidates)"

definition confirm_members ::
  "string \<Rightarrow> group_plan \<Rightarrow> playback_session_update result \<Rightarrow> bridge \<Rightarrow> bridge" where
  "confirm_members uuid plan answer b =
     (case answer of
        Inl _ \<Rightarrow> b
      | Inr update \<Rightarrow>
          with_group uuid (\<lambda>g. g\<lparr>cast_members :=
            filter (\<lambda>i. i \<notin> set (plan_failed plan answer)) (gp_desired plan)\<rparr>) b)"

definition exclude_members :: "string \<Rightarrow> string list \<Rightarrow> bridge \<Rightarrow> bridge" where
  "exclude_members uuid failed b =
     (if failed = [] then b
      else foldl (\<lambda>acc i. redispatch_start i acc)
        (with_group uuid (\<lambda>g. g\<lparr>followers := filter (\<lambda>i. i \<notin> set failed) (followers g),
           excluded := excluded g \<union> set failed\<rparr>) b) failed)"

definition apply_group_plan_answer ::
  "string \<Rightarrow> group_plan \<Rightarrow> playback_session_update result \<Rightarrow> bridge \<Rightarrow> bridge \<times> session_endpoint option" where
  "apply_group_plan_answer uuid plan answer b =
     (exclude_members uuid (plan_failed plan answer) (confirm_members uuid plan answer b),
      case answer of Inl _ \<Rightarrow> None | Inr update \<Rightarrow> psu_endpoint update)"

section \<open>Following a moved session\<close>

definition session_host_key :: "session_endpoint \<Rightarrow> string" where
  "session_host_key e = session_host_key_at (ep_ip_address e) (ep_port e)"

text \<open>The result is the pair of worker keys of the move under way, when there is one.\<close>

definition follow_endpoint_send ::
  "nat \<Rightarrow> session_endpoint \<Rightarrow> bridge \<Rightarrow> bridge \<times> (string \<times> string) option" where
  "follow_endpoint_send n e b =
     (let new_key = session_host_key e; old_key = route_media (route (shared b n))
      in if new_key = old_key then (b, None)
         else (emit_all [CastOpenHost new_key (ep_ip_address e) (ep_port e),
                 CastMoveSession old_key new_key (ep_session_id e)] b, Some (old_key, new_key)))"

definition set_route_media :: "nat \<Rightarrow> string \<Rightarrow> bridge \<Rightarrow> bridge" where
  "set_route_media n key b = upd_cells n (\<lambda>c. c\<lparr>route := (route c)\<lparr>route_media := key\<rparr>\<rparr>) b"

definition reload_group_owner :: "string \<Rightarrow> string \<Rightarrow> bridge \<Rightarrow> bridge" where
  "reload_group_owner uuid o' b =
     (case session_generation o' b of
        None \<Rightarrow> b
      | Some generation \<Rightarrow> spawn_session_task o' generation (GroupReloadTask generation uuid) b)"

definition group_host :: "string \<Rightarrow> bridge \<Rightarrow> string option" where
  "group_host uuid b = Option.bind (hm_get (groups b) uuid) host_key"

definition follow_endpoint_answer ::
  "string \<Rightarrow> string \<Rightarrow> nat \<Rightarrow> string \<Rightarrow> unit result \<Rightarrow> bridge \<Rightarrow> bridge" where
  "follow_endpoint_answer uuid o' n new_key moved b =
     (let previous = group_host uuid b;
          b' = (case moved of
              Inr _ \<Rightarrow>
                with_group uuid (\<lambda>g. g\<lparr>host_key := Some new_key\<rparr>) (set_route_media n new_key b)
            | Inl _ \<Rightarrow>
                reload_group_owner uuid o'
                  (close_session_host new_key
                    (with_group uuid (\<lambda>g. g\<lparr>cast_members := [], host_key := None\<rparr>)
                      (set_route_media n o' b))))
      in case previous of
           Some p \<Rightarrow> if p \<noteq> new_key then close_session_host p b' else b'
         | None \<Rightarrow> b')"

section \<open>Preservation of well-formedness\<close>

lemma close_hosts_ok: "bridge_ok b \<Longrightarrow> bridge_ok (close_hosts ks b)"
  by (simp add: close_hosts_def emit_all_ok)

lemma close_session_host_ok: "bridge_ok b \<Longrightarrow> bridge_ok (close_session_host k b)"
  by (simp add: close_session_host_def emit_ok)

lemma group_update_frames [simp]:
  "devices (close_hosts ks b) = devices b" "groups (close_hosts ks b) = groups b"
  "shared (close_hosts ks b) = shared b" "state_of d (close_hosts ks b) = state_of d b"
  "devices (with_group u f b) = devices b" "shared (with_group u f b) = shared b"
  "state_of d (with_group u f b) = state_of d b"
  "devices (close_session_host k b) = devices b" "groups (close_session_host k b) = groups b"
  "shared (close_session_host k b) = shared b" "state_of d (close_session_host k b) = state_of d b"
  by (auto simp: close_hosts_def with_group_def close_session_host_def split: option.splits)

lemma set_group_ok: "bridge_ok b \<Longrightarrow> group_ok g \<Longrightarrow> bridge_ok (set_group u g b)"
  by (simp add: bridge_ok_def groups_ok_set_group)

lemma with_group_ok:
  "bridge_ok b \<Longrightarrow> (\<And>g. group_ok g \<Longrightarrow> group_ok (f g)) \<Longrightarrow> bridge_ok (with_group u f b)"
  by (auto simp: with_group_def split: option.splits intro!: set_group_ok dest: bridge_okD(2) groups_ok_get)

lemma schedule_group_reconcile_ok: "bridge_ok b \<Longrightarrow> bridge_ok (schedule_group_reconcile u b)"
proof -
  assume ok: "bridge_ok b"
  have "group_ok g" if "hm_get (groups b) u = Some g" for g
    using groups_ok_get [OF bridge_okD(2) [OF ok] that] .
  with ok show ?thesis
    by (auto simp: schedule_group_reconcile_def group_ok_def split: option.splits
        intro!: emit_ok set_group_ok)
qed

lemma schedule_group_reconcile_frames [simp]:
  "devices (schedule_group_reconcile u b) = devices b"
  "shared (schedule_group_reconcile u b) = shared b"
  "state_of d (schedule_group_reconcile u b) = state_of d b"
  by (auto simp: schedule_group_reconcile_def split: option.splits)

lemma set_reconcile_dirty_False_ok: "bridge_ok b \<Longrightarrow> bridge_ok (fst (set_reconcile_dirty u False b))"
  by (auto simp: set_reconcile_dirty_def group_ok_def intro!: with_group_ok)

lemma finish_reconcile_pass_ok: "bridge_ok b \<Longrightarrow> bridge_ok (fst (finish_reconcile_pass u b))"
proof -
  assume ok: "bridge_ok b"
  have "group_ok g" if "hm_get (groups b) u = Some g" for g
    using groups_ok_get [OF bridge_okD(2) [OF ok] that] .
  with ok show ?thesis
    by (auto simp: finish_reconcile_pass_def group_ok_def split: option.splits intro!: set_group_ok)
qed

lemma redispatch_start_ok: "bridge_ok b \<Longrightarrow> bridge_ok (redispatch_start d b)"
  by (auto simp: redispatch_start_def split: option.splits device_state.splits intro!: emit_ok)

lemma redispatch_start_frames [simp]:
  "devices (redispatch_start d b) = devices b" "groups (redispatch_start d b) = groups b"
  "shared (redispatch_start d b) = shared b" "state_of e (redispatch_start d b) = state_of e b"
  by (auto simp: redispatch_start_def split: option.splits device_state.splits)

lemma promote_if_ownerless_ok: "bridge_ok b \<Longrightarrow> bridge_ok (promote_if_ownerless u b)"
proof -
  assume ok: "bridge_ok b"
  have g: "group_ok g" if "hm_get (groups b) u = Some g" for g
    using groups_ok_get [OF bridge_okD(2) [OF ok] that] .
  have rem: "bridge_ok (b\<lparr>groups := hm_remove u (groups b)\<rparr>)"
    using bridge_okD [OF ok] by (intro bridge_okI) (auto simp: groups_ok_remove)
  show ?thesis
  proof (cases "hm_get (groups b) u")
    case None
    with ok show ?thesis by (simp add: promote_if_ownerless_def)
  next
    case (Some gr)
    have "bridge_ok (set_group u (gr\<lparr>promoting := x\<rparr>) b)" "bridge_ok (set_group u (gr\<lparr>host_key := y\<rparr>) b)"
      for x y
      using g [OF Some] by (auto intro!: set_group_ok ok simp: group_ok_def)
    with ok rem show ?thesis
      by (simp add: promote_if_ownerless_def Some close_hosts_ok redispatch_start_ok split: list.split)
  qed
qed

lemma fold_promote_ok:
  "bridge_ok b \<Longrightarrow> bridge_ok (foldl (\<lambda>acc u. promote_if_ownerless u acc) b us)"
  by (induction us arbitrary: b) (auto simp: promote_if_ownerless_ok)

lemma group_ok_forget_member: "group_ok g \<Longrightarrow> group_ok (forget_member d g)"
  by (auto simp: group_ok_def forget_member_def Let_def)

lemma group_check_owner_ok: "bridge_ok b \<Longrightarrow> bridge_ok (group_check_owner d b)"
proof -
  assume ok: "bridge_ok b"
  let ?swept = "hm_map (forget_member d) (groups b)"
  have "groups_ok (b\<lparr>groups := hm_retain (\<lambda>g. \<not> group_is_empty g) ?swept\<rparr>)"
    using bridge_okD(2,5) [OF ok]
    by (auto simp: groups_ok_def hm_get_retain hm_get_map group_ok_forget_member split: option.splits if_splits)
  then have "bridge_ok (b\<lparr>groups := hm_retain (\<lambda>g. \<not> group_is_empty g) ?swept\<rparr>)"
    using bridge_okD [OF ok] by (intro bridge_okI) auto
  with ok show ?thesis
    by (simp add: group_check_owner_def Let_def fold_promote_ok close_hosts_ok)
qed

lemma group_owner_playing_ok: "bridge_ok b \<Longrightarrow> bridge_ok (group_owner_playing u d b)"
proof -
  assume ok: "bridge_ok b"
  have "group_ok g" if "hm_get (groups b) u = Some g" for g
    using groups_ok_get [OF bridge_okD(2) [OF ok] that] .
  with ok show ?thesis
    by (auto simp: group_owner_playing_def group_ok_def split: option.splits
        intro!: schedule_group_reconcile_ok set_group_ok)
qed

lemma confirm_group_session_ok: "bridge_ok b \<Longrightarrow> bridge_ok (confirm_group_session d b)"
  by (auto simp: confirm_group_session_def split: option.splits intro!: group_owner_playing_ok)

lemma end_following_ok: "bridge_ok b \<Longrightarrow> bridge_ok (end_following d g b)"
proof -
  assume ok: "bridge_ok b"
  show ?thesis
  proof (cases "following_at d b")
    case None
    then have "end_following d g b = b"
      by (auto simp: end_following_def following_at_def split: option.splits device_state.splits)
    with ok show ?thesis by simp
  next
    case (Some gf)
    then obtain h f where st: "state_of d b = Some (Following h f)"
      by (auto simp: following_at_def split: option.splits device_state.splits)
    then have "bridge_ok (emit (StopPump p) (set_state d Idle b))" for p
      by (intro emit_ok set_idle_ok ok) (auto simp: playing_at_def)
    with ok show ?thesis
      by (auto simp: end_following_def st group_ok_def
          intro!: schedule_group_reconcile_ok promote_if_ownerless_ok with_group_ok)
  qed
qed

lemma end_followers_rule:
  assumes "P b"
    and "\<And>acc i g f. P acc \<Longrightarrow> following_at i acc = Some (g, f) \<Longrightarrow>
      P (emit (StopPump (fs_pump f)) (set_state i Idle acc))"
  shows "P (fst (end_followers u ids b))"
proof -
  have step: "P (fst acc) \<Longrightarrow> P (fst (end_follower u acc i))" for acc i
    using assms(2) by (auto simp: end_follower_def split: option.splits)
  have "P (fst acc) \<Longrightarrow> P (fst (foldl (end_follower u) acc ids))" for acc
    by (induction ids arbitrary: acc) (simp_all add: step)
  with assms(1) show ?thesis by (simp add: end_followers_def)
qed

lemma end_group_rule:
  assumes "P b" "P (b\<lparr>groups := hm_remove u (groups b)\<rparr>)"
    and "\<And>acc i g f. P acc \<Longrightarrow> following_at i acc = Some (g, f) \<Longrightarrow>
      P (emit (StopPump (fs_pump f)) (set_state i Idle acc))"
  shows "P (fst (end_group u b))"
proof (cases "hm_get (groups b) u")
  case None
  with assms(1) show ?thesis by (simp add: end_group_def)
next
  case (Some g)
  from end_followers_rule [where P = P and u = u and ids = "followers g", OF assms(2,3)] show ?thesis
    by (simp add: end_group_def Some case_prod_beta)
qed

lemma following_at_iff: "following_at d b = Some (g, f) \<longleftrightarrow> state_of d b = Some (Following g f)"
  by (auto simp: following_at_def split: option.splits device_state.splits)

lemma following_slot: "following_at d b = Some (g, f) \<Longrightarrow> slot_state (slot_of d b) = Following g f"
  by (auto simp: following_at_iff state_of_def slot_of_def hm_entry_def split: option.splits)

lemma end_group_ok: "bridge_ok b \<Longrightarrow> bridge_ok (fst (end_group u b))"
proof (rule end_group_rule [of bridge_ok])
  assume ok: "bridge_ok b"
  show "bridge_ok (b\<lparr>groups := hm_remove u (groups b)\<rparr>)"
    using bridge_okD [OF ok] by (intro bridge_okI) (auto simp: groups_ok_remove)
qed (auto simp: following_at_iff playing_at_def intro!: emit_ok set_idle_ok)

lemma end_group_wf:
  "slots_ok b \<Longrightarrow> groups_ok b \<Longrightarrow> slots_ok (fst (end_group u b)) \<and> groups_ok (fst (end_group u b))"
  by (rule end_group_rule [of "\<lambda>b. slots_ok b \<and> groups_ok b"])
    (auto simp: groups_ok_remove intro!: slots_ok_set_state simp: slot_ok_def)

text \<open>Ending a group takes no session and tears none down.\<close>

lemma end_group_sessions:
  assumes "hm_ok (devices b)"
  shows "hm_ok (devices (fst (end_group u b)))"
    "mset (map sid (sessions_in (devices (fst (end_group u b))))) = mset (map sid (sessions_in (devices b)))"
    "effects (fst (end_group u b)) = effects b @ es \<Longrightarrow> torn_down es = []"
    "torn_down (effects (fst (end_group u b))) = torn_down (effects b)"
    "next_sid (fst (end_group u b)) = next_sid b" "shared (fst (end_group u b)) = shared b"
proof -
  define P where "P = (\<lambda>x :: bridge. hm_ok (devices x) \<and>
    mset (map sid (sessions_in (devices x))) = mset (map sid (sessions_in (devices b))) \<and>
    torn_down (effects x) = torn_down (effects b) \<and> next_sid x = next_sid b \<and> shared x = shared b)"
  have "P (fst (end_group u b))"
  proof (rule end_group_rule [of P])
    fix acc i g f
    assume acc: "P acc" and f: "following_at i acc = Some (g, f)"
    then have "slot_session (slot_of i acc) = []" by (simp add: slot_session_def following_slot)
    with acc show "P (emit (StopPump (fs_pump f)) (set_state i Idle acc))"
      using sids_in_insert [of acc i "(slot_of i acc)\<lparr>slot_state := Idle\<rparr>"]
      by (simp add: P_def set_state_def)
  qed (use assms in \<open>simp_all add: P_def\<close>)
  then show "hm_ok (devices (fst (end_group u b)))"
    "mset (map sid (sessions_in (devices (fst (end_group u b))))) = mset (map sid (sessions_in (devices b)))"
    "torn_down (effects (fst (end_group u b))) = torn_down (effects b)"
    "next_sid (fst (end_group u b)) = next_sid b" "shared (fst (end_group u b)) = shared b"
    "effects (fst (end_group u b)) = effects b @ es \<Longrightarrow> torn_down es = []"
    by (simp_all add: P_def)
qed

lemma forget_all_groups_ok: "bridge_ok b \<Longrightarrow> bridge_ok (forget_all_groups b)"
  using bridge_okD [of b] by (auto simp: forget_all_groups_def groups_ok_def intro!: close_hosts_ok bridge_okI)

lemma apply_group_plan_send_ok: "bridge_ok b \<Longrightarrow> bridge_ok (apply_group_plan_send plan b)"
  by (simp add: apply_group_plan_send_def emit_ok)

lemma fold_redispatch_ok: "bridge_ok b \<Longrightarrow> bridge_ok (foldl (\<lambda>acc i. redispatch_start i acc) b ds)"
  by (induction ds arbitrary: b) (auto simp: redispatch_start_ok)

lemma apply_group_plan_answer_ok:
  "bridge_ok b \<Longrightarrow> bridge_ok (fst (apply_group_plan_answer u plan answer b))"
  by (auto simp: apply_group_plan_answer_def exclude_members_def confirm_members_def group_ok_def
      split: sum.splits intro!: fold_redispatch_ok with_group_ok)

lemma set_route_media_ok: "bridge_ok b \<Longrightarrow> bridge_ok (set_route_media n k b)"
  unfolding set_route_media_def by (rule upd_cells_ok) (auto simp: session_ok_def)

lemma follow_endpoint_send_ok: "bridge_ok b \<Longrightarrow> bridge_ok (fst (follow_endpoint_send n e b))"
  by (auto simp: follow_endpoint_send_def Let_def intro!: emit_all_ok)

lemma follow_endpoint_answer_ok: "bridge_ok b \<Longrightarrow> bridge_ok (follow_endpoint_answer u o' n k moved b)"
  by (auto simp: follow_endpoint_answer_def Let_def reload_group_owner_def group_ok_def
      split: option.splits sum.splits
      intro!: close_session_host_ok spawn_session_task_ok with_group_ok set_route_media_ok)

lemma enter_as_follower_ok:
  assumes ok: "bridge_ok b" and go: "group_ok g" and en: "enter_as_follower d u rate ring g b = (b', e)"
    and fresh: "d \<notin> excluded g" "owner g \<noteq> Some d"
  obtains prior where "e = EntryFollowing prior" "bridge_ok (detach_prior prior p b')"
    "prior = map_option snd (playing_at d b)" "is_following d b'"
    "\<And>i. i \<noteq> d \<Longrightarrow> state_of i b' = state_of i b"
proof -
  define g' where "g' = (if d \<in> set (followers g) then g else g\<lparr>followers := followers g @ [d]\<rparr>)"
  define slot' where "slot' = \<lparr>slot_generation = saturating_add (slot_generation (slot_of d b)) 1,
    slot_state = Following (saturating_add (slot_generation (slot_of d b)) 1)
      \<lparr>fs_group = u, fs_sample_rate = rate, fs_pump = pump_spawn ring\<rparr>\<rparr>"
  define prior where "prior = (case slot_state (slot_of d b) of Playing _ s \<Rightarrow> Some s | _ \<Rightarrow> None)"
  define pump where "pump = (case slot_state (slot_of d b) of Following _ f \<Rightarrow> Some (fs_pump f) | _ \<Rightarrow> None)"
  have shape: "e = EntryFollowing prior" "b' = stop_pump pump (set_slot d slot' (set_group u g' b))"
    using en by (auto simp: enter_as_follower_def Let_def g'_def slot'_def prior_def pump_def stop_pump_def
        split: device_state.splits)
  have g': "group_ok g'"
    using go fresh by (auto simp: group_ok_def g'_def)
  have "slots_ok (set_slot d slot' (set_group u g' b))"
    using bridge_okD(1) [OF ok] by (simp add: slots_ok_set_slot slot_ok_def slot'_def)
  moreover have "groups_ok (set_slot d slot' (set_group u g' b))"
    using bridge_okD(2) [OF ok] g' by (simp add: groups_ok_set_group)
  moreover have "sids_ok (detach_prior prior p (set_slot d slot' (set_group u g' b)))"
    using bridge_okD [OF ok] by (intro sids_ok_replace_slot) (auto simp: prior_def slot'_def)
  ultimately have "bridge_ok (detach_prior prior p b')"
    unfolding shape(2) by (intro bridge_okI) (simp_all add: detach_prior_commute)
  moreover have "prior = map_option snd (playing_at d b)"
    by (auto simp: prior_def playing_at_def state_of_def slot_of_def hm_entry_def default_slot_def
        split: option.splits device_state.splits)
  ultimately show ?thesis
    by (intro that [of prior]) (auto simp: shape is_following_def slot'_def)
qed

lemma enter_as_owner_ok:
  assumes ok: "bridge_ok b" and go: "group_ok g" and en: "enter_as_owner d u g b = (b', e)"
  obtains gen prior key where "e = EntryOwner gen prior key" "bridge_ok (detach_prior prior p b')"
    "prior = map_option snd (playing_at d b)" "state_of d b' = Some (Starting gen)"
    "\<And>i. i \<noteq> d \<Longrightarrow> state_of i b' = state_of i b"
    "\<exists>g'. hm_get (groups b') u = Some g' \<and> owner g' = Some d"
proof -
  define restart where "restart \<longleftrightarrow> owner g = Some d"
  define g1 where "g1 = (if restart then g else g\<lparr>cast_members := [], host_key := None\<rparr>)"
  define g2 where "g2 = g1\<lparr>owner := Some d, followers := filter (\<lambda>i. i \<noteq> d) (followers g1),
                  promoting := (if promoting g1 = Some d then None else promoting g1)\<rparr>"
  obtain b1 gen prior where a: "accept_start d (set_group u g2 b) = (b1, gen, prior)"
    using prod_cases3 by blast
  define hosts where "hosts = opt_list (if restart then None else host_key g)"
  have shape: "e = EntryOwner gen prior (if restart then host_key g else None)" "b' = close_hosts hosts b1"
    using en unfolding enter_as_owner_def Let_def restart_def [symmetric] g1_def [symmetric]
      g2_def [symmetric] a hosts_def by simp_all
  have g2: "group_ok g2" using go by (auto simp: group_ok_def g2_def g1_def)
  note acc = accept_start_ok [OF set_group_ok [OF ok g2] a]
  have "bridge_ok (detach_prior prior p b')"
    using acc(1) [of p] unfolding shape(2) close_hosts_def
    by (intro bridge_okI) (auto simp: detach_prior_commute dest: bridge_okD)
  with acc show ?thesis
    by (intro that [of gen prior "if restart then host_key g else None"])
      (auto simp: shape playing_at_def g2_def)
qed

theorem enter_group_ok:
  assumes "bridge_ok b" "enter_group d u rate ring b = (b', e)"
  shows "bridge_ok (case e of EntryOwner _ prior _ \<Rightarrow> detach_prior prior SkipStopForReplace b'
      | EntryFollowing prior \<Rightarrow> detach_prior prior StopBestEffort b' | EntryStandalone \<Rightarrow> b')"
proof -
  let ?g = "hm_entry default_group u (groups b)"
  have go: "group_ok ?g" using bridge_okD(2) [OF assms(1)] by (rule group_ok_entry)
  consider "d \<in> excluded ?g" | "d \<notin> excluded ?g" "owner_live d ?g b" | "d \<notin> excluded ?g" "\<not> owner_live d ?g b"
    by blast
  then show ?thesis
  proof cases
    case 1
    with assms show ?thesis by (simp add: enter_group_def Let_def)
  next
    case 2
    then have en: "enter_as_follower d u rate ring ?g b = (b', e)" and no: "owner ?g \<noteq> Some d"
      using assms(2) by (auto simp: enter_group_def Let_def owner_live_def)
    obtain prior where "e = EntryFollowing prior" "bridge_ok (detach_prior prior StopBestEffort b')"
      using enter_as_follower_ok [OF assms(1) go en 2(1) no] by metis
    then show ?thesis by simp
  next
    case 3
    then have en: "enter_as_owner d u ?g b = (b', e)"
      using assms(2) by (simp add: enter_group_def Let_def)
    obtain gen prior key where "e = EntryOwner gen prior key" "bridge_ok (detach_prior prior SkipStopForReplace b')"
      using enter_as_owner_ok [OF assms(1) go en] by metis
    then show ?thesis by simp
  qed
qed

section \<open>Hand-over\<close>

lemma hand_over_ok:
  assumes ok: "bridge_ok b" and p: "playing_at d b = Some (g, s)" and f: "following_at v b = Some (vg, f)"
    and gr: "group_ok gr"
  shows "bridge_ok (hand_over d u v gr s vg f b)"
proof -
  have dv: "d \<noteq> v" using p f by (auto simp: playing_at_iff following_at_def split: option.splits device_state.splits)
  define s' where "s' = s\<lparr>ps_device_id := v, watchdog := Some (v, vg),
                 ps_source := Some (forward_into (ps_ring s) (fs_pump f))\<rparr>"
  define fc where "fc = (\<lambda>c::shared_cells. c\<lparr>route := (route c)\<lparr>route_volume := v\<rparr>\<rparr>)"
  define gr' where "gr' = gr\<lparr>owner := Some v, followers := filter (\<lambda>i. i \<noteq> v) (followers gr)\<rparr>"
  define b1 where "b1 = set_state v (Playing vg s') (upd_cells (sid s) fc (set_state d Idle b))"
  have so: "session_ok (shared b (sid s)) d g s" by (rule playing_session_ok [OF ok p])
  have stv: "state_of v b = Some (Following vg f)"
    using f by (auto simp: following_at_def split: option.splits device_state.splits)
  have vgen: "vg = slot_generation (slot_of v b)"
    using slots_ok_get [OF bridge_okD(1) [OF ok], of v] stv
    by (auto simp: slot_ok_def state_of_def slot_of_def hm_entry_def split: option.splits)
  have "slot_ok (shared b1) i (slot_of i b1)" for i
  proof -
    consider "i = v" | "i = d" | "i \<noteq> v" "i \<noteq> d" by blast
    then show ?thesis
    proof cases
      case 1
      with so vgen dv show ?thesis
        by (simp add: b1_def slot_ok_def s'_def fc_def session_ok_def)
    next
      case 2
      with dv show ?thesis by (simp add: b1_def slot_ok_def)
    next
      case 3
      show ?thesis
      proof (cases "slot_state (slot_of i b)")
        case (Playing h t)
        then have pi: "playing_at i b = Some (h, t)"
          by (auto simp: playing_at_slot slot_of_def hm_entry_def default_slot_def split: option.splits)
        then have "sid t \<noteq> sid s"
          using sid_owner_unique [OF bridge_okD(3) [OF ok] pi p] 3 by blast
        with slots_ok_playing [OF bridge_okD(1) [OF ok] pi] Playing 3 show ?thesis
          by (auto simp: slot_ok_def b1_def)
      qed (use slots_ok_get [OF bridge_okD(1) [OF ok], of i] 3 in \<open>auto simp: slot_ok_def b1_def\<close>)
    qed
  qed
  then have slots: "slots_ok b1" using bridge_okD(4) [OF ok] by (simp add: slots_ok_def b1_def set_state_def)
  have "sids_ok b1"
  proof -
    have hv: "hm_ok (devices b)" using bridge_okD(4) [OF ok] .
    let ?bi = "set_state d Idle b"
    have one: "mset (map sid (sessions_in (devices ?bi))) + {#sid s#} = mset (map sid (sessions_in (devices b)))"
      using sids_in_insert [OF hv, of d "(slot_of d b)\<lparr>slot_state := Idle\<rparr>"] playing_slot_session [OF p]
      by (simp add: set_state_def)
    have "slot_state (slot_of v b) = Following vg f"
      using stv by (auto simp: state_of_def slot_of_def hm_entry_def split: option.splits)
    then have vs: "slot_session (slot_of v ?bi) = []"
      using dv by (simp add: slot_session_def)
    have two: "mset (map sid (sessions_in (devices b1))) = mset (map sid (sessions_in (devices ?bi))) + {#sid s#}"
      using sids_in_insert [of ?bi v "(slot_of v ?bi)\<lparr>slot_state := Playing vg s'\<rparr>"] hv vs dv
      by (simp add: b1_def set_state_def s'_def)
    show ?thesis
      using bridge_okD(3) [OF ok] one two by (simp add: sids_ok_def b1_def)
  qed
  moreover have "group_ok gr'" using gr by (auto simp: group_ok_def gr'_def)
  ultimately have "bridge_ok (set_group u gr' b1)"
    using slots bridge_okD(2) [OF ok] by (intro set_group_ok bridge_okI) (auto simp: b1_def)
  moreover have "hand_over d u v gr s vg f b = set_group u gr'
      (set_state v (Playing vg s') (stop_pump (ps_source s)
        (emit_all (watchdog_stop s @ [SpawnWatchdog v vg]) (upd_cells (sid s) fc (set_state d Idle b)))))"
    by (simp add: hand_over_def s'_def gr'_def fc_def)
  moreover have "devices (set_state v (Playing vg s') (stop_pump q (emit_all es x)))
      = devices (set_state v (Playing vg s') x)" for q es x
    by (simp add: set_state_def slot_of_def)
  moreover have "torn_down (watchdog_stop s @ [SpawnWatchdog v vg]) = []"
    by (simp add: watchdog_stop_def split: option.splits)
  ultimately show ?thesis
    unfolding bridge_ok_def
    by (auto simp: b1_def slots_ok_def groups_ok_def sids_ok_def slot_of_def)
qed

lemma group_owner_left_True:
  assumes "group_owner_left d gen b = (b', True)"
  obtains s u gr v vg f where
    "playing_at d b = Some (gen, s)" "ps_group s = Some u" "hm_get (groups b) u = Some gr"
    "owner gr = Some d" "List.find (can_take_over gr s b) (followers gr) = Some v"
    "following_at v b = Some (vg, f)"
    "b' = schedule_group_reconcile u (hand_over d u v gr s vg f b)"
  using assms by (auto simp: group_owner_left_def split: option.splits if_splits)

lemma group_owner_left_False: "group_owner_left d gen b = (b', False) \<Longrightarrow> b' = b"
  by (auto simp: group_owner_left_def split: option.splits if_splits)

lemma group_owner_left_ok: "bridge_ok b \<Longrightarrow> bridge_ok (fst (group_owner_left d g b))"
proof -
  assume ok: "bridge_ok b"
  obtain b' r where r: "group_owner_left d g b = (b', r)" by force
  show ?thesis
  proof (cases r)
    case False
    with r ok group_owner_left_False show ?thesis by fastforce
  next
    case True
    with r obtain s u gr v vg f where
      h: "playing_at d b = Some (g, s)" "hm_get (groups b) u = Some gr" "following_at v b = Some (vg, f)"
      "b' = schedule_group_reconcile u (hand_over d u v gr s vg f b)"
      by (metis group_owner_left_True)
    have "group_ok gr" using groups_ok_get [OF bridge_okD(2) [OF ok] h(2)] .
    from hand_over_ok [OF ok h(1,3) this] show ?thesis
      by (simp add: r h(4) schedule_group_reconcile_ok)
  qed
qed

section \<open>How the slots evolve\<close>

lemma evolves_group_helpers [simp]:
  "evolves a (close_hosts ks b) = evolves a b" "evolves a (close_session_host k b) = evolves a b"
  "evolves a (with_group u f b) = evolves a b" "evolves a (schedule_group_reconcile u b) = evolves a b"
  "evolves a (redispatch_start d b) = evolves a b" "evolves a (set_route_media n k b) = evolves a b"
  "slot_of d (schedule_group_reconcile u b) = slot_of d b"
  by (simp_all add: evolves_def slot_of_def set_route_media_def)

lemma evolves_promote [simp]: "evolves a (promote_if_ownerless u b) = evolves a b"
  by (simp add: promote_if_ownerless_def split: option.splits list.splits)

lemma evolves_fold_promote [simp]:
  "evolves a (foldl (\<lambda>acc u. promote_if_ownerless u acc) b us) = evolves a b"
  by (induction us arbitrary: b) auto

lemma evolves_fold_redispatch [simp]:
  "evolves a (foldl (\<lambda>acc i. redispatch_start i acc) b ds) = evolves a b"
  by (induction ds arbitrary: b) auto

lemma evolves_group_ops [simp]:
  "evolves b (group_check_owner d b)" "evolves b (group_owner_playing u d b)"
  "evolves b (confirm_group_session d b)" "evolves b (end_following d g b)"
  "evolves b (forget_all_groups b)" "evolves b (apply_group_plan_send plan b)"
  "evolves b (fst (apply_group_plan_answer u plan answer b))"
  "evolves b (fst (follow_endpoint_send n e b))" "evolves b (fst (set_reconcile_dirty u v b))"
  "evolves b (fst (finish_reconcile_pass u b))"
  by (auto simp: group_check_owner_def group_owner_playing_def confirm_group_session_def end_following_def
      forget_all_groups_def apply_group_plan_send_def apply_group_plan_answer_def exclude_members_def
      confirm_members_def follow_endpoint_send_def set_reconcile_dirty_def finish_reconcile_pass_def Let_def
      split: option.splits device_state.splits sum.splits)

lemma evolves_follow_endpoint_answer [simp]: "evolves b (follow_endpoint_answer u o' n k moved b)"
proof -
  have r: "evolves a (reload_group_owner uu oo x)" if "evolves a x" for a uu oo x
    using that evolves_trans by (auto simp: reload_group_owner_def split: option.splits)
  show ?thesis by (auto simp: follow_endpoint_answer_def Let_def intro!: r split: option.splits sum.splits)
qed

lemma evolves_end_group: "evolves b (fst (end_group u b))"
  by (rule end_group_rule [of "evolves b"]) (auto intro: evolves_trans evolves_set_idle)

lemma evolves_enter_group:
  assumes "slot_generation (slot_of d b) \<noteq> - 1" "enter_group d u rate ring b = (b', e)"
  shows "evolves b b'"
proof -
  let ?g = "hm_entry default_group u (groups b)"
  have f: "evolves b b1" if "enter_as_follower d u rate ring ?g b = (b1, e1)" for b1 e1
  proof -
    have "slot_evolves (slot_of d b) \<lparr>slot_generation = saturating_add (slot_generation (slot_of d b)) 1,
      slot_state = Following (saturating_add (slot_generation (slot_of d b)) 1) x\<rparr>" for x
      using saturating_inc_greater [OF assms(1)] by (simp add: slot_evolves_def)
    then show ?thesis
      using that by (auto simp: enter_as_follower_def Let_def evolves_def split: device_state.splits)
  qed
  have o: "evolves b b1" if "enter_as_owner d u ?g b = (b1, e1)" for b1 e1
  proof -
    have st: "evolves b b2" if "accept_start d (set_group u x b) = (b2, g, prior)" for x b2 g prior
      using evolves_accept_start [OF _ that] assms(1) by (simp add: evolves_def)
    show ?thesis
      using that st by (fastforce simp: enter_as_owner_def Let_def split: prod.splits)
  qed
  show ?thesis using assms(2) f o by (auto simp: enter_group_def Let_def split: if_splits)
qed

lemma evolves_group_owner_left: "evolves b (fst (group_owner_left d g b))"
proof -
  obtain b' r where r: "group_owner_left d g b = (b', r)" by force
  show ?thesis
  proof (cases r)
    case False
    with r group_owner_left_False show ?thesis by fastforce
  next
    case True
    with r obtain s u gr v vg f where
      h: "playing_at d b = Some (g, s)" "following_at v b = Some (vg, f)"
      "b' = schedule_group_reconcile u (hand_over d u v gr s vg f b)"
      by (metis group_owner_left_True)
    have dv: "d \<noteq> v"
      using h by (auto simp: playing_at_iff following_at_def split: option.splits device_state.splits)
    have sv: "slot_state (slot_of v b) = Following vg f"
      using h(2) by (auto simp: following_at_def state_of_def slot_of_def hm_entry_def
          split: option.splits device_state.splits)
    have "slot_evolves (slot_of v b) ((slot_of v b)\<lparr>slot_state := Playing vg s'\<rparr>)" for s'
      by (simp add: slot_evolves_def sv)
    moreover have "slot_evolves (slot_of d b) ((slot_of d b)\<lparr>slot_state := Idle\<rparr>)"
      by (simp add: slot_evolves_def)
    ultimately show ?thesis
      using dv by (simp add: r h(3) hand_over_def Let_def evolves_def)
  qed
qed

end
