(* ===== verification/Bridge_Start.thy ===== *)
theory Bridge_Start
  imports Bridge_Group
begin

text \<open>
  Session start (\<open>src/bridge/start.rs\<close>): prebuffer, start lead, media server, the initial Cast LOAD
  with its FLAC to WAV fallback, and the installation of \<open>Playing\<close>.

  \<open>handle_session_start\<close> is one task that waits several times. It is a machine: \<open>start_pc\<close> names
  the wait it sits in, and \<open>start_step\<close> takes what the wait returned and the bridge as it is
  \<^emph>\<open>then\<close>, so any other operation of the bridge may run between two steps. The
  \<open>StartingGuard\<close> of the source acts when the task ends (\<open>guard_drop\<close>) or is dropped by a
  shutdown (\<open>start_abandoned\<close>). The bridge runs with its AirPlay manager attached; the
  now-playing state it reports is an input.
\<close>

section \<open>Now-playing metadata of a LOAD (remote.rs)\<close>

definition artwork_url :: "artwork \<Rightarrow> media_handle \<Rightarrow> string" where
  "artwork_url a m = base_url m @ ''/artwork/'' @ show_nat (unat (art_id a))"

definition cast_track_of :: "now_playing \<Rightarrow> media_handle \<Rightarrow> string \<Rightarrow> cast_track" where
  "cast_track_of np m fallback_title =
     \<lparr>title = Some (case np_title np of Some t \<Rightarrow> t | None \<Rightarrow> fallback_title),
      artist = np_artist np, album = np_album np,
      image_url = map_option (\<lambda>a. artwork_url a m) (np_artwork np)\<rparr>"

definition bridge_load_track :: "now_playing \<Rightarrow> media_handle \<Rightarrow> string \<Rightarrow> media_handle \<times> cast_track" where
  "bridge_load_track np m fallback_title =
     (let m' = set_artwork (np_artwork np) m in (m', cast_track_of np m' fallback_title))"

section \<open>Waiting for audio\<close>

definition PREBUFFER_FRAMES :: usize where
  "PREBUFFER_FRAMES = 2048"

definition PREBUFFER_POLLS :: nat where
  "PREBUFFER_POLLS = 160"

definition CAST_START_LEAD_SECS :: nat where
  "CAST_START_LEAD_SECS = 6"

definition CAST_START_LEAD_WAIT :: duration where
  "CAST_START_LEAD_WAIT = from_secs 6"

definition START_LEAD_POLL :: duration where
  "START_LEAD_POLL = from_millis 20"

definition ring_is_current :: "ring_ref option \<Rightarrow> ring_ref \<Rightarrow> bool" where
  "ring_is_current current ring = (case current of None \<Rightarrow> False | Some r \<Rightarrow> ptr_eq r ring)"

text \<open>Poll \<open>i\<close> sees the receiver's current ring and the frames queued in ours.\<close>

fun prebuffer_loop :: "ring_ref \<Rightarrow> (nat \<Rightarrow> ring_ref option \<times> usize) \<Rightarrow> nat \<Rightarrow> nat \<Rightarrow> bool result" where
  "prebuffer_loop ring obs i 0 =
     (if snd (obs i) \<ge> PREBUFFER_FRAMES then Inr True
      else Inl (ErrBridge (''prebuffer timeout after 8s: '' @ show_nat (snd (obs i)) @
        '' frames available, need '' @ show_nat PREBUFFER_FRAMES)))"
| "prebuffer_loop ring obs i (Suc left) =
     (if \<not> ring_is_current (fst (obs i)) ring then Inr False
      else if snd (obs i) \<ge> PREBUFFER_FRAMES then Inr True
      else prebuffer_loop ring obs (Suc i) left)"

definition wait_for_prebuffer :: "ring_ref \<Rightarrow> (nat \<Rightarrow> ring_ref option \<times> usize) \<Rightarrow> bool result" where
  "wait_for_prebuffer ring obs = prebuffer_loop ring obs 0 PREBUFFER_POLLS"

definition lead_frames :: "u32 \<Rightarrow> usize" where
  "lead_frames sample_rate = usize_sat_mul CAST_START_LEAD_SECS (unat (max sample_rate 1))"

text \<open>
  \<open>wait_for_start_lead\<close>: the poll at which it returns, or \<open>None\<close> when the fuel runs out first.
  Poll \<open>i\<close> sees the queued frames, the clock, and whether the caller still wants to wait.
\<close>

fun start_lead_loop ::
  "usize \<Rightarrow> instant \<Rightarrow> (nat \<Rightarrow> usize \<times> instant \<times> bool) \<Rightarrow> nat \<Rightarrow> nat \<Rightarrow> nat option" where
  "start_lead_loop lead deadline obs i 0 = None"
| "start_lead_loop lead deadline obs i (Suc fuel) =
     (let (frames, now, keep_waiting) = obs i
      in if frames < lead \<and> now < deadline \<and> keep_waiting
         then start_lead_loop lead deadline obs (Suc i) fuel
         else Some i)"

definition wait_for_start_lead ::
  "u32 \<Rightarrow> instant \<Rightarrow> (nat \<Rightarrow> usize \<times> instant \<times> bool) \<Rightarrow> nat \<Rightarrow> nat option" where
  "wait_for_start_lead sample_rate started obs fuel =
     start_lead_loop (lead_frames sample_rate) (started + CAST_START_LEAD_WAIT) obs 0 fuel"

section \<open>The start task\<close>

record start_job =
  sj_device :: string
  sj_generation :: u64
  sj_cast :: device
  sj_ring :: ring_ref
  sj_channels :: u16
  sj_rate :: u32
  sj_route :: cast_route
  sj_group :: "string option"

datatype start_pc =
    AtPrebuffer
  | AtLead
  | AtMediaStart
  | AtFlacLoad media_handle cast_track
  | AtWavLoad media_handle cast_track
  | AtCancelStop
  | AtVolume media_handle egress_kind

datatype start_status = StartRunning start_job start_pc | StartEnded "unit result"

datatype start_input =
    PrebufferObs "nat \<Rightarrow> ring_ref option \<times> usize"
  | LeadObs "ring_ref option"
  | MediaStarted "media_handle result" now_playing
  | LoadReply "media_session_ref result result"
  | StopReply
  | VolumeReply "f32 result" now_playing instant

definition guard_drop :: "start_job \<Rightarrow> unit result \<Rightarrow> bridge \<Rightarrow> bridge" where
  "guard_drop j r b =
     (if is_ok r \<and> (case playing_at (sj_device j) b of
                       Some (g, _) \<Rightarrow> g = sj_generation j | None \<Rightarrow> False)
      then b else clear_starting_if (sj_device j) (sj_generation j) b)"

definition start_abandoned :: "start_job \<Rightarrow> bridge \<Rightarrow> bridge" where
  "start_abandoned j b = clear_starting_if (sj_device j) (sj_generation j) b"

definition start_end :: "start_job \<Rightarrow> unit result \<Rightarrow> bridge \<Rightarrow> bridge \<times> start_status" where
  "start_end j r b =
     (guard_drop j r (clear_starting_if (sj_device j) (sj_generation j) b), StartEnded r)"

definition accept_member ::
  "string \<Rightarrow> u32 \<Rightarrow> ring_ref \<Rightarrow> string option \<Rightarrow> bridge \<Rightarrow> bridge \<times> group_entry \<times> string option" where
  "accept_member d rate ring airplay_group b =
     (case airplay_group of
        Some uuid \<Rightarrow>
          (case enter_group d uuid rate ring b of
             (b', EntryStandalone) \<Rightarrow>
               (let (b2, g, prior) = accept_start d b' in (b2, EntryOwner g prior None, None))
           | (b', e) \<Rightarrow> (b', e, Some uuid))
      | None \<Rightarrow> (let (b2, g, prior) = accept_start d b in (b2, EntryOwner g prior None, None)))"

definition handle_session_start ::
  "string \<Rightarrow> u32 \<Rightarrow> ring_ref \<Rightarrow> string option \<Rightarrow> ring_ref option \<Rightarrow> bridge \<Rightarrow> bridge \<times> start_status" where
  "handle_session_start d rate ring airplay_group current b =
     (if \<not> ring_is_current current ring then (b, StartEnded (Inr ()))
      else case accept_member d rate ring airplay_group b of
        (b1, EntryFollowing prior, grp) \<Rightarrow>
          (schedule_group_reconcile (the grp) (detach_prior prior StopBestEffort b1), StartEnded (Inr ()))
      | (b1, EntryOwner g prior media_at, grp) \<Rightarrow>
          (let b2 = detach_prior prior SkipStopForReplace b1;
               job = \<lparr>sj_device = d, sj_generation = g, sj_cast = the (get d (registry_of b2)),
                  sj_ring = ring, sj_channels = max (ring_channels ring) 1, sj_rate = max rate 1,
                  sj_route = cast_route_new (case media_at of Some k \<Rightarrow> k | None \<Rightarrow> d) d,
                  sj_group = grp\<rparr>
           in if get d (registry_of b2) = None
              then start_end job (Inl (ErrBridge (''unknown device '' @ d))) b2
              else (b2, StartRunning job AtPrebuffer))
      | (b1, EntryStandalone, grp) \<Rightarrow> (b1, StartEnded (Inr ())))"

text \<open>\<open>initial_cast_load\<close>: the first LOAD, by the egress remembered for the device.\<close>

definition live_flac_content :: "start_job \<Rightarrow> media_content" where
  "live_flac_content j = LiveFlac (sj_ring j) (sj_channels j) (sj_rate j)"

definition live_wav_content :: "start_job \<Rightarrow> media_content" where
  "live_wav_content j = LiveWav (sj_ring j) (sj_channels j) (sj_rate j)"

definition send_flac_load :: "start_job \<Rightarrow> media_handle \<Rightarrow> cast_track \<Rightarrow> bridge \<Rightarrow> bridge \<times> start_status" where
  "send_flac_load j m t b =
     (let m' = set_content (live_flac_content j) m
      in (emit (CastLoad (route_media (sj_route j)) (with_track (load_flac (stream_url m') Live) t)) b,
          StartRunning j (AtFlacLoad m' t)))"

definition send_wav_load :: "start_job \<Rightarrow> media_handle \<Rightarrow> cast_track \<Rightarrow> bridge \<Rightarrow> bridge \<times> start_status" where
  "send_wav_load j m t b =
     (let m' = set_content (live_wav_content j) m
      in (emit (CastLoad (route_media (sj_route j)) (with_track (load_wav (stream_url m') Buffered) t)) b,
          StartRunning j (AtWavLoad m' t)))"

definition initial_cast_load :: "start_job \<Rightarrow> media_handle \<Rightarrow> now_playing \<Rightarrow> bridge \<Rightarrow> bridge \<times> start_status" where
  "initial_cast_load j m np b =
     (let (m', t) = bridge_load_track np m (dev_name (sj_cast j))
      in case select_egress (sj_device j \<in> flac_fallback b) of
           FlacLive \<Rightarrow> send_flac_load j m' t b
         | WavBuffered \<Rightarrow> send_wav_load j m' t b)"

definition flac_load_failed ::
  "start_job \<Rightarrow> media_handle \<Rightarrow> cast_track \<Rightarrow> error \<Rightarrow> bridge \<Rightarrow> bridge \<times> start_status" where
  "flac_load_failed j m t err b =
     send_wav_load j m t
       (if is_transport_shaped_cast_error err then b else remember_flac_fallback (sj_device j) b)"

definition load_failed :: "start_job \<Rightarrow> media_handle \<Rightarrow> error \<Rightarrow> bridge \<Rightarrow> bridge \<times> start_status" where
  "load_failed j m err b = start_end j (Inl err) (emit (MediaShutdown (media_shutdown m)) b)"

text \<open>After a successful LOAD: a cancelled start discards it and stops Cast.\<close>

definition load_succeeded :: "start_job \<Rightarrow> media_handle \<Rightarrow> egress_kind \<Rightarrow> bridge \<Rightarrow> bridge \<times> start_status" where
  "load_succeeded j m e b =
     (if starting_still (sj_device j) (sj_generation j) b then (b, StartRunning j (AtVolume m e))
      else (emit_all [MediaShutdown (media_shutdown m), CastStop (route_media (sj_route j))] b,
            StartRunning j AtCancelStop))"

section \<open>Installing the session\<close>

definition new_session ::
  "start_job \<Rightarrow> nat \<Rightarrow> media_handle \<Rightarrow> egress_kind \<Rightarrow> instant \<Rightarrow> playing_session" where
  "new_session j n m e now =
     \<lparr>sid = n, media = m, ps_device_id = sj_device j, ps_group = sj_group j, ps_ring = sj_ring j,
      ps_source = None, ps_stream_url = stream_url m, cast_name = dev_name (sj_cast j),
      ps_channels = sj_channels j, ps_sample_rate = sj_rate j, ps_egress = e, paused = False,
      paused_at = None, flush_reload_requested = 0, flush_reload_done = 0,
      last_stall_reload_at = None, stall_reload_owed = False, started_at = now, flac_strike = None,
      tasks = [], rollover_running = (e = WavBuffered),
      watchdog = Some (sj_device j, sj_generation j)\<rparr>"

definition new_cells :: "start_job \<Rightarrow> f32 option \<Rightarrow> cast_track \<Rightarrow> shared_cells" where
  "new_cells j level t =
     \<lparr>route = sj_route j, playback_paused = False, session_alive = True, late_stop_allowed = True,
      last_volume_linear = level, track = t, reload_flight_held = False\<rparr>"

definition create_session :: "start_job \<Rightarrow> f32 option \<Rightarrow> cast_track \<Rightarrow> egress_kind \<Rightarrow> bridge \<Rightarrow> bridge" where
  "create_session j level t e b =
     emit_all ((if e = WavBuffered then [SpawnRollover (next_sid b)] else []) @
               [SpawnWatchdog (sj_device j) (sj_generation j)])
       (upd_cells (next_sid b) (\<lambda>_. new_cells j level t) (b\<lparr>next_sid := Suc (next_sid b)\<rparr>))"

definition orphan_policy :: "start_job \<Rightarrow> bridge \<Rightarrow> teardown_cast_policy option" where
  "orphan_policy j b =
     (case state_of (sj_device j) b of
        Some (Starting g) \<Rightarrow> if g = sj_generation j then None else Some SkipStopForReplace
      | Some (Playing _ _) \<Rightarrow> Some SkipStopForReplace
      | _ \<Rightarrow> Some StopBestEffort)"

definition install_playing_after_load ::
  "start_job \<Rightarrow> media_handle \<Rightarrow> egress_kind \<Rightarrow> f32 option \<Rightarrow> now_playing \<Rightarrow> instant \<Rightarrow> bridge \<Rightarrow> bridge" where
  "install_playing_after_load j m e level np now b =
     (let (m', t) = bridge_load_track np m (dev_name (sj_cast j));
          s = new_session j (next_sid b) m' e now;
          b1 = create_session j level t e b
      in case orphan_policy j b1 of
           None \<Rightarrow>
             (let b2 = set_state (sj_device j) (Playing (sj_generation j) s) b1
              in case sj_group j of
                   None \<Rightarrow> b2
                 | Some uuid \<Rightarrow> group_owner_playing uuid (sj_device j) b2)
         | Some policy \<Rightarrow> detach_teardown s policy b1)"

text \<open>\<open>sync_reported_volume_after_load\<close>, from what \<open>get_volume\<close> returned.\<close>

definition sync_reported_volume :: "string \<Rightarrow> f32 result \<Rightarrow> bridge \<Rightarrow> bridge \<times> f32 option" where
  "sync_reported_volume d r b =
     (case r of Inl _ \<Rightarrow> (b, None) | Inr level \<Rightarrow> (emit (SetReportedVolume d level) b, Some level))"

section \<open>The step function\<close>

fun start_step :: "start_job \<Rightarrow> start_pc \<Rightarrow> start_input \<Rightarrow> bridge \<Rightarrow> bridge \<times> start_status" where
  "start_step j AtPrebuffer (PrebufferObs obs) b =
     (case wait_for_prebuffer (sj_ring j) obs of
        Inr True \<Rightarrow> (b, StartRunning j AtLead)
      | Inr False \<Rightarrow> start_end j (Inr ()) b
      | Inl err \<Rightarrow> start_end j (Inl err) b)"
| "start_step j AtLead (LeadObs current) b =
     (if \<not> ring_is_current current (sj_ring j) \<or> \<not> starting_still (sj_device j) (sj_generation j) b
      then start_end j (Inr ()) b
      else (b, StartRunning j AtMediaStart))"
| "start_step j AtMediaStart (MediaStarted r np) b =
     (case r of
        Inl err \<Rightarrow> start_end j (Inl err) b
      | Inr m \<Rightarrow> initial_cast_load j m np b)"
| "start_step j (AtFlacLoad m t) (LoadReply r) b =
     (case r of
        Inl join_err \<Rightarrow> load_failed j m join_err b
      | Inr (Inl err) \<Rightarrow> flac_load_failed j m t err b
      | Inr (Inr _) \<Rightarrow> load_succeeded j m FlacLive b)"
| "start_step j (AtWavLoad m t) (LoadReply r) b =
     (case r of
        Inl join_err \<Rightarrow> load_failed j m join_err b
      | Inr (Inl err) \<Rightarrow> load_failed j m err b
      | Inr (Inr _) \<Rightarrow> load_succeeded j m WavBuffered b)"
| "start_step j AtCancelStop StopReply b = start_end j (Inr ()) b"
| "start_step j (AtVolume m e) (VolumeReply r np now) b =
     (let (b1, level) = sync_reported_volume (sj_device j) r b;
          b2 = install_playing_after_load j m e level np now b1
      in (guard_drop j (Inr ()) b2, StartEnded (Inr ())))"
| "start_step j pc _ b = (b, StartRunning j pc)"

section \<open>Waiting ends\<close>

lemma prebuffer_loop_result:
  "prebuffer_loop ring obs i k = r \<Longrightarrow>
   (case r of
      Inr True \<Rightarrow> \<exists>n. i \<le> n \<and> n \<le> i + k \<and> PREBUFFER_FRAMES \<le> snd (obs n) \<and>
        (\<forall>m. i \<le> m \<and> m < n \<longrightarrow> ring_is_current (fst (obs m)) ring \<and> snd (obs m) < PREBUFFER_FRAMES)
    | Inr False \<Rightarrow> \<exists>n. i \<le> n \<and> n < i + k \<and> \<not> ring_is_current (fst (obs n)) ring \<and>
        (\<forall>m. i \<le> m \<and> m < n \<longrightarrow> snd (obs m) < PREBUFFER_FRAMES)
    | Inl _ \<Rightarrow> \<forall>m. i \<le> m \<and> m \<le> i + k \<longrightarrow> snd (obs m) < PREBUFFER_FRAMES)"
proof (induction ring obs i k arbitrary: r rule: prebuffer_loop.induct)
  case (1 ring obs i)
  then show ?case by (auto simp: not_le split: if_splits intro!: exI [of _ i])
next
  case (2 ring obs i left)
  consider "\<not> ring_is_current (fst (obs i)) ring"
    | "ring_is_current (fst (obs i)) ring" "PREBUFFER_FRAMES \<le> snd (obs i)"
    | "ring_is_current (fst (obs i)) ring" "snd (obs i) < PREBUFFER_FRAMES"
    by linarith
  then show ?case
  proof cases
    case 1
    with 2(2) have "r = Inr False" by simp
    with 1 show ?thesis by (auto intro!: exI [of _ i])
  next
    case 2
    with \<open>prebuffer_loop ring obs i (Suc left) = r\<close> have "r = Inr True" by simp
    with 2 show ?thesis by (auto intro!: exI [of _ i])
  next
    case 3
    then have "prebuffer_loop ring obs (Suc i) left = r" using 2(2) by simp
    from "2.IH" [OF _ _ this] 3
    have IH: "case r of
      Inr True \<Rightarrow> \<exists>n. Suc i \<le> n \<and> n \<le> Suc i + left \<and> PREBUFFER_FRAMES \<le> snd (obs n) \<and>
        (\<forall>m. Suc i \<le> m \<and> m < n \<longrightarrow> ring_is_current (fst (obs m)) ring \<and> snd (obs m) < PREBUFFER_FRAMES)
    | Inr False \<Rightarrow> \<exists>n. Suc i \<le> n \<and> n < Suc i + left \<and> \<not> ring_is_current (fst (obs n)) ring \<and>
        (\<forall>m. Suc i \<le> m \<and> m < n \<longrightarrow> snd (obs m) < PREBUFFER_FRAMES)
    | Inl _ \<Rightarrow> \<forall>m. Suc i \<le> m \<and> m \<le> Suc i + left \<longrightarrow> snd (obs m) < PREBUFFER_FRAMES"
      by auto
    have upto: "i \<le> m \<longleftrightarrow> m = i \<or> Suc i \<le> m" for m by auto
    show ?thesis
    proof (cases r)
      case (Inl e)
      with IH 3 show ?thesis by (auto simp: upto)
    next
      case (Inr ok)
      show ?thesis
      proof (cases ok)
        case True
        with IH Inr obtain n where "Suc i \<le> n" "n \<le> Suc i + left" "PREBUFFER_FRAMES \<le> snd (obs n)"
          "\<forall>m. Suc i \<le> m \<and> m < n \<longrightarrow> ring_is_current (fst (obs m)) ring \<and> snd (obs m) < PREBUFFER_FRAMES"
          by auto
        with Inr True 3 show ?thesis by (auto simp: upto intro!: exI [of _ n])
      next
        case False
        with IH Inr obtain n where "Suc i \<le> n" "n < Suc i + left" "\<not> ring_is_current (fst (obs n)) ring"
          "\<forall>m. Suc i \<le> m \<and> m < n \<longrightarrow> snd (obs m) < PREBUFFER_FRAMES"
          by auto
        with Inr False 3 show ?thesis by (auto simp: upto intro!: exI [of _ n])
      qed
    qed
  qed
qed

lemma start_lead_loop_stops:
  "\<not> (fst (obs n) < lead \<and> fst (snd (obs n)) < deadline \<and> snd (snd (obs n))) \<Longrightarrow> i \<le> n \<Longrightarrow>
   n - i < fuel \<Longrightarrow>
   \<exists>m. start_lead_loop lead deadline obs i fuel = Some m \<and> i \<le> m \<and> m \<le> n"
proof (induction lead deadline obs i fuel rule: start_lead_loop.induct)
  case (1 lead deadline obs i)
  then show ?case by simp
next
  case (2 lead deadline obs i fuel)
  show ?case
  proof (cases "fst (obs i) < lead \<and> fst (snd (obs i)) < deadline \<and> snd (snd (obs i))")
    case False
    with 2(3) show ?thesis by (auto simp: case_prod_beta)
  next
    case True
    with 2(2,3) have "Suc i \<le> n" by (cases "i = n") auto
    moreover have "n - Suc i < fuel" using 2(4) calculation by simp
    moreover obtain fr nw kw where o: "obs i = (fr, nw, kw)" by (metis prod_cases3)
    ultimately have "\<exists>m. start_lead_loop lead deadline obs (Suc i) fuel = Some m \<and> Suc i \<le> m \<and> m \<le> n"
      using True "2.IH" [OF refl o [symmetric] refl _ 2(2)] by simp
    with True show ?thesis by (auto simp: case_prod_beta)
  qed
qed

section \<open>Preservation\<close>

lemma guard_drop_ok: "bridge_ok b \<Longrightarrow> bridge_ok (guard_drop j r b)"
  by (simp add: guard_drop_def clear_starting_if_ok)

lemma start_end_ok: "bridge_ok b \<Longrightarrow> bridge_ok (fst (start_end j r b))"
  by (simp add: start_end_def guard_drop_ok clear_starting_if_ok)

lemma start_abandoned_ok: "bridge_ok b \<Longrightarrow> bridge_ok (start_abandoned j b)"
  by (simp add: start_abandoned_def clear_starting_if_ok)

lemma send_load_ok:
  "bridge_ok b \<Longrightarrow> bridge_ok (fst (send_flac_load j m t b))"
  "bridge_ok b \<Longrightarrow> bridge_ok (fst (send_wav_load j m t b))"
  by (auto simp: send_flac_load_def send_wav_load_def Let_def intro!: emit_ok)

lemma initial_cast_load_ok: "bridge_ok b \<Longrightarrow> bridge_ok (fst (initial_cast_load j m np b))"
  by (auto simp: initial_cast_load_def send_load_ok split: prod.splits egress_kind.splits)

lemma load_outcome_ok:
  "bridge_ok b \<Longrightarrow> bridge_ok (fst (flac_load_failed j m t err b))"
  "bridge_ok b \<Longrightarrow> bridge_ok (fst (load_failed j m err b))"
  "bridge_ok b \<Longrightarrow> bridge_ok (fst (load_succeeded j m e b))"
  by (auto simp: flac_load_failed_def load_failed_def load_succeeded_def send_load_ok
      remember_flac_fallback_ok start_end_ok emit_ok emit_all_ok)

lemma sync_reported_volume_ok: "bridge_ok b \<Longrightarrow> bridge_ok (fst (sync_reported_volume d r b))"
  by (auto simp: sync_reported_volume_def split: sum.splits intro!: emit_ok)

lemma create_session_frames [simp]:
  "devices (create_session j level t e b) = devices b" "groups (create_session j level t e b) = groups b"
  "next_sid (create_session j level t e b) = Suc (next_sid b)"
  "shared (create_session j level t e b) = (shared b)(next_sid b := new_cells j level t)"
  "state_of d (create_session j level t e b) = state_of d b"
  "slot_of d (create_session j level t e b) = slot_of d b"
  "torn_down (effects (create_session j level t e b)) = torn_down (effects b)"
  by (simp_all add: create_session_def state_of_def slot_of_def emit_all_def upd_cells_def)

lemma create_session_slots_ok: "bridge_ok b \<Longrightarrow> slots_ok (create_session j level t e b)"
proof -
  assume ok: "bridge_ok b"
  have "slots_ok (upd_cells (next_sid b) (\<lambda>_. new_cells j level t) b)"
    using bridge_okD [OF ok] fresh_sid_not_live by (intro slots_ok_upd_cells) auto
  then show ?thesis
    by (simp add: slots_ok_def)
qed

lemma install_ok:
  assumes ok: "bridge_ok b" and route: "route_volume (sj_route j) = sj_device j"
  shows "bridge_ok (install_playing_after_load j m e level np now b)"
proof -
  obtain m' t where t: "bridge_load_track np m (dev_name (sj_cast j)) = (m', t)" by force
  let ?s = "new_session j (next_sid b) m' e now"
  let ?b1 = "create_session j level t e b"
  have sl: "slots_ok ?b1" by (rule create_session_slots_ok [OF ok])
  have gr: "groups_ok ?b1" using bridge_okD(2) [OF ok] by (simp add: groups_ok_def)
  have count: "mset (map sid (sessions_in (devices b))) + mset (map sid (torn_down (effects b)))
      = mset [0..<next_sid b]" using bridge_okD(3) [OF ok] by (simp add: sids_ok_def)
  show ?thesis
  proof (cases "orphan_policy j ?b1")
    case None
    then have st: "state_of (sj_device j) b = Some (Starting (sj_generation j))"
      by (auto simp: orphan_policy_def split: option.splits device_state.splits if_splits)
    let ?b2 = "set_state (sj_device j) (Playing (sj_generation j) ?s) ?b1"
    have ss: "slot_state (slot_of (sj_device j) b) = Starting (sj_generation j)"
      using st by (auto simp: state_of_def slot_of_def hm_entry_def split: option.splits)
    then have gen: "sj_generation j = slot_generation (slot_of (sj_device j) b)"
      using slots_ok_get [OF bridge_okD(1) [OF ok], of "sj_device j"] by (simp add: slot_ok_def)
    have "slots_ok ?b2"
      using sl gen route by (intro slots_ok_set_state)
        (auto simp: slot_ok_def session_ok_def new_session_def new_cells_def)
    moreover have "groups_ok ?b2" using gr by simp
    moreover have "sids_ok ?b2"
    proof -
      have "hm_ok (devices ?b1)" using bridge_okD(4) [OF ok] by simp
      from sids_in_insert [OF this, of "sj_device j"
          "(slot_of (sj_device j) b)\<lparr>slot_state := Playing (sj_generation j) ?s\<rparr>"]
      have "mset (map sid (sessions_in (devices ?b2))) = mset (map sid (sessions_in (devices b))) + {#next_sid b#}"
        using ss by (simp add: set_state_def slot_session_def new_session_def)
      with count show ?thesis by (simp add: sids_ok_def)
    qed
    ultimately have "bridge_ok ?b2" by (rule bridge_okI)
    then show ?thesis
      by (auto simp: install_playing_after_load_def t Let_def None group_owner_playing_ok split: option.splits)
  next
    case (Some p)
    have "sids_ok (detach_teardown ?s p ?b1)"
      using count by (simp add: sids_ok_def detach_teardown_def new_session_def)
    then have "bridge_ok (detach_teardown ?s p ?b1)"
      using sl gr by (intro bridge_okI) (simp_all add: detach_teardown_def)
    then show ?thesis by (simp add: install_playing_after_load_def t Let_def Some)
  qed
qed

definition job_ok :: "start_job \<Rightarrow> bool" where
  "job_ok j \<longleftrightarrow> route_volume (sj_route j) = sj_device j"

lemma start_step_ok:
  assumes "bridge_ok b" "job_ok j"
  shows "bridge_ok (fst (start_step j pc inp b))"
proof -
  have vol: "bridge_ok (fst (start_step j (AtVolume m e) (VolumeReply r np now) b))" for m e r np now
  proof -
    obtain b1 level where s: "sync_reported_volume (sj_device j) r b = (b1, level)" by force
    then have "bridge_ok b1" using sync_reported_volume_ok [OF assms(1), of "sj_device j" r] by simp
    then show ?thesis using assms(2) by (simp add: s guard_drop_ok install_ok job_ok_def)
  qed
  show ?thesis
    by (cases pc; cases inp)
      (use assms vol in \<open>auto simp: start_end_ok initial_cast_load_ok load_outcome_ok
        simp del: start_step.simps(7) split: sum.splits bool.splits\<close>)
qed

section \<open>Only its own slot, and nothing left behind\<close>

lemma group_owner_playing_frames [simp]:
  "devices (group_owner_playing u d b) = devices b" "shared (group_owner_playing u d b) = shared b"
  "state_of e (group_owner_playing u d b) = state_of e b"
  by (auto simp: group_owner_playing_def split: option.splits)

lemma guard_drop_state:
  "state_of e (guard_drop j r b) =
     (if e = sj_device j \<and> state_of e b = Some (Starting (sj_generation j)) then Some Idle else state_of e b)"
  by (auto simp: guard_drop_def clear_starting_if_def playing_at_def)

lemma start_end_state:
  "state_of e (fst (start_end j r b)) =
     (if e = sj_device j \<and> state_of e b = Some (Starting (sj_generation j)) then Some Idle else state_of e b)"
  by (auto simp: start_end_def guard_drop_state clear_starting_if_def)

lemma send_load_states [simp]:
  "state_of e (fst (send_flac_load j m t b)) = state_of e b"
  "state_of e (fst (send_wav_load j m t b)) = state_of e b"
  "snd (send_flac_load j m t b) = StartRunning j (AtFlacLoad (set_content (live_flac_content j) m) t)"
  "snd (send_wav_load j m t b) = StartRunning j (AtWavLoad (set_content (live_wav_content j) m) t)"
  by (simp_all add: send_flac_load_def send_wav_load_def Let_def)

lemma initial_cast_load_state [simp]:
  "state_of e (fst (initial_cast_load j m np b)) = state_of e b"
  "\<exists>pc. snd (initial_cast_load j m np b) = StartRunning j pc"
  by (auto simp: initial_cast_load_def split: prod.splits egress_kind.splits)

lemma remember_flac_fallback_frames [simp]:
  "state_of e (remember_flac_fallback d b) = state_of e b" "effects (remember_flac_fallback d b) = effects b"
  "flac_fallback (remember_flac_fallback d b) = insert d (flac_fallback b)"
  "shared (remember_flac_fallback d b) = shared b"
  by (simp_all add: remember_flac_fallback_def state_of_def)

lemma sync_reported_volume_state [simp]:
  "state_of e (fst (sync_reported_volume d r b)) = state_of e b"
  by (simp add: sync_reported_volume_def split: sum.splits)

lemma install_state:
  "state_of e (install_playing_after_load j m eg level np now b) =
     (if e = sj_device j \<and> state_of e b = Some (Starting (sj_generation j))
      then Some (Playing (sj_generation j)
        (new_session j (next_sid b) (fst (bridge_load_track np m (dev_name (sj_cast j)))) eg now))
      else state_of e b)"
  by (auto simp: install_playing_after_load_def orphan_policy_def detach_teardown_def Let_def
      split: prod.splits option.splits device_state.splits if_splits)

definition start_frame :: "start_job \<Rightarrow> bridge \<Rightarrow> bridge \<times> start_status \<Rightarrow> bool" where
  "start_frame j b res \<longleftrightarrow>
    (let mine = Some (Starting (sj_generation j)); b' = fst res in
     (\<forall>e. e \<noteq> sj_device j \<or> state_of e b \<noteq> mine \<longrightarrow> state_of e b' = state_of e b) \<and>
     (case snd res of
        StartRunning j' _ \<Rightarrow> j' = j \<and> state_of (sj_device j) b' = state_of (sj_device j) b
      | StartEnded r \<Rightarrow> state_of (sj_device j) b' \<noteq> mine \<and>
         (state_of (sj_device j) b = mine \<longrightarrow>
            state_of (sj_device j) b' = Some Idle \<or>
            r = Inr () \<and> (\<exists>s. state_of (sj_device j) b' = Some (Playing (sj_generation j) s)))))"

lemma start_frame_end:
  "(\<And>e. state_of e b0 = state_of e b) \<Longrightarrow> start_frame j b (start_end j r b0)"
  using start_end_state [of _ j r b0] by (auto simp: start_frame_def start_end_def)

lemma start_frame_run:
  "(\<And>e. state_of e b0 = state_of e b) \<Longrightarrow> start_frame j b (b0, StartRunning j pc)"
  by (auto simp: start_frame_def)

lemma start_frame_res:
  "(\<And>e. state_of e (fst res) = state_of e b) \<Longrightarrow> snd res = StartRunning j pc \<Longrightarrow> start_frame j b res"
  by (cases res) (auto simp: start_frame_def)

lemma start_frame_wav:
  "(\<And>e. state_of e b0 = state_of e b) \<Longrightarrow> start_frame j b (send_wav_load j m t b0)"
  by (rule start_frame_res) simp_all

lemma start_frame_flac:
  "(\<And>e. state_of e b0 = state_of e b) \<Longrightarrow> start_frame j b (send_flac_load j m t b0)"
  by (rule start_frame_res) simp_all

lemma start_frame_transitions:
  "start_frame j b (start_end j r b)" "start_frame j b (b, StartRunning j pc)"
  "start_frame j b (initial_cast_load j m np b)" "start_frame j b (flac_load_failed j m t err b)"
  "start_frame j b (load_failed j m err b)" "start_frame j b (load_succeeded j m eg b)"
  by (auto simp: initial_cast_load_def flac_load_failed_def load_failed_def load_succeeded_def
      split: prod.splits egress_kind.splits
      intro!: start_frame_end start_frame_run start_frame_wav start_frame_flac)

lemma start_frame_install:
  "start_frame j b (start_step j (AtVolume m e) (VolumeReply r np now) b)"
proof -
  obtain b1 level where s: "sync_reported_volume (sj_device j) r b = (b1, level)" by force
  then have "state_of i b1 = state_of i b" for i
    using sync_reported_volume_state [of i "sj_device j" r b] by simp
  then show ?thesis by (auto simp: s start_frame_def guard_drop_state install_state Let_def)
qed

lemma start_step_frame: "start_frame j b (start_step j pc inp b)"
  by (cases pc; cases inp)
    (auto simp: start_frame_transitions start_frame_install simp del: start_step.simps(7)
      split: sum.splits bool.splits)

section \<open>Properties\<close>

definition example_device :: device where
  "example_device = device_new ''d'' ''Den'' ''10.0.0.2'' ''den.local'' 8009 ''Den'' 0"

definition example_job :: start_job where
  "example_job = \<lparr>sj_device = ''d'', sj_generation = 1, sj_cast = example_device,
     sj_ring = \<lparr>ring_ptr = 7, ring_channels = 2\<rparr>, sj_channels = 2, sj_rate = 48000,
     sj_route = cast_route_new ''d'' ''d'', sj_group = None\<rparr>"

definition example_media :: media_handle where
  "example_media = \<lparr>base_url = ''http://10.0.0.1:9'', content = EmptyContent, live_generation = 0,
     max_body_bytes = LIVE_CONTENT_LENGTH, bytes_served = 0, last_body_write = None,
     served_artwork = None, serving = True\<rparr>"

definition example_ref :: media_session_ref where
  "example_ref = \<lparr>transport_id = ''t'', session_id = ''s'', media_session_id = 1, queue_item_id = None\<rparr>"

definition example_starting :: bridge where
  "example_starting =
     set_slot ''d'' \<lparr>slot_generation = 1, slot_state = Starting 1\<rparr> (bridge_new registry_new)"

text \<open>
  C26: A step of a session start touches only its own device's slot, and only while that slot is
  still \<open>Starting\<close> with the task's generation, so a superseded start can neither revive nor clear a
  newer session. When the task ends, on any branch, the slot is not left \<open>Starting\<close>: it is
  \<open>Idle\<close>, or, only if the start succeeded, \<open>Playing\<close> with that generation.
\<close>

theorem start_step_isolated:
  assumes "start_step j pc inp b = (b', st)"
  shows "(\<forall>e. e \<noteq> sj_device j \<or> state_of e b \<noteq> Some (Starting (sj_generation j)) \<longrightarrow>
            state_of e b' = state_of e b) \<and>
     (case st of
        StartRunning j' _ \<Rightarrow> j' = j \<and> state_of (sj_device j) b' = state_of (sj_device j) b
      | StartEnded r \<Rightarrow> state_of (sj_device j) b' \<noteq> Some (Starting (sj_generation j)) \<and>
         (state_of (sj_device j) b = Some (Starting (sj_generation j)) \<longrightarrow>
            state_of (sj_device j) b' = Some Idle \<or>
            r = Inr () \<and> (\<exists>s. state_of (sj_device j) b' = Some (Playing (sj_generation j) s))))"
  using start_step_frame [of j b pc inp] by (simp add: assms start_frame_def Let_def)

lemma example_starting_state: "state_of ''d'' example_starting = Some (Starting 1)"
  by (simp add: example_starting_def)

theorem start_step_isolated_witness:
  "let b' = fst (start_step example_job AtCancelStop StopReply example_starting)
   in state_of ''d'' b' = Some Idle \<and> state_of ''e'' b' = state_of ''e'' example_starting"
proof -
  have run: "start_step example_job AtCancelStop StopReply example_starting
      = (fst (start_end example_job (Inr ()) example_starting), StartEnded (Inr ()))"
    by (simp add: start_end_def)
  have "\<not> (\<exists>s. state_of ''d'' (fst (start_end example_job (Inr ()) example_starting)) = Some (Playing 1 s))"
    by (simp add: start_end_state example_starting_state example_job_def)
  with start_step_isolated [OF run] show ?thesis
    by (simp add: run example_job_def example_starting_state)
qed

lemma example_starting_ok: "bridge_ok example_starting"
proof -
  have "bridge_ok (bridge_new registry_new)" by (rule bridge_ok_new)
  note D = bridge_okD [OF this]
  have e: "slot_of ''d'' (bridge_new registry_new) = default_slot"
    by (simp add: slot_of_def hm_entry_def bridge_new_def)
  have "slots_ok example_starting"
    unfolding example_starting_def using D by (intro slots_ok_set_slot) (auto simp: slot_ok_def)
  moreover have "sids_ok example_starting"
    unfolding example_starting_def using D by (intro sids_ok_set_slot) (auto simp: e)
  ultimately show ?thesis using D by (simp add: bridge_okI example_starting_def)
qed

text \<open>
  A refused FLAC LOAD falls back to WAV for this session on the same URL and worker; the device
  is remembered as WAV-only exactly when the error is a decisive rejection, not a transport error.
\<close>

theorem flac_load_falls_back:
  "start_step j (AtFlacLoad m t) (LoadReply (Inr (Inl err))) b = (b', st) \<longleftrightarrow>
     st = StartRunning j (AtWavLoad (set_content (live_wav_content j) m) t) \<and>
     b' = emit (CastLoad (route_media (sj_route j)) (with_track (load_wav (stream_url m) Buffered) t))
            (if is_transport_shaped_cast_error err then b else remember_flac_fallback (sj_device j) b)"
  by (auto simp: flac_load_failed_def send_wav_load_def Let_def stream_url_def set_content_def)

text \<open>
  A finished LOAD becomes a \<open>Playing\<close> session exactly when its start still owns the slot.
  Otherwise the new session is handed to one teardown: without a Cast STOP when a newer start or
  session owns the slot (it would stop the newer session), with a STOP when the start was cancelled.
\<close>

theorem install_or_teardown:
  "let owns = (state_of (sj_device j) b = Some (Starting (sj_generation j)));
       (m', t) = bridge_load_track np m (dev_name (sj_cast j));
       s = new_session j (next_sid b) m' e now;
       b' = install_playing_after_load j m e level np now b
   in state_of (sj_device j) b' =
        (if owns then Some (Playing (sj_generation j) s) else state_of (sj_device j) b) \<and>
      torn_down (effects b') = torn_down (effects b) @ (if owns then [] else [s]) \<and>
      (owns \<or> effects b' = effects (create_session j level t e b) @
         [Teardown s (if starting_or_playing (sj_device j) b then SkipStopForReplace else StopBestEffort)])"
proof -
  obtain m' t where t: "bridge_load_track np m (dev_name (sj_cast j)) = (m', t)" by force
  have st: "state_of (sj_device j) (install_playing_after_load j m e level np now b) =
      (if state_of (sj_device j) b = Some (Starting (sj_generation j))
       then Some (Playing (sj_generation j) (new_session j (next_sid b) m' e now))
       else state_of (sj_device j) b)"
    using install_state [of "sj_device j" j m e level np now b] by (simp add: t)
  have gop: "torn_down (effects (group_owner_playing u d x)) = torn_down (effects x)" for u d x
    by (auto simp: group_owner_playing_def schedule_group_reconcile_def split: option.splits)
  show ?thesis
    using st
    by (auto simp: t Let_def install_playing_after_load_def orphan_policy_def detach_teardown_def
        starting_or_playing_def gop split: option.splits device_state.splits)
qed

text \<open>
  The prebuffer wait answers within its 161 looks at the ring, and truthfully: ready means a
  block of audio was queued while the ring was still the receiver's; stale means the receiver's
  ring changed first; the timeout error means no look ever found a block.
\<close>

theorem prebuffer_verdict:
  "case wait_for_prebuffer ring obs of
      Inr True \<Rightarrow> \<exists>n\<le>PREBUFFER_POLLS. PREBUFFER_FRAMES \<le> snd (obs n) \<and>
        (\<forall>m<n. ring_is_current (fst (obs m)) ring \<and> snd (obs m) < PREBUFFER_FRAMES)
    | Inr False \<Rightarrow> \<exists>n<PREBUFFER_POLLS. \<not> ring_is_current (fst (obs n)) ring \<and>
        (\<forall>m<n. snd (obs m) < PREBUFFER_FRAMES)
    | Inl _ \<Rightarrow> \<forall>m\<le>PREBUFFER_POLLS. snd (obs m) < PREBUFFER_FRAMES"
  using prebuffer_loop_result [OF refl, where ring = ring and obs = obs and i = 0 and k = PREBUFFER_POLLS]
  by (simp add: wait_for_prebuffer_def split: sum.splits bool.splits)

theorem prebuffer_verdict_witness:
  "wait_for_prebuffer \<lparr>ring_ptr = 7, ring_channels = 2\<rparr> (\<lambda>_. (None, 5000)) = Inr False \<and>
   (\<exists>n<PREBUFFER_POLLS. \<not> ring_is_current (fst (None, 5000::nat)) \<lparr>ring_ptr = 7, ring_channels = 2\<rparr> \<and>
      (\<forall>m<n. snd (None :: ring_ref option, 5000) < PREBUFFER_FRAMES))"
proof -
  have "wait_for_prebuffer \<lparr>ring_ptr = 7, ring_channels = 2\<rparr> (\<lambda>_. (None, 5000)) = Inr False"
    by (simp add: wait_for_prebuffer_def PREBUFFER_POLLS_def ring_is_current_def numeral_eq_Suc)
  with prebuffer_verdict [where ring = "\<lparr>ring_ptr = 7, ring_channels = 2\<rparr>" and obs = "\<lambda>_. (None, 5000)"]
  show ?thesis
    by simp
qed

text \<open>
  C40: The wait for the start lead returns within 300 polls after its first, as long as the clock
  advances by the poll interval between polls, whatever the ring and the caller do.
\<close>

theorem start_lead_bounded:
  assumes "\<And>n. started + n * START_LEAD_POLL \<le> fst (snd (obs n))"
  shows "\<exists>m\<le>300. wait_for_start_lead sample_rate started obs 301 = Some m"
proof -
  have "started + CAST_START_LEAD_WAIT \<le> fst (snd (obs 300))"
    using assms [of 300] by (simp add: CAST_START_LEAD_WAIT_def START_LEAD_POLL_def from_secs_def from_millis_def)
  then have "\<exists>m. start_lead_loop (lead_frames sample_rate) (started + CAST_START_LEAD_WAIT) obs 0 301 = Some m \<and>
      0 \<le> m \<and> m \<le> 300"
    by (intro start_lead_loop_stops) auto
  then show ?thesis by (auto simp: wait_for_start_lead_def)
qed

theorem start_lead_bounded_witness:
  "\<exists>m\<le>300. wait_for_start_lead 48000 5 (\<lambda>n. (0, 5 + n * START_LEAD_POLL, True)) 301 = Some m"
  by (rule start_lead_bounded) simp

section \<open>How the slots evolve\<close>

lemma evolves_install [simp]: "evolves b (install_playing_after_load j m e level np now b)"
proof -
  obtain m' t where t: "bridge_load_track np m (dev_name (sj_cast j)) = (m', t)" by force
  let ?s = "new_session j (next_sid b) m' e now"
  let ?b1 = "create_session j level t e b"
  have same: "slot_of i ?b1 = slot_of i b" for i by simp
  show ?thesis
  proof (cases "orphan_policy j ?b1")
    case None
    then have "slot_state (slot_of (sj_device j) b) = Starting (sj_generation j)"
      by (auto simp: orphan_policy_def state_of_def slot_of_def hm_entry_def
          split: option.splits device_state.splits if_splits)
    then have "slot_evolves (slot_of (sj_device j) b)
        ((slot_of (sj_device j) b)\<lparr>slot_state := Playing (sj_generation j) ?s\<rparr>)"
      by (simp add: slot_evolves_def)
    then have ev: "evolves b (set_state (sj_device j) (Playing (sj_generation j) ?s) ?b1)"
      by (simp add: evolves_def)
    have "evolves b (group_owner_playing u d x) = evolves b x" for u d x
      by (auto simp: group_owner_playing_def split: option.splits)
    with ev show ?thesis
      by (auto simp: install_playing_after_load_def t Let_def None split: option.splits)
  next
    case (Some p)
    then show ?thesis
      by (simp add: install_playing_after_load_def t Let_def detach_teardown_def evolves_def)
  qed
qed

lemma evolves_guard_drop [simp]: "evolves b (guard_drop j r b)"
  by (simp add: guard_drop_def)

lemma evolves_start_abandoned [simp]: "evolves b (start_abandoned j b)"
  by (simp add: start_abandoned_def)

lemma evolves_start_end: "evolves a b \<Longrightarrow> evolves a (fst (start_end j r b))"
  unfolding start_end_def fst_conv
  by (rule evolves_trans [OF evolves_trans [OF _ evolves_clear_starting] evolves_guard_drop])

lemma evolves_start_parts:
  "evolves b (fst (initial_cast_load j m np b))" "evolves b (fst (flac_load_failed j m t err b))"
  "evolves b (fst (load_failed j m err b))" "evolves b (fst (load_succeeded j m eg b))"
  "evolves b (fst (sync_reported_volume d r b))"
  by (auto simp: initial_cast_load_def flac_load_failed_def load_failed_def load_succeeded_def
      send_flac_load_def send_wav_load_def Let_def sync_reported_volume_def
      split: prod.splits egress_kind.splits sum.splits intro!: evolves_start_end)

lemma evolves_start_step: "evolves b (fst (start_step j pc inp b))"
proof -
  have vol: "evolves b (fst (start_step j (AtVolume m e) (VolumeReply r np now) b))" for m e r np now
  proof -
    obtain b1 level where s: "sync_reported_volume (sj_device j) r b = (b1, level)" by force
    then have "evolves b b1" using evolves_start_parts(5) [of b "sj_device j" r] by simp
    from evolves_trans [OF evolves_trans [OF this evolves_install] evolves_guard_drop]
    show ?thesis by (simp add: s)
  qed
  show ?thesis
    by (cases pc; cases inp)
      (auto simp: evolves_start_end evolves_start_parts vol simp del: start_step.simps(7)
        split: sum.splits bool.splits)
qed

lemma evolves_handle_session_start:
  assumes "slot_generation (slot_of d b) \<noteq> - 1"
  shows "evolves b (fst (handle_session_start d rate ring grp current b))"
proof -
  have st: "evolves b b2" if "accept_start d b = (b2, g, prior)" for b2 g prior
    using evolves_accept_start [OF assms that] .
  have en: "evolves b b2" if "enter_group d u rate ring b = (b2, e)" for b2 e u
    using evolves_enter_group [OF assms that] .
  have alone: "b2 = b" if "enter_group d u rate ring b = (b2, EntryStandalone)" for b2 u
    using that by (auto simp: enter_group_def enter_as_owner_def enter_as_follower_def Let_def
        split: if_splits prod.splits device_state.splits)
  obtain b1 e u where a: "accept_member d rate ring grp b = (b1, e, u)" using prod_cases3 by blast
  have "evolves b b1"
  proof (cases grp)
    case None
    with a st show ?thesis by (auto simp: accept_member_def Let_def split: prod.splits)
  next
    case (Some uuid)
    obtain b2 e2 where e2: "enter_group d uuid rate ring b = (b2, e2)" by force
    show ?thesis
    proof (cases "e2 = EntryStandalone")
      case True
      with e2 have "b2 = b" by (simp add: alone)
      with a Some e2 True st show ?thesis by (auto simp: accept_member_def Let_def split: prod.splits)
    next
      case False
      with a Some e2 en [OF e2] show ?thesis by (cases e2) (auto simp: accept_member_def)
    qed
  qed
  then show ?thesis
    by (auto simp: handle_session_start_def a Let_def evolves_start_end split: group_entry.splits)
qed

lemma start_status_job:
  assumes "handle_session_start d rate ring grp current b = (b', StartRunning j pc)"
  shows "job_ok j" "sj_device j = d" "pc = AtPrebuffer" "sj_ring j = ring"
  using assms
  by (auto simp: handle_session_start_def start_end_def Let_def job_ok_def cast_route_new_def
      split: prod.splits group_entry.splits if_splits)

lemma handle_session_start_ok:
  assumes ok: "bridge_ok b"
  shows "bridge_ok (fst (handle_session_start d rate ring grp current b))"
proof -
  have am: "bridge_ok (case e of EntryOwner _ prior _ \<Rightarrow> detach_prior prior SkipStopForReplace b1
      | EntryFollowing prior \<Rightarrow> detach_prior prior StopBestEffort b1 | EntryStandalone \<Rightarrow> b1)"
    if am: "accept_member d rate ring grp b = (b1, e, u)" for b1 e u
  proof (cases grp)
    case None
    with am obtain g prior where "accept_start d b = (b1, g, prior)" "e = EntryOwner g prior None"
      by (auto simp: accept_member_def Let_def split: prod.splits)
    with accept_start_ok(1) [OF ok] show ?thesis by simp
  next
    case (Some uuid)
    obtain b2 e2 where en: "enter_group d uuid rate ring b = (b2, e2)" by force
    show ?thesis
    proof (cases "e2 = EntryStandalone")
      case True
      then have "bridge_ok b2" using enter_group_ok [OF ok en] by simp
      moreover obtain g prior where "accept_start d b2 = (b1, g, prior)" "e = EntryOwner g prior None"
        using am Some en True by (auto simp: accept_member_def Let_def split: prod.splits)
      ultimately show ?thesis using accept_start_ok(1) by simp
    next
      case False
      then have "b1 = b2" "e = e2"
        using am Some en by (auto simp: accept_member_def split: group_entry.splits)
      with enter_group_ok [OF ok en] show ?thesis by (cases e2) simp_all
    qed
  qed
  obtain b1 e u where a: "accept_member d rate ring grp b = (b1, e, u)" using prod_cases3 by blast
  from am [OF a] ok show ?thesis
    by (auto simp: handle_session_start_def a Let_def start_end_ok schedule_group_reconcile_ok
        split: group_entry.splits)
qed

end
