(* ===== verification/Bridge_Playback.thy ===== *)
theory Bridge_Playback
  imports Bridge_Start
begin

text \<open>
  Pause, resume and flush (\<open>src/bridge/playback.rs\<close>), and the Cast PAUSE and PLAY commands they
  spawn. A command runs on the session's task set: it takes the session's transport lock,
  re-checks the session (\<open>cast_pause_check\<close>, \<open>cast_play_check\<close>) and only then calls Cast; the
  reply is handled in a second step. A command knows its session by \<open>sid\<close>.
\<close>

section \<open>Events of the sender\<close>

definition handle_pause :: "string \<Rightarrow> instant \<Rightarrow> instant \<Rightarrow> bridge \<Rightarrow> bridge" where
  "handle_pause d rate0_at now b =
     (case playing_at d b of
        None \<Rightarrow> b
      | Some (g, s) \<Rightarrow>
          if paused s then b
          else edit_session d g s
            (s\<lparr>paused := True, paused_at := Some now,
               tasks := tasks s @ [PauseTask g rate0_at (bytes_served (media s))]\<rparr>)
            (\<lambda>c. c\<lparr>playback_paused := True\<rparr>) b)"

datatype resume_action =
    ActNone
  | ActPlay u64
  | ActReload u64 string "u64 option"

definition owed_of :: "playing_session \<Rightarrow> owed_reload" where
  "owed_of s =
     (if flush_reload_owed s then OwedFlush
      else if stall_reload_owed s then OwedStall
      else OwedNone)"

definition long_pause :: "playing_session \<Rightarrow> instant \<Rightarrow> bool" where
  "long_pause s now \<longleftrightarrow> (case paused_at s of None \<Rightarrow> False | Some at \<Rightarrow> now - at \<ge> LONG_PAUSE_RELOAD)"

definition plan_resume :: "string \<Rightarrow> instant \<Rightarrow> bridge \<Rightarrow> bridge \<times> resume_action option" where
  "plan_resume d now b =
     (case playing_at d b of
        None \<Rightarrow> (b, None)
      | Some (g, s) \<Rightarrow>
          (edit_session d g s (s\<lparr>paused := False, paused_at := None\<rparr>)
             (\<lambda>c. c\<lparr>playback_paused := False\<rparr>) b,
           Some (case resume_decision (paused s) (long_pause s now) (owed_of s) of
               ResumePlay \<Rightarrow> ActPlay g
             | ResumeReload \<Rightarrow> ActReload g ''long_pause_resume'' None
             | ResumeReloadFlush \<Rightarrow> ActReload g ''flush_resume'' (Some (flush_reload_requested s))
             | ResumeReloadStall \<Rightarrow> ActReload g ''stall_owed_resume'' None
             | ResumeNone \<Rightarrow> ActNone)))"

definition handle_resume :: "string \<Rightarrow> instant \<Rightarrow> bridge \<Rightarrow> bridge" where
  "handle_resume d now b =
     (case plan_resume d now b of
        (b', None) \<Rightarrow> b'
      | (b', Some ActNone) \<Rightarrow> b'
      | (b', Some (ActPlay g)) \<Rightarrow> spawn_session_task d g (PlayTask g) b'
      | (b', Some (ActReload g reason flush)) \<Rightarrow> spawn_session_task d g (ReloadTask g reason flush) b')"

definition handle_flush :: "string \<Rightarrow> bridge \<Rightarrow> bridge" where
  "handle_flush d b =
     (case playing_at d b of
        None \<Rightarrow> b
      | Some (g, s) \<Rightarrow>
          edit_session d g s
            (s\<lparr>flush_reload_requested := saturating_add (flush_reload_requested s) 1,
               media := end_live_bodies (media s)\<rparr>) (\<lambda>c. c) b)"

definition bridge_served_bytes :: "string \<Rightarrow> u64 \<Rightarrow> bridge \<Rightarrow> u64 option" where
  "bridge_served_bytes d generation b =
     (case playing_at d b of
        Some (g, s) \<Rightarrow> if g = generation then Some (bytes_served (media s)) else None
      | None \<Rightarrow> None)"

section \<open>The detached commands\<close>

definition command_allowed :: "string \<Rightarrow> u64 \<Rightarrow> nat \<Rightarrow> bridge \<Rightarrow> bool" where
  "command_allowed d generation n b \<longleftrightarrow>
     detached_cast_control_allowed (session_alive (shared b n)) (session_generation d b) generation"

definition cast_pause_check :: "string \<Rightarrow> u64 \<Rightarrow> nat \<Rightarrow> bridge \<Rightarrow> bridge \<times> bool" where
  "cast_pause_check d generation n b =
     (if \<not> command_allowed d generation n b \<or> \<not> playback_paused (shared b n) then (b, False)
      else (emit (CastPause (route_media (route (shared b n)))) b, True))"

text \<open>One second after the acknowledged PAUSE, one status probe unless the session moved on.\<close>

definition probe_after_pause :: "string \<Rightarrow> u64 \<Rightarrow> nat \<Rightarrow> bridge \<Rightarrow> bridge" where
  "probe_after_pause d generation n b =
     (if \<not> playback_paused (shared b n) \<or> session_generation d b \<noteq> Some generation then b
      else emit (CastPlaybackProbe (route_media (route (shared b n)))) b)"

definition cast_play_check :: "string \<Rightarrow> u64 \<Rightarrow> nat \<Rightarrow> bridge \<Rightarrow> bridge \<times> bool" where
  "cast_play_check d generation n b =
     (if \<not> command_allowed d generation n b \<or> playback_paused (shared b n) then (b, False)
      else (emit (CastPlay (route_media (route (shared b n)))) b, True))"

definition cast_play_reply :: "string \<Rightarrow> u64 \<Rightarrow> unit result \<Rightarrow> bridge \<Rightarrow> bridge" where
  "cast_play_reply d generation r b =
     (case r of
        Inr _ \<Rightarrow> b
      | Inl _ \<Rightarrow> spawn_session_task d generation (ReloadTask generation ''resume_play_failed'' None) b)"

section \<open>Preservation\<close>

lemma handle_pause_ok: "bridge_ok b \<Longrightarrow> bridge_ok (handle_pause d r now b)"
  by (auto simp: handle_pause_def session_ok_def split: option.splits
      intro!: edit_session_ok dest: playing_session_ok)

lemma plan_resume_ok: "bridge_ok b \<Longrightarrow> bridge_ok (fst (plan_resume d now b))"
  by (auto simp: plan_resume_def session_ok_def split: option.splits
      intro!: edit_session_ok dest: playing_session_ok)

lemma handle_resume_ok: "bridge_ok b \<Longrightarrow> bridge_ok (handle_resume d now b)"
  using plan_resume_ok [of b d now]
  by (auto simp: handle_resume_def spawn_session_task_ok split: prod.splits option.splits resume_action.splits)

lemma handle_flush_ok: "bridge_ok b \<Longrightarrow> bridge_ok (handle_flush d b)"
  by (auto simp: handle_flush_def session_ok_def split: option.splits
      intro!: edit_session_ok saturating_add_mono_left dest: playing_session_ok)

lemma cast_pause_check_ok: "bridge_ok b \<Longrightarrow> bridge_ok (fst (cast_pause_check d g n b))"
  by (simp add: cast_pause_check_def emit_ok)

lemma cast_play_check_ok: "bridge_ok b \<Longrightarrow> bridge_ok (fst (cast_play_check d g n b))"
  by (simp add: cast_play_check_def emit_ok)

lemma probe_after_pause_ok: "bridge_ok b \<Longrightarrow> bridge_ok (probe_after_pause d g n b)"
  by (simp add: probe_after_pause_def emit_ok)

lemma cast_play_reply_ok: "bridge_ok b \<Longrightarrow> bridge_ok (cast_play_reply d g r b)"
  by (simp add: cast_play_reply_def spawn_session_task_ok split: sum.splits)

section \<open>How the slots evolve\<close>

lemma evolves_playback [simp]:
  "evolves b (handle_pause d r now b)" "evolves b (fst (plan_resume d now b))" "evolves b (handle_flush d b)"
  "evolves b (fst (cast_pause_check d g n b))" "evolves b (fst (cast_play_check d g n b))"
  "evolves b (probe_after_pause d g n b)" "evolves b (cast_play_reply d g w b)"
  by (auto simp: handle_pause_def plan_resume_def handle_flush_def cast_pause_check_def cast_play_check_def
      probe_after_pause_def cast_play_reply_def saturating_add_ge
      split: option.splits sum.splits intro!: evolves_edit_session)

lemma evolves_handle_resume [simp]: "evolves b (handle_resume d now b)"
proof -
  obtain b1 act where p: "plan_resume d now b = (b1, act)" by force
  then have "evolves b b1" using evolves_playback(2) [of b d now] by simp
  then show ?thesis
    by (auto simp: handle_resume_def p split: option.splits resume_action.splits
        intro: evolves_trans evolves_spawn_session_task)
qed

end
