(* ===== verification/Bridge_Reload.thy ===== *)
theory Bridge_Reload
  imports Bridge_Playback
begin

text \<open>
  Re-LOAD of a playing session (\<open>src/bridge/load.rs\<close>).

  \<open>reload_playing_media\<close> is one task (and the blocking thread it starts) that waits several times:
  for the session's re-LOAD flight, for the start lead, for Cast. It is a machine like the
  session start: \<open>reload_pc\<close> names the wait, \<open>reload_step\<close> takes what the wait returned and the
  bridge at that moment. The flight is the flag \<open>reload_flight_held\<close> of the session's cells; it is
  taken by \<open>reload_enter\<close> and given back when the task ends or is aborted by a teardown.
\<close>

section \<open>Gates\<close>

definition live_validity :: "string \<Rightarrow> u64 \<Rightarrow> bridge \<Rightarrow> reload_validity_kind" where
  "live_validity d generation b =
     (case playing_at d b of
        None \<Rightarrow> Stale
      | Some (g, s) \<Rightarrow>
          reload_validity g generation (session_alive (shared b (sid s))) (paused s))"

definition reload_gate :: "string \<Rightarrow> u64 \<Rightarrow> u64 option \<Rightarrow> bridge \<Rightarrow> reload_gate_kind" where
  "reload_gate d generation flush_request b =
     (case playing_at d b of
        None \<Rightarrow> Abort
      | Some (g, s) \<Rightarrow>
          (case reload_validity g generation (session_alive (shared b (sid s))) (paused s) of
             Stale \<Rightarrow> Abort
           | ReloadPaused \<Rightarrow> GatePaused
           | Valid \<Rightarrow>
               if (case flush_request of None \<Rightarrow> False | Some r \<Rightarrow> flush_reload_done s \<ge> r)
               then AlreadySatisfied
               else Proceed (flush_reload_requested s)))"

definition accept_reload :: "string \<Rightarrow> u64 \<Rightarrow> u64 \<Rightarrow> bridge \<Rightarrow> bridge \<times> reload_validity_kind" where
  "accept_reload d generation covers_flush b =
     (case playing_at d b of
        None \<Rightarrow> (b, Stale)
      | Some (g, s) \<Rightarrow>
          (let v = reload_validity g generation (session_alive (shared b (sid s))) (paused s)
           in if v = Valid then
                (edit_session d g s
                   (s\<lparr>flush_reload_done := max (flush_reload_done s) covers_flush,
                      stall_reload_owed := False\<rparr>) (\<lambda>c. c) b, v)
              else (b, v)))"

section \<open>The task\<close>

record reload_job =
  rj_device :: string
  rj_generation :: u64
  rj_flush :: "u64 option"
  rj_sid :: nat
  rj_request :: media_load_request
  rj_volume :: load_volume_policy

text \<open>
  \<open>RlLoading\<close> and \<open>RlSpawned\<close> are in the blocking thread; \<open>RlOrphan\<close> is that thread after its task was
  aborted, so that nobody takes its result.
\<close>

datatype reload_pc =
    RlWantFlight
  | RlLead
  | RlSpawned u64 string
  | RlLoading u64 string
  | RlReply u64 string "media_session_ref result"
  | RlDiscard reload_outcome
  | RlOrphanSpawned string
  | RlOrphanLoading string

datatype reload_status = ReloadRunning reload_pc | ReloadEnded reload_outcome

definition session_request :: "playing_session \<Rightarrow> shared_cells \<Rightarrow> media_load_request" where
  "session_request s c =
     with_track
       (case ps_egress s of
          FlacLive \<Rightarrow> load_flac (ps_stream_url s) Live
        | WavBuffered \<Rightarrow> load_wav (ps_stream_url s) Buffered) (track c)"

definition reload_plan :: "string \<Rightarrow> u64 \<Rightarrow> u64 option \<Rightarrow> bridge \<Rightarrow> reload_outcome + reload_job" where
  "reload_plan d generation flush_request b =
     (case playing_at d b of
        None \<Rightarrow> Inl Failed
      | Some (g, s) \<Rightarrow>
          (let c = shared b (sid s)
           in case reload_validity g generation (session_alive c) (paused s) of
                ReloadPaused \<Rightarrow> Inl OutcomePaused
              | Stale \<Rightarrow> Inl Failed
              | Valid \<Rightarrow>
                  Inr \<lparr>rj_device = d, rj_generation = generation, rj_flush = flush_request,
                       rj_sid = sid s, rj_request = session_request s c,
                       rj_volume = Rollover (last_volume_linear c)\<rparr>))"

definition set_flight :: "nat \<Rightarrow> bool \<Rightarrow> bridge \<Rightarrow> bridge" where
  "set_flight n held b = upd_cells n (\<lambda>c. c\<lparr>reload_flight_held := held\<rparr>) b"

definition reload_end :: "reload_job \<Rightarrow> reload_outcome \<Rightarrow> bridge \<Rightarrow> bridge \<times> reload_status" where
  "reload_end j r b = (set_flight (rj_sid j) False b, ReloadEnded r)"

text \<open>The flight was free: take it and re-check.\<close>

definition reload_enter :: "reload_job \<Rightarrow> bridge \<Rightarrow> bridge \<times> reload_status" where
  "reload_enter j b =
     (let b1 = set_flight (rj_sid j) True b
      in case reload_gate (rj_device j) (rj_generation j) (rj_flush j) b1 of
           Abort \<Rightarrow> reload_end j Failed b1
         | GatePaused \<Rightarrow> reload_end j OutcomePaused b1
         | AlreadySatisfied \<Rightarrow> reload_end j Loaded b1
         | Proceed _ \<Rightarrow> (b1, ReloadRunning RlLead))"

text \<open>The prior LOAD was joined and the start lead waited for: re-check, then publish.\<close>

definition reload_publish :: "reload_job \<Rightarrow> bridge \<Rightarrow> bridge \<times> reload_status" where
  "reload_publish j b =
     (case reload_gate (rj_device j) (rj_generation j) (rj_flush j) b of
        Abort \<Rightarrow> reload_end j Failed b
      | GatePaused \<Rightarrow> reload_end j OutcomePaused b
      | AlreadySatisfied \<Rightarrow> reload_end j Loaded b
      | Proceed flush_requested \<Rightarrow>
          (let c = shared b (rj_sid j)
           in if \<not> session_alive c then reload_end j Failed b
              else if playback_paused c then reload_end j OutcomePaused b
              else (b, ReloadRunning (RlSpawned flush_requested (route_media (route c))))))"

text \<open>The blocking thread: the last check, the LOAD, the volume, and a late STOP.\<close>

datatype thread_start = ThreadEnded | ThreadPaused | ThreadLoads

definition thread_begin :: "reload_job \<Rightarrow> bridge \<Rightarrow> bridge \<times> thread_start" where
  "thread_begin j b =
     (let c = shared b (rj_sid j)
      in if \<not> session_alive c then (b, ThreadEnded)
         else if playback_paused c then (b, ThreadPaused)
         else (emit (CastLoad (route_media (route c)) (rj_request j)) b, ThreadLoads))"

definition load_volume_effect :: "nat \<Rightarrow> load_volume_policy \<Rightarrow> 'a result \<Rightarrow> bridge \<Rightarrow> bridge" where
  "load_volume_effect n policy r b =
     (case (r, volume_after_load policy) of
        (Inr _, Some level) \<Rightarrow> emit (CastSetVolume (route_volume (route (shared b n))) level) b
      | _ \<Rightarrow> b)"

datatype load_attempt = AttemptDone "media_session_ref result" | AttemptPaused

definition thread_finish ::
  "reload_job \<Rightarrow> string \<Rightarrow> media_session_ref result \<Rightarrow> bridge \<Rightarrow> bridge \<times> load_attempt" where
  "thread_finish j key r b =
     (let b1 = load_volume_effect (rj_sid j) (rj_volume j) r b; c = shared b (rj_sid j)
      in if playback_paused c then (emit (CastStop key) b1, AttemptPaused)
         else if late_load_should_stop (session_alive c) (late_stop_allowed c)
         then (emit (CastStop key) b1, AttemptDone r)
         else (b1, AttemptDone r))"

text \<open>The task has the result: accept it, or discard a LOAD that worked but is not wanted.\<close>

definition reload_accept ::
  "reload_job \<Rightarrow> u64 \<Rightarrow> string \<Rightarrow> media_session_ref result \<Rightarrow> bridge \<Rightarrow> bridge \<times> reload_status" where
  "reload_accept j covers key r b =
     (case r of
        Inl _ \<Rightarrow> reload_end j Failed b
      | Inr _ \<Rightarrow>
          (let (b1, v) = accept_reload (rj_device j) (rj_generation j) covers b;
               c = shared b1 (rj_sid j);
               outcome = (if v = ReloadPaused then OutcomePaused else Failed)
           in if v = Valid then reload_end j Loaded (confirm_group_session (rj_device j) b1)
              else if discard_successful_reload_should_stop
                        (playback_paused c) (session_alive c) (late_stop_allowed c)
              then (emit (CastStop key) b1, ReloadRunning (RlDiscard outcome))
              else reload_end j outcome b1))"

datatype reload_input = FlightFree | LeadReached | ThreadRuns | WireReply "media_session_ref result" | TaskResumes

fun reload_step :: "reload_job \<Rightarrow> reload_pc \<Rightarrow> reload_input \<Rightarrow> bridge \<Rightarrow> bridge \<times> reload_status" where
  "reload_step j RlWantFlight FlightFree b =
     (if reload_flight_held (shared b (rj_sid j)) then (b, ReloadRunning RlWantFlight)
      else reload_enter j b)"
| "reload_step j RlLead LeadReached b = reload_publish j b"
| "reload_step j (RlSpawned covers key) ThreadRuns b =
     (case thread_begin j b of
        (b', ThreadEnded) \<Rightarrow> reload_end j Failed b'
      | (b', ThreadPaused) \<Rightarrow> reload_end j OutcomePaused b'
      | (b', ThreadLoads) \<Rightarrow> (b', ReloadRunning (RlLoading covers key)))"
| "reload_step j (RlLoading covers key) (WireReply r) b =
     (case thread_finish j key r b of
        (b', AttemptPaused) \<Rightarrow> reload_end j OutcomePaused b'
      | (b', AttemptDone r') \<Rightarrow> (b', ReloadRunning (RlReply covers key r')))"
| "reload_step j (RlReply covers key r) TaskResumes b = reload_accept j covers key r b"
| "reload_step j (RlDiscard outcome) TaskResumes b = reload_end j outcome b"
| "reload_step j (RlOrphanSpawned key) ThreadRuns b =
     (case thread_begin j b of
        (b', ThreadLoads) \<Rightarrow> (b', ReloadRunning (RlOrphanLoading key))
      | (b', _) \<Rightarrow> (b', ReloadEnded Failed))"
| "reload_step j (RlOrphanLoading key) (WireReply r) b =
     (fst (thread_finish j key r b), ReloadEnded Failed)"
| "reload_step j pc _ b = (b, ReloadRunning pc)"

text \<open>A teardown aborts the task: the flight is dropped, a started blocking thread runs on.\<close>

fun reload_abort :: "reload_job \<Rightarrow> reload_pc \<Rightarrow> bridge \<Rightarrow> bridge \<times> reload_status" where
  "reload_abort j RlWantFlight b = (b, ReloadEnded Failed)"
| "reload_abort j (RlSpawned _ key) b =
     (set_flight (rj_sid j) False b, ReloadRunning (RlOrphanSpawned key))"
| "reload_abort j (RlLoading _ key) b =
     (set_flight (rj_sid j) False b, ReloadRunning (RlOrphanLoading key))"
| "reload_abort j (RlOrphanSpawned key) b = (b, ReloadRunning (RlOrphanSpawned key))"
| "reload_abort j (RlOrphanLoading key) b = (b, ReloadRunning (RlOrphanLoading key))"
| "reload_abort j _ b = reload_end j Failed b"

section \<open>Preservation\<close>

lemma set_flight_ok: "bridge_ok b \<Longrightarrow> bridge_ok (set_flight n v b)"
  unfolding set_flight_def by (rule upd_cells_ok) (auto simp: session_ok_def)

lemma set_flight_frames [simp]:
  "state_of d (set_flight n v b) = state_of d b" "playing_at d (set_flight n v b) = playing_at d b"
  "slot_of d (set_flight n v b) = slot_of d b" "groups (set_flight n v b) = groups b"
  "effects (set_flight n v b) = effects b" "evolves a (set_flight n v b) = evolves a b"
  by (simp_all add: set_flight_def playing_at_def)

lemma reload_end_ok: "bridge_ok b \<Longrightarrow> bridge_ok (fst (reload_end j r b))"
  by (simp add: reload_end_def set_flight_ok)

lemma accept_reload_ok:
  assumes ok: "bridge_ok b"
    and cov: "\<And>s. playing_at d b = Some (g, s) \<Longrightarrow> covers \<le> flush_reload_requested s"
  shows "bridge_ok (fst (accept_reload d g covers b))"
proof (cases "playing_at d b")
  case None
  with ok show ?thesis by (simp add: accept_reload_def)
next
  case (Some gs)
  obtain g' s where gs: "gs = (g', s)" by force
  show ?thesis
  proof (cases "reload_validity g' g (session_alive (shared b (sid s))) (paused s) = Valid")
    case False
    with ok show ?thesis by (simp add: accept_reload_def Some gs)
  next
    case True
    then have "g' = g" by (simp add: reload_validity_iffs)
    with cov Some gs have "covers \<le> flush_reload_requested s" by simp
    moreover have "session_ok (shared b (sid s)) d g' s"
      using playing_session_ok [OF ok] Some gs by simp
    ultimately have "session_ok (shared b (sid s)) d g'
        (s\<lparr>flush_reload_done := max (flush_reload_done s) covers, stall_reload_owed := False\<rparr>)"
      by (simp add: session_ok_def)
    with True ok Some gs show ?thesis
      by (simp add: accept_reload_def edit_session_ok)
  qed
qed

lemma evolves_accept_reload [simp]: "evolves b (fst (accept_reload d g covers b))"
  by (auto simp: accept_reload_def Let_def split: option.splits intro!: evolves_edit_session)

lemma thread_begin_ok: "bridge_ok b \<Longrightarrow> bridge_ok (fst (thread_begin j b))"
  by (auto simp: thread_begin_def Let_def intro!: emit_ok)

lemma thread_finish_ok: "bridge_ok b \<Longrightarrow> bridge_ok (fst (thread_finish j key r b))"
  by (auto simp: thread_finish_def load_volume_effect_def Let_def intro!: emit_ok split: sum.splits option.splits)

lemma thread_frames [simp]:
  "state_of d (fst (thread_begin j b)) = state_of d b" "state_of d (fst (thread_finish j key r b)) = state_of d b"
  "slot_of d (fst (thread_begin j b)) = slot_of d b" "slot_of d (fst (thread_finish j key r b)) = slot_of d b"
  "shared (fst (thread_begin j b)) = shared b" "shared (fst (thread_finish j key r b)) = shared b"
  "evolves a (fst (thread_begin j b)) = evolves a b" "evolves a (fst (thread_finish j key r b)) = evolves a b"
  by (auto simp: thread_begin_def thread_finish_def load_volume_effect_def Let_def evolves_def
      split: sum.splits option.splits)

lemma reload_enter_ok: "bridge_ok b \<Longrightarrow> bridge_ok (fst (reload_enter j b))"
  by (auto simp: reload_enter_def Let_def reload_end_ok set_flight_ok split: reload_gate_kind.splits)

lemma reload_publish_ok: "bridge_ok b \<Longrightarrow> bridge_ok (fst (reload_publish j b))"
  by (auto simp: reload_publish_def Let_def reload_end_ok split: reload_gate_kind.splits)

definition covers_ok :: "reload_job \<Rightarrow> u64 \<Rightarrow> bridge \<Rightarrow> bool" where
  "covers_ok j covers b \<longleftrightarrow>
     (\<forall>s. playing_at (rj_device j) b = Some (rj_generation j, s) \<longrightarrow>
        sid s = rj_sid j \<and> covers \<le> flush_reload_requested s)"

lemma reload_accept_ok:
  assumes "bridge_ok b" "covers_ok j covers b"
  shows "bridge_ok (fst (reload_accept j covers key r b))"
proof -
  obtain b1 v where a: "accept_reload (rj_device j) (rj_generation j) covers b = (b1, v)" by force
  have "bridge_ok b1"
    using accept_reload_ok [OF assms(1), of "rj_device j" "rj_generation j" covers] assms(2) a
    by (simp add: covers_ok_def)
  with assms(1) show ?thesis
    by (auto simp: reload_accept_def a Let_def reload_end_ok confirm_group_session_ok split: sum.splits intro!: emit_ok)
qed

fun pc_covers :: "reload_pc \<Rightarrow> u64 option" where
  "pc_covers (RlSpawned c _) = Some c"
| "pc_covers (RlLoading c _) = Some c"
| "pc_covers (RlReply c _ _) = Some c"
| "pc_covers _ = None"

lemma reload_step_ok:
  assumes "bridge_ok b" "\<And>c. pc_covers pc = Some c \<Longrightarrow> covers_ok j c b"
  shows "bridge_ok (fst (reload_step j pc inp b))"
proof -
  have tb: "bridge_ok b'" if "thread_begin j b = (b', x)" for b' x
    using thread_begin_ok [OF assms(1), of j] that by simp
  have tf: "bridge_ok b'" if "thread_finish j key r b = (b', x)" for b' x key r
    using thread_finish_ok [OF assms(1), of j key r] that by simp
  show ?thesis
    by (cases pc; cases inp)
      (use assms tb tf in \<open>auto simp: reload_enter_ok reload_publish_ok reload_accept_ok reload_end_ok
        thread_finish_ok split: prod.splits thread_start.splits load_attempt.splits\<close>)
qed

lemma reload_abort_ok: "bridge_ok b \<Longrightarrow> bridge_ok (fst (reload_abort j pc b))"
  by (cases pc) (auto simp: reload_end_ok set_flight_ok)

lemma evolves_reload_end: "evolves a b \<Longrightarrow> evolves a (fst (reload_end j r b))"
  by (simp add: reload_end_def)

lemma evolves_reload_accept: "evolves b (fst (reload_accept j covers key r b))"
proof -
  obtain b1 v where a: "accept_reload (rj_device j) (rj_generation j) covers b = (b1, v)" by force
  then have "evolves b b1" using evolves_accept_reload [of b "rj_device j" "rj_generation j" covers] by simp
  then show ?thesis
    by (auto simp: reload_accept_def a Let_def reload_end_def split: sum.splits intro: evolves_trans)
qed

lemma evolves_reload_step: "evolves b (fst (reload_step j pc inp b))"
proof -
  have tb: "evolves b b'" if "thread_begin j b = (b', x)" for b' x
    using thread_frames(7) [of b j b] that by simp
  have tf: "evolves b b'" if "thread_finish j key r b = (b', x)" for b' x key r
    using thread_frames(8) [of b j key r b] that by simp
  show ?thesis
    by (cases pc; cases inp)
      (use tb tf in \<open>auto simp: reload_enter_def reload_publish_def evolves_reload_accept reload_end_def Let_def
        split: prod.splits thread_start.splits load_attempt.splits reload_gate_kind.splits\<close>)
qed

lemma evolves_reload_abort: "evolves b (fst (reload_abort j pc b))"
  by (cases pc) (auto simp: reload_end_def)

end
