(* ===== verification/Bridge_Fallback.thy ===== *)
theory Bridge_Fallback
  imports Bridge_Reload
begin

text \<open>
  The switch of a live session from FLAC to WAV (\<open>src/bridge/fallback.rs\<close>) and the stall watchdog
  (\<open>src/bridge/stall.rs\<close>). Both re-LOAD through \<open>Bridge_Reload\<close>: the functions here are the parts
  before that re-LOAD starts and after its outcome is known.
\<close>

section \<open>FLAC strikes\<close>

definition apply_flac_strike ::
  "playing_session \<Rightarrow> instant \<Rightarrow> flac_strike_reason \<Rightarrow> playing_session \<times> flac_strike_outcome" where
  "apply_flac_strike s now reason =
     (let (decision, updated) = flac_strike_decision (flac_strike s) now reason FLAC_STRIKE_PAIR_WINDOW
      in (s\<lparr>flac_strike := updated\<rparr>, decision))"

datatype media_recovered_plan =
    EarlyImmediate u64
  | StrikeFallback u64 "flac_strike_reason option"

fun plan_generation :: "media_recovered_plan \<Rightarrow> u64" where
  "plan_generation (EarlyImmediate g) = g"
| "plan_generation (StrikeFallback g _) = g"

definition plan_media_recovered_flac ::
  "string \<Rightarrow> instant \<Rightarrow> bridge \<Rightarrow> bridge \<times> media_recovered_plan option" where
  "plan_media_recovered_flac d now b =
     (case playing_at d b of
        None \<Rightarrow> (b, None)
      | Some (g, s) \<Rightarrow>
          if ps_egress s \<noteq> FlacLive then (b, None)
          else if now - started_at s < FLAC_FALLBACK_WINDOW then (b, Some (EarlyImmediate g))
          else
            (let (s', decision) = apply_flac_strike s now MediaRecovered;
                 b' = edit_session d g s s' (\<lambda>c. c) b
             in case decision of
                  RecordOnly \<Rightarrow> (b', None)
                | FallbackToWav \<Rightarrow> (b', Some (StrikeFallback g (map_option snd (flac_strike s))))))"

text \<open>\<open>switch_playing_to_wav\<close> up to its re-LOAD; \<open>False\<close> when there was nothing to switch.\<close>

definition switch_playing_to_wav :: "string \<Rightarrow> u64 \<Rightarrow> instant \<Rightarrow> bridge \<Rightarrow> bridge \<times> bool" where
  "switch_playing_to_wav d generation now b =
     (case playing_at d b of
        None \<Rightarrow> (b, False)
      | Some (g, s) \<Rightarrow>
          if g \<noteq> generation \<or> ps_egress s \<noteq> FlacLive then (b, False)
          else
            (emit_all (if rollover_running s then [] else [SpawnRollover (sid s)])
               (edit_session d g s
                 (s\<lparr>media := set_content (LiveWav (ps_ring s) (ps_channels s) (ps_sample_rate s)) (media s),
                    ps_egress := WavBuffered, rollover_running := True,
                    last_stall_reload_at := Some now\<rparr>) (\<lambda>c. c) b), True))"

text \<open>
  \<open>on_media_recovered\<close>, with the clock readings of its two critical sections. The second result is
  the generation to re-LOAD when the session was switched.
\<close>

definition cast_key_owner :: "string \<Rightarrow> bridge \<Rightarrow> string" where
  "cast_key_owner key b = (case owner_for_cast_key key b of Some o' \<Rightarrow> o' | None \<Rightarrow> key)"

definition apply_media_recovered_plan ::
  "string \<Rightarrow> media_recovered_plan \<Rightarrow> instant \<Rightarrow> bridge \<Rightarrow> bridge \<times> u64 option" where
  "apply_media_recovered_plan d plan now b =
     (let (b', switched) = switch_playing_to_wav d (plan_generation plan) now (remember_flac_fallback d b)
      in (b', if switched then Some (plan_generation plan) else None))"

definition on_media_recovered :: "string \<Rightarrow> instant \<Rightarrow> instant \<Rightarrow> bridge \<Rightarrow> bridge \<times> u64 option" where
  "on_media_recovered key now1 now2 b =
     (let d = cast_key_owner key b
      in case plan_media_recovered_flac d now1 b of
           (b', None) \<Rightarrow> (b', None)
         | (b', Some plan) \<Rightarrow> apply_media_recovered_plan d plan now2 b')"

section \<open>The stall watchdog\<close>

record stall_snapshot =
  ss_paused :: bool
  ss_reloading :: bool
  ss_last_write :: "instant option"
  ss_ring_frames :: usize
  ss_started_at :: instant
  ss_egress :: egress_kind
  ss_last_stall :: "instant option"

definition take_stall_snapshot :: "string \<Rightarrow> u64 \<Rightarrow> usize \<Rightarrow> bridge \<Rightarrow> stall_snapshot option" where
  "take_stall_snapshot d generation frames b =
     (case playing_at d b of
        None \<Rightarrow> None
      | Some (g, s) \<Rightarrow>
          if g \<noteq> generation then None
          else Some \<lparr>ss_paused = paused s, ss_reloading = reload_flight_held (shared b (sid s)),
                 ss_last_write = last_body_write (media s), ss_ring_frames = frames,
                 ss_started_at = started_at s, ss_egress = ps_egress s,
                 ss_last_stall = last_stall_reload_at s\<rparr>)"

definition snapshot_action :: "stall_snapshot \<Rightarrow> instant \<Rightarrow> bool \<Rightarrow> stall_action_kind" where
  "snapshot_action sn now early =
     stall_action (ss_paused sn)
       (body_is_stale (map_option (\<lambda>at. now - at) (ss_last_write sn)) (now - ss_started_at sn))
       (ss_ring_frames sn) (ss_egress sn)
       (early \<and> now - ss_started_at sn < FLAC_FALLBACK_WINDOW)
       (case ss_last_stall sn of None \<Rightarrow> False | Some at \<Rightarrow> now - at < STALL_REPEAT_WINDOW)"

text \<open>Recording a stall; the result is the first strike when the pair is complete.\<close>

definition note_stall_reload_and_flac_strike ::
  "string \<Rightarrow> u64 \<Rightarrow> instant \<Rightarrow> bridge \<Rightarrow> bridge \<times> flac_strike_reason option" where
  "note_stall_reload_and_flac_strike d generation now b =
     (case playing_at d b of
        None \<Rightarrow> (b, None)
      | Some (g, s) \<Rightarrow>
          if g \<noteq> generation then (b, None)
          else
            (let s1 = s\<lparr>last_stall_reload_at := Some now\<rparr>
             in if ps_egress s1 \<noteq> FlacLive then (edit_session d g s s1 (\<lambda>c. c) b, None)
                else
                  (let (s2, decision) = apply_flac_strike s1 now StallWatchdogReload
                   in (edit_session d g s s2 (\<lambda>c. c) b,
                       if decision = FallbackToWav then map_option snd (flac_strike s) else None))))"

definition owe_stall_reload :: "string \<Rightarrow> u64 \<Rightarrow> bridge \<Rightarrow> bridge" where
  "owe_stall_reload d generation b =
     (case playing_at d b of
        None \<Rightarrow> b
      | Some (g, s) \<Rightarrow>
          if g \<noteq> generation \<or> \<not> session_alive (shared b (sid s)) then b
          else
            (let b' = edit_session d g s (s\<lparr>stall_reload_owed := True\<rparr>) (\<lambda>c. c) b
             in if paused s then b'
                else spawn_session_task d generation (ReloadTask generation ''stall_owed_resume'' None) b'))"

definition terminal_stall_end :: "string \<Rightarrow> u64 \<Rightarrow> bridge \<Rightarrow> bridge" where
  "terminal_stall_end d generation b =
     (let group = session_group d b;
          (b1, taken) = take_live_session_if_gen d generation b;
          (b2, members, host) = (case group of None \<Rightarrow> (b1, [], None) | Some uuid \<Rightarrow> end_group uuid b1);
          b3 = (case taken of None \<Rightarrow> b2 | Some s \<Rightarrow> detach_teardown s StopBestEffort b2)
      in emit (KickClients (d # members)) (close_hosts (opt_list host) b3))"

text \<open>
  One tick. It ends at once, or it starts a re-LOAD and continues with the outcome:
  \<open>TickSwitched\<close> after the early switch (with the snapshot for a second look if the re-LOAD does
  not come through), \<open>TickStrikeSwitched\<close> after a strike switch, \<open>TickReload\<close> for a plain re-LOAD.
\<close>

datatype stall_tick =
    TickDone
  | TickSwitched stall_snapshot instant
  | TickStrikeSwitched
  | TickReload

definition handle_stall_reload :: "string \<Rightarrow> u64 \<Rightarrow> instant \<Rightarrow> instant \<Rightarrow> bridge \<Rightarrow> bridge \<times> stall_tick" where
  "handle_stall_reload d generation now1 now2 b =
     (case note_stall_reload_and_flac_strike d generation now1 b of
        (b1, None) \<Rightarrow> (b1, TickReload)
      | (b1, Some _) \<Rightarrow>
          (let (b2, switched) = switch_playing_to_wav d generation now2 (remember_flac_fallback d b1)
           in (b2, if switched then TickStrikeSwitched else TickReload)))"

definition stall_act ::
  "string \<Rightarrow> u64 \<Rightarrow> instant \<Rightarrow> instant \<Rightarrow> stall_action_kind \<Rightarrow> bridge \<Rightarrow> bridge \<times> stall_tick" where
  "stall_act d generation now1 now2 action b =
     (case action of
        TerminalEnd \<Rightarrow> (terminal_stall_end d generation b, TickDone)
      | StallReload \<Rightarrow> handle_stall_reload d generation now1 now2 b
      | NoStall \<Rightarrow> (b, TickDone)
      | EarlyFlacFallback \<Rightarrow> (b, TickDone))"

definition stall_watchdog_tick ::
  "string \<Rightarrow> u64 \<Rightarrow> usize \<Rightarrow> instant \<Rightarrow> instant \<Rightarrow> instant \<Rightarrow> bridge \<Rightarrow> bridge \<times> stall_tick" where
  "stall_watchdog_tick d generation frames now now1 now2 b =
     (case take_stall_snapshot d generation frames b of
        None \<Rightarrow> (b, TickDone)
      | Some sn \<Rightarrow>
          if ss_reloading sn then (b, TickDone)
          else if snapshot_action sn now True = EarlyFlacFallback then
            (let (b1, switched) = switch_playing_to_wav d generation now1 (remember_flac_fallback d b)
             in if switched then (b1, TickSwitched sn now)
                else stall_act d generation now1 now2 (snapshot_action sn now False) b1)
          else stall_act d generation now1 now2 (snapshot_action sn now True) b)"

definition stall_reload_outcome ::
  "string \<Rightarrow> u64 \<Rightarrow> instant \<Rightarrow> instant \<Rightarrow> stall_tick \<Rightarrow> reload_outcome \<Rightarrow> bridge \<Rightarrow> bridge \<times> stall_tick" where
  "stall_reload_outcome d generation now1 now2 tick r b =
     (case tick of
        TickDone \<Rightarrow> (b, TickDone)
      | TickSwitched sn now \<Rightarrow>
          if r = Loaded then (b, TickDone)
          else stall_act d generation now1 now2 (snapshot_action sn now False) b
      | TickStrikeSwitched \<Rightarrow> (b, if r = Loaded then TickDone else TickReload)
      | TickReload \<Rightarrow>
          (case r of
             Loaded \<Rightarrow> (b, TickDone)
           | OutcomePaused \<Rightarrow> (owe_stall_reload d generation b, TickDone)
           | Failed \<Rightarrow> (terminal_stall_end d generation b, TickDone)))"

section \<open>Preservation\<close>

lemma plan_media_recovered_flac_ok: "bridge_ok b \<Longrightarrow> bridge_ok (fst (plan_media_recovered_flac d now b))"
  by (auto simp: plan_media_recovered_flac_def apply_flac_strike_def session_ok_def Let_def
      split: option.splits prod.splits flac_strike_outcome.splits
      intro!: edit_session_ok dest: playing_session_ok)

lemma switch_playing_to_wav_ok: "bridge_ok b \<Longrightarrow> bridge_ok (fst (switch_playing_to_wav d g now b))"
  by (auto simp: switch_playing_to_wav_def session_ok_def split: option.splits
      intro!: emit_all_ok edit_session_ok dest: playing_session_ok)

lemma apply_media_recovered_plan_ok:
  "bridge_ok b \<Longrightarrow> bridge_ok (fst (apply_media_recovered_plan d plan now b))"
  using switch_playing_to_wav_ok [OF remember_flac_fallback_ok]
  by (auto simp: apply_media_recovered_plan_def split: prod.splits) (metis fst_conv)

lemma on_media_recovered_ok: "bridge_ok b \<Longrightarrow> bridge_ok (fst (on_media_recovered key now1 now2 b))"
  using plan_media_recovered_flac_ok [of b "cast_key_owner key b" now1]
  by (auto simp: on_media_recovered_def Let_def apply_media_recovered_plan_ok split: prod.splits option.splits)

lemma note_stall_ok: "bridge_ok b \<Longrightarrow> bridge_ok (fst (note_stall_reload_and_flac_strike d g now b))"
  by (auto simp: note_stall_reload_and_flac_strike_def apply_flac_strike_def session_ok_def Let_def
      split: option.splits prod.splits intro!: edit_session_ok dest: playing_session_ok)

lemma owe_stall_reload_ok: "bridge_ok b \<Longrightarrow> bridge_ok (owe_stall_reload d g b)"
  by (auto simp: owe_stall_reload_def session_ok_def Let_def split: option.splits
      intro!: spawn_session_task_ok edit_session_ok dest: playing_session_ok)

lemma terminal_stall_end_ok:
  assumes ok: "bridge_ok b"
  shows "bridge_ok (terminal_stall_end d g b)"
proof -
  define fin where "fin = (\<lambda>b1. case session_group d b of None \<Rightarrow> (b1, [], None) | Some uuid \<Rightarrow> end_group uuid b1)"
  obtain b1 taken where t: "take_live_session_if_gen d g b = (b1, taken)" by force
  obtain b2 members host where f: "fin b1 = (b2, members, host)" using prod_cases3 by blast
  have shape: "terminal_stall_end d g b = emit (KickClients (d # members)) (close_hosts (opt_list host)
      (case taken of None \<Rightarrow> b2 | Some s \<Rightarrow> detach_teardown s StopBestEffort b2))"
    by (simp add: terminal_stall_end_def t f [unfolded fin_def] Let_def)
  have core: "bridge_ok (case taken of None \<Rightarrow> b2 | Some s \<Rightarrow> detach_teardown s StopBestEffort b2)"
  proof (cases taken)
    case None
    then have "b1 = b" using t by (simp add: take_live_session_if_gen_None)
    with f ok have "bridge_ok b2"
      using end_group_ok [OF ok] by (auto simp: fin_def split: option.splits) (metis fst_conv)
    with None show ?thesis by simp
  next
    case (Some s)
    then have p: "playing_at d b = Some (g, s)" and b1: "b1 = set_state d Idle b"
      using t by (auto simp: take_live_session_if_gen_result)
    have ok1: "bridge_ok (emit (Teardown s StopBestEffort) b1)"
      unfolding b1 by (rule take_session_ok [OF ok p])
    have sl: "slots_ok b1" "groups_ok b1" "hm_ok (devices b1)"
      using bridge_okD [OF ok1] by simp_all
    have b2: "b2 = b1 \<or> (\<exists>u. b2 = fst (end_group u b1))"
      using f by (auto simp: fin_def split: option.splits) (metis fst_conv)
    then have "slots_ok b2 \<and> groups_ok b2"
      using sl end_group_wf by blast
    moreover have "sids_ok (detach_teardown s StopBestEffort b2)"
      using b2 bridge_okD(3) [OF ok1] end_group_sessions [OF sl(3)]
      by (auto simp: sids_ok_def detach_teardown_def)
    ultimately show ?thesis using Some by (simp add: bridge_okI detach_teardown_def)
  qed
  show ?thesis unfolding shape by (intro emit_ok close_hosts_ok core) simp
qed

lemma handle_stall_reload_ok: "bridge_ok b \<Longrightarrow> bridge_ok (fst (handle_stall_reload d g now1 now2 b))"
proof -
  assume ok: "bridge_ok b"
  obtain b1 r where n: "note_stall_reload_and_flac_strike d g now1 b = (b1, r)" by force
  then have "bridge_ok b1" using note_stall_ok [OF ok, of d g now1] by simp
  then have "bridge_ok (fst (switch_playing_to_wav d g now2 (remember_flac_fallback d b1)))"
    by (intro switch_playing_to_wav_ok remember_flac_fallback_ok)
  with \<open>bridge_ok b1\<close> show ?thesis
    by (auto simp: handle_stall_reload_def n case_prod_beta split: option.splits)
qed

lemma stall_act_ok: "bridge_ok b \<Longrightarrow> bridge_ok (fst (stall_act d g now1 now2 action b))"
  by (simp add: stall_act_def terminal_stall_end_ok handle_stall_reload_ok split: stall_action_kind.split)

lemma stall_watchdog_tick_ok: "bridge_ok b \<Longrightarrow> bridge_ok (fst (stall_watchdog_tick d g frames now now1 now2 b))"
  using switch_playing_to_wav_ok [OF remember_flac_fallback_ok]
  by (simp add: stall_watchdog_tick_def stall_act_ok case_prod_beta split: option.split)

lemma stall_reload_outcome_ok:
  "bridge_ok b \<Longrightarrow> bridge_ok (fst (stall_reload_outcome d g now1 now2 tick r b))"
  by (simp add: stall_reload_outcome_def stall_act_ok owe_stall_reload_ok terminal_stall_end_ok
      split: stall_tick.split reload_outcome.split)

section \<open>How the slots evolve\<close>

lemma evolves_fallback [simp]:
  "evolves b (fst (plan_media_recovered_flac d now b))" "evolves b (fst (switch_playing_to_wav d g now b))"
  "evolves b (fst (note_stall_reload_and_flac_strike d g now b))"
  by (auto simp: plan_media_recovered_flac_def switch_playing_to_wav_def note_stall_reload_and_flac_strike_def
      apply_flac_strike_def Let_def split: option.splits prod.splits flac_strike_outcome.splits
      intro!: evolves_edit_session)

lemma evolves_switch_after [simp]:
  "evolves b (fst (switch_playing_to_wav d g now (remember_flac_fallback d' b)))"
  by (rule evolves_trans [OF _ evolves_fallback(2)]) simp

lemma evolves_on_media_recovered: "evolves b (fst (on_media_recovered key now1 now2 b))"
proof -
  obtain b1 r where p: "plan_media_recovered_flac (cast_key_owner key b) now1 b = (b1, r)" by force
  then have "evolves b b1" using evolves_fallback(1) [of b "cast_key_owner key b" now1] by simp
  then show ?thesis
    by (auto simp: on_media_recovered_def p Let_def apply_media_recovered_plan_def case_prod_beta
        split: option.splits intro: evolves_trans)
qed

lemma evolves_owe [simp]: "evolves b (owe_stall_reload d g b)"
  by (auto simp: owe_stall_reload_def Let_def split: option.splits
      intro!: evolves_edit_session evolves_trans [OF _ evolves_spawn_session_task])

lemma evolves_terminal_stall_end [simp]: "evolves b (terminal_stall_end d g b)"
proof -
  define fin where "fin = (\<lambda>b1. case session_group d b of None \<Rightarrow> (b1, [], None) | Some uuid \<Rightarrow> end_group uuid b1)"
  obtain b1 taken where t: "take_live_session_if_gen d g b = (b1, taken)" by force
  obtain b2 members host where f: "fin b1 = (b2, members, host)" using prod_cases3 by blast
  have "evolves b b1"
    using t by (auto simp: take_live_session_if_gen_def split: option.splits if_splits)
  moreover have "evolves b1 b2"
    using f evolves_end_group by (auto simp: fin_def split: option.splits) (metis fst_conv)
  ultimately have "evolves b b2" by (rule evolves_trans)
  then show ?thesis
    by (auto simp: terminal_stall_end_def t f [unfolded fin_def] Let_def detach_teardown_def split: option.splits)
qed

lemma evolves_handle_stall_reload: "evolves b (fst (handle_stall_reload d g now1 now2 b))"
proof -
  obtain b1 r where n: "note_stall_reload_and_flac_strike d g now1 b = (b1, r)" by force
  then have "evolves b b1" using evolves_fallback(3) [of b d g now1] by simp
  then show ?thesis
    by (auto simp: handle_stall_reload_def n case_prod_beta split: option.splits intro: evolves_trans)
qed

lemma evolves_stall_act: "evolves b (fst (stall_act d g now1 now2 action b))"
  by (simp add: stall_act_def evolves_handle_stall_reload split: stall_action_kind.split)

lemma evolves_stall_tick: "evolves b (fst (stall_watchdog_tick d g frames now now1 now2 b))"
  using evolves_trans [OF evolves_switch_after evolves_stall_act]
  by (simp add: stall_watchdog_tick_def evolves_stall_act case_prod_beta split: option.split)

lemma evolves_stall_outcome: "evolves b (fst (stall_reload_outcome d g now1 now2 tick r b))"
  by (simp add: stall_reload_outcome_def evolves_stall_act split: stall_tick.split reload_outcome.split)

end
