(* ===== verification/Bridge_Teardown.thy ===== *)
theory Bridge_Teardown
  imports Bridge_Fallback
begin

text \<open>
  Ending a session (\<open>src/bridge/teardown.rs\<close>): the order of a teardown, and the operations that
  start one. \<open>teardown_playing\<close> owns the session it tears down, so it is a sequence of steps
  (\<open>td_pc\<close>) over the session's shared cells and the effects; anything may happen between steps.
  The atomic stores of the two liveness flags are steps of their own, because their order is what
  keeps a late LOAD from stopping the session that replaced this one.
\<close>

section \<open>The teardown task\<close>

datatype td_pc =
    TdStart
  | TdClearAlive string
  | TdAbortTasks string
  | TdStopWatchdog string
  | TdStopRollover string
  | TdJoinInflight string
  | TdMedia string
  | TdStop bool string
  | TdDone

record teardown_job =
  td_session :: playing_session
  td_policy :: teardown_cast_policy

text \<open>The sessions handed to a teardown, with the policy, in order.\<close>

definition teardowns :: "bridge_effect list \<Rightarrow> teardown_job list" where
  "teardowns es = List.map_filter
     (\<lambda>e. case e of Teardown s p \<Rightarrow> Some \<lparr>td_session = s, td_policy = p\<rparr> | _ \<Rightarrow> None) es"

text \<open>
  After \<open>TdStart\<close> every point carries the media worker key the route named when the teardown began.
  \<open>TdStop True\<close> waits for the first STOP, \<open>TdStop False\<close> for the retry. The input is the answer of
  \<open>stop_best_effort\<close>.
\<close>

fun td_step :: "teardown_job \<Rightarrow> td_pc \<Rightarrow> bool \<Rightarrow> bridge \<Rightarrow> bridge \<times> td_pc" where
  "td_step j TdStart _ b =
     (let key = route_media (route (shared b (sid (td_session j))));
          b1 = stop_pump (ps_source (td_session j)) b
      in (if replace_skips_cast_stop (td_policy j)
          then upd_cells (sid (td_session j)) (\<lambda>c. c\<lparr>late_stop_allowed := False\<rparr>) b1
          else emit (CastSessionEnded key) b1, TdClearAlive key))"
| "td_step j (TdClearAlive key) _ b =
     (upd_cells (sid (td_session j)) (\<lambda>c. c\<lparr>session_alive := False\<rparr>) b, TdAbortTasks key)"
| "td_step j (TdAbortTasks key) _ b = (emit (AbortSessionTasks (sid (td_session j))) b, TdStopWatchdog key)"
| "td_step j (TdStopWatchdog key) _ b = (emit_all (watchdog_stop (td_session j)) b, TdStopRollover key)"
| "td_step j (TdStopRollover key) _ b =
     (if rollover_running (td_session j) then emit (StopRollover (sid (td_session j))) b else b,
      TdJoinInflight key)"
| "td_step j (TdJoinInflight key) _ b = (emit (JoinInflightLoad (sid (td_session j))) b, TdMedia key)"
| "td_step j (TdMedia key) _ b =
     (let b1 = emit (MediaShutdown (media_shutdown (media (td_session j)))) b
      in if replace_skips_cast_stop (td_policy j) then (b1, TdDone)
         else (emit (CastStop key) b1, TdStop True key))"
| "td_step j (TdStop first key) stopped b =
     (if stopped \<or> \<not> first then (b, TdDone)
      else (emit (CastStop key) b, TdStop False key))"
| "td_step j TdDone _ b = (b, TdDone)"

text \<open>A teardown on its own: every step in order, with the answers of its STOPs.\<close>

fun td_run :: "teardown_job \<Rightarrow> td_pc \<Rightarrow> bool list \<Rightarrow> bridge \<Rightarrow> bridge \<times> td_pc" where
  "td_run j pc [] b = (b, pc)"
| "td_run j pc (x # xs) b = (case td_step j pc x b of (b', pc') \<Rightarrow> td_run j pc' xs b')"

fun td_rank :: "td_pc \<Rightarrow> nat" where
  "td_rank TdStart = 9"
| "td_rank (TdClearAlive _) = 8"
| "td_rank (TdAbortTasks _) = 7"
| "td_rank (TdStopWatchdog _) = 6"
| "td_rank (TdStopRollover _) = 5"
| "td_rank (TdJoinInflight _) = 4"
| "td_rank (TdMedia _) = 3"
| "td_rank (TdStop first _) = (if first then 2 else 1)"
| "td_rank TdDone = 0"

section \<open>Operations that end sessions\<close>

definition handle_session_end :: "string \<Rightarrow> bridge \<Rightarrow> bridge" where
  "handle_session_end d b =
     (case take_live_session d b of
        (b', None) \<Rightarrow> b'
      | (b', Some (_, s)) \<Rightarrow> detach_teardown s StopBestEffort b')"

text \<open>
  A lost Cast session: the owner and its group are looked up under one lock each, the owner's session is
  taken and torn down, and only when that teardown is over the group ends. \<open>CastEndGroup\<close> waits for the
  teardown. The result is the devices whose clients should be disconnected.
\<close>

datatype cast_end_pc =
    CastEndKey string
  | CastEndOwner string
  | CastEndTake string "string option"
  | CastEndGroup string "string option"

fun end_cast_session :: "cast_end_pc \<Rightarrow> bridge \<Rightarrow> bridge \<times> (cast_end_pc + string list)" where
  "end_cast_session (CastEndKey key) b = (b, Inl (CastEndOwner (cast_key_owner key b)))"
| "end_cast_session (CastEndOwner o') b = (b, Inl (CastEndTake o' (session_group o' b)))"
| "end_cast_session (CastEndTake o' grp) b = (handle_session_end o' b, Inl (CastEndGroup o' grp))"
| "end_cast_session (CastEndGroup o' grp) b =
     (case grp of
        None \<Rightarrow> (b, Inr [o'])
      | Some uuid \<Rightarrow>
          (let (b', members, host) = end_group uuid b
           in (close_hosts (opt_list host) b', Inr (o' # members))))"

text \<open>
  The end of the bridge: every slot is emptied and every live session gets a teardown. The groups are
  forgotten (\<open>forget_all_groups\<close>) when the detached tasks have ended or were aborted at their deadline.
\<close>

definition end_all_sessions :: "bridge \<Rightarrow> bridge" where
  "end_all_sessions b =
     (let pumps = List.map_filter (\<lambda>(d, slot).
            case slot_state slot of Following _ f \<Rightarrow> Some (StopPump (fs_pump f)) | _ \<Rightarrow> None) (devices b);
          live = sessions_in (devices b)
      in emit_all (pumps @ map (\<lambda>s. Teardown s StopBestEffort) live)
           (b\<lparr>devices := hm_map (\<lambda>slot. slot\<lparr>slot_state := Idle\<rparr>) (devices b)\<rparr>))"

datatype ended_decision =
    EndedStarting u64
  | EndedPlaying u64 bool
  | EndedFollowing u64 bool

definition ended_decision_of :: "string \<Rightarrow> ring_ref option \<Rightarrow> bridge \<Rightarrow> ended_decision option" where
  "ended_decision_of d current b =
     (case state_of d b of
        None \<Rightarrow> None
      | Some (Playing g s) \<Rightarrow> Some (EndedPlaying g (ring_is_current current (airplay_ring s)))
      | Some (Following g f) \<Rightarrow> Some (EndedFollowing g (ring_is_current current (pump_source (fs_pump f))))
      | Some (Starting g) \<Rightarrow> Some (EndedStarting g)
      | Some Idle \<Rightarrow> None)"

text \<open>
  The decision reads the slot; every further point of \<open>handle_ended\<close> takes the locks anew, so anything may
  have happened in between. \<open>EndedTeardown i\<close> waits for the \<open>i\<close>-th teardown, the one it started, before the
  groups that the device owned are checked.
\<close>

datatype ended_pc =
    EndedAct ended_decision
  | EndedTake u64
  | EndedTeardown nat
  | EndedCheck

fun handle_ended :: "string \<Rightarrow> ended_pc \<Rightarrow> bridge \<Rightarrow> bridge \<times> ended_pc option" where
  "handle_ended d (EndedAct (EndedStarting g)) b = (clear_starting_if d g b, Some EndedCheck)"
| "handle_ended d (EndedAct (EndedPlaying g stale)) b =
     (if stale then (b, None)
      else (case group_owner_left d g b of
          (b', True) \<Rightarrow> (b', None)
        | (b', False) \<Rightarrow> (b', Some (EndedTake g))))"
| "handle_ended d (EndedAct (EndedFollowing g stale)) b = (if stale then b else end_following d g b, None)"
| "handle_ended d (EndedTake g) b =
     (case take_live_session_if_gen d g b of
        (b', None) \<Rightarrow> (b', Some EndedCheck)
      | (b', Some s) \<Rightarrow>
          (detach_teardown s StopBestEffort b', Some (EndedTeardown (length (teardowns (effects b))))))"
| "handle_ended d (EndedTeardown i) b = (b, Some EndedCheck)"
| "handle_ended d EndedCheck b = (group_check_owner d b, None)"

section \<open>Preservation\<close>

lemma handle_session_end_ok: "bridge_ok b \<Longrightarrow> bridge_ok (handle_session_end d b)"
  using take_session_ok [of b d _ _ StopBestEffort]
  by (auto simp: handle_session_end_def take_live_session_def detach_teardown_def playing_at_def
      split: option.splits device_state.splits intro!: emit_ok set_idle_ok)

lemma evolves_handle_session_end [simp]: "evolves b (handle_session_end d b)"
  by (auto simp: handle_session_end_def take_live_session_def detach_teardown_def
      split: option.splits device_state.splits)

lemma end_cast_session_ok: "bridge_ok b \<Longrightarrow> bridge_ok (fst (end_cast_session pc b))"
  by (cases pc) (auto simp: case_prod_beta handle_session_end_ok end_group_ok close_hosts_ok split: option.split)

lemma evolves_end_cast_session: "evolves b (fst (end_cast_session pc b))"
  using evolves_end_group by (cases pc) (auto simp: case_prod_beta split: option.split)

lemma handle_ended_ok:
  assumes ok: "bridge_ok b"
  shows "bridge_ok (fst (handle_ended d pc b))"
proof (cases pc)
  case (EndedAct dec)
  have "bridge_ok (fst (group_owner_left d g b))" for g by (rule group_owner_left_ok [OF ok])
  then show ?thesis
    using ok unfolding EndedAct
    by (cases dec) (auto simp: clear_starting_if_ok end_following_ok split: prod.split bool.split, (metis fst_conv)+)
next
  case (EndedTake g)
  then show ?thesis
    using take_session_ok [OF ok, of d g _ StopBestEffort] ok
    by (auto simp: take_live_session_if_gen_def detach_teardown_def split: option.splits)
qed (use ok in \<open>simp_all add: group_check_owner_ok\<close>)

lemma evolves_handle_ended: "evolves b (fst (handle_ended d pc b))"
proof (cases pc)
  case (EndedAct dec)
  have "evolves b (fst (group_owner_left d g b))" for g by (rule evolves_group_owner_left)
  then show ?thesis
    unfolding EndedAct by (cases dec) (auto split: prod.split bool.split, (metis fst_conv)+)
next
  case (EndedTake g)
  then show ?thesis by (auto simp: take_live_session_if_gen_def detach_teardown_def split: option.splits)
qed simp_all

lemma sessions_in_idle: "sessions_in (hm_map (\<lambda>slot. slot\<lparr>slot_state := Idle\<rparr>) m) = []"
  by (induction m) (auto simp: sessions_in_def hm_map_def)

lemma torn_down_pumps:
  "torn_down (List.map_filter (\<lambda>(d, slot).
      case slot_state slot of Following _ f \<Rightarrow> Some (StopPump (fs_pump f)) | _ \<Rightarrow> None) m) = []"
  by (induction m) (auto simp: List.map_filter_simps split: device_state.split)

lemma torn_down_teardowns: "torn_down (map (\<lambda>s. Teardown s p) ss) = ss"
  by (induction ss) simp_all

lemma end_all_sessions_ok: "bridge_ok b \<Longrightarrow> bridge_ok (end_all_sessions b)"
proof -
  assume ok: "bridge_ok b"
  let ?m = "hm_map (\<lambda>slot. slot\<lparr>slot_state := Idle\<rparr>) (devices b)"
  let ?es = "List.map_filter (\<lambda>(d, slot).
      case slot_state slot of Following _ f \<Rightarrow> Some (StopPump (fs_pump f)) | _ \<Rightarrow> None) (devices b)
      @ map (\<lambda>s. Teardown s StopBestEffort) (sessions_in (devices b))"
  let ?b = "emit_all ?es (b\<lparr>devices := ?m\<rparr>)"
  have "slots_ok ?b"
    using bridge_okD(4) [OF ok]
    by (auto simp: slots_ok_def slot_ok_def slot_of_def hm_entry_def hm_get_map default_slot_def split: option.splits)
  moreover have "groups_ok ?b" using bridge_okD(2) [OF ok] by (simp add: groups_ok_def)
  moreover have "sids_ok ?b"
    using bridge_okD(3) [OF ok]
    by (simp add: sids_ok_def sessions_in_idle torn_down_pumps torn_down_teardowns) (simp add: ac_simps)
  ultimately have "bridge_ok ?b" by (rule bridge_okI)
  then show ?thesis by (simp add: end_all_sessions_def Let_def)
qed

lemma evolves_end_all_sessions: "evolves b (end_all_sessions b)"
  by (auto simp: end_all_sessions_def Let_def evolves_def slot_of_def hm_entry_def
      hm_get_map slot_evolves_def emit_all_def default_slot_def split: option.splits)

lemma evolves_forget_all_groups: "evolves b (forget_all_groups b)"
  by (auto simp: forget_all_groups_def evolves_def slot_of_def close_hosts_def emit_all_def)

section \<open>Facts about a teardown\<close>

lemma td_step_rank: "pc \<noteq> TdDone \<Longrightarrow> td_rank (snd (td_step j pc x b)) < td_rank pc"
  by (cases pc) (auto simp: Let_def)

lemma td_run_done: "td_rank pc \<le> length xs \<Longrightarrow> snd (td_run j pc xs b) = TdDone"
proof (induction xs arbitrary: pc b)
  case Nil
  then show ?case by (cases pc) (auto split: if_splits)
next
  case (Cons x xs)
  show ?case
  proof (cases "pc = TdDone")
    case True
    with Cons.IH [of TdDone b] show ?thesis by simp
  next
    case False
    obtain b' pc' where s: "td_step j pc x b = (b', pc')" by force
    with td_step_rank [OF False, of j x b] Cons.prems have "td_rank pc' \<le> length xs" by simp
    with Cons.IH s show ?thesis by simp
  qed
qed

text \<open>Where the flags of the session stand at each point of a teardown.\<close>

definition td_flags_ok :: "teardown_cast_policy \<Rightarrow> td_pc \<Rightarrow> shared_cells \<Rightarrow> bool" where
  "td_flags_ok policy pc c \<longleftrightarrow>
     (case pc of
        TdStart \<Rightarrow> session_alive c \<and> late_stop_allowed c
      | TdClearAlive _ \<Rightarrow> session_alive c \<and> late_stop_allowed c = (policy \<noteq> SkipStopForReplace)
      | _ \<Rightarrow> \<not> session_alive c \<and> late_stop_allowed c = (policy \<noteq> SkipStopForReplace))"

lemma td_step_flags:
  "td_flags_ok (td_policy j) pc (shared b (sid (td_session j))) \<Longrightarrow>
   td_step j pc x b = (b', pc') \<Longrightarrow> td_flags_ok (td_policy j) pc' (shared b' (sid (td_session j)))"
  by (cases pc) (auto simp: td_flags_ok_def replace_skips_cast_stop_def Let_def split: if_splits)

end
