(* ===== verification/Audio.thy ===== *)
theory Audio
  imports Text_Error Float32 "HOL-Library.Sublist"
begin

text \<open>
  The audio path (\<open>src/audio/pcm.rs\<close>, \<open>src/audio/wav.rs\<close>): the bounded ring of interleaved samples between
  AirPlay and Cast, the conversion of a sample to 16 bits, and the WAV header.
\<close>

section \<open>f32 to i16 (pcm.rs)\<close>

text \<open>
  \<open>round_to_f32 n\<close> rounds \<open>n\<close> (a magnitude in units of \<open>2 ^ - 149\<close>) to 24 significant bits, ties to even:
  what a single-precision multiplication does to its exact product.
\<close>

fun bit_len :: "nat \<Rightarrow> nat" where
  "bit_len n = (if n = 0 then 0 else Suc (bit_len (n div 2)))"

declare bit_len.simps [simp del]

definition round_to_f32 :: "nat \<Rightarrow> nat" where
  "round_to_f32 n =
     (let sh = bit_len n - 24;
          q = n div 2 ^ sh;
          r = n mod 2 ^ sh
      in (if 2 * r > 2 ^ sh \<or> (2 * r = 2 ^ sh \<and> odd q) then q + 1 else q) * 2 ^ sh)"

definition f32_neg_one :: f32 where
  "f32_neg_one = F32 0xBF800000"

definition f32_clamp_unit :: "f32 \<Rightarrow> f32" where
  "f32_clamp_unit x =
     (if f32_less x f32_neg_one then f32_neg_one else if f32_less f32_one x then f32_one else x)"

text \<open>\<open>round\<close> goes half away from zero, and the cast of a NaN is zero.\<close>

definition f32_to_i16 :: "f32 \<Rightarrow> int" where
  "f32_to_i16 x =
     (let c = f32_clamp_unit x;
          p = round_to_f32 (f32_scaled_abs c * 32767);
          m = (2 * p + 2 ^ 149) div 2 ^ 150
      in if f32_is_nan c then 0 else if f32_negative c then - int m else int m)"

section \<open>The ring (pcm.rs)\<close>

record pcm_ring =
  channels :: u16
  samples :: "f32 list"
  capacity_samples :: usize
  frames_dropped_overflow :: u64
  underrun_polls :: u64

definition channel_count :: "pcm_ring \<Rightarrow> nat" where
  "channel_count r = unat (channels r)"

definition ring_new :: "u16 \<Rightarrow> usize \<Rightarrow> pcm_ring" where
  "ring_new ch capacity_frames =
     (let c = max ch 1
      in \<lparr>channels = c, samples = [], capacity_samples = usize_sat_mul capacity_frames (unat c),
          frames_dropped_overflow = 0, underrun_polls = 0\<rparr>)"

definition push_f32 :: "f32 list \<Rightarrow> pcm_ring \<Rightarrow> pcm_ring" where
  "push_f32 xs r =
     (if xs = [] then r
      else
        let total = usize_sat_add (length (samples r)) (length xs) in
        if capacity_samples r < total then
          let drop_samples = total - capacity_samples r;
              drop_from_buf = min drop_samples (length (samples r));
              kept = (if 0 < drop_from_buf then drop drop_from_buf (samples r) else samples r);
              skip = drop_samples - drop_from_buf;
              keep = (if skip \<le> length xs then drop skip xs else []);
              frames = drop_samples div channel_count r
          in r\<lparr>samples := kept @ keep,
               frames_dropped_overflow :=
                 (if 0 < frames then frames_dropped_overflow r + of_nat frames
                  else frames_dropped_overflow r)\<rparr>
        else r\<lparr>samples := samples r @ xs\<rparr>)"

definition take_frames_of :: "usize \<Rightarrow> pcm_ring \<Rightarrow> nat" where
  "take_frames_of frame_count r = min frame_count (length (samples r) div channel_count r)"

definition pop_i16 :: "usize \<Rightarrow> pcm_ring \<Rightarrow> pcm_ring \<times> nat \<times> int list" where
  "pop_i16 frame_count r =
     (let take_frames = take_frames_of frame_count r in
      if take_frames = 0 then (r\<lparr>underrun_polls := underrun_polls r + 1\<rparr>, 0, [])
      else
        let take_samples = usize_sat_mul take_frames (channel_count r)
        in (r\<lparr>samples := drop take_samples (samples r)\<rparr>, take_frames,
            map f32_to_i16 (take take_samples (samples r))))"

definition pop_f32 :: "usize \<Rightarrow> pcm_ring \<Rightarrow> pcm_ring \<times> nat \<times> f32 list" where
  "pop_f32 frame_count r =
     (let take_frames = take_frames_of frame_count r;
          take_samples = usize_sat_mul take_frames (channel_count r)
      in (r\<lparr>samples := drop take_samples (samples r)\<rparr>, take_frames, take take_samples (samples r)))"

definition available_frames :: "pcm_ring \<Rightarrow> nat" where
  "available_frames r = length (samples r) div channel_count r"

definition ring_clear :: "pcm_ring \<Rightarrow> pcm_ring" where
  "ring_clear r = r\<lparr>samples := []\<rparr>"

section \<open>The header (wav.rs)\<close>

definition u16_le :: "u16 \<Rightarrow> u8 list" where
  "u16_le v = [ucast v, ucast (drop_bit 8 v)]"

definition u32_le :: "u32 \<Rightarrow> u8 list" where
  "u32_le v = [ucast v, ucast (drop_bit 8 v), ucast (drop_bit 16 v), ucast (drop_bit 24 v)]"

definition write_at :: "nat \<Rightarrow> u8 list \<Rightarrow> u8 list \<Rightarrow> u8 list" where
  "write_at offset bytes h =
     (if offset + length bytes \<le> length h
      then take offset h @ bytes @ drop (offset + length bytes) h else h)"

definition saturating_mul :: "'a::len word \<Rightarrow> 'a word \<Rightarrow> 'a word" where
  "saturating_mul a b = (if unat a * unat b < 2 ^ LENGTH('a) then a * b else - 1)"

definition ascii_bytes :: "string \<Rightarrow> u8 list" where
  "ascii_bytes s = map of_char s"

definition wav_header :: "u16 \<Rightarrow> u32 \<Rightarrow> u32 \<Rightarrow> u8 list result" where
  "wav_header ch rate data_len =
     (if ch = 0 then Inl (ErrAudio ''channels must be at least 1'')
      else if rate = 0 then Inl (ErrAudio ''sample_rate must be non-zero'')
      else
        let bits_per_sample = (16 :: u16);
            block_align = saturating_mul ch (bits_per_sample div 8);
            byte_rate = saturating_mul rate (ucast block_align);
            riff_size = saturating_add 36 data_len;
            h0 = replicate 44 0;
            h1 = write_at 0 (ascii_bytes ''RIFF'') h0;
            h2 = write_at 4 (u32_le riff_size) h1;
            h3 = write_at 8 (ascii_bytes ''WAVE'') h2;
            h4 = write_at 12 (ascii_bytes ''fmt '') h3;
            h5 = write_at 16 (u32_le 16) h4;
            h6 = write_at 20 (u16_le 1) h5;
            h7 = write_at 22 (u16_le ch) h6;
            h8 = write_at 24 (u32_le rate) h7;
            h9 = write_at 28 (u32_le byte_rate) h8;
            h10 = write_at 32 (u16_le block_align) h9;
            h11 = write_at 34 (u16_le bits_per_sample) h10;
            h12 = write_at 36 (ascii_bytes ''data'') h11
        in Inr (write_at 40 (u32_le data_len) h12))"

definition continuous_wav_header :: "u16 \<Rightarrow> u32 \<Rightarrow> u8 list result" where
  "continuous_wav_header ch rate = wav_header ch rate (- 1 div 2)"

section \<open>Bounds of the conversion\<close>

lemma bit_len_le: "n < 2 ^ k \<Longrightarrow> bit_len n \<le> k"
proof (induction n arbitrary: k rule: bit_len.induct)
  case (1 n)
  show ?case
  proof (cases "n = 0")
    case True
    then show ?thesis by (simp add: bit_len.simps)
  next
    case False
    then obtain j where j: "k = Suc j" using 1(2) by (cases k) auto
    then have "n div 2 < 2 ^ j" using 1(2) by auto
    with 1(1) [OF False this] False j show ?thesis by (subst bit_len.simps) simp
  qed
qed

lemma round_below:
  assumes "n \<le> m * 2 ^ 149" and "bit_len n - 24 \<le> 149"
  shows "round_to_f32 n \<le> m * 2 ^ 149"
proof -
  define sh where "sh = bit_len n - 24"
  have sh: "sh \<le> 149" using assms(2) by (simp add: sh_def)
  then have "(2::nat) ^ 149 = 2 ^ (149 - sh) * 2 ^ sh" by (simp flip: power_add)
  then have mult: "m * 2 ^ 149 = (m * 2 ^ (149 - sh)) * 2 ^ sh" by simp
  define q where "q = n div 2 ^ sh"
  define r where "r = n mod 2 ^ sh"
  have n: "n = q * 2 ^ sh + r" by (simp only: q_def r_def div_mult_mod_eq)
  have "q \<le> (m * 2 ^ (149 - sh)) * 2 ^ sh div 2 ^ sh"
    unfolding q_def by (rule div_le_mono) (use assms(1) in \<open>simp only: mult\<close>)
  then have q: "q \<le> m * 2 ^ (149 - sh)" by simp
  show ?thesis
  proof (cases "r = 0")
    case True
    then have "round_to_f32 n = q * 2 ^ sh"
      by (simp add: round_to_f32_def Let_def sh_def [symmetric] q_def [symmetric] r_def [symmetric])
    moreover have "q * 2 ^ sh \<le> (m * 2 ^ (149 - sh)) * 2 ^ sh" using q by (rule mult_le_mono1)
    ultimately show ?thesis by (simp only: mult)
  next
    case False
    have "q \<noteq> m * 2 ^ (149 - sh)"
      using assms(1) False unfolding mult n by auto
    with q have "q + 1 \<le> m * 2 ^ (149 - sh)" by simp
    then have "(q + 1) * 2 ^ sh \<le> m * 2 ^ 149" unfolding mult by (rule mult_le_mono1)
    moreover have "round_to_f32 n \<le> (q + 1) * 2 ^ sh"
      by (simp add: round_to_f32_def Let_def sh_def [symmetric] q_def [symmetric] r_def [symmetric])
    ultimately show ?thesis by linarith
  qed
qed

lemma unit_scaled: "f32_scaled_abs f32_one = 2 ^ 149" "f32_scaled_abs f32_neg_one = 2 ^ 149"
  by (simp_all add: f32_scaled_abs_def f32_one_def f32_neg_one_def f32_exponent_def f32_fraction_def
      f32_magnitude_def)

lemma clamp_unit_bound:
  assumes "\<not> f32_is_nan x"
  shows "f32_scaled_abs (f32_clamp_unit x) \<le> 2 ^ 149"
proof -
  have "\<not> f32_is_nan f32_neg_one"
    by (simp add: f32_is_nan_def f32_neg_one_def f32_exponent_def f32_fraction_def f32_magnitude_def)
  moreover have "f32_scaled f32_neg_one = - (2 ^ 149)"
    by (simp add: f32_scaled_def unit_scaled) (simp add: f32_negative_def f32_neg_one_def)
  ultimately show ?thesis
    using assms
    by (auto simp: f32_clamp_unit_def unit_scaled f32_less_def)
      (auto simp: f32_scaled_def split: if_splits)
qed

lemma clamp_unit_nan: "f32_is_nan (f32_clamp_unit x) \<longleftrightarrow> f32_is_nan x"
  by (auto simp: f32_clamp_unit_def f32_less_def f32_is_nan_def f32_neg_one_def f32_one_def
      f32_exponent_def f32_fraction_def f32_magnitude_def)

text \<open>
  The 16-bit samples are symmetric: for every input, including infinities and NaN, the converted sample
  lies between -32767 and 32767; -32768, which the encoder's input avoids, is never produced, and the
  single-precision rounding of the product never overflows the range.
\<close>

theorem sample_in_symmetric_range: "\<bar>f32_to_i16 x\<bar> \<le> 32767"
proof (cases "f32_is_nan x")
  case True
  then show ?thesis by (simp add: f32_to_i16_def Let_def clamp_unit_nan)
next
  case False
  let ?n = "f32_scaled_abs (f32_clamp_unit x) * 32767"
  have n: "?n \<le> 32767 * 2 ^ 149" using clamp_unit_bound [OF False] by simp
  then have "?n < 2 ^ 164" by (rule le_less_trans) simp
  then have "bit_len ?n - 24 \<le> 149" using bit_len_le [of ?n 164] by simp
  from round_below [OF n this] have "round_to_f32 ?n \<le> 32767 * 2 ^ 149" .
  then have "(2 * round_to_f32 ?n + 2 ^ 149) div 2 ^ 150 \<le> (2 * (32767 * 2 ^ 149) + 2 ^ 149) div 2 ^ 150"
    by (intro div_le_mono) simp
  also have "\<dots> = (32767 :: nat)" by simp
  finally show ?thesis by (simp add: f32_to_i16_def Let_def)
qed

section \<open>Facts about the ring\<close>

definition ring_ok :: "pcm_ring \<Rightarrow> bool" where
  "ring_ok r \<longleftrightarrow> 0 < channel_count r \<and> length (samples r) \<le> capacity_samples r \<and>
     capacity_samples r \<le> usize_max"

lemma ring_new_ok: "ring_ok (ring_new ch n)"
proof -
  have "1 \<le> max ch 1" by simp
  then have "0 < unat (max ch 1)" by (simp add: word_le_nat_alt)
  then show ?thesis by (simp add: ring_ok_def ring_new_def channel_count_def Let_def usize_sat_mul_def)
qed

lemma push_f32_samples:
  assumes "ring_ok r" and "length (samples r) + length xs \<le> usize_max"
  shows "samples (push_f32 xs r) =
    drop (length (samples r @ xs) - capacity_samples r) (samples r @ xs)"
  using assms by (auto simp: push_f32_def ring_ok_def Let_def usize_sat_add_def min_def)

lemma push_f32_ok:
  assumes "ring_ok r" and "length (samples r) + length xs \<le> usize_max"
  shows "ring_ok (push_f32 xs r)"
proof -
  have "channel_count (push_f32 xs r) = channel_count r"
    "capacity_samples (push_f32 xs r) = capacity_samples r"
    by (simp_all add: push_f32_def channel_count_def Let_def)
  then show ?thesis
    using assms(1) push_f32_samples [OF assms] by (simp add: ring_ok_def)
qed

lemma pop_takes:
  assumes "ring_ok r"
  shows "usize_sat_mul (take_frames_of n r) (channel_count r) = take_frames_of n r * channel_count r"
    and "take_frames_of n r * channel_count r \<le> length (samples r)"
proof -
  have "take_frames_of n r * channel_count r \<le> length (samples r) div channel_count r * channel_count r"
    by (simp add: take_frames_of_def)
  also have "\<dots> \<le> length (samples r)" by simp
  finally show le: "take_frames_of n r * channel_count r \<le> length (samples r)" .
  with assms show "usize_sat_mul (take_frames_of n r) (channel_count r) = take_frames_of n r * channel_count r"
    by (simp add: usize_sat_mul_def ring_ok_def)
qed

text \<open>
  Pushing keeps the newest audio. On a ring within its capacity, a push leaves exactly the last
  \<open>capacity_samples\<close> samples of the old contents followed by the new ones - whether the push fits,
  evicts old samples, or is longer than the whole ring.
\<close>

theorem push_keeps_newest:
  assumes "ring_ok r" and "length (samples r) + length xs \<le> usize_max"
  shows "samples (push_f32 xs r) =
    rev (take (capacity_samples r) (rev (samples r @ xs)))"
proof -
  have rt: "rev (take k (rev zs)) = drop (length zs - k) zs" for k :: nat and zs :: "f32 list"
    by (simp add: rev_take)
  show ?thesis by (simp only: rt push_f32_samples [OF assms])
qed

definition demo_ring :: pcm_ring where
  "demo_ring = (ring_new 2 2)\<lparr>samples := [F32 1, F32 2, F32 3]\<rparr>"

theorem push_keeps_newest_witness:
  "samples (push_f32 [F32 4, F32 5] demo_ring) = rev (take (capacity_samples demo_ring) (rev (samples demo_ring @ [F32 4, F32 5])))
   \<and> samples (push_f32 [F32 4, F32 5] demo_ring) = [F32 2, F32 3, F32 4, F32 5]"
proof
  have ok: "ring_ok demo_ring"
    by (simp add: demo_ring_def ring_ok_def ring_new_def channel_count_def usize_sat_mul_def usize_max_def)
  show "samples (push_f32 [F32 4, F32 5] demo_ring) =
      rev (take (capacity_samples demo_ring) (rev (samples demo_ring @ [F32 4, F32 5])))"
    by (rule push_keeps_newest [OF ok]) (simp add: demo_ring_def ring_new_def usize_max_def)
  show "samples (push_f32 [F32 4, F32 5] demo_ring) = [F32 2, F32 3, F32 4, F32 5]"
    by (simp add: demo_ring_def ring_new_def push_f32_def usize_sat_mul_def usize_sat_add_def usize_max_def Let_def)
qed

section \<open>Runs of the ring\<close>

datatype ring_op = RingPush "f32 list" | RingPopI16 usize | RingPopF32 usize | RingClear

text \<open>The ring after an operation and the samples that left it for a reader (before conversion).\<close>

fun ring_apply :: "ring_op \<Rightarrow> pcm_ring \<Rightarrow> pcm_ring \<times> f32 list" where
  "ring_apply (RingPush xs) r = (push_f32 xs r, [])"
| "ring_apply (RingPopI16 n) r =
     (fst (pop_i16 n r), take (length (snd (snd (pop_i16 n r)))) (samples r))"
| "ring_apply (RingPopF32 n) r = (fst (pop_f32 n r), snd (snd (pop_f32 n r)))"
| "ring_apply RingClear r = (ring_clear r, [])"

fun ring_run :: "ring_op list \<Rightarrow> pcm_ring \<Rightarrow> pcm_ring \<times> f32 list" where
  "ring_run [] r = (r, [])"
| "ring_run (x # xs) r =
     (case ring_apply x r of (r1, out1) \<Rightarrow> (case ring_run xs r1 of (r2, out2) \<Rightarrow> (r2, out1 @ out2)))"

fun pushed :: "ring_op list \<Rightarrow> f32 list" where
  "pushed [] = []"
| "pushed (RingPush xs # ops) = xs @ pushed ops"
| "pushed (_ # ops) = pushed ops"

definition pushes_fit :: "usize \<Rightarrow> ring_op list \<Rightarrow> bool" where
  "pushes_fit cap ops \<longleftrightarrow> (\<forall>x \<in> set ops. case x of RingPush xs \<Rightarrow> cap + length xs \<le> usize_max | _ \<Rightarrow> True)"

lemma ring_frame:
  "capacity_samples (push_f32 xs r) = capacity_samples r" "channel_count (push_f32 xs r) = channel_count r"
  "capacity_samples (ring_clear r) = capacity_samples r" "channel_count (ring_clear r) = channel_count r"
  "capacity_samples (fst (pop_i16 n r)) = capacity_samples r" "channel_count (fst (pop_i16 n r)) = channel_count r"
  "capacity_samples (fst (pop_f32 n r)) = capacity_samples r" "channel_count (fst (pop_f32 n r)) = channel_count r"
  by (simp_all add: push_f32_def ring_clear_def pop_i16_def pop_f32_def channel_count_def Let_def)

lemma pop_split:
  "snd (ring_apply (RingPopI16 n) r) @ samples (fst (ring_apply (RingPopI16 n) r)) = samples r"
  "snd (ring_apply (RingPopF32 n) r) @ samples (fst (ring_apply (RingPopF32 n) r)) = samples r"
  by (simp_all add: pop_i16_def pop_f32_def Let_def min_def)

lemma ring_clear_ok: "ring_ok r \<Longrightarrow> ring_ok (ring_clear r)"
  by (simp add: ring_ok_def ring_clear_def channel_count_def)

lemma ring_apply_ok:
  assumes "ring_ok r" and "pushes_fit (capacity_samples r) [x]"
  shows "ring_ok (fst (ring_apply x r))"
proof -
  have shrink: "length (samples (fst (ring_apply x r))) \<le> length (samples r)"
    if "x = RingPopI16 n \<or> x = RingPopF32 n" for n
    using that pop_split [of n r] by (metis le_add2 length_append)
  show ?thesis
  proof (cases x)
    case (RingPush xs)
    with assms have "length (samples r) + length xs \<le> usize_max"
      by (simp add: pushes_fit_def ring_ok_def)
    with RingPush assms(1) show ?thesis by (simp add: push_f32_ok)
  next
    case (RingPopI16 n)
    with assms(1) shrink [of n] show ?thesis by (simp add: ring_ok_def ring_frame)
  next
    case (RingPopF32 n)
    with assms(1) shrink [of n] show ?thesis by (simp add: ring_ok_def ring_frame)
  next
    case RingClear
    with assms(1) show ?thesis by (simp add: ring_clear_ok)
  qed
qed

lemma ring_apply_subseq:
  assumes "ring_ok r" and "pushes_fit (capacity_samples r) [x]"
  shows "subseq (snd (ring_apply x r) @ samples (fst (ring_apply x r))) (samples r @ pushed [x])"
proof (cases x)
  case (RingPush xs)
  have "length (samples r) + length xs \<le> usize_max"
    using assms RingPush by (simp add: pushes_fit_def ring_ok_def)
  with RingPush push_f32_samples [OF assms(1)] show ?thesis
    by (simp only: ring_apply.simps fst_conv snd_conv append_Nil pushed.simps append_Nil2)
      (intro suffix_imp_subseq suffix_drop)
next
  case (RingPopI16 n)
  then show ?thesis using pop_split(1) [of n r] by simp
next
  case (RingPopF32 n)
  then show ?thesis using pop_split(2) [of n r] by simp
qed (simp add: ring_clear_def)

lemma ring_run_subseq:
  assumes "ring_ok r" and "pushes_fit (capacity_samples r) ops"
  shows "subseq (snd (ring_run ops r) @ samples (fst (ring_run ops r))) (samples r @ pushed ops)"
  using assms
proof (induction ops arbitrary: r)
  case Nil
  then show ?case by simp
next
  case (Cons x ops)
  have one: "pushes_fit (capacity_samples r) [x]" and rest: "pushes_fit (capacity_samples r) ops"
    using Cons.prems(2) by (simp_all add: pushes_fit_def)
  have cap: "capacity_samples (fst (ring_apply x r)) = capacity_samples r"
    by (cases x) (simp_all add: ring_frame)
  have p: "pushed (x # ops) = pushed [x] @ pushed ops" by (cases x) simp_all
  let ?r1 = "fst (ring_apply x r)" and ?o1 = "snd (ring_apply x r)"
  have "subseq (snd (ring_run ops ?r1) @ samples (fst (ring_run ops ?r1))) (samples ?r1 @ pushed ops)"
    by (rule Cons.IH) (use ring_apply_ok [OF Cons.prems(1) one] rest cap in auto)
  then have "subseq (?o1 @ snd (ring_run ops ?r1) @ samples (fst (ring_run ops ?r1)))
      (?o1 @ samples ?r1 @ pushed ops)" by (simp only: subseq_append')
  moreover have "subseq ((?o1 @ samples ?r1) @ pushed ops) ((samples r @ pushed [x]) @ pushed ops)"
    using ring_apply_subseq [OF Cons.prems(1) one] by (simp only: subseq_append)
  ultimately have "subseq (?o1 @ snd (ring_run ops ?r1) @ samples (fst (ring_run ops ?r1)))
      (samples r @ pushed [x] @ pushed ops)"
    unfolding append_assoc by (rule subseq_order.trans)
  then show ?case by (simp add: p case_prod_beta)
qed

text \<open>
  Audio leaves the ring in the order it entered, each sample at most once: over every sequence of
  pushes, reads of either kind and flushes on a fresh ring, what was read is a subsequence of what was
  pushed. Overflow and flushes only leave samples out.
\<close>

theorem audio_read_in_order:
  assumes "pushes_fit (capacity_samples (ring_new ch n)) ops"
  shows "subseq (snd (ring_run ops (ring_new ch n))) (pushed ops)"
proof -
  have "subseq (snd (ring_run ops (ring_new ch n)) @ samples (fst (ring_run ops (ring_new ch n)))) (pushed ops)"
    using ring_run_subseq [OF ring_new_ok assms] by (simp add: ring_new_def Let_def)
  moreover have "subseq out (out @ rest)" for out rest :: "f32 list"
    by (intro prefix_imp_subseq) simp
  ultimately show ?thesis by (rule subseq_order.trans [rotated])
qed

definition demo_ops :: "ring_op list" where
  "demo_ops = [RingPush [F32 1, F32 2], RingPopI16 1, RingPush [F32 3, F32 4, F32 5, F32 6, F32 7, F32 8],
     RingPopF32 1, RingClear, RingPush [F32 9, F32 10], RingPopF32 4]"

lemma usize_sat_mul_small: "a * b \<le> 1000 \<Longrightarrow> usize_sat_mul a b = a * b"
  by (simp add: usize_sat_mul_def usize_max_def)

lemma usize_sat_add_small: "a + b \<le> 1000 \<Longrightarrow> usize_sat_add a b = a + b"
  by (simp add: usize_sat_add_def usize_max_def)

definition stereo4 :: "f32 list \<Rightarrow> u64 \<Rightarrow> pcm_ring" where
  "stereo4 xs dropped =
     \<lparr>channels = 2, samples = xs, capacity_samples = 4, frames_dropped_overflow = dropped, underrun_polls = 0\<rparr>"

lemma demo_new: "ring_new 2 2 = stereo4 [] 0"
  by (simp add: ring_new_def usize_sat_mul_small stereo4_def)

lemma demo_push_fits:
  "xs \<noteq> [] \<Longrightarrow> length ys + length xs \<le> 4 \<Longrightarrow>
   ring_apply (RingPush xs) (stereo4 ys d) = (stereo4 (ys @ xs) d, [])"
  by (simp add: stereo4_def push_f32_def usize_sat_add_small)

lemma demo_push_over:
  "ring_apply (RingPush [F32 3, F32 4, F32 5, F32 6, F32 7, F32 8]) (stereo4 [] 0) =
     (stereo4 [F32 5, F32 6, F32 7, F32 8] 1, [])"
  by (simp add: stereo4_def push_f32_def usize_sat_add_small channel_count_def)

lemma demo_clear: "ring_apply RingClear (stereo4 xs d) = (stereo4 [] d, [])"
  by (simp add: stereo4_def ring_clear_def)

lemma demo_pop:
  "ring_apply (RingPopI16 1) (stereo4 (a # b # xs) d) = (stereo4 xs d, [a, b])"
  "ring_apply (RingPopF32 1) (stereo4 (a # b # xs) d) = (stereo4 xs d, [a, b])"
  "ring_apply (RingPopF32 4) (stereo4 [a, b] d) = (stereo4 [] d, [a, b])"
  by (simp_all add: stereo4_def pop_i16_def pop_f32_def take_frames_of_def channel_count_def
      usize_sat_mul_small Let_def)

theorem audio_read_in_order_witness:
  "subseq (snd (ring_run demo_ops (ring_new 2 2))) (pushed demo_ops) \<and>
   snd (ring_run demo_ops (ring_new 2 2)) = map F32 [1, 2, 5, 6, 9, 10]"
proof
  have "pushes_fit (capacity_samples (ring_new 2 2)) demo_ops"
    by (simp add: pushes_fit_def demo_ops_def ring_new_def usize_sat_mul_def usize_max_def)
  then show "subseq (snd (ring_run demo_ops (ring_new 2 2))) (pushed demo_ops)"
    by (rule audio_read_in_order)
  show "snd (ring_run demo_ops (ring_new 2 2)) = map F32 [1, 2, 5, 6, 9, 10]"
    by (simp add: demo_ops_def demo_new demo_push_fits demo_push_over demo_pop demo_clear del: ring_apply.simps One_nat_def)
qed

section \<open>Reading the header back\<close>

text \<open>A reader of the canonical 44-byte layout: it checks the four tags and the fixed fields.\<close>

fun le_value :: "u8 list \<Rightarrow> nat" where
  "le_value [] = 0"
| "le_value (b # bs) = unat b + 256 * le_value bs"

definition field_at :: "nat \<Rightarrow> nat \<Rightarrow> u8 list \<Rightarrow> u8 list" where
  "field_at offset n h = take n (drop offset h)"

definition read_wav_header :: "u8 list \<Rightarrow> (nat \<times> nat \<times> nat) option" where
  "read_wav_header h =
     (if length h = 44 \<and> field_at 0 4 h = ascii_bytes ''RIFF'' \<and> field_at 8 4 h = ascii_bytes ''WAVE'' \<and>
         field_at 12 4 h = ascii_bytes ''fmt '' \<and> le_value (field_at 16 4 h) = 16 \<and>
         le_value (field_at 20 2 h) = 1 \<and> le_value (field_at 34 2 h) = 16 \<and>
         field_at 36 4 h = ascii_bytes ''data''
      then Some (le_value (field_at 22 2 h), le_value (field_at 24 4 h), le_value (field_at 40 4 h))
      else None)"

lemma write_next:
  "length pre = offset \<Longrightarrow> length bs + m = n \<Longrightarrow>
   write_at offset bs (pre @ replicate n 0) = (pre @ bs) @ replicate m 0"
  by (auto simp: write_at_def)

lemma byte_lengths [simp]:
  "length (ascii_bytes s) = length s" "length (u16_le v) = 2" "length (u32_le w) = 4"
  by (simp_all add: ascii_bytes_def u16_le_def u32_le_def)

definition tag_riff :: "u8 list" where "tag_riff = ascii_bytes ''RIFF''"
definition tag_wave :: "u8 list" where "tag_wave = ascii_bytes ''WAVE''"
definition tag_fmt :: "u8 list" where "tag_fmt = ascii_bytes ''fmt ''"
definition tag_data :: "u8 list" where "tag_data = ascii_bytes ''data''"

lemma tag_lengths [simp]:
  "length tag_riff = 4" "length tag_wave = 4" "length tag_fmt = 4" "length tag_data = 4"
  by (simp_all add: tag_riff_def tag_wave_def tag_fmt_def tag_data_def)

lemmas tags = tag_riff_def [symmetric] tag_wave_def [symmetric] tag_fmt_def [symmetric] tag_data_def [symmetric]

lemma header_fields:
  assumes len: "length riff = 4" "length wave = 4" "length fmt = 4" "length dat = 4"
    "length f4 = 4" "length f16 = 4" "length f20 = 2" "length f22 = 2" "length f24 = 4"
    "length f28 = 4" "length f32 = 2" "length f34 = 2" "length f40 = 4"
  shows "write_at 40 f40 (write_at 36 dat (write_at 34 f34 (write_at 32 f32 (write_at 28 f28 (write_at 24 f24
      (write_at 22 f22 (write_at 20 f20 (write_at 16 f16 (write_at 12 fmt (write_at 8 wave (write_at 4 f4
      (write_at 0 riff (replicate 44 0))))))))))))) =
    riff @ f4 @ wave @ fmt @ f16 @ f20 @ f22 @ f24 @ f28 @ f32 @ f34 @ dat @ f40"
proof -
  have 0: "write_at 0 riff (replicate 44 0) = riff @ replicate 40 0"
    using write_next [of "[]" 0 riff 40 44] len by simp
  show ?thesis
    unfolding 0
    by (simp add: len write_next [where m = 36] write_next [where m = 32] write_next [where m = 28]
        write_next [where m = 24] write_next [where m = 22] write_next [where m = 20] write_next [where m = 16]
        write_next [where m = 12] write_next [where m = 10] write_next [where m = 8] write_next [where m = 4]
        write_next [where m = 0] del: append_assoc)
qed

lemma wav_layout:
  assumes "ch \<noteq> 0" and "rate \<noteq> 0"
  shows "\<exists>riff_size byte_rate block_align.
    wav_header ch rate data_len = Inr (tag_riff @ u32_le riff_size @ tag_wave @ tag_fmt @ u32_le 16 @ u16_le 1 @
      u16_le ch @ u32_le rate @ u32_le byte_rate @ u16_le block_align @ u16_le 16 @ tag_data @ u32_le data_len)"
  using assms unfolding wav_header_def Let_def tags by (simp add: header_fields) blast

lemma byte_of: "unat (ucast (drop_bit k v) :: u8) = unat v div 2 ^ k mod 256"
  by (simp add: unsigned_ucast_eq unat_drop_bit_eq drop_bit_eq_div [of _ "unat v"] take_bit_eq_mod)

lemma le_value_u16: "le_value (u16_le v) = unat v"
proof -
  have "unat v < 65536" using unsigned_less [of v, where ?'a = nat] by simp
  then show ?thesis
    using byte_of [of 0 v] byte_of [of 8 v] by (simp add: u16_le_def)
qed

lemma le_value_u32: "le_value (u32_le v) = unat v"
proof -
  have "unat v < 4294967296" using unsigned_less [of v, where ?'a = nat] by simp
  then have top: "unat v div 16777216 mod 256 = unat v div 16777216" by simp
  have "unat v div 65536 = unat v div 256 div 256" "unat v div 16777216 = unat v div 256 div 256 div 256"
    by (simp_all flip: div_mult2_eq)
  with top show ?thesis
    using byte_of [of 0 v] byte_of [of 8 v] byte_of [of 16 v] byte_of [of 24 v]
    by (simp add: u32_le_def)
qed

text \<open>
  The header says what it was built from: for every channel count and sample rate other than zero and every
  data length, a reader of the 44-byte layout accepts the header and gets back exactly the channel count, the
  sample rate and the data length.
\<close>

theorem wav_header_round_trip:
  assumes "ch \<noteq> 0" and "rate \<noteq> 0"
  shows "\<exists>h. wav_header ch rate data_len = Inr h \<and>
    read_wav_header h = Some (unat ch, unat rate, unat data_len)"
proof -
  obtain a b c where
    h: "wav_header ch rate data_len = Inr (tag_riff @ u32_le a @ tag_wave @ tag_fmt @ u32_le 16 @ u16_le 1 @
      u16_le ch @ u32_le rate @ u32_le b @ u16_le c @ u16_le 16 @ tag_data @ u32_le data_len)"
    using wav_layout [OF assms] by blast
  show ?thesis
    unfolding h by (simp add: read_wav_header_def tags field_at_def le_value_u16 le_value_u32)
qed

theorem wav_header_round_trip_witness:
  "\<exists>h. wav_header 2 44100 (- 1 div 2) = Inr h \<and> read_wav_header h = Some (2, 44100, 2147483647)"
  using wav_header_round_trip [of 2 44100 "- 1 div 2"] by simp

end
