(* ===== verification/Volume_Map.thy ===== *)
theory Volume_Map
  imports Audio Cast_Payload
begin

text \<open>
  The volume scales (\<open>src/airplay/mod.rs\<close>): AirPlay decibels to the Cast level and back, with the rounding of
  single-precision subtraction, division and fused multiply-add written out. \<open>f32_scaled\<close> values are
  multiples of \<open>2 ^ - 149\<close>, so a rounded quotient is a natural number of those.
\<close>

section \<open>Rounded arithmetic\<close>

text \<open>\<open>num / den\<close> rounded to 24 significant bits, ties to even (the quotient is in units of \<open>2 ^ - 149\<close>).\<close>

definition f32_round_ratio :: "nat \<Rightarrow> nat \<Rightarrow> nat" where
  "f32_round_ratio num den =
     (let sh = bit_len (num div den) - 24;
          unit = den * 2 ^ sh;
          q = num div unit;
          r = num mod unit
      in (if 2 * r > unit \<or> (2 * r = unit \<and> odd q) then q + 1 else q) * 2 ^ sh)"

definition f32_infinity :: "bool \<Rightarrow> f32" where
  "f32_infinity neg = (if neg then F32 0xFF800000 else F32 0x7F800000)"

definition f32_encode :: "bool \<Rightarrow> nat \<Rightarrow> f32" where
  "f32_encode neg m =
     (if 2 ^ 277 \<le> m then f32_infinity neg
      else
        let e = bit_len m - 23;
            frac = (if e = 0 then m else m div 2 ^ (e - 1) - 2 ^ 23)
        in F32 (of_nat ((if neg then 2 ^ 31 else 0) + e * 2 ^ 23 + frac)))"

text \<open>
  \<open>x - y\<close>, \<open>x / y\<close> and \<open>x.mul_add(y, z)\<close> for a finite \<open>y\<close> (and \<open>z\<close>) that is not zero, which is all the
  program needs: these operands are constants. \<open>x\<close> is not NaN; an infinite one stays what it is.
\<close>

definition f32_sub :: "f32 \<Rightarrow> f32 \<Rightarrow> f32" where
  "f32_sub x y =
     (if f32_is_infinite x then x
      else let d = f32_scaled x - f32_scaled y in f32_encode (d < 0) (f32_round_ratio (nat \<bar>d\<bar>) 1))"

definition f32_div :: "f32 \<Rightarrow> f32 \<Rightarrow> f32" where
  "f32_div x y =
     (let neg = (f32_negative x \<noteq> f32_negative y) in
      if f32_is_infinite x then f32_infinity neg
      else f32_encode neg (f32_round_ratio (f32_scaled_abs x * 2 ^ 149) (f32_scaled_abs y)))"

definition f32_mul_add :: "f32 \<Rightarrow> f32 \<Rightarrow> f32 \<Rightarrow> f32" where
  "f32_mul_add x y z =
     (let d = f32_scaled x * f32_scaled y + f32_scaled z * 2 ^ 149
      in f32_encode (d < 0) (f32_round_ratio (nat \<bar>d\<bar>) (2 ^ 149)))"

section \<open>The scales\<close>

definition AIRPLAY_VOLUME_DB_MIN :: f32 where
  "AIRPLAY_VOLUME_DB_MIN = F32 0xC3100000"

definition AIRPLAY_VOLUME_DB_FLOOR :: f32 where
  "AIRPLAY_VOLUME_DB_FLOOR = F32 0xC1F00000"

definition airplay_db_span :: f32 where
  "airplay_db_span = F32 0x41F00000"

definition airplay_db_to_cast_linear :: "f32 \<Rightarrow> f32" where
  "airplay_db_to_cast_linear volume_db =
     (if f32_is_nan volume_db \<or> \<not> f32_less AIRPLAY_VOLUME_DB_FLOOR volume_db then f32_zero
      else volume_level_clamped (f32_div (f32_sub volume_db AIRPLAY_VOLUME_DB_FLOOR) airplay_db_span))"

definition cast_linear_to_airplay_db :: "f32 \<Rightarrow> f32" where
  "cast_linear_to_airplay_db level =
     (if f32_is_nan level \<or> f32_is_infinite level \<or> \<not> f32_less f32_zero level then AIRPLAY_VOLUME_DB_MIN
      else f32_mul_add (if f32_less f32_one level then f32_one else level) airplay_db_span AIRPLAY_VOLUME_DB_FLOOR)"

section \<open>Rounding: monotone, close, and exactly representable\<close>

lemma bit_len_upper: "n < 2 ^ bit_len n"
proof (induction n rule: bit_len.induct)
  case (1 n)
  show ?case
  proof (cases "n = 0")
    case False
    then have "n div 2 < 2 ^ bit_len (n div 2)" by (rule "1.IH")
    then have "n < 2 * 2 ^ bit_len (n div 2)" by linarith
    with False show ?thesis by (subst bit_len.simps) simp
  qed simp
qed

lemma bit_len_lower: "0 < n \<Longrightarrow> 2 ^ (bit_len n - 1) \<le> n"
  using bit_len_le [of n "bit_len n - 1"] by (cases "bit_len n") (auto simp: bit_len.simps not_less [symmetric])

lemma bit_len_mono: "m \<le> n \<Longrightarrow> bit_len m \<le> bit_len n"
  using bit_len_le bit_len_upper by (meson le_less_trans)

lemma bit_len_pos: "0 < n \<Longrightarrow> 0 < bit_len n"
  by (subst bit_len.simps) simp

text \<open>One statement of what rounding with a given shift yields, used by every fact below.\<close>

lemma round_ratio_cases:
  assumes "0 < den" and "sh = bit_len (num div den) - 24"
  obtains q r c where "num = q * (den * 2 ^ sh) + r" "r < den * 2 ^ sh" "c = 0 \<or> c = (1::nat)"
    "f32_round_ratio num den = (q + c) * 2 ^ sh" "q < 2 ^ 24"
    "c = 0 \<Longrightarrow> 2 * r \<le> den * 2 ^ sh" "c = 1 \<Longrightarrow> den * 2 ^ sh \<le> 2 * r"
    "c = 1 \<longleftrightarrow> 2 * r > den * 2 ^ sh \<or> (2 * r = den * 2 ^ sh \<and> odd q)"
    "24 < bit_len (num div den) \<Longrightarrow> 2 ^ 23 \<le> q"
proof -
  define u where "u = den * 2 ^ sh"
  define q where "q = num div u"
  define r where "r = num mod u"
  define c where "c = (if 2 * r > u \<or> (2 * r = u \<and> odd q) then 1 else 0 :: nat)"
  have u: "0 < u" using assms(1) by (simp add: u_def)
  have q: "q = num div den div 2 ^ sh" by (simp add: q_def u_def div_mult2_eq)
  have L: "bit_len (num div den) \<le> 24 + sh" using assms(2) by simp
  have "num div den < 2 ^ (24 + sh)"
    using bit_len_upper [of "num div den"] L by (meson le_less_trans less_le_trans one_le_numeral power_increasing le_refl)
  then have "q < 2 ^ 24" unfolding q by (simp add: power_add div_less_iff_less_mult)
  moreover have "2 ^ 23 \<le> q" if "24 < bit_len (num div den)"
  proof -
    have "0 < num div den" using that by (cases "num div den") (auto simp: bit_len.simps)
    from bit_len_lower [OF this] have "2 ^ (23 + sh) \<le> num div den" using that assms(2) by simp
    then show ?thesis unfolding q by (simp add: power_add less_eq_div_iff_mult_less_eq)
  qed
  moreover have "f32_round_ratio num den = (q + c) * 2 ^ sh"
    unfolding f32_round_ratio_def Let_def assms(2) [symmetric] u_def [symmetric] q_def [symmetric] r_def [symmetric]
    by (simp add: c_def)
  moreover have "num = q * u + r" by (simp add: q_def r_def)
  moreover have "r < u" using u by (simp add: r_def)
  ultimately show ?thesis by (intro that [of q r c]) (auto simp: c_def u_def split: if_splits)
qed

lemma round_ratio_near:
  assumes "0 < den" and "sh = bit_len (num div den) - 24"
  shows "2 * \<bar>int (f32_round_ratio num den) * int den - int num\<bar> \<le> int den * 2 ^ sh"
proof -
  obtain q r c where *: "num = q * (den * 2 ^ sh) + r" "r < den * 2 ^ sh" "c = 0 \<or> c = (1::nat)"
    "f32_round_ratio num den = (q + c) * 2 ^ sh" "c = 0 \<Longrightarrow> 2 * r \<le> den * 2 ^ sh"
    "c = 1 \<Longrightarrow> den * 2 ^ sh \<le> 2 * r"
    using round_ratio_cases [OF assms] by metis
  define u where "u = int den * 2 ^ sh"
  have u: "int (den * 2 ^ sh) = u" by (simp add: u_def)
  have "int (f32_round_ratio num den) * int den = (int q + int c) * u"
    unfolding *(4) u_def by simp
  moreover have "int num = int q * u + int r" unfolding u [symmetric] by (subst *(1)) simp
  ultimately have eq: "int (f32_round_ratio num den) * int den - int num = int c * u - int r"
    by (simp add: algebra_simps)
  have r: "int r < u" using *(2) unfolding u [symmetric] by linarith
  have down: "c = 0 \<Longrightarrow> 2 * int r \<le> u" using *(5) unfolding u [symmetric] by linarith
  have up: "c = 1 \<Longrightarrow> u \<le> 2 * int r" using *(6) unfolding u [symmetric] by linarith
  have "2 * \<bar>int c * u - int r\<bar> \<le> u" using *(3) r down up by auto
  then show ?thesis unfolding u_def [symmetric] eq .
qed

lemma round_ratio_mono:
  assumes "0 < den" and "num \<le> num'"
  shows "f32_round_ratio num den \<le> f32_round_ratio num' den"
proof -
  define sh where "sh = bit_len (num div den) - 24"
  define sh' where "sh' = bit_len (num' div den) - 24"
  have le: "num div den \<le> num' div den" using assms(2) by (rule div_le_mono)
  have sh: "sh \<le> sh'" unfolding sh_def sh'_def using bit_len_mono [OF le] by simp
  obtain q r c where *: "num = q * (den * 2 ^ sh) + r" "r < den * 2 ^ sh" "c = 0 \<or> c = (1::nat)"
    "f32_round_ratio num den = (q + c) * 2 ^ sh" "q < 2 ^ 24"
    "c = 1 \<longleftrightarrow> 2 * r > den * 2 ^ sh \<or> (2 * r = den * 2 ^ sh \<and> odd q)"
    using round_ratio_cases [OF assms(1) sh_def] by metis
  obtain q' r' c' where **: "num' = q' * (den * 2 ^ sh') + r'" "r' < den * 2 ^ sh'" "c' = 0 \<or> c' = (1::nat)"
    "f32_round_ratio num' den = (q' + c') * 2 ^ sh'"
    "c' = 1 \<longleftrightarrow> 2 * r' > den * 2 ^ sh' \<or> (2 * r' = den * 2 ^ sh' \<and> odd q')"
    "24 < bit_len (num' div den) \<Longrightarrow> 2 ^ 23 \<le> q'"
    using round_ratio_cases [OF assms(1) sh'_def] by metis
  show ?thesis
  proof (cases "sh = sh'")
    case True
    define u where "u = den * 2 ^ sh"
    have u: "num = q * u + r" "r < u" "num' = q' * u + r'" "r' < u"
      using *(1,2) **(1,2) unfolding True [symmetric] u_def by simp_all
    have q: "q = num div u" unfolding u(1) using u(2) by simp
    have q': "q' = num' div u" unfolding u(3) using u(4) by simp
    have "q \<le> q'" unfolding q q' using assms(2) by (rule div_le_mono)
    have "q + c \<le> q' + c'"
    proof (cases "q = q'")
      case True
      then have "r \<le> r'" using assms(2) *(1) **(1) \<open>sh = sh'\<close> by simp
      then show ?thesis using *(3,6) **(3,5) True \<open>sh = sh'\<close> by auto
    next
      case False
      then show ?thesis using \<open>q \<le> q'\<close> *(3) by auto
    qed
    then show ?thesis unfolding *(4) **(4) True by (rule mult_le_mono1)
  next
    case False
    with sh have lt: "Suc sh \<le> sh'" by simp
    have "(q + c) * 2 ^ sh \<le> 2 ^ 24 * 2 ^ sh" using *(3,5) by (intro mult_le_mono1) auto
    also have "\<dots> = 2 ^ 23 * 2 ^ Suc sh" by simp
    also have "\<dots> \<le> 2 ^ 23 * 2 ^ sh'" using lt by (intro mult_le_mono2 power_increasing) simp_all
    also have "\<dots> \<le> (q' + c') * 2 ^ sh'"
    proof (rule mult_le_mono1)
      have "24 < bit_len (num' div den)" using lt unfolding sh'_def by linarith
      then show "2 ^ 23 \<le> q' + c'" using **(6) by linarith
    qed
    finally show ?thesis unfolding *(4) **(4) .
  qed
qed

text \<open>A rounded value survives the trip through the bits of a float.\<close>

definition f32_fits :: "nat \<Rightarrow> bool" where
  "f32_fits m \<longleftrightarrow> m < 2 ^ 277 \<and> 2 ^ (bit_len m - 24) dvd m"

lemma fits_shifted: "q \<le> 2 ^ 24 \<Longrightarrow> q * 2 ^ k < 2 ^ 277 \<Longrightarrow> f32_fits (q * 2 ^ k)"
proof -
  assume q: "q \<le> 2 ^ 24" and m: "q * 2 ^ k < 2 ^ 277"
  have "2 ^ (bit_len (q * 2 ^ k) - 24) dvd q * 2 ^ k"
  proof (cases "q = 2 ^ 24")
    case True
    have "q * 2 ^ k < 2 ^ (25 + k)" unfolding True by (simp add: power_add)
    then have "bit_len (q * 2 ^ k) - 24 \<le> 24 + k" using bit_len_le [of "q * 2 ^ k" "25 + k"] by linarith
    then have "(2::nat) ^ (bit_len (q * 2 ^ k) - 24) dvd 2 ^ (24 + k)" by (rule le_imp_power_dvd)
    then show ?thesis unfolding True by (simp add: power_add)
  next
    case False
    then have "q * 2 ^ k < 2 ^ (24 + k)" using q by (simp add: power_add)
    then have "bit_len (q * 2 ^ k) - 24 \<le> k" using bit_len_le [of "q * 2 ^ k" "24 + k"] by linarith
    then show ?thesis by (simp add: le_imp_power_dvd dvd_mult)
  qed
  with m show ?thesis by (simp add: f32_fits_def)
qed

lemma round_ratio_fits:
  "0 < den \<Longrightarrow> f32_round_ratio num den < 2 ^ 277 \<Longrightarrow> f32_fits (f32_round_ratio num den)"
  using round_ratio_cases [OF _ refl, of den num] fits_shifted
  by (metis Suc_eq_plus1 Suc_leI add.right_neutral less_imp_le_nat)

lemma f32_bits_parts:
  assumes "e < 256" and "frac < 2 ^ 23" and "x = F32 (of_nat ((if neg then 2 ^ 31 else 0) + e * 2 ^ 23 + frac))"
  shows "f32_negative x = neg" "f32_exponent x = e" "f32_fraction x = frac"
proof -
  define mag where "mag = e * 2 ^ 23 + frac"
  have "e * 2 ^ 23 \<le> 255 * 2 ^ 23" using assms(1) by simp
  then have mag: "mag < 2 ^ 31" unfolding mag_def using assms(2) by simp
  have "(if neg then 2 ^ 31 else 0) + mag < 2 ^ 32" using mag by simp
  then have bits: "f32_bits x = (if neg then 2 ^ 31 else 0) + mag"
    unfolding assms(3) add.assoc mag_def [symmetric] f32_bits.simps unat_of_nat by simp
  then show "f32_negative x = neg" using mag by (simp add: f32_negative_def)
  have m: "f32_magnitude x = mag" unfolding f32_magnitude_def bits using mag by simp
  show "f32_exponent x = e" unfolding f32_exponent_def m mag_def using assms(2) by simp
  show "f32_fraction x = frac" unfolding f32_fraction_def m mag_def using assms(2) by simp
qed

lemma encode_value:
  assumes "f32_fits m"
  shows "f32_scaled (f32_encode neg m) = (if neg then - int m else int m)"
    and "\<not> f32_is_nan (f32_encode neg m)" and "\<not> f32_is_infinite (f32_encode neg m)"
    and "f32_scaled_abs (f32_encode neg m) = m" and "f32_negative (f32_encode neg m) = neg"
proof -
  define e where "e = bit_len m - 23"
  define frac where "frac = (if e = 0 then m else m div 2 ^ (e - 1) - 2 ^ 23)"
  have m: "m < 2 ^ 277" "2 ^ (e - 1) dvd m" using assms by (simp_all add: f32_fits_def e_def)
  have enc: "f32_encode neg m = F32 (of_nat ((if neg then 2 ^ 31 else 0) + e * 2 ^ 23 + frac))"
    using m(1) by (simp add: f32_encode_def Let_def e_def frac_def)
  have e: "e < 255" using bit_len_le [OF m(1)] by (simp add: e_def)
  have small: "m < 2 ^ 23" if "e = 0"
  proof -
    have "bit_len m \<le> 23" using that by (simp add: e_def)
    then have "(2::nat) ^ bit_len m \<le> 2 ^ 23" by (rule power_increasing) simp
    then show ?thesis using bit_len_upper [of m] by linarith
  qed
  have big: "2 ^ 23 \<le> m div 2 ^ (e - 1) \<and> m div 2 ^ (e - 1) < 2 ^ 24" if "e \<noteq> 0"
  proof -
    have L: "bit_len m = 23 + e" using that by (simp add: e_def)
    then have "0 < m" by (cases m) (auto simp: bit_len.simps)
    from bit_len_lower [OF this] have "2 ^ (23 + (e - 1)) \<le> m" using L that by simp
    moreover have "m < 2 ^ (24 + (e - 1))" using bit_len_upper [of m] L that by simp
    ultimately show ?thesis by (simp add: power_add less_eq_div_iff_mult_less_eq div_less_iff_less_mult)
  qed
  have frac: "frac < 2 ^ 23"
  proof (cases "e = 0")
    case True
    then show ?thesis using small by (simp add: frac_def)
  next
    case False
    then have "frac = m div 2 ^ (e - 1) - 2 ^ 23" by (simp add: frac_def)
    then show ?thesis using big [OF False] by (simp add: less_diff_conv2)
  qed
  note parts = f32_bits_parts [OF _ frac enc]
  have e256: "e < 256" using e by simp
  note neg = parts(1) [OF e256] and ex = parts(2) [OF e256] and fr = parts(3) [OF e256]
  have abs_val: "f32_scaled_abs (f32_encode neg m) = m"
  proof (cases "e = 0")
    case True
    then show ?thesis by (simp add: f32_scaled_abs_def ex fr frac_def)
  next
    case False
    then have "2 ^ 23 + frac = m div 2 ^ (e - 1)" using big [OF False] by (simp add: frac_def)
    then show ?thesis using False m(2) by (simp add: f32_scaled_abs_def ex fr)
  qed
  then show "f32_scaled_abs (f32_encode neg m) = m" .
  show "f32_scaled (f32_encode neg m) = (if neg then - int m else int m)"
    unfolding f32_scaled_def neg abs_val by (rule refl)
  show "\<not> f32_is_nan (f32_encode neg m)" "\<not> f32_is_infinite (f32_encode neg m)"
    using e by (simp_all add: f32_is_nan_def f32_is_infinite_def ex)
  show "f32_negative (f32_encode neg m) = neg" by (rule neg)
qed

lemma round_ratio_exact:
  assumes "0 < den" and "f32_fits m"
  shows "f32_round_ratio (m * den) den = m"
proof -
  define sh where "sh = bit_len m - 24"
  have dvd: "2 ^ sh dvd m" using assms(2) by (simp add: f32_fits_def sh_def)
  then have eq: "m * den = (m div 2 ^ sh) * (den * 2 ^ sh)" by (simp add: mult.commute mult.assoc)
  have unit: "0 < den * 2 ^ sh" using assms(1) by simp
  have div: "m * den div (den * 2 ^ sh) = m div 2 ^ sh" unfolding eq using unit by simp
  have mod: "m * den mod (den * 2 ^ sh) = 0" unfolding eq by simp
  have m: "m * den div den = m" using assms(1) by simp
  show ?thesis
    unfolding f32_round_ratio_def m sh_def [symmetric] Let_def div mod using dvd unit by simp
qed

lemma round_ratio_ge: "0 < den \<Longrightarrow> f32_fits m \<Longrightarrow> m * den \<le> num \<Longrightarrow> m \<le> f32_round_ratio num den"
  using round_ratio_mono [of den "m * den" num] round_ratio_exact by simp

lemma round_ratio_le: "0 < den \<Longrightarrow> f32_fits m \<Longrightarrow> num \<le> m * den \<Longrightarrow> f32_round_ratio num den \<le> m"
  using round_ratio_mono [of den num "m * den"] round_ratio_exact by simp

lemma fits_power: "k < 277 \<Longrightarrow> f32_fits (2 ^ k)"
proof -
  assume "k < 277"
  then have "(1::nat) * 2 ^ k < 2 ^ 277" unfolding mult_1 by (rule power_strict_increasing) simp
  then have "f32_fits (1 * 2 ^ k)" by (intro fits_shifted) simp_all
  then show ?thesis by simp
qed

lemma fits_span: "f32_fits (30 * 2 ^ 149)"
  by (rule fits_shifted) simp_all

lemma span_value [simp]:
  "f32_scaled_abs airplay_db_span = 30 * 2 ^ 149" "f32_scaled airplay_db_span = 30 * 2 ^ 149"
  "f32_negative airplay_db_span = False"
  by (simp_all add: airplay_db_span_def f32_scaled_def f32_scaled_abs_def f32_exponent_def f32_fraction_def
      f32_magnitude_def f32_negative_def)

lemma floor_value [simp]:
  "f32_scaled AIRPLAY_VOLUME_DB_FLOOR = - (30 * 2 ^ 149)" "\<not> f32_is_nan AIRPLAY_VOLUME_DB_FLOOR"
  by (simp_all add: AIRPLAY_VOLUME_DB_FLOOR_def f32_scaled_def f32_scaled_abs_def f32_exponent_def f32_fraction_def
      f32_magnitude_def f32_negative_def f32_is_nan_def)

lemma infinity_value:
  "f32_is_infinite (f32_infinity neg)" "\<not> f32_is_nan (f32_infinity neg)"
  "f32_scaled (f32_infinity False) = 2 ^ 277" "f32_negative (f32_infinity neg) = neg"
  by (simp_all add: f32_infinity_def f32_is_infinite_def f32_is_nan_def f32_scaled_def f32_scaled_abs_def
      f32_exponent_def f32_fraction_def f32_magnitude_def f32_negative_def)

lemma infinite_scaled:
  assumes "f32_is_infinite x"
  shows "f32_scaled x = (if f32_negative x then - (2 ^ 277) else 2 ^ 277)"
  using assms by (simp add: f32_is_infinite_def f32_scaled_def f32_scaled_abs_def)

section \<open>The level of a decibel value\<close>

definition level_units :: "nat \<Rightarrow> nat" where
  "level_units d = min (2 ^ 149) (f32_round_ratio (f32_round_ratio d 1 * 2 ^ 149) (30 * 2 ^ 149))"

lemma level_units_mono: "d \<le> d' \<Longrightarrow> level_units d \<le> level_units d'"
  unfolding level_units_def by (intro min.mono order_refl round_ratio_mono mult_le_mono1) simp_all

lemma level_units_zero: "level_units 0 = 0"
  by (simp add: level_units_def f32_round_ratio_def bit_len.simps)

lemma level_units_large:
  assumes "2 ^ 276 \<le> d"
  shows "level_units d = 2 ^ 149"
proof -
  have "2 ^ 276 \<le> f32_round_ratio d 1" using assms by (intro round_ratio_ge fits_power) simp_all
  then have "2 ^ 276 * 2 ^ 149 \<le> f32_round_ratio d 1 * 2 ^ 149" by (rule mult_le_mono1)
  then have "2 ^ 149 * (30 * 2 ^ 149) \<le> f32_round_ratio d 1 * 2 ^ 149" by (rule le_trans [rotated]) simp
  then have "2 ^ 149 \<le> f32_round_ratio (f32_round_ratio d 1 * 2 ^ 149) (30 * 2 ^ 149)"
    by (intro round_ratio_ge fits_power) simp_all
  then show ?thesis unfolding level_units_def by (rule min_absorb1)
qed

lemma clamp_infinity: "f32_scaled (volume_level_clamped (f32_infinity False)) = 2 ^ 149"
proof -
  have "\<not> f32_less (f32_infinity False) f32_zero" "f32_less f32_one (f32_infinity False)"
    by (simp_all add: f32_less_def infinity_value)
  then show ?thesis by (simp add: volume_level_clamped_def)
qed

lemma clamp_encode:
  assumes "f32_fits t"
  shows "f32_scaled (volume_level_clamped (f32_encode False t)) = int (min (2 ^ 149) t)"
    and "\<not> f32_is_nan (volume_level_clamped (f32_encode False t))"
  using encode_value [OF assms, of False]
  by (auto simp: volume_level_clamped_def f32_less_def min_def)

lemma level_value:
  assumes "\<not> f32_is_nan v"
  shows "f32_scaled (airplay_db_to_cast_linear v) = int (level_units (nat (f32_scaled v + 30 * 2 ^ 149)))"
    and "\<not> f32_is_nan (airplay_db_to_cast_linear v)"
proof -
  define d where "d = f32_scaled v + 30 * 2 ^ 149"
  have "f32_scaled (airplay_db_to_cast_linear v) = int (level_units (nat d)) \<and>
      \<not> f32_is_nan (airplay_db_to_cast_linear v)"
  proof (cases "f32_less AIRPLAY_VOLUME_DB_FLOOR v")
    case False
    then have "nat d = 0" using assms by (simp add: f32_less_def d_def)
    with False show ?thesis by (simp add: airplay_db_to_cast_linear_def level_units_zero)
  next
    case True
    then have d: "0 < d" by (simp add: f32_less_def d_def)
    have lin: "airplay_db_to_cast_linear v =
        volume_level_clamped (f32_div (f32_sub v AIRPLAY_VOLUME_DB_FLOOR) airplay_db_span)"
      using True assms by (simp add: airplay_db_to_cast_linear_def)
    have inf: ?thesis if "f32_sub v AIRPLAY_VOLUME_DB_FLOOR = w" "f32_is_infinite w" "\<not> f32_negative w"
      "2 ^ 276 \<le> nat d" for w
    proof -
      have "f32_div w airplay_db_span = f32_infinity False" using that by (simp add: f32_div_def)
      then show ?thesis
        unfolding lin that(1) using clamp_infinity level_units_large [OF that(4)]
        by (auto simp: volume_level_clamped_def infinity_value)
    qed
    show ?thesis
    proof (cases "f32_is_infinite v")
      case True
      then have "f32_scaled v = 2 ^ 277" "\<not> f32_negative v"
        using d infinite_scaled [OF True] by (auto simp: d_def split: if_splits)
      then show ?thesis using True by (intro inf [of v]) (simp_all add: f32_sub_def d_def)
    next
      case False
      define s where "s = f32_round_ratio (nat d) 1"
      have sub: "f32_sub v AIRPLAY_VOLUME_DB_FLOOR = f32_encode False s"
        using False d by (simp add: f32_sub_def Let_def s_def d_def)
      show ?thesis
      proof (cases "2 ^ 277 \<le> s")
        case True
        have "2 ^ 276 \<le> nat d"
        proof (rule ccontr)
          assume "\<not> 2 ^ 276 \<le> nat d"
          then have "s \<le> 2 ^ 276" unfolding s_def by (intro round_ratio_le fits_power) simp_all
          then show False using True by simp
        qed
        then show ?thesis
          using True by (intro inf [OF sub]) (simp_all add: f32_encode_def infinity_value)
      next
        case False
        then have s: "f32_fits s" unfolding s_def by (intro round_ratio_fits) simp_all
        define t where "t = f32_round_ratio (s * 2 ^ 149) (30 * 2 ^ 149)"
        have "t \<le> s" unfolding t_def using s by (intro round_ratio_le) simp_all
        then have "t < 2 ^ 277" using False by linarith
        then have t: "f32_fits t" unfolding t_def by (intro round_ratio_fits) simp_all
        have "f32_div (f32_encode False s) airplay_db_span = f32_encode False t"
          using encode_value [OF s, of False] by (simp add: f32_div_def Let_def t_def)
        then show ?thesis
          unfolding lin sub using clamp_encode [OF t] by (simp add: level_units_def s_def t_def)
      qed
    qed
  qed
  then show "f32_scaled (airplay_db_to_cast_linear v) = int (level_units (nat (f32_scaled v + 30 * 2 ^ 149)))"
    and "\<not> f32_is_nan (airplay_db_to_cast_linear v)" unfolding d_def by blast+
qed

text \<open>
  volume_level_monotone. The Cast level of an AirPlay volume is a number from 0 to 1 (0 for NaN and for -30 dB and
  below, 1 for 0 dB and above), and a louder AirPlay volume never gives a lower level, although the difference and
  the quotient are rounded.
\<close>

theorem volume_level_monotone:
  assumes "\<not> f32_is_nan a" and "\<not> f32_is_nan b" and "f32_scaled a \<le> f32_scaled b"
  shows "f32_scaled (airplay_db_to_cast_linear a) \<le> f32_scaled (airplay_db_to_cast_linear b) \<and>
    0 \<le> f32_scaled (airplay_db_to_cast_linear a) \<and>
    f32_scaled (airplay_db_to_cast_linear b) \<le> f32_scaled f32_one \<and>
    \<not> f32_is_nan (airplay_db_to_cast_linear a) \<and>
    (f32_scaled a \<le> f32_scaled AIRPLAY_VOLUME_DB_FLOOR \<longrightarrow> airplay_db_to_cast_linear a = f32_zero) \<and>
    (0 \<le> f32_scaled b \<longrightarrow> f32_scaled (airplay_db_to_cast_linear b) = f32_scaled f32_one)"
proof -
  have le: "level_units (nat (f32_scaled a + 30 * 2 ^ 149)) \<le> level_units (nat (f32_scaled b + 30 * 2 ^ 149))"
    by (intro level_units_mono nat_mono) (use assms(3) in simp)
  have top: "level_units (nat (f32_scaled b + 30 * 2 ^ 149)) \<le> 2 ^ 149" by (simp add: level_units_def)
  have quiet: "airplay_db_to_cast_linear a = f32_zero" if "f32_scaled a \<le> f32_scaled AIRPLAY_VOLUME_DB_FLOOR"
    using that by (simp add: airplay_db_to_cast_linear_def f32_less_def)
  have loud: "f32_scaled (airplay_db_to_cast_linear b) = f32_scaled f32_one" if "0 \<le> f32_scaled b"
  proof -
    have "level_units (30 * 2 ^ 149) = 2 ^ 149"
    proof -
      have "f32_round_ratio (30 * 2 ^ 149) 1 = 30 * 2 ^ 149"
        using round_ratio_exact [OF _ fits_span, of 1] by simp
      moreover have "f32_round_ratio (2 ^ 149 * (30 * 2 ^ 149)) (30 * 2 ^ 149) = 2 ^ 149"
        by (intro round_ratio_exact fits_power) simp_all
      ultimately show ?thesis by (simp add: level_units_def mult.commute)
    qed
    moreover have "level_units (30 * 2 ^ 149) \<le> level_units (nat (f32_scaled b + 30 * 2 ^ 149))"
      by (intro level_units_mono) (use that in simp)
    ultimately have "level_units (nat (f32_scaled b + 30 * 2 ^ 149)) = 2 ^ 149" using top by linarith
    then show ?thesis using level_value(1) [OF assms(2)] by simp
  qed
  show ?thesis
    using le top level_value [OF assms(1)] level_value [OF assms(2)] quiet loud by (auto simp: min_def)
qed

section \<open>There and back\<close>

lemma round_ratio_close:
  assumes "0 < den" and "num div den < 2 ^ k" and "24 \<le> k"
  shows "2 * \<bar>int (f32_round_ratio num den) * int den - int num\<bar> \<le> int den * 2 ^ (k - 24)"
proof -
  have "bit_len (num div den) - 24 \<le> k - 24" using bit_len_le [OF assms(2)] by simp
  then have "(2::int) ^ (bit_len (num div den) - 24) \<le> 2 ^ (k - 24)" by (rule power_increasing) simp
  then have "int den * 2 ^ (bit_len (num div den) - 24) \<le> int den * 2 ^ (k - 24)"
    by (rule mult_left_mono) simp
  then show ?thesis using round_ratio_near [OF assms(1) refl] by (rule order_trans [rotated])
qed

lemma abs_scale: "(0::int) \<le> c \<Longrightarrow> \<bar>x * c - y * c\<bar> = \<bar>x - y\<bar> * c"
  by (metis abs_mult abs_of_nonneg left_diff_distrib)

lemma decibels_value:
  assumes "\<not> f32_is_nan l" and "0 < f32_scaled l" and "f32_scaled l \<le> 2 ^ 149"
  shows "\<exists>a. f32_scaled (cast_linear_to_airplay_db l) = - int a \<and> a \<le> 30 * 2 ^ 149 \<and>
    \<not> f32_is_nan (cast_linear_to_airplay_db l) \<and>
    \<bar>int a - (30 * 2 ^ 149 - 30 * f32_scaled l)\<bar> \<le> 2 ^ 129"
proof -
  define n where "n = f32_scaled l"
  define A where "A = nat (30 * 2 ^ 149 - 30 * n)"
  have A: "int A = 30 * 2 ^ 149 - 30 * n" using assms(3) by (simp add: A_def n_def)
  define a where "a = f32_round_ratio (A * 2 ^ 149) (2 ^ 149)"
  have A_le: "A \<le> 30 * 2 ^ 149" unfolding A_def using assms(2) by (simp add: n_def nat_le_iff)
  have a_le: "a \<le> 30 * 2 ^ 149"
    unfolding a_def using A_le by (intro round_ratio_le fits_span mult_le_mono1) simp_all
  have fits: "f32_fits a" unfolding a_def by (intro round_ratio_fits) (use a_le a_def in simp_all)
  have "\<not> f32_is_infinite l" using assms(3) infinite_scaled [of l] assms(2) by (auto split: if_splits)
  moreover have "f32_less f32_zero l" "\<not> f32_less f32_one l" using assms by (simp_all add: f32_less_def)
  ultimately have db: "cast_linear_to_airplay_db l = f32_mul_add l airplay_db_span AIRPLAY_VOLUME_DB_FLOOR"
    using assms(1) by (simp add: cast_linear_to_airplay_db_def)
  define d where "d = n * (30 * 2 ^ 149) + - (30 * 2 ^ 149) * 2 ^ 149"
  have d: "d = - (int A * 2 ^ 149)" unfolding A d_def by (simp add: algebra_simps)
  have nat_d: "nat \<bar>d\<bar> = A * 2 ^ 149" unfolding d by (simp add: nat_mult_distrib)
  have db2: "cast_linear_to_airplay_db l = f32_encode (d < 0) a"
    unfolding db f32_mul_add_def Let_def span_value floor_value n_def [symmetric] d_def [symmetric] nat_d a_def
    by (rule refl)
  have zero: "a = 0" if "\<not> d < 0"
  proof -
    have "A = 0" using that d by (simp add: not_less)
    then show ?thesis by (simp add: a_def f32_round_ratio_def)
  qed
  have "f32_scaled (cast_linear_to_airplay_db l) = - int a"
    unfolding db2 encode_value(1) [OF fits] using zero by auto
  moreover have "\<not> f32_is_nan (cast_linear_to_airplay_db l)" unfolding db2 by (rule encode_value(2) [OF fits])
  moreover have "\<bar>int a - int A\<bar> \<le> 2 ^ 129"
  proof -
    have "A * 2 ^ 149 div 2 ^ 149 < 2 ^ 154" using A_le by simp
    from round_ratio_close [OF _ this]
    have "2 * \<bar>int a * 2 ^ 149 - int A * 2 ^ 149\<bar> \<le> 2 ^ 149 * 2 ^ 130" by (simp add: a_def)
    moreover have "\<bar>int a * 2 ^ 149 - int A * 2 ^ 149\<bar> = \<bar>int a - int A\<bar> * 2 ^ 149"
      by (rule abs_scale) simp
    ultimately show ?thesis by simp
  qed
  ultimately show ?thesis using a_le A unfolding n_def by metis
qed

text \<open>
  volume_round_trip. A Cast level in (0, 1] told to the sender in decibels comes back within
  2 ^ -22 of itself: the two scales are inverse up to single-precision rounding.
\<close>

theorem volume_round_trip:
  assumes "\<not> f32_is_nan l" and "0 < f32_scaled l" and "f32_scaled l \<le> f32_scaled f32_one"
  shows "\<bar>f32_scaled (airplay_db_to_cast_linear (cast_linear_to_airplay_db l)) - f32_scaled l\<bar> \<le> 2 ^ 127"
proof -
  have one: "f32_scaled l \<le> 2 ^ 149" using assms(3) by simp
  define n where "n = f32_scaled l"
  obtain a where a: "f32_scaled (cast_linear_to_airplay_db l) = - int a" "a \<le> 30 * 2 ^ 149"
      "\<not> f32_is_nan (cast_linear_to_airplay_db l)" "\<bar>int a - (30 * 2 ^ 149 - 30 * n)\<bar> \<le> 2 ^ 129"
    using decibels_value [OF assms(1,2) one] unfolding n_def by blast
  define d where "d = 30 * 2 ^ 149 - a"
  have d: "nat (f32_scaled (cast_linear_to_airplay_db l) + 30 * 2 ^ 149) = d"
    using a(2) unfolding a(1) d_def by (simp add: nat_diff_distrib nat_mult_distrib)
  have int_d: "int d = 30 * 2 ^ 149 - int a" unfolding d_def using a(2) by (simp add: of_nat_diff)
  have d_le: "d \<le> 30 * 2 ^ 149" by (simp add: d_def)
  define s where "s = f32_round_ratio d 1"
  have s_le: "s \<le> 30 * 2 ^ 149" unfolding s_def using d_le by (intro round_ratio_le fits_span) simp_all
  have "d div 1 < 2 ^ 154" using d_le by simp
  from round_ratio_close [OF _ this] have s: "2 * \<bar>int s - int d\<bar> \<le> 2 ^ 130" by (simp add: s_def)
  define t where "t = f32_round_ratio (s * 2 ^ 149) (30 * 2 ^ 149)"
  have "s * 2 ^ 149 div (30 * 2 ^ 149) < 2 ^ 150"
    using s_le by (simp add: div_less_iff_less_mult)
  from round_ratio_close [OF _ this]
  have "2 * \<bar>int t * (30 * 2 ^ 149) - int s * 2 ^ 149\<bar> \<le> 30 * 2 ^ 149 * 2 ^ 126" by (simp add: t_def)
  moreover have "\<bar>int t * (30 * 2 ^ 149) - int s * 2 ^ 149\<bar> = \<bar>30 * int t - int s\<bar> * 2 ^ 149"
    using abs_scale [of "2 ^ 149" "30 * int t" "int s"] by (simp only: mult.left_commute mult.assoc) simp
  ultimately have t: "2 * \<bar>30 * int t - int s\<bar> \<le> 30 * 2 ^ 126" by simp
  have t_le: "t \<le> 2 ^ 149" unfolding t_def using s_le
    by (intro round_ratio_le fits_power) simp_all
  define K :: int where "K = 2 ^ 126"
  have K: "2 ^ 127 = 2 * K" "2 ^ 129 = 8 * K" "2 ^ 130 = 16 * K" "0 \<le> K" by (simp_all add: K_def)
  have bounds: "2 * \<bar>int s - int d\<bar> \<le> 16 * K" "2 * \<bar>30 * int t - int s\<bar> \<le> 30 * K"
      "\<bar>30 * n - int d\<bar> \<le> 8 * K"
    using s t a(4) int_d unfolding K K_def [symmetric] by simp_all
  define x y z where "x = int s - int d" and "y = 30 * int t - int s" and "z = 30 * n - int d"
  have "\<bar>x\<bar> \<le> 8 * K" "\<bar>y\<bar> \<le> 15 * K" "\<bar>z\<bar> \<le> 8 * K"
    using bounds by (simp_all add: x_def y_def z_def)
  moreover have "30 * (int t - n) = x + y - z" by (simp add: x_def y_def z_def)
  ultimately have "30 * (int t - n) \<le> 60 * K" "- (60 * K) \<le> 30 * (int t - n)"
    using K(4) by (simp_all only: abs_le_iff) linarith+
  then have "\<bar>int t - n\<bar> \<le> 2 * K" by simp
  then have "\<bar>int t - n\<bar> \<le> 2 ^ 127" unfolding K .
  moreover have "f32_scaled (airplay_db_to_cast_linear (cast_linear_to_airplay_db l)) = int t"
    unfolding level_value(1) [OF a(3)] d level_units_def s_def [symmetric] t_def [symmetric]
    using t_le by simp
  ultimately show ?thesis by (simp add: n_def)
qed

theorem volume_round_trip_witness:
  "\<bar>f32_scaled (airplay_db_to_cast_linear (cast_linear_to_airplay_db f32_one)) - f32_scaled f32_one\<bar> \<le> 2 ^ 127"
  by (rule volume_round_trip) simp_all

theorem volume_level_monotone_witness:
  "f32_scaled (airplay_db_to_cast_linear f32_zero) \<le> f32_scaled (airplay_db_to_cast_linear f32_one)"
  using volume_level_monotone [OF f32_not_nan_zero_one less_imp_le [OF f32_scaled_one_pos]] by (rule conjunct1)

text \<open>
  The scales are not exactly inverse: a level of \<open>2 ^ - 27\<close> is above 0, but its decibels round to -30, which mutes.
\<close>

lemma bit_len_eq: "2 ^ k \<le> n \<Longrightarrow> n < 2 ^ Suc k \<Longrightarrow> bit_len n = Suc k"
proof -
  assume lo: "2 ^ k \<le> n" and hi: "n < 2 ^ Suc k"
  have "\<not> bit_len n \<le> k"
  proof
    assume "bit_len n \<le> k"
    then have "(2::nat) ^ bit_len n \<le> 2 ^ k" by (rule power_increasing) simp
    then show False using bit_len_upper [of n] lo by linarith
  qed
  with bit_len_le [OF hi] show ?thesis by linarith
qed

lemma tiny_level_mutes:
  "f32_scaled (F32 0x32000000) = 2 ^ 122 \<and>
   airplay_db_to_cast_linear (cast_linear_to_airplay_db (F32 0x32000000)) = f32_zero"
proof
  let ?l = "F32 0x32000000"
  show l: "f32_scaled ?l = 2 ^ 122"
    by (simp add: f32_scaled_def f32_scaled_abs_def f32_exponent_def f32_fraction_def f32_magnitude_def
        f32_negative_def)
  have kind: "\<not> f32_is_nan ?l" "\<not> f32_is_infinite ?l"
    by (simp_all add: f32_is_nan_def f32_is_infinite_def f32_exponent_def f32_fraction_def f32_magnitude_def)
  have "f32_less f32_zero ?l" "\<not> f32_less f32_one ?l" using kind l by (simp_all add: f32_less_def)
  then have db: "cast_linear_to_airplay_db ?l = f32_mul_add ?l airplay_db_span AIRPLAY_VOLUME_DB_FLOOR"
    using kind by (simp add: cast_linear_to_airplay_db_def)
  have "bit_len (30 * 2 ^ 149 - 30 * 2 ^ 122) = Suc 153" by (rule bit_len_eq) simp_all
  then have "f32_round_ratio ((30 * 2 ^ 149 - 30 * 2 ^ 122) * 2 ^ 149) (2 ^ 149) = 30 * 2 ^ 149"
    by (simp add: f32_round_ratio_def Let_def)
  then have "cast_linear_to_airplay_db ?l = f32_encode True (30 * 2 ^ 149)"
    unfolding db f32_mul_add_def Let_def l span_value floor_value by simp
  then have "f32_scaled (cast_linear_to_airplay_db ?l) = - (30 * 2 ^ 149)"
    using encode_value(1) [OF fits_span, of True] by simp
  then show "airplay_db_to_cast_linear (cast_linear_to_airplay_db ?l) = f32_zero"
    by (simp add: airplay_db_to_cast_linear_def f32_less_def)
qed

end
