(* ===== verification/Volume_Members.thy ===== *)
theory Volume_Members
  imports Volume_Map
begin

text \<open>
  The levels of a speaker group's members (\<open>scaled_member_levels\<close> in \<open>src/bridge/volume.rs\<close>), with the
  single-precision sum, product and quotient it computes. The levels come from the device as JSON numbers, so
  they may be anything; the theorem is about the range Cast documents, 0 to 1.
\<close>

section \<open>Sum, product and quotient\<close>

definition f32_nan :: f32 where
  "f32_nan = F32 0x7FC00000"

definition f32_plus :: "f32 \<Rightarrow> f32 \<Rightarrow> f32" where
  "f32_plus x y =
     (if f32_is_nan x \<or> f32_is_nan y then f32_nan
      else if f32_is_infinite x then (if f32_is_infinite y \<and> f32_negative x \<noteq> f32_negative y then f32_nan else x)
      else if f32_is_infinite y then y
      else
        let d = f32_scaled x + f32_scaled y
        in f32_encode (if d = 0 then f32_negative x \<and> f32_negative y else d < 0) (f32_round_ratio (nat \<bar>d\<bar>) 1))"

definition f32_times :: "f32 \<Rightarrow> f32 \<Rightarrow> f32" where
  "f32_times x y =
     (let neg = (f32_negative x \<noteq> f32_negative y) in
      if f32_is_nan x \<or> f32_is_nan y then f32_nan
      else if f32_is_infinite x then (if f32_scaled_abs y = 0 then f32_nan else f32_infinity neg)
      else if f32_is_infinite y then (if f32_scaled_abs x = 0 then f32_nan else f32_infinity neg)
      else f32_encode neg (f32_round_ratio (f32_scaled_abs x * f32_scaled_abs y) (2 ^ 149)))"

definition f32_quotient :: "f32 \<Rightarrow> f32 \<Rightarrow> f32" where
  "f32_quotient x y =
     (let neg = (f32_negative x \<noteq> f32_negative y) in
      if f32_is_nan x \<or> f32_is_nan y then f32_nan
      else if f32_is_infinite x then (if f32_is_infinite y then f32_nan else f32_infinity neg)
      else if f32_is_infinite y then f32_encode neg 0
      else if f32_scaled_abs y = 0 then (if f32_scaled_abs x = 0 then f32_nan else f32_infinity neg)
      else f32_encode neg (f32_round_ratio (f32_scaled_abs x * 2 ^ 149) (f32_scaled_abs y)))"

definition f32_le :: "f32 \<Rightarrow> f32 \<Rightarrow> bool" where
  "f32_le x y \<longleftrightarrow> \<not> f32_is_nan x \<and> \<not> f32_is_nan y \<and> f32_scaled x \<le> f32_scaled y"

section \<open>The levels of the members\<close>

definition SILENT_MEAN :: f32 where
  "SILENT_MEAN = F32 0x3A83126F"

definition member_mean :: "f32 list \<Rightarrow> f32" where
  "member_mean levels =
     (let (total_level, count) =
        foldl (\<lambda>(s, n) level. (f32_plus s level, f32_plus n f32_one)) (f32_zero, f32_zero) levels
      in f32_quotient total_level count)"

definition scaled_member_levels :: "f32 list \<Rightarrow> f32 \<Rightarrow> f32 list" where
  "scaled_member_levels levels target =
     (if levels = [] then []
      else
        let clamped = volume_level_clamped target;
            mean = member_mean levels
        in if f32_le mean SILENT_MEAN then replicate (length levels) clamped
           else
             let factor = f32_quotient clamped mean
             in map (\<lambda>level. volume_level_clamped (f32_times level factor)) levels)"

section \<open>A level\<close>

text \<open>A float of units \<open>m\<close>: not negative, finite.\<close>

definition is_units :: "f32 \<Rightarrow> nat \<Rightarrow> bool" where
  "is_units x m \<longleftrightarrow>
     \<not> f32_is_nan x \<and> \<not> f32_is_infinite x \<and> f32_scaled x = int m \<and> f32_scaled_abs x = m \<and> (0 < m \<longrightarrow> \<not> f32_negative x)"

definition is_level :: "f32 \<Rightarrow> bool" where
  "is_level x \<longleftrightarrow> \<not> f32_is_nan x \<and> 0 \<le> f32_scaled x \<and> f32_scaled x \<le> 2 ^ 149"

lemma units_encode: "f32_fits m \<Longrightarrow> is_units (f32_encode False m) m"
  using encode_value [of m False] by (simp add: is_units_def)

lemma units_encode_zero: "is_units (f32_encode neg 0) 0"
proof -
  have "f32_fits 0" by (simp add: f32_fits_def)
  from encode_value [OF this, of neg] show ?thesis by (simp add: is_units_def)
qed

lemma level_units_of:
  assumes "is_level x"
  obtains m where "is_units x m" "m \<le> 2 ^ 149"
proof
  let ?m = "nat (f32_scaled x)"
  have inf: "\<not> f32_is_infinite x" using infinite_scaled [of x] assms by (auto simp: is_level_def split: if_splits)
  have "f32_scaled_abs x = ?m" using assms by (auto simp: is_level_def f32_scaled_def split: if_splits)
  moreover have "0 < ?m \<longrightarrow> \<not> f32_negative x" using assms by (auto simp: f32_scaled_def split: if_splits)
  ultimately show "is_units x ?m" using assms inf by (simp add: is_units_def is_level_def)
  have "f32_scaled x \<le> int (2 ^ 149)" using assms by (simp add: is_level_def)
  then show "?m \<le> 2 ^ 149" by (simp only: nat_le_iff)
qed

lemma units_zero: "is_units f32_zero 0"
  using infinite_scaled [of f32_zero] by (auto simp: is_units_def f32_scaled_abs_def f32_zero_def f32_exponent_def
      f32_fraction_def f32_magnitude_def f32_scaled_def f32_is_nan_def f32_is_infinite_def)

lemma units_one: "is_units f32_one (2 ^ 149)"
  by (simp add: is_units_def f32_scaled_abs_def f32_one_def f32_exponent_def f32_negative_def
      f32_fraction_def f32_magnitude_def f32_scaled_def f32_is_nan_def f32_is_infinite_def)

lemma plus_rounds:
  assumes "is_units x a" "is_units y b" "0 < a + b"
  shows "f32_plus x y = f32_encode False (f32_round_ratio (a + b) 1)"
proof -
  have "int a + int b \<noteq> 0" "\<not> int a + int b < 0" using assms(3) by linarith+
  then show ?thesis using assms(1,2) by (simp add: f32_plus_def is_units_def Let_def nat_int_add)
qed

lemma plus_units:
  assumes "is_units x a" "is_units y b" "f32_fits m" "a + b \<le> m"
  shows "\<exists>c \<le> m. is_units (f32_plus x y) c"
proof (cases "a + b = 0")
  case True
  then have "f32_plus x y = f32_encode (f32_negative x \<and> f32_negative y) (f32_round_ratio 0 1)"
    using assms(1,2) by (simp add: f32_plus_def is_units_def)
  moreover have "f32_round_ratio 0 1 = 0" by (simp add: f32_round_ratio_def Let_def)
  ultimately show ?thesis using units_encode_zero by (intro exI [of _ 0]) simp
next
  case False
  let ?r = "f32_round_ratio (a + b) 1"
  have r: "?r \<le> m" using assms(3,4) by (intro round_ratio_le) simp_all
  then have "f32_fits ?r" using assms(3) by (intro round_ratio_fits) (auto simp: f32_fits_def)
  moreover have "f32_plus x y = f32_encode False ?r"
    using False by (intro plus_rounds [OF assms(1,2)]) simp
  ultimately show ?thesis using r units_encode by (intro exI [of _ ?r]) simp
qed

lemma fits_count: "n \<le> 2 ^ 24 \<Longrightarrow> f32_fits (n * 2 ^ 149)"
proof (rule fits_shifted)
  assume "n \<le> 2 ^ 24"
  then have "n * 2 ^ 149 \<le> 2 ^ 24 * 2 ^ 149" by (rule mult_le_mono1)
  also have "\<dots> < 2 ^ 277" by simp
  finally show "n * 2 ^ 149 < 2 ^ 277" .
qed

lemma plus_exact:
  assumes "is_units x a" "is_units y b" "f32_fits (a + b)" "0 < a + b"
  shows "is_units (f32_plus x y) (a + b)"
proof -
  have "f32_round_ratio (a + b) 1 = a + b" using round_ratio_exact [of 1 "a + b"] assms(3) by simp
  then have "f32_plus x y = f32_encode False (a + b)" using plus_rounds [OF assms(1,2,4)] by simp
  with assms(3) units_encode show ?thesis by simp
qed

text \<open>The sum of \<open>n\<close> levels is at most \<open>n\<close>, however it was rounded, and the count is exact.\<close>

lemma sum_of_levels:
  assumes "\<forall>x \<in> set levels. is_level x" "is_units s a" "a \<le> k * 2 ^ 149" "is_units n (k * 2 ^ 149)"
    and "k + length levels \<le> 2 ^ 24"
  shows "\<exists>b. is_units (fst (foldl (\<lambda>(s, n) level. (f32_plus s level, f32_plus n f32_one)) (s, n) levels)) b \<and>
      b \<le> (k + length levels) * 2 ^ 149 \<and>
      is_units (snd (foldl (\<lambda>(s, n) level. (f32_plus s level, f32_plus n f32_one)) (s, n) levels)) ((k + length levels) * 2 ^ 149)"
  using assms
proof (induction levels arbitrary: s n a k)
  case Nil
  then show ?case by auto
next
  case (Cons x xs)
  obtain m where m: "is_units x m" "m \<le> 2 ^ 149" using Cons.prems(1) by (auto elim: level_units_of)
  have k: "Suc k \<le> 2 ^ 24" using Cons.prems(5) by simp
  have le: "a + m \<le> Suc k * 2 ^ 149" using Cons.prems(3) m(2) by simp
  obtain c where c: "c \<le> Suc k * 2 ^ 149" "is_units (f32_plus s x) c"
    using plus_units [OF Cons.prems(2) m(1) fits_count [OF k] le] by blast
  have cnt: "is_units (f32_plus n f32_one) (Suc k * 2 ^ 149)"
    using plus_exact [OF Cons.prems(4) units_one] fits_count [OF k] by (simp add: add.commute)
  show ?case
    using Cons.IH [OF _ c(2,1) cnt] Cons.prems(1,5) by simp
qed

lemma member_mean_units:
  assumes "\<forall>x \<in> set levels. is_level x" "levels \<noteq> []" "length levels \<le> 2 ^ 24"
  shows "\<exists>m \<le> 2 ^ 149. is_units (member_mean levels) m"
proof -
  define p where "p = foldl (\<lambda>(s, n) level. (f32_plus s level, f32_plus n f32_one)) (f32_zero, f32_zero) levels"
  have "\<exists>b. is_units (fst p) b \<and> b \<le> (0 + length levels) * 2 ^ 149 \<and> is_units (snd p) ((0 + length levels) * 2 ^ 149)"
    unfolding p_def using assms units_zero by (intro sum_of_levels [where a = 0]) simp_all
  then obtain b where b: "is_units (fst p) b" "b \<le> length levels * 2 ^ 149" "is_units (snd p) (length levels * 2 ^ 149)"
    by auto
  let ?n = "length levels * 2 ^ 149"
  have n: "0 < ?n" using assms(2) by simp
  let ?q = "f32_round_ratio (b * 2 ^ 149) ?n"
  have q: "?q \<le> 2 ^ 149"
  proof (rule round_ratio_le [OF n])
    show "f32_fits (2 ^ 149)" by (rule fits_power) simp
    show "b * 2 ^ 149 \<le> 2 ^ 149 * ?n" using b(2) by (simp add: mult.commute)
  qed
  have fits: "f32_fits ?q"
  proof (rule round_ratio_fits [OF n])
    have "(2::nat) ^ 149 < 2 ^ 277" by simp
    with q show "?q < 2 ^ 277" by (rule le_less_trans)
  qed
  obtain u v where uv: "p = (u, v)" by force
  have mean: "member_mean levels = f32_encode (f32_negative (fst p) \<noteq> f32_negative (snd p)) ?q"
    unfolding member_mean_def p_def [symmetric] uv
    using b(1,3) n by (simp add: uv f32_quotient_def is_units_def Let_def)
  show ?thesis
  proof (cases "b = 0")
    case True
    then have "?q = 0" by (simp add: f32_round_ratio_def Let_def)
    then show ?thesis unfolding mean using units_encode_zero by (intro exI [of _ 0]) simp
  next
    case False
    then have "\<not> f32_negative (fst p)" "\<not> f32_negative (snd p)" using b(1,3) n by (simp_all add: is_units_def)
    then show ?thesis unfolding mean using q fits units_encode by auto
  qed
qed

lemma silent_value [simp]:
  "f32_scaled SILENT_MEAN = 0x83126F * 2 ^ 116" "\<not> f32_is_nan SILENT_MEAN"
  by (simp_all add: SILENT_MEAN_def f32_scaled_def f32_scaled_abs_def f32_exponent_def f32_fraction_def
      f32_magnitude_def f32_negative_def f32_is_nan_def)

lemma clamp_level: "\<not> f32_is_nan x \<Longrightarrow> is_level (volume_level_clamped x)"
  by (auto simp: volume_level_clamped_def is_level_def f32_less_def not_less)

text \<open>A member that is not silent with the others: scaled by one factor, rounded, clamped.\<close>

lemma scaled_level:
  assumes x: "is_units x a" "a \<le> 2 ^ 149" and f: "is_units f b" "b \<le> 2 ^ 160"
  shows "f32_scaled (volume_level_clamped (f32_times x f)) = int (min (2 ^ 149) (f32_round_ratio (a * b) (2 ^ 149)))"
    and "\<not> f32_is_nan (volume_level_clamped (f32_times x f))"
proof -
  let ?r = "f32_round_ratio (a * b) (2 ^ 149)"
  have "a * b \<le> 2 ^ 149 * 2 ^ 160" using x(2) f(2) by (rule mult_le_mono)
  then have "?r \<le> 2 ^ 160" by (intro round_ratio_le fits_power) (simp_all add: mult.commute)
  also have "(2::nat) ^ 160 < 2 ^ 277" by simp
  finally have fits: "f32_fits ?r" by (intro round_ratio_fits) simp
  have t: "f32_times x f = f32_encode (f32_negative x \<noteq> f32_negative f) ?r"
    using x(1) f(1) by (simp add: f32_times_def is_units_def)
  show "f32_scaled (volume_level_clamped (f32_times x f)) = int (min (2 ^ 149) ?r)"
    and "\<not> f32_is_nan (volume_level_clamped (f32_times x f))"
  proof (atomize (full), cases "a * b = 0")
    case True
    then have r: "?r = 0" by (auto simp: f32_round_ratio_def Let_def)
    have "f32_scaled (f32_encode neg 0) = 0" "\<not> f32_is_nan (f32_encode neg 0)" for neg
      using units_encode_zero [of neg] by (auto simp: is_units_def)
    then show "f32_scaled (volume_level_clamped (f32_times x f)) = int (min (2 ^ 149) ?r) \<and>
        \<not> f32_is_nan (volume_level_clamped (f32_times x f))"
      unfolding t r by (auto simp: volume_level_clamped_def f32_less_def)
  next
    case False
    then have "\<not> f32_negative x" "\<not> f32_negative f" using x(1) f(1) by (auto simp: is_units_def)
    then have "f32_times x f = f32_encode False ?r" using t by simp
    with clamp_encode [OF fits] show "f32_scaled (volume_level_clamped (f32_times x f)) = int (min (2 ^ 149) ?r) \<and>
        \<not> f32_is_nan (volume_level_clamped (f32_times x f))" by simp
  qed
qed

text \<open>The factor: at most \<open>1 / 0.001\<close>, so the products stay finite.\<close>

lemma factor_units:
  assumes c: "is_units c t" "t \<le> 2 ^ 149" and m: "is_units mean m" "0x83126F * 2 ^ 116 < m"
  shows "\<exists>b \<le> 2 ^ 160. is_units (f32_quotient c mean) b"
proof -
  let ?q = "f32_round_ratio (t * 2 ^ 149) m"
  have m0: "0 < m" using m(2) by simp
  have "t * 2 ^ 149 \<le> 2 ^ 149 * 2 ^ 149" using c(2) by (rule mult_le_mono1)
  also have "\<dots> \<le> 2 ^ 160 * (0x83126F * 2 ^ 116 :: nat)" by simp
  also have "\<dots> \<le> 2 ^ 160 * m" using m(2) by (intro mult_le_mono2) simp
  finally have q: "?q \<le> 2 ^ 160" using m0 by (intro round_ratio_le fits_power) simp_all
  also have "(2::nat) ^ 160 < 2 ^ 277" by simp
  finally have fits: "f32_fits ?q" using m0 by (intro round_ratio_fits) simp_all
  have quot: "f32_quotient c mean = f32_encode (f32_negative c) ?q"
    using c(1) m(1) m0 by (simp add: f32_quotient_def is_units_def)
  show ?thesis
  proof (cases "t = 0")
    case True
    then have "?q = 0" by (simp add: f32_round_ratio_def Let_def)
    then show ?thesis unfolding quot using units_encode_zero by (intro exI [of _ 0]) simp
  next
    case False
    then have "f32_quotient c mean = f32_encode False ?q" using c(1) quot by (simp add: is_units_def)
    then show ?thesis using q fits units_encode by auto
  qed
qed

text \<open>
  C31: A speaker group's member levels, for levels in Cast's range: each member gets a level from 0 to 1, a member
  that was not quieter than another does not become quieter than it, and members that are all about silent get the
  (clamped) target.
\<close>

theorem member_levels_balanced:
  assumes levels: "\<forall>x \<in> set levels. is_level x" and target: "\<not> f32_is_nan target" and len: "length levels \<le> 2 ^ 24"
  shows "length (scaled_member_levels levels target) = length levels \<and>
    list_all is_level (scaled_member_levels levels target) \<and>
    (\<forall>i < length levels. \<forall>k < length levels. f32_scaled (levels ! i) \<le> f32_scaled (levels ! k) \<longrightarrow>
       f32_scaled (scaled_member_levels levels target ! i) \<le> f32_scaled (scaled_member_levels levels target ! k)) \<and>
    (f32_le (member_mean levels) SILENT_MEAN \<longrightarrow>
       scaled_member_levels levels target = map (\<lambda>_. volume_level_clamped target) levels)"
proof (cases "levels = [] \<or> f32_le (member_mean levels) SILENT_MEAN")
  case True
  then have "scaled_member_levels levels target = replicate (length levels) (volume_level_clamped target)"
    by (auto simp: scaled_member_levels_def)
  then show ?thesis using clamp_level [OF target] by (simp add: map_replicate_const list_all_iff)
next
  case False
  then obtain m where m: "is_units (member_mean levels) m" using member_mean_units [OF levels _ len] by blast
  obtain t where t: "is_units (volume_level_clamped target) t" "t \<le> 2 ^ 149"
    using clamp_level [OF target] by (rule level_units_of)
  have "int (0x83126F * 2 ^ 116) < int m" using m False by (auto simp: f32_le_def is_units_def)
  then have "0x83126F * 2 ^ 116 < m" by (simp only: of_nat_less_iff)
  then obtain b where b: "is_units (f32_quotient (volume_level_clamped target) (member_mean levels)) b" "b \<le> 2 ^ 160"
    using factor_units [OF t m] by blast
  define g where "g = (\<lambda>x. volume_level_clamped (f32_times x (f32_quotient (volume_level_clamped target) (member_mean levels))))"
  have eq: "scaled_member_levels levels target = map g levels"
    using False by (simp add: scaled_member_levels_def g_def Let_def)
  have val: "f32_scaled (g x) = int (min (2 ^ 149) (f32_round_ratio (nat (f32_scaled x) * b) (2 ^ 149))) \<and> \<not> f32_is_nan (g x)"
    if "is_level x" for x
  proof -
    obtain a where a: "is_units x a" "a \<le> 2 ^ 149" using level_units_of [OF \<open>is_level x\<close>] by blast
    then have "nat (f32_scaled x) = a" by (simp add: is_units_def)
    with scaled_level [OF a b] show ?thesis unfolding g_def by simp
  qed
  have level: "is_level (g x)" if "is_level x" for x
    unfolding is_level_def using val [OF that] min.cobounded1 [of "2 ^ 149 :: nat"]
    by (metis of_nat_0_le_iff of_nat_le_iff of_nat_numeral of_nat_power)
  have mono: "f32_scaled (g x) \<le> f32_scaled (g y)" if "is_level x" "is_level y" "f32_scaled x \<le> f32_scaled y" for x y
  proof -
    have "nat (f32_scaled x) * b \<le> nat (f32_scaled y) * b" using nat_mono [OF that(3)] by (rule mult_le_mono1)
    then have "f32_round_ratio (nat (f32_scaled x) * b) (2 ^ 149) \<le> f32_round_ratio (nat (f32_scaled y) * b) (2 ^ 149)"
      by (intro round_ratio_mono) simp_all
    from min.mono [OF order_refl this, of "2 ^ 149"] show ?thesis
      using val [OF that(1)] val [OF that(2)] by (simp only: of_nat_le_iff)
  qed
  show ?thesis unfolding eq using levels level mono False by (simp add: list_all_iff)
qed

theorem member_levels_balanced_witness:
  "list_all is_level (scaled_member_levels [f32_zero, F32 0x3F000000, f32_one] (F32 0x3F000000)) \<and>
   length (scaled_member_levels [f32_zero, F32 0x3F000000, f32_one] (F32 0x3F000000)) = 3"
proof -
  have half: "is_level (F32 0x3F000000)"
    by (simp add: is_level_def f32_is_nan_def f32_exponent_def f32_fraction_def f32_magnitude_def f32_scaled_def
        f32_scaled_abs_def f32_negative_def)
  have levels: "\<forall>x \<in> set [f32_zero, F32 0x3F000000, f32_one]. is_level x"
    using half by (simp add: is_level_def)
  have target: "\<not> f32_is_nan (F32 0x3F000000)" using half by (simp add: is_level_def)
  have len: "length [f32_zero, F32 0x3F000000, f32_one] \<le> 2 ^ 24" by simp
  note P = member_levels_balanced [OF levels target len]
  show ?thesis using conjunct1 [OF P] conjunct1 [OF conjunct2 [OF P]] by simp
qed

end
