(* ===== verification/Bridge_Volume.thy ===== *)
theory Bridge_Volume
  imports Bridge_Teardown Volume_Members
begin

text \<open>
  AirPlay volume to Cast (\<open>src/bridge/volume.rs\<close>), now-playing metadata, and Cast-side user actions
  (\<open>src/bridge/remote.rs\<close>).

  Levels are the bits of \<open>f32\<close> values; \<open>Volume_Map\<close> and \<open>Volume_Members\<close> have the arithmetic that converts the
  sender's decibels and scales the levels of a group's members.
\<close>

section \<open>Where a volume goes\<close>

datatype volume_route = RouteSkip | RouteOwn | RouteMembers

definition hosted_on :: "string \<Rightarrow> device \<Rightarrow> bool" where
  "hosted_on key grp \<longleftrightarrow>
     key = dev_id grp \<or> key = session_host_key_at (dev_host grp) (dev_port grp)"

definition speaker_group :: "string \<Rightarrow> bridge \<Rightarrow> device option" where
  "speaker_group d b =
     (case get d (registry_of b) of
        Some dev \<Rightarrow> if dev_model dev = CAST_GROUP_MODEL then Some dev else None
      | None \<Rightarrow> None)"

definition volume_target :: "device option \<Rightarrow> string option \<Rightarrow> volume_route" where
  "volume_target grp key =
     (case grp of
        None \<Rightarrow> RouteOwn
      | Some g \<Rightarrow> if (case key of None \<Rightarrow> False | Some k \<Rightarrow> hosted_on k g) then RouteOwn else RouteMembers)"

definition volume_route_of :: "string \<Rightarrow> f32 \<Rightarrow> bridge \<Rightarrow> bridge \<times> volume_route" where
  "volume_route_of d level b =
     (case state_of d b of
        Some (Playing _ s) \<Rightarrow>
          (upd_cells (sid s) (\<lambda>c. c\<lparr>last_volume_linear := Some level\<rparr>) b,
           volume_target (speaker_group d b) (Some (route_media (route (shared b (sid s))))))
      | Some (Following _ f) \<Rightarrow>
          (b, volume_target (speaker_group d b)
                (Option.bind (hm_get (groups b) (fs_group f)) media_key))
      | _ \<Rightarrow> (b, RouteSkip))"

definition set_own_volume :: "string \<Rightarrow> f32 \<Rightarrow> bridge \<Rightarrow> bridge" where
  "set_own_volume d level b = emit (CastSetVolume d level) b"

definition queue_group_volume :: "string \<Rightarrow> f32 \<Rightarrow> bridge \<Rightarrow> bridge" where
  "queue_group_volume u level b =
     (let v = hm_entry default_group_volume u (group_volumes b);
          b' = b\<lparr>group_volumes := hm_insert u (v\<lparr>gv_target := Some level, gv_running := True\<rparr>) (group_volumes b)\<rparr>
      in if gv_running v then b' else emit (SpawnGroupVolume u) b')"

definition handle_volume :: "string \<Rightarrow> f32 \<Rightarrow> bridge \<Rightarrow> bridge" where
  "handle_volume d level b =
     (case volume_route_of d level b of
        (b', RouteSkip) \<Rightarrow> b'
      | (b', RouteOwn) \<Rightarrow> set_own_volume d level b'
      | (b', RouteMembers) \<Rightarrow> queue_group_volume d level b')"

section \<open>Applying a speaker group's volume\<close>

definition MEMBER_CACHE_TTL :: duration where
  "MEMBER_CACHE_TTL = from_secs 5"

text \<open>The next target of the apply task, with the members when they are known recently enough.\<close>

definition take_group_volume ::
  "string \<Rightarrow> instant \<Rightarrow> bridge \<Rightarrow> bridge \<times> (f32 \<times> group_member list option) option" where
  "take_group_volume u now b =
     (case hm_get (group_volumes b) u of
        None \<Rightarrow> (b, None)
      | Some v \<Rightarrow>
          (case gv_target v of
             None \<Rightarrow> (b\<lparr>group_volumes := hm_insert u (v\<lparr>gv_running := False\<rparr>) (group_volumes b)\<rparr>, None)
           | Some target \<Rightarrow>
               (b\<lparr>group_volumes := hm_insert u (v\<lparr>gv_target := None\<rparr>) (group_volumes b)\<rparr>,
                Some (target,
                  case gv_members v of
                    None \<Rightarrow> None
                  | Some (read_at, members) \<Rightarrow>
                      if now - read_at < MEMBER_CACHE_TTL then Some members else None))))"

definition find_speaker :: "registry \<Rightarrow> multizone_member \<Rightarrow> group_member option" where
  "find_speaker r m =
     map_option (\<lambda>dev. \<lparr>gm_device_id = dev_id dev, gm_level = F32 (mm_level m)\<rparr>)
       (List.find (\<lambda>dev. normalize_device_id (dev_id dev) = mm_device_id m) (list_all_devices r))"

definition members_of_status :: "registry \<Rightarrow> multizone_member list \<Rightarrow> group_member list" where
  "members_of_status r ms = List.map_filter (find_speaker r) ms"

definition store_group_members :: "string \<Rightarrow> instant \<Rightarrow> group_member list \<Rightarrow> bridge \<Rightarrow> bridge" where
  "store_group_members u now members b =
     (case hm_get (group_volumes b) u of
        None \<Rightarrow> b
      | Some v \<Rightarrow> b\<lparr>group_volumes := hm_insert u (v\<lparr>gv_members := Some (now, members)\<rparr>) (group_volumes b)\<rparr>)"

definition set_member_levels ::
  "group_member list \<Rightarrow> f32 \<Rightarrow> bridge \<Rightarrow> bridge" where
  "set_member_levels members target b =
     emit_all (map (\<lambda>(m, level). CastSetVolume (gm_device_id m) level)
       (zip members (scaled_member_levels (map gm_level members) target))) b"

text \<open>One turn of \<open>apply_group_volume\<close>; \<open>status\<close> is what reading the members returns if they are read.\<close>

definition apply_group_volume_turn ::
  "string \<Rightarrow> instant \<Rightarrow> instant \<Rightarrow> multizone_member list result \<Rightarrow> bridge
    \<Rightarrow> bridge \<times> bool" where
  "apply_group_volume_turn u now1 now2 status b =
     (case take_group_volume u now1 b of
        (b1, None) \<Rightarrow> (b1, False)
      | (b1, Some (target, Some members)) \<Rightarrow> (set_member_levels members target b1, True)
      | (b1, Some (target, None)) \<Rightarrow>
          (case status of
             Inl _ \<Rightarrow> (emit (ReadGroupMembers u) b1, True)
           | Inr ms \<Rightarrow>
               (let members = members_of_status (registry_of b1) ms
                in (set_member_levels members target
                      (store_group_members u now2 members (emit (ReadGroupMembers u) b1)), True))))"

section \<open>Metadata and Cast-side actions\<close>

definition handle_now_playing :: "string \<Rightarrow> now_playing \<Rightarrow> bridge \<Rightarrow> bridge" where
  "handle_now_playing d np b =
     (case playing_at d b of
        None \<Rightarrow> b
      | Some (g, s) \<Rightarrow>
          (let m' = set_artwork (np_artwork np) (media s);
               t = cast_track_of np m' (cast_name s)
           in emit (UpdateMetadata (route_media (route (shared b (sid s)))) t)
                (edit_session d g s (s\<lparr>media := m'\<rparr>) (\<lambda>c. c\<lparr>track := t\<rparr>) b)))"

definition pause_locally_for_cast :: "string \<Rightarrow> instant \<Rightarrow> bridge \<Rightarrow> bridge \<times> bool" where
  "pause_locally_for_cast d now b =
     (case playing_at d b of
        None \<Rightarrow> (b, False)
      | Some (g, s) \<Rightarrow>
          if paused s then (b, False)
          else (edit_session d g s (s\<lparr>paused := True, paused_at := Some now\<rparr>)
                  (\<lambda>c. c\<lparr>playback_paused := True\<rparr>) b, True))"

definition is_locally_paused :: "string \<Rightarrow> bridge \<Rightarrow> bool" where
  "is_locally_paused d b = (case playing_at d b of Some (_, s) \<Rightarrow> paused s | None \<Rightarrow> False)"

definition is_speaker_group :: "string \<Rightarrow> bridge \<Rightarrow> bool" where
  "is_speaker_group d b \<longleftrightarrow> speaker_group d b \<noteq> None"

definition record_remote_volume :: "string \<Rightarrow> f32 \<Rightarrow> bridge \<Rightarrow> bridge" where
  "record_remote_volume d level b =
     (case playing_at d b of
        None \<Rightarrow> b
      | Some (_, s) \<Rightarrow> upd_cells (sid s) (\<lambda>c. c\<lparr>last_volume_linear := Some level\<rparr>) b)"

definition speaker_changed :: "string \<Rightarrow> cast_remote_kind \<Rightarrow> instant \<Rightarrow> bridge \<Rightarrow> bridge" where
  "speaker_changed d kind now b =
     (case kind of
        KindPaused \<Rightarrow>
          (case pause_locally_for_cast d now b of
             (b', True) \<Rightarrow> emit (SendToSender d RemotePause) b'
           | (b', False) \<Rightarrow> b')
      | KindPlayed \<Rightarrow> if is_locally_paused d b then emit (SendToSender d RemotePlay) b else b
      | KindVolume level muted \<Rightarrow>
          emit (ReportVolume d level muted) (if muted then b else record_remote_volume d level b))"

definition on_cast_remote :: "string \<Rightarrow> cast_remote_kind \<Rightarrow> instant \<Rightarrow> bridge \<Rightarrow> bridge" where
  "on_cast_remote key kind now b =
     (let o' = owner_for_cast_key key b
      in if (case o' of Some i \<Rightarrow> i \<noteq> key | None \<Rightarrow> False) then b
         else
           (let d = (case o' of Some i \<Rightarrow> i | None \<Rightarrow> key)
            in if is_speaker_group d b then b else speaker_changed d kind now b))"

section \<open>Preservation\<close>

lemma upd_volume_ok: "bridge_ok b \<Longrightarrow> bridge_ok (upd_cells n (\<lambda>c. c\<lparr>last_volume_linear := x\<rparr>) b)"
  by (rule upd_cells_ok) (auto simp: session_ok_def)

lemma group_volumes_ok: "bridge_ok b \<Longrightarrow> bridge_ok (b\<lparr>group_volumes := v\<rparr>)"
  by (simp add: bridge_ok_def)

lemma volume_route_of_ok: "bridge_ok b \<Longrightarrow> bridge_ok (fst (volume_route_of d level b))"
  by (auto simp: volume_route_of_def upd_volume_ok split: option.splits device_state.splits)

lemma queue_group_volume_ok: "bridge_ok b \<Longrightarrow> bridge_ok (queue_group_volume u level b)"
  by (auto simp: queue_group_volume_def Let_def group_volumes_ok intro!: emit_ok)

lemma handle_volume_ok: "bridge_ok b \<Longrightarrow> bridge_ok (handle_volume d level b)"
  using volume_route_of_ok [of b d level]
  by (auto simp: handle_volume_def set_own_volume_def queue_group_volume_ok
      split: prod.splits volume_route.splits intro!: emit_ok)

lemma torn_down_set_volumes:
  "torn_down (map (\<lambda>(m, level). CastSetVolume (gm_device_id m) level) xs) = []"
  by (induction xs) auto

lemma set_member_levels_ok: "bridge_ok b \<Longrightarrow> bridge_ok (set_member_levels ms target b)"
  by (simp add: set_member_levels_def emit_all_ok torn_down_set_volumes)

lemma take_group_volume_ok: "bridge_ok b \<Longrightarrow> bridge_ok (fst (take_group_volume u now b))"
  by (auto simp: take_group_volume_def group_volumes_ok split: option.splits)

lemma store_group_members_ok: "bridge_ok b \<Longrightarrow> bridge_ok (store_group_members u now ms b)"
  by (auto simp: store_group_members_def group_volumes_ok split: option.splits)

lemma apply_group_volume_turn_ok:
  "bridge_ok b \<Longrightarrow> bridge_ok (fst (apply_group_volume_turn u now1 now2 status b))"
  using take_group_volume_ok [of b u now1]
  by (auto simp: apply_group_volume_turn_def Let_def split: prod.splits option.splits sum.splits
      intro!: set_member_levels_ok store_group_members_ok emit_ok)

lemma handle_now_playing_ok: "bridge_ok b \<Longrightarrow> bridge_ok (handle_now_playing d np b)"
  by (auto simp: handle_now_playing_def session_ok_def Let_def split: option.splits
      intro!: emit_ok edit_session_ok dest: playing_session_ok)

lemma pause_locally_for_cast_ok: "bridge_ok b \<Longrightarrow> bridge_ok (fst (pause_locally_for_cast d now b))"
  by (auto simp: pause_locally_for_cast_def session_ok_def split: option.splits
      intro!: edit_session_ok dest: playing_session_ok)

lemma record_remote_volume_ok: "bridge_ok b \<Longrightarrow> bridge_ok (record_remote_volume d level b)"
  by (auto simp: record_remote_volume_def upd_volume_ok split: option.splits)

lemma speaker_changed_ok: "bridge_ok b \<Longrightarrow> bridge_ok (speaker_changed d kind now b)"
  using pause_locally_for_cast_ok [of b d now]
  by (auto simp: speaker_changed_def record_remote_volume_ok
      split: cast_remote_kind.splits prod.splits bool.splits intro!: emit_ok)

lemma on_cast_remote_ok: "bridge_ok b \<Longrightarrow> bridge_ok (on_cast_remote key kind now b)"
  by (simp add: on_cast_remote_def Let_def speaker_changed_ok)

lemma evolves_volume [simp]:
  "evolves a (handle_volume d level b) = evolves a b"
  "evolves a (fst (apply_group_volume_turn u now1 now2 status b)) = evolves a b"
  by (auto simp: handle_volume_def volume_route_of_def set_own_volume_def queue_group_volume_def
      apply_group_volume_turn_def take_group_volume_def store_group_members_def set_member_levels_def Let_def
      split: prod.splits option.splits device_state.splits volume_route.splits sum.splits)

lemma evolves_now_playing [simp]: "evolves b (handle_now_playing d np b)"
  by (auto simp: handle_now_playing_def Let_def split: option.splits intro!: evolves_edit_session)

lemma evolves_pause_locally [simp]: "evolves b (fst (pause_locally_for_cast d now b))"
  by (auto simp: pause_locally_for_cast_def split: option.splits intro!: evolves_edit_session)

lemma evolves_on_cast_remote [simp]: "evolves b (on_cast_remote key kind now b)"
proof -
  have pl: "evolves b b1" if "pause_locally_for_cast d now b = (b1, r)" for d b1 r
    using evolves_pause_locally [of b d now] that by simp
  show ?thesis
    using pl
    by (auto simp: on_cast_remote_def speaker_changed_def record_remote_volume_def Let_def
        split: option.splits cast_remote_kind.splits prod.splits bool.splits)
qed

end
