(* ===== verification/Bridge_Frames.thy ===== *)
theory Bridge_Frames
  imports Bridge_Volume
begin

text \<open>
  What the operations of the bridge leave alone. \<open>quiet\<close> says that a piece of the program creates no
  session, writes none of the flags that detached tasks synchronise on (alive, late STOP allowed,
  re-LOAD flight), and only appends effects. Every operation except the session start, the re-LOAD
  flight and the teardown is quiet; the system theory composes the tasks from this.
\<close>

definition cell_flags :: "shared_cells \<Rightarrow> bool \<times> bool \<times> bool" where
  "cell_flags c = (session_alive c, late_stop_allowed c, reload_flight_held c)"

definition quiet :: "bridge \<Rightarrow> bridge \<Rightarrow> bool" where
  "quiet b b' \<longleftrightarrow>
     (\<forall>n. cell_flags (shared b' n) = cell_flags (shared b n)) \<and> next_sid b' = next_sid b \<and>
     (\<exists>es. effects b' = effects b @ es)"

lemma quiet_refl [simp]: "quiet b b"
  by (simp add: quiet_def)

lemma quiet_trans [trans]: "quiet a b \<Longrightarrow> quiet b c \<Longrightarrow> quiet a c"
  by (auto simp: quiet_def)

lemma quiet_emits:
  "quiet a b \<Longrightarrow> quiet a (emit e b)" "quiet a b \<Longrightarrow> quiet a (emit_all es b)"
  "quiet a b \<Longrightarrow> quiet a (stop_pump q b)" "quiet a b \<Longrightarrow> quiet a (close_hosts ks b)"
  "quiet a b \<Longrightarrow> quiet a (close_session_host k b)" "quiet a b \<Longrightarrow> quiet a (detach_teardown s p b)"
  "quiet a b \<Longrightarrow> quiet a (detach_prior prior p b)"
  by (auto simp: quiet_def stop_pump_def close_hosts_def close_session_host_def detach_teardown_def
      detach_prior_def split: option.splits)

lemma quiet_stores [simp]:
  "quiet a (set_slot d slot b) = quiet a b" "quiet a (set_state d st b) = quiet a b"
  "quiet a (set_group u g b) = quiet a b" "quiet a (b\<lparr>groups := gs\<rparr>) = quiet a b"
  "quiet a (b\<lparr>devices := ds\<rparr>) = quiet a b" "quiet a (b\<lparr>group_volumes := v\<rparr>) = quiet a b"
  "quiet a (b\<lparr>flac_fallback := x\<rparr>) = quiet a b" "quiet a (remember_flac_fallback d b) = quiet a b"
  "quiet a (with_group u f b) = quiet a b" "quiet a (clear_starting_if d gn b) = quiet a b"
  by (simp_all add: quiet_def remember_flac_fallback_def with_group_def clear_starting_if_def split: option.split)

lemma quiet_upd_cells:
  "quiet a b \<Longrightarrow> (\<And>c. cell_flags (f c) = cell_flags c) \<Longrightarrow> quiet a (upd_cells n f b)"
  by (auto simp: quiet_def)

lemma quiet_edit_session:
  "quiet a b \<Longrightarrow> (\<And>c. cell_flags (f c) = cell_flags c) \<Longrightarrow> quiet a (edit_session d g s s' f b)"
  by (simp add: edit_session_def quiet_upd_cells)

lemma cell_flags_updates [simp]:
  "cell_flags (c\<lparr>route := r\<rparr>) = cell_flags c" "cell_flags (c\<lparr>playback_paused := p\<rparr>) = cell_flags c"
  "cell_flags (c\<lparr>last_volume_linear := v\<rparr>) = cell_flags c" "cell_flags (c\<lparr>track := t\<rparr>) = cell_flags c"
  by (simp_all add: cell_flags_def)

lemma quiet_spawn_session_task: "quiet a b \<Longrightarrow> quiet a (spawn_session_task d g t b)"
  by (simp add: spawn_session_task_def split: option.split)

lemmas quiet_intros = quiet_emits quiet_upd_cells quiet_edit_session quiet_spawn_session_task

section \<open>Groups\<close>

lemma quiet_accept_start: "accept_start d b = (b', g, prior) \<Longrightarrow> quiet a b \<Longrightarrow> quiet a b'"
  by (auto simp: accept_start_def Let_def split: prod.splits intro!: quiet_intros)

lemma quiet_schedule: "quiet a b \<Longrightarrow> quiet a (schedule_group_reconcile u b)"
  by (auto simp: schedule_group_reconcile_def split: option.split intro!: quiet_intros)

lemma quiet_as_follower: "quiet a b \<Longrightarrow> quiet a (fst (enter_as_follower d u rate ring g b))"
  by (auto simp: enter_as_follower_def Let_def split: device_state.split intro!: quiet_intros)

lemma quiet_as_owner: "quiet a b \<Longrightarrow> quiet a (fst (enter_as_owner d u g b))"
proof -
  assume ab: "quiet a b"
  have acc: "quiet a b1" if "accept_start d (set_group u x b) = (b1, gen, prior)" for x b1 gen prior
    using quiet_accept_start [OF that] ab by simp
  show ?thesis
    by (auto simp: enter_as_owner_def Let_def split: prod.split intro!: quiet_intros dest: acc)
qed

lemma quiet_enter_group: "enter_group d u rate ring b = (b', e) \<Longrightarrow> quiet a b \<Longrightarrow> quiet a b'"
  using quiet_as_follower [of a b d u rate ring "hm_entry default_group u (groups b)"]
    quiet_as_owner [of a b d u "hm_entry default_group u (groups b)"]
  by (simp add: enter_group_def Let_def split: if_splits)

lemma quiet_redispatch: "quiet a b \<Longrightarrow> quiet a (redispatch_start d b)"
  by (auto simp: redispatch_start_def split: option.split device_state.split intro!: quiet_intros)

lemma quiet_promote: "quiet a b \<Longrightarrow> quiet a (promote_if_ownerless u b)"
  by (auto simp: promote_if_ownerless_def split: option.split list.split intro!: quiet_intros quiet_redispatch)

lemma quiet_fold_promote: "quiet a b \<Longrightarrow> quiet a (foldl (\<lambda>acc u. promote_if_ownerless u acc) b us)"
  by (induction us arbitrary: b) (auto simp: quiet_promote)

lemma quiet_fold_redispatch: "quiet a b \<Longrightarrow> quiet a (foldl (\<lambda>acc i. redispatch_start i acc) b ds)"
  by (induction ds arbitrary: b) (auto simp: quiet_redispatch)

lemma quiet_group_check_owner: "quiet a b \<Longrightarrow> quiet a (group_check_owner d b)"
  by (auto simp: group_check_owner_def Let_def intro!: quiet_intros quiet_fold_promote)

lemma quiet_group_owner_playing: "quiet a b \<Longrightarrow> quiet a (group_owner_playing u d b)"
  by (auto simp: group_owner_playing_def split: option.split intro!: quiet_schedule)

lemma quiet_confirm: "quiet a b \<Longrightarrow> quiet a (confirm_group_session d b)"
  by (auto simp: confirm_group_session_def split: option.split intro!: quiet_group_owner_playing)

lemma quiet_end_following: "quiet a b \<Longrightarrow> quiet a (end_following d g b)"
  by (auto simp: end_following_def split: option.split device_state.split
      intro!: quiet_intros quiet_schedule quiet_promote)

lemma quiet_end_group: "quiet a b \<Longrightarrow> quiet a (fst (end_group u b))"
  by (rule end_group_rule [of "quiet a"]) (auto intro: quiet_intros)

lemma quiet_forget_all: "quiet a b \<Longrightarrow> quiet a (forget_all_groups b)"
  by (auto simp: forget_all_groups_def intro!: quiet_intros)

lemma quiet_group_owner_left: "quiet b (fst (group_owner_left d g b))"
  by (auto simp: group_owner_left_def hand_over_def Let_def split: option.splits prod.splits
      intro!: quiet_intros quiet_schedule)

lemma quiet_plan:
  "quiet b (apply_group_plan_send plan b)" "quiet b (fst (apply_group_plan_answer u plan answer b))"
  "quiet b (fst (follow_endpoint_send n e b))" "quiet b (fst (set_reconcile_dirty u v b))"
  "quiet b (fst (finish_reconcile_pass u b))"
  by (auto simp: apply_group_plan_send_def apply_group_plan_answer_def exclude_members_def confirm_members_def
      follow_endpoint_send_def set_reconcile_dirty_def finish_reconcile_pass_def Let_def
      split: option.split sum.split intro!: quiet_intros quiet_fold_redispatch)

lemma quiet_follow_answer: "quiet b (follow_endpoint_answer u o' n k moved b)"
  by (auto simp: follow_endpoint_answer_def reload_group_owner_def set_route_media_def Let_def
      split: option.split sum.split intro!: quiet_intros)

section \<open>Start, playback, re-LOAD, fallback, teardown, volume\<close>

lemma quiet_accept_member: "accept_member d rate ring grp b = (b', e, u) \<Longrightarrow> quiet b b'"
proof -
  assume a: "accept_member d rate ring grp b = (b', e, u)"
  show ?thesis
  proof (cases grp)
    case None
    with a quiet_accept_start show ?thesis
      by (auto simp: accept_member_def Let_def split: prod.splits)
  next
    case (Some uuid)
    obtain b2 e2 where en: "enter_group d uuid rate ring b = (b2, e2)" by force
    with a Some quiet_enter_group [OF en quiet_refl] quiet_accept_start show ?thesis
      by (cases e2) (auto simp: accept_member_def Let_def split: prod.splits)
  qed
qed

lemma quiet_start_end: "quiet a b \<Longrightarrow> quiet a (fst (start_end j r b))"
  by (simp add: start_end_def guard_drop_def)

lemma quiet_handle_session_start: "quiet b (fst (handle_session_start d rate ring grp current b))"
  using quiet_accept_member [of d rate ring grp b]
  by (auto simp: handle_session_start_def Let_def split: prod.split group_entry.split
      intro!: quiet_start_end quiet_intros quiet_schedule)

lemma quiet_guard_drop: "quiet a (guard_drop j r b) = quiet a b"
  by (simp add: guard_drop_def)

lemma quiet_playback:
  "quiet b (handle_pause d r now b)" "quiet b (handle_flush d b)" "quiet b (handle_resume d now b)"
  "quiet b (fst (cast_pause_check d g n b))" "quiet b (fst (cast_play_check d g n b))"
  "quiet b (probe_after_pause d g n b)" "quiet b (cast_play_reply d g w b)"
  by (auto simp: handle_pause_def handle_flush_def handle_resume_def plan_resume_def cast_pause_check_def
      cast_play_check_def probe_after_pause_def cast_play_reply_def
      split: option.split sum.split prod.split resume_decision_kind.split resume_action.split
      intro!: quiet_intros)

lemma quiet_accept_reload: "quiet b (fst (accept_reload d g covers b))"
  by (auto simp: accept_reload_def Let_def split: option.split intro!: quiet_intros)

lemma quiet_thread: "quiet b (fst (thread_begin j b))" "quiet b (fst (thread_finish j key r b))"
  by (auto simp: thread_begin_def thread_finish_def load_volume_effect_def Let_def
      split: sum.split option.split intro!: quiet_intros)

lemma quiet_fallback:
  "quiet b (fst (plan_media_recovered_flac d now b))" "quiet a b \<Longrightarrow> quiet a (fst (switch_playing_to_wav d g now b))"
  "quiet b (fst (note_stall_reload_and_flac_strike d g now b))" "quiet b (owe_stall_reload d g b)"
  by (auto simp: plan_media_recovered_flac_def switch_playing_to_wav_def note_stall_reload_and_flac_strike_def
      owe_stall_reload_def Let_def split: option.split prod.split flac_strike_outcome.split
      intro!: quiet_intros)

lemma quiet_on_media_recovered: "quiet b (fst (on_media_recovered key now1 now2 b))"
proof -
  obtain b1 r where p: "plan_media_recovered_flac (cast_key_owner key b) now1 b = (b1, r)" by force
  then have "quiet b b1" using quiet_fallback(1) [of b "cast_key_owner key b" now1] by simp
  then show ?thesis
    by (auto simp: on_media_recovered_def p Let_def apply_media_recovered_plan_def case_prod_beta
        split: option.split intro!: quiet_fallback(2))
qed

lemma quiet_take: "quiet a b \<Longrightarrow> quiet a (fst (take_live_session_if_gen d g b))"
  "quiet a b \<Longrightarrow> quiet a (fst (take_live_session d b))"
  by (auto simp: take_live_session_if_gen_def take_live_session_def
      split: option.split device_state.split intro!: quiet_intros)

lemma quiet_terminal_stall_end: "quiet b (terminal_stall_end d g b)"
  by (auto simp: terminal_stall_end_def Let_def case_prod_beta split: option.split
      intro!: quiet_intros quiet_take quiet_end_group)

lemma quiet_stall_act: "quiet a b \<Longrightarrow> quiet a (fst (stall_act d g now1 now2 action b))"
proof -
  assume ab: "quiet a b"
  obtain b1 r where n: "note_stall_reload_and_flac_strike d g now1 b = (b1, r)" by force
  then have "quiet b b1" using quiet_fallback(3) [of b d g now1] by simp
  with ab have "quiet a b1" by (rule quiet_trans)
  then show ?thesis
    using ab quiet_trans [OF ab quiet_terminal_stall_end]
    by (auto simp: stall_act_def handle_stall_reload_def n case_prod_beta
        split: stall_action_kind.split option.split intro!: quiet_fallback(2))
qed

lemma quiet_stall:
  "quiet b (fst (stall_watchdog_tick d g frames now now1 now2 b))"
  "quiet b (fst (stall_reload_outcome d g now1 now2 tick r b))"
  by (auto simp: stall_watchdog_tick_def stall_reload_outcome_def case_prod_beta
      split: option.split stall_tick.split reload_outcome.split
      intro!: quiet_stall_act quiet_fallback(2) quiet_fallback(4) quiet_terminal_stall_end)

lemma quiet_ends:
  "quiet a b \<Longrightarrow> quiet a (handle_session_end d b)" "quiet b (fst (end_cast_session pc b))"
proof -
  show *: "quiet a (handle_session_end d b)" if "quiet a b" for a b d
    using quiet_take(2) [OF that, of d]
    by (auto simp: handle_session_end_def split: prod.split option.split intro!: quiet_intros)
  show "quiet b (fst (end_cast_session pc b))"
    by (cases pc) (auto simp: case_prod_beta split: option.split intro!: quiet_intros quiet_end_group *)
qed

lemma quiet_end_all: "quiet b (end_all_sessions b)"
  by (auto simp: end_all_sessions_def Let_def intro!: quiet_intros)

lemma quiet_handle_ended: "quiet b (fst (handle_ended d pc b))"
proof (cases pc)
  case (EndedAct dec)
  have "quiet b (fst (group_owner_left d g b))" for g by (rule quiet_group_owner_left)
  then show ?thesis
    unfolding EndedAct
    by (cases dec) (auto split: prod.split bool.split intro!: quiet_end_following quiet_intros, (metis fst_conv)+)
next
  case (EndedTake g)
  have "quiet b (fst (take_live_session_if_gen d g b))" by (simp add: quiet_take(1))
  then show ?thesis
    unfolding EndedTake by (auto split: prod.split option.split intro!: quiet_intros)
qed (auto intro!: quiet_group_check_owner quiet_intros)

lemma quiet_volume:
  "quiet b (handle_volume d level b)" "quiet b (handle_now_playing d np b)"
  "quiet b (on_cast_remote key kind now b)"
  "quiet b (fst (apply_group_volume_turn u now1 now2 status b))"
proof -
  show "quiet b (handle_volume d level b)"
    by (auto simp: handle_volume_def volume_route_of_def set_own_volume_def queue_group_volume_def Let_def
        split: prod.split option.split device_state.split volume_route.split intro!: quiet_intros)
  show "quiet b (handle_now_playing d np b)"
    by (auto simp: handle_now_playing_def Let_def split: option.split intro!: quiet_intros)
  show "quiet b (on_cast_remote key kind now b)"
    by (auto simp: on_cast_remote_def speaker_changed_def pause_locally_for_cast_def record_remote_volume_def
        Let_def split: option.split cast_remote_kind.split prod.split bool.split intro!: quiet_intros)
  show "quiet b (fst (apply_group_volume_turn u now1 now2 status b))"
    by (auto simp: apply_group_volume_turn_def take_group_volume_def set_member_levels_def
        store_group_members_def Let_def split: prod.split option.split sum.split intro!: quiet_intros)
qed

end
