(* ===== verification/Bridge_Tasks.thy ===== *)
theory Bridge_Tasks
  imports Bridge_Frames
begin

text \<open>
  The two remaining long-running tasks of the bridge: the WAV rollover loop
  (\<open>spawn_rollover_reload_loop\<close> in \<open>src/bridge/load.rs\<close>) and the membership reconciliation of a
  group (\<open>run_group_reconcile\<close> in \<open>src/bridge/group.rs\<close>). Like a re-LOAD, both hold the re-LOAD flight
  of their session while they talk to Cast.
\<close>

section \<open>The rollover loop\<close>

record rollover_job =
  ro_sid :: nat
  ro_url :: string

datatype rollover_pc =
    RoIdle u64
  | RoWantFlight u64 media_load_request load_volume_policy
  | RoHolding u64 media_load_request load_volume_policy
  | RoSpawned u64 media_load_request load_volume_policy
  | RoLoading u64 load_volume_policy
  | RoReply u64
  | RoOrphanSpawned media_load_request load_volume_policy
  | RoOrphanLoading load_volume_policy
  | RoStopped

datatype rollover_input = RoSignal u64 | RoFlightFree | RoJoined | RoThreadRuns
  | RoWire "media_session_ref result" | RoResumes

definition rollover_thread_finish ::
  "rollover_job \<Rightarrow> load_volume_policy \<Rightarrow> media_session_ref result \<Rightarrow> bridge \<Rightarrow> bridge" where
  "rollover_thread_finish j policy r b =
     (let b1 = load_volume_effect (ro_sid j) policy r b; c = shared b1 (ro_sid j)
      in if late_load_should_stop (session_alive c) (late_stop_allowed c)
         then emit (CastStop (route_media (route c))) b1 else b1)"

fun rollover_step :: "rollover_job \<Rightarrow> rollover_pc \<Rightarrow> rollover_input \<Rightarrow> bridge \<Rightarrow> bridge \<times> rollover_pc" where
  "rollover_step j (RoIdle seen) (RoSignal signalled) b =
     (let c = shared b (ro_sid j)
      in if signalled \<le> seen then (b, RoIdle seen)
         else if \<not> session_alive c then (b, RoStopped)
         else (b, RoWantFlight signalled (with_track (load_wav (ro_url j) Buffered) (track c))
                    (Rollover (last_volume_linear c))))"
| "rollover_step j (RoWantFlight seen req policy) RoFlightFree b =
     (if reload_flight_held (shared b (ro_sid j)) then (b, RoWantFlight seen req policy)
      else (set_flight (ro_sid j) True b, RoHolding seen req policy))"
| "rollover_step j (RoHolding seen req policy) RoJoined b =
     (if session_alive (shared b (ro_sid j)) then (b, RoSpawned seen req policy)
      else (set_flight (ro_sid j) False b, RoStopped))"
| "rollover_step j (RoSpawned seen req policy) RoThreadRuns b =
     (emit (CastLoad (route_media (route (shared b (ro_sid j)))) req) b, RoLoading seen policy)"
| "rollover_step j (RoLoading seen policy) (RoWire r) b = (rollover_thread_finish j policy r b, RoReply seen)"
| "rollover_step j (RoReply seen) RoResumes b =
     (set_flight (ro_sid j) False b,
      if session_alive (shared b (ro_sid j)) then RoIdle seen else RoStopped)"
| "rollover_step j (RoOrphanSpawned req policy) RoThreadRuns b =
     (emit (CastLoad (route_media (route (shared b (ro_sid j)))) req) b, RoOrphanLoading policy)"
| "rollover_step j (RoOrphanLoading policy) (RoWire r) b = (rollover_thread_finish j policy r b, RoStopped)"
| "rollover_step j pc _ b = (b, pc)"

fun rollover_abort :: "rollover_job \<Rightarrow> rollover_pc \<Rightarrow> bridge \<Rightarrow> bridge \<times> rollover_pc" where
  "rollover_abort j (RoSpawned _ req policy) b = (set_flight (ro_sid j) False b, RoOrphanSpawned req policy)"
| "rollover_abort j (RoLoading _ policy) b = (set_flight (ro_sid j) False b, RoOrphanLoading policy)"
| "rollover_abort j (RoHolding _ _ _) b = (set_flight (ro_sid j) False b, RoStopped)"
| "rollover_abort j (RoReply _) b = (set_flight (ro_sid j) False b, RoStopped)"
| "rollover_abort j (RoOrphanSpawned req policy) b = (b, RoOrphanSpawned req policy)"
| "rollover_abort j (RoOrphanLoading policy) b = (b, RoOrphanLoading policy)"
| "rollover_abort j _ b = (b, RoStopped)"

section \<open>Group reconciliation\<close>

datatype group_pc =
    GrSleeping
  | GrWantFlight group_plan
  | GrSent group_plan
  | GrMoving group_plan string
  | GrFinish
  | GrEnded

datatype group_input =
    GrTick
  | GrFlightFree
  | GrAnswer "playback_session_update result"
  | GrMoved "unit result"

fun group_step :: "string \<Rightarrow> group_pc \<Rightarrow> group_input \<Rightarrow> bridge \<Rightarrow> bridge \<times> group_pc" where
  "group_step u GrSleeping GrTick b =
     (case set_reconcile_dirty u False b of
        (b', False) \<Rightarrow> (b', GrEnded)
      | (b', True) \<Rightarrow>
          (case group_plan u b' of
             None \<Rightarrow> (b', GrFinish)
           | Some plan \<Rightarrow> (b', GrWantFlight plan)))"
| "group_step u (GrWantFlight plan) GrFlightFree b =
     (if reload_flight_held (shared b (gp_sid plan)) then (b, GrWantFlight plan)
      else (apply_group_plan_send plan (set_flight (gp_sid plan) True b), GrSent plan))"
| "group_step u (GrSent plan) (GrAnswer r) b =
     (case apply_group_plan_answer u plan r b of
        (b', None) \<Rightarrow> (set_flight (gp_sid plan) False b', GrFinish)
      | (b', Some e) \<Rightarrow>
          (case follow_endpoint_send (gp_sid plan) e b' of
             (b2, None) \<Rightarrow> (set_flight (gp_sid plan) False b2, GrFinish)
           | (b2, Some (old_key, new_key)) \<Rightarrow> (b2, GrMoving plan new_key)))"
| "group_step u (GrMoving plan new_key) (GrMoved r) b =
     (set_flight (gp_sid plan) False
        (follow_endpoint_answer u (gp_owner plan) (gp_sid plan) new_key r b), GrFinish)"
| "group_step u GrFinish GrTick b =
     (case finish_reconcile_pass u b of
        (b', True) \<Rightarrow> (b', GrEnded)
      | (b', False) \<Rightarrow> (b', GrSleeping))"
| "group_step u pc _ b = (b, pc)"

section \<open>Who holds the flight\<close>

fun reload_holds :: "reload_status \<Rightarrow> bool" where
  "reload_holds (ReloadRunning RlLead) = True"
| "reload_holds (ReloadRunning (RlSpawned _ _)) = True"
| "reload_holds (ReloadRunning (RlLoading _ _)) = True"
| "reload_holds (ReloadRunning (RlReply _ _ _)) = True"
| "reload_holds (ReloadRunning (RlDiscard _)) = True"
| "reload_holds _ = False"

fun rollover_holds :: "rollover_pc \<Rightarrow> bool" where
  "rollover_holds (RoHolding _ _ _) = True"
| "rollover_holds (RoSpawned _ _ _) = True"
| "rollover_holds (RoLoading _ _) = True"
| "rollover_holds (RoReply _) = True"
| "rollover_holds _ = False"

fun group_holds :: "group_pc \<Rightarrow> nat option" where
  "group_holds (GrSent plan) = Some (gp_sid plan)"
| "group_holds (GrMoving plan _) = Some (gp_sid plan)"
| "group_holds _ = None"

section \<open>Preservation\<close>

lemma rollover_thread_finish_ok: "bridge_ok b \<Longrightarrow> bridge_ok (rollover_thread_finish j p r b)"
  by (auto simp: rollover_thread_finish_def load_volume_effect_def Let_def split: sum.splits option.splits
      intro!: emit_ok)

lemma rollover_step_ok: "bridge_ok b \<Longrightarrow> bridge_ok (fst (rollover_step j pc inp b))"
  by (cases pc; cases inp) (auto simp: Let_def set_flight_ok rollover_thread_finish_ok intro!: emit_ok)

lemma rollover_abort_ok: "bridge_ok b \<Longrightarrow> bridge_ok (fst (rollover_abort j pc b))"
  by (cases pc) (auto simp: set_flight_ok)

lemma group_step_ok:
  assumes ok: "bridge_ok b"
  shows "bridge_ok (fst (group_step u pc inp b))"
proof -
  have d: "bridge_ok b'" if "set_reconcile_dirty u False b = (b', x)" for b' x
    using set_reconcile_dirty_False_ok [OF ok, of u] that by simp
  have f: "bridge_ok b'" if "finish_reconcile_pass u b = (b', x)" for b' x
    using finish_reconcile_pass_ok [OF ok, of u] that by simp
  have a: "bridge_ok b'" if "apply_group_plan_answer u plan r b = (b', x)" for plan r b' x
    using apply_group_plan_answer_ok [OF ok, of u plan r] that by simp
  have s: "bridge_ok b2" if "follow_endpoint_send n e b' = (b2, x)" "bridge_ok b'" for n e b' b2 x
    using follow_endpoint_send_ok [OF that(2), of n e] that(1) by simp
  show ?thesis
    by (cases pc; cases inp)
      (auto simp: ok set_flight_ok follow_endpoint_answer_ok split: prod.splits option.splits bool.splits
        intro!: apply_group_plan_send_ok set_flight_ok dest: d f a s)
qed

lemma evolves_rollover_step: "evolves b (fst (rollover_step j pc inp b))"
  by (cases pc; cases inp)
    (auto simp: Let_def rollover_thread_finish_def load_volume_effect_def split: sum.splits option.splits)

lemma evolves_rollover_abort: "evolves b (fst (rollover_abort j pc b))"
  by (cases pc) auto

lemma evolves_group_step: "evolves b (fst (group_step u pc inp b))"
proof -
  have d: "evolves b b'" if "set_reconcile_dirty u False b = (b', x)" for b' x
    using evolves_group_ops(9) [of b u False] that by simp
  have f: "evolves b b'" if "finish_reconcile_pass u b = (b', x)" for b' x
    using evolves_group_ops(10) [of b u] that by simp
  have a: "evolves b b'" if "apply_group_plan_answer u plan r b = (b', x)" for plan r b' x
    using evolves_group_ops(7) [of b u plan r] that by simp
  have s: "evolves b b2" if "follow_endpoint_send n e b' = (b2, x)" "evolves b b'" for n e b' b2 x
    using evolves_trans [OF that(2)] evolves_group_ops(8) [of b' n e] that(1) by simp
  have send: "evolves b (apply_group_plan_send plan (set_flight n v b))" for plan n v
    by (rule evolves_trans [OF _ evolves_group_ops(6)]) simp
  show ?thesis
    by (cases pc; cases inp)
      (auto simp: send split: prod.splits option.splits bool.splits dest: d f a s)
qed

end
