(* ===== verification/Bridge_System.thy ===== *)
theory Bridge_System
  imports Bridge_Tasks
begin

text \<open>
  The whole bridge: the shared state together with every task that can be in flight, and one step
  relation that interleaves them freely. Event handlers, callbacks of the Cast pool and watchdog
  ticks are atomic operations (\<open>bridge_op\<close>); session starts, re-LOADs, rollover loops, group
  reconciliations and teardowns advance one wait at a time.

  The relation allows more schedules than the program has (any number of tasks of each kind, at any
  moment), so what is proved of every reachable state holds of every run of the program. The one
  assumption is that a device's generation counter, which saturates at \<open>2^64 - 1\<close>, is not full when a
  start is accepted.
\<close>

section \<open>Events and operations\<close>

text \<open>
  What a device worker does with an event other than \<open>Started\<close>: transport events of a group
  follower are left to the owner. Of \<open>Ended\<close> this is the decision, which changes nothing; the points that
  follow it are \<open>OpEnded\<close>. \<open>OpEndCastSession\<close> is one point of a lost Cast session.
\<close>

fun dispatch_event ::
  "airplay_event \<Rightarrow> ring_ref option \<Rightarrow> instant \<Rightarrow> bridge \<Rightarrow> bridge" where
  "dispatch_event (EvStarted d rate ring grp) current now b =
     fst (handle_session_start d rate ring grp current b)"
| "dispatch_event (EvEnded d) current now b = b"
| "dispatch_event (EvPaused d at) current now b =
     (if is_following d b then b else handle_pause d at now b)"
| "dispatch_event (EvResumed d) current now b =
     (if is_following d b then b else handle_resume d now b)"
| "dispatch_event (EvFlushed d) current now b =
     (if is_following d b then b else handle_flush d b)"
| "dispatch_event (EvVolume d volume_db) current now b = handle_volume d (airplay_db_to_cast_linear volume_db) b"
| "dispatch_event (EvNowPlaying d np) current now b = handle_now_playing d np b"

datatype bridge_op =
    OpEvent airplay_event "ring_ref option" instant
  | OpGroupCheck string
  | OpCastRemote string cast_remote_kind instant
  | OpEnded string ended_pc
  | OpEndCastSession cast_end_pc
  | OpEndSession string
  | OpEndAll
  | OpForgetGroups
  | OpMediaRecovered string instant instant
  | OpStallTick string u64 usize instant instant instant
  | OpStallOutcome string u64 instant instant stall_tick reload_outcome
  | OpPauseCheck string u64 nat
  | OpPlayCheck string u64 nat
  | OpPlayReply string u64 "unit result"
  | OpProbe string u64 nat
  | OpVolumeTurn string instant instant "multizone_member list result"

fun apply_op :: "bridge_op \<Rightarrow> bridge \<Rightarrow> bridge" where
  "apply_op (OpEvent ev current now) b = dispatch_event ev current now b"
| "apply_op (OpGroupCheck d) b = group_check_owner d b"
| "apply_op (OpCastRemote key kind now) b = on_cast_remote key kind now b"
| "apply_op (OpEnded d pc) b = fst (handle_ended d pc b)"
| "apply_op (OpEndCastSession pc) b = fst (end_cast_session pc b)"
| "apply_op (OpEndSession d) b = handle_session_end d b"
| "apply_op OpEndAll b = end_all_sessions b"
| "apply_op OpForgetGroups b = forget_all_groups b"
| "apply_op (OpMediaRecovered key now1 now2) b = fst (on_media_recovered key now1 now2 b)"
| "apply_op (OpStallTick d g frames now now1 now2) b = fst (stall_watchdog_tick d g frames now now1 now2 b)"
| "apply_op (OpStallOutcome d g now1 now2 tick r) b = fst (stall_reload_outcome d g now1 now2 tick r b)"
| "apply_op (OpPauseCheck d g n) b = fst (cast_pause_check d g n b)"
| "apply_op (OpPlayCheck d g n) b = fst (cast_play_check d g n b)"
| "apply_op (OpPlayReply d g r) b = cast_play_reply d g r b"
| "apply_op (OpProbe d g n) b = probe_after_pause d g n b"
| "apply_op (OpVolumeTurn u now1 now2 status) b =
     fst (apply_group_volume_turn u now1 now2 status b)"

fun is_start :: "bridge_op \<Rightarrow> bool" where
  "is_start (OpEvent (EvStarted _ _ _ _) _ _) = True"
| "is_start _ = False"

lemma apply_op_ok: "bridge_ok b \<Longrightarrow> bridge_ok (apply_op op b)"
proof (cases op)
  case (OpEvent ev current now)
  then show "bridge_ok b \<Longrightarrow> ?thesis"
    by (cases ev) (auto simp: handle_session_start_ok handle_pause_ok
        handle_resume_ok handle_flush_ok handle_volume_ok handle_now_playing_ok)
qed (auto simp: group_check_owner_ok on_cast_remote_ok handle_ended_ok end_cast_session_ok handle_session_end_ok
    forget_all_groups_ok
    end_all_sessions_ok on_media_recovered_ok stall_watchdog_tick_ok stall_reload_outcome_ok
    cast_pause_check_ok cast_play_check_ok cast_play_reply_ok probe_after_pause_ok apply_group_volume_turn_ok)

lemma quiet_op: "quiet b (apply_op op b)"
proof (cases op)
  case (OpEvent ev current now)
  then show ?thesis
    by (cases ev) (auto simp: quiet_handle_session_start quiet_playback quiet_volume intro: quiet_intros)
qed (auto simp: quiet_group_check_owner quiet_volume quiet_ends quiet_handle_ended quiet_end_all quiet_forget_all quiet_on_media_recovered
    quiet_stall quiet_playback)

lemma evolves_op: "\<not> is_start op \<Longrightarrow> evolves b (apply_op op b)"
proof (cases op)
  case (OpEvent ev current now)
  then show "\<not> is_start op \<Longrightarrow> ?thesis"
    by (cases ev) auto
qed (auto simp: evolves_handle_ended evolves_end_cast_session evolves_end_all_sessions evolves_forget_all_groups evolves_on_media_recovered
    evolves_stall_tick evolves_stall_outcome)

section \<open>Tasks in flight\<close>

record system =
  sys_bridge :: bridge
  start_tasks :: "(start_job \<times> start_status) list"
  reload_tasks :: "(reload_job \<times> reload_status) list"
  rollover_tasks :: "(rollover_job \<times> rollover_pc) list"
  group_tasks :: "(string \<times> group_pc) list"
  td_pcs :: "nat \<Rightarrow> td_pc"

text \<open>The \<open>i\<close>-th of the \<open>teardowns\<close> runs at \<open>td_pcs i\<close>.\<close>

definition sys_new :: "registry \<Rightarrow> system" where
  "sys_new r = \<lparr>sys_bridge = bridge_new r, start_tasks = [], reload_tasks = [], rollover_tasks = [],
     group_tasks = [], td_pcs = (\<lambda>_. TdStart)\<rparr>"

inductive sys_step :: "system \<Rightarrow> system \<Rightarrow> bool" where
  op: "\<not> is_start op \<Longrightarrow> sys_step x (x\<lparr>sys_bridge := apply_op op (sys_bridge x)\<rparr>)"
| start_begin:
    "slot_generation (slot_of d (sys_bridge x)) \<noteq> - 1 \<Longrightarrow>
     handle_session_start d rate ring grp current (sys_bridge x) = (b', st) \<Longrightarrow>
     sys_step x (x\<lparr>sys_bridge := b',
       start_tasks := start_tasks x @ (case st of StartRunning j _ \<Rightarrow> [(j, st)] | _ \<Rightarrow> [])\<rparr>)"
| start_go:
    "i < length (start_tasks x) \<Longrightarrow> start_tasks x ! i = (j, StartRunning j' pc) \<Longrightarrow>
     start_step j pc inp (sys_bridge x) = (b', st) \<Longrightarrow>
     sys_step x (x\<lparr>sys_bridge := b', start_tasks := (start_tasks x)[i := (j, st)]\<rparr>)"
| start_drop:
    "i < length (start_tasks x) \<Longrightarrow> start_tasks x ! i = (j, StartRunning j' pc) \<Longrightarrow>
     sys_step x (x\<lparr>sys_bridge := start_abandoned j (sys_bridge x),
       start_tasks := (start_tasks x)[i := (j, StartEnded (Inr ()))]\<rparr>)"
| reload_begin:
    "reload_plan d g flush (sys_bridge x) = Inr j \<Longrightarrow>
     sys_step x (x\<lparr>reload_tasks := reload_tasks x @ [(j, ReloadRunning RlWantFlight)]\<rparr>)"
| reload_go:
    "i < length (reload_tasks x) \<Longrightarrow> reload_tasks x ! i = (j, ReloadRunning pc) \<Longrightarrow>
     reload_step j pc inp (sys_bridge x) = (b', st) \<Longrightarrow>
     sys_step x (x\<lparr>sys_bridge := b', reload_tasks := (reload_tasks x)[i := (j, st)]\<rparr>)"
| reload_aborted:
    "i < length (reload_tasks x) \<Longrightarrow> reload_tasks x ! i = (j, ReloadRunning pc) \<Longrightarrow>
     reload_abort j pc (sys_bridge x) = (b', st) \<Longrightarrow>
     sys_step x (x\<lparr>sys_bridge := b', reload_tasks := (reload_tasks x)[i := (j, st)]\<rparr>)"
| rollover_begin:
    "ro_sid j < next_sid (sys_bridge x) \<Longrightarrow>
     sys_step x (x\<lparr>rollover_tasks := rollover_tasks x @ [(j, RoIdle 0)]\<rparr>)"
| rollover_go:
    "i < length (rollover_tasks x) \<Longrightarrow> rollover_tasks x ! i = (j, pc) \<Longrightarrow>
     rollover_step j pc inp (sys_bridge x) = (b', pc') \<Longrightarrow>
     sys_step x (x\<lparr>sys_bridge := b', rollover_tasks := (rollover_tasks x)[i := (j, pc')]\<rparr>)"
| rollover_aborted:
    "i < length (rollover_tasks x) \<Longrightarrow> rollover_tasks x ! i = (j, pc) \<Longrightarrow>
     rollover_abort j pc (sys_bridge x) = (b', pc') \<Longrightarrow>
     sys_step x (x\<lparr>sys_bridge := b', rollover_tasks := (rollover_tasks x)[i := (j, pc')]\<rparr>)"
| group_begin: "sys_step x (x\<lparr>group_tasks := group_tasks x @ [(u, GrSleeping)]\<rparr>)"
| group_go:
    "i < length (group_tasks x) \<Longrightarrow> group_tasks x ! i = (u, pc) \<Longrightarrow>
     group_step u pc inp (sys_bridge x) = (b', pc') \<Longrightarrow>
     sys_step x (x\<lparr>sys_bridge := b', group_tasks := (group_tasks x)[i := (u, pc')]\<rparr>)"
| teardown_go:
    "i < length (teardowns (effects (sys_bridge x))) \<Longrightarrow>
     td_step (teardowns (effects (sys_bridge x)) ! i) (td_pcs x i) stopped (sys_bridge x) = (b', pc') \<Longrightarrow>
     sys_step x (x\<lparr>sys_bridge := b', td_pcs := (td_pcs x)(i := pc')\<rparr>)"

inductive reachable :: "registry \<Rightarrow> system \<Rightarrow> bool" for r where
  init: "reachable r (sys_new r)"
| step: "reachable r x \<Longrightarrow> sys_step x y \<Longrightarrow> reachable r y"

inductive_cases sys_stepE: "sys_step x y"

end
