(* ===== verification/Bridge_Safety.thy ===== *)
theory Bridge_Safety
  imports Bridge_System
begin

text \<open>
  The invariant of the whole bridge (\<open>sys_ok\<close>) and its preservation by every step of the system:
  well-formed state, re-LOAD tasks that still talk about their own session, one holder per re-LOAD
  flight, and teardown flags that stay in step with their teardown.
\<close>

section \<open>The invariant\<close>

definition session_at :: "string \<Rightarrow> bridge \<Rightarrow> device_state" where
  "session_at d b = slot_state (slot_of d b)"

definition reload_task_ok :: "bridge \<Rightarrow> reload_job \<Rightarrow> reload_status \<Rightarrow> bool" where
  "reload_task_ok b j st \<longleftrightarrow>
     rj_sid j < next_sid b \<and>
     rj_generation j \<le> slot_generation (slot_of (rj_device j) b) \<and>
     (case slot_state (slot_of (rj_device j) b) of
        Idle \<Rightarrow> True
      | Starting g \<Rightarrow> g \<noteq> rj_generation j
      | Following g _ \<Rightarrow> g \<noteq> rj_generation j
      | Playing g s \<Rightarrow> g = rj_generation j \<longrightarrow> sid s = rj_sid j \<and>
          (case st of
             ReloadRunning pc \<Rightarrow>
               (case pc_covers pc of Some c \<Rightarrow> c \<le> flush_reload_requested s | None \<Rightarrow> True)
           | ReloadEnded _ \<Rightarrow> True))"

definition count_if :: "('a \<Rightarrow> bool) \<Rightarrow> 'a list \<Rightarrow> nat" where
  "count_if p xs = length (filter p xs)"

definition flight_holders :: "nat \<Rightarrow> system \<Rightarrow> nat" where
  "flight_holders n x =
     count_if (\<lambda>(j, st). reload_holds st \<and> rj_sid j = n) (reload_tasks x) +
     count_if (\<lambda>(j, pc). rollover_holds pc \<and> ro_sid j = n) (rollover_tasks x) +
     count_if (\<lambda>(u, pc). group_holds pc = Some n) (group_tasks x)"

definition flights_ok :: "system \<Rightarrow> bool" where
  "flights_ok x \<longleftrightarrow>
     (\<forall>n. flight_holders n x = (if reload_flight_held (shared (sys_bridge x) n) then 1 else 0))"

definition teardowns_ok :: "system \<Rightarrow> bool" where
  "teardowns_ok x \<longleftrightarrow>
     (\<forall>i < length (teardowns (effects (sys_bridge x))).
        td_flags_ok (td_policy (teardowns (effects (sys_bridge x)) ! i)) (td_pcs x i)
          (shared (sys_bridge x) (sid (td_session (teardowns (effects (sys_bridge x)) ! i))))) \<and>
     (\<forall>i \<ge> length (teardowns (effects (sys_bridge x))). td_pcs x i = TdStart)"

fun group_sid :: "group_pc \<Rightarrow> nat option" where
  "group_sid (GrWantFlight plan) = Some (gp_sid plan)"
| "group_sid (GrSent plan) = Some (gp_sid plan)"
| "group_sid (GrMoving plan _) = Some (gp_sid plan)"
| "group_sid _ = None"

definition sys_ok :: "system \<Rightarrow> bool" where
  "sys_ok x \<longleftrightarrow>
     bridge_ok (sys_bridge x) \<and>
     (\<forall>t \<in> set (start_tasks x). job_ok (fst t)) \<and>
     (\<forall>t \<in> set (reload_tasks x). reload_task_ok (sys_bridge x) (fst t) (snd t)) \<and>
     (\<forall>t \<in> set (rollover_tasks x). ro_sid (fst t) < next_sid (sys_bridge x)) \<and>
     (\<forall>t \<in> set (group_tasks x). \<forall>n. group_sid (snd t) = Some n \<longrightarrow> n < next_sid (sys_bridge x)) \<and>
     flights_ok x \<and> teardowns_ok x"

section \<open>Counting\<close>

lemma count_if_append [simp]: "count_if p (xs @ ys) = count_if p xs + count_if p ys"
  by (simp add: count_if_def)

lemma count_if_single [simp]: "count_if p [x] = of_bool (p x)"
  by (simp add: count_if_def)

lemma count_if_Nil [simp]: "count_if p [] = 0"
  by (simp add: count_if_def)

lemma count_if_update:
  "i < length xs \<Longrightarrow> count_if p (xs[i := y]) + of_bool (p (xs ! i)) = count_if p xs + of_bool (p y)"
proof (induction xs arbitrary: i)
  case Nil
  then show ?case by simp
next
  case (Cons x xs)
  then show ?case by (cases i) (auto simp: count_if_def split: if_splits)
qed

lemma count_if_pos: "i < length xs \<Longrightarrow> p (xs ! i) \<Longrightarrow> 0 < count_if p xs"
  by (auto simp: count_if_def filter_empty_conv dest: nth_mem)

section \<open>Frames\<close>

text \<open>What a step of a task that may hold the flight of session \<open>n\<close> does to the flags.\<close>

definition flight_step :: "nat \<Rightarrow> bool \<Rightarrow> bool \<Rightarrow> bridge \<Rightarrow> bridge \<Rightarrow> bool" where
  "flight_step n h h' b b' \<longleftrightarrow>
     next_sid b' = next_sid b \<and> (\<exists>es. effects b' = effects b @ es) \<and>
     (\<forall>m. session_alive (shared b' m) = session_alive (shared b m) \<and>
          late_stop_allowed (shared b' m) = late_stop_allowed (shared b m)) \<and>
     (\<forall>m. m \<noteq> n \<longrightarrow> reload_flight_held (shared b' m) = reload_flight_held (shared b m)) \<and>
     ((h \<longrightarrow> reload_flight_held (shared b n)) \<longrightarrow>
        of_bool (reload_flight_held (shared b' n)) + of_bool h =
        (of_bool (reload_flight_held (shared b n)) + of_bool h' :: nat))"

lemma flight_step_quiet: "quiet b b' \<Longrightarrow> flight_step n h h b b'"
  by (auto simp: flight_step_def quiet_def cell_flags_def)

lemma flight_step_release: "quiet b b' \<Longrightarrow> flight_step n True False b (set_flight n False b')"
  by (auto simp: flight_step_def quiet_def cell_flags_def set_flight_def)

lemma flight_step_after: "flight_step n h h' b b' \<Longrightarrow> quiet b' b2 \<Longrightarrow> flight_step n h h' b b2"
  by (auto simp: flight_step_def quiet_def cell_flags_def)

lemma flight_step_take:
  "\<not> reload_flight_held (shared b n) \<Longrightarrow> flight_step n False True b (set_flight n True b)"
  by (auto simp: flight_step_def set_flight_def)

lemma set_flight_twice: "set_flight n v (set_flight n w b) = set_flight n v b"
  by (simp add: set_flight_def upd_cells_def)

lemma set_flight_same: "\<not> reload_flight_held (shared b n) \<Longrightarrow> quiet b (set_flight n False b)"
  by (auto simp: quiet_def set_flight_def cell_flags_def)

lemma quiet_confirm_accept:
  "accept_reload d g covers b = (b1, v) \<Longrightarrow> quiet b b1"
  using quiet_accept_reload [of b d g covers] by simp

lemma reload_step_flight:
  assumes "reload_step j pc inp b = (b', st)"
  shows "flight_step (rj_sid j) (reload_holds (ReloadRunning pc)) (reload_holds st) b b'"
proof (cases pc)
  case RlWantFlight
  show ?thesis
  proof (cases "inp = FlightFree \<and> \<not> reload_flight_held (shared b (rj_sid j))")
    case True
    then have "reload_enter j b = (b', st)" using assms RlWantFlight by simp
    then show ?thesis
      using True flight_step_take [of b "rj_sid j"] set_flight_same [of b "rj_sid j"]
      by (auto simp: RlWantFlight reload_enter_def reload_end_def Let_def set_flight_twice
          split: reload_gate_kind.splits intro: flight_step_quiet)
  next
    case False
    then have "b' = b" "st = ReloadRunning RlWantFlight"
      using assms RlWantFlight by (cases inp; auto)+
    then show ?thesis by (simp add: RlWantFlight flight_step_quiet)
  qed
next
  case RlLead
  then show ?thesis
    using assms
    by (cases inp) (auto simp: reload_publish_def reload_end_def Let_def
        split: reload_gate_kind.splits if_splits intro!: flight_step_quiet flight_step_release)
next
  case (RlSpawned c key)
  have q: "quiet b b1" if "thread_begin j b = (b1, x)" for b1 x
    using quiet_thread(1) [of b j] that by simp
  from RlSpawned assms show ?thesis
    by (cases inp) (auto simp: reload_end_def split: prod.splits thread_start.splits
        intro!: flight_step_quiet flight_step_release dest: q)
next
  case (RlLoading c key)
  have q: "quiet b b1" if "thread_finish j key r b = (b1, x)" for b1 x r
    using quiet_thread(2) [of b j key r] that by simp
  from RlLoading assms show ?thesis
    by (cases inp) (auto simp: reload_end_def split: prod.splits load_attempt.splits
        intro!: flight_step_quiet flight_step_release dest: q)
next
  case (RlReply c key r)
  show ?thesis
  proof (cases "inp = TaskResumes")
    case True
    obtain b1 v where a: "accept_reload (rj_device j) (rj_generation j) c b = (b1, v)" by force
    from quiet_confirm_accept [OF a] quiet_confirm [of b b1 "rj_device j"] RlReply True assms show ?thesis
      by (auto simp: reload_accept_def a reload_end_def Let_def split: sum.splits if_splits
          intro!: flight_step_quiet flight_step_release quiet_intros)
  next
    case False
    with RlReply assms have "b' = b" "st = ReloadRunning pc" by (cases inp; auto)+
    then show ?thesis by (simp add: flight_step_quiet)
  qed
next
  case (RlDiscard r)
  then show ?thesis
    using assms by (cases inp) (auto simp: reload_end_def intro!: flight_step_quiet flight_step_release)
next
  case (RlOrphanSpawned key)
  have q: "quiet b b1" if "thread_begin j b = (b1, x)" for b1 x
    using quiet_thread(1) [of b j] that by simp
  from RlOrphanSpawned assms show ?thesis
    by (cases inp) (auto split: prod.splits thread_start.splits intro!: flight_step_quiet dest: q)
next
  case (RlOrphanLoading key)
  then show ?thesis
    using assms by (cases inp) (auto intro!: flight_step_quiet quiet_thread(2))
qed

lemma reload_abort_flight:
  assumes "reload_abort j pc b = (b', st)"
  shows "flight_step (rj_sid j) (reload_holds (ReloadRunning pc)) (reload_holds st) b b'"
  using assms by (cases pc) (auto simp: reload_end_def intro!: flight_step_quiet flight_step_release)

lemma quiet_rollover_finish: "quiet b (rollover_thread_finish j p r b)"
  by (auto simp: rollover_thread_finish_def load_volume_effect_def Let_def
      split: sum.split option.split intro!: quiet_intros)

lemma rollover_step_flight:
  assumes "rollover_step j pc inp b = (b', pc')"
  shows "flight_step (ro_sid j) (rollover_holds pc) (rollover_holds pc') b b'"
  using assms
  by (cases pc; cases inp)
    (auto simp: Let_def split: if_splits
      intro!: flight_step_quiet flight_step_release flight_step_take quiet_intros quiet_rollover_finish)

lemma rollover_abort_flight:
  assumes "rollover_abort j pc b = (b', pc')"
  shows "flight_step (ro_sid j) (rollover_holds pc) (rollover_holds pc') b b'"
  using assms by (cases pc) (auto intro!: flight_step_quiet flight_step_release)

lemma group_step_flight:
  assumes "group_step u pc inp b = (b', pc')" "\<And>n'. group_sid pc = Some n' \<Longrightarrow> n' = n"
  shows "flight_step n (group_holds pc = Some n) (group_holds pc' = Some n) b b'"
proof -
  have d: "quiet b b1" if "set_reconcile_dirty u False b = (b1, x)" for b1 x
    using quiet_plan(4) [of b u False] that by simp
  have f: "quiet b b1" if "finish_reconcile_pass u b = (b1, x)" for b1 x
    using quiet_plan(5) [of b u] that by simp
  have a: "quiet b b1" if "apply_group_plan_answer u plan r b = (b1, x)" for plan r b1 x
    using quiet_plan(2) [of b u plan r] that by simp
  have s: "quiet b b2" if "follow_endpoint_send m e b1 = (b2, x)" "quiet b b1" for m e b1 b2 x
    using quiet_trans [OF that(2)] quiet_plan(3) [of b1 m e] that(1) by simp
  show ?thesis
    using assms
    by (cases pc; cases inp)
      (auto split: prod.splits option.splits bool.splits if_splits
        intro!: flight_step_quiet flight_step_release flight_step_after [OF flight_step_take]
          quiet_plan(1) quiet_follow_answer dest: d f a s)
qed

section \<open>Re-LOAD tasks keep talking about their session\<close>

lemma reload_task_ok_evolves:
  assumes "reload_task_ok b j st" "evolves b b'" "next_sid b \<le> next_sid b'"
  shows "reload_task_ok b' j st"
proof -
  let ?a = "slot_of (rj_device j) b" and ?z = "slot_of (rj_device j) b'"
  have ev: "slot_evolves ?a ?z" using assms(2) by (simp add: evolves_def)
  have gen: "rj_generation j \<le> slot_generation ?a" using assms(1) by (simp add: reload_task_ok_def)
  moreover have "slot_generation ?a \<le> slot_generation ?z" using ev by (simp add: slot_evolves_def)
  ultimately have gz: "rj_generation j \<le> slot_generation ?z" by order
  have nxt: "rj_sid j < next_sid b'" using assms(1,3) by (simp add: reload_task_ok_def)
  have fresh: "\<not> slot_generation ?a < rj_generation j" using gen by simp
  show ?thesis
  proof (cases "slot_state ?z")
    case (Playing g s')
    show ?thesis
    proof (cases "g = rj_generation j")
      case False
      with Playing gz nxt show ?thesis by (simp add: reload_task_ok_def)
    next
      case True
      with ev fresh Playing obtain s where a: "slot_state ?a = Playing g s" "sid s = sid s'"
        "flush_reload_requested s \<le> flush_reload_requested s'"
        using assms(1) by (auto simp: slot_evolves_def reload_task_ok_def split: device_state.splits)
      have "c \<le> flush_reload_requested s'" if "st = ReloadRunning pc" "pc_covers pc = Some c" for pc c
        using assms(1) a True that by (auto simp: reload_task_ok_def)
      with assms(1) a True Playing gz nxt show ?thesis
        by (auto simp: reload_task_ok_def split: reload_status.splits option.splits)
    qed
  qed (use assms(1) ev fresh gz nxt in \<open>auto simp: reload_task_ok_def slot_evolves_def split: device_state.splits\<close>)
qed

lemma reload_task_ok_end: "reload_task_ok b j st \<Longrightarrow> reload_task_ok b j (ReloadEnded r)"
  by (auto simp: reload_task_ok_def split: device_state.splits)

lemma reload_task_ok_pc:
  "reload_task_ok b j st \<Longrightarrow> pc_covers pc = None \<Longrightarrow> reload_task_ok b j (ReloadRunning pc)"
  by (auto simp: reload_task_ok_def split: device_state.splits)

lemma reload_task_ok_same_covers:
  "reload_task_ok b j (ReloadRunning pc) \<Longrightarrow> pc_covers pc' = pc_covers pc \<Longrightarrow>
   reload_task_ok b j (ReloadRunning pc')"
  by (auto simp: reload_task_ok_def split: device_state.splits option.splits)

lemma reload_task_ok_covers:
  "reload_task_ok b j (ReloadRunning pc) \<Longrightarrow> pc_covers pc = Some c \<Longrightarrow> covers_ok j c b"
  by (auto simp: covers_ok_def reload_task_ok_def playing_at_slot)

lemma playing_at_default_slot: "slot_state (slot_of d b) = Playing g s \<Longrightarrow> playing_at d b = Some (g, s)"
  by (auto simp: playing_at_slot slot_of_def hm_entry_def default_slot_def split: option.splits)

lemma reload_publish_covers:
  assumes "reload_task_ok b j (ReloadRunning RlLead)" "reload_publish j b = (b', st)"
  shows "reload_task_ok b' j st"
proof -
  have ev: "evolves b b'" "next_sid b \<le> next_sid b'"
    using assms(2) by (auto simp: reload_publish_def reload_end_def Let_def set_flight_def
        split: reload_gate_kind.splits if_splits)
  have b': "reload_task_ok b' j (ReloadRunning RlLead)" by (rule reload_task_ok_evolves [OF assms(1) ev])
  show ?thesis
  proof (cases "\<exists>c key. st = ReloadRunning (RlSpawned c key)")
    case False
    then have "\<exists>r. st = ReloadEnded r"
      using assms(2) by (auto simp: reload_publish_def reload_end_def Let_def split: reload_gate_kind.splits if_splits)
    with reload_task_ok_end [OF b'] show ?thesis by auto
  next
    case True
    then obtain c key where st: "st = ReloadRunning (RlSpawned c key)" by blast
    with assms(2) have gate: "reload_gate (rj_device j) (rj_generation j) (rj_flush j) b = Proceed c" and "b' = b"
      by (auto simp: reload_publish_def reload_end_def Let_def split: reload_gate_kind.splits if_splits)
    then obtain s where p: "playing_at (rj_device j) b = Some (rj_generation j, s)"
      and c: "c = flush_reload_requested s"
      by (auto simp: reload_gate_def reload_validity_def split: option.splits if_splits)
    have "slot_state (slot_of (rj_device j) b) = Playing (rj_generation j) s"
      using p by (simp add: playing_at_slot)
    with b' c \<open>b' = b\<close> show ?thesis by (simp add: st reload_task_ok_def)
  qed
qed

lemma next_sid_flight_step: "flight_step n h h' b b' \<Longrightarrow> next_sid b' = next_sid b"
  by (simp add: flight_step_def)

lemma reload_step_task_ok:
  assumes "reload_task_ok b j (ReloadRunning pc)" "reload_step j pc inp b = (b', st)"
  shows "reload_task_ok b' j st"
proof -
  have ev: "evolves b b'" using evolves_reload_step [of b j pc inp] assms(2) by simp
  have nx: "next_sid b \<le> next_sid b'" using next_sid_flight_step [OF reload_step_flight [OF assms(2)]] by simp
  have b': "reload_task_ok b' j (ReloadRunning pc)" by (rule reload_task_ok_evolves [OF assms(1) ev nx])
  show ?thesis
  proof (cases "pc = RlLead \<and> inp = LeadReached")
    case True
    with assms reload_publish_covers show ?thesis by simp
  next
    case False
    have "(\<exists>r. st = ReloadEnded r) \<or> (\<exists>pc'. st = ReloadRunning pc' \<and> (pc_covers pc' = pc_covers pc \<or> pc_covers pc' = None))"
      using assms(2) False
      by (cases pc; cases inp)
        (auto simp: reload_enter_def reload_accept_def reload_end_def Let_def
          split: prod.splits reload_gate_kind.splits thread_start.splits load_attempt.splits sum.splits if_splits)
    then show ?thesis
      using b' reload_task_ok_end reload_task_ok_pc reload_task_ok_same_covers by metis
  qed
qed

lemma reload_abort_task_ok:
  assumes "reload_task_ok b j (ReloadRunning pc)" "reload_abort j pc b = (b', st)"
  shows "reload_task_ok b' j st"
proof -
  have ev: "evolves b b'" using evolves_reload_abort [of b j pc] assms(2) by simp
  have nx: "next_sid b \<le> next_sid b'" using next_sid_flight_step [OF reload_abort_flight [OF assms(2)]] by simp
  have b': "reload_task_ok b' j (ReloadRunning pc)" by (rule reload_task_ok_evolves [OF assms(1) ev nx])
  have "(\<exists>r. st = ReloadEnded r) \<or> (\<exists>pc'. st = ReloadRunning pc' \<and> pc_covers pc' = None)"
    using assms(2) by (cases pc) (auto simp: reload_end_def)
  with b' show ?thesis using reload_task_ok_end reload_task_ok_pc by metis
qed

lemma reload_plan_task_ok:
  assumes "bridge_ok b" "reload_plan d g flush b = Inr j"
  shows "reload_task_ok b j (ReloadRunning RlWantFlight)"
proof -
  obtain s where p: "playing_at d b = Some (g, s)" and j: "rj_device j = d" "rj_generation j = g" "rj_sid j = sid s"
    using assms(2) by (auto simp: reload_plan_def Let_def reload_validity_def split: option.splits if_splits)
  have "g = slot_generation (slot_of d b)" using slots_ok_playing [OF bridge_okD(1) [OF assms(1)] p] by simp
  moreover have "slot_state (slot_of d b) = Playing g s" using p by (simp add: playing_at_slot)
  moreover have "sid s < next_sid b" by (rule live_sid_bound [OF bridge_okD(3) [OF assms(1)] p])
  ultimately show ?thesis by (simp add: reload_task_ok_def j)
qed

section \<open>One holder per flight\<close>

lemma flights_ok_quiet:
  assumes "flights_ok x" "quiet (sys_bridge x) b'"
  shows "flights_ok (x\<lparr>sys_bridge := b'\<rparr>)"
  using assms by (auto simp: flights_ok_def flight_holders_def quiet_def cell_flags_def)

lemma flights_ok_step:
  assumes ok: "flights_ok x" and fs: "flight_step n h h' (sys_bridge x) (sys_bridge y)"
    and pos: "h \<Longrightarrow> 0 < flight_holders n x"
    and cnt: "\<And>m. flight_holders m y + of_bool (h \<and> m = n) = flight_holders m x + of_bool (h' \<and> m = n)"
  shows "flights_ok y"
proof -
  have held: "h \<longrightarrow> reload_flight_held (shared (sys_bridge x) n)"
    using pos ok by (auto simp: flights_ok_def split: if_splits)
  have "flight_holders m y = (if reload_flight_held (shared (sys_bridge y) m) then 1 else 0)" for m
  proof (cases "m = n")
    case False
    with cnt [of m] ok fs show ?thesis by (simp add: flights_ok_def flight_step_def)
  next
    case True
    have "flight_holders n x = of_bool (reload_flight_held (shared (sys_bridge x) n))"
      using ok by (simp add: flights_ok_def)
    moreover have "of_bool (reload_flight_held (shared (sys_bridge y) n)) + of_bool h =
        (of_bool (reload_flight_held (shared (sys_bridge x) n)) + of_bool h' :: nat)"
      using fs held by (simp add: flight_step_def)
    ultimately have "flight_holders n y = of_bool (reload_flight_held (shared (sys_bridge y) n))"
      using cnt [of n] by simp
    with True show ?thesis by simp
  qed
  then show ?thesis by (simp add: flights_ok_def)
qed

lemma flights_reload_update:
  assumes ok: "flights_ok x" and i: "i < length (reload_tasks x)" and t: "reload_tasks x ! i = (j, st)"
    and fs: "flight_step (rj_sid j) (reload_holds st) (reload_holds st') (sys_bridge x) b'"
  shows "flights_ok (x\<lparr>sys_bridge := b', reload_tasks := (reload_tasks x)[i := (j, st')]\<rparr>)"
proof (rule flights_ok_step [OF ok, where n = "rj_sid j" and h = "reload_holds st" and h' = "reload_holds st'"])
  show "0 < flight_holders (rj_sid j) x" if "reload_holds st"
    using count_if_pos [OF i, of "\<lambda>(j', st). reload_holds st \<and> rj_sid j' = rj_sid j"] t that
    by (simp add: flight_holders_def)
  show "flight_holders m (x\<lparr>sys_bridge := b', reload_tasks := (reload_tasks x)[i := (j, st')]\<rparr>)
      + of_bool (reload_holds st \<and> m = rj_sid j) = flight_holders m x + of_bool (reload_holds st' \<and> m = rj_sid j)" for m
    using count_if_update [OF i, of "\<lambda>(j', st). reload_holds st \<and> rj_sid j' = m" "(j, st')"] t
    by (auto simp: flight_holders_def split: if_splits)
qed (use fs in simp)

lemma flights_rollover_update:
  assumes ok: "flights_ok x" and i: "i < length (rollover_tasks x)" and t: "rollover_tasks x ! i = (j, pc)"
    and fs: "flight_step (ro_sid j) (rollover_holds pc) (rollover_holds pc') (sys_bridge x) b'"
  shows "flights_ok (x\<lparr>sys_bridge := b', rollover_tasks := (rollover_tasks x)[i := (j, pc')]\<rparr>)"
proof (rule flights_ok_step [OF ok, where n = "ro_sid j" and h = "rollover_holds pc" and h' = "rollover_holds pc'"])
  show "0 < flight_holders (ro_sid j) x" if "rollover_holds pc"
    using count_if_pos [OF i, of "\<lambda>(j', st). rollover_holds st \<and> ro_sid j' = ro_sid j"] t that
    by (simp add: flight_holders_def)
  show "flight_holders m (x\<lparr>sys_bridge := b', rollover_tasks := (rollover_tasks x)[i := (j, pc')]\<rparr>)
      + of_bool (rollover_holds pc \<and> m = ro_sid j) = flight_holders m x + of_bool (rollover_holds pc' \<and> m = ro_sid j)" for m
    using count_if_update [OF i, of "\<lambda>(j', st). rollover_holds st \<and> ro_sid j' = m" "(j, pc')"] t
    by (auto simp: flight_holders_def split: if_splits)
qed (use fs in simp)

lemma group_holds_sid: "group_holds pc = Some n \<Longrightarrow> group_sid pc = Some n"
  by (cases pc) auto

lemma group_step_sid:
  assumes "group_step u pc inp b = (b', pc')" "group_sid pc' = Some n"
  shows "group_sid pc = Some n \<or> pc = GrSleeping \<and> (\<exists>b1 plan. group_plan u b1 = Some plan \<and>
     gp_sid plan = n \<and> b1 = fst (set_reconcile_dirty u False b))"
  using assms
  by (cases pc; cases inp) (auto split: prod.splits option.splits bool.splits if_splits)

lemma flights_group_update:
  assumes ok: "flights_ok x" and i: "i < length (group_tasks x)" and t: "group_tasks x ! i = (u, pc)"
    and st: "group_step u pc inp (sys_bridge x) = (b', pc')"
  shows "flights_ok (x\<lparr>sys_bridge := b', group_tasks := (group_tasks x)[i := (u, pc')]\<rparr>)"
proof -
  obtain n where n: "\<And>n'. group_sid pc = Some n' \<Longrightarrow> n' = n" by (metis option.inject)
  have after: "group_holds pc' = Some m \<Longrightarrow> m = n" for m
  proof -
    assume g: "group_holds pc' = Some m"
    then have "group_sid pc = Some m"
      using st by (cases pc; cases inp) (auto split: prod.splits option.splits bool.splits if_splits)
    with n show "m = n" by blast
  qed
  have before: "group_holds pc = Some m \<Longrightarrow> m = n" for m using n group_holds_sid by blast
  show ?thesis
  proof (rule flights_ok_step [OF ok, where n = n and h = "group_holds pc = Some n" and h' = "group_holds pc' = Some n"])
    show "flight_step n (group_holds pc = Some n) (group_holds pc' = Some n) (sys_bridge x)
        (sys_bridge (x\<lparr>sys_bridge := b', group_tasks := (group_tasks x)[i := (u, pc')]\<rparr>))"
      using group_step_flight [OF st n] by simp
    show "0 < flight_holders n x" if "group_holds pc = Some n"
      using count_if_pos [OF i, of "\<lambda>(u, pc). group_holds pc = Some n"] t that
      by (simp add: flight_holders_def)
    show "flight_holders m (x\<lparr>sys_bridge := b', group_tasks := (group_tasks x)[i := (u, pc')]\<rparr>)
        + of_bool (group_holds pc = Some n \<and> m = n) = flight_holders m x + of_bool (group_holds pc' = Some n \<and> m = n)" for m
    proof (cases "m = n")
      case True
      then show ?thesis
        using count_if_update [OF i, of "\<lambda>(u, pc). group_holds pc = Some m" "(u, pc')"] t
        by (simp add: flight_holders_def)
    next
      case False
      then have "group_holds pc \<noteq> Some m" "group_holds pc' \<noteq> Some m"
        using after [of m] before [of m] by auto
      then show ?thesis
        using False count_if_update [OF i, of "\<lambda>(u, pc). group_holds pc = Some m" "(u, pc')"] t
        by (simp add: flight_holders_def)
    qed
  qed
qed

section \<open>Teardown flags\<close>

lemma teardowns_append [simp]: "teardowns (es @ fs) = teardowns es @ teardowns fs"
  by (simp add: teardowns_def List.map_filter_def)

lemma teardowns_Nil [simp]: "teardowns [] = []"
  by (simp add: teardowns_def List.map_filter_simps)

lemma teardowns_skip [simp]: "(\<And>s p. e \<noteq> Teardown s p) \<Longrightarrow> teardowns (e # es) = teardowns es"
  by (cases e) (auto simp: teardowns_def List.map_filter_simps)

lemma torn_down_teardown_jobs: "torn_down es = map td_session (teardowns es)"
proof (induction es)
  case Nil
  then show ?case by (simp add: torn_down_def teardowns_def List.map_filter_simps)
next
  case (Cons e es)
  then show ?case by (cases e) (simp_all add: torn_down_def teardowns_def List.map_filter_simps)
qed

text \<open>A new session starts alive; the liveness flags of every other session are untouched.\<close>

definition live_frame :: "bridge \<Rightarrow> bridge \<Rightarrow> bool" where
  "live_frame b b' \<longleftrightarrow>
     next_sid b \<le> next_sid b' \<and> (\<exists>es. effects b' = effects b @ es) \<and>
     (\<forall>n < next_sid b. session_alive (shared b' n) = session_alive (shared b n) \<and>
        late_stop_allowed (shared b' n) = late_stop_allowed (shared b n)) \<and>
     (\<forall>n. next_sid b \<le> n \<and> n < next_sid b' \<longrightarrow> session_alive (shared b' n) \<and> late_stop_allowed (shared b' n))"

lemma quietD:
  assumes "quiet b b'"
  shows "session_alive (shared b' n) = session_alive (shared b n)"
    "late_stop_allowed (shared b' n) = late_stop_allowed (shared b n)"
    "reload_flight_held (shared b' n) = reload_flight_held (shared b n)"
    "next_sid b' = next_sid b" "\<exists>es. effects b' = effects b @ es"
  using assms by (simp_all add: quiet_def cell_flags_def)

lemma live_frame_quiet: "quiet b b' \<Longrightarrow> live_frame b b'"
  by (auto simp: live_frame_def quietD)

lemma live_frame_flight: "flight_step n h h' b b' \<Longrightarrow> live_frame b b'"
  by (auto simp: live_frame_def flight_step_def)

lemma torn_down_sid_bound: "sids_ok b \<Longrightarrow> s \<in> set (torn_down (effects b)) \<Longrightarrow> sid s < next_sid b"
proof -
  assume ok: "sids_ok b" and s: "s \<in> set (torn_down (effects b))"
  then have "sid s \<in># mset (map sid (sessions_in (devices b))) + mset (map sid (torn_down (effects b)))"
    by simp
  then have "sid s \<in># mset [0..<next_sid b]" unfolding ok [unfolded sids_ok_def] .
  then have "sid s \<in> set [0..<next_sid b]" by (simp only: set_mset_mset)
  then show ?thesis by simp
qed

lemma sids_all_distinct:
  assumes "sids_ok b"
  shows "distinct (map sid (sessions_in (devices b)) @ map sid (torn_down (effects b)))"
proof -
  have "mset (map sid (sessions_in (devices b)) @ map sid (torn_down (effects b))) = mset [0..<next_sid b]"
    unfolding mset_append using assms by (simp only: sids_ok_def)
  then have "distinct (map sid (sessions_in (devices b)) @ map sid (torn_down (effects b)))
      = distinct [0..<next_sid b]" by (rule mset_eq_imp_distinct_iff)
  then show ?thesis by (simp only: distinct_upt)
qed

lemma session_in_slot:
  "s \<in> set (sessions_in (devices b)) \<Longrightarrow> hm_ok (devices b) \<Longrightarrow> \<exists>d g. playing_at d b = Some (g, s)"
proof -
  assume s: "s \<in> set (sessions_in (devices b))" and ok: "hm_ok (devices b)"
  then obtain d slot where m: "(d, slot) \<in> set (devices b)" "s \<in> set (slot_session slot)"
    by (auto simp: sessions_in_def)
  from m(2) obtain g where "slot_state slot = Playing g s"
    by (cases "slot_state slot") (auto simp: slot_session_def)
  moreover have "hm_get (devices b) d = Some slot" using m(1) ok by (simp add: hm_get_iff)
  ultimately have "playing_at d b = Some (g, s)" by (simp add: playing_at_def state_of_def)
  then show ?thesis by blast
qed

lemma newly_torn_down_live:
  assumes ok: "bridge_ok b" and ok': "bridge_ok b'" and fr: "live_frame b b'"
    and es: "effects b' = effects b @ es" and s: "s \<in> set (torn_down es)"
  shows "session_alive (shared b' (sid s)) \<and> late_stop_allowed (shared b' (sid s))"
proof (cases "sid s < next_sid b")
  case False
  have "s \<in> set (torn_down (effects b'))" using s es by simp
  then have "sid s < next_sid b'" by (rule torn_down_sid_bound [OF bridge_okD(3) [OF ok']])
  with False fr show ?thesis by (simp add: live_frame_def)
next
  case True
  have dis: "distinct (map sid (torn_down (effects b)) @ map sid (torn_down es))"
    using sids_all_distinct [OF bridge_okD(3) [OF ok']] es by simp
  have "sid s \<in> set [0..<next_sid b]" using True by simp
  then have "sid s \<in># mset (map sid (sessions_in (devices b))) + mset (map sid (torn_down (effects b)))"
    using bridge_okD(3) [OF ok] unfolding sids_ok_def by (metis set_mset_mset)
  moreover have "sid s \<notin> sid ` set (torn_down (effects b))" using dis s by auto
  ultimately obtain s0 where "s0 \<in> set (sessions_in (devices b))" "sid s0 = sid s" by auto
  then obtain d g where p: "playing_at d b = Some (g, s0)"
    using session_in_slot bridge_okD(4) [OF ok] by blast
  then have "session_alive (shared b (sid s)) \<and> late_stop_allowed (shared b (sid s))"
    using playing_session_ok [OF ok p] \<open>sid s0 = sid s\<close> by (simp add: session_ok_def)
  with True fr show ?thesis by (simp add: live_frame_def)
qed

lemma teardowns_ok_frame:
  assumes td: "teardowns_ok x" and ok: "bridge_ok (sys_bridge x)" and ok': "bridge_ok (sys_bridge y)"
    and fr: "live_frame (sys_bridge x) (sys_bridge y)" and pcs: "td_pcs y = td_pcs x"
  shows "teardowns_ok y"
proof -
  let ?b = "sys_bridge x" and ?b' = "sys_bridge y"
  obtain es where es: "effects ?b' = effects ?b @ es" using fr by (auto simp: live_frame_def)
  let ?old = "teardowns (effects ?b)" and ?new = "teardowns es"
  have "td_flags_ok (td_policy (teardowns (effects ?b') ! i)) (td_pcs y i)
      (shared ?b' (sid (td_session (teardowns (effects ?b') ! i))))" if "i < length (teardowns (effects ?b'))" for i
  proof (cases "i < length ?old")
    case True
    let ?s = "td_session (?old ! i)"
    have "?s \<in> set (torn_down (effects ?b))" using True by (simp add: torn_down_teardown_jobs)
    then have "sid ?s < next_sid ?b" by (rule torn_down_sid_bound [OF bridge_okD(3) [OF ok]])
    with fr have "session_alive (shared ?b' (sid ?s)) = session_alive (shared ?b (sid ?s))"
      "late_stop_allowed (shared ?b' (sid ?s)) = late_stop_allowed (shared ?b (sid ?s))"
      by (simp_all add: live_frame_def)
    moreover have "td_flags_ok (td_policy (?old ! i)) (td_pcs x i) (shared ?b (sid ?s))"
      using td True by (simp add: teardowns_ok_def)
    ultimately show ?thesis
      using True by (simp add: es nth_append pcs td_flags_ok_def split: td_pc.splits)
  next
    case False
    let ?t = "?new ! (i - length ?old)"
    have "td_session ?t \<in> set (torn_down es)"
      using False that by (simp add: es torn_down_teardown_jobs)
    then have "session_alive (shared ?b' (sid (td_session ?t))) \<and> late_stop_allowed (shared ?b' (sid (td_session ?t)))"
      by (rule newly_torn_down_live [OF ok ok' fr es])
    moreover have "td_pcs y i = TdStart" using td False by (simp add: teardowns_ok_def pcs)
    ultimately show ?thesis using False by (simp add: es nth_append td_flags_ok_def)
  qed
  moreover have "td_pcs y i = TdStart" if "length (teardowns (effects ?b')) \<le> i" for i
    using td that by (simp add: teardowns_ok_def pcs es)
  ultimately show ?thesis by (simp add: teardowns_ok_def)
qed

section \<open>Session starts\<close>

definition start_flags :: "bridge \<Rightarrow> bridge \<Rightarrow> bool" where
  "start_flags b b' \<longleftrightarrow> live_frame b b' \<and>
     (\<forall>n. n \<noteq> next_sid b \<longrightarrow> reload_flight_held (shared b' n) = reload_flight_held (shared b n)) \<and>
     (reload_flight_held (shared b' (next_sid b)) \<longrightarrow> reload_flight_held (shared b (next_sid b)))"

lemma start_flags_quiet: "quiet b b' \<Longrightarrow> start_flags b b'"
  by (simp add: start_flags_def live_frame_quiet quietD)

lemma start_flags_after: "start_flags b b1 \<Longrightarrow> quiet b1 b' \<Longrightarrow> start_flags b b'"
proof -
  assume s: "start_flags b b1" and q: "quiet b1 b'"
  obtain es fs where "effects b1 = effects b @ es" "effects b' = effects b1 @ fs"
    using s quietD(5) [OF q] by (auto simp: start_flags_def live_frame_def)
  then have "\<exists>gs. effects b' = effects b @ gs" by simp
  with s show ?thesis by (simp add: start_flags_def live_frame_def quietD [OF q])
qed

lemma start_flags_create: "start_flags b (create_session j level t e b)"
  by (auto simp: start_flags_def live_frame_def new_cells_def create_session_def emit_all_def upd_cells_def)

lemma start_flags_before: "quiet b b1 \<Longrightarrow> start_flags b1 b' \<Longrightarrow> start_flags b b'"
proof -
  assume q: "quiet b b1" and s: "start_flags b1 b'"
  obtain es fs where "effects b1 = effects b @ es" "effects b' = effects b1 @ fs"
    using s quietD(5) [OF q] by (auto simp: start_flags_def live_frame_def)
  then have "\<exists>gs. effects b' = effects b @ gs" by simp
  with s show ?thesis by (simp add: start_flags_def live_frame_def quietD [OF q])
qed

lemma start_flags_install: "start_flags b (install_playing_after_load j m e level np now b)"
proof -
  obtain m' t where t: "bridge_load_track np m (dev_name (sj_cast j)) = (m', t)" by force
  note c = start_flags_create [of b j level t e]
  show ?thesis
    by (auto simp: install_playing_after_load_def t Let_def split: option.split
        intro!: start_flags_after [OF c] quiet_group_owner_playing quiet_intros)
qed

lemma start_step_flags: "start_flags b (fst (start_step j pc inp b))"
proof -
  have vol: "start_flags b (fst (start_step j (AtVolume m e) (VolumeReply r np now) b))" for m e r np now
  proof -
    obtain b1 level where s: "sync_reported_volume (sj_device j) r b = (b1, level)" by force
    then have "quiet b b1" by (auto simp: sync_reported_volume_def split: sum.splits intro!: quiet_intros)
    then have "start_flags b (install_playing_after_load j m e level np now b1)"
      by (rule start_flags_before [OF _ start_flags_install])
    then show ?thesis by (simp add: s start_flags_after quiet_guard_drop)
  qed
  have parts: "quiet b (fst (initial_cast_load j m np b))" "quiet b (fst (flac_load_failed j m t err b))"
    "quiet b (fst (load_failed j m err b))" "quiet b (fst (load_succeeded j m e b))" for m np t err e
    by (auto simp: initial_cast_load_def flac_load_failed_def load_failed_def load_succeeded_def
        send_flac_load_def send_wav_load_def Let_def split: prod.split egress_kind.split
        intro!: quiet_start_end quiet_intros)
  show ?thesis
    by (cases pc; cases inp)
      (auto simp: vol parts quiet_start_end simp del: start_step.simps(7) split: sum.split bool.split
        intro!: start_flags_quiet)
qed

section \<open>Teardown steps\<close>

lemma td_step_ok:
  assumes ok: "bridge_ok b" and td: "td_session j \<in> set (torn_down (effects b))"
  shows "bridge_ok (fst (td_step j pc stopped b))"
proof -
  have "sid s \<noteq> sid (td_session j)" if "playing_at d b = Some (g, s)" for d g s
    using sids_all_distinct [OF bridge_okD(3) [OF ok]] playing_in_sessions [OF that] td by force
  then have cells: "bridge_ok (upd_cells (sid (td_session j)) f b)" for f
    by (intro upd_cells_ok ok) auto
  have pump: "bridge_ok (stop_pump p b)" for p
    using ok by (simp add: bridge_ok_def)
  have start: "bridge_ok (upd_cells (sid (td_session j)) f (stop_pump p b))" for f p
  proof -
    have "upd_cells n f (stop_pump p b) = stop_pump p (upd_cells n f b)" for n
      by (simp add: upd_cells_def stop_pump_def emit_def split: option.split)
    then show ?thesis using cells by (simp add: bridge_ok_def)
  qed
  have wd: "torn_down (watchdog_stop s) = []" for s by (simp add: watchdog_stop_def split: option.split)
  show ?thesis
    by (cases pc) (auto simp: ok cells pump start wd Let_def intro!: emit_ok emit_all_ok)
qed

lemma td_step_frame:
  assumes "td_step j pc stopped b = (b', pc')"
  shows "next_sid b' = next_sid b" "\<exists>es. effects b' = effects b @ es \<and> teardowns es = []"
    "n \<noteq> sid (td_session j) \<Longrightarrow> shared b' n = shared b n"
    "reload_flight_held (shared b' n) = reload_flight_held (shared b n)"
    "devices b' = devices b"
proof -
  have wd: "teardowns (watchdog_stop s) = []" for s
    by (simp add: watchdog_stop_def split: option.split)
  have pump: "\<exists>es. effects (stop_pump p b) = effects b @ es \<and> teardowns es = []" for p
    by (auto simp: stop_pump_def split: option.split)
  show "next_sid b' = next_sid b" using assms by (cases pc) (auto simp: Let_def split: if_splits)
  show "n \<noteq> sid (td_session j) \<Longrightarrow> shared b' n = shared b n"
    using assms by (cases pc) (auto simp: Let_def split: if_splits)
  show "reload_flight_held (shared b' n) = reload_flight_held (shared b n)"
    using assms by (cases pc) (auto simp: Let_def split: if_splits)
  show "devices b' = devices b" using assms by (cases pc) (auto simp: Let_def split: if_splits)
  show "\<exists>es. effects b' = effects b @ es \<and> teardowns es = []"
    using assms pump [of "ps_source (td_session j)"]
    by (cases pc) (auto simp: Let_def wd split: if_splits)
qed

section \<open>Every step preserves the invariant\<close>

lemma sys_okD:
  assumes "sys_ok x"
  shows "bridge_ok (sys_bridge x)" "flights_ok x" "teardowns_ok x"
    "\<And>t. t \<in> set (start_tasks x) \<Longrightarrow> job_ok (fst t)"
    "\<And>t. t \<in> set (reload_tasks x) \<Longrightarrow> reload_task_ok (sys_bridge x) (fst t) (snd t)"
    "\<And>t. t \<in> set (rollover_tasks x) \<Longrightarrow> ro_sid (fst t) < next_sid (sys_bridge x)"
    "\<And>t n. t \<in> set (group_tasks x) \<Longrightarrow> group_sid (snd t) = Some n \<Longrightarrow> n < next_sid (sys_bridge x)"
  using assms by (auto simp: sys_ok_def)

lemma sys_ok_update:
  assumes ok: "sys_ok x" and b: "bridge_ok (sys_bridge y)" and ev: "evolves (sys_bridge x) (sys_bridge y)"
    and fr: "live_frame (sys_bridge x) (sys_bridge y)" and pcs: "td_pcs y = td_pcs x" and fl: "flights_ok y"
    and st: "\<And>t. t \<in> set (start_tasks y) \<Longrightarrow> t \<in> set (start_tasks x) \<or> job_ok (fst t)"
    and rl: "\<And>t. t \<in> set (reload_tasks y) \<Longrightarrow>
      t \<in> set (reload_tasks x) \<or> reload_task_ok (sys_bridge y) (fst t) (snd t)"
    and ro: "\<And>t. t \<in> set (rollover_tasks y) \<Longrightarrow>
      t \<in> set (rollover_tasks x) \<or> ro_sid (fst t) < next_sid (sys_bridge y)"
    and gr: "\<And>t n. t \<in> set (group_tasks y) \<Longrightarrow> group_sid (snd t) = Some n \<Longrightarrow>
      t \<in> set (group_tasks x) \<or> n < next_sid (sys_bridge y)"
  shows "sys_ok y"
proof -
  have nx: "next_sid (sys_bridge x) \<le> next_sid (sys_bridge y)" using fr by (simp add: live_frame_def)
  have "teardowns_ok y" by (rule teardowns_ok_frame [OF sys_okD(3,1) [OF ok] b fr pcs])
  moreover have "reload_task_ok (sys_bridge y) (fst t) (snd t)" if "t \<in> set (reload_tasks y)" for t
    using rl [OF that] sys_okD(5) [OF ok, of t] reload_task_ok_evolves [OF _ ev nx] by blast
  moreover have "ro_sid (fst t) < next_sid (sys_bridge y)" if "t \<in> set (rollover_tasks y)" for t
    using ro [OF that] sys_okD(6) [OF ok, of t] nx by auto
  moreover have "n < next_sid (sys_bridge y)" if "t \<in> set (group_tasks y)" "group_sid (snd t) = Some n" for t n
    using gr [OF that] sys_okD(7) [OF ok, of t n] that(2) nx by auto
  moreover have "job_ok (fst t)" if "t \<in> set (start_tasks y)" for t
    using st [OF that] sys_okD(4) [OF ok, of t] by blast
  ultimately show ?thesis using b fl by (simp add: sys_ok_def)
qed

lemma in_update: "t \<in> set (xs[i := y]) \<Longrightarrow> t \<in> set xs \<or> t = y"
  by (metis insert_iff set_update_subset_insert subset_iff)

lemma sys_ok_quiet:
  assumes ok: "sys_ok x" and b: "bridge_ok b'" and q: "quiet (sys_bridge x) b'" and ev: "evolves (sys_bridge x) b'"
    and ts: "\<And>t. t \<in> set ts \<Longrightarrow> t \<in> set (start_tasks x) \<or> job_ok (fst t)"
  shows "sys_ok (x\<lparr>sys_bridge := b', start_tasks := ts\<rparr>)"
proof (rule sys_ok_update [OF ok])
  have "flights_ok (x\<lparr>sys_bridge := b'\<rparr>)" by (rule flights_ok_quiet [OF sys_okD(2) [OF ok] q])
  then show "flights_ok (x\<lparr>sys_bridge := b', start_tasks := ts\<rparr>)"
    by (simp add: flights_ok_def flight_holders_def)
qed (use b q ev ts in \<open>auto intro: live_frame_quiet\<close>)

lemma holders_fresh:
  assumes "sys_ok x"
  shows "flight_holders (next_sid (sys_bridge x)) x = 0"
proof -
  have "count_if (\<lambda>(j, st). reload_holds st \<and> rj_sid j = next_sid (sys_bridge x)) (reload_tasks x) = 0"
    using sys_okD(5) [OF assms] by (fastforce simp: count_if_def filter_empty_conv reload_task_ok_def)
  moreover have "count_if (\<lambda>(j, pc). rollover_holds pc \<and> ro_sid j = next_sid (sys_bridge x)) (rollover_tasks x) = 0"
    using sys_okD(6) [OF assms] by (fastforce simp: count_if_def filter_empty_conv)
  moreover have "count_if (\<lambda>(u, pc). group_holds pc = Some (next_sid (sys_bridge x))) (group_tasks x) = 0"
    using sys_okD(7) [OF assms] by (fastforce simp: count_if_def filter_empty_conv dest: group_holds_sid)
  ultimately show ?thesis by (simp add: flight_holders_def)
qed

lemma sys_ok_start_flags:
  assumes ok: "sys_ok x" and b: "bridge_ok b'" and sf: "start_flags (sys_bridge x) b'"
    and ev: "evolves (sys_bridge x) b'"
    and ts: "\<And>t. t \<in> set ts \<Longrightarrow> t \<in> set (start_tasks x) \<or> job_ok (fst t)"
  shows "sys_ok (x\<lparr>sys_bridge := b', start_tasks := ts\<rparr>)"
proof (rule sys_ok_update [OF ok])
  have "flight_holders n x = (if reload_flight_held (shared b' n) then 1 else 0)" for n
    using sys_okD(2) [OF ok] sf holders_fresh [OF ok]
    by (cases "n = next_sid (sys_bridge x)") (auto simp: flights_ok_def start_flags_def)
  then show "flights_ok (x\<lparr>sys_bridge := b', start_tasks := ts\<rparr>)"
    by (simp add: flights_ok_def flight_holders_def)
qed (use b sf ev ts in \<open>auto simp: start_flags_def\<close>)

lemma sys_ok_flight:
  assumes ok: "sys_ok x" and b: "bridge_ok (sys_bridge y)" and ev: "evolves (sys_bridge x) (sys_bridge y)"
    and fs: "flight_step n h h' (sys_bridge x) (sys_bridge y)" and fl: "flights_ok y"
    and same: "td_pcs y = td_pcs x" "start_tasks y = start_tasks x"
    and rl: "\<And>t. t \<in> set (reload_tasks y) \<Longrightarrow>
      t \<in> set (reload_tasks x) \<or> reload_task_ok (sys_bridge y) (fst t) (snd t)"
    and ro: "\<And>t. t \<in> set (rollover_tasks y) \<Longrightarrow>
      t \<in> set (rollover_tasks x) \<or> ro_sid (fst t) < next_sid (sys_bridge y)"
    and gr: "\<And>t n. t \<in> set (group_tasks y) \<Longrightarrow> group_sid (snd t) = Some n \<Longrightarrow>
      t \<in> set (group_tasks x) \<or> n < next_sid (sys_bridge y)"
  shows "sys_ok y"
  using same by (intro sys_ok_update [OF ok b ev live_frame_flight [OF fs] same(1) fl] rl ro gr) auto

lemma group_plan_sid:
  assumes "bridge_ok b" "group_plan u b = Some plan"
  shows "gp_sid plan < next_sid b"
  using assms live_sid_bound bridge_okD(3) [OF assms(1)]
  by (auto simp: group_plan_def Let_def split: option.splits if_splits)

lemma sys_step_ok: "sys_step x y \<Longrightarrow> sys_ok x \<Longrightarrow> sys_ok y"
proof (induction rule: sys_step.induct)
  case (op op x)
  have "sys_ok (x\<lparr>sys_bridge := apply_op op (sys_bridge x), start_tasks := start_tasks x\<rparr>)"
    using sys_okD(1) [OF op(2)] op(1) by (intro sys_ok_quiet op) (auto simp: apply_op_ok quiet_op evolves_op)
  then show ?case by simp
next
  case (start_begin d x rate ring grp current b' st)
  have b': "b' = fst (handle_session_start d rate ring grp current (sys_bridge x))"
    using start_begin(2) by simp
  have "job_ok j" if "st = StartRunning j pc" for j pc
    using start_status_job(1) start_begin(2) that by blast
  with b' sys_okD(1) [OF start_begin(3)] show ?case
    by (intro sys_ok_quiet start_begin)
      (auto simp: handle_session_start_ok quiet_handle_session_start evolves_handle_session_start start_begin(1)
        split: start_status.splits)
next
  case (start_go i x j j' pc inp b' st)
  have j: "job_ok j" using sys_okD(4) [OF start_go(4)] start_go(1,2) by (metis fst_conv nth_mem)
  have b': "b' = fst (start_step j pc inp (sys_bridge x))" using start_go(3) by simp
  show ?case
    using j b' sys_okD(1) [OF start_go(4)]
    by (intro sys_ok_start_flags start_go) (auto simp: start_step_ok start_step_flags evolves_start_step dest!: in_update)
next
  case (start_drop i x j j' pc)
  have j: "job_ok j" using sys_okD(4) [OF start_drop(3)] start_drop(1,2) by (metis fst_conv nth_mem)
  show ?case
    using j sys_okD(1) [OF start_drop(3)]
    by (intro sys_ok_quiet start_drop)
      (auto simp: start_abandoned_def clear_starting_if_ok dest!: in_update)
next
  case (reload_begin d g flush x j)
  have "reload_task_ok (sys_bridge x) j (ReloadRunning RlWantFlight)"
    by (rule reload_plan_task_ok [OF sys_okD(1) [OF reload_begin(2)] reload_begin(1)])
  moreover have "flights_ok (x\<lparr>reload_tasks := reload_tasks x @ [(j, ReloadRunning RlWantFlight)]\<rparr>)"
    using sys_okD(2) [OF reload_begin(2)] by (simp add: flights_ok_def flight_holders_def)
  ultimately show ?case
    using sys_okD(1) [OF reload_begin(2)]
    by (intro sys_ok_flight [OF reload_begin(2), where n = 0 and h = False and h' = False])
      (auto intro: flight_step_quiet)
next
  case (reload_go i x j pc inp b' st)
  note fs = reload_step_flight [OF reload_go(3)]
  have t: "reload_task_ok (sys_bridge x) j (ReloadRunning pc)"
    using sys_okD(5) [OF reload_go(4)] reload_go(1,2) by (metis fst_conv snd_conv nth_mem)
  have "bridge_ok b'"
    using reload_step_ok [OF sys_okD(1) [OF reload_go(4)], of pc j inp] reload_task_ok_covers [OF t] reload_go(3) by simp
  moreover have "evolves (sys_bridge x) b'" using evolves_reload_step [of "sys_bridge x" j pc inp] reload_go(3) by simp
  ultimately show ?case
    using flights_reload_update [OF sys_okD(2) [OF reload_go(4)] reload_go(1,2) fs]
      reload_step_task_ok [OF t reload_go(3)] fs
    by (intro sys_ok_flight [OF reload_go(4)]) (auto dest!: in_update)
next
  case (reload_aborted i x j pc b' st)
  note fs = reload_abort_flight [OF reload_aborted(3)]
  have t: "reload_task_ok (sys_bridge x) j (ReloadRunning pc)"
    using sys_okD(5) [OF reload_aborted(4)] reload_aborted(1,2) by (metis fst_conv snd_conv nth_mem)
  have "bridge_ok b'"
    using reload_abort_ok [OF sys_okD(1) [OF reload_aborted(4)], of j pc] reload_aborted(3) by simp
  moreover have "evolves (sys_bridge x) b'" using evolves_reload_abort [of "sys_bridge x" j pc] reload_aborted(3) by simp
  ultimately show ?case
    using flights_reload_update [OF sys_okD(2) [OF reload_aborted(4)] reload_aborted(1,2) fs]
      reload_abort_task_ok [OF t reload_aborted(3)] fs
    by (intro sys_ok_flight [OF reload_aborted(4)]) (auto dest!: in_update)
next
  case (rollover_begin j x)
  have "flights_ok (x\<lparr>rollover_tasks := rollover_tasks x @ [(j, RoIdle 0)]\<rparr>)"
    using sys_okD(2) [OF rollover_begin(2)] by (simp add: flights_ok_def flight_holders_def)
  with sys_okD(1) [OF rollover_begin(2)] rollover_begin(1) show ?case
    by (intro sys_ok_flight [OF rollover_begin(2), where n = 0 and h = False and h' = False])
      (auto intro: flight_step_quiet)
next
  case (rollover_go i x j pc inp b' pc')
  note fs = rollover_step_flight [OF rollover_go(3)]
  have "ro_sid j < next_sid (sys_bridge x)"
    using sys_okD(6) [OF rollover_go(4)] rollover_go(1,2) by (metis fst_conv nth_mem)
  moreover have "bridge_ok b'"
    using rollover_step_ok [OF sys_okD(1) [OF rollover_go(4)], of j pc inp] rollover_go(3) by simp
  moreover have "evolves (sys_bridge x) b'" using evolves_rollover_step [of "sys_bridge x" j pc inp] rollover_go(3) by simp
  ultimately show ?case
    using flights_rollover_update [OF sys_okD(2) [OF rollover_go(4)] rollover_go(1,2) fs] fs next_sid_flight_step [OF fs]
    by (intro sys_ok_flight [OF rollover_go(4)]) (auto dest!: in_update)
next
  case (rollover_aborted i x j pc b' pc')
  note fs = rollover_abort_flight [OF rollover_aborted(3)]
  have "ro_sid j < next_sid (sys_bridge x)"
    using sys_okD(6) [OF rollover_aborted(4)] rollover_aborted(1,2) by (metis fst_conv nth_mem)
  moreover have "bridge_ok b'"
    using rollover_abort_ok [OF sys_okD(1) [OF rollover_aborted(4)], of j pc] rollover_aborted(3) by simp
  moreover have "evolves (sys_bridge x) b'" using evolves_rollover_abort [of "sys_bridge x" j pc] rollover_aborted(3) by simp
  ultimately show ?case
    using flights_rollover_update [OF sys_okD(2) [OF rollover_aborted(4)] rollover_aborted(1,2) fs] fs next_sid_flight_step [OF fs]
    by (intro sys_ok_flight [OF rollover_aborted(4)]) (auto dest!: in_update)
next
  case (group_begin x u)
  have "flights_ok (x\<lparr>group_tasks := group_tasks x @ [(u, GrSleeping)]\<rparr>)"
    using sys_okD(2) [OF group_begin] by (simp add: flights_ok_def flight_holders_def)
  with sys_okD(1) [OF group_begin] show ?case
    by (intro sys_ok_flight [OF group_begin, where n = 0 and h = False and h' = False])
      (auto intro: flight_step_quiet)
next
  case (group_go i x u pc inp b' pc')
  have mem: "(u, pc) \<in> set (group_tasks x)" using group_go(1,2) by (metis nth_mem)
  obtain n where n: "\<And>n'. group_sid pc = Some n' \<Longrightarrow> n' = n" by (metis option.inject)
  note fs = group_step_flight [OF group_go(3) n]
  have ok: "bridge_ok b'"
    using group_step_ok [OF sys_okD(1) [OF group_go(4)], of u pc inp] group_go(3) by simp
  have "m < next_sid b'" if "group_sid pc' = Some m" for m
  proof -
    have nx: "next_sid b' = next_sid (sys_bridge x)" by (rule next_sid_flight_step [OF fs])
    note src = group_step_sid [OF group_go(3) that]
    consider "group_sid pc = Some m" | b1 plan where "group_plan u b1 = Some plan" "gp_sid plan = m"
      "b1 = fst (set_reconcile_dirty u False (sys_bridge x))"
      using src by blast
    then show ?thesis
    proof cases
      case 1
      with sys_okD(7) [OF group_go(4) mem] nx show ?thesis by simp
    next
      case 2
      have "bridge_ok b1" unfolding 2(3) by (rule set_reconcile_dirty_False_ok [OF sys_okD(1) [OF group_go(4)]])
      from group_plan_sid [OF this 2(1)] 2 nx quietD(4) [OF quiet_plan(4)] show ?thesis by simp
    qed
  qed
  moreover have "evolves (sys_bridge x) b'" using evolves_group_step [of "sys_bridge x" u pc inp] group_go(3) by simp
  ultimately show ?case
    using flights_group_update [OF sys_okD(2) [OF group_go(4)] group_go(1,2,3)] ok fs
    by (intro sys_ok_flight [OF group_go(4)]) (auto dest!: in_update)
next
  case (teardown_go i x stopped b' pc')
  let ?b = "sys_bridge x"
  let ?ts = "teardowns (effects ?b)"
  let ?j = "?ts ! i"
  note ok = sys_okD(1) [OF teardown_go(3)]
  note fr = td_step_frame [OF teardown_go(2)]
  have inj: "td_session ?j \<in> set (torn_down (effects ?b))"
    using teardown_go(1) by (simp add: torn_down_teardown_jobs)
  have b': "bridge_ok b'" using td_step_ok [OF ok inj, of "td_pcs x i" stopped] teardown_go(2) by simp
  obtain es where es: "effects b' = effects ?b @ es" "teardowns es = []" using fr(2) by blast
  have ts: "teardowns (effects b') = ?ts" by (simp add: es)
  have ev: "evolves ?b b'" by (rule evolves_devices [OF fr(5)])
  have other: "sid (td_session (?ts ! k)) \<noteq> sid (td_session ?j)" if "k < length ?ts" "k \<noteq> i" for k
  proof -
    have "distinct (map (\<lambda>j. sid (td_session j)) ?ts)"
      using sids_all_distinct [OF bridge_okD(3) [OF ok]] by (simp add: torn_down_teardown_jobs comp_def)
    with that teardown_go(1) show ?thesis by (auto simp: distinct_conv_nth)
  qed
  have tdok: "teardowns_ok (x\<lparr>sys_bridge := b', td_pcs := (td_pcs x)(i := pc')\<rparr>)"
    using sys_okD(3) [OF teardown_go(3)] td_step_flags [OF _ teardown_go(2)] fr(3) other teardown_go(1)
    by (auto simp: teardowns_ok_def ts)
  have fl: "flights_ok (x\<lparr>sys_bridge := b', td_pcs := (td_pcs x)(i := pc')\<rparr>)"
    using sys_okD(2) [OF teardown_go(3)] fr(4) by (simp add: flights_ok_def flight_holders_def)
  have "reload_task_ok b' j st" if "reload_task_ok ?b j st" for j st
    using reload_task_ok_evolves [OF that ev] fr(1) by simp
  with sys_okD [OF teardown_go(3)] b' tdok fl fr(1) show ?case
    by (auto simp: sys_ok_def)
qed

lemma sys_ok_new: "sys_ok (sys_new r)"
proof -
  have "flights_ok (sys_new r)" "teardowns_ok (sys_new r)"
    by (simp_all add: sys_new_def flights_ok_def flight_holders_def teardowns_ok_def bridge_new_def
        default_cells_def teardowns_def List.map_filter_def)
  moreover have "bridge_ok (sys_bridge (sys_new r))" by (simp add: sys_new_def bridge_ok_new)
  ultimately show ?thesis by (simp add: sys_ok_def) (simp add: sys_new_def)
qed

theorem reachable_ok: "reachable r x \<Longrightarrow> sys_ok x"
  by (induction rule: reachable.induct) (auto intro: sys_step_ok sys_ok_new)

end
