(* ===== verification/Bridge_Promises.thy ===== *)
theory Bridge_Promises
  imports Bridge_Safety
begin

text \<open>
  What the bridge promises in every reachable state of the whole system, over every interleaving of
  its tasks: sessions are neither lost nor duplicated, re-LOADs of a session never overlap, a
  replaced session cannot stop its successor, and the generation of a slot never goes back.
\<close>

section \<open>Running a start\<close>

fun start_run :: "start_job \<Rightarrow> start_pc \<Rightarrow> start_input list \<Rightarrow> bridge \<Rightarrow> bridge \<times> start_status" where
  "start_run j pc [] b = (b, StartRunning j pc)"
| "start_run j pc (x # xs) b =
     (case start_step j pc x b of
        (b', StartRunning _ pc') \<Rightarrow> start_run j pc' xs b'
      | (b', StartEnded r) \<Rightarrow> (b', StartEnded r))"

text \<open>What the waits of a start return when nothing goes wrong.\<close>

definition good_inputs ::
  "ring_ref \<Rightarrow> usize \<Rightarrow> media_handle \<Rightarrow> media_session_ref \<Rightarrow> f32 result \<Rightarrow> now_playing \<Rightarrow> now_playing \<Rightarrow> instant \<Rightarrow>
   start_input list" where
  "good_inputs ring frames m ref level np np' now =
     [PrebufferObs (\<lambda>_. (Some ring, frames)), LeadObs (Some ring), MediaStarted (Inr m) np,
      LoadReply (Inr (Inr ref)), VolumeReply level np' now]"

lemma prebuffer_at_once:
  "PREBUFFER_FRAMES \<le> frames \<Longrightarrow> wait_for_prebuffer ring (\<lambda>_. (Some ring, frames)) = Inr True"
proof -
  assume "PREBUFFER_FRAMES \<le> frames"
  then have "prebuffer_loop ring (\<lambda>_. (Some ring, frames)) 0 (Suc n) = Inr True" for n
    by (simp add: ring_is_current_def ptr_eq_def)
  from this [of 159] show ?thesis by (simp add: wait_for_prebuffer_def PREBUFFER_POLLS_def)
qed

lemma initial_load_status:
  "\<exists>b2 m2 t e. initial_cast_load j m np b = (b2, StartRunning j (if e = FlacLive then AtFlacLoad m2 t else AtWavLoad m2 t)) \<and>
     (\<forall>d. state_of d b2 = state_of d b) \<and> e = select_egress (sj_device j \<in> flac_fallback b)"
  by (auto simp: initial_cast_load_def send_flac_load_def send_wav_load_def Let_def
      split: prod.splits egress_kind.splits)

lemma start_run_playing:
  assumes starting: "state_of (sj_device j) b = Some (Starting (sj_generation j))"
    and audio: "PREBUFFER_FRAMES \<le> frames"
  shows "\<exists>b' s. start_run j AtPrebuffer (good_inputs (sj_ring j) frames m ref level np np' now) b = (b', StartEnded (Inr ())) \<and>
     state_of (sj_device j) b' = Some (Playing (sj_generation j) s) \<and>
     ps_egress s = select_egress (sj_device j \<in> flac_fallback b)"
proof -
  obtain b2 m2 t e where load: "initial_cast_load j m np b =
      (b2, StartRunning j (if e = FlacLive then AtFlacLoad m2 t else AtWavLoad m2 t))"
    and st2: "\<And>d. state_of d b2 = state_of d b" and e: "e = select_egress (sj_device j \<in> flac_fallback b)"
    using initial_load_status by metis
  obtain b3 v where sync: "sync_reported_volume (sj_device j) level b2 = (b3, v)" by force
  have st3: "state_of (sj_device j) b3 = Some (Starting (sj_generation j))"
    using sync_reported_volume_state [of "sj_device j" "sj_device j" level b2] sync st2 starting by simp
  let ?b4 = "install_playing_after_load j m2 e v np' now b3"
  obtain m' t' where t: "bridge_load_track np' m2 (dev_name (sj_cast j)) = (m', t')" by force
  have st4: "state_of (sj_device j) ?b4 = Some (Playing (sj_generation j) (new_session j (next_sid b3) m' e now))"
    using install_state [of "sj_device j" j m2 e v np' now b3] st3 by (simp add: t)
  have "start_run j AtPrebuffer (good_inputs (sj_ring j) frames m ref level np np' now) b =
      (guard_drop j (Inr ()) ?b4, StartEnded (Inr ()))"
    using starting st2 audio
    by (cases e) (simp_all add: good_inputs_def prebuffer_at_once ring_is_current_def ptr_eq_def
        starting_still_def load load_succeeded_def sync)
  moreover have "state_of (sj_device j) (guard_drop j (Inr ()) ?b4) = state_of (sj_device j) ?b4"
    using st4 by (simp add: guard_drop_state)
  ultimately show ?thesis using st4 e by (simp add: new_session_def)
qed

text \<open>
  C39: A start whose waits all succeed ends with the device playing: a device that is \<open>Starting\<close> with
  the task's generation, whose ring holds a block of audio and whose LOAD is accepted, is
  \<open>Playing\<close> under that generation when the task ends, with the egress remembered for the device.
\<close>

theorem start_reaches_playing:
  assumes starting: "state_of (sj_device j) b = Some (Starting (sj_generation j))"
    and audio: "PREBUFFER_FRAMES \<le> frames"
  shows "\<exists>b' s. start_run j AtPrebuffer (good_inputs (sj_ring j) frames m ref level np np' now) b = (b', StartEnded (Inr ())) \<and>
     state_of (sj_device j) b' = Some (Playing (sj_generation j) s) \<and>
     ps_egress s = select_egress (sj_device j \<in> flac_fallback b)"
  by (rule start_run_playing [OF assms])


section \<open>A concrete run\<close>

lemma sys_start_run:
  assumes "reachable r x" "i < length (start_tasks x)" "start_tasks x ! i = (j, StartRunning j' pc)"
    and "start_run j pc xs (sys_bridge x) = (b', st)"
  shows "\<exists>y. reachable r y \<and> sys_bridge y = b'"
  using assms
proof (induction xs arbitrary: x pc j')
  case Nil
  then show ?case by auto
next
  case (Cons inp xs)
  obtain b1 st1 where s: "start_step j pc inp (sys_bridge x) = (b1, st1)" by force
  let ?y = "x\<lparr>sys_bridge := b1, start_tasks := (start_tasks x)[i := (j, st1)]\<rparr>"
  have y: "reachable r ?y" using Cons.prems(1) sys_step.start_go [OF Cons.prems(2,3) s] by (rule reachable.step)
  show ?case
  proof (cases st1)
    case (StartEnded res)
    with Cons.prems(4) s have "b' = b1" by simp
    with y show ?thesis by (intro exI [of _ ?y]) simp
  next
    case (StartRunning j2 pc2)
    with Cons.prems(4) s have "start_run j pc2 xs b1 = (b', st)" by simp
    with Cons.IH [OF y, of j2 pc2] Cons.prems(2) StartRunning show ?thesis by simp
  qed
qed

lemma reachable_playing:
  assumes x: "reachable r x" and known: "get d (registry_of (sys_bridge x)) = Some dev"
    and room: "slot_generation (slot_of d (sys_bridge x)) \<noteq> - 1"
  shows "\<exists>y s. reachable r y \<and>
     state_of d (sys_bridge y) = Some (Playing (saturating_add (slot_generation (slot_of d (sys_bridge x))) 1) s)"
proof -
  let ?b = "sys_bridge x" and ?ring = "\<lparr>ring_ptr = 7, ring_channels = 2\<rparr>"
  let ?g = "saturating_add (slot_generation (slot_of d ?b)) 1"
  obtain b1 prior where a: "accept_start d ?b = (b1, ?g, prior)"
    by (cases "slot_state (slot_of d ?b)") (auto simp: accept_start_def accept_start_in_def Let_def)
  let ?b2 = "detach_prior prior SkipStopForReplace b1"
  have st: "state_of d ?b2 = Some (Starting ?g)"
    using a by (auto simp: accept_start_def accept_start_in_def Let_def detach_prior_def detach_teardown_def
        split: device_state.splits option.splits prod.splits)
  have "registry_of ?b2 = registry_of ?b"
    using a by (auto simp: accept_start_def Let_def detach_prior_def detach_teardown_def split: prod.splits option.splits)
  with known obtain j where j: "handle_session_start d 48000 ?ring None (Some ?ring) ?b = (?b2, StartRunning j AtPrebuffer)"
      "sj_device j = d" "sj_generation j = ?g" "sj_ring j = ?ring"
    by (auto simp: handle_session_start_def accept_member_def a Let_def ring_is_current_def ptr_eq_def)
  let ?x1 = "x\<lparr>sys_bridge := ?b2, start_tasks := start_tasks x @ [(j, StartRunning j AtPrebuffer)]\<rparr>"
  have "sys_step x ?x1"
    using sys_step.start_begin [OF room j(1)] by simp
  with x have x1: "reachable r ?x1" by (rule reachable.step)
  have "\<exists>b' s. start_run j AtPrebuffer (good_inputs ?ring PREBUFFER_FRAMES example_media undefined (Inl (ErrCast []))
      undefined undefined 0) ?b2 = (b', StartEnded (Inr ())) \<and> state_of d b' = Some (Playing ?g s)"
    using start_run_playing [of j ?b2 PREBUFFER_FRAMES] st j by fastforce
  then obtain b' s where run: "start_run j AtPrebuffer (good_inputs ?ring PREBUFFER_FRAMES example_media undefined
      (Inl (ErrCast [])) undefined undefined 0) ?b2 = (b', StartEnded (Inr ()))"
    and st': "state_of d b' = Some (Playing ?g s)" by blast
  have "\<exists>y. reachable r y \<and> sys_bridge y = b'"
    by (rule sys_start_run [OF x1, of "length (start_tasks x)"]) (use run in simp_all)
  with st' show ?thesis by blast
qed

definition demo_registry :: registry where
  "demo_registry = snd (appear example_device 0 registry_new)"

lemma demo_playing:
  "\<exists>x s. reachable demo_registry x \<and> state_of ''d'' (sys_bridge x) = Some (Playing 1 s)"
proof -
  have "get ''d'' (registry_of (sys_bridge (sys_new demo_registry))) = Some (example_device\<lparr>last_seen := 0\<rparr>)"
    by (simp add: sys_new_def bridge_new_def demo_registry_def appear_def example_device_def device_new_def
        Let_def registry_new_def get_def clear_pending_def)
  from reachable_playing [OF reachable.init this] show ?thesis
    by (simp add: sys_new_def bridge_new_def slot_of_def hm_entry_def default_slot_def saturating_add_def)
qed



theorem start_reaches_playing_witness:
  "\<exists>b' s. start_run example_job AtPrebuffer
       (good_inputs \<lparr>ring_ptr = 7, ring_channels = 2\<rparr> 4096 example_media example_ref (Inr (F32 0))
         \<lparr>np_title = None, np_artist = None, np_album = None, np_artwork = None\<rparr>
         \<lparr>np_title = None, np_artist = None, np_album = None, np_artwork = None\<rparr> 9) example_starting
     = (b', StartEnded (Inr ())) \<and>
     state_of ''d'' b' = Some (Playing 1 s) \<and> ps_egress s = FlacLive"
  using start_reaches_playing [of example_job example_starting 4096]
  by (simp add: example_job_def example_starting_state PREBUFFER_FRAMES_def)
    (simp add: example_starting_def bridge_new_def select_egress_def)

section \<open>Promises of every reachable state\<close>

text \<open>
  C5: Over every interleaving of events, callbacks and tasks, no session is lost or duplicated: the
  identities of the sessions in slots together with those handed to teardowns are exactly the
  identities ever created, each once.
\<close>

theorem sessions_conserved:
  assumes "reachable r x"
  shows "mset (map sid (sessions_in (devices (sys_bridge x)))) +
     mset (map (\<lambda>j. sid (td_session j)) (teardowns (effects (sys_bridge x)))) =
     mset [0..<next_sid (sys_bridge x)]"
  using reachable_ok [OF assms]
  by (simp add: sys_ok_def bridge_ok_def sids_ok_def torn_down_teardown_jobs comp_def)

theorem sessions_conserved_witness:
  "\<exists>(x :: system) s. state_of ''d'' (sys_bridge x) = Some (Playing 1 s) \<and>
     mset (map sid (sessions_in (devices (sys_bridge x)))) +
     mset (map (\<lambda>j. sid (td_session j)) (teardowns (effects (sys_bridge x)))) =
     mset [0..<next_sid (sys_bridge x)]"
  using demo_playing sessions_conserved by blast

text \<open>
  C25: In every reachable state a playing session carries its slot's current generation, its shared
  flags mirror it (alive, late STOPs allowed, the pause flag the LOAD thread reads), its volume goes
  to its own device, its watchdog watches that device and generation, and buffered WAV has its
  rollover loop.
\<close>

theorem playing_session_wired:
  assumes "reachable r x" "state_of d (sys_bridge x) = Some (Playing g s)"
  shows "g = slot_generation (slot_of d (sys_bridge x)) \<and>
     (let c = shared (sys_bridge x) (sid s)
      in session_alive c \<and> late_stop_allowed c \<and> playback_paused c = paused s \<and>
         route_volume (route c) = d) \<and>
     (paused s \<longleftrightarrow> paused_at s \<noteq> None) \<and> watchdog s = Some (d, g) \<and>
     (ps_egress s = WavBuffered \<longrightarrow> rollover_running s) \<and>
     flush_reload_done s \<le> flush_reload_requested s"
proof -
  have "slots_ok (sys_bridge x)" using reachable_ok [OF assms(1)] by (simp add: sys_ok_def bridge_ok_def)
  then have "slot_ok (shared (sys_bridge x)) d (slot_of d (sys_bridge x))" by (simp add: slots_ok_def)
  moreover have "slot_state (slot_of d (sys_bridge x)) = Playing g s"
    using assms(2) by (auto simp: state_of_def slot_of_def hm_entry_def split: option.splits)
  ultimately show ?thesis by (simp add: slot_ok_def session_ok_def Let_def)
qed

theorem playing_session_wired_witness:
  "\<exists>(x :: system) s. state_of ''d'' (sys_bridge x) = Some (Playing 1 s) \<and> watchdog s = Some (''d'', 1) \<and>
     session_alive (shared (sys_bridge x) (sid s))"
proof -
  obtain x s where "reachable demo_registry x" "state_of ''d'' (sys_bridge x) = Some (Playing 1 s)"
    using demo_playing by blast
  with playing_session_wired [OF this] show ?thesis by (auto simp: Let_def)
qed

text \<open>
  C4: Re-LOADs of one session never overlap: in every reachable state at most one task (re-LOAD,
  rollover loop or group reconciliation) holds a session's flight, and the flight's flag is set
  exactly when one does, so an aborted or finished task never leaks it.
\<close>

theorem single_reload_flight:
  assumes "reachable r x"
  shows "flight_holders n x \<le> 1 \<and>
     (reload_flight_held (shared (sys_bridge x) n) \<longleftrightarrow> flight_holders n x = 1)"
  using reachable_ok [OF assms] by (auto simp: sys_ok_def flights_ok_def split: if_splits)

theorem single_reload_flight_witness:
  "\<exists>(x :: system) s. state_of ''d'' (sys_bridge x) = Some (Playing 1 s) \<and> flight_holders (sid s) x \<le> 1"
  using demo_playing single_reload_flight by blast




section \<open>Runs of events\<close>

definition generations :: "bridge \<Rightarrow> string \<Rightarrow> u64" where
  "generations b d = slot_generation (slot_of d b)"

lemma generations_devices: "devices b' = devices b \<Longrightarrow> generations b' = generations b"
  by (simp add: generations_def slot_of_def fun_eq_iff)

lemma generations_evolves: "evolves b b' \<Longrightarrow> generations b \<le> generations b'"
  by (simp add: generations_def evolves_def slot_evolves_def le_fun_def)

lemma generations_set_slot:
  "slot_generation (slot_of d b) \<le> slot_generation slot \<Longrightarrow> generations b \<le> generations (set_slot d slot b)"
  by (simp add: generations_def le_fun_def)

lemma generations_accept_start:
  assumes "accept_start d b = (b', g, prior)"
  shows "generations b \<le> generations b'"
proof -
  obtain slot' pump where a: "accept_start_in (slot_of d b) = (slot', g, prior, pump)"
    and b': "b' = stop_pump pump (set_slot d slot' b)"
    using assms by (auto simp: accept_start_def Let_def split: prod.splits)
  have "slot_generation (slot_of d b) \<le> slot_generation slot'"
    using a by (auto simp: accept_start_in_def Let_def saturating_add_ge split: device_state.splits)
  then have "generations b \<le> generations (set_slot d slot' b)" by (rule generations_set_slot)
  moreover have "generations b' = generations (set_slot d slot' b)" unfolding b' by (rule generations_devices) simp
  ultimately show ?thesis by simp
qed

lemma generations_enter_group:
  assumes "enter_group d uuid rate ring b = (b', e)"
  shows "generations b \<le> generations b'"
proof -
  let ?g = "hm_entry default_group uuid (groups b)"
  consider "b' = b" | "enter_as_follower d uuid rate ring ?g b = (b', e)" | "enter_as_owner d uuid ?g b = (b', e)"
    using assms by (auto simp: enter_group_def Let_def split: if_splits)
  then show ?thesis
  proof cases
    case 2
    then show ?thesis
      by (auto simp: enter_as_follower_def Let_def generations_def le_fun_def saturating_add_ge
          split: device_state.splits)
  next
    case 3
    then obtain gr b1 g prior ks where "accept_start d (set_group uuid gr b) = (b1, g, prior)" "b' = close_hosts ks b1"
      unfolding enter_as_owner_def Let_def by (auto split: prod.splits)
    with generations_accept_start [OF this(1)] show ?thesis
      by (simp add: generations_devices [of "close_hosts ks b1" b1] generations_devices [of "set_group uuid gr b" b])
  qed simp
qed

lemma generations_start:
  "generations b \<le> generations (fst (handle_session_start d rate ring grp current b))"
proof -
  obtain b1 e u where a: "accept_member d rate ring grp b = (b1, e, u)" using prod_cases3 by blast
  have st: "generations b0 \<le> generations b1" if "accept_start d b0 = (b1, g, prior)" for b0 b1 g prior
    using generations_accept_start [OF that] .
  have "generations b \<le> generations b1"
  proof (cases grp)
    case None
    with a st show ?thesis by (auto simp: accept_member_def split: prod.splits)
  next
    case (Some uuid)
    obtain b2 e2 where e2: "enter_group d uuid rate ring b = (b2, e2)" by force
    then have le: "generations b \<le> generations b2" by (rule generations_enter_group)
    obtain b3 g prior where b3: "accept_start d b2 = (b3, g, prior)" using prod_cases3 by blast
    from order_trans [OF le st [OF b3]] le a Some e2 b3 show ?thesis
      by (cases e2) (simp_all add: accept_member_def)
  qed
  moreover have dev: "devices (detach_prior prior pol b1) = devices b1" for prior pol
    by (simp add: detach_prior_def detach_teardown_def split: option.split)
  moreover have "generations b1 \<le> generations (fst (start_end j r (detach_prior prior pol b1)))" for j r prior pol
    using generations_evolves [OF evolves_start_end [OF evolves_devices [OF dev]]] .
  moreover have "generations (schedule_group_reconcile u (detach_prior prior pol b1)) = generations b1" for u prior pol
    by (rule generations_devices) (simp add: dev)
  moreover have "generations (detach_prior prior pol b1) = generations b1" for prior pol
    by (rule generations_devices [OF dev])
  ultimately have
    "generations b \<le> generations (fst (start_end j r (detach_prior prior pol b1)))"
    "generations b \<le> generations (schedule_group_reconcile u (detach_prior prior pol b1))"
    "generations b \<le> generations (detach_prior prior pol b1)" "generations b \<le> generations b1" for j r prior pol u
    by (blast intro: order_trans, simp_all)
  then show ?thesis
    by (simp add: handle_session_start_def a Let_def split: group_entry.split)
qed

lemma generations_op: "generations b \<le> generations (apply_op op b)"
proof (cases "is_start op")
  case False
  then show ?thesis by (rule generations_evolves [OF evolves_op])
next
  case True
  then obtain d rate ring grp current now where "op = OpEvent (EvStarted d rate ring grp) current now"
    by (cases op rule: is_start.cases) auto
  then show ?thesis by (simp add: generations_start)
qed

interpretation bridge_run: ranked_machine "\<lambda>b op. apply_op op b" bridge_ok generations
  by unfold_locales (simp_all add: apply_op_ok generations_op)

text \<open>
  However events, Cast callbacks and watchdog ticks follow each other, the bridge stays well
  formed and the generation of a device's slot never decreases, so a stamp taken earlier can never
  become current again after a newer start.
\<close>

theorem generations_monotone:
  "let b = foldl (\<lambda>b op. apply_op op b) (bridge_new r) before;
       b' = foldl (\<lambda>b op. apply_op op b) b after
   in bridge_ok b' \<and> slot_generation (slot_of d b) \<le> slot_generation (slot_of d b')"
proof -
  have ok: "bridge_ok (foldl (\<lambda>b op. apply_op op b) (bridge_new r) before)"
    by (rule bridge_run.run_inv [OF bridge_ok_new])
  from bridge_run.run_rank [OF this, of after] bridge_run.run_inv [OF this, of after] show ?thesis
    by (simp add: generations_def le_fun_def)
qed

end
