(* ===== verification/Session_Contracts.thy ===== *)
theory Session_Contracts
  imports Bridge_Promises
begin

text \<open>
  What the operations on one session promise: pause, resume and flush against an abstract transport,
  the commands that race with them, re-LOADs, the stall watchdog, FLAC strikes, the order of a
  teardown, and volume.
\<close>

section \<open>An abstract transport\<close>

text \<open>
  The listener's view of a session: whether it is paused, and the two debts that a resume must pay
  with a re-LOAD instead of a PLAY.
\<close>

record transport =
  t_paused :: bool
  t_flush_debt :: bool
  t_stall_debt :: bool

datatype transport_action = DoNothing | DoPlay | DoReload

definition transport_of :: "playing_session \<Rightarrow> transport" where
  "transport_of s = \<lparr>t_paused = paused s, t_flush_debt = flush_reload_owed s, t_stall_debt = stall_reload_owed s\<rparr>"

definition t_pause :: "transport \<Rightarrow> transport" where
  "t_pause t = t\<lparr>t_paused := True\<rparr>"

definition t_flush :: "transport \<Rightarrow> transport" where
  "t_flush t = t\<lparr>t_flush_debt := True\<rparr>"

definition t_resume :: "bool \<Rightarrow> transport \<Rightarrow> transport \<times> transport_action" where
  "t_resume long t =
     (t\<lparr>t_paused := False\<rparr>,
      if t_flush_debt t \<or> t_stall_debt t then DoReload
      else if t_paused t then (if long then DoReload else DoPlay)
      else DoNothing)"

text \<open>What the tasks that an operation spawned amount to.\<close>

fun action_of_tasks :: "session_task list \<Rightarrow> transport_action" where
  "action_of_tasks [] = DoNothing"
| "action_of_tasks (PlayTask _ # _) = DoPlay"
| "action_of_tasks (ReloadTask _ _ _ # _) = DoReload"
| "action_of_tasks (_ # ts) = action_of_tasks ts"

lemma playing_at_spawn:
  "playing_at d b = Some (g, s) \<Longrightarrow>
   playing_at d (spawn_session_task d g t b) = Some (g, s\<lparr>tasks := tasks s @ [t]\<rparr>)"
  by (simp add: spawn_session_task_def playing_at_def)

text \<open>
  C35: Pause, flush and resume implement the abstract transport of a playing session, as long as its flush counter is
  not full: they change its state as specified, and a resume spawns exactly the action the transport asks for, which
  is a re-LOAD whenever a flush or a stall is owed or the pause was long, else a PLAY if the session was paused, else
  nothing; so a resume never asks for PLAY while something is owed.
\<close>

theorem transport_refined:
  assumes "playing_at d b = Some (g, s)" "flush_reload_done s \<le> flush_reload_requested s"
    and "flush_reload_requested s \<noteq> - 1"
  shows "(\<exists>s'. playing_at d (handle_pause d rate0 now b) = Some (g, s') \<and> transport_of s' = t_pause (transport_of s)) \<and>
     (\<exists>s'. playing_at d (handle_flush d b) = Some (g, s') \<and> transport_of s' = t_flush (transport_of s)) \<and>
     (\<exists>s' ts. playing_at d (handle_resume d now b) = Some (g, s') \<and> tasks s' = tasks s @ ts \<and>
        t_resume (long_pause s now) (transport_of s) = (transport_of s', action_of_tasks ts))"
proof (intro conjI)
  show "\<exists>s'. playing_at d (handle_pause d rate0 now b) = Some (g, s') \<and> transport_of s' = t_pause (transport_of s)"
    using assms(1) by (auto simp: handle_pause_def transport_of_def t_pause_def flush_reload_owed_def)
  have "flush_reload_requested s < saturating_add (flush_reload_requested s) 1"
    by (rule saturating_inc_greater [OF assms(3)])
  with assms(2) have "flush_reload_done s < saturating_add (flush_reload_requested s) 1" by order
  then show "\<exists>s'. playing_at d (handle_flush d b) = Some (g, s') \<and> transport_of s' = t_flush (transport_of s)"
    using assms(1) by (auto simp: handle_flush_def transport_of_def t_flush_def flush_reload_owed_def)
  let ?s = "s\<lparr>paused := False, paused_at := None\<rparr>"
  let ?b = "edit_session d g s ?s (\<lambda>c. c\<lparr>playback_paused := False\<rparr>) b"
  show "\<exists>s' ts. playing_at d (handle_resume d now b) = Some (g, s') \<and> tasks s' = tasks s @ ts \<and>
        t_resume (long_pause s now) (transport_of s) = (transport_of s', action_of_tasks ts)"
    using assms(1) playing_at_spawn [of d ?b g ?s]
    by (cases "flush_reload_owed s"; cases "stall_reload_owed s"; cases "paused s"; cases "long_pause s now")
      (auto simp: handle_resume_def plan_resume_def owed_of_def t_resume_def transport_of_def flush_reload_owed_def
        split: prod.splits)
qed

definition solo :: bridge where
  "solo = set_slot ''d'' \<lparr>slot_generation = 1, slot_state = Playing 1 (new_session example_job 0 example_media FlacLive 3)\<rparr>
     (upd_cells 0 (\<lambda>_. new_cells example_job None default_track) ((bridge_new registry_new)\<lparr>next_sid := 1\<rparr>))"

lemma solo_playing [simp]: "playing_at ''d'' solo = Some (1, new_session example_job 0 example_media FlacLive 3)"
  by (simp add: solo_def playing_at_def)

theorem transport_refined_witness:
  "\<exists>s'. playing_at ''d'' (handle_flush ''d'' solo) = Some (1, s') \<and> t_flush_debt (transport_of s')"
proof -
  have "\<exists>s'. playing_at ''d'' (handle_flush ''d'' solo) = Some (1, s') \<and>
      transport_of s' = t_flush (transport_of (new_session example_job 0 example_media FlacLive 3))"
    using transport_refined [OF solo_playing] by (simp add: new_session_def)
  then show ?thesis by (auto simp: t_flush_def)
qed

text \<open>
  A PAUSE or PLAY that is overtaken by the opposite event before it reaches Cast is dropped: after a
  resume no queued PAUSE of that session is sent, after a pause no queued PLAY is, and of the two at
  most one may be sent at any time.
\<close>

theorem overtaken_command_dropped:
  assumes "playing_at d b = Some (g, s)" "playback_paused (shared b (sid s)) = paused s"
  shows "\<not> snd (cast_pause_check d g (sid s) (handle_resume d now b)) \<and>
     \<not> snd (cast_play_check d g (sid s) (handle_pause d rate0 now b)) \<and>
     \<not> (snd (cast_pause_check d g (sid s) b) \<and> snd (cast_play_check d g (sid s) b))"
proof -
  let ?s = "s\<lparr>paused := False, paused_at := None\<rparr>"
  let ?b = "edit_session d g s ?s (\<lambda>c. c\<lparr>playback_paused := False\<rparr>) b"
  have "\<not> playback_paused (shared ?b (sid s))" by (simp add: edit_session_def)
  moreover have "shared (spawn_session_task d g t ?b) = shared ?b" for t
    by (simp add: spawn_session_task_def)
  ultimately have "\<not> playback_paused (shared (handle_resume d now b) (sid s))"
    using assms(1)
    by (auto simp: handle_resume_def plan_resume_def split: resume_decision_kind.splits resume_action.splits)
  moreover have "playback_paused (shared (handle_pause d rate0 now b) (sid s))"
    using assms by (auto simp: handle_pause_def edit_session_def)
  ultimately show ?thesis by (simp add: cast_pause_check_def cast_play_check_def)
qed

theorem overtaken_command_dropped_witness:
  "\<not> snd (cast_pause_check ''d'' 1 0 (handle_resume ''d'' 9 solo)) \<and>
   \<not> snd (cast_play_check ''d'' 1 0 (handle_pause ''d'' 8 9 solo))"
  using overtaken_command_dropped [OF solo_playing, where now = 9 and ?rate0.0 = 8]
  by (simp add: new_session_def) (simp add: solo_def new_cells_def)

text \<open>
  A flush that arrives while a re-LOAD is in flight is not lost: accepting a re-LOAD that was
  published for an earlier request pays only that request, so the session still owes a re-LOAD;
  without such a flush nothing is owed any more.
\<close>

theorem flush_during_reload_stays_owed:
  assumes "playing_at d b = Some (g, s)" "flush_reload_done s \<le> flush_reload_requested s"
    and "flush_reload_requested s \<noteq> - 1" "session_alive (shared b (sid s))" "\<not> paused s"
  shows "(\<exists>s'. playing_at d (fst (accept_reload d g (flush_reload_requested s) (handle_flush d b))) = Some (g, s') \<and>
        flush_reload_owed s') \<and>
     (\<exists>s'. playing_at d (fst (accept_reload d g (flush_reload_requested s) b)) = Some (g, s') \<and>
        \<not> flush_reload_owed s' \<and> \<not> stall_reload_owed s')"
proof -
  let ?s = "s\<lparr>flush_reload_requested := saturating_add (flush_reload_requested s) 1, media := end_live_bodies (media s)\<rparr>"
  have flush: "playing_at d (handle_flush d b) = Some (g, ?s)"
    using assms(1) by (simp add: handle_flush_def)
  have alive: "session_alive (shared (handle_flush d b) (sid s))"
    using assms(1,4) by (simp add: handle_flush_def edit_session_def)
  have valid: "reload_validity g g True (paused s) = Valid" using assms(5) by (simp add: reload_validity_def)
  have gt: "flush_reload_requested s < saturating_add (flush_reload_requested s) 1"
    by (rule saturating_inc_greater [OF assms(3)])
  have "max (flush_reload_done s) (flush_reload_requested s) = flush_reload_requested s"
    using assms(2) by (simp add: max_def)
  with gt valid alive assms(1,4) flush show ?thesis
    by (auto simp: accept_reload_def Let_def flush_reload_owed_def)
qed

theorem flush_during_reload_stays_owed_witness:
  "\<exists>s'. playing_at ''d'' (fst (accept_reload ''d'' 1 0 (handle_flush ''d'' solo))) = Some (1, s') \<and>
     flush_reload_owed s'"
proof -
  have "session_alive (shared solo 0)" by (simp add: solo_def new_cells_def)
  with flush_during_reload_stays_owed [OF solo_playing] show ?thesis by (simp add: new_session_def)
qed


section \<open>Re-LOADs\<close>

fun reload_run :: "reload_job \<Rightarrow> reload_pc \<Rightarrow> reload_input list \<Rightarrow> bridge \<Rightarrow> bridge \<times> reload_status" where
  "reload_run j pc [] b = (b, ReloadRunning pc)"
| "reload_run j pc (x # xs) b =
     (case reload_step j pc x b of
        (b', ReloadRunning pc') \<Rightarrow> reload_run j pc' xs b'
      | (b', ReloadEnded r) \<Rightarrow> (b', ReloadEnded r))"

lemma confirm_group_frame:
  assumes "playing_at d b = Some (g, s)"
  shows "playing_at d (confirm_group_session d b) = Some (g, s)"
    and "shared (confirm_group_session d b) = shared b"
    and "\<exists>es. effects (confirm_group_session d b) = effects b @ es \<and>
      (es = [] \<or> (\<exists>u. ps_group s = Some u \<and> es = [SpawnReconcile u]))"
proof -
  have u: "session_group d b = ps_group s" using assms by (simp add: session_group_def)
  show "playing_at d (confirm_group_session d b) = Some (g, s)" "shared (confirm_group_session d b) = shared b"
    using assms by (auto simp: confirm_group_session_def playing_at_iff split: option.split)
  show "\<exists>es. effects (confirm_group_session d b) = effects b @ es \<and>
      (es = [] \<or> (\<exists>u. ps_group s = Some u \<and> es = [SpawnReconcile u]))"
    by (auto simp: confirm_group_session_def u group_owner_playing_def schedule_group_reconcile_def Let_def
        split: option.split)
qed

text \<open>
  C37: A re-LOAD that nothing disturbs comes through, for a session alone or in a group and for any flush that is not
  paid yet: planned on a playing session that is not paused and whose flight is free, it takes the flight, sends one
  LOAD to the worker that hosts the session, restores the last volume, ends \<open>Loaded\<close>, pays the flushes and the stall
  that were owed, and gives the flight back. All it adds for a group is to start the group's reconciliation again
  where the group has lost its members on Cast.
\<close>

theorem reload_reaches_loaded:
  assumes p: "playing_at d b = Some (g, s)" and ok: "session_ok (shared b (sid s)) d g s"
    and free: "\<not> reload_flight_held (shared b (sid s))" and run: "\<not> paused s"
    and unpaid: "case flush of None \<Rightarrow> True | Some r \<Rightarrow> flush_reload_done s < r"
    and plan: "reload_plan d g flush b = Inr j"
  shows "\<exists>b' s' es. reload_run j RlWantFlight [FlightFree, LeadReached, ThreadRuns, WireReply (Inr ref), TaskResumes] b
        = (b', ReloadEnded Loaded) \<and>
     effects b' = effects b @ CastLoad (route_media (route (shared b (sid s)))) (session_request s (shared b (sid s))) #
       (case last_volume_linear (shared b (sid s)) of None \<Rightarrow> [] | Some l \<Rightarrow> [CastSetVolume d l]) @ es \<and>
     (es = [] \<or> (\<exists>u. ps_group s = Some u \<and> es = [SpawnReconcile u])) \<and>
     playing_at d b' = Some (g, s') \<and> \<not> flush_reload_owed s' \<and> \<not> stall_reload_owed s' \<and>
     \<not> reload_flight_held (shared b' (sid s))"
proof -
  let ?c = "shared b (sid s)"
  have c: "session_alive ?c" "\<not> playback_paused ?c" "late_stop_allowed ?c" "route_volume (route ?c) = d"
    and paid: "flush_reload_done s \<le> flush_reload_requested s"
    using ok run by (auto simp: session_ok_def)
  have v: "reload_validity g g True (paused s) = Valid" using run by (simp add: reload_validity_def)
  have j: "rj_device j = d" "rj_generation j = g" "rj_flush j = flush" "rj_sid j = sid s"
    "rj_request j = session_request s ?c" "rj_volume j = Rollover (last_volume_linear ?c)"
    using plan p v c by (auto simp: reload_plan_def Let_def)
  have due: "\<not> (case flush of None \<Rightarrow> False | Some r \<Rightarrow> flush_reload_done s \<ge> r)"
    using unpaid by (auto split: option.splits)
  have m: "max (flush_reload_done s) (flush_reload_requested s) = flush_reload_requested s"
    using paid by (simp add: max_def)
  let ?b1 = "set_flight (sid s) True b"
  have sh: "shared ?b1 = (shared b)(sid s := ?c\<lparr>reload_flight_held := True\<rparr>)"
    by (simp add: set_flight_def)
  have gate: "reload_gate d g flush ?b1 = Proceed (flush_reload_requested s)"
    using p v c due by (simp add: reload_gate_def sh)
  have enter: "reload_step j RlWantFlight FlightFree b = (?b1, ReloadRunning RlLead)"
    using free by (simp add: j reload_enter_def gate)
  have publish: "reload_step j RlLead LeadReached ?b1 =
      (?b1, ReloadRunning (RlSpawned (flush_reload_requested s) (route_media (route ?c))))"
    using c by (simp add: j reload_publish_def gate sh)
  let ?b2 = "emit (CastLoad (route_media (route ?c)) (session_request s ?c)) ?b1"
  have send: "reload_step j (RlSpawned (flush_reload_requested s) (route_media (route ?c))) ThreadRuns ?b1 =
      (?b2, ReloadRunning (RlLoading (flush_reload_requested s) (route_media (route ?c))))"
    using c by (simp add: j thread_begin_def sh)
  let ?b3 = "load_volume_effect (sid s) (Rollover (last_volume_linear ?c)) (Inr ref) ?b2"
  have frame: "shared ?b3 = shared ?b1" "state_of e ?b3 = state_of e ?b1" for e
    by (simp_all add: load_volume_effect_def split: option.split)
  have answer: "reload_step j (RlLoading (flush_reload_requested s) (route_media (route ?c))) (WireReply (Inr ref)) ?b2 =
      (?b3, ReloadRunning (RlReply (flush_reload_requested s) (route_media (route ?c)) (Inr ref)))"
    using c by (simp add: j thread_finish_def sh late_load_should_stop_def)
  let ?s = "s\<lparr>flush_reload_done := flush_reload_requested s, stall_reload_owed := False\<rparr>"
  let ?b4 = "edit_session d g s ?s (\<lambda>c. c) ?b3"
  have p3: "playing_at d ?b3 = Some (g, s)" using p frame(2) by (simp add: playing_at_iff)
  have acc: "accept_reload d g (flush_reload_requested s) ?b3 = (?b4, Valid)"
    using v c by (simp add: accept_reload_def p3 m frame sh)
  let ?b5 = "confirm_group_session d ?b4"
  have p5: "playing_at d ?b5 = Some (g, ?s)" and sh5: "shared ?b5 = shared ?b4"
    and es: "\<exists>es. effects ?b5 = effects ?b4 @ es \<and> (es = [] \<or> (\<exists>u. ps_group s = Some u \<and> es = [SpawnReconcile u]))"
    using confirm_group_frame [of d ?b4 g ?s] by simp_all
  have accept: "reload_step j (RlReply (flush_reload_requested s) (route_media (route ?c)) (Inr ref)) TaskResumes ?b3 =
      (set_flight (sid s) False ?b5, ReloadEnded Loaded)"
    by (simp add: j reload_accept_def acc reload_end_def)
  have "effects ?b4 = effects b @ CastLoad (route_media (route ?c)) (session_request s ?c) #
      (case last_volume_linear ?c of None \<Rightarrow> [] | Some l \<Rightarrow> [CastSetVolume d l])"
    using c(4) by (simp add: load_volume_effect_def sh split: option.split)
  then show ?thesis
    using enter publish send answer accept p5 es
    by (simp add: flush_reload_owed_def) (auto simp: set_flight_def)
qed

theorem reload_reaches_loaded_witness:
  "\<exists>j b'. reload_plan ''d'' 1 None solo = Inr j \<and>
     reload_run j RlWantFlight [FlightFree, LeadReached, ThreadRuns, WireReply (Inr example_ref), TaskResumes] solo
        = (b', ReloadEnded Loaded) \<and>
     effects b' = [CastLoad ''d'' (with_track (load_flac ''http://10.0.0.1:9/stream'' Live) default_track)]"
proof -
  let ?s = "new_session example_job 0 example_media FlacLive 3"
  have c: "shared solo 0 = new_cells example_job None default_track" by (simp add: solo_def)
  have ok: "session_ok (shared solo (sid ?s)) ''d'' 1 ?s"
    by (simp add: session_ok_def new_session_def c new_cells_def example_job_def cast_route_new_def)
  obtain j where j: "reload_plan ''d'' 1 None solo = Inr j"
    by (simp add: reload_plan_def reload_validity_def new_session_def c new_cells_def)
  have e: "effects solo = []" by (simp add: solo_def bridge_new_def)
  have r: "route_media (route (shared solo (sid ?s))) = ''d''" "last_volume_linear (shared solo (sid ?s)) = None"
    "session_request ?s (shared solo (sid ?s)) =
       with_track (load_flac ''http://10.0.0.1:9/stream'' Live) default_track"
    by (simp_all add: new_session_def c new_cells_def example_job_def cast_route_new_def session_request_def
        stream_url_def example_media_def)
  have free: "\<not> reload_flight_held (shared solo (sid ?s))" by (simp add: new_session_def c new_cells_def)
  from reload_reaches_loaded [OF solo_playing ok free _ _ j, of example_ref] show ?thesis
    using j e r by (auto simp: new_session_def example_job_def)
qed


section \<open>Stalls\<close>

text \<open>
  The stall watchdog never touches a session it has no reason to: a tick does nothing when its
  generation is gone, the session is paused or re-LOADing, its body was written within five seconds
  (or, before any write, it started less than five seconds ago), or no audio is queued.
\<close>

theorem stall_tick_leaves_healthy:
  assumes "\<And>s. playing_at d b = Some (g, s) \<Longrightarrow>
     paused s \<or> reload_flight_held (shared b (sid s)) \<or> frames = 0 \<or>
     (case last_body_write (media s) of None \<Rightarrow> now - started_at s < STALL_BODY_STALE
      | Some at \<Rightarrow> now - at < STALL_BODY_STALE)"
  shows "stall_watchdog_tick d g frames now now1 now2 b = (b, TickDone)"
proof (cases "take_stall_snapshot d g frames b")
  case None
  then show ?thesis by (simp add: stall_watchdog_tick_def)
next
  case (Some sn)
  then obtain s where p: "playing_at d b = Some (g, s)" by (auto simp: take_stall_snapshot_def split: option.splits if_splits)
  have "ss_reloading sn \<or> (\<forall>e. snapshot_action sn now e = NoStall)"
    using Some assms [OF p] p
    by (auto simp: take_stall_snapshot_def snapshot_action_def stall_action_def body_is_stale_def
        split: if_splits option.splits)
  with Some show ?thesis by (auto simp: stall_watchdog_tick_def stall_act_def)
qed

theorem stall_tick_leaves_healthy_witness:
  "stall_watchdog_tick ''d'' 1 0 (from_secs 100) 0 0 solo = (solo, TickDone)"
  by (rule stall_tick_leaves_healthy) simp

text \<open>
  A stall re-LOAD that lost the race against a pause is owed, not dropped: the session stays, and
  the next resume re-LOADs instead of sending PLAY.
\<close>

theorem stall_during_pause_owed:
  assumes "playing_at d b = Some (g, s)" "session_alive (shared b (sid s))" "paused s" "\<not> flush_reload_owed s"
  shows "let b' = fst (stall_reload_outcome d g now1 now2 TickReload OutcomePaused b)
   in (\<exists>s'. playing_at d b' = Some (g, s') \<and> sid s' = sid s \<and> stall_reload_owed s') \<and>
      (\<exists>s'. playing_at d (handle_resume d now b') = Some (g, s') \<and> \<not> paused s' \<and>
         tasks s' = tasks s @ [ReloadTask g ''stall_owed_resume'' None])"
proof -
  let ?s = "s\<lparr>stall_reload_owed := True\<rparr>"
  let ?b = "edit_session d g s ?s (\<lambda>c. c) b"
  have b': "fst (stall_reload_outcome d g now1 now2 TickReload OutcomePaused b) = ?b"
    using assms by (simp add: stall_reload_outcome_def owe_stall_reload_def)
  let ?r = "?s\<lparr>paused := False, paused_at := None\<rparr>"
  have "handle_resume d now ?b = spawn_session_task d g (ReloadTask g ''stall_owed_resume'' None)
      (edit_session d g ?s ?r (\<lambda>c. c\<lparr>playback_paused := False\<rparr>) ?b)"
    using assms by (simp add: handle_resume_def plan_resume_def owed_of_def flush_reload_owed_def)
  then show ?thesis by (simp add: b' Let_def playing_at_spawn)
qed

theorem stall_during_pause_owed_witness:
  "\<exists>s'. playing_at ''d'' (handle_resume ''d'' 90
      (fst (stall_reload_outcome ''d'' 1 50 60 TickReload OutcomePaused (fst (pause_locally_for_cast ''d'' 40 solo))))) =
        Some (1, s') \<and> tasks s' = [ReloadTask 1 ''stall_owed_resume'' None]"
proof -
  let ?s = "(new_session example_job 0 example_media FlacLive 3)\<lparr>paused := True, paused_at := Some 40\<rparr>"
  let ?b = "fst (pause_locally_for_cast ''d'' 40 solo)"
  have p: "playing_at ''d'' ?b = Some (1, ?s)"
    by (simp add: pause_locally_for_cast_def new_session_def)
  have "session_alive (shared ?b (sid ?s))"
    by (simp add: pause_locally_for_cast_def new_session_def) (simp add: solo_def new_cells_def)
  from stall_during_pause_owed [OF p this, of 50 60 90] show ?thesis
    by (auto simp: Let_def new_session_def flush_reload_owed_def)
qed

text \<open>
  A FLAC session falls back to WAV only for cause and keeps its ring, URL and worker: one media
  recovery within ten seconds of the start, or two strikes less than ninety seconds apart. A single
  later strike is only recorded.
\<close>

theorem media_recovery_fallback:
  assumes "playing_at d b = Some (g, s)" "ps_egress s = FlacLive" "cast_key_owner key b = d"
  shows "let early = now1 - started_at s < FLAC_FALLBACK_WINDOW;
             pair = (case flac_strike s of None \<Rightarrow> False | Some (at, _) \<Rightarrow> now1 - at < FLAC_STRIKE_PAIR_WINDOW);
             b' = fst (on_media_recovered key now1 now2 b)
   in snd (on_media_recovered key now1 now2 b) = (if early \<or> pair then Some g else None) \<and>
      (\<exists>s'. playing_at d b' = Some (g, s') \<and> sid s' = sid s \<and> ps_ring s' = ps_ring s \<and>
         ps_stream_url s' = ps_stream_url s \<and>
         ps_egress s' = (if early \<or> pair then WavBuffered else FlacLive) \<and>
         (\<not> early \<longrightarrow> flac_strike s' = Some (now1, MediaRecovered))) \<and>
      (d \<in> flac_fallback b' \<longleftrightarrow> d \<in> flac_fallback b \<or> early \<or> pair)"
proof -
  have fb: "playing_at e (remember_flac_fallback d x) = playing_at e x" for e x
    by (simp add: remember_flac_fallback_def playing_at_def state_of_def)
  have ff: "flac_fallback (remember_flac_fallback d x) = insert d (flac_fallback x)" for x
    by (simp add: remember_flac_fallback_def)
  have sw: "\<exists>s'. playing_at d (fst (switch_playing_to_wav d g now2 x)) = Some (g, s') \<and> sid s' = sid t \<and>
      ps_ring s' = ps_ring t \<and> ps_stream_url s' = ps_stream_url t \<and> ps_egress s' = WavBuffered \<and>
      flac_strike s' = flac_strike t" "snd (switch_playing_to_wav d g now2 x)"
      "flac_fallback (fst (switch_playing_to_wav d g now2 x)) = flac_fallback x"
    if "playing_at d x = Some (g, t)" "ps_egress t = FlacLive" for x t
    using that by (simp_all add: switch_playing_to_wav_def playing_at_def)
  show ?thesis
  proof (cases "now1 - started_at s < FLAC_FALLBACK_WINDOW")
    case True
    then have "on_media_recovered key now1 now2 b = apply_media_recovered_plan d (EarlyImmediate g) now2 b"
      using assms by (simp add: on_media_recovered_def plan_media_recovered_flac_def)
    with True sw [of "remember_flac_fallback d b" s] assms show ?thesis
      by (auto simp add: apply_media_recovered_plan_def Let_def fb ff case_prod_beta)
  next
    case False
    let ?s = "s\<lparr>flac_strike := Some (now1, MediaRecovered)\<rparr>"
    let ?b = "edit_session d g s ?s (\<lambda>c. c) b"
    define pair where "pair = (case flac_strike s of None \<Rightarrow> False | Some (at, _) \<Rightarrow> now1 - at < FLAC_STRIKE_PAIR_WINDOW)"
    have "on_media_recovered key now1 now2 b =
        (if pair then apply_media_recovered_plan d (StrikeFallback g (map_option snd (flac_strike s))) now2 ?b else (?b, None))"
      using False assms
      by (auto simp: on_media_recovered_def plan_media_recovered_flac_def apply_flac_strike_def
          flac_strike_decision_def pair_def Let_def split: option.splits)
    with False sw [of "remember_flac_fallback d ?b" ?s] assms show ?thesis
      unfolding pair_def [symmetric]
      by (auto simp add: apply_media_recovered_plan_def Let_def fb ff case_prod_beta)
  qed
qed

theorem media_recovery_fallback_witness:
  "snd (on_media_recovered ''d'' 5 6 solo) = Some 1 \<and> ''d'' \<in> flac_fallback (fst (on_media_recovered ''d'' 5 6 solo))"
proof -
  have "cast_key_owner ''d'' solo = ''d''"
    by (simp add: cast_key_owner_def owner_for_cast_key_def solo_def bridge_new_def hm_insert_def new_session_def
        new_cells_def example_job_def cast_route_new_def)
  from media_recovery_fallback [OF solo_playing _ this, of 5 6] show ?thesis
    by (simp add: new_session_def Let_def FLAC_FALLBACK_WINDOW_def from_secs_def)
qed

section \<open>Teardowns\<close>

text \<open>
  A teardown that runs to its end (at most nine steps) does its work in this order: stop the pump,
  tell the Cast worker the session is over unless it was replaced, abort the session's tasks, the
  watchdog and the rollover loop, wait for the LOAD in flight, shut the media server down, and only
  then stop Cast - at most twice, the second time only if the first failed, and never for a replaced
  session. The worker it addresses is the one that hosted the session when the teardown began.
\<close>

theorem teardown_order:
  assumes "9 \<le> length answers"
  shows "let s = td_session j; key = route_media (route (shared b (sid s)));
             replaced = (td_policy j = SkipStopForReplace)
   in snd (td_run j TdStart answers b) = TdDone \<and>
      effects (fst (td_run j TdStart answers b)) = effects b @
        (case ps_source s of None \<Rightarrow> [] | Some p \<Rightarrow> [StopPump p]) @
        (if replaced then [] else [CastSessionEnded key]) @
        [AbortSessionTasks (sid s)] @ watchdog_stop s @
        (if rollover_running s then [StopRollover (sid s)] else []) @
        [JoinInflightLoad (sid s), MediaShutdown (media_shutdown (media s))] @
        (if replaced then [] else if answers ! 7 then [CastStop key] else [CastStop key, CastStop key])"
proof -
  obtain a0 a1 a2 a3 a4 a5 a6 a7 a8 rest where xs: "answers = a0 # a1 # a2 # a3 # a4 # a5 # a6 # a7 # a8 # rest"
    using assms by (auto simp: numeral_eq_Suc Suc_le_length_iff)
  have fin: "td_run j TdDone ys x = (x, TdDone)" for ys x by (induction ys) simp_all
  show ?thesis
    by (simp add: xs Let_def fin replace_skips_cast_stop_def stop_pump_def split: option.split)
qed

theorem teardown_order_witness:
  "effects (fst (td_run \<lparr>td_session = new_session example_job 0 example_media FlacLive 3, td_policy = StopBestEffort\<rparr>
     TdStart (replicate 9 True) solo)) =
     [CastSessionEnded ''d'', AbortSessionTasks 0, StopWatchdog ''d'' 1, JoinInflightLoad 0,
      MediaShutdown (media_shutdown example_media), CastStop ''d'']"
proof -
  have "effects solo = []" "route_media (route (shared solo 0)) = ''d''"
    by (simp_all add: solo_def bridge_new_def new_cells_def example_job_def cast_route_new_def)
  with teardown_order [of "replicate 9 True"
      "\<lparr>td_session = new_session example_job 0 example_media FlacLive 3, td_policy = StopBestEffort\<rparr>" solo]
  show ?thesis by (simp add: Let_def new_session_def watchdog_stop_def example_job_def)
qed


lemma promote_frames:
  "devices (promote_if_ownerless u b) = devices b \<and> torn_down (effects (promote_if_ownerless u b)) = torn_down (effects b)"
proof -
  have "torn_down (map CloseSessionHost ks) = []" for ks by (induction ks) simp_all
  then show ?thesis
    by (auto simp: promote_if_ownerless_def redispatch_start_def close_hosts_def
        split: option.split list.split device_state.split)
qed

lemma group_check_owner_frames:
  "devices (group_check_owner d b) = devices b" "torn_down (effects (group_check_owner d b)) = torn_down (effects b)"
proof -
  have hosts: "torn_down (map CloseSessionHost ks) = []" for ks by (induction ks) simp_all
  have "devices (foldl (\<lambda>acc u. promote_if_ownerless u acc) x us) = devices x \<and>
      torn_down (effects (foldl (\<lambda>acc u. promote_if_ownerless u acc) x us)) = torn_down (effects x)" for x us
    by (induction us arbitrary: x) (simp_all add: promote_frames)
  then show "devices (group_check_owner d b) = devices b"
    "torn_down (effects (group_check_owner d b)) = torn_down (effects b)"
    by (simp_all add: group_check_owner_def Let_def close_hosts_def hosts)
qed

text \<open>
  The receiver's end of a session acts on the session it belongs to: an event whose device still
  plays the ring the receiver is feeding now (a newer session) changes nothing; otherwise a session
  outside any group is taken, and the session taken is handed, once, to a full teardown, for which the event waits.
\<close>

theorem ended_acts_on_its_session:
  assumes "playing_at d b = Some (g, s)" "ps_group s = None"
  shows "ended_decision_of d current b = Some (EndedPlaying g (ring_is_current current (airplay_ring s))) \<and>
    handle_ended d (EndedAct (EndedPlaying g stale)) b = (b, if stale then None else Some (EndedTake g)) \<and>
    (\<exists>b'. handle_ended d (EndedTake g) b = (b', Some (EndedTeardown (length (teardowns (effects b))))) \<and>
       state_of d b' = Some Idle \<and> (\<forall>e. e \<noteq> d \<longrightarrow> state_of e b' = state_of e b) \<and>
       teardowns (effects b') = teardowns (effects b) @ [\<lparr>td_session = s, td_policy = StopBestEffort\<rparr>])"
proof -
  have st: "state_of d b = Some (Playing g s)" using assms(1) by (simp add: playing_at_iff)
  have "group_owner_left d g b = (b, False)" using assms by (simp add: group_owner_left_def)
  moreover have "take_live_session_if_gen d g b = (set_state d Idle b, Some s)"
    using assms(1) by (simp add: take_live_session_if_gen_def)
  ultimately show ?thesis
    using st by (simp add: ended_decision_of_def detach_teardown_def teardowns_def List.map_filter_def)
qed

theorem ended_acts_on_its_session_witness:
  "ended_decision_of ''d'' None solo = Some (EndedPlaying 1 False) \<and>
   state_of ''d'' (fst (handle_ended ''d'' (EndedTake 1) solo)) = Some Idle"
  using ended_acts_on_its_session [OF solo_playing, where current = None and stale = False]
  by (auto simp: new_session_def example_job_def ring_is_current_def simp del: handle_ended.simps)

text \<open>
  The terminal end of a stalled session takes only the session of its own generation. When a newer
  session owns the slot that session stays and nothing is torn down, yet the clients of the device,
  and of every member of the newer session's group, are still disconnected.
\<close>

theorem stale_terminal_end:
  assumes "playing_at d b = Some (g', s)" "g' \<noteq> g" "ps_group s = None"
  shows "terminal_stall_end d g b = emit (KickClients [d]) b \<and>
     playing_at d (terminal_stall_end d g b) = Some (g', s)"
proof -
  have "terminal_stall_end d g b = emit (KickClients [d]) (close_hosts [] b)"
    using assms by (simp add: terminal_stall_end_def session_group_def take_live_session_if_gen_def opt_list_def)
  moreover have "close_hosts [] b = b" by (simp add: close_hosts_def emit_all_def)
  ultimately show ?thesis using assms(1) by (simp add: playing_at_iff)
qed

theorem stale_terminal_end_witness:
  "effects (terminal_stall_end ''d'' 0 solo) = [KickClients [''d'']]"
proof -
  have "effects solo = []" by (simp add: solo_def bridge_new_def)
  with stale_terminal_end [OF solo_playing, of 0] show ?thesis by (simp add: new_session_def example_job_def)
qed

text \<open>
  A re-LOAD that Cast accepted but the bridge does not want any more is stopped exactly when the
  session is paused, or was ended and not replaced.
\<close>

theorem discarded_reload_stops:
  assumes "accept_reload (rj_device j) (rj_generation j) covers b = (b1, v)" "v \<noteq> Valid"
  shows "effects (fst (reload_accept j covers key (Inr ref) b)) = effects b @
     (let c = shared b (rj_sid j)
      in if playback_paused c \<or> (\<not> session_alive c \<and> late_stop_allowed c) then [CastStop key] else [])"
proof -
  have "b1 = b"
    using assms by (auto simp: accept_reload_def Let_def split: option.splits if_splits)
  with assms show ?thesis
    by (auto simp: reload_accept_def Let_def discard_successful_reload_should_stop_def
        late_load_should_stop_def reload_end_def)
qed

text \<open>The witness is a replaced session that was paused: its late re-LOAD stops its successor.\<close>

definition replaced_while_paused :: bridge where
  "replaced_while_paused =
     upd_cells 0 (\<lambda>c. c\<lparr>playback_paused := True, session_alive := False, late_stop_allowed := False\<rparr>)
       (set_slot ''d'' \<lparr>slot_generation = 2, slot_state = Starting 2\<rparr> solo)"

theorem discarded_reload_stops_witness:
  "effects (fst (reload_accept \<lparr>rj_device = ''d'', rj_generation = 1, rj_flush = None, rj_sid = 0,
       rj_request = load_flac ''u'' Live, rj_volume = PreserveDevice\<rparr> 0 ''d'' (Inr example_ref) replaced_while_paused))
     = [CastStop ''d'']"
proof -
  have a: "accept_reload ''d'' 1 0 replaced_while_paused = (replaced_while_paused, Stale)"
    by (simp add: accept_reload_def replaced_while_paused_def playing_at_def)
  have "effects replaced_while_paused = []" "playback_paused (shared replaced_while_paused 0)"
    by (simp_all add: replaced_while_paused_def solo_def bridge_new_def)
  with discarded_reload_stops [of "\<lparr>rj_device = ''d'', rj_generation = 1, rj_flush = None, rj_sid = 0,
       rj_request = load_flac ''u'' Live, rj_volume = PreserveDevice\<rparr>" 0 replaced_while_paused
       replaced_while_paused Stale "''d''" example_ref] a
  show ?thesis by (simp add: Let_def)
qed

section \<open>Volume\<close>

text \<open>
  Volume changes for a speaker group are coalesced: while the apply task runs a newer target
  replaces the pending one without a second task, the task takes the newest target, and it stops
  (and can be spawned again) only when no target is left.
\<close>

theorem group_volume_coalesced:
  "let v = hm_entry default_group_volume u (group_volumes b);
       b' = queue_group_volume u l2 (queue_group_volume u l1 b);
       (b1, t1) = take_group_volume u now1 b'; (b2, t2) = take_group_volume u now2 b1
   in effects b' = effects b @ (if gv_running v then [] else [SpawnGroupVolume u]) \<and>
      map_option fst t1 = Some l2 \<and> gv_running (hm_entry default_group_volume u (group_volumes b1)) \<and>
      t2 = None \<and> \<not> gv_running (hm_entry default_group_volume u (group_volumes b2))"
proof -
  define v where "v = hm_entry default_group_volume u (group_volumes b)"
  define n where "n = v\<lparr>gv_target := Some l1, gv_running := True\<rparr>"
  have one: "hm_get (group_volumes (queue_group_volume u l1 b)) u = Some n"
    "effects (queue_group_volume u l1 b) = effects b @ (if gv_running v then [] else [SpawnGroupVolume u])"
    by (auto simp: queue_group_volume_def Let_def v_def n_def emit_def)
  have two: "hm_get (group_volumes (queue_group_volume u l2 (queue_group_volume u l1 b))) u =
      Some (n\<lparr>gv_target := Some l2\<rparr>)"
    "effects (queue_group_volume u l2 (queue_group_volume u l1 b)) = effects (queue_group_volume u l1 b)"
    using one(1) by (auto simp: queue_group_volume_def [of u l2] Let_def hm_entry_def n_def)
  show ?thesis
    unfolding v_def [symmetric]
    using one two by (simp add: take_group_volume_def Let_def hm_entry_def n_def)
qed

end
