(* ===== verification/Group_Contracts.thy ===== *)
theory Group_Contracts
  imports Bridge_System
begin

text \<open>
  What the group operations promise their callers: the roles a member can enter with, the hand-over
  of the Cast session when the owner leaves, the reconciliation scheduler, membership plans, refused
  members, and the end of a group.
\<close>

section \<open>A group of two\<close>

definition ring_of :: "nat \<Rightarrow> ring_ref" where
  "ring_of n = \<lparr>ring_ptr = n, ring_channels = 2\<rparr>"

definition owner_session :: playing_session where
  "owner_session = (new_session (example_job\<lparr>sj_group := Some ''grp'', sj_ring := ring_of 7\<rparr>) 0 example_media FlacLive 3)"

definition duo_group :: cast_group where
  "duo_group = default_group\<lparr>owner := Some ''d'', followers := [''e''], cast_members := [''d'', ''e'']\<rparr>"

definition duo :: bridge where
  "duo = set_group ''grp'' duo_group
     (set_slot ''e'' \<lparr>slot_generation = 4, slot_state = Following 4
        \<lparr>fs_group = ''grp'', fs_sample_rate = 48000, fs_pump = pump_spawn (ring_of 8)\<rparr>\<rparr>
     (set_slot ''d'' \<lparr>slot_generation = 1, slot_state = Playing 1 owner_session\<rparr>
     (upd_cells 0 (\<lambda>_. new_cells example_job None default_track) ((bridge_new registry_new)\<lparr>next_sid := 1\<rparr>))))"

lemma duo_states [simp]:
  "state_of ''d'' duo = Some (Playing 1 owner_session)" "hm_get (groups duo) ''grp'' = Some duo_group"
  "state_of ''e'' duo = Some (Following 4 \<lparr>fs_group = ''grp'', fs_sample_rate = 48000, fs_pump = pump_spawn (ring_of 8)\<rparr>)"
  by (simp_all add: duo_def)

lemma duo_playing [simp]: "playing_at ''d'' duo = Some (1, owner_session)"
  by (simp add: playing_at_iff)

section \<open>Entering\<close>

text \<open>
  A member that starts in a group is given one of three roles, decided by the group as it is. Excluded
  members play on their own and change nothing. With another member starting or playing as owner it
  follows: it joins the followers, the owner stays, and its own old session is handed back. Otherwise
  it becomes the owner and is \<open>Starting\<close>, and reuses the group's session host only if it was the
  owner already.
\<close>

theorem enter_group_roles:
  assumes "enter_group d u rate ring b = (b', e)"
  shows "let G = hm_entry default_group u (groups b); G' = hm_entry default_group u (groups b')
   in case e of
        EntryStandalone \<Rightarrow> d \<in> excluded G \<and> b' = b
      | EntryFollowing prior \<Rightarrow>
          d \<notin> excluded G \<and> owner_live d G b \<and> owner G' = owner G \<and> d \<in> set (followers G') \<and>
          follows_group u d b' \<and> prior = map_option snd (playing_at d b)
      | EntryOwner g prior media_at \<Rightarrow>
          d \<notin> excluded G \<and> \<not> owner_live d G b \<and> owner G' = Some d \<and> d \<notin> set (followers G') \<and>
          state_of d b' = Some (Starting g) \<and> prior = map_option snd (playing_at d b) \<and>
          media_at = (if owner G = Some d then host_key G else None)"
proof -
  let ?G = "hm_entry default_group u (groups b)"
  have prior: "map_option snd (playing_at d b) = (case slot_state (slot_of d b) of Playing _ s \<Rightarrow> Some s | _ \<Rightarrow> None)"
    by (auto simp: playing_at_def state_of_def slot_of_def hm_entry_def default_slot_def
        split: option.splits device_state.splits)
  consider (alone) "d \<in> excluded ?G" "b' = b" "e = EntryStandalone"
    | (follow) "d \<notin> excluded ?G" "owner_live d ?G b" "enter_as_follower d u rate ring ?G b = (b', e)"
    | (own) "d \<notin> excluded ?G" "\<not> owner_live d ?G b" "enter_as_owner d u ?G b = (b', e)"
    using assms by (auto simp: enter_group_def Let_def split: if_splits)
  then show ?thesis
  proof cases
    case alone
    then show ?thesis by simp
  next
    case follow
    have "follows_group u d b' \<and> hm_entry default_group u (groups b') =
        (if d \<in> set (followers ?G) then ?G else ?G\<lparr>followers := followers ?G @ [d]\<rparr>) \<and>
        e = EntryFollowing (map_option snd (playing_at d b))"
      unfolding prior using follow(3)
      by (auto simp: enter_as_follower_def Let_def follows_group_def hm_entry_def split: device_state.splits)
    with follow(1,2) show ?thesis by (auto simp: Let_def)
  next
    case own
    then show ?thesis
      unfolding prior
      by (auto simp: enter_as_owner_def accept_start_def accept_start_in_def Let_def hm_entry_def
          split: device_state.splits prod.splits)
  qed
qed

theorem enter_group_roles_witness:
  "\<exists>b'. enter_group ''e'' ''grp'' 48000 (ring_of 9) duo = (b', EntryFollowing None) \<and>
     follows_group ''grp'' ''e'' b' \<and> owner (hm_entry default_group ''grp'' (groups b')) = Some ''d''"
proof -
  have "slot_state (slot_of ''e'' duo) = Following 4 \<lparr>fs_group = ''grp'', fs_sample_rate = 48000, fs_pump = pump_spawn (ring_of 8)\<rparr>"
    by (simp add: duo_def)
  then obtain b' where e: "enter_group ''e'' ''grp'' 48000 (ring_of 9) duo = (b', EntryFollowing None)"
    by (simp add: enter_group_def hm_entry_def duo_group_def default_group_def owner_live_def
        starting_or_playing_def enter_as_follower_def Let_def)
  have "owner (hm_entry default_group ''grp'' (groups duo)) = Some ''d''"
    by (simp add: hm_entry_def duo_group_def)
  with enter_group_roles [OF e] e show ?thesis by (simp add: Let_def)
qed

section \<open>Hand-over\<close>

text \<open>
  C27: When the owner of a group leaves while it plays, and at least one follower is in the same Cast session, feeds
  the same sample rate and has as many channels, the Cast session is not interrupted: the leaving owner reports a
  hand-over, and the same session (media server, ring, URL, worker) moves to the slot of the first such follower,
  which feeds it from its own ring; the survivor owns the group and the old owner is idle; nothing is torn down and
  no LOAD or STOP is sent.
\<close>

theorem hand_over_seamless:
  assumes p: "playing_at d b = Some (g, s)" and u: "ps_group s = Some u"
    and G: "hm_get (groups b) u = Some G" "owner G = Some d"
    and fs: "followers G = before @ survivor # after"
    and fit: "survivor \<in> set (cast_members G)" "state_of survivor b = Some (Following g' f)"
      "fs_sample_rate f = ps_sample_rate s" "ring_channels (pump_source (fs_pump f)) = ps_channels s"
    and first: "\<forall>i \<in> set before. \<not> can_take_over G s b i"
  shows "\<exists>b'. group_owner_left d g b = (b', True) \<and>
     state_of d b' = Some Idle \<and>
     state_of survivor b' = Some (Playing g' (s\<lparr>ps_device_id := survivor,
       watchdog := Some (survivor, g'), ps_source := Some (forward_into (ps_ring s) (fs_pump f))\<rparr>)) \<and>
     (\<forall>i. i \<noteq> d \<and> i \<noteq> survivor \<longrightarrow> state_of i b' = state_of i b) \<and>
     owner (hm_entry default_group u (groups b')) = Some survivor \<and>
     route_media (route (shared b' (sid s))) = route_media (route (shared b (sid s))) \<and>
     (\<exists>es. effects b' = effects b @ es \<and> torn_down es = [] \<and>
        \<not> (\<exists>e\<in>set es. \<exists>k r. e = CastLoad k r \<or> e = CastStop k))"
proof -
  have fits: "can_take_over G s b survivor" using fit by (simp add: can_take_over_def)
  have "List.find (can_take_over G s b) (before @ survivor # after) = Some survivor"
    using first fits by (induction before) simp_all
  then have find: "List.find (can_take_over G s b) (followers G) = Some survivor" by (simp only: fs)
  have at: "following_at survivor b = Some (g', f)" using fit(2) by (simp add: following_at_def)
  have ne: "survivor \<noteq> d" using fit(2) p by (auto simp: playing_at_iff)
  let ?b = "schedule_group_reconcile u (hand_over d u survivor G s g' f b)"
  have left: "group_owner_left d g b = (?b, True)"
    by (simp add: group_owner_left_def p u G find at)
  have es: "\<exists>es. effects ?b = effects b @ es \<and> torn_down es = [] \<and>
      \<not> (\<exists>e\<in>set es. \<exists>k r. e = CastLoad k r \<or> e = CastStop k)"
    unfolding hand_over_def Let_def
    by (auto simp: schedule_group_reconcile_def stop_pump_def watchdog_stop_def split: option.split)
  have gr: "owner (hm_entry default_group u (groups ?b)) = Some survivor"
    unfolding hand_over_def Let_def
    by (auto simp: schedule_group_reconcile_def hm_entry_def)
  have st: "state_of d ?b = Some Idle"
    "state_of survivor ?b = Some (Playing g' (s\<lparr>ps_device_id := survivor,
       watchdog := Some (survivor, g'), ps_source := Some (forward_into (ps_ring s) (fs_pump f))\<rparr>))"
    "\<forall>i. i \<noteq> d \<and> i \<noteq> survivor \<longrightarrow> state_of i ?b = state_of i b"
    "route_media (route (shared ?b (sid s))) = route_media (route (shared b (sid s)))"
    using ne fit(2) p by (auto simp: hand_over_def Let_def playing_at_iff)
  show ?thesis using left st es gr by (intro exI [of _ ?b]) simp
qed

theorem hand_over_seamless_witness:
  "\<exists>b' s. group_owner_left ''d'' 1 duo = (b', True) \<and> state_of ''d'' b' = Some Idle \<and>
     state_of ''e'' b' = Some (Playing 4 s) \<and> sid s = sid owner_session"
proof -
  have grp: "ps_group owner_session = Some ''grp''" "ps_sample_rate owner_session = 48000" "ps_channels owner_session = 2"
    by (simp_all add: owner_session_def new_session_def example_job_def ring_of_def)
  have G: "owner duo_group = Some ''d''" "followers duo_group = [] @ ''e'' # []" "''e'' \<in> set (cast_members duo_group)"
    by (simp_all add: duo_group_def)
  let ?f = "\<lparr>fs_group = ''grp'', fs_sample_rate = 48000, fs_pump = pump_spawn (ring_of 8)\<rparr>"
  have fit: "fs_sample_rate ?f = ps_sample_rate owner_session"
    "ring_channels (pump_source (fs_pump ?f)) = ps_channels owner_session"
    by (simp_all add: grp pump_spawn_def ring_of_def)
  have none: "\<forall>i \<in> set []. \<not> can_take_over duo_group owner_session duo i" by simp
  obtain b' where b': "group_owner_left ''d'' 1 duo = (b', True)" "state_of ''d'' b' = Some Idle"
    "state_of ''e'' b' = Some (Playing 4 (owner_session\<lparr>ps_device_id := ''e'',
       watchdog := Some (''e'', 4), ps_source := Some (forward_into (ps_ring owner_session) (fs_pump ?f))\<rparr>))"
    using hand_over_seamless [OF duo_playing grp(1) duo_states(2) G duo_states(3) fit none] by metis
  moreover have "sid (owner_session\<lparr>ps_device_id := i, watchdog := w, ps_source := p\<rparr>) = sid owner_session" for i w p
    by simp
  ultimately show ?thesis by blast
qed


section \<open>Reconciliation\<close>

text \<open>
  No membership change is lost by the reconciliation of a group: scheduling one spawns a task
  exactly when none runs, and otherwise makes the running task's pass end in another pass; a task
  that sees no change ends and lets the next one be spawned.
\<close>

theorem reconcile_not_lost:
  assumes "hm_get (groups b) u = Some G"
  shows "let b' = schedule_group_reconcile u b; G' = hm_entry default_group u (groups b')
   in reconcile_running G' \<and>
      effects b' = effects b @ (if reconcile_running G then [] else [SpawnReconcile u]) \<and>
      snd (finish_reconcile_pass u b') = (\<not> reconcile_running G) \<and>
      (\<not> reconcile_running G \<longrightarrow>
        \<not> reconcile_running (hm_entry default_group u (groups (fst (finish_reconcile_pass u b')))))"
  using assms by (auto simp: schedule_group_reconcile_def finish_reconcile_pass_def hm_entry_def Let_def)

theorem reconcile_not_lost_witness:
  "let b' = schedule_group_reconcile ''grp'' duo
   in effects b' = [SpawnReconcile ''grp''] \<and> snd (finish_reconcile_pass ''grp'' b') \<and>
      \<not> snd (finish_reconcile_pass ''grp'' (schedule_group_reconcile ''grp'' b'))"
proof -
  let ?b = "schedule_group_reconcile ''grp'' duo"
  have e: "effects duo = []" by (simp add: duo_def bridge_new_def)
  have r: "\<not> reconcile_running duo_group" by (simp add: duo_group_def default_group_def)
  note one = reconcile_not_lost [OF duo_states(2)]
  obtain G where G: "hm_get (groups ?b) ''grp'' = Some G" "reconcile_running G"
    by (simp add: schedule_group_reconcile_def r)
  from one reconcile_not_lost [OF G(1)] G(2) e r show ?thesis by (simp add: Let_def)
qed

text \<open>
  The members a plan asks Cast for are exactly the owner and the followers that still follow the
  group; the ones Cast already plays keep their order in front of the new ones, and nothing is asked
  when the list is unchanged or the owner's session is not confirmed.
\<close>

theorem group_plan_members:
  assumes "group_plan u b = Some plan"
  shows "\<exists>G g s. hm_get (groups b) u = Some G \<and> owner G = Some (gp_owner plan) \<and>
     playing_at (gp_owner plan) b = Some (g, s) \<and> gp_sid plan = sid s \<and> ps_group s = Some u \<and>
     cast_members G \<noteq> [] \<and> gp_desired plan \<noteq> cast_members G \<and>
     set (gp_desired plan) = insert (gp_owner plan) {i \<in> set (followers G). follows_group u i b} \<and>
     (\<exists>new. gp_desired plan = filter (\<lambda>i. i \<in> set (gp_desired plan)) (cast_members G) @ new \<and>
        set new \<inter> set (cast_members G) = {} \<and> set (gp_added plan) = set new)"
proof -
  obtain G o' g s where G: "hm_get (groups b) u = Some G" "owner G = Some o'" "playing_at o' b = Some (g, s)"
    "ps_group s = Some u" "cast_members G \<noteq> []"
    "desired_members (cast_members G) o' (filter (\<lambda>i. follows_group u i b) (followers G)) \<noteq> cast_members G"
    and p: "gp_sid plan = sid s" "gp_owner plan = o'"
      "gp_desired plan = desired_members (cast_members G) o' (filter (\<lambda>i. follows_group u i b) (followers G))"
      "gp_added plan = filter (\<lambda>i. i \<notin> set (cast_members G)) (gp_desired plan)"
    using assms by (auto simp: group_plan_def Let_def split: option.splits if_splits)
  have st: "set (gp_desired plan) = insert (gp_owner plan) {i \<in> set (followers G). follows_group u i b}"
    by (auto simp: p(2,3) desired_members_set)
  obtain new where new: "gp_desired plan =
      filter (\<lambda>i. i = o' \<or> i \<in> set (filter (\<lambda>i. follows_group u i b) (followers G))) (cast_members G) @ new"
    "set new \<inter> set (cast_members G) = {}"
    unfolding p using desired_members_prefix by blast
  have "filter (\<lambda>i. i = o' \<or> i \<in> set (filter (\<lambda>i. follows_group u i b) (followers G))) (cast_members G) =
      filter (\<lambda>i. i \<in> set (gp_desired plan)) (cast_members G)"
    by (rule filter_cong) (auto simp: st p(2))
  moreover have "set (gp_added plan) = set new"
    unfolding p(4) new(1) using new(2) by auto
  ultimately have "\<exists>new. gp_desired plan = filter (\<lambda>i. i \<in> set (gp_desired plan)) (cast_members G) @ new \<and>
      set new \<inter> set (cast_members G) = {} \<and> set (gp_added plan) = set new"
    using new by metis
  moreover have "gp_desired plan \<noteq> cast_members G" using G(6) p(3) by simp
  ultimately show ?thesis
    using G(1-5) p(1,2) st by blast
qed

definition growing_duo :: bridge where
  "growing_duo = set_group ''grp'' (duo_group\<lparr>cast_members := [''d'']\<rparr>) duo"

lemma growing_duo_plan:
  "group_plan ''grp'' growing_duo = Some \<lparr>gp_sid = 0, gp_owner = ''d'', gp_desired = [''d'', ''e''],
     gp_added = [''e''], gp_request = plan_request (registry_of growing_duo) [''d'', ''e'']\<rparr>"
  by (simp add: group_plan_def growing_duo_def playing_at_def duo_group_def default_group_def owner_session_def
      new_session_def example_job_def follows_group_def desired_members_def Let_def)

theorem group_plan_members_witness:
  "gp_desired (the (group_plan ''grp'' growing_duo)) = [''d'', ''e''] \<and>
   set [''d'', ''e''] = insert ''d'' {i \<in> set [''e'']. follows_group ''grp'' i growing_duo}"
proof -
  obtain G where "hm_get (groups growing_duo) ''grp'' = Some G"
    "set [''d'', ''e''] = insert ''d'' {i \<in> set (followers G). follows_group ''grp'' i growing_duo}"
    using group_plan_members [OF growing_duo_plan] by auto
  moreover from this(1) have "followers G = [''e'']" by (auto simp: growing_duo_def duo_group_def)
  ultimately show ?thesis by (simp add: growing_duo_plan)
qed

lemma fold_redispatch_groups: "groups (foldl (\<lambda>acc i. redispatch_start i acc) b ds) = groups b"
  by (induction ds arbitrary: b) (simp_all add: redispatch_start_def split: option.split device_state.split)

text \<open>
  A member the receiver refuses is left out of the group at once: it is excluded, no longer follows
  and is not among the confirmed members, and its next start in that group plays on its own.
\<close>

theorem refused_member_stands_alone:
  assumes "hm_get (groups b) u \<noteq> None" "i \<in> set (plan_failed plan answer)"
  shows "let b' = fst (apply_group_plan_answer u plan answer b); G' = hm_entry default_group u (groups b')
   in i \<notin> set (followers G') \<and> (is_ok answer \<longrightarrow> i \<notin> set (cast_members G')) \<and>
      enter_group i u rate ring b' = (b', EntryStandalone)"
  using assms
  by (auto simp: apply_group_plan_answer_def exclude_members_def confirm_members_def with_group_def
      fold_redispatch_groups enter_group_def hm_entry_def Let_def is_ok_def split: sum.splits option.splits)

theorem refused_member_stands_alone_witness:
  "let b' = fst (apply_group_plan_answer ''grp'' (the (group_plan ''grp'' growing_duo)) (Inl (ErrCast ''timeout'')) growing_duo)
   in enter_group ''e'' ''grp'' 48000 (ring_of 9) b' = (b', EntryStandalone)"
  using refused_member_stands_alone [of growing_duo "''grp''" "''e''" "the (group_plan ''grp'' growing_duo)"
      "Inl (ErrCast ''timeout'')" 48000 "ring_of 9"]
  by (simp add: growing_duo_plan plan_failed_def Let_def) (simp add: growing_duo_def)

section \<open>The end of a group\<close>

lemma end_followers_result:
  "distinct ids \<Longrightarrow>
   foldl (end_follower u) acc ids = (b', ms) \<Longrightarrow>
     ms = snd acc @ filter (\<lambda>i. follows_group u i (fst acc)) ids \<and> groups b' = groups (fst acc) \<and>
     (\<forall>i. state_of i b' =
        (if i \<in> set ids \<and> follows_group u i (fst acc) then Some Idle else state_of i (fst acc)))"
proof (induction ids arbitrary: acc)
  case Nil
  then show ?case by auto
next
  case (Cons i ids)
  have IH: "ms = snd (end_follower u acc i) @ filter (\<lambda>k. follows_group u k (fst (end_follower u acc i))) ids \<and>
      groups b' = groups (fst (end_follower u acc i)) \<and>
      (\<forall>k. state_of k b' = (if k \<in> set ids \<and> follows_group u k (fst (end_follower u acc i)) then Some Idle
        else state_of k (fst (end_follower u acc i))))"
    using Cons.IH [of "end_follower u acc i"] Cons.prems by simp
  have other: "follows_group u k (fst (end_follower u acc i)) = follows_group u k (fst acc)" if "k \<noteq> i" for k
    using that by (auto simp: end_follower_def follows_group_def split: option.splits)
  have "filter (\<lambda>k. follows_group u k (fst (end_follower u acc i))) ids = filter (\<lambda>k. follows_group u k (fst acc)) ids"
    using Cons.prems(1) by (intro filter_cong) (auto intro!: other)
  moreover have "follows_group u i (fst acc) \<Longrightarrow> \<exists>g f. following_at i (fst acc) = Some (g, f)"
    by (auto simp: follows_group_def following_at_def split: option.splits device_state.splits)
  ultimately show ?case
    using IH Cons.prems(1) other
    by (auto simp: end_follower_def split: if_splits option.splits)
qed

text \<open>
  Ending a group removes it, stops exactly the members that still follow it (each once, in the order
  they joined) and touches no other slot; the caller gets those members and the session host to
  close.
\<close>

theorem end_group_clears:
  assumes "hm_get (groups b) u = Some G" "group_ok G" "end_group u b = (b', ms, host)"
  shows "hm_get (groups b') u = None \<and> host = host_key G \<and>
     ms = filter (\<lambda>i. follows_group u i b) (followers G) \<and>
     (\<forall>i. state_of i b' = (if i \<in> set ms then Some Idle else state_of i b))"
proof -
  let ?b = "b\<lparr>groups := hm_remove u (groups b)\<rparr>"
  have f: "foldl (end_follower u) (?b, []) (followers G) = (b', ms)" and h: "host = host_key G"
    using assms(1,3) by (auto simp: end_group_def end_followers_def split: prod.splits)
  have "state_of i ?b = state_of i b" "follows_group u i ?b = follows_group u i b" for i
    by (simp_all add: state_of_def follows_group_def)
  with end_followers_result [OF _ f] assms(2) h show ?thesis
    by (auto simp: group_ok_def)
qed

theorem end_group_clears_witness:
  "\<exists>b'. end_group ''grp'' duo = (b', [''e''], None) \<and> state_of ''e'' b' = Some Idle \<and>
     state_of ''d'' b' = Some (Playing 1 owner_session)"
proof -
  obtain b' ms host where e: "end_group ''grp'' duo = (b', ms, host)" by (metis prod_cases3)
  have "group_ok duo_group" by (simp add: group_ok_def duo_group_def default_group_def)
  from end_group_clears [OF duo_states(2) this e] e show ?thesis
    by (simp add: duo_group_def default_group_def follows_group_def)
qed

end
