(* ===== verification/Cast_Decisions.thy ===== *)
theory Cast_Decisions
  imports Cast_Payload
begin

text \<open>
  The pure decisions of the Cast worker (\<open>src/cast/pool.rs\<close>): attribution of player and volume
  changes, failure classes, the ownership policy, and the reconnect delay.
\<close>

section \<open>Times and limits\<close>

definition OWN_COMMAND_SETTLE :: duration where
  "OWN_COMMAND_SETTLE = from_millis 1500"

definition VOLUME_MATCH_EPSILON :: f32 where
  "VOLUME_MATCH_EPSILON = F32 0x3BA3D70A"

definition VOLUME_ECHO_WINDOW :: duration where
  "VOLUME_ECHO_WINDOW = from_secs 10"

definition VOLUME_ECHO_HISTORY :: nat where
  "VOLUME_ECHO_HISTORY = 128"

definition HEARTBEAT_INTERVAL :: duration where
  "HEARTBEAT_INTERVAL = from_secs 4"

definition ACTIVE_DRAIN_INTERVAL :: duration where
  "ACTIVE_DRAIN_INTERVAL = from_millis 500"

definition COMMAND_TIMEOUT :: duration where
  "COMMAND_TIMEOUT = from_secs 6"

definition VOLUME_TIMEOUT :: duration where
  "VOLUME_TIMEOUT = from_secs 3"

definition JOIN_TIMEOUT :: duration where
  "JOIN_TIMEOUT = from_secs 3"

definition OWNERSHIP_GRACE :: duration where
  "OWNERSHIP_GRACE = from_secs 3"

definition OWNERSHIP_LOSS_CONFIRMATIONS :: u8 where
  "OWNERSHIP_LOSS_CONFIRMATIONS = 2"

definition BUFFERING_STUCK_PROBES :: u8 where
  "BUFFERING_STUCK_PROBES = 3"

definition RECENT_LOAD_GUARD :: duration where
  "RECENT_LOAD_GUARD = from_secs 10"

definition RECONNECT_BACKOFF_START :: duration where
  "RECONNECT_BACKOFF_START = from_secs 1"

definition RECONNECT_BACKOFF_CAP :: duration where
  "RECONNECT_BACKOFF_CAP = from_secs 60"

definition UNSOLICITED_DRAIN_LIMIT :: nat where
  "UNSOLICITED_DRAIN_LIMIT = 8"

definition TERMINAL_RECONNECT_HOLD :: duration where
  "TERMINAL_RECONNECT_HOLD = from_secs (24 * 3600)"

definition as_millis :: "duration \<Rightarrow> nat" where
  "as_millis d = d div 1000000"

section \<open>Who changed the player or the volume\<close>

record receiver_volume =
  volume_level :: "f32 option"
  volume_muted :: "bool option"

definition unwrap_or :: "'a \<Rightarrow> 'a option \<Rightarrow> 'a" where
  "unwrap_or d x = (case x of None \<Rightarrow> d | Some v \<Rightarrow> v)"

definition volume_from_cast_status :: "receiver_volume \<Rightarrow> f32" where
  "volume_from_cast_status v =
     (if unwrap_or False (volume_muted v) then f32_zero
      else volume_level_clamped (unwrap_or f32_zero (volume_level v)))"

datatype player_intent = IntentPlaying | IntentPaused

record remote_tracker =
  rt_intent :: "player_intent option"
  rt_player_settle_until :: "instant option"
  rt_volume :: "(f32 \<times> bool) option"
  rt_volume_settle_until :: "instant option"
  rt_commanded_levels :: "(f32 \<times> instant) list"

definition default_tracker :: remote_tracker where
  "default_tracker =
     \<lparr>rt_intent = None, rt_player_settle_until = None, rt_volume = None,
      rt_volume_settle_until = None, rt_commanded_levels = []\<rparr>"

definition expect_player :: "player_intent \<Rightarrow> instant \<Rightarrow> remote_tracker \<Rightarrow> remote_tracker" where
  "expect_player intent now t =
     t\<lparr>rt_intent := Some intent, rt_player_settle_until := Some (now + OWN_COMMAND_SETTLE)\<rparr>"

definition clear_player :: "remote_tracker \<Rightarrow> remote_tracker" where
  "clear_player t = t\<lparr>rt_intent := None, rt_player_settle_until := None\<rparr>"

definition settling :: "instant option \<Rightarrow> instant \<Rightarrow> bool" where
  "settling until now = (case until of None \<Rightarrow> False | Some u \<Rightarrow> now < u)"

fun observed_intent :: "player_state \<Rightarrow> player_intent option" where
  "observed_intent PlayerPlaying = Some IntentPlaying"
| "observed_intent PlayerPaused = Some IntentPaused"
| "observed_intent PlayerIdle = None"
| "observed_intent PlayerBuffering = None"

fun intent_kind :: "player_intent \<Rightarrow> cast_remote_kind" where
  "intent_kind IntentPlaying = KindPlayed"
| "intent_kind IntentPaused = KindPaused"

definition observe_player ::
  "player_state \<Rightarrow> instant \<Rightarrow> remote_tracker \<Rightarrow> remote_tracker \<times> cast_remote_kind option" where
  "observe_player st now t =
     (case observed_intent st of
        None \<Rightarrow> (t, None)
      | Some observed \<Rightarrow>
          (case rt_intent t of
             None \<Rightarrow> (t, None)
           | Some expected \<Rightarrow>
               if settling (rt_player_settle_until t) now \<or> observed = expected then (t, None)
               else (t\<lparr>rt_intent := Some observed\<rparr>, Some (intent_kind observed))))"

definition expect_volume_command :: "f32 \<Rightarrow> instant \<Rightarrow> remote_tracker \<Rightarrow> remote_tracker" where
  "expect_volume_command level now t =
     (let levels = rt_commanded_levels t;
          kept = (if length levels = VOLUME_ECHO_HISTORY then tl levels else levels)
      in t\<lparr>rt_volume_settle_until := Some (now + OWN_COMMAND_SETTLE),
           rt_commanded_levels := kept @ [(volume_level_clamped level, now)]\<rparr>)"

definition note_volume :: "f32 \<Rightarrow> bool \<Rightarrow> remote_tracker \<Rightarrow> remote_tracker" where
  "note_volume level muted t = t\<lparr>rt_volume := Some (volume_level_clamped level, muted)\<rparr>"

definition same_level :: "f32 \<Rightarrow> f32 \<Rightarrow> bool" where
  "same_level = f32_within VOLUME_MATCH_EPSILON"

definition is_volume_echo :: "f32 \<Rightarrow> instant \<Rightarrow> remote_tracker \<Rightarrow> remote_tracker \<times> bool" where
  "is_volume_echo level now t =
     (let kept = dropWhile (\<lambda>(_, at). now - at > VOLUME_ECHO_WINDOW) (rt_commanded_levels t)
      in (t\<lparr>rt_commanded_levels := kept\<rparr>, list_ex (\<lambda>(commanded, _). same_level commanded level) kept))"

definition observe_volume ::
  "f32 \<Rightarrow> bool \<Rightarrow> instant \<Rightarrow> remote_tracker \<Rightarrow> remote_tracker \<times> cast_remote_kind option" where
  "observe_volume reported muted now t =
     (if settling (rt_volume_settle_until t) now then (t, None)
      else
        let level = volume_level_clamped reported;
            t1 = t\<lparr>rt_volume := Some (level, muted)\<rparr>
        in (case rt_volume t of
              None \<Rightarrow> (t1, None)
            | Some (old_level, old_muted) \<Rightarrow>
                if same_level old_level level \<and> old_muted = muted then (t1, None)
                else if old_muted = muted then
                  (case is_volume_echo level now t1 of
                     (t2, True) \<Rightarrow> (t2, None)
                   | (t2, False) \<Rightarrow> (t2, Some (KindVolume level muted)))
                else (t1, Some (KindVolume level muted))))"

section \<open>Failure classes\<close>

text \<open>
  The error type of \<open>rust_cast\<close>: each constructor carries the text it displays; \<open>WireInternal\<close>
  carries its message and that text.
\<close>

datatype wire_error =
    WireIo string
  | WireTls string
  | WireTimeout string
  | WireDns string
  | WireProtobuf string
  | WireSerialization string
  | WireParsing string
  | WireNamespace string
  | WireInternal string string

fun wire_text :: "wire_error \<Rightarrow> string" where
  "wire_text (WireIo t) = t"
| "wire_text (WireTls t) = t"
| "wire_text (WireTimeout t) = t"
| "wire_text (WireDns t) = t"
| "wire_text (WireProtobuf t) = t"
| "wire_text (WireSerialization t) = t"
| "wire_text (WireParsing t) = t"
| "wire_text (WireNamespace t) = t"
| "wire_text (WireInternal msg t) = t"

definition cast_transport_still_owned :: "string list \<Rightarrow> string \<Rightarrow> bool" where
  "cast_transport_still_owned ids ours = List.member ids ours"

datatype probe_failure_kind = FailTransport | FailParse

fun classify_cast_probe_error :: "wire_error \<Rightarrow> probe_failure_kind" where
  "classify_cast_probe_error (WireIo _) = FailTransport"
| "classify_cast_probe_error (WireTls _) = FailTransport"
| "classify_cast_probe_error (WireTimeout _) = FailTransport"
| "classify_cast_probe_error (WireDns _) = FailTransport"
| "classify_cast_probe_error (WireProtobuf _) = FailTransport"
| "classify_cast_probe_error (WireSerialization _) = FailParse"
| "classify_cast_probe_error (WireParsing _) = FailParse"
| "classify_cast_probe_error (WireNamespace _) = FailParse"
| "classify_cast_probe_error (WireInternal msg _) =
     (let low = to_ascii_lowercase msg
      in if str_contains low ''timed out'' \<or> str_contains low ''timeout''
            \<or> str_contains low ''broken pipe'' \<or> str_contains low ''connection''
         then FailTransport else FailParse)"

datatype cast_failure_class = FailTransient | FailTerminal

definition classify_cast_control_message :: "string \<Rightarrow> cast_failure_class" where
  "classify_cast_control_message message =
     (if str_contains message ''peer is incompatible'' then FailTerminal else FailTransient)"

definition classify_cast_control_error :: "error \<Rightarrow> cast_failure_class" where
  "classify_cast_control_error err = classify_cast_control_message (error_text err)"

datatype load_commit_kind = InstallActive | AbandonAndStop

definition load_commit_decision :: "bool \<Rightarrow> load_commit_kind" where
  "load_commit_decision abandoned = (if abandoned then AbandonAndStop else InstallActive)"

section \<open>The ownership policy\<close>

datatype ownership_action_kind =
  Owned | LostSignal | Inconclusive | SuspectReconnect | AttemptReload

datatype idle_reason_kind = ReasonInterrupted | ReasonRecoverable

record ownership_inputs =
  transport_listed :: bool
  media_session_present :: "bool option"
  idle_reason :: "idle_reason_kind option"
  buffering :: bool
  buffering_seen :: u8
  media_failure :: "probe_failure_kind option"
  reload_was_attempted :: bool
  load_within_guard :: bool

definition recoverable_or_lost :: "bool \<Rightarrow> bool \<Rightarrow> ownership_action_kind" where
  "recoverable_or_lost attempted within_guard =
     (if within_guard then Inconclusive else if attempted then LostSignal else AttemptReload)"

definition ownership_action :: "ownership_inputs \<Rightarrow> ownership_action_kind" where
  "ownership_action i =
     (case media_failure i of
        Some FailParse \<Rightarrow> Inconclusive
      | Some FailTransport \<Rightarrow> SuspectReconnect
      | None \<Rightarrow>
          if idle_reason i = Some ReasonInterrupted then LostSignal
          else if idle_reason i = Some ReasonRecoverable then
            recoverable_or_lost (reload_was_attempted i) (load_within_guard i)
          else if buffering i \<and> BUFFERING_STUCK_PROBES \<le> buffering_seen i then
            recoverable_or_lost (reload_was_attempted i) (load_within_guard i)
          else if media_session_present i = Some False then LostSignal
          else if media_session_present i = Some True \<or> transport_listed i then Owned
          else if \<not> transport_listed i then LostSignal
          else Inconclusive)"

section \<open>Reconnect delay\<close>

definition backoff_base_ms :: "u32 \<Rightarrow> nat" where
  "backoff_base_ms attempt =
     min (as_millis RECONNECT_BACKOFF_START * 2 ^ min (unat attempt) 6) (as_millis RECONNECT_BACKOFF_CAP)"

definition backoff_permille :: "u32 \<Rightarrow> u64 \<Rightarrow> nat" where
  "backoff_permille attempt seed =
     (let mix = seed * 0x9E3779B97F4A7C15 + ucast attempt * 0x85EBCA6B
      in 800 + unat mix mod 1000 * 400 div 1000)"

definition reconnect_backoff_delay :: "u32 \<Rightarrow> u64 \<Rightarrow> duration" where
  "reconnect_backoff_delay attempt seed =
     from_millis (max (backoff_base_ms attempt * backoff_permille attempt seed div 1000) 1)"

definition backoff_seed :: "string \<Rightarrow> u64" where
  "backoff_seed device_id = foldl (\<lambda>acc c. acc * 31 + of_nat (of_char c)) 0 device_id"

section \<open>Latches and lookups\<close>

definition apply_hard_deadline_device_clear :: "'d option \<Rightarrow> 'd option \<times> bool" where
  "apply_hard_deadline_device_clear dev = (None, dev \<noteq> None)"

definition ownership_probe_stands_down :: "bool \<Rightarrow> bool \<Rightarrow> bool" where
  "ownership_probe_stands_down active_is_none bridge_ended \<longleftrightarrow> active_is_none \<or> bridge_ended"

definition remove_clears_map_entry :: "bool \<Rightarrow> bool" where
  "remove_clears_map_entry join_completed = join_completed"

definition ensure_may_spawn_for_slot :: "bool \<Rightarrow> bool" where
  "ensure_may_spawn_for_slot exiting \<longleftrightarrow> \<not> exiting"

definition reload_attempted_after_internal_reload :: "bool \<Rightarrow> bool" where
  "reload_attempted_after_internal_reload success \<longleftrightarrow> \<not> success"

definition DEFAULT_MEDIA_RECEIVER_APP_ID :: string where
  "DEFAULT_MEDIA_RECEIVER_APP_ID = ''CC1AD845''"

record receiver_app =
  app_id :: string
  app_session_id :: string
  app_transport_id :: string
  app_namespaces :: "string list"

text \<open>\<open>debug_pairs\<close> is the \<open>Debug\<close> rendering of the listed apps in the error text.\<close>

definition adoptable_app ::
  "((string \<times> string) list \<Rightarrow> string) \<Rightarrow> receiver_app list \<Rightarrow> string \<Rightarrow> receiver_app result" where
  "adoptable_app debug_pairs apps sess =
     (case find (\<lambda>a. app_session_id a = sess) apps of
        None \<Rightarrow> Inl (ErrCast (''adopt: no receiver app runs session '' @ sess @ '' on the host (apps: ''
                  @ debug_pairs (map (\<lambda>a. (app_id a, app_session_id a)) apps) @ '')''))
      | Some a \<Rightarrow>
          if list_ex (\<lambda>n. n = MEDIA_NAMESPACE) (app_namespaces a) then Inr a
          else Inl (ErrCast (''adopt: app '' @ app_id a @ '' running session '' @ sess
                  @ '' has no media namespace'')))"

end
