(* ===== verification/Cast_Monad.thy ===== *)
theory Cast_Monad
  imports Cast_Decisions "HOL-Library.State_Monad"
begin

text \<open>
  The Cast worker thread (\<open>src/cast/pool.rs\<close>): its commands, its state, and the monad its handlers
  run in.

  The worker owns its state, so a handler is a state-passing program. What the worker does not own
  answers through \<open>cast_api\<close>: the clock, the command channel's senders, the atomics other threads
  store to, name resolution, the sockets, and \<open>rust_cast\<close>. Each such operation takes the unmodelled
  world \<open>'e\<close> and returns an answer with the world that follows, and nothing is assumed about any of
  them, so a fact about the handlers holds for every schedule of the other threads and every
  behaviour of the device.

  A Cast connection is the number of the relay that carries it. Effects that leave the worker are
  appended to \<open>w_out\<close>; \<open>Arrived\<close> records there when a command entered the worker's queue. Log lines
  and thread names are left out.
\<close>

section \<open>Commands and effects\<close>

type_synonym reply_id = nat
type_synonym connection = nat

datatype cast_cmd =
    CmdUpdateEndpoint string string u16
  | CmdLoad media_load_request reply_id
  | CmdSetVolume f32 reply_id
  | CmdGetVolume reply_id
  | CmdStop reply_id
  | CmdPause instant reply_id
  | CmdPlay reply_id
  | CmdMediaStatus reply_id
  | CmdStopBestEffort reply_id
  | CmdUpdateMetadata cast_track
  | CmdSetPlaybackDevices set_playback_devices reply_id
  | CmdMultizoneStatus reply_id
  | CmdTakeSession reply_id
  | CmdAdopt media_session_ref string "media_load_request option" reply_id
  | CmdShutdown

datatype cast_reply =
    ReplyUnit "unit result"
  | ReplySession "media_session_ref result"
  | ReplyVolume "f32 result"
  | ReplyPlayback "media_playback result"
  | ReplyUpdate "playback_session_update result"
  | ReplyMembers "multizone_member list result"
  | ReplyTaken "(media_session_ref \<times> media_load_request option) option"
  | ReplyDone

datatype worker_out =
    Arrived cast_cmd
  | Answered reply_id cast_reply
  | Unheard reply_id cast_reply
  | OwnershipLost string
  | MediaRecovered string
  | RemoteEvent string cast_remote_kind
  | Dialled string u16
  | RelayClosed connection
  | StopSent string int
  | LoadSent string cast_media

record receiver_status =
  rs_apps :: "receiver_app list"
  rs_volume :: receiver_volume

datatype channel_message =
    MsgPing
  | MsgMediaStatus "status_entry list"
  | MsgReceiverStatus receiver_volume
  | MsgOther

section \<open>What the worker does not own\<close>

record 'e cast_api =
  clock :: "'e \<Rightarrow> instant \<times> 'e"
  arriving :: "duration \<Rightarrow> 'e \<Rightarrow> cast_cmd list \<times> 'e"
  senders_gone :: "'e \<Rightarrow> bool \<times> 'e"
  reply_gone :: "reply_id \<Rightarrow> 'e \<Rightarrow> bool \<times> 'e"
  is_abandoned :: "reply_id \<Rightarrow> 'e \<Rightarrow> bool \<times> 'e"
  end_announced :: "'e \<Rightarrow> bool \<times> 'e"
  relay_taken :: "'e \<Rightarrow> bool \<times> 'e"
  deadline_passed :: "'e \<Rightarrow> bool \<times> 'e"
  resolve_ipv4 :: "string \<Rightarrow> 'e \<Rightarrow> string option \<times> 'e"
  wake_host :: "string \<Rightarrow> 'e \<Rightarrow> unit \<times> 'e"
  spawn_relay :: "string \<Rightarrow> u16 \<Rightarrow> 'e \<Rightarrow> (string + string \<times> u16 \<times> connection) \<times> 'e"
  tls_connect :: "u16 \<Rightarrow> 'e \<Rightarrow> (string + unit) \<times> 'e"
  dev_connect :: "connection \<Rightarrow> string \<Rightarrow> 'e \<Rightarrow> (wire_error + unit) \<times> 'e"
  dev_ping :: "connection \<Rightarrow> 'e \<Rightarrow> (wire_error + unit) \<times> 'e"
  dev_pong :: "connection \<Rightarrow> 'e \<Rightarrow> (wire_error + unit) \<times> 'e"
  dev_receive :: "connection \<Rightarrow> 'e \<Rightarrow> (wire_error + channel_message) \<times> 'e"
  dev_launch :: "connection \<Rightarrow> 'e \<Rightarrow> (wire_error + receiver_app) \<times> 'e"
  dev_load :: "connection \<Rightarrow> string \<Rightarrow> string \<Rightarrow> cast_media \<Rightarrow> 'e \<Rightarrow> (wire_error + status_entry list) \<times> 'e"
  dev_receiver_status :: "connection \<Rightarrow> 'e \<Rightarrow> (wire_error + receiver_status) \<times> 'e"
  dev_media_status :: "connection \<Rightarrow> string \<Rightarrow> int option \<Rightarrow> 'e \<Rightarrow> (wire_error + status_entry list) \<times> 'e"
  dev_set_volume :: "connection \<Rightarrow> f32 \<Rightarrow> 'e \<Rightarrow> (wire_error + receiver_volume) \<times> 'e"
  dev_pause :: "connection \<Rightarrow> string \<Rightarrow> int \<Rightarrow> 'e \<Rightarrow> (wire_error + status_entry) \<times> 'e"
  dev_play :: "connection \<Rightarrow> string \<Rightarrow> int \<Rightarrow> 'e \<Rightarrow> (wire_error + status_entry) \<times> 'e"
  dev_stop :: "connection \<Rightarrow> string \<Rightarrow> int \<Rightarrow> 'e \<Rightarrow> (wire_error + status_entry) \<times> 'e"
  dev_request_id :: "connection \<Rightarrow> 'e \<Rightarrow> nat \<times> 'e"
  dev_send :: "connection \<Rightarrow> string \<Rightarrow> string \<Rightarrow> json \<Rightarrow> 'e \<Rightarrow> (wire_error + unit) \<times> 'e"
  dev_messages :: "connection \<Rightarrow> 'e \<Rightarrow> ((instant \<times> string \<times> string option) list \<times> wire_error) \<times> 'e"
  json_of_text :: "string \<Rightarrow> json option"
  decode_status :: "json \<Rightarrow> (string \<times> u32 option) list option"
  debug_pairs :: "(string \<times> string) list \<Rightarrow> string"
  internal_text :: "string \<Rightarrow> string"

section \<open>The worker's state\<close>

record 'e worker =
  w_id :: string
  w_host :: string
  w_hostname :: string
  w_port :: u16
  w_device :: "connection option"
  w_active :: "media_session_ref option"
  w_active_since :: "instant option"
  w_loss_streak :: u8
  w_buffering_streak :: u8
  w_watch_lost :: bool
  w_watch_recovered :: bool
  w_watch_remote :: bool
  w_tracker :: remote_tracker
  w_next_probe_at :: instant
  w_relay :: "connection option"
  w_last_load :: "media_load_request option"
  w_last_load_at :: "instant option"
  w_reload_attempted :: bool
  w_next_ping_at :: instant
  w_reconnect_attempt :: u32
  w_unreachable_since :: "instant option"
  w_reachable :: bool
  w_reachable_flag :: bool
  w_terminal_flag :: bool
  w_terminal_failed :: bool
  w_stand_down :: bool
  w_next_reconnect_at :: instant
  w_last_parse_warn :: "string option"
  w_logged_source_ip :: bool
  w_join_running_app :: bool
  w_queue :: "cast_cmd list"
  w_out :: "worker_out list"
  w_env :: 'e

type_synonym ('e, 'a) cast = "('e worker, 'a) state"

section \<open>Primitive steps\<close>

abbreviation ret :: "'a \<Rightarrow> ('s, 'a) state" where
  "ret \<equiv> State_Monad.return"

definition gets :: "('s \<Rightarrow> 'a) \<Rightarrow> ('s, 'a) state" where
  "gets f = State (\<lambda>s. (f s, s))"

definition modify :: "('s \<Rightarrow> 's) \<Rightarrow> ('s, unit) state" where
  "modify f = State (\<lambda>s. ((), f s))"

definition ask :: "('e \<Rightarrow> 'a \<times> 'e) \<Rightarrow> ('e, 'a) cast" where
  "ask f = State (\<lambda>s. (fst (f (w_env s)), s\<lparr>w_env := snd (f (w_env s))\<rparr>))"

definition put_out :: "worker_out \<Rightarrow> ('e, unit) cast" where
  "put_out x = modify (\<lambda>s. s\<lparr>w_out := w_out s @ [x]\<rparr>)"

definition unless_m :: "bool \<Rightarrow> ('s, unit) state \<Rightarrow> ('s, unit) state" where
  "unless_m b m = (if b then ret () else m)"

definition when_m :: "bool \<Rightarrow> ('s, unit) state \<Rightarrow> ('s, unit) state" where
  "when_m b m = (if b then m else ret ())"

text \<open>The \<open>?\<close> operator.\<close>

definition try_m :: "('s, 'e + 'a) state \<Rightarrow> ('a \<Rightarrow> ('s, 'e + 'b) state) \<Rightarrow> ('s, 'e + 'b) state" where
  "try_m m f = State_Monad.bind m (\<lambda>r. case r of Inl e \<Rightarrow> ret (Inl e) | Inr x \<Rightarrow> f x)"

section \<open>Weakest preconditions\<close>

text \<open>
  \<open>wp m Q s\<close>: from state \<open>s\<close> the program \<open>m\<close> ends with an answer and a state that satisfy \<open>Q\<close>. The
  collection \<open>wp\<close> computes it over the constructs of the handlers; an answer of the unmodelled world
  leaves a universally quantified answer (\<open>wp_ask\<close>).
\<close>

definition wp :: "('s, 'a) state \<Rightarrow> ('a \<Rightarrow> 's \<Rightarrow> bool) \<Rightarrow> 's \<Rightarrow> bool" where
  "wp m Q s = Q (fst (run_state m s)) (snd (run_state m s))"

named_theorems wp_simps

lemma wp_return [wp_simps]: "wp (ret a) Q = Q a"
  by (simp add: wp_def fun_eq_iff)

lemma wp_bind [wp_simps]: "wp (State_Monad.bind m f) Q = wp m (\<lambda>a. wp (f a) Q)"
  by (simp add: wp_def fun_eq_iff split: prod.split)

lemma wp_gets [wp_simps]: "wp (gets f) Q s = Q (f s) s"
  by (simp add: wp_def gets_def)

lemma wp_modify [wp_simps]: "wp (modify f) Q s = Q () (f s)"
  by (simp add: wp_def modify_def)

lemma wp_put_out [wp_simps]: "wp (put_out x) Q s = Q () (s\<lparr>w_out := w_out s @ [x]\<rparr>)"
  by (simp add: wp_def put_out_def modify_def)

lemma wp_when [wp_simps]: "wp (when_m b m) Q s = (if b then wp m Q s else Q () s)"
  by (simp add: when_m_def wp_return)

lemma wp_unless [wp_simps]: "wp (unless_m b m) Q s = (if b then Q () s else wp m Q s)"
  by (simp add: unless_m_def wp_return)

lemma wp_try [wp_simps]:
  "wp (try_m m f) Q s = wp m (\<lambda>r t. case r of Inl e \<Rightarrow> Q (Inl e) t | Inr x \<Rightarrow> wp (f x) Q t) s"
  by (simp add: try_m_def wp_def split: prod.split sum.split)

lemma wp_if [wp_simps]: "wp (if b then m else m') Q s = (if b then wp m Q s else wp m' Q s)"
  by simp

lemma wp_option [wp_simps]:
  "wp (case x of None \<Rightarrow> m | Some y \<Rightarrow> f y) Q s = (case x of None \<Rightarrow> wp m Q s | Some y \<Rightarrow> wp (f y) Q s)"
  by (cases x) simp_all

lemma wp_sum [wp_simps]:
  "wp (case x of Inl y \<Rightarrow> f y | Inr z \<Rightarrow> g z) Q s = (case x of Inl y \<Rightarrow> wp (f y) Q s | Inr z \<Rightarrow> wp (g z) Q s)"
  by (cases x) simp_all

lemma wp_prod [wp_simps]: "wp (case x of (y, z) \<Rightarrow> f y z) Q s = (case x of (y, z) \<Rightarrow> wp (f y z) Q s)"
  by (cases x) simp

lemma wp_list [wp_simps]:
  "wp (case x of [] \<Rightarrow> m | y # ys \<Rightarrow> f y ys) Q s = (case x of [] \<Rightarrow> wp m Q s | y # ys \<Rightarrow> wp (f y ys) Q s)"
  by (cases x) simp_all

lemma wp_let [wp_simps]: "wp (let x = a in f x) Q s = (let x = a in wp (f x) Q s)"
  by (simp add: Let_def)

lemma wp_ask: "wp (ask f) Q s = (case f (w_env s) of (a, e) \<Rightarrow> Q a (s\<lparr>w_env := e\<rparr>))"
  by (simp add: wp_def ask_def split: prod.split)

lemma wp_ask_any: "(\<And>a e. Q a (s\<lparr>w_env := e\<rparr>)) \<Longrightarrow> wp (ask f) Q s"
  by (simp add: wp_ask split: prod.split)

lemma wp_mono: "wp m Q s \<Longrightarrow> (\<And>a t. Q a t \<Longrightarrow> R a t) \<Longrightarrow> wp m R s"
  by (simp add: wp_def)

lemma wp_run: "wp m Q s \<Longrightarrow> run_state m s = (a, t) \<Longrightarrow> Q a t"
  by (simp add: wp_def)

lemma wp_conj: "wp m Q s \<Longrightarrow> wp m R s \<Longrightarrow> wp m (\<lambda>a t. Q a t \<and> R a t) s"
  by (simp add: wp_def)

end
