(* ===== verification/Cast_Connection.thy ===== *)
theory Cast_Connection
  imports Cast_Monad
begin

text \<open>
  The Cast worker's connection and session bookkeeping (\<open>src/cast/pool.rs\<close>): connect, reconnect
  with backoff, the terminal latch, the relay slot, the hard deadline, and the attribution of what
  the device reports.
\<close>

section \<open>The media session\<close>

definition clear_active :: "'e worker \<Rightarrow> 'e worker" where
  "clear_active s = s\<lparr>w_active := None, w_active_since := None, w_loss_streak := 0,
     w_buffering_streak := 0, w_reload_attempted := False, w_tracker := clear_player (w_tracker s)\<rparr>"

definition clear_active_session :: "('e, unit) cast" where
  "clear_active_session = modify clear_active"

definition set_active_session :: "'e cast_api \<Rightarrow> media_session_ref \<Rightarrow> ('e, unit) cast" where
  "set_active_session api session = do {
     since \<leftarrow> ask (clock api);
     modify (\<lambda>s. s\<lparr>w_active := Some session, w_active_since := Some since, w_loss_streak := 0,
       w_buffering_streak := 0, w_reload_attempted := False\<rparr>);
     now \<leftarrow> ask (clock api);
     modify (\<lambda>s. s\<lparr>w_tracker := expect_player IntentPlaying now (w_tracker s), w_stand_down := False\<rparr>)
   }"

definition emit_remote :: "cast_remote_kind option \<Rightarrow> ('e, unit) cast" where
  "emit_remote k =
     (case k of
        None \<Rightarrow> ret ()
      | Some kind \<Rightarrow> do {
          watch \<leftarrow> gets w_watch_remote;
          i \<leftarrow> gets w_id;
          when_m watch (put_out (RemoteEvent i kind))
        })"

definition observe_media_entry :: "'e cast_api \<Rightarrow> status_entry \<Rightarrow> ('e, unit) cast" where
  "observe_media_entry api entry = do {
     active \<leftarrow> gets w_active;
     if map_option media_session_id active \<noteq> Some (entry_media_session_id entry) then ret ()
     else do {
       now \<leftarrow> ask (clock api);
       t \<leftarrow> gets w_tracker;
       (case observe_player (entry_player_state entry) now t of
          (t', kind) \<Rightarrow> do {
            modify (\<lambda>s. s\<lparr>w_tracker := t'\<rparr>);
            emit_remote kind
          })
     }
   }"

definition observe_receiver_volume :: "'e cast_api \<Rightarrow> receiver_volume \<Rightarrow> ('e, unit) cast" where
  "observe_receiver_volume api v =
     (case volume_level v of
        None \<Rightarrow> ret ()
      | Some level \<Rightarrow> do {
          now \<leftarrow> ask (clock api);
          t \<leftarrow> gets w_tracker;
          (case observe_volume level (unwrap_or False (volume_muted v)) now t of
             (t', kind) \<Rightarrow> do {
               modify (\<lambda>s. s\<lparr>w_tracker := t'\<rparr>);
               emit_remote kind
             })
        })"

definition warn_parse_once :: "string \<Rightarrow> ('e, unit) cast" where
  "warn_parse_once message = modify (\<lambda>s.
     if w_last_parse_warn s = Some message then s else s\<lparr>w_last_parse_warn := Some message\<rparr>)"

section \<open>The relay slot\<close>

text \<open>
  The slot is shared with \<open>remove\<close> and the deadline watchdog, which take the relay and shut it down;
  \<open>sync_relay\<close> is the worker learning of that when it locks the slot.
\<close>

definition sync_relay :: "'e cast_api \<Rightarrow> ('e, unit) cast" where
  "sync_relay api = do {
     taken \<leftarrow> ask (relay_taken api);
     slot \<leftarrow> gets w_relay;
     (case slot of
        None \<Rightarrow> ret ()
      | Some c \<Rightarrow> when_m taken (do {
          modify (\<lambda>s. s\<lparr>w_relay := None\<rparr>);
          put_out (RelayClosed c)
        }))
   }"

definition shutdown_relay_slot :: "'e cast_api \<Rightarrow> ('e, unit) cast" where
  "shutdown_relay_slot api = do {
     sync_relay api;
     slot \<leftarrow> gets w_relay;
     (case slot of
        None \<Rightarrow> ret ()
      | Some c \<Rightarrow> do {
          modify (\<lambda>s. s\<lparr>w_relay := None\<rparr>);
          put_out (RelayClosed c)
        })
   }"

definition lose_device :: "'e cast_api \<Rightarrow> ('e, unit) cast" where
  "lose_device api = do {
     modify (\<lambda>s. s\<lparr>w_device := None\<rparr>);
     shutdown_relay_slot api
   }"

definition drop_device :: "'e cast_api \<Rightarrow> ('e, unit) cast" where
  "drop_device api = do {
     clear_active_session;
     lose_device api
   }"

section \<open>Reachability\<close>

definition note_reachable :: "'e cast_api \<Rightarrow> ('e, unit) cast" where
  "note_reachable api = do {
     now \<leftarrow> ask (clock api);
     modify (\<lambda>s. s\<lparr>w_reachable := True, w_reachable_flag := True, w_reconnect_attempt := 0,
       w_unreachable_since := None, w_next_reconnect_at := now\<rparr>)
   }"

definition mark_terminal_failed :: "'e cast_api \<Rightarrow> ('e, unit) cast" where
  "mark_terminal_failed api = do {
     now \<leftarrow> ask (clock api);
     modify (\<lambda>s. s\<lparr>w_reachable := False, w_reachable_flag := False,
       w_next_reconnect_at := now + TERMINAL_RECONNECT_HOLD\<rparr>);
     already \<leftarrow> gets w_terminal_failed;
     unless_m already (do {
       modify (\<lambda>s. s\<lparr>w_terminal_failed := True, w_terminal_flag := True\<rparr>);
       since \<leftarrow> gets w_unreachable_since;
       when_m (since = None) (do {
         at_now \<leftarrow> ask (clock api);
         modify (\<lambda>s. s\<lparr>w_unreachable_since := Some at_now\<rparr>)
       })
     })
   }"

definition note_unreachable :: "'e cast_api \<Rightarrow> error \<Rightarrow> ('e, unit) cast" where
  "note_unreachable api err =
     (if classify_cast_control_error err = FailTerminal then mark_terminal_failed api
      else do {
        fresh \<leftarrow> gets (\<lambda>s. w_reachable s \<or> w_unreachable_since s = None);
        when_m fresh (do {
          since \<leftarrow> ask (clock api);
          modify (\<lambda>s. s\<lparr>w_unreachable_since := Some since\<rparr>)
        });
        modify (\<lambda>s. s\<lparr>w_reachable := False, w_reachable_flag := False,
          w_reconnect_attempt := saturating_add (w_reconnect_attempt s) 1\<rparr>);
        delay \<leftarrow> gets (\<lambda>s. reconnect_backoff_delay (w_reconnect_attempt s - 1) (backoff_seed (w_id s)));
        now \<leftarrow> ask (clock api);
        modify (\<lambda>s. s\<lparr>w_next_reconnect_at := now + delay\<rparr>)
      })"

definition refresh_host :: "'e cast_api \<Rightarrow> ('e, unit) cast" where
  "refresh_host api = do {
     hostname \<leftarrow> gets w_hostname;
     unless_m (hostname = []) (do {
       ip \<leftarrow> ask (resolve_ipv4 api hostname);
       host \<leftarrow> gets w_host;
       (case ip of
          None \<Rightarrow> ret ()
        | Some a \<Rightarrow> when_m (a \<noteq> host)
            (modify (\<lambda>s. s\<lparr>w_host := a, w_logged_source_ip := False\<rparr>)))
     })
   }"

section \<open>Error texts\<close>

definition terminal_error :: "string \<Rightarrow> error" where
  "terminal_error i = ErrCast (''terminal Cast failure for '' @ i @ '' (not reconnecting)'')"

definition backoff_error :: "string \<Rightarrow> error" where
  "backoff_error i = ErrCast (''reconnect backoff active for '' @ i)"

definition relay_error :: "string \<Rightarrow> u16 \<Rightarrow> string \<Rightarrow> error" where
  "relay_error host port err = ErrCast (''connect '' @ host @ '':'' @ show_nat (unat port) @ '': '' @ err)"

definition via_relay_error :: "string \<Rightarrow> u16 \<Rightarrow> string \<Rightarrow> u16 \<Rightarrow> string \<Rightarrow> error" where
  "via_relay_error host port relay_host relay_port err =
     ErrCast (''connect '' @ host @ '':'' @ show_nat (unat port) @ '' (via local relay ''
       @ relay_host @ '':'' @ show_nat (unat relay_port) @ ''): '' @ err)"

text \<open>What the worker was doing on the wire when a call failed, as its error names it.\<close>

datatype wire_op =
    WireChannel | WireHeartbeat | WireLoadHeartbeat | WireLaunch | WireAppConnection | WireMediaLoad
  | WireStop | WirePause | WirePlay | WireMediaStatus | WireSetVolume | WireGetVolume
  | WireMultizoneSend | WireMultizoneAnswer
  | WireAdoptReceiver | WireAdoptConnection | WireAdoptMedia

fun wire_op_text :: "wire_op \<Rightarrow> string" where
  "wire_op_text WireChannel = ''warm connection channel''"
| "wire_op_text WireHeartbeat = ''warm heartbeat''"
| "wire_op_text WireLoadHeartbeat = ''warm load heartbeat''"
| "wire_op_text WireLaunch = ''warm launch app''"
| "wire_op_text WireAppConnection = ''warm app connection''"
| "wire_op_text WireMediaLoad = ''warm media load''"
| "wire_op_text WireStop = ''warm stop''"
| "wire_op_text WirePause = ''warm pause''"
| "wire_op_text WirePlay = ''warm play''"
| "wire_op_text WireMediaStatus = ''warm media status''"
| "wire_op_text WireSetVolume = ''warm set volume''"
| "wire_op_text WireGetVolume = ''warm get volume''"
| "wire_op_text WireMultizoneSend = ''multizone send''"
| "wire_op_text WireMultizoneAnswer = ''multizone answer''"
| "wire_op_text WireAdoptReceiver = ''adopt receiver status''"
| "wire_op_text WireAdoptConnection = ''adopt app connection''"
| "wire_op_text WireAdoptMedia = ''adopt media status''"

definition wire_failure :: "wire_op \<Rightarrow> wire_error \<Rightarrow> error" where
  "wire_failure op e = ErrCast (wire_op_text op @ '': '' @ wire_text e)"

definition dest_failure :: "wire_op \<Rightarrow> string \<Rightarrow> wire_error \<Rightarrow> error" where
  "dest_failure op dest e = ErrCast (wire_op_text op @ '' connect '' @ dest @ '': '' @ wire_text e)"

definition RECEIVER_0 :: string where
  "RECEIVER_0 = ''receiver-0''"

section \<open>Connecting\<close>

definition connect_cast_device :: "'e cast_api \<Rightarrow> string \<Rightarrow> u16 \<Rightarrow> ('e, connection result) cast" where
  "connect_cast_device api host port = do {
     put_out (Dialled host port);
     relay \<leftarrow> ask (spawn_relay api host port);
     (case relay of
        Inl err \<Rightarrow>
          ret (Inl (relay_error host port err))
      | Inr (relay_host, relay_port, c) \<Rightarrow> do {
          modify (\<lambda>s. s\<lparr>w_relay := Some c\<rparr>);
          tls \<leftarrow> ask (tls_connect api relay_port);
          (case tls of
             Inr _ \<Rightarrow> ret (Inr c)
           | Inl err \<Rightarrow> do {
               shutdown_relay_slot api;
               ret (Inl (via_relay_error host port relay_host relay_port err))
             })
        })
   }"

definition connect_failed :: "'e cast_api \<Rightarrow> error \<Rightarrow> ('e, unit result) cast" where
  "connect_failed api err = do {
     shutdown_relay_slot api;
     note_unreachable api err;
     ret (Inl err)
   }"

text \<open>The part of \<open>ensure_connected\<close> after its early returns: handshake, then the attempt.\<close>

definition greet_device :: "'e cast_api \<Rightarrow> connection \<Rightarrow> ('e, unit result) cast" where
  "greet_device api c = do {
     joined \<leftarrow> ask (dev_connect api c RECEIVER_0);
     (case joined of
        Inl e \<Rightarrow> connect_failed api (wire_failure WireChannel e)
      | Inr _ \<Rightarrow> do {
          pinged \<leftarrow> ask (dev_ping api c);
          (case pinged of
             Inl e \<Rightarrow> connect_failed api (wire_failure WireHeartbeat e)
           | Inr _ \<Rightarrow> do {
               modify (\<lambda>s. s\<lparr>w_device := Some c\<rparr>);
               now \<leftarrow> ask (clock api);
               modify (\<lambda>s. s\<lparr>w_next_ping_at := now + HEARTBEAT_INTERVAL\<rparr>);
               note_reachable api;
               modify (\<lambda>s. s\<lparr>w_logged_source_ip := True\<rparr>);
               ret (Inr ())
             })
        })
   }"

definition connect_now :: "'e cast_api \<Rightarrow> ('e, unit result) cast" where
  "connect_now api = do {
     refresh_host api;
     host \<leftarrow> gets w_host;
     port \<leftarrow> gets w_port;
     ask (wake_host api host);
     dev \<leftarrow> connect_cast_device api host port;
     (case dev of
        Inl err \<Rightarrow> do {
          note_unreachable api err;
          ret (Inl err)
        }
      | Inr c \<Rightarrow> greet_device api c)
   }"

definition ensure_connected :: "'e cast_api \<Rightarrow> bool \<Rightarrow> ('e, unit result) cast" where
  "ensure_connected api force = do {
     device \<leftarrow> gets w_device;
     terminal \<leftarrow> gets w_terminal_failed;
     i \<leftarrow> gets w_id;
     if device \<noteq> None then ret (Inr ())
     else if terminal then ret (Inl (terminal_error i))
     else do {
       now \<leftarrow> ask (clock api);
       next_at \<leftarrow> gets w_next_reconnect_at;
       if \<not> force \<and> now < next_at then ret (Inl (backoff_error i))
       else connect_now api
     }
   }"

section \<open>The hard deadline\<close>

definition with_hard_deadline :: "'e cast_api \<Rightarrow> ('e, 'a) cast \<Rightarrow> ('e, 'a) cast" where
  "with_hard_deadline api op = do {
     r \<leftarrow> op;
     fired \<leftarrow> ask (deadline_passed api);
     when_m fired (do {
       sync_relay api;
       modify (\<lambda>s. s\<lparr>w_device := fst (apply_hard_deadline_device_clear (w_device s))\<rparr>)
     });
     ret r
   }"

text \<open>Whether the bridge announced the end of the session since the last LOAD.\<close>

definition stand_down_now :: "'e cast_api \<Rightarrow> ('e, bool) cast" where
  "stand_down_now api = do {
     announced \<leftarrow> ask (end_announced api);
     modify (\<lambda>s. s\<lparr>w_stand_down := w_stand_down s \<or> announced\<rparr>);
     gets w_stand_down
   }"

end
