(* ===== verification/Cast_Handlers.thy ===== *)
theory Cast_Handlers
  imports Cast_Connection
begin

text \<open>
  The command handlers of the Cast worker (\<open>src/cast/pool.rs\<close>): LOAD with its abandonment, STOP,
  PAUSE, PLAY, volume, metadata, the multizone requests, and handing a session to another worker.
\<close>

section \<open>The device\<close>

definition no_device_error :: error where
  "no_device_error = ErrCast ''warm Cast device not connected''"

definition the_device :: "('e, connection result) cast" where
  "the_device = gets (\<lambda>s. case w_device s of
      None \<Rightarrow> Inl no_device_error
    | Some c \<Rightarrow> Inr c)"

definition connect_if_needed :: "'e cast_api \<Rightarrow> ('e, unit result) cast" where
  "connect_if_needed api = do {
     device \<leftarrow> gets w_device;
     if device = None then ensure_connected api True else ret (Inr ())
   }"

definition wire :: "wire_op \<Rightarrow> ('e \<Rightarrow> (wire_error + 'a) \<times> 'e) \<Rightarrow> ('e, 'a result) cast" where
  "wire op f = do {
     r \<leftarrow> ask f;
     ret (case r of Inl e \<Rightarrow> Inl (wire_failure op e) | Inr x \<Rightarrow> Inr x)
   }"

text \<open>CONNECT to each destination in turn; the first failure drops the connection.\<close>

fun connect_dests :: "'e cast_api \<Rightarrow> wire_op \<Rightarrow> connection \<Rightarrow> string list \<Rightarrow> ('e, unit result) cast" where
  "connect_dests api op c [] = ret (Inr ())"
| "connect_dests api op c (dest # dests) = do {
     r \<leftarrow> ask (dev_connect api c dest);
     (case r of
        Inr _ \<Rightarrow> connect_dests api op c dests
      | Inl e \<Rightarrow> do {
          lose_device api;
          ret (Inl (dest_failure op dest e))
        })
   }"

definition no_session_error :: "'a result" where
  "no_session_error = Inl (ErrCast ''no active session'')"

section \<open>STOP\<close>

definition handle_stop :: "'e cast_api \<Rightarrow> ('e, unit result) cast" where
  "handle_stop api = do {
     stopped \<leftarrow> gets w_active;
     clear_active_session;
     device \<leftarrow> gets w_device;
     (case stopped of
        None \<Rightarrow> ret (Inr ())
      | Some session \<Rightarrow>
          (case device of
             None \<Rightarrow> ret (Inr ())
           | Some c \<Rightarrow> try_m (connect_dests api WireStop c [RECEIVER_0, transport_id session]) (\<lambda>_. do {
               put_out (StopSent (transport_id session) (media_session_id session));
               try_m (wire WireStop (dev_stop api c (transport_id session) (media_session_id session)))
                 (\<lambda>_. ret (Inr ()))
             })))
   }"

section \<open>LOAD\<close>

definition running_media_receiver :: "'e cast_api \<Rightarrow> connection \<Rightarrow> ('e, receiver_app option) cast" where
  "running_media_receiver api c = do {
     status \<leftarrow> ask (dev_receiver_status api c);
     ret (case status of
            Inl _ \<Rightarrow> None
          | Inr st \<Rightarrow> find (\<lambda>a. app_id a = DEFAULT_MEDIA_RECEIVER_APP_ID) (rs_apps st))
   }"

definition load_once :: "'e cast_api \<Rightarrow> cast_media \<Rightarrow> ('e, media_session_ref result) cast" where
  "load_once api media =
     try_m the_device (\<lambda>c.
     try_m (wire WireLoadHeartbeat (dev_ping api c)) (\<lambda>_. do {
       join \<leftarrow> gets w_join_running_app;
       running \<leftarrow> (if join then running_media_receiver api c else ret None);
       try_m (case running of
                Some app \<Rightarrow> ret (Inr app)
              | None \<Rightarrow> wire WireLaunch (dev_launch api c)) (\<lambda>app.
       try_m (wire WireAppConnection (dev_connect api c (app_transport_id app))) (\<lambda>_. do {
         put_out (LoadSent (app_transport_id app) media);
         try_m (wire WireMediaLoad
             (dev_load api c (app_transport_id app) (app_session_id app) media)) (\<lambda>entries.
           ret (media_session_from_status (app_transport_id app) (app_session_id app) entries))
       }))
     }))"

definition load_abandoned :: "string \<Rightarrow> error" where
  "load_abandoned i = ErrCast (''warm Cast load abandoned after caller timeout for '' @ i)"

definition abandoned_error :: "('e, 'a result) cast" where
  "abandoned_error = gets (\<lambda>s.
     Inl (load_abandoned (w_id s)))"

definition stop_late_load_session :: "'e cast_api \<Rightarrow> media_session_ref \<Rightarrow> ('e, unit) cast" where
  "stop_late_load_session api session = do {
     modify (\<lambda>s. s\<lparr>w_active := Some session\<rparr>);
     handle_stop api;
     ret ()
   }"

definition commit_load_session ::
  "'e cast_api \<Rightarrow> ('e \<Rightarrow> bool \<times> 'e) \<Rightarrow> media_session_ref \<Rightarrow> ('e, media_session_ref result) cast" where
  "commit_load_session api abandoned session = do {
     gone \<leftarrow> ask abandoned;
     (case load_commit_decision gone of
        AbandonAndStop \<Rightarrow> do {
          stop_late_load_session api session;
          abandoned_error
        }
      | InstallActive \<Rightarrow> do {
          set_active_session api session;
          late \<leftarrow> ask abandoned;
          if late then do {
            handle_stop api;
            abandoned_error
          } else ret (Inr session)
        })
   }"

definition handle_load ::
  "'e cast_api \<Rightarrow> media_load_request \<Rightarrow> ('e \<Rightarrow> bool \<times> 'e) \<Rightarrow> ('e, media_session_ref result) cast" where
  "handle_load api request abandoned = do {
     now \<leftarrow> ask (clock api);
     modify (\<lambda>s. s\<lparr>w_last_load := Some request, w_last_load_at := Some now\<rparr>);
     first \<leftarrow> load_once api (to_media request);
     (case first of
        Inr session \<Rightarrow> commit_load_session api abandoned session
      | Inl err \<Rightarrow> do {
          gone \<leftarrow> ask abandoned;
          if gone then abandoned_error
          else do {
            lose_device api;
            re \<leftarrow> ensure_connected api True;
            (case re of
               Inl _ \<Rightarrow> ret (Inl err)
             | Inr _ \<Rightarrow> do {
                 gone' \<leftarrow> ask abandoned;
                 if gone' then abandoned_error
                 else try_m (load_once api (to_media request)) (commit_load_session api abandoned)
               })
          }
        })
   }"

section \<open>Metadata\<close>

definition handle_update_metadata :: "'e cast_api \<Rightarrow> cast_track \<Rightarrow> ('e, unit) cast" where
  "handle_update_metadata api track = do {
     last \<leftarrow> gets w_last_load;
     (case last of
        None \<Rightarrow> ret ()
      | Some load \<Rightarrow>
          if load_track load = track then ret ()
          else do {
            modify (\<lambda>s. s\<lparr>w_last_load := Some (load\<lparr>load_track := track\<rparr>)\<rparr>);
            active \<leftarrow> gets w_active;
            device \<leftarrow> gets w_device;
            (case active of
               None \<Rightarrow> ret ()
             | Some session \<Rightarrow>
                 (case queue_item_id session of
                    None \<Rightarrow> ret ()
                  | Some item \<Rightarrow>
                      (case device of
                         None \<Rightarrow> ret ()
                       | Some c \<Rightarrow> do {
                           n \<leftarrow> ask (dev_request_id api c);
                           ask (dev_send api c MEDIA_NAMESPACE (transport_id session)
                             (queue_update_payload (load\<lparr>load_track := track\<rparr>) n
                               (media_session_id session) item));
                           ret ()
                         })))
          })
   }"

section \<open>Multizone\<close>

definition answer_timed_out :: "'e cast_api \<Rightarrow> wire_error" where
  "answer_timed_out api =
     WireInternal ''multizone answer timed out'' (internal_text api ''multizone answer timed out'')"

fun find_answer ::
  "'e cast_api \<Rightarrow> instant \<Rightarrow> (string \<Rightarrow> 'a result option) \<Rightarrow> (instant \<times> string \<times> string option) list
    \<Rightarrow> wire_error \<Rightarrow> wire_error + 'a result" where
  "find_answer api deadline parse [] e = Inl e"
| "find_answer api deadline parse ((now, namespace, payload) # rest) e =
     (if deadline \<le> now then
        Inl (answer_timed_out api)
      else if namespace \<noteq> MULTIZONE_NAMESPACE then find_answer api deadline parse rest e
      else (case payload of
              None \<Rightarrow> find_answer api deadline parse rest e
            | Some text \<Rightarrow>
                (case parse text of
                   None \<Rightarrow> find_answer api deadline parse rest e
                 | Some r \<Rightarrow> Inr r)))"

definition multizone_request ::
  "'e cast_api \<Rightarrow> (nat \<Rightarrow> json) \<Rightarrow> (string \<Rightarrow> nat \<Rightarrow> 'a result option) \<Rightarrow> ('e, 'a result) cast" where
  "multizone_request api build parse =
     try_m (connect_if_needed api) (\<lambda>_.
     try_m the_device (\<lambda>c. do {
       n \<leftarrow> ask (dev_request_id api c);
       try_m (wire WireMultizoneSend (dev_send api c MULTIZONE_NAMESPACE RECEIVER_0 (build n))) (\<lambda>_. do {
         now \<leftarrow> ask (clock api);
         incoming \<leftarrow> ask (dev_messages api c);
         ret (case find_answer api (now + COMMAND_TIMEOUT) (\<lambda>text. parse text n)
                     (fst incoming) (snd incoming) of
                Inl e \<Rightarrow> Inl (wire_failure WireMultizoneAnswer e)
              | Inr r \<Rightarrow> r)
       })
     }))"

definition handle_set_playback_devices ::
  "'e cast_api \<Rightarrow> set_playback_devices \<Rightarrow> ('e, playback_session_update result) cast" where
  "handle_set_playback_devices api request = do {
     active \<leftarrow> gets w_active;
     (case active of
        None \<Rightarrow> ret no_session_error
      | Some session \<Rightarrow> multizone_request api
          (\<lambda>n. set_playback_devices_payload request n (session_id session))
          (parse_set_playback_devices_reply (json_of_text api)))
   }"

definition handle_multizone_status :: "'e cast_api \<Rightarrow> ('e, multizone_member list result) cast" where
  "handle_multizone_status api =
     multizone_request api get_status_payload
       (parse_multizone_status_reply (json_of_text api) (decode_status api))"

section \<open>Handing a session to another worker\<close>

definition handle_take_session ::
  "('e, (media_session_ref \<times> media_load_request option) option) cast" where
  "handle_take_session = do {
     active \<leftarrow> gets w_active;
     load \<leftarrow> gets w_last_load;
     (case active of
        None \<Rightarrow> ret None
      | Some session \<Rightarrow> do {
          clear_active_session;
          modify (\<lambda>s. s\<lparr>w_stand_down := True\<rparr>);
          ret (Some (session, load))
        })
   }"

definition nothing_to_adopt :: error where
  "nothing_to_adopt = ErrCast ''adopt: host reports no media session''"

definition read_adopted_session ::
  "'e cast_api \<Rightarrow> media_session_ref \<Rightarrow> string \<Rightarrow> ('e, media_session_ref result) cast" where
  "read_adopted_session api session sess =
     try_m the_device (\<lambda>c.
     try_m (wire WireAdoptReceiver (dev_receiver_status api c)) (\<lambda>receiver.
     try_m (ret (adoptable_app (debug_pairs api) (rs_apps receiver) sess)) (\<lambda>app.
     try_m (wire WireAdoptConnection (dev_connect api c (app_transport_id app))) (\<lambda>_.
     try_m (wire WireAdoptMedia (dev_media_status api c (app_transport_id app) None)) (\<lambda>entries.
       ret (case entries of
              [] \<Rightarrow> Inl nothing_to_adopt
            | entry # _ \<Rightarrow> Inr \<lparr>
                transport_id = app_transport_id app,
                session_id = app_session_id app,
                media_session_id = entry_media_session_id entry,
                queue_item_id = (case current_item_id entry of
                    None \<Rightarrow> queue_item_id session
                  | Some item \<Rightarrow> Some item)\<rparr>))))))"

definition handle_adopt ::
  "'e cast_api \<Rightarrow> media_session_ref \<Rightarrow> string \<Rightarrow> media_load_request option \<Rightarrow> ('e, unit result) cast" where
  "handle_adopt api session sess load =
     try_m (connect_if_needed api) (\<lambda>_. do {
       r \<leftarrow> read_adopted_session api session sess;
       (case r of
          Inl err \<Rightarrow> do {
            drop_device api;
            ret (Inl err)
          }
        | Inr adopted \<Rightarrow> do {
            now \<leftarrow> ask (clock api);
            modify (\<lambda>s. s\<lparr>w_last_load := load, w_last_load_at := Some now\<rparr>);
            set_active_session api adopted;
            ret (Inr ())
          })
     })"

section \<open>Volume\<close>

text \<open>Both volume operations drop a connection that failed and try once more on a new one.\<close>

definition on_new_connection ::
  "'e cast_api \<Rightarrow> (connection \<Rightarrow> ('e, 'a result) cast) \<Rightarrow> ('e, 'a result) cast" where
  "on_new_connection api op = do {
     lose_device api;
     try_m (ensure_connected api True) (\<lambda>_. try_m the_device op)
   }"

definition note_own_volume :: "receiver_volume \<Rightarrow> f32 \<Rightarrow> ('e, unit) cast" where
  "note_own_volume v requested = modify (\<lambda>s. s\<lparr>w_tracker :=
     note_volume (unwrap_or requested (volume_level v)) (unwrap_or False (volume_muted v)) (w_tracker s)\<rparr>)"

definition handle_set_volume :: "'e cast_api \<Rightarrow> f32 \<Rightarrow> ('e, unit result) cast" where
  "handle_set_volume api level =
     (let clamped = volume_level_clamped level in
      try_m (connect_if_needed api) (\<lambda>_. do {
        now \<leftarrow> ask (clock api);
        modify (\<lambda>s. s\<lparr>w_tracker := expect_volume_command clamped now (w_tracker s)\<rparr>);
        try_m the_device (\<lambda>c. do {
          first \<leftarrow> ask (dev_set_volume api c clamped);
          (case first of
             Inr v \<Rightarrow> do {
               note_own_volume v clamped;
               ret (Inr ())
             }
           | Inl _ \<Rightarrow> on_new_connection api (\<lambda>c'.
               try_m (wire WireSetVolume (dev_set_volume api c' clamped)) (\<lambda>v. do {
                 note_own_volume v clamped;
                 ret (Inr ())
               })))
        })
      }))"

definition note_status_volume :: "receiver_volume \<Rightarrow> ('e, unit) cast" where
  "note_status_volume v = note_own_volume v f32_zero"

definition handle_get_volume :: "'e cast_api \<Rightarrow> ('e, f32 result) cast" where
  "handle_get_volume api =
     try_m (connect_if_needed api) (\<lambda>_.
     try_m the_device (\<lambda>c. do {
       first \<leftarrow> ask (dev_receiver_status api c);
       (case first of
          Inr st \<Rightarrow> do {
            note_status_volume (rs_volume st);
            ret (Inr (volume_from_cast_status (rs_volume st)))
          }
        | Inl _ \<Rightarrow> on_new_connection api (\<lambda>c'.
            try_m (wire WireGetVolume (dev_receiver_status api c')) (\<lambda>st. do {
              note_status_volume (rs_volume st);
              ret (Inr (volume_from_cast_status (rs_volume st)))
            })))
     }))"

section \<open>PAUSE, PLAY and media status\<close>

definition handle_pause_cmd :: "'e cast_api \<Rightarrow> ('e, media_playback result) cast" where
  "handle_pause_cmd api = do {
     active \<leftarrow> gets w_active;
     (case active of
        None \<Rightarrow> ret no_session_error
      | Some session \<Rightarrow> do {
          now \<leftarrow> ask (clock api);
          modify (\<lambda>s. s\<lparr>w_tracker := expect_player IntentPaused now (w_tracker s)\<rparr>);
          device \<leftarrow> gets w_device;
          (case device of
             None \<Rightarrow> ret no_session_error
           | Some c \<Rightarrow>
               try_m (connect_dests api WirePause c [RECEIVER_0, transport_id session]) (\<lambda>_.
               try_m (wire WirePause (dev_pause api c (transport_id session) (media_session_id session)))
                 (\<lambda>entry. ret (Inr (media_playback_from entry)))))
        })
   }"

definition no_entry_error :: error where
  "no_entry_error = ErrCast ''media status has no entry for our media session''"

definition handle_media_status :: "'e cast_api \<Rightarrow> ('e, media_playback result) cast" where
  "handle_media_status api = do {
     active \<leftarrow> gets w_active;
     (case active of
        None \<Rightarrow> ret no_session_error
      | Some session \<Rightarrow>
          try_m the_device (\<lambda>c.
          try_m (wire WireMediaStatus
              (dev_media_status api c (transport_id session) (Some (media_session_id session)))) (\<lambda>entries.
            ret (case find (\<lambda>e. entry_media_session_id e = media_session_id session) entries of
                   Some e \<Rightarrow> Inr (media_playback_from e)
                 | None \<Rightarrow> Inl no_entry_error))))
   }"

definition handle_play :: "'e cast_api \<Rightarrow> ('e, unit result) cast" where
  "handle_play api = do {
     active \<leftarrow> gets w_active;
     (case active of
        None \<Rightarrow> ret no_session_error
      | Some session \<Rightarrow> do {
          now \<leftarrow> ask (clock api);
          modify (\<lambda>s. s\<lparr>w_tracker := expect_player IntentPlaying now (w_tracker s)\<rparr>);
          device \<leftarrow> gets w_device;
          (case device of
             None \<Rightarrow> ret no_session_error
           | Some c \<Rightarrow>
               try_m (connect_dests api WirePlay c [RECEIVER_0, transport_id session]) (\<lambda>_.
               try_m (wire WirePlay (dev_play api c (transport_id session) (media_session_id session)))
                 (\<lambda>_. ret (Inr ()))))
        })
   }"

end
