(* ===== verification/Cast_Ownership.thy ===== *)
theory Cast_Ownership
  imports Cast_Handlers
begin

text \<open>
  The idle half of the Cast worker (\<open>src/cast/pool.rs\<close>): PING, draining unsolicited messages, the
  ownership probe with its internal re-LOAD, and the worker's main loop.
\<close>

section \<open>Losing the session\<close>

definition declare_ownership_lost :: "('e, unit) cast" where
  "declare_ownership_lost = do {
     clear_active_session;
     watch \<leftarrow> gets w_watch_lost;
     i \<leftarrow> gets w_id;
     when_m watch (put_out (OwnershipLost i))
   }"

definition note_lost_signal :: "('e, unit) cast" where
  "note_lost_signal = do {
     modify (\<lambda>s. s\<lparr>w_loss_streak := saturating_add (w_loss_streak s) 1\<rparr>);
     streak \<leftarrow> gets w_loss_streak;
     if streak < OWNERSHIP_LOSS_CONFIRMATIONS then ret () else declare_ownership_lost
   }"

definition count_failed_ping :: "('e, unit) cast" where
  "count_failed_ping = do {
     modify (\<lambda>s. s\<lparr>w_loss_streak := saturating_add (w_loss_streak s) 1\<rparr>);
     streak \<leftarrow> gets w_loss_streak;
     when_m (OWNERSHIP_LOSS_CONFIRMATIONS \<le> streak) declare_ownership_lost
   }"

definition heartbeat_ping :: "'e cast_api \<Rightarrow> ('e, unit) cast" where
  "heartbeat_ping api = do {
     now \<leftarrow> ask (clock api);
     modify (\<lambda>s. s\<lparr>w_next_ping_at := now + HEARTBEAT_INTERVAL\<rparr>);
     device \<leftarrow> gets w_device;
     (case device of
        None \<Rightarrow> ret ()
      | Some c \<Rightarrow> do {
          pinged \<leftarrow> ask (dev_ping api c);
          (case pinged of
             Inr _ \<Rightarrow> ret ()
           | Inl _ \<Rightarrow> do {
               lose_device api;
               re \<leftarrow> ensure_connected api True;
               (case re of
                  Inr _ \<Rightarrow> ret ()
                | Inl _ \<Rightarrow> do {
                    active \<leftarrow> gets w_active;
                    when_m (active \<noteq> None) count_failed_ping
                  })
             })
        })
   }"

section \<open>Draining unsolicited messages\<close>

text \<open>The loop returns the parse error that ended it, and the latest entry and volume it saw.\<close>

fun drain_loop ::
  "'e cast_api \<Rightarrow> connection \<Rightarrow> int option \<Rightarrow> nat \<Rightarrow> status_entry option \<Rightarrow> receiver_volume option
    \<Rightarrow> ('e, string option \<times> status_entry option \<times> receiver_volume option) cast" where
  "drain_loop api c ours 0 entry volume = ret (None, entry, volume)"
| "drain_loop api c ours (Suc n) entry volume = do {
     r \<leftarrow> ask (dev_receive api c);
     (case r of
        Inr MsgPing \<Rightarrow> do {
          ponged \<leftarrow> ask (dev_pong api c);
          (case ponged of
             Inl _ \<Rightarrow> ret (None, entry, volume)
           | Inr _ \<Rightarrow> drain_loop api c ours n entry volume)
        }
      | Inr (MsgMediaStatus entries) \<Rightarrow>
          drain_loop api c ours n
            (case find (\<lambda>e. Some (entry_media_session_id e) = ours) entries of
               None \<Rightarrow> entry | Some e \<Rightarrow> Some e) volume
      | Inr (MsgReceiverStatus v) \<Rightarrow> drain_loop api c ours n entry (Some v)
      | Inr MsgOther \<Rightarrow> drain_loop api c ours n entry volume
      | Inl err \<Rightarrow>
          ret (case classify_cast_probe_error err of
                 FailTransport \<Rightarrow> (None, entry, volume)
               | FailParse \<Rightarrow> (Some (wire_text err), entry, volume)))
   }"

definition drain_unsolicited :: "'e cast_api \<Rightarrow> ('e, unit) cast" where
  "drain_unsolicited api = do {
     device \<leftarrow> gets w_device;
     (case device of
        None \<Rightarrow> ret ()
      | Some c \<Rightarrow> do {
          ours \<leftarrow> gets (\<lambda>s. map_option media_session_id (w_active s));
          (parse_warn, entry, volume) \<leftarrow> drain_loop api c ours UNSOLICITED_DRAIN_LIMIT None None;
          (case parse_warn of None \<Rightarrow> ret () | Some msg \<Rightarrow> warn_parse_once msg);
          (case entry of None \<Rightarrow> ret () | Some e \<Rightarrow> observe_media_entry api e);
          (case volume of None \<Rightarrow> ret () | Some v \<Rightarrow> observe_receiver_volume api v)
        })
   }"

section \<open>Probing ownership\<close>

definition probe_transport_listed :: "'e cast_api \<Rightarrow> string \<Rightarrow> ('e, bool) cast" where
  "probe_transport_listed api transport = do {
     device \<leftarrow> gets w_device;
     (case device of
        None \<Rightarrow> ret False
      | Some c \<Rightarrow> do {
          r \<leftarrow> ask (dev_receiver_status api c);
          (case r of
             Inr st \<Rightarrow> do {
               observe_receiver_volume api (rs_volume st);
               ret (cast_transport_still_owned (map app_transport_id (rs_apps st)) transport)
             }
           | Inl err \<Rightarrow> do {
               when_m (classify_cast_probe_error err = FailParse) (warn_parse_once (wire_text err));
               ret False
             })
        })
   }"

record media_probe =
  mp_present :: "bool option"
  mp_idle_reason :: "idle_reason_kind option"
  mp_buffering :: bool
  mp_failure :: "probe_failure_kind option"

definition entry_idle_kind :: "status_entry \<Rightarrow> idle_reason_kind option" where
  "entry_idle_kind e =
     (if entry_player_state e = PlayerIdle then
        (if entry_idle_reason e = Some IdleInterrupted then Some ReasonInterrupted
         else Some ReasonRecoverable)
      else None)"

definition probe_media_session :: "'e cast_api \<Rightarrow> string \<Rightarrow> int \<Rightarrow> ('e, media_probe) cast" where
  "probe_media_session api transport media_id = do {
     device \<leftarrow> gets w_device;
     (case device of
        None \<Rightarrow> ret \<lparr>mp_present = None, mp_idle_reason = None, mp_buffering = False,
                    mp_failure = Some FailTransport\<rparr>
      | Some c \<Rightarrow> do {
          ask (dev_connect api c transport);
          r \<leftarrow> ask (dev_media_status api c transport (Some media_id));
          (case r of
             Inr entries \<Rightarrow>
               (case find (\<lambda>e. entry_media_session_id e = media_id) entries of
                  Some e \<Rightarrow> do {
                    observe_media_entry api e;
                    ret \<lparr>mp_present = Some True, mp_idle_reason = entry_idle_kind e,
                         mp_buffering = (entry_player_state e = PlayerBuffering), mp_failure = None\<rparr>
                  }
                | None \<Rightarrow> ret \<lparr>mp_present = Some False, mp_idle_reason = None, mp_buffering = False,
                              mp_failure = None\<rparr>)
           | Inl err \<Rightarrow> do {
               when_m (classify_cast_probe_error err = FailParse) (warn_parse_once (wire_text err));
               ret \<lparr>mp_present = None, mp_idle_reason = None, mp_buffering = False,
                    mp_failure = Some (classify_cast_probe_error err)\<rparr>
             })
        })
   }"

text \<open>The internal re-LOAD cannot be abandoned: nobody waits for it.\<close>

definition never_abandoned :: "'e \<Rightarrow> bool \<times> 'e" where
  "never_abandoned e = (False, e)"

definition try_internal_reload :: "'e cast_api \<Rightarrow> ('e, bool) cast" where
  "try_internal_reload api = do {
     last \<leftarrow> gets w_last_load;
     (case last of
        None \<Rightarrow> ret False
      | Some request \<Rightarrow> do {
          r \<leftarrow> handle_load api request never_abandoned;
          (case r of
             Inl _ \<Rightarrow> ret False
           | Inr _ \<Rightarrow> do {
               watch \<leftarrow> gets w_watch_recovered;
               i \<leftarrow> gets w_id;
               when_m watch (put_out (MediaRecovered i));
               ret True
             })
        })
   }"

definition act_on_ownership :: "'e cast_api \<Rightarrow> ownership_action_kind \<Rightarrow> ('e, unit) cast" where
  "act_on_ownership api action =
     (case action of
        Owned \<Rightarrow> modify (\<lambda>s. s\<lparr>w_loss_streak := 0, w_reload_attempted := False\<rparr>)
      | Inconclusive \<Rightarrow> ret ()
      | SuspectReconnect \<Rightarrow> do {
          lose_device api;
          ensure_connected api True;
          ret ()
        }
      | AttemptReload \<Rightarrow> do {
          recovered \<leftarrow> try_internal_reload api;
          modify (\<lambda>s. s\<lparr>w_reload_attempted := reload_attempted_after_internal_reload recovered\<rparr>);
          if recovered then modify (\<lambda>s. s\<lparr>w_loss_streak := 0, w_buffering_streak := 0\<rparr>)
          else note_lost_signal
        }
      | LostSignal \<Rightarrow> note_lost_signal)"

definition probe_ownership :: "'e cast_api \<Rightarrow> media_session_ref \<Rightarrow> ('e, unit) cast" where
  "probe_ownership api session = do {
     listed \<leftarrow> probe_transport_listed api (transport_id session);
     probe \<leftarrow> probe_media_session api (transport_id session) (media_session_id session);
     modify (\<lambda>s. s\<lparr>w_buffering_streak :=
       (if mp_buffering probe then saturating_add (w_buffering_streak s) 1 else 0)\<rparr>);
     now \<leftarrow> ask (clock api);
     action \<leftarrow> gets (\<lambda>s. ownership_action \<lparr>
       transport_listed = listed,
       media_session_present = mp_present probe,
       idle_reason = mp_idle_reason probe,
       buffering = mp_buffering probe,
       buffering_seen = w_buffering_streak s,
       media_failure = mp_failure probe,
       reload_was_attempted = w_reload_attempted s,
       load_within_guard = (case w_last_load_at s of
           None \<Rightarrow> False | Some t \<Rightarrow> now - t < RECENT_LOAD_GUARD)\<rparr>);
     act_on_ownership api action
   }"

definition check_ownership :: "'e cast_api \<Rightarrow> ('e, unit) cast" where
  "check_ownership api = do {
     active \<leftarrow> gets w_active;
     ended \<leftarrow> stand_down_now api;
     if ownership_probe_stands_down (active = None) ended then
       modify (\<lambda>s. s\<lparr>w_loss_streak := 0, w_buffering_streak := 0\<rparr>)
     else do {
       since \<leftarrow> gets w_active_since;
       (case (active, since) of
          (Some session, Some t) \<Rightarrow> do {
            now \<leftarrow> ask (clock api);
            device \<leftarrow> gets w_device;
            if now - t < OWNERSHIP_GRACE \<or> device = None then ret ()
            else probe_ownership api session
          }
        | _ \<Rightarrow> ret ())
     }
   }"

definition probe_if_due :: "'e cast_api \<Rightarrow> ('e, unit) cast" where
  "probe_if_due api = do {
     now \<leftarrow> ask (clock api);
     probe_at \<leftarrow> gets w_next_probe_at;
     when_m (probe_at \<le> now) (do {
       later \<leftarrow> ask (clock api);
       modify (\<lambda>s. s\<lparr>w_next_probe_at := later + HEARTBEAT_INTERVAL\<rparr>);
       check_ownership api
     })
   }"

definition on_idle_tick :: "'e cast_api \<Rightarrow> ('e, unit) cast" where
  "on_idle_tick api = do {
     device \<leftarrow> gets w_device;
     terminal \<leftarrow> gets w_terminal_failed;
     if device = None then
       unless_m terminal (do {
         now \<leftarrow> ask (clock api);
         next_at \<leftarrow> gets w_next_reconnect_at;
         when_m (next_at \<le> now) (do {
           ensure_connected api False;
           ret ()
         })
       })
     else do {
       drain_unsolicited api;
       t1 \<leftarrow> ask (clock api);
       ping_at \<leftarrow> gets w_next_ping_at;
       when_m (ping_at \<le> t1) (heartbeat_ping api);
       probe_if_due api
     }
   }"

definition next_loop_wait :: "'e cast_api \<Rightarrow> ('e, duration) cast" where
  "next_loop_wait api = do {
     now \<leftarrow> ask (clock api);
     wait \<leftarrow> gets (\<lambda>s.
       if w_device s \<noteq> None then
         (let w = min HEARTBEAT_INTERVAL (w_next_ping_at s - now)
          in if w_active s \<noteq> None then min w ACTIVE_DRAIN_INTERVAL else w)
       else min HEARTBEAT_INTERVAL (w_next_reconnect_at s - now));
     ret (if wait = 0 then from_millis 50 else wait)
   }"

end
