(* ===== verification/Cast_Loop.thy ===== *)
theory Cast_Loop
  imports Cast_Ownership
begin

text \<open>
  The main loop of the Cast worker (\<open>worker_main\<close> in \<open>src/cast/pool.rs\<close>): one turn takes the command
  set aside by the previous turn, or waits for one, and handles it. Coalescing looks at what is
  queued when it starts.
\<close>

section \<open>The command queue\<close>

datatype received = GotCmd cast_cmd | RecvTimeout | RecvDisconnected

definition accept_arrivals :: "'e cast_api \<Rightarrow> duration \<Rightarrow> ('e, unit) cast" where
  "accept_arrivals api wait = do {
     cmds \<leftarrow> ask (arriving api wait);
     modify (\<lambda>s. s\<lparr>w_queue := w_queue s @ cmds, w_out := w_out s @ map Arrived cmds\<rparr>)
   }"

definition recv_timeout :: "'e cast_api \<Rightarrow> duration \<Rightarrow> ('e, received) cast" where
  "recv_timeout api wait = do {
     accept_arrivals api wait;
     q \<leftarrow> gets w_queue;
     (case q of
        c # rest \<Rightarrow> do {
          modify (\<lambda>s. s\<lparr>w_queue := rest\<rparr>);
          ret (GotCmd c)
        }
      | [] \<Rightarrow> do {
          gone \<leftarrow> ask (senders_gone api);
          ret (if gone then RecvDisconnected else RecvTimeout)
        })
   }"

text \<open>The two coalescing loops, over the queue: what they yield and what stays queued.\<close>

fun coalesce_set_volume ::
  "f32 \<Rightarrow> reply_id list \<Rightarrow> cast_cmd list \<Rightarrow> (f32 \<times> reply_id list \<times> cast_cmd option) \<times> cast_cmd list" where
  "coalesce_set_volume level replies [] = ((level, replies, None), [])"
| "coalesce_set_volume level replies (c # q) =
     (case c of
        CmdSetVolume next r \<Rightarrow> coalesce_set_volume next (replies @ [r]) q
      | other \<Rightarrow> ((level, replies, Some other), q))"

fun coalesce_metadata ::
  "cast_track \<Rightarrow> cast_cmd list \<Rightarrow> (cast_track \<times> cast_cmd option) \<times> cast_cmd list" where
  "coalesce_metadata latest [] = ((latest, None), [])"
| "coalesce_metadata latest (c # q) =
     (case c of
        CmdUpdateMetadata newer \<Rightarrow> coalesce_metadata newer q
      | other \<Rightarrow> ((latest, Some other), q))"

definition send_reply :: "'e cast_api \<Rightarrow> reply_id \<Rightarrow> cast_reply \<Rightarrow> ('e, bool) cast" where
  "send_reply api r v = do {
     gone \<leftarrow> ask (reply_gone api r);
     put_out (if gone then Unheard r v else Answered r v);
     ret (\<not> gone)
   }"

definition finish_op ::
  "'e cast_api \<Rightarrow> reply_id \<Rightarrow> ('a \<Rightarrow> cast_reply) \<Rightarrow> ('e, 'a) cast \<Rightarrow> ('e, unit) cast" where
  "finish_op api r wrap op = do {
     result \<leftarrow> with_hard_deadline api op;
     send_reply api r (wrap result);
     ret ()
   }"

section \<open>Commands with more than a handler call\<close>

definition stop_if_active :: "'e cast_api \<Rightarrow> ('e, unit) cast" where
  "stop_if_active api = do {
     active \<leftarrow> gets w_active;
     when_m (active \<noteq> None) (do {
       with_hard_deadline api (handle_stop api);
       ret ()
     })
   }"

definition deliver_load :: "'e cast_api \<Rightarrow> reply_id \<Rightarrow> media_session_ref result \<Rightarrow> ('e, unit) cast" where
  "deliver_load api r result = do {
     heard \<leftarrow> send_reply api r (ReplySession result);
     unless_m heard (stop_if_active api)
   }"

definition turn_load :: "'e cast_api \<Rightarrow> media_load_request \<Rightarrow> reply_id \<Rightarrow> ('e, unit) cast" where
  "turn_load api request r = do {
     load_result \<leftarrow> with_hard_deadline api (handle_load api request (is_abandoned api r));
     abandoned \<leftarrow> ask (is_abandoned api r);
     deliver \<leftarrow> (if abandoned then do {
         stop_if_active api;
         abandoned_error
       } else ret load_result);
     deliver_load api r deliver
   }"

definition turn_update_endpoint :: "'e cast_api \<Rightarrow> string \<Rightarrow> string \<Rightarrow> u16 \<Rightarrow> ('e, unit) cast" where
  "turn_update_endpoint api host hostname port = do {
     changed \<leftarrow> gets (\<lambda>s. w_host s \<noteq> host \<or> w_hostname s \<noteq> hostname \<or> w_port s \<noteq> port);
     modify (\<lambda>s. s\<lparr>w_host := host, w_hostname := hostname, w_port := port\<rparr>);
     when_m changed (do {
       drop_device api;
       now \<leftarrow> ask (clock api);
       modify (\<lambda>s. s\<lparr>w_reconnect_attempt := 0, w_next_reconnect_at := now\<rparr>);
       ensure_connected api True;
       ret ()
     })
   }"

fun reply_all :: "'e cast_api \<Rightarrow> reply_id list \<Rightarrow> cast_reply \<Rightarrow> ('e, unit) cast" where
  "reply_all api [] v = ret ()"
| "reply_all api (r # rs) v = do {
     send_reply api r v;
     reply_all api rs v
   }"

definition turn_set_volume :: "'e cast_api \<Rightarrow> f32 \<Rightarrow> reply_id \<Rightarrow> ('e, cast_cmd option) cast" where
  "turn_set_volume api level r = do {
     accept_arrivals api 0;
     drained \<leftarrow> gets (\<lambda>s. coalesce_set_volume level [r] (w_queue s));
     (case drained of
        ((final_level, replies, pending), rest) \<Rightarrow> do {
          modify (\<lambda>s. s\<lparr>w_queue := rest\<rparr>);
          result \<leftarrow> with_hard_deadline api (handle_set_volume api final_level);
          reply_all api replies (ReplyUnit (case result of
              Inr _ \<Rightarrow> Inr ()
            | Inl err \<Rightarrow> Inl (ErrCast (error_text err))));
          ret pending
        })
   }"

definition turn_metadata :: "'e cast_api \<Rightarrow> cast_track \<Rightarrow> ('e, cast_cmd option) cast" where
  "turn_metadata api track = do {
     accept_arrivals api 0;
     drained \<leftarrow> gets (\<lambda>s. coalesce_metadata track (w_queue s));
     (case drained of
        ((latest, pending), rest) \<Rightarrow> do {
          modify (\<lambda>s. s\<lparr>w_queue := rest\<rparr>);
          with_hard_deadline api (handle_update_metadata api latest);
          ret pending
        })
   }"

definition turn_stop_best_effort :: "'e cast_api \<Rightarrow> reply_id \<Rightarrow> ('e, unit) cast" where
  "turn_stop_best_effort api r = do {
     with_hard_deadline api (handle_stop api);
     clear_active_session;
     send_reply api r ReplyDone;
     ret ()
   }"

section \<open>One turn and the loop\<close>

text \<open>How a turn ends: the loop goes on, with the command set aside, or the worker exits.\<close>

datatype turn_end = GoOn "cast_cmd option" | Exit

definition turn_exit :: "'e cast_api \<Rightarrow> ('e, turn_end) cast" where
  "turn_exit api = do {
     drop_device api;
     ret Exit
   }"

definition go_on :: "('e, unit) cast \<Rightarrow> ('e, turn_end) cast" where
  "go_on m = do {
     m;
     ret (GoOn None)
   }"

definition set_aside :: "('e, cast_cmd option) cast \<Rightarrow> ('e, turn_end) cast" where
  "set_aside m = do {
     pending \<leftarrow> m;
     ret (GoOn pending)
   }"

definition handle_command :: "'e cast_api \<Rightarrow> cast_cmd \<Rightarrow> ('e, turn_end) cast" where
  "handle_command api cmd =
     (case cmd of
        CmdSetPlaybackDevices request r \<Rightarrow>
          go_on (finish_op api r ReplyUpdate (handle_set_playback_devices api request))
      | CmdMultizoneStatus r \<Rightarrow> go_on (finish_op api r ReplyMembers (handle_multizone_status api))
      | CmdTakeSession r \<Rightarrow> go_on (do {
          taken \<leftarrow> handle_take_session;
          send_reply api r (ReplyTaken taken);
          ret ()
        })
      | CmdAdopt session sess load r \<Rightarrow>
          go_on (finish_op api r ReplyUnit (handle_adopt api session sess load))
      | CmdShutdown \<Rightarrow> turn_exit api
      | CmdUpdateEndpoint host hostname port \<Rightarrow> go_on (turn_update_endpoint api host hostname port)
      | CmdLoad request r \<Rightarrow> go_on (turn_load api request r)
      | CmdSetVolume level r \<Rightarrow> set_aside (turn_set_volume api level r)
      | CmdGetVolume r \<Rightarrow> go_on (finish_op api r ReplyVolume (handle_get_volume api))
      | CmdStop r \<Rightarrow> go_on (finish_op api r ReplyUnit (handle_stop api))
      | CmdPause queued_at r \<Rightarrow> go_on (finish_op api r ReplyPlayback (handle_pause_cmd api))
      | CmdPlay r \<Rightarrow> go_on (finish_op api r ReplyUnit (handle_play api))
      | CmdMediaStatus r \<Rightarrow> go_on (finish_op api r ReplyPlayback (handle_media_status api))
      | CmdStopBestEffort r \<Rightarrow> go_on (turn_stop_best_effort api r)
      | CmdUpdateMetadata track \<Rightarrow> set_aside (turn_metadata api track))"

definition worker_turn :: "'e cast_api \<Rightarrow> cast_cmd option \<Rightarrow> ('e, turn_end) cast" where
  "worker_turn api pending =
     (case pending of
        Some cmd \<Rightarrow> handle_command api cmd
      | None \<Rightarrow> do {
          wait \<leftarrow> next_loop_wait api;
          r \<leftarrow> recv_timeout api wait;
          (case r of
             GotCmd cmd \<Rightarrow> handle_command api cmd
           | RecvTimeout \<Rightarrow> go_on (with_hard_deadline api (on_idle_tick api))
           | RecvDisconnected \<Rightarrow> turn_exit api)
        })"

text \<open>\<open>n\<close> turns of the loop, or fewer when the worker exits.\<close>

fun worker_loop :: "nat \<Rightarrow> 'e cast_api \<Rightarrow> cast_cmd option \<Rightarrow> ('e, turn_end) cast" where
  "worker_loop 0 api pending = ret (GoOn pending)"
| "worker_loop (Suc n) api pending = do {
     r \<leftarrow> worker_turn api pending;
     (case r of
        Exit \<Rightarrow> ret Exit
      | GoOn p \<Rightarrow> worker_loop n api p)
   }"

definition initial_worker ::
  "string \<Rightarrow> string \<Rightarrow> string \<Rightarrow> u16 \<Rightarrow> bool \<Rightarrow> bool \<Rightarrow> bool \<Rightarrow> bool \<Rightarrow> instant \<Rightarrow> 'e \<Rightarrow> 'e worker" where
  "initial_worker i host hostname port watch_lost watch_recovered watch_remote session_host now e =
     \<lparr>w_id = i, w_host = host, w_hostname = hostname, w_port = port, w_device = None,
      w_active = None, w_active_since = None, w_loss_streak = 0, w_buffering_streak = 0,
      w_watch_lost = watch_lost, w_watch_recovered = watch_recovered, w_watch_remote = watch_remote,
      w_tracker = default_tracker, w_next_probe_at = now, w_relay = None, w_last_load = None,
      w_last_load_at = None, w_reload_attempted = False, w_next_ping_at = now,
      w_reconnect_attempt = 0, w_unreachable_since = None, w_reachable = False,
      w_reachable_flag = False, w_terminal_flag = False, w_terminal_failed = False,
      w_stand_down = False, w_next_reconnect_at = now, w_last_parse_warn = None,
      w_logged_source_ip = False, w_join_running_app = session_host, w_queue = [], w_out = [],
      w_env = e\<rparr>"

definition worker_main :: "nat \<Rightarrow> 'e cast_api \<Rightarrow> ('e, turn_end) cast" where
  "worker_main turns api = do {
     ensure_connected api True;
     worker_loop turns api None
   }"

end
