(* ===== verification/Cast_Wf.thy ===== *)
theory Cast_Wf
  imports Cast_Loop
begin

text \<open>
  The invariant of a Cast worker and what its operations may touch. \<open>worker_ok\<close> has a connection half
  and a session half; \<open>conn_step\<close> and \<open>op_step\<close> are the frames of the connection operations and of the
  handlers. Each operation has one rule that concludes its weakest precondition, and a caller's proof
  applies the rules of what it calls.
\<close>

declare wp_simps [simp]

section \<open>The invariant\<close>

definition conn_ok :: "'e worker \<Rightarrow> bool" where
  "conn_ok s \<longleftrightarrow>
     w_reachable_flag s = w_reachable s \<and> w_terminal_flag s = w_terminal_failed s \<and>
     (w_terminal_failed s \<longrightarrow> w_device s = None \<and> \<not> w_reachable s) \<and>
     (w_device s \<noteq> None \<longrightarrow> w_reachable s)"

definition tracker_ok :: "media_session_ref option \<Rightarrow> remote_tracker \<Rightarrow> bool" where
  "tracker_ok active t \<longleftrightarrow>
     (rt_intent t \<noteq> None \<longleftrightarrow> active \<noteq> None) \<and> (rt_player_settle_until t \<noteq> None \<longleftrightarrow> active \<noteq> None) \<and>
     length (rt_commanded_levels t) \<le> VOLUME_ECHO_HISTORY"

definition sess_ok :: "'e worker \<Rightarrow> bool" where
  "sess_ok s \<longleftrightarrow>
     (w_active_since s \<noteq> None \<longleftrightarrow> w_active s \<noteq> None) \<and>
     (w_active s = None \<longrightarrow> w_loss_streak s = 0 \<and> w_buffering_streak s = 0 \<and> \<not> w_reload_attempted s) \<and>
     w_loss_streak s < OWNERSHIP_LOSS_CONFIRMATIONS \<and>
     tracker_ok (w_active s) (w_tracker s)"

definition worker_ok :: "'e worker \<Rightarrow> bool" where
  "worker_ok s \<longleftrightarrow> conn_ok s \<and> sess_ok s"

section \<open>Frames\<close>

fun is_traffic :: "worker_out \<Rightarrow> bool" where
  "is_traffic (Arrived c) = True"
| "is_traffic (Answered r v) = True"
| "is_traffic (Unheard r v) = True"
| "is_traffic _ = False"

fun is_wiring :: "worker_out \<Rightarrow> bool" where
  "is_wiring (Dialled h p) = True"
| "is_wiring (RelayClosed c) = True"
| "is_wiring _ = False"

fun is_dial :: "worker_out \<Rightarrow> bool" where
  "is_dial (Dialled h p) = True"
| "is_dial _ = False"

fun is_loss :: "worker_out \<Rightarrow> bool" where
  "is_loss (OwnershipLost i) = True"
| "is_loss _ = False"

definition session_of where
  "session_of s = (w_active s, w_active_since s, w_loss_streak s, w_buffering_streak s, w_tracker s,
     w_last_load s, w_last_load_at s, w_reload_attempted s, w_stand_down s)"

definition fixed_of where
  "fixed_of s = (w_id s, w_queue s, w_watch_lost s, w_watch_recovered s, w_watch_remote s,
     w_join_running_app s)"

definition terminal_step :: "'e worker \<Rightarrow> 'e worker \<Rightarrow> bool" where
  "terminal_step s t \<longleftrightarrow>
     (w_terminal_failed s \<longrightarrow> w_terminal_failed t \<and> filter is_dial (w_out t) = filter is_dial (w_out s))"

definition conn_step :: "'e worker \<Rightarrow> 'e worker \<Rightarrow> bool" where
  "conn_step s t \<longleftrightarrow>
     session_of t = session_of s \<and> fixed_of t = fixed_of s \<and>
     [x \<leftarrow> w_out t. \<not> is_wiring x] = [x \<leftarrow> w_out s. \<not> is_wiring x] \<and> terminal_step s t"

definition op_step :: "'e worker \<Rightarrow> 'e worker \<Rightarrow> bool" where
  "op_step s t \<longleftrightarrow>
     fixed_of t = fixed_of s \<and> filter is_traffic (w_out t) = filter is_traffic (w_out s) \<and>
     terminal_step s t"

definition no_loss :: "'e worker \<Rightarrow> 'e worker \<Rightarrow> bool" where
  "no_loss s t \<longleftrightarrow> filter is_loss (w_out t) = filter is_loss (w_out s)"

lemma terminal_step_refl [simp]: "terminal_step s s"
  by (simp add: terminal_step_def)

lemma conn_step_refl [simp]: "conn_step s s"
  by (simp add: conn_step_def)

lemma op_step_refl [simp]: "op_step s s"
  by (simp add: op_step_def)

lemma no_loss_refl [simp]: "no_loss s s"
  by (simp add: no_loss_def)

lemma terminal_step_trans: "terminal_step s t \<Longrightarrow> terminal_step t u \<Longrightarrow> terminal_step s u"
  by (simp add: terminal_step_def)

lemma conn_step_trans: "conn_step s t \<Longrightarrow> conn_step t u \<Longrightarrow> conn_step s u"
  by (auto simp: conn_step_def intro: terminal_step_trans)

lemma op_step_trans: "op_step s t \<Longrightarrow> op_step t u \<Longrightarrow> op_step s u"
  by (auto simp: op_step_def intro: terminal_step_trans)

lemma no_loss_trans: "no_loss s t \<Longrightarrow> no_loss t u \<Longrightarrow> no_loss s u"
  by (simp add: no_loss_def)

lemma filter_weaken:
  assumes "filter P xs = filter P ys" and "\<And>x. Q x \<Longrightarrow> P x"
  shows "filter Q xs = filter Q ys"
proof -
  have "filter Q zs = filter Q (filter P zs)" for zs
    using assms(2) by (auto simp: filter_filter intro: filter_cong)
  with assms(1) show ?thesis by metis
qed

lemma traffic_not_wiring: "is_traffic x \<Longrightarrow> \<not> is_wiring x"
  by (cases x) simp_all

lemma loss_not_wiring: "is_loss x \<Longrightarrow> \<not> is_wiring x"
  by (cases x) simp_all

lemma conn_op_step: "conn_step s t \<Longrightarrow> op_step s t"
  by (auto simp: conn_step_def op_step_def intro: filter_weaken [OF _ traffic_not_wiring])

lemma conn_no_loss: "conn_step s t \<Longrightarrow> no_loss s t"
  by (auto simp: conn_step_def no_loss_def intro: filter_weaken [OF _ loss_not_wiring])

lemma conn_stepD:
  assumes "conn_step s t"
  shows "w_active t = w_active s" "w_active_since t = w_active_since s"
    "w_loss_streak t = w_loss_streak s" "w_buffering_streak t = w_buffering_streak s"
    "w_tracker t = w_tracker s" "w_last_load t = w_last_load s" "w_last_load_at t = w_last_load_at s"
    "w_reload_attempted t = w_reload_attempted s" "w_stand_down t = w_stand_down s"
    "w_id t = w_id s" "w_queue t = w_queue s" "w_watch_lost t = w_watch_lost s"
    "w_watch_recovered t = w_watch_recovered s" "w_watch_remote t = w_watch_remote s"
  using assms by (auto simp: conn_step_def session_of_def fixed_of_def)

lemma op_stepD:
  assumes "op_step s t"
  shows "w_id t = w_id s" "w_queue t = w_queue s" "w_watch_lost t = w_watch_lost s"
    "w_watch_recovered t = w_watch_recovered s" "w_watch_remote t = w_watch_remote s"
  using assms by (auto simp: op_step_def fixed_of_def)

lemma sess_ok_conn: "conn_step s t \<Longrightarrow> sess_ok t = sess_ok s"
  by (simp add: sess_ok_def conn_stepD)

lemmas step_defs = conn_step_def op_step_def terminal_step_def session_of_def fixed_of_def no_loss_def

section \<open>Connection operations\<close>

lemma env_frame [simp]:
  "conn_ok (s\<lparr>w_env := e\<rparr>) = conn_ok s" "sess_ok (s\<lparr>w_env := e\<rparr>) = sess_ok s"
  "conn_step r (s\<lparr>w_env := e\<rparr>) = conn_step r s" "op_step r (s\<lparr>w_env := e\<rparr>) = op_step r s"
  "no_loss r (s\<lparr>w_env := e\<rparr>) = no_loss r s"
  "conn_step (s\<lparr>w_env := e\<rparr>) r = conn_step s r" "op_step (s\<lparr>w_env := e\<rparr>) r = op_step s r"
  "no_loss (s\<lparr>w_env := e\<rparr>) r = no_loss s r"
  by (simp_all add: conn_ok_def sess_ok_def step_defs)

text \<open>Calling a connection operation in the middle of a handler that started in \<open>r\<close>.\<close>

lemma conn_call:
  assumes "wp m (\<lambda>a u. conn_ok u \<and> conn_step s u \<and> P a u) s" and "conn_step r s"
    and "\<And>a u. conn_ok u \<Longrightarrow> conn_step r u \<Longrightarrow> P a u \<Longrightarrow> Q a u"
  shows "wp m Q s"
  using assms by (auto simp: wp_def intro: conn_step_trans)

lemma sync_relay_spec:
  "conn_ok s \<Longrightarrow> wp (sync_relay api) (\<lambda>_ t. conn_ok t \<and> conn_step s t \<and> w_device t = w_device s \<and>
     w_terminal_failed t = w_terminal_failed s) s"
  unfolding sync_relay_def
  by (simp add: wp_ask step_defs conn_ok_def split: option.split prod.split)

lemma shutdown_relay_slot_spec:
  "conn_ok s \<Longrightarrow> wp (shutdown_relay_slot api) (\<lambda>_ t. conn_ok t \<and> conn_step s t \<and>
     w_device t = w_device s \<and> w_terminal_failed t = w_terminal_failed s \<and> w_relay t = None) s"
  unfolding shutdown_relay_slot_def
  apply simp
  apply (rule wp_mono [OF sync_relay_spec], assumption)
  apply (simp add: step_defs conn_ok_def split: option.split)
  done

lemma lose_device_spec:
  "conn_ok s \<Longrightarrow> wp (lose_device api) (\<lambda>_ t. conn_ok t \<and> conn_step s t \<and> w_device t = None \<and>
     w_terminal_failed t = w_terminal_failed s) s"
  unfolding lose_device_def
  apply simp
  apply (rule wp_mono [OF shutdown_relay_slot_spec])
   apply (simp_all add: step_defs conn_ok_def)
  done

lemma note_reachable_spec:
  "conn_ok s \<Longrightarrow> \<not> w_terminal_failed s \<Longrightarrow>
   wp (note_reachable api) (\<lambda>_ t. conn_ok t \<and> conn_step s t \<and> w_device t = w_device s \<and>
     \<not> w_terminal_failed t) s"
  unfolding note_reachable_def
  by (simp add: wp_ask step_defs conn_ok_def split: prod.split)

lemma mark_terminal_failed_spec:
  "conn_ok s \<Longrightarrow> w_device s = None \<Longrightarrow>
   wp (mark_terminal_failed api) (\<lambda>_ t. conn_ok t \<and> conn_step s t \<and> w_device t = None) s"
  unfolding mark_terminal_failed_def
  by (simp add: wp_ask step_defs conn_ok_def split: prod.split)

lemma note_unreachable_spec:
  "conn_ok s \<Longrightarrow> w_device s = None \<Longrightarrow>
   wp (note_unreachable api err) (\<lambda>_ t. conn_ok t \<and> conn_step s t \<and> w_device t = None) s"
  unfolding note_unreachable_def
  apply (simp add: mark_terminal_failed_spec)
  apply (simp add: wp_ask step_defs conn_ok_def split: prod.split)
  done

lemma refresh_host_spec:
  "conn_ok s \<Longrightarrow> wp (refresh_host api) (\<lambda>_ t. conn_ok t \<and> conn_step s t \<and> w_device t = w_device s \<and>
     w_terminal_failed t = w_terminal_failed s) s"
  unfolding refresh_host_def
  by (simp add: wp_ask step_defs conn_ok_def split: prod.split option.split)

lemma connect_cast_device_spec:
  "conn_ok s \<Longrightarrow> w_device s = None \<Longrightarrow> \<not> w_terminal_failed s \<Longrightarrow>
   wp (connect_cast_device api host port) (\<lambda>r t. conn_ok t \<and> conn_step s t \<and> w_device t = None \<and>
     \<not> w_terminal_failed t) s"
  unfolding connect_cast_device_def
  apply (simp add: wp_ask split: prod.split sum.split)
  apply (intro allI impI conjI)
    apply (simp_all add: step_defs conn_ok_def)[2]
  apply (rule wp_mono [OF shutdown_relay_slot_spec])
   apply (simp_all add: step_defs conn_ok_def)
  done

lemma connect_failed_spec:
  "conn_ok s \<Longrightarrow> w_device s = None \<Longrightarrow>
   wp (connect_failed api err) (\<lambda>r t. conn_ok t \<and> conn_step s t \<and> w_device t = None \<and> r = Inl err) s"
  unfolding connect_failed_def
  apply simp
  apply (rule wp_mono [OF shutdown_relay_slot_spec], assumption)
  apply simp
  apply (rule wp_mono [OF note_unreachable_spec])
    apply (auto intro: conn_step_trans)
  done

definition connected :: "unit result \<Rightarrow> 'e worker \<Rightarrow> bool" where
  "connected r t \<longleftrightarrow> (case r of Inl _ \<Rightarrow> w_device t = None | Inr _ \<Rightarrow> w_device t \<noteq> None)"

lemma connected_simps [simp]:
  "connected (Inl e) t \<longleftrightarrow> w_device t = None"
  "connected (Inr u) t \<longleftrightarrow> w_device t \<noteq> None"
  by (simp_all add: connected_def)

lemma conn_device [simp]:
  "conn_step r (s\<lparr>w_device := d\<rparr>) = conn_step r s"
  "conn_step r (s\<lparr>w_next_ping_at := n\<rparr>) = conn_step r s"
  "conn_step r (s\<lparr>w_logged_source_ip := l\<rparr>) = conn_step r s"
  "conn_ok (s\<lparr>w_next_ping_at := n\<rparr>) = conn_ok s"
  "conn_ok (s\<lparr>w_logged_source_ip := l\<rparr>) = conn_ok s"
  by (simp_all add: conn_ok_def step_defs)

lemma greet_device_spec:
  "conn_ok s \<Longrightarrow> w_device s = None \<Longrightarrow> \<not> w_terminal_failed s \<Longrightarrow>
   wp (greet_device api c) (\<lambda>r t. conn_ok t \<and> conn_step s t \<and> connected r t) s"
  unfolding greet_device_def
  apply (simp add: wp_ask split: prod.split sum.split)
  apply (intro allI conjI impI)
    apply ((rule conn_call [OF connect_failed_spec, where r = s]; simp)
      | (simp add: note_reachable_def wp_ask conn_ok_def step_defs split: prod.split))+
  done

lemma connect_now_spec:
  "conn_ok s \<Longrightarrow> w_device s = None \<Longrightarrow> \<not> w_terminal_failed s \<Longrightarrow>
   wp (connect_now api) (\<lambda>r t. conn_ok t \<and> conn_step s t \<and> connected r t) s"
  unfolding connect_now_def
  apply simp
  apply (rule conn_call [OF refresh_host_spec, where r = s]; simp add: wp_ask split: prod.split)
  apply (intro allI impI)
  apply (rule conn_call [OF connect_cast_device_spec, where r = s]; simp split: sum.split)
  apply (intro allI conjI impI)
   apply (rule conn_call [OF note_unreachable_spec, where r = s]; simp)
  apply (rule conn_call [OF greet_device_spec, where r = s]; simp)
  done

lemma ensure_connected_spec:
  "conn_ok s \<Longrightarrow> wp (ensure_connected api force) (\<lambda>r t. conn_ok t \<and> conn_step s t \<and> connected r t) s"
  unfolding ensure_connected_def
  apply (simp add: wp_ask split: prod.split)
  apply (intro allI conjI impI; (rule conn_call [OF connect_now_spec, where r = s])?; simp add: conn_ok_def)
  done

end
