(* ===== verification/Cast_Wf_Handlers.thy ===== *)
theory Cast_Wf_Handlers
  imports Cast_Wf
begin

text \<open>
  Every command handler of the Cast worker keeps the invariant and the frame of a handler, with what
  its callers rely on: whether the session survives, and that no handler announces a lost session.
\<close>

section \<open>Session bookkeeping\<close>

lemma worker_ok_split: "worker_ok s \<Longrightarrow> conn_ok s" "worker_ok s \<Longrightarrow> sess_ok s"
  by (simp_all add: worker_ok_def)

lemma worker_ok_env [simp]: "worker_ok (s\<lparr>w_env := e\<rparr>) = worker_ok s"
  by (simp add: worker_ok_def)

lemma out_frame [simp]:
  "worker_ok (s\<lparr>w_out := os\<rparr>) = worker_ok s"
  "\<not> is_traffic x \<Longrightarrow> \<not> is_dial x \<Longrightarrow> op_step r (s\<lparr>w_out := w_out s @ [x]\<rparr>) = op_step r s"
  "\<not> is_loss x \<Longrightarrow> no_loss r (s\<lparr>w_out := w_out s @ [x]\<rparr>) = no_loss r s"
  by (simp_all add: worker_ok_def conn_ok_def sess_ok_def step_defs)

lemma tracker_clear [simp]: "tracker_ok None (clear_player t) \<longleftrightarrow> length (rt_commanded_levels t) \<le> VOLUME_ECHO_HISTORY"
  by (simp add: tracker_ok_def clear_player_def)

lemma tracker_expect [simp]:
  "tracker_ok (Some x) (expect_player i now t) \<longleftrightarrow> length (rt_commanded_levels t) \<le> VOLUME_ECHO_HISTORY"
  by (simp add: tracker_ok_def expect_player_def)

lemma tracker_levels: "tracker_ok b t \<Longrightarrow> length (rt_commanded_levels t) \<le> VOLUME_ECHO_HISTORY"
  by (simp add: tracker_ok_def)

lemma tracker_note_volume [simp]: "tracker_ok b (note_volume l m t) = tracker_ok b t"
  by (simp add: tracker_ok_def note_volume_def)

lemma tracker_expect_volume [simp]: "tracker_ok b t \<Longrightarrow> tracker_ok b (expect_volume_command l now t)"
  by (auto simp: tracker_ok_def expect_volume_command_def Let_def VOLUME_ECHO_HISTORY_def)

lemma tracker_observe_player: "tracker_ok b t \<Longrightarrow> tracker_ok b (fst (observe_player st now t))"
  by (auto simp: tracker_ok_def observe_player_def split: option.split)

lemma tracker_observe_volume: "tracker_ok b t \<Longrightarrow> tracker_ok b (fst (observe_volume l m now t))"
  using length_dropWhile_le [of "\<lambda>(_, at). now - at > VOLUME_ECHO_WINDOW" "rt_commanded_levels t"]
  by (auto simp: tracker_ok_def observe_volume_def is_volume_echo_def Let_def split: option.split bool.split)

lemma clear_active_ok: "worker_ok s \<Longrightarrow> worker_ok (clear_active s)"
  by (auto simp: worker_ok_def conn_ok_def sess_ok_def clear_active_def OWNERSHIP_LOSS_CONFIRMATIONS_def
      dest: tracker_levels)

lemma clear_active_fields [simp]:
  "w_active (clear_active s) = None" "w_device (clear_active s) = w_device s"
  "w_id (clear_active s) = w_id s" "w_watch_lost (clear_active s) = w_watch_lost s"
  "w_out (clear_active s) = w_out s" "w_loss_streak (clear_active s) = 0"
  "w_queue (clear_active s) = w_queue s" "w_env (clear_active s) = w_env s"
  by (simp_all add: clear_active_def)

lemma clear_active_step [simp]:
  "op_step r (clear_active s) = op_step r s" "no_loss r (clear_active s) = no_loss r s"
  "op_step (clear_active s) r = op_step s r" "no_loss (clear_active s) r = no_loss s r"
  by (simp_all add: clear_active_def step_defs)

lemma wp_clear_active [simp]: "wp clear_active_session Q s = Q () (clear_active s)"
  by (simp add: clear_active_session_def)

lemma set_active_session_spec:
  "worker_ok s \<Longrightarrow> wp (set_active_session api session) (\<lambda>_ t. worker_ok t \<and> op_step s t \<and>
     no_loss s t \<and> w_active t = Some session \<and> w_loss_streak t = 0 \<and> w_device t = w_device s) s"
  unfolding set_active_session_def
  by (auto simp: wp_ask worker_ok_def conn_ok_def sess_ok_def step_defs OWNERSHIP_LOSS_CONFIRMATIONS_def
      split: prod.split dest: tracker_levels)

lemma worker_tracker: "worker_ok s \<Longrightarrow> tracker_ok (w_active s) (w_tracker s)"
  by (simp add: worker_ok_def sess_ok_def)

lemma worker_levels:
  "worker_ok s \<Longrightarrow> length (rt_commanded_levels (w_tracker s)) \<le> VOLUME_ECHO_HISTORY"
  by (blast dest: worker_tracker tracker_levels)

lemma tracker_frame: "worker_ok s \<Longrightarrow> worker_ok (s\<lparr>w_tracker := t\<rparr>) = tracker_ok (w_active s) t"
  by (simp add: worker_ok_def conn_ok_def sess_ok_def)

text \<open>Calling an operation in the middle of a handler that started in \<open>r\<close>.\<close>

lemma op_call:
  assumes "wp m (\<lambda>a u. worker_ok u \<and> op_step s u \<and> no_loss s u \<and> P a u) s"
    and "op_step r s" and "no_loss r s"
    and "\<And>a u. worker_ok u \<Longrightarrow> op_step r u \<Longrightarrow> no_loss r u \<Longrightarrow> P a u \<Longrightarrow> Q a u"
  shows "wp m Q s"
  using assms by (auto simp: wp_def intro: op_step_trans no_loss_trans)

lemma wire_call:
  assumes "\<And>a e. Q a (s\<lparr>w_env := e\<rparr>)"
  shows "wp (wire op f) Q s"
  using assms by (simp add: wire_def wp_ask split: prod.split)

lemma wp_the_device [simp]:
  "wp the_device Q s = (case w_device s of None \<Rightarrow> Q (Inl no_device_error) s | Some c \<Rightarrow> Q (Inr c) s)"
  by (simp add: the_device_def split: option.split)

text \<open>A connection operation called from a handler: the session fields are as before.\<close>

lemma conn_op_call:
  assumes "wp m (\<lambda>a u. conn_ok u \<and> conn_step s u \<and> P a u) s" and "worker_ok s"
    and "\<And>a u. worker_ok u \<Longrightarrow> conn_step s u \<Longrightarrow> op_step s u \<Longrightarrow> no_loss s u \<Longrightarrow> P a u \<Longrightarrow> Q a u"
  shows "wp m Q s"
  using assms
  by (auto simp: wp_def worker_ok_def sess_ok_conn intro: conn_op_step conn_no_loss)

lemma worker_conn: "worker_ok s \<Longrightarrow> conn_step s t \<Longrightarrow> conn_ok t \<Longrightarrow> worker_ok t"
  by (simp add: worker_ok_def sess_ok_conn)

section \<open>STOP\<close>

lemma connect_dests_spec:
  "conn_ok s \<Longrightarrow>
   wp (connect_dests api op c dests) (\<lambda>r t. conn_ok t \<and> conn_step s t \<and> True) s"
proof (induction dests arbitrary: s)
  case Nil
  then show ?case by simp
next
  case (Cons dest dests)
  then show ?case
    apply (simp add: wp_ask split: prod.split sum.split)
    apply (intro allI conjI impI)
     apply (rule conn_call [OF lose_device_spec, where r = s]; simp)
    apply (rule wp_mono, rule Cons.IH; simp)
    done
qed

declare connect_dests.simps [simp del]

lemma handle_stop_spec:
  assumes "worker_ok s"
  shows "wp (handle_stop api) (\<lambda>r t. worker_ok t \<and> op_step s t \<and> no_loss s t \<and> w_active t = None) s"
  using assms unfolding handle_stop_def
  apply (simp add: clear_active_ok split: option.split)
  apply (intro allI impI)
  apply (rule conn_op_call [OF connect_dests_spec])
    apply (simp_all add: clear_active_ok worker_ok_split)
  apply (auto simp: conn_stepD intro: wire_call split: sum.split)
  done

section \<open>LOAD\<close>

text \<open>The tracked session and the loss count are untouched.\<close>

definition same_media :: "'e worker \<Rightarrow> 'e worker \<Rightarrow> bool" where
  "same_media s t \<longleftrightarrow> w_active t = w_active s \<and> w_loss_streak t = w_loss_streak s"

lemma same_media_simps [simp]:
  "same_media s s" "same_media s (t\<lparr>w_env := e\<rparr>) = same_media s t"
  "same_media s (t\<lparr>w_out := os\<rparr>) = same_media s t" "same_media (s\<lparr>w_env := e\<rparr>) t = same_media s t"
  by (simp_all add: same_media_def)

lemma same_media_trans: "same_media s t \<Longrightarrow> same_media t u \<Longrightarrow> same_media s u"
  by (simp add: same_media_def)

lemma same_media_conn: "conn_step s t \<Longrightarrow> same_media s t"
  by (simp add: same_media_def conn_stepD)

text \<open>The frame of an operation that leaves the session alone.\<close>

definition calm :: "'e worker \<Rightarrow> 'e worker \<Rightarrow> bool" where
  "calm s t \<longleftrightarrow> op_step s t \<and> no_loss s t \<and> same_media s t"

lemma calm_refl [simp]: "calm s s"
  by (simp add: calm_def)

lemma calm_trans: "calm s t \<Longrightarrow> calm t u \<Longrightarrow> calm s u"
  by (auto simp: calm_def intro: op_step_trans no_loss_trans same_media_trans)

lemma calm_conn: "conn_step s t \<Longrightarrow> calm s t"
  by (simp add: calm_def conn_op_step conn_no_loss same_media_conn)

lemma calmD: "calm s t \<Longrightarrow> op_step s t" "calm s t \<Longrightarrow> no_loss s t" "calm s t \<Longrightarrow> same_media s t"
  by (simp_all add: calm_def)

lemma calm_frame [simp]:
  "calm s (t\<lparr>w_env := e\<rparr>) = calm s t" "calm (s\<lparr>w_env := e\<rparr>) t = calm s t"
  "\<not> is_traffic x \<Longrightarrow> \<not> is_dial x \<Longrightarrow> \<not> is_loss x \<Longrightarrow>
     calm s (t\<lparr>w_out := w_out t @ [x]\<rparr>) = calm s t"
  by (simp_all add: calm_def)

lemma calm_call:
  assumes "wp m (\<lambda>a u. worker_ok u \<and> calm s u \<and> P a u) s" and "calm r s"
    and "\<And>a u. worker_ok u \<Longrightarrow> calm r u \<Longrightarrow> P a u \<Longrightarrow> Q a u"
  shows "wp m Q s"
  using assms by (auto simp: wp_def intro: calm_trans)

lemma calm_conn_call:
  assumes "wp m (\<lambda>a u. conn_ok u \<and> conn_step s u \<and> P a u) s" and "worker_ok s" and "calm r s"
    and "\<And>a u. worker_ok u \<Longrightarrow> calm r u \<Longrightarrow> P a u \<Longrightarrow> Q a u"
  shows "wp m Q s"
  using assms by (simp add: wp_def) (meson calm_trans calm_conn worker_conn)

lemma running_media_receiver_call:
  "(\<And>a e. Q a (s\<lparr>w_env := e\<rparr>)) \<Longrightarrow> wp (running_media_receiver api c) Q s"
  by (simp add: running_media_receiver_def wp_ask split: prod.split)

lemma load_once_spec:
  "worker_ok s \<Longrightarrow> wp (load_once api media) (\<lambda>r t. worker_ok t \<and> calm s t \<and> True) s"
  unfolding load_once_def
  apply (simp split: option.split)
  apply (intro allI impI)
  apply (rule wire_call)
  apply (simp split: sum.split)
  apply (intro allI conjI impI)
   apply (rule running_media_receiver_call)
   apply (auto intro!: wire_call split: sum.split option.split)
  done

lemma stop_late_load_session_spec:
  assumes "worker_ok s"
  shows "wp (stop_late_load_session api session) (\<lambda>_ t. worker_ok t \<and> op_step s t \<and> no_loss s t \<and>
     w_active t = None) s"
proof -
  have "clear_active (s\<lparr>w_active := Some session\<rparr>) = clear_active s"
    by (simp add: clear_active_def)
  with assms show ?thesis
    unfolding stop_late_load_session_def handle_stop_def
    apply (simp split: option.split)
    apply (intro conjI allI impI)
     apply (simp add: clear_active_ok)
    apply (rule conn_op_call [OF connect_dests_spec])
      apply (simp_all add: clear_active_ok worker_ok_split)
    apply (auto simp: conn_stepD intro: wire_call split: sum.split)
    done
qed

definition load_kept :: "('e \<Rightarrow> bool \<times> 'e) \<Rightarrow> media_session_ref result \<Rightarrow> 'e worker \<Rightarrow> 'e worker \<Rightarrow> bool" where
  "load_kept abandoned r s t \<longleftrightarrow>
     (case r of
        Inr session \<Rightarrow> w_active t = Some session \<and> w_loss_streak t = 0
      | Inl _ \<Rightarrow> w_active t = None \<or> same_media s t) \<and>
     (\<forall>e. abandoned = never_abandoned \<longrightarrow> r = Inl e \<longrightarrow> same_media s t)"

lemma load_kept_simps [simp]:
  "load_kept abandoned (Inr session) s t \<longleftrightarrow> w_active t = Some session \<and> w_loss_streak t = 0"
  "same_media s t \<Longrightarrow> load_kept abandoned (Inl e) s t"
  by (simp_all add: load_kept_def)

lemma load_kept_stopped:
  "abandoned e = (True, e') \<Longrightarrow> w_active t = None \<Longrightarrow> load_kept abandoned (Inl err) s t"
  by (auto simp: load_kept_def never_abandoned_def)

lemma abandoned_error_wp [simp]: "wp abandoned_error Q s = Q (Inl (load_abandoned (w_id s))) s"
  by (simp add: abandoned_error_def)

lemma commit_load_session_spec:
  assumes "worker_ok s"
  shows "wp (commit_load_session api abandoned session) (\<lambda>r t. worker_ok t \<and> op_step s t \<and>
     no_loss s t \<and> load_kept abandoned r s t) s"
  using assms unfolding commit_load_session_def
  apply (simp add: wp_ask load_commit_decision_def split: prod.split)
  apply (intro allI impI conjI)
   apply (rule op_call [OF stop_late_load_session_spec, where r = s])
      apply (simp_all add: load_kept_stopped)
  apply (rule op_call [OF set_active_session_spec, where r = s])
     apply (simp_all add: wp_ask split: prod.split)
  apply (intro allI impI)
  apply (rule op_call [OF handle_stop_spec, where r = s])
     apply (simp_all add: load_kept_stopped)
  done

lemma load_kept_after: "same_media s t \<Longrightarrow> load_kept abandoned r t u \<Longrightarrow> load_kept abandoned r s u"
  by (auto simp: load_kept_def same_media_def split: sum.splits)

lemma load_error_kept: "calm s t \<Longrightarrow> op_step s t \<and> no_loss s t \<and> load_kept abandoned (Inl e) s t"
  by (simp add: calmD)

lemma handle_load_spec:
  assumes "worker_ok s"
  shows "wp (handle_load api request abandoned) (\<lambda>r t. worker_ok t \<and> op_step s t \<and> no_loss s t \<and>
     load_kept abandoned r s t) s"
proof -
  have commit: "wp (commit_load_session api abandoned session) (\<lambda>r u. worker_ok u \<and> op_step s u \<and>
      no_loss s u \<and> load_kept abandoned r s u) t"
    if "worker_ok t" "calm s t" for t session
    using that
    by (auto intro!: op_call [OF commit_load_session_spec, where r = s] intro: load_kept_after calmD)
  have mark: "worker_ok (s\<lparr>w_env := e, w_last_load := l, w_last_load_at := a\<rparr>)"
    "calm s (s\<lparr>w_env := e, w_last_load := l, w_last_load_at := a\<rparr>)" for e l a
    using assms by (simp_all add: worker_ok_def conn_ok_def sess_ok_def step_defs same_media_def calm_def)
  show ?thesis
    unfolding handle_load_def
    apply (simp add: wp_ask split: prod.split)
    apply (intro allI impI)
    apply (rule calm_call [OF load_once_spec, where r = s])
       apply (simp_all add: mark wp_ask commit load_error_kept split: sum.split prod.split)
    apply (intro allI impI)
    apply (rule calm_conn_call [OF lose_device_spec, where r = s])
       apply (simp_all add: worker_ok_split)
    apply (rule calm_conn_call [OF ensure_connected_spec, where r = s])
       apply (simp_all add: worker_ok_split wp_ask load_error_kept split: sum.split prod.split)
    apply (intro allI impI)
    apply (rule calm_call [OF load_once_spec, where r = s])
      apply (simp_all add: commit load_error_kept split: sum.split)
    done
qed

section \<open>Metadata and multizone\<close>

lemma handle_update_metadata_spec:
  "worker_ok s \<Longrightarrow> wp (handle_update_metadata api track) (\<lambda>_ t. worker_ok t \<and> calm s t \<and> True) s"
  unfolding handle_update_metadata_def
  by (auto simp: wp_ask worker_ok_def conn_ok_def sess_ok_def step_defs same_media_def calm_def
      split: option.split prod.split)

lemma connect_if_needed_spec:
  "conn_ok s \<Longrightarrow> wp (connect_if_needed api) (\<lambda>r t. conn_ok t \<and> conn_step s t \<and> connected r t) s"
  unfolding connect_if_needed_def by (simp add: ensure_connected_spec)

lemma multizone_request_spec:
  "worker_ok s \<Longrightarrow> wp (multizone_request api build parse) (\<lambda>_ t. worker_ok t \<and> calm s t \<and> True) s"
  unfolding multizone_request_def
  apply simp
  apply (rule calm_conn_call [OF connect_if_needed_spec, where r = s])
     apply (simp_all add: worker_ok_split split: sum.split option.split)
  apply (intro allI impI)
  apply (simp add: wp_ask split: prod.split)
  apply (intro allI impI)
  apply (rule wire_call)
  apply (simp add: wp_ask split: sum.split prod.split)
  done

lemma handle_set_playback_devices_spec:
  "worker_ok s \<Longrightarrow> wp (handle_set_playback_devices api request) (\<lambda>_ t. worker_ok t \<and> calm s t \<and> True) s"
  unfolding handle_set_playback_devices_def
  by (simp add: multizone_request_spec [simplified] no_session_error_def split: option.split)

lemma handle_multizone_status_spec:
  "worker_ok s \<Longrightarrow> wp (handle_multizone_status api) (\<lambda>_ t. worker_ok t \<and> calm s t \<and> True) s"
  unfolding handle_multizone_status_def by (rule multizone_request_spec)

section \<open>Handing a session over\<close>

lemma handle_take_session_spec:
  "worker_ok s \<Longrightarrow> wp handle_take_session (\<lambda>r t. worker_ok t \<and> op_step s t \<and> no_loss s t \<and>
     w_active t = None \<and> (r = None \<longleftrightarrow> w_active s = None) \<and> map_option fst r = w_active s \<and>
     w_out t = w_out s) s"
  unfolding handle_take_session_def
  apply (simp split: option.split)
  apply (auto dest!: clear_active_ok [of s])
   apply (simp_all add: worker_ok_def conn_ok_def sess_ok_def step_defs clear_active_def)
  done

lemma read_adopted_session_spec:
  "worker_ok s \<Longrightarrow> wp (read_adopted_session api session sess) (\<lambda>r t. worker_ok t \<and> calm s t \<and> True) s"
  unfolding read_adopted_session_def
  apply (simp split: option.split)
  apply (intro allI impI)
  apply (rule wire_call)
  apply (simp split: sum.split)
  apply (auto intro!: wire_call split: sum.split)
  done

lemma handle_adopt_spec:
  "worker_ok s \<Longrightarrow> wp (handle_adopt api session sess load) (\<lambda>r t. worker_ok t \<and> op_step s t \<and>
     no_loss s t \<and> True) s"
  unfolding handle_adopt_def
  apply simp
  apply (rule calm_conn_call [OF connect_if_needed_spec, where r = s])
     apply (simp_all add: worker_ok_split calmD split: sum.split)
  apply (intro allI impI)
  apply (rule calm_call [OF read_adopted_session_spec, where r = s])
    apply (simp_all add: drop_device_def wp_ask split: sum.split prod.split)
  apply (intro conjI allI impI)
   apply (rule conn_op_call [OF lose_device_spec])
     apply (simp_all add: worker_ok_split clear_active_ok)
   apply (auto intro: op_step_trans no_loss_trans dest: calmD)[1]
  apply (rule op_call [OF set_active_session_spec, where r = s])
     apply (simp_all add: worker_ok_def conn_ok_def sess_ok_def)
   apply (simp_all add: calm_def step_defs)
  done

section \<open>Volume\<close>

lemma calm_tracker [simp]: "calm r (s\<lparr>w_tracker := t\<rparr>) = calm r s"
  by (simp add: step_defs same_media_def calm_def)

lemma note_own_volume_wp [simp]:
  "wp (note_own_volume v req) Q s = Q () (s\<lparr>w_tracker :=
     note_volume (unwrap_or req (volume_level v)) (unwrap_or False (volume_muted v)) (w_tracker s)\<rparr>)"
  by (simp add: note_own_volume_def)

lemma reconnect_call:
  assumes "worker_ok s" and "calm r s"
    and "\<And>e t. worker_ok t \<Longrightarrow> calm r t \<Longrightarrow> Q (Inl e) t"
    and "\<And>c t. worker_ok t \<Longrightarrow> calm r t \<Longrightarrow> wp (k c) Q t"
  shows "wp (on_new_connection api k) Q s"
  using assms unfolding on_new_connection_def
  apply simp
  apply (rule calm_conn_call [OF lose_device_spec, where r = r])
     apply (simp_all add: worker_ok_split)
  apply (rule calm_conn_call [OF ensure_connected_spec, where r = r])
     apply (simp_all add: worker_ok_split split: sum.split option.split)
  done

lemma handle_set_volume_spec:
  "worker_ok s \<Longrightarrow> wp (handle_set_volume api level) (\<lambda>_ t. worker_ok t \<and> calm s t \<and> True) s"
  unfolding handle_set_volume_def Let_def
  apply simp
  apply (rule calm_conn_call [OF connect_if_needed_spec, where r = s])
     apply (simp_all add: worker_ok_split split: sum.split)
  apply (simp add: wp_ask tracker_frame worker_tracker split: prod.split option.split sum.split)
  apply (intro allI conjI impI)
  apply (rule reconnect_call [where r = s])
     apply (simp_all add: tracker_frame worker_tracker)
  apply (rule wire_call)
  apply (simp add: tracker_frame worker_tracker split: sum.split)
  done

lemma handle_get_volume_spec:
  "worker_ok s \<Longrightarrow> wp (handle_get_volume api) (\<lambda>_ t. worker_ok t \<and> calm s t \<and> True) s"
  unfolding handle_get_volume_def note_status_volume_def
  apply simp
  apply (rule calm_conn_call [OF connect_if_needed_spec, where r = s])
     apply (simp_all add: worker_ok_split split: sum.split)
  apply (simp add: wp_ask tracker_frame worker_tracker split: prod.split option.split sum.split)
  apply (intro allI conjI impI)
  apply (rule reconnect_call [where r = s])
     apply simp_all
  apply (rule wire_call)
  apply (simp add: tracker_frame worker_tracker split: sum.split)
  done

section \<open>PAUSE, PLAY and media status\<close>

lemma handle_pause_cmd_spec:
  "worker_ok s \<Longrightarrow> wp (handle_pause_cmd api) (\<lambda>_ t. worker_ok t \<and> calm s t \<and> True) s"
  unfolding handle_pause_cmd_def no_session_error_def
  apply (simp add: wp_ask tracker_frame worker_levels split: option.split prod.split)
  apply (intro allI conjI impI)
  apply (rule calm_conn_call [OF connect_dests_spec, where r = s])
     apply (simp_all add: worker_ok_split tracker_frame worker_levels)
  apply (auto intro!: wire_call split: sum.split)
  done

lemma handle_play_spec:
  "worker_ok s \<Longrightarrow> wp (handle_play api) (\<lambda>_ t. worker_ok t \<and> calm s t \<and> True) s"
  unfolding handle_play_def no_session_error_def
  apply (simp add: wp_ask tracker_frame worker_levels split: option.split prod.split)
  apply (intro allI conjI impI)
  apply (rule calm_conn_call [OF connect_dests_spec, where r = s])
     apply (simp_all add: worker_ok_split tracker_frame worker_levels)
  apply (auto intro!: wire_call split: sum.split)
  done

lemma handle_media_status_spec:
  "worker_ok s \<Longrightarrow> wp (handle_media_status api) (\<lambda>_ t. worker_ok t \<and> calm s t \<and> True) s"
  unfolding handle_media_status_def no_session_error_def
  by (auto intro!: wire_call split: sum.split option.split)

end
