(* ===== verification/Cast_Wf_Idle.thy ===== *)
theory Cast_Wf_Idle
  imports Cast_Wf_Handlers
begin

text \<open>
  The idle tick of the Cast worker keeps the invariant and announces a lost session only on the second
  consecutive signal (\<open>declared\<close>).
\<close>

section \<open>Observations\<close>

definition still_there :: "'e worker \<Rightarrow> 'e worker \<Rightarrow> bool" where
  "still_there s t \<longleftrightarrow> w_device t = w_device s \<and> w_stand_down t = w_stand_down s"

lemma still_there_simps [simp]:
  "still_there s s" "still_there s (t\<lparr>w_env := e\<rparr>) = still_there s t"
  "still_there s (t\<lparr>w_tracker := r\<rparr>) = still_there s t"
  "still_there s (t\<lparr>w_out := os\<rparr>) = still_there s t"
  "still_there s (t\<lparr>w_last_parse_warn := p\<rparr>) = still_there s t"
  "still_there (s\<lparr>w_env := e\<rparr>) t = still_there s t"
  by (simp_all add: still_there_def)

lemma still_there_trans: "still_there s t \<Longrightarrow> still_there t u \<Longrightarrow> still_there s u"
  by (simp add: still_there_def)

definition watched :: "'e worker \<Rightarrow> 'e worker \<Rightarrow> bool" where
  "watched s t \<longleftrightarrow> calm s t \<and> still_there s t"

lemma watched_simps [simp]:
  "watched s s" "watched s (t\<lparr>w_env := e\<rparr>) = watched s t"
  "watched s (t\<lparr>w_tracker := r\<rparr>) = watched s t"
  "watched (s\<lparr>w_env := e\<rparr>) t = watched s t"
  "\<not> is_traffic x \<Longrightarrow> \<not> is_dial x \<Longrightarrow> \<not> is_loss x \<Longrightarrow>
     watched s (t\<lparr>w_out := w_out t @ [x]\<rparr>) = watched s t"
  by (simp_all add: watched_def)

lemma watched_trans: "watched s t \<Longrightarrow> watched t u \<Longrightarrow> watched s u"
  by (auto simp: watched_def intro: calm_trans still_there_trans)

lemma watched_call:
  assumes "wp m (\<lambda>a u. worker_ok u \<and> watched s u \<and> P a u) s" and "watched r s"
    and "\<And>a u. worker_ok u \<Longrightarrow> watched r u \<Longrightarrow> P a u \<Longrightarrow> Q a u"
  shows "wp m Q s"
  using assms by (auto simp: wp_def intro: watched_trans)

lemma emit_remote_spec:
  "worker_ok s \<Longrightarrow> wp (emit_remote k) (\<lambda>_ t. worker_ok t \<and> watched s t \<and> True) s"
  by (simp add: emit_remote_def split: option.split)

lemma warn_parse_once_spec:
  "worker_ok s \<Longrightarrow> wp (warn_parse_once msg) (\<lambda>_ t. worker_ok t \<and> watched s t \<and> True) s"
  by (simp add: warn_parse_once_def worker_ok_def conn_ok_def sess_ok_def watched_def calm_def step_defs
      same_media_def)

lemma observe_media_entry_spec:
  "worker_ok s \<Longrightarrow> wp (observe_media_entry api entry) (\<lambda>_ t. worker_ok t \<and> watched s t \<and> True) s"
  unfolding observe_media_entry_def
  apply (simp add: wp_ask split: prod.split)
  apply (intro allI impI)
  subgoal for now e t' kind
    apply (rule watched_call [OF emit_remote_spec, where r = s])
      apply (simp_all add: tracker_frame)
    using tracker_observe_player [of "w_active s" "w_tracker s" "entry_player_state entry" now]
    apply (simp add: worker_tracker)
    done
  done

lemma observe_receiver_volume_spec:
  "worker_ok s \<Longrightarrow> wp (observe_receiver_volume api v) (\<lambda>_ t. worker_ok t \<and> watched s t \<and> True) s"
  unfolding observe_receiver_volume_def
  apply (simp add: wp_ask split: prod.split option.split)
  apply (intro allI impI)
  subgoal for level now e t' kind
    apply (rule watched_call [OF emit_remote_spec, where r = s])
      apply (simp_all add: tracker_frame)
    using tracker_observe_volume [of "w_active s" "w_tracker s" level "unwrap_or False (volume_muted v)" now]
    apply (simp add: worker_tracker)
    done
  done

lemma drain_loop_call:
  "(\<And>a e. Q a (s\<lparr>w_env := e\<rparr>)) \<Longrightarrow> wp (drain_loop api c ours n entry volume) Q s"
proof (induction n arbitrary: s entry volume)
  case 0
  from 0 [of "(None, entry, volume)" "w_env s"] show ?case by simp
next
  case (Suc n)
  have IH: "wp (drain_loop api c ours n entry volume) Q (s\<lparr>w_env := e\<rparr>)" for e entry volume
    by (rule Suc.IH) (simp add: Suc.prems)
  show ?case
    by (simp add: wp_ask IH Suc.prems split: prod.split sum.split channel_message.split)
qed

lemma optional_spec:
  assumes "worker_ok s"
    and "\<And>y t. worker_ok t \<Longrightarrow> wp (f y) (\<lambda>_ u. worker_ok u \<and> watched t u \<and> True) t"
  shows "wp (case x of None \<Rightarrow> ret () | Some y \<Rightarrow> f y) (\<lambda>_ u. worker_ok u \<and> watched s u \<and> True) s"
  using assms by (cases x) auto

lemma drain_unsolicited_spec:
  "worker_ok s \<Longrightarrow> wp (drain_unsolicited api) (\<lambda>_ t. worker_ok t \<and> watched s t \<and> True) s"
  unfolding drain_unsolicited_def
  apply (simp split: option.split del: wp_option)
  apply (intro allI impI)
  apply (rule drain_loop_call)
  apply (simp split: prod.split del: wp_option)
  apply (intro allI impI)
  apply (rule watched_call [OF optional_spec, where r = s])
     apply (simp_all add: warn_parse_once_spec [simplified] del: wp_option)
  apply (rule watched_call [OF optional_spec, where r = s])
     apply (simp_all add: observe_media_entry_spec [simplified] del: wp_option)
  apply (rule watched_call [OF optional_spec, where r = s])
     apply (simp_all add: observe_receiver_volume_spec [simplified])
  done

section \<open>Loss signals\<close>

definition loss_entry :: "'e worker \<Rightarrow> worker_out list" where
  "loss_entry s = (if w_watch_lost s then [OwnershipLost (w_id s)] else [])"

definition declared :: "'e worker \<Rightarrow> 'e worker \<Rightarrow> bool" where
  "declared s t \<longleftrightarrow>
     w_loss_streak s = 1 \<and> w_active s \<noteq> None \<and> w_active t = None \<and>
     filter is_loss (w_out t) = filter is_loss (w_out s) @ loss_entry s"

lemma declared_env [simp]:
  "declared s (t\<lparr>w_env := e\<rparr>) = declared s t" "declared (s\<lparr>w_env := e\<rparr>) t = declared s t"
  by (simp_all add: declared_def loss_entry_def)

lemma declared_after: "calm r s \<Longrightarrow> declared s t \<Longrightarrow> declared r t"
  by (auto simp: declared_def calm_def same_media_def no_loss_def loss_entry_def op_stepD)

lemma streak_cases: "worker_ok s \<Longrightarrow> w_loss_streak s = 0 \<or> w_loss_streak s = 1"
proof -
  assume "worker_ok s"
  then have "unat (w_loss_streak s) < 2"
    by (simp add: worker_ok_def sess_ok_def OWNERSHIP_LOSS_CONFIRMATIONS_def word_less_nat_alt)
  then have "unat (w_loss_streak s) = 0 \<or> unat (w_loss_streak s) = 1" by linarith
  then show ?thesis by (auto simp: word_unat_eq_iff)
qed

lemma streak_next [simp]:
  "saturating_add (0::u8) 1 = 1" "saturating_add (1::u8) 1 = 2" "\<not> (2::u8) \<le> 1" "(1::u8) < 2"
  by (simp_all add: saturating_add_def word_le_nat_alt word_less_nat_alt)

lemma one_more_signal:
  "worker_ok s \<Longrightarrow> w_active s \<noteq> None \<Longrightarrow> w_loss_streak s = 0 \<Longrightarrow> worker_ok (s\<lparr>w_loss_streak := 1\<rparr>)"
  by (auto simp: worker_ok_def conn_ok_def sess_ok_def OWNERSHIP_LOSS_CONFIRMATIONS_def)

lemma declare_ownership_lost_wp [simp]:
  "wp declare_ownership_lost Q s =
     Q () ((clear_active s)\<lparr>w_out := w_out s @ loss_entry s\<rparr>)"
  by (cases s) (simp add: declare_ownership_lost_def loss_entry_def clear_active_def)

lemma declare_frame:
  "worker_ok s \<Longrightarrow> w_loss_streak s = 1 \<Longrightarrow> w_active s \<noteq> None \<Longrightarrow>
     worker_ok ((clear_active (s\<lparr>w_loss_streak := n\<rparr>))\<lparr>w_out := w_out s @ loss_entry s\<rparr>) \<and>
     op_step s ((clear_active (s\<lparr>w_loss_streak := n\<rparr>))\<lparr>w_out := w_out s @ loss_entry s\<rparr>) \<and>
     declared s ((clear_active (s\<lparr>w_loss_streak := n\<rparr>))\<lparr>w_out := w_out s @ loss_entry s\<rparr>)"
  by (auto simp: worker_ok_def conn_ok_def sess_ok_def clear_active_def OWNERSHIP_LOSS_CONFIRMATIONS_def
      step_defs declared_def loss_entry_def dest: tracker_levels)

lemma note_lost_signal_spec:
  assumes "worker_ok s" and "w_active s \<noteq> None"
  shows "wp note_lost_signal (\<lambda>_ t. worker_ok t \<and> op_step s t \<and> (no_loss s t \<or> declared s t)) s"
  using streak_cases [OF assms(1)]
proof
  assume "w_loss_streak s = 0"
  with one_more_signal [OF assms] show ?thesis
    by (simp add: note_lost_signal_def OWNERSHIP_LOSS_CONFIRMATIONS_def step_defs)
next
  assume one: "w_loss_streak s = 1"
  have "loss_entry (s\<lparr>w_loss_streak := 2\<rparr>) = loss_entry s" by (simp add: loss_entry_def)
  with one declare_frame [OF assms(1) one assms(2), of 2] show ?thesis
    by (simp add: note_lost_signal_def OWNERSHIP_LOSS_CONFIRMATIONS_def)
qed

text \<open>A failed PING either leaves the session alone, or costs the connection.\<close>

definition pinged :: "'e worker \<Rightarrow> 'e worker \<Rightarrow> bool" where
  "pinged s t \<longleftrightarrow> calm s t \<or> (no_loss s t \<and> w_device t = None) \<or> declared s t"

lemma streak_frame [simp]:
  "op_step r (t\<lparr>w_loss_streak := n\<rparr>) = op_step r t" "no_loss r (t\<lparr>w_loss_streak := n\<rparr>) = no_loss r t"
  "loss_entry (t\<lparr>w_loss_streak := n\<rparr>) = loss_entry t"
  by (simp_all add: step_defs loss_entry_def)

lemma failed_ping_spec:
  assumes "worker_ok u" and "calm s u" and "w_device u = None" and "w_active u \<noteq> None"
  shows "wp count_failed_ping (\<lambda>_ t. worker_ok t \<and> op_step s t \<and> pinged s t) u"
  using streak_cases [OF assms(1)]
proof
  assume "w_loss_streak u = 0"
  with one_more_signal [OF assms(1,4)] assms show ?thesis
    by (simp add: count_failed_ping_def OWNERSHIP_LOSS_CONFIRMATIONS_def pinged_def calmD)
next
  assume one: "w_loss_streak u = 1"
  with declare_frame [OF assms(1) one assms(4), of 2] assms show ?thesis
    by (auto simp: count_failed_ping_def OWNERSHIP_LOSS_CONFIRMATIONS_def pinged_def intro: op_step_trans calmD declared_after)
qed

lemma next_at_frame [simp]:
  "worker_ok (t\<lparr>w_next_ping_at := n\<rparr>) = worker_ok t" "calm r (t\<lparr>w_next_ping_at := n\<rparr>) = calm r t"
  "worker_ok (t\<lparr>w_next_probe_at := n\<rparr>) = worker_ok t" "watched r (t\<lparr>w_next_probe_at := n\<rparr>) = watched r t"
  "calm r (t\<lparr>w_next_probe_at := n\<rparr>) = calm r t" "op_step r (t\<lparr>w_next_probe_at := n\<rparr>) = op_step r t"
  "no_loss r (t\<lparr>w_next_probe_at := n\<rparr>) = no_loss r t"
  by (simp_all add: worker_ok_def conn_ok_def sess_ok_def step_defs same_media_def calm_def watched_def
      still_there_def)

lemma heartbeat_ping_spec:
  assumes "worker_ok s"
  shows "wp (heartbeat_ping api) (\<lambda>_ t. worker_ok t \<and> op_step s t \<and> pinged s t) s"
  using assms unfolding heartbeat_ping_def
  apply (simp add: wp_ask calmD pinged_def split: option.split prod.split sum.split)
  apply (intro allI conjI impI)
  apply (rule calm_conn_call [OF lose_device_spec, where r = s])
     apply (simp_all add: worker_ok_split)
  apply (rule calm_conn_call [OF ensure_connected_spec, where r = s])
     apply (simp_all add: worker_ok_split calmD split: sum.split)
  using failed_ping_spec [of _ s] by (auto simp: pinged_def)

section \<open>The ownership probe\<close>

lemma probe_transport_listed_spec:
  "worker_ok s \<Longrightarrow> wp (probe_transport_listed api tr) (\<lambda>_ t. worker_ok t \<and> watched s t \<and> True) s"
  unfolding probe_transport_listed_def
  apply (simp add: wp_ask split: option.split prod.split sum.split)
  apply (intro allI conjI impI)
   apply (rule watched_call [OF warn_parse_once_spec, where r = s]; simp)
  apply (rule watched_call [OF observe_receiver_volume_spec, where r = s]; simp)
  done

lemma probe_media_session_spec:
  "worker_ok s \<Longrightarrow> wp (probe_media_session api tr m) (\<lambda>_ t. worker_ok t \<and> watched s t \<and> True) s"
  unfolding probe_media_session_def
  apply (simp add: wp_ask split: option.split prod.split sum.split)
  apply (intro allI conjI impI)
   apply (rule watched_call [OF warn_parse_once_spec, where r = s]; simp)
  apply (rule watched_call [OF observe_media_entry_spec, where r = s]; simp)
  done

lemma try_internal_reload_spec:
  "worker_ok s \<Longrightarrow> wp (try_internal_reload api) (\<lambda>ok t. worker_ok t \<and> op_step s t \<and> no_loss s t \<and>
     (if ok then w_active t \<noteq> None else same_media s t)) s"
  unfolding try_internal_reload_def
  apply (simp split: option.split)
  apply (intro allI impI)
  apply (rule op_call [OF handle_load_spec, where r = s])
     apply (auto simp: load_kept_def split: sum.splits)
  done

lemma act_on_ownership_spec:
  assumes "worker_ok s" and "w_active s \<noteq> None"
  shows "wp (act_on_ownership api action) (\<lambda>_ t. worker_ok t \<and> op_step s t \<and> (no_loss s t \<or> declared s t)) s"
proof (cases action)
  case Owned
  with assms show ?thesis
    by (auto simp: act_on_ownership_def worker_ok_def conn_ok_def sess_ok_def step_defs
        OWNERSHIP_LOSS_CONFIRMATIONS_def)
next
  case LostSignal
  with note_lost_signal_spec [OF assms] show ?thesis by (simp add: act_on_ownership_def)
next
  case Inconclusive
  with assms show ?thesis by (simp add: act_on_ownership_def)
next
  case SuspectReconnect
  with assms show ?thesis
    apply (simp add: act_on_ownership_def)
    apply (rule calm_conn_call [OF lose_device_spec, where r = s])
       apply (simp_all add: worker_ok_split)
    apply (rule calm_conn_call [OF ensure_connected_spec, where r = s])
       apply (simp_all add: worker_ok_split calmD)
    done
next
  case AttemptReload
  have failed: "wp note_lost_signal (\<lambda>_ t. worker_ok t \<and> op_step s t \<and> (no_loss s t \<or> declared s t))
      (u\<lparr>w_reload_attempted := True\<rparr>)"
    if u: "worker_ok u" "op_step s u" "no_loss s u" "same_media s u" for u
  proof -
    have "worker_ok (u\<lparr>w_reload_attempted := True\<rparr>)" "w_active (u\<lparr>w_reload_attempted := True\<rparr>) \<noteq> None"
      using u assms by (auto simp: worker_ok_def conn_ok_def sess_ok_def same_media_def)
    from note_lost_signal_spec [OF this]
    show ?thesis
    proof (rule wp_mono)
      fix a :: unit and t
      assume t: "worker_ok t \<and> op_step (u\<lparr>w_reload_attempted := True\<rparr>) t \<and>
        (no_loss (u\<lparr>w_reload_attempted := True\<rparr>) t \<or> declared (u\<lparr>w_reload_attempted := True\<rparr>) t)"
      have "op_step u t" "no_loss u t \<or> declared u t"
        using t by (auto simp: step_defs declared_def loss_entry_def)
      with t u show "worker_ok t \<and> op_step s t \<and> (no_loss s t \<or> declared s t)"
        by (auto intro: op_step_trans no_loss_trans declared_after simp: calm_def)
    qed
  qed
  have recovered: "worker_ok (u\<lparr>w_reload_attempted := False, w_loss_streak := 0, w_buffering_streak := 0\<rparr>)"
    "op_step s (u\<lparr>w_reload_attempted := False, w_loss_streak := 0, w_buffering_streak := 0\<rparr>)"
    "no_loss s (u\<lparr>w_reload_attempted := False, w_loss_streak := 0, w_buffering_streak := 0\<rparr>)"
    if "worker_ok u" "op_step s u" "no_loss s u" "w_active u \<noteq> None" for u
    using that by (auto simp: worker_ok_def conn_ok_def sess_ok_def step_defs OWNERSHIP_LOSS_CONFIRMATIONS_def)
  show ?thesis
    using AttemptReload assms
    apply (simp add: act_on_ownership_def reload_attempted_after_internal_reload_def)
    apply (rule op_call [OF try_internal_reload_spec, where r = s])
       apply (simp_all split: if_splits)
    using failed recovered apply simp_all
    done
qed

definition quiet_or_declared :: "'e worker \<Rightarrow> 'e worker \<Rightarrow> bool" where
  "quiet_or_declared s t \<longleftrightarrow> op_step s t \<and> (no_loss s t \<or> declared s t)"

lemma quiet_after: "calm s t \<Longrightarrow> quiet_or_declared t u \<Longrightarrow> quiet_or_declared s u"
  by (auto simp: quiet_or_declared_def intro: op_step_trans no_loss_trans declared_after calmD)

lemma quiet_idle_refl [simp]: "calm s t \<Longrightarrow> quiet_or_declared s t"
  by (simp add: quiet_or_declared_def calmD)

lemma buffering_frame:
  "worker_ok u \<Longrightarrow> w_active u \<noteq> None \<Longrightarrow> worker_ok (u\<lparr>w_buffering_streak := n\<rparr>)"
  "calm r (u\<lparr>w_buffering_streak := n\<rparr>) = calm r u"
  by (auto simp: worker_ok_def conn_ok_def sess_ok_def step_defs same_media_def calm_def)

lemma watchedD: "watched s t \<Longrightarrow> calm s t" "watched s t \<Longrightarrow> w_device t = w_device s"
  "watched s t \<Longrightarrow> w_active t = w_active s" "watched s t \<Longrightarrow> w_stand_down t = w_stand_down s"
  by (simp_all add: watched_def still_there_def calm_def same_media_def)

lemma probe_ownership_spec:
  assumes "worker_ok s" and "w_active s \<noteq> None"
  shows "wp (probe_ownership api session) (\<lambda>_ t. worker_ok t \<and> quiet_or_declared s t) s"
proof -
  have act: "wp (act_on_ownership api action) (\<lambda>_ t. worker_ok t \<and> quiet_or_declared s t) u"
    if "worker_ok u" "calm s u" for u action
  proof -
    have "w_active u \<noteq> None" using that(2) assms(2) by (simp add: calm_def same_media_def)
    from act_on_ownership_spec [OF that(1) this, of api action]
    show ?thesis by (rule wp_mono) (use that(2) in \<open>auto simp: quiet_or_declared_def intro: quiet_after [unfolded quiet_or_declared_def]
        op_step_trans no_loss_trans declared_after calmD\<close>)
  qed
  show ?thesis
    using assms unfolding probe_ownership_def
    apply simp
    apply (rule watched_call [OF probe_transport_listed_spec, where r = s])
      apply simp_all
    apply (rule watched_call [OF probe_media_session_spec, where r = s])
      apply (simp_all add: wp_ask split: prod.split)
    apply (intro allI conjI impI; rule act)
       apply (auto simp: buffering_frame watchedD)
    done
qed

lemma stood_down_frame:
  "worker_ok s \<Longrightarrow> worker_ok (s\<lparr>w_stand_down := b\<rparr>)" "calm r (s\<lparr>w_stand_down := b\<rparr>) = calm r s"
  "worker_ok s \<Longrightarrow> worker_ok (s\<lparr>w_stand_down := b, w_loss_streak := 0, w_buffering_streak := 0\<rparr>)"
  "op_step r (s\<lparr>w_stand_down := b\<rparr>) = op_step r s" "no_loss r (s\<lparr>w_stand_down := b\<rparr>) = no_loss r s"
  "op_step r (s\<lparr>w_stand_down := b, w_loss_streak := 0, w_buffering_streak := 0\<rparr>) = op_step r s"
  "no_loss r (s\<lparr>w_stand_down := b, w_loss_streak := 0, w_buffering_streak := 0\<rparr>) = no_loss r s"
  by (auto simp: worker_ok_def conn_ok_def sess_ok_def step_defs same_media_def calm_def
      OWNERSHIP_LOSS_CONFIRMATIONS_def)

text \<open>A worker that was told to stand down, or that has nothing to watch, stays silent.\<close>

lemma check_ownership_spec:
  assumes "worker_ok s"
  shows "wp (check_ownership api) (\<lambda>_ t. worker_ok t \<and> quiet_or_declared s t \<and>
     (w_stand_down s \<or> w_active s = None \<or> w_device s = None \<longrightarrow> no_loss s t) \<and>
     (w_active s = None \<longrightarrow> w_active t = None)) s"
proof -
  have probe: "wp (probe_ownership api session) (\<lambda>_ t. worker_ok t \<and> quiet_or_declared s t) u"
    if "worker_ok u" "calm s u" "w_active s = Some session" for u session
  proof -
    have "w_active u \<noteq> None" using that(2,3) by (simp add: calm_def same_media_def)
    from probe_ownership_spec [OF that(1) this]
    show ?thesis by (rule wp_mono) (use that in \<open>auto intro: quiet_after\<close>)
  qed
  have silent: "quiet_or_declared s
      (s\<lparr>w_env := e, w_stand_down := b, w_loss_streak := 0, w_buffering_streak := 0\<rparr>)" for e b
    by (simp add: quiet_or_declared_def stood_down_frame)
  show ?thesis
    using assms unfolding check_ownership_def stand_down_now_def
    apply (simp add: wp_ask ownership_probe_stands_down_def stood_down_frame silent
        split: option.split prod.split)
    apply (intro allI conjI impI)
    apply (rule wp_mono [OF probe])
       apply (auto simp: stood_down_frame)
    done
qed

section \<open>The tick\<close>

lemma on_idle_tick_spec:
  assumes "worker_ok s"
  shows "wp (on_idle_tick api) (\<lambda>_ t. worker_ok t \<and> quiet_or_declared s t \<and>
     (w_device s = None \<longrightarrow> no_loss s t)) s"
proof -
  have probe: "wp (check_ownership api) (\<lambda>_ t. worker_ok t \<and> quiet_or_declared s t) u"
    if u: "worker_ok u" "op_step s u" "pinged s u" for u
  proof (rule wp_mono [OF check_ownership_spec [OF u(1)]])
    fix a :: unit and t
    assume t: "worker_ok t \<and> quiet_or_declared u t \<and>
      (w_stand_down u \<or> w_active u = None \<or> w_device u = None \<longrightarrow> no_loss u t) \<and>
      (w_active u = None \<longrightarrow> w_active t = None)"
    from u(3) consider "calm s u" | "no_loss s u" "w_device u = None" | "declared s u"
      by (auto simp: pinged_def)
    then have "quiet_or_declared s t"
    proof cases
      case 1
      with t show ?thesis by (blast intro: quiet_after)
    next
      case 2
      with t u(2) show ?thesis
        by (auto simp: quiet_or_declared_def intro: op_step_trans no_loss_trans)
    next
      case 3
      then have none: "w_active u = None" by (simp add: declared_def)
      with t have "no_loss u t" "w_active t = None" by auto
      with 3 have "declared s t" by (simp add: declared_def no_loss_def)
      with t u(2) show ?thesis by (auto simp: quiet_or_declared_def intro: op_step_trans)
    qed
    with t show "worker_ok t \<and> quiet_or_declared s t" by simp
  qed
  show ?thesis
  proof (cases "w_device s")
    case None
    then show ?thesis
      using assms unfolding on_idle_tick_def
      apply (simp add: wp_ask calmD split: prod.split)
      apply (intro allI conjI impI)
      apply (rule calm_conn_call [OF ensure_connected_spec, where r = s])
         apply (simp_all add: worker_ok_split calmD)
      done
  next
    case (Some c)
    have rest: "wp (probe_if_due api) (\<lambda>_ t. worker_ok t \<and> quiet_or_declared s t) u"
      if u: "worker_ok u" "op_step s u" "pinged s u" for u
    proof -
      have "quiet_or_declared s u"
        using u(2,3) by (auto simp: pinged_def quiet_or_declared_def calmD)
      then have q: "quiet_or_declared s (u\<lparr>w_env := e\<rparr>)" for e
        by (simp add: quiet_or_declared_def)
      have p: "pinged s (u\<lparr>w_env := e, w_next_probe_at := n\<rparr>)" for e n
        using u(3) by (auto simp: pinged_def declared_def loss_entry_def)
      show ?thesis using u q p by (simp add: probe_if_due_def wp_ask probe split: prod.split)
    qed
    have ping: "wp (heartbeat_ping api) (\<lambda>_. wp (probe_if_due api)
        (\<lambda>_ t. worker_ok t \<and> quiet_or_declared s t)) u"
      if "worker_ok u" "calm s u" for u
    proof (rule wp_mono [OF heartbeat_ping_spec [OF that(1)]])
      fix a :: unit and t
      assume "worker_ok t \<and> op_step u t \<and> pinged u t"
      with that show "wp (probe_if_due api) (\<lambda>_ t. worker_ok t \<and> quiet_or_declared s t) t"
        by (intro rest) (auto simp: pinged_def intro: op_step_trans no_loss_trans calm_trans declared_after calmD)
    qed
    have "wp (on_idle_tick api) (\<lambda>_ t. worker_ok t \<and> quiet_or_declared s t) s"
      using assms Some unfolding on_idle_tick_def
      apply simp
      apply (rule watched_call [OF drain_unsolicited_spec, where r = s])
        apply (simp_all add: wp_ask split: prod.split)
      apply (auto intro!: ping rest dest: watchedD simp: pinged_def calmD)
      done
    then show ?thesis by (rule wp_mono) (simp add: Some)
  qed
qed

end
