(* ===== verification/Cast_Wf_Loop.thy ===== *)
theory Cast_Wf_Loop
  imports Cast_Wf_Idle
begin

text \<open>
  The main loop of the Cast worker: the ledger of arrived and answered commands, and one rule per turn.
  \<open>ledger rs s\<close> says that what arrived is what was answered, then \<open>rs\<close> (the replies the current turn
  still owes), then what is queued, in this order.
\<close>

section \<open>The ledger\<close>

fun reply_of :: "cast_cmd \<Rightarrow> reply_id list" where
  "reply_of (CmdUpdateEndpoint _ _ _) = []"
| "reply_of (CmdLoad _ r) = [r]"
| "reply_of (CmdSetVolume _ r) = [r]"
| "reply_of (CmdGetVolume r) = [r]"
| "reply_of (CmdStop r) = [r]"
| "reply_of (CmdPause _ r) = [r]"
| "reply_of (CmdPlay r) = [r]"
| "reply_of (CmdMediaStatus r) = [r]"
| "reply_of (CmdStopBestEffort r) = [r]"
| "reply_of (CmdUpdateMetadata _) = []"
| "reply_of (CmdSetPlaybackDevices _ r) = [r]"
| "reply_of (CmdMultizoneStatus r) = [r]"
| "reply_of (CmdTakeSession r) = [r]"
| "reply_of (CmdAdopt _ _ _ r) = [r]"
| "reply_of CmdShutdown = []"

definition replies_of :: "cast_cmd list \<Rightarrow> reply_id list" where
  "replies_of cmds = concat (map reply_of cmds)"

fun arrived_one :: "worker_out \<Rightarrow> reply_id list" where
  "arrived_one (Arrived c) = reply_of c"
| "arrived_one _ = []"

fun answered_one :: "worker_out \<Rightarrow> reply_id list" where
  "answered_one (Answered r _) = [r]"
| "answered_one (Unheard r _) = [r]"
| "answered_one _ = []"

definition arrived_ids :: "worker_out list \<Rightarrow> reply_id list" where
  "arrived_ids out = concat (map arrived_one out)"

definition answered_ids :: "worker_out list \<Rightarrow> reply_id list" where
  "answered_ids out = concat (map answered_one out)"

definition ledger :: "reply_id list \<Rightarrow> 'e worker \<Rightarrow> bool" where
  "ledger rs s \<longleftrightarrow> arrived_ids (w_out s) = answered_ids (w_out s) @ rs @ replies_of (w_queue s)"

definition pending_cmds :: "cast_cmd option \<Rightarrow> cast_cmd list" where
  "pending_cmds p = (case p of None \<Rightarrow> [] | Some c \<Rightarrow> [c])"

lemma pending_cmds_simps [simp]: "pending_cmds None = []" "pending_cmds (Some c) = [c]"
  by (simp_all add: pending_cmds_def)

lemma replies_of_simps [simp]:
  "replies_of [] = []" "replies_of (c # cs) = reply_of c @ replies_of cs"
  "replies_of (cs @ ds) = replies_of cs @ replies_of ds"
  by (simp_all add: replies_of_def)

lemma ids_append [simp]:
  "arrived_ids (xs @ ys) = arrived_ids xs @ arrived_ids ys"
  "answered_ids (xs @ ys) = answered_ids xs @ answered_ids ys"
  "arrived_ids (map Arrived cs) = replies_of cs" "answered_ids (map Arrived cs) = []"
  "arrived_ids [Answered r v] = []" "answered_ids [Answered r v] = [r]"
  "arrived_ids [Unheard r v] = []" "answered_ids [Unheard r v] = [r]"
  by (simp_all add: arrived_ids_def answered_ids_def replies_of_def o_def)

lemma ids_traffic:
  "arrived_ids out = arrived_ids (filter is_traffic out)"
  "answered_ids out = answered_ids (filter is_traffic out)"
proof (induction out)
  case (Cons x out)
  case 1
  with Cons show ?case by (cases x) (simp_all add: arrived_ids_def)
  case 2
  with Cons show ?case by (cases x) (simp_all add: answered_ids_def)
qed (simp_all add: arrived_ids_def answered_ids_def)

lemma ledger_op: "op_step s t \<Longrightarrow> ledger rs t = ledger rs s"
  unfolding ledger_def using ids_traffic [of "w_out s"] ids_traffic [of "w_out t"]
  by (simp add: op_step_def fixed_of_def)

lemma ledger_env [simp]: "ledger rs (s\<lparr>w_env := e\<rparr>) = ledger rs s"
  by (simp add: ledger_def)

section \<open>Turns\<close>

text \<open>
  What every command keeps: the invariant, the permanence of a terminal failure, and silence about
  ownership. \<open>due rs\<close> adds what is still owed.
\<close>

definition cmd_step :: "'e worker \<Rightarrow> 'e worker \<Rightarrow> bool" where
  "cmd_step s t \<longleftrightarrow> terminal_step s t \<and> no_loss s t"

lemma cmd_step_refl [simp]: "cmd_step s s"
  by (simp add: cmd_step_def)

lemma cmd_step_trans: "cmd_step s t \<Longrightarrow> cmd_step t u \<Longrightarrow> cmd_step s u"
  by (auto simp: cmd_step_def intro: terminal_step_trans no_loss_trans)

lemma cmd_step_op: "op_step s t \<Longrightarrow> no_loss s t \<Longrightarrow> cmd_step s t"
  by (simp add: cmd_step_def op_step_def)

lemma cmd_step_frame [simp]:
  "cmd_step s (t\<lparr>w_env := e\<rparr>) = cmd_step s t" "cmd_step s (t\<lparr>w_queue := q\<rparr>) = cmd_step s t"
  "worker_ok (t\<lparr>w_queue := q\<rparr>) = worker_ok t"
  by (simp_all add: cmd_step_def step_defs worker_ok_def conn_ok_def sess_ok_def)

definition due :: "reply_id list \<Rightarrow> 'e worker \<Rightarrow> 'e worker \<Rightarrow> bool" where
  "due rs s t \<longleftrightarrow> worker_ok t \<and> ledger rs t \<and> cmd_step s t"

lemma due_op: "due rs r s \<Longrightarrow> worker_ok t \<Longrightarrow> op_step s t \<Longrightarrow> no_loss s t \<Longrightarrow> due rs r t"
  unfolding due_def using ledger_op [of s t rs] by (blast intro: cmd_step_trans cmd_step_op)

lemma due_env [simp]: "due rs r (s\<lparr>w_env := e\<rparr>) = due rs r s"
  by (simp add: due_def)

lemma due_ok: "due rs r s \<Longrightarrow> worker_ok s"
  by (simp add: due_def)

lemma due_call:
  assumes "due rs r s" and "wp m (\<lambda>a u. worker_ok u \<and> op_step s u \<and> no_loss s u \<and> P a u) s"
    and "\<And>a u. due rs r u \<Longrightarrow> P a u \<Longrightarrow> Q a u"
  shows "wp m Q s"
  using assms by (auto simp: wp_def intro: due_op)

lemma calm_spec_op:
  "wp m (\<lambda>a u. worker_ok u \<and> calm s u \<and> P a u) s \<Longrightarrow>
   wp m (\<lambda>a u. worker_ok u \<and> op_step s u \<and> no_loss s u \<and> P a u) s"
  by (erule wp_mono) (simp add: calmD)

lemma send_reply_call:
  assumes "due (i # rs) r s"
    and "\<And>heard e x. x = (if heard then Answered i v else Unheard i v) \<Longrightarrow>
      due rs r (s\<lparr>w_env := e, w_out := w_out s @ [x]\<rparr>) \<Longrightarrow>
      Q heard (s\<lparr>w_env := e, w_out := w_out s @ [x]\<rparr>)"
  shows "wp (send_reply api i v) Q s"
proof -
  have "due rs r (s\<lparr>w_env := e, w_out := w_out s @ [Answered i v]\<rparr>)"
    and "due rs r (s\<lparr>w_env := e, w_out := w_out s @ [Unheard i v]\<rparr>)" for e
    using assms(1) by (auto simp: due_def ledger_def cmd_step_def step_defs)
  then show ?thesis
    using assms(2) [where heard = True] assms(2) [where heard = False]
    by (auto simp: send_reply_def wp_ask split: prod.split)
qed

lemma no_device_frame [simp]:
  "op_step r (t\<lparr>w_device := d\<rparr>) = op_step r t" "no_loss r (t\<lparr>w_device := d\<rparr>) = no_loss r t"
  by (simp_all add: step_defs)

lemma no_device_ok: "worker_ok t \<Longrightarrow> worker_ok (t\<lparr>w_device := None\<rparr>)"
  by (simp add: worker_ok_def conn_ok_def sess_ok_def)

lemma deadline_call:
  assumes "due rs r s" and "wp m (\<lambda>a u. worker_ok u \<and> op_step s u \<and> no_loss s u \<and> P a u) s"
    and "\<And>a u t. due rs r t \<Longrightarrow> P a u \<Longrightarrow> conn_step u t \<Longrightarrow> Q a t"
  shows "wp (with_hard_deadline api m) Q s"
  unfolding with_hard_deadline_def
  apply simp
  apply (rule due_call [OF assms(1,2)])
  apply (simp add: wp_ask assms(3) apply_hard_deadline_device_clear_def split: prod.split)
  apply (intro allI conjI impI)
   apply (rule conn_op_call [OF sync_relay_spec])
     apply (simp_all add: due_ok worker_ok_split)
   apply (rule assms(3))
     apply (rule due_op, assumption)
       apply (simp_all add: no_device_ok)
  done

lemma finish_op_spec:
  assumes "due (i # rs) r s"
    and "wp op (\<lambda>a u. worker_ok u \<and> op_step s u \<and> no_loss s u \<and> P a u) s"
  shows "wp (finish_op api i wrap op) (\<lambda>_ t. due rs r t) s"
  unfolding finish_op_def
  apply simp
  apply (rule deadline_call [OF assms])
  apply (erule send_reply_call)
  apply simp
  done

lemma stop_if_active_spec:
  assumes "due rs r s"
  shows "wp (stop_if_active api) (\<lambda>_ t. due rs r t \<and> w_active t = None) s"
  using assms unfolding stop_if_active_def
  apply simp
  apply (intro impI)
  apply (rule deadline_call [OF assms handle_stop_spec])
   apply (simp_all add: due_ok conn_stepD)
  done

definition load_outcome :: "reply_id \<Rightarrow> 'e worker \<Rightarrow> 'e worker \<Rightarrow> bool" where
  "load_outcome i s t \<longleftrightarrow>
     w_active t = None \<or> w_active t = w_active s \<or>
     (\<exists>session. w_active t = Some session \<and> Answered i (ReplySession (Inr session)) \<in> set (w_out t))"

lemma deliver_load_spec:
  assumes "due (i # rs) r u"
    and "w_active u = None \<or> w_active u = w_active s \<or>
      (\<exists>session. result = Inr session \<and> w_active u = Some session)"
  shows "wp (deliver_load api i result) (\<lambda>_ t. due rs r t \<and> load_outcome i s t) u"
  unfolding deliver_load_def
  apply simp
  apply (rule send_reply_call [OF assms(1)])
  subgoal for heard e x
  proof (cases heard)
    case True
    assume "x = (if heard then Answered i (ReplySession result) else Unheard i (ReplySession result))"
      "due rs r (u\<lparr>w_env := e, w_out := w_out u @ [x]\<rparr>)"
    with True assms(2) show ?thesis by (auto simp: load_outcome_def)
  next
    case False
    assume d: "due rs r (u\<lparr>w_env := e, w_out := w_out u @ [x]\<rparr>)"
    from False show ?thesis
      by simp (rule wp_mono [OF stop_if_active_spec [OF d]], simp add: load_outcome_def)
  qed
  done

lemma turn_load_spec:
  assumes "due (i # rs) r s"
  shows "wp (turn_load api request i) (\<lambda>_ t. due rs r t \<and> load_outcome i s t) s"
  unfolding turn_load_def
  apply simp
  apply (rule deadline_call [OF assms handle_load_spec])
   apply (simp add: due_ok [OF assms])
  apply (simp add: wp_ask split: prod.split)
  apply (intro allI conjI impI)
   apply (rule wp_mono [OF stop_if_active_spec], simp)
   apply simp
   apply (rule deliver_load_spec)
    apply simp_all
  apply (rule deliver_load_spec)
   apply (auto simp: load_kept_def same_media_def conn_stepD split: sum.splits)
  done

section \<open>The other commands\<close>

lemma reply_all_spec:
  "due (is @ rs) r s \<Longrightarrow> wp (reply_all api is v) (\<lambda>_ t. due rs r t) s"
proof (induction "is" arbitrary: s)
  case Nil
  then show ?case by simp
next
  case (Cons i "is")
  then show ?case
    apply simp
    apply (rule send_reply_call)
     apply (auto intro: Cons.IH)
    done
qed

lemma coalesce_set_volume_ids:
  "coalesce_set_volume level is q = ((level', is', p), rest) \<Longrightarrow>
     is' @ replies_of (pending_cmds p @ rest) = is @ replies_of q"
proof (induction level "is" q rule: coalesce_set_volume.induct)
  case (2 level "is" c q)
  then show ?case by (cases c) auto
qed auto

lemma coalesce_metadata_ids:
  "coalesce_metadata latest q = ((latest', p), rest) \<Longrightarrow> replies_of (pending_cmds p @ rest) = replies_of q"
proof (induction latest q rule: coalesce_metadata.induct)
  case (2 latest c q)
  then show ?case by (cases c) auto
qed auto

lemma arrivals_call:
  assumes "due rs r s"
    and "\<And>cmds e t. t = s\<lparr>w_env := e, w_queue := w_queue s @ cmds, w_out := w_out s @ map Arrived cmds\<rparr> \<Longrightarrow>
      due rs r t \<Longrightarrow> w_active t = w_active s \<Longrightarrow> w_device t = w_device s \<Longrightarrow>
      w_loss_streak t = w_loss_streak s \<Longrightarrow> w_watch_lost t = w_watch_lost s \<Longrightarrow> w_id t = w_id s \<Longrightarrow>
      filter is_loss (w_out t) = filter is_loss (w_out s) \<Longrightarrow>
      w_queue t = w_queue s @ cmds \<Longrightarrow> Q () t"
  shows "wp (accept_arrivals api wait) Q s"
proof -
  have [simp]: "filter is_loss (map Arrived cmds) = []" "filter is_dial (map Arrived cmds) = []" for cmds
    by (induction cmds) simp_all
  have "due rs r (s\<lparr>w_env := e, w_queue := w_queue s @ cmds, w_out := w_out s @ map Arrived cmds\<rparr>)" for e cmds
    using assms(1)
    by (auto simp: due_def ledger_def cmd_step_def step_defs worker_ok_def conn_ok_def sess_ok_def)
  then show ?thesis
    unfolding accept_arrivals_def by (simp add: wp_ask assms(2) split: prod.split)
qed

lemma queue_split:
  assumes "due rs r s" and "rs' @ replies_of q = rs @ replies_of (w_queue s)"
  shows "due rs' r (s\<lparr>w_queue := q\<rparr>)"
  using assms by (simp add: due_def ledger_def)

lemma turn_set_volume_spec:
  assumes "due [i] r s"
  shows "wp (turn_set_volume api level i) (\<lambda>p t. due (replies_of (pending_cmds p)) r t) s"
  unfolding turn_set_volume_def
  apply simp
  apply (rule arrivals_call [OF assms])
  apply (simp split: prod.split)
  apply (intro allI impI)
  subgoal premises prems for cmds e level' "is'" p rest
  proof -
    have d: "due (is' @ replies_of (pending_cmds p)) r
        (s\<lparr>w_env := e, w_out := w_out s @ map Arrived cmds, w_queue := rest\<rparr>)"
      using queue_split [OF prems(1), of "is' @ replies_of (pending_cmds p)" rest]
        coalesce_set_volume_ids [OF prems(2)] by simp
    show ?thesis
      by (rule deadline_call [OF d calm_spec_op [OF handle_set_volume_spec [OF due_ok [OF d]]]])
        (erule reply_all_spec)
  qed
  done

lemma turn_metadata_spec:
  assumes "due [] r s"
  shows "wp (turn_metadata api track) (\<lambda>p t. due (replies_of (pending_cmds p)) r t) s"
  unfolding turn_metadata_def
  apply simp
  apply (rule arrivals_call [OF assms])
  apply (simp split: prod.split)
  apply (intro allI impI)
  subgoal premises prems for cmds e latest p rest
  proof -
    have d: "due (replies_of (pending_cmds p)) r
        (s\<lparr>w_env := e, w_out := w_out s @ map Arrived cmds, w_queue := rest\<rparr>)"
      using queue_split [OF prems(1), of "replies_of (pending_cmds p)" rest]
        coalesce_metadata_ids [OF prems(2)] by simp
    show ?thesis
      by (rule deadline_call [OF d calm_spec_op [OF handle_update_metadata_spec [OF due_ok [OF d]]]])
  qed
  done

lemma due_clear: "due rs r s \<Longrightarrow> due rs r (clear_active s)"
  by (rule due_op, assumption) (simp_all add: clear_active_ok due_ok)

lemma turn_stop_best_effort_spec:
  assumes "due (i # rs) r s"
  shows "wp (turn_stop_best_effort api i) (\<lambda>_ t. due rs r t \<and> w_active t = None) s"
  unfolding turn_stop_best_effort_def
  apply simp
  apply (rule deadline_call [OF assms handle_stop_spec])
   apply (simp_all add: due_ok [OF assms])
  apply (rule send_reply_call)
   apply (rule due_clear, assumption)
  apply simp
  done

lemma turn_update_endpoint_spec:
  assumes "due rs r s"
  shows "wp (turn_update_endpoint api host hostname port) (\<lambda>_ t. due rs r t) s"
proof -
  have moved: "due rs r (s\<lparr>w_host := host, w_hostname := hostname, w_port := port\<rparr>)"
    using assms by (rule due_op)
      (use due_ok [OF assms] in \<open>simp_all add: worker_ok_def conn_ok_def sess_ok_def step_defs\<close>)
  have again: "due rs r (u\<lparr>w_env := e, w_reconnect_attempt := 0, w_next_reconnect_at := n\<rparr>)"
    if "due rs r u" for u e n
    using that by (rule due_op)
      (use due_ok [OF that] in \<open>simp_all add: worker_ok_def conn_ok_def sess_ok_def step_defs\<close>)
  have clear: "due rs r (clear_active (s\<lparr>w_host := host, w_hostname := hostname, w_port := port\<rparr>))"
    by (rule due_clear [OF moved])
  have conn: "wp (ensure_connected api True) (\<lambda>_ t. due rs r t) u" if "due rs r u" for u
    by (rule conn_op_call [OF ensure_connected_spec])
      (use that in \<open>auto simp: due_ok worker_ok_split intro: due_op\<close>)
  have lose: "wp (lose_device api) (\<lambda>_ t. due rs r t) u" if "due rs r u" for u
    by (rule conn_op_call [OF lose_device_spec])
      (use that in \<open>auto simp: due_ok worker_ok_split intro: due_op\<close>)
  show ?thesis
    unfolding turn_update_endpoint_def drop_device_def
    apply (simp add: moved)
    apply (intro impI)
    apply (rule wp_mono [OF lose [OF clear]])
    apply (simp add: wp_ask conn again split: prod.split)
    done
qed

lemma drop_device_spec:
  assumes "due rs r s"
  shows "wp (drop_device api) (\<lambda>_ t. due rs r t) s"
  unfolding drop_device_def
  apply simp
  apply (rule conn_op_call [OF lose_device_spec])
    apply (use due_clear [OF assms] in \<open>auto simp: due_ok worker_ok_split intro: due_op\<close>)
  done

section \<open>One turn\<close>

definition owed_after :: "turn_end \<Rightarrow> reply_id list" where
  "owed_after te = (case te of GoOn p \<Rightarrow> replies_of (pending_cmds p) | Exit \<Rightarrow> [])"

lemma owed_after_simps [simp]:
  "owed_after (GoOn p) = replies_of (pending_cmds p)" "owed_after Exit = []"
  by (simp_all add: owed_after_def)

lemma go_on_call:
  "wp m (\<lambda>_ t. due [] r t) s \<Longrightarrow> wp (go_on m) (\<lambda>te t. due (owed_after te) r t) s"
  by (simp add: go_on_def)

lemma set_aside_call:
  "wp m (\<lambda>p t. due (replies_of (pending_cmds p)) r t) s \<Longrightarrow>
   wp (set_aside m) (\<lambda>te t. due (owed_after te) r t) s"
  by (simp add: set_aside_def)

lemma turn_exit_spec:
  "due [] r s \<Longrightarrow> wp (turn_exit api) (\<lambda>te t. due (owed_after te) r t) s"
  by (simp add: turn_exit_def drop_device_spec)

lemma handle_command_spec:
  assumes "due (reply_of cmd) r s"
  shows "wp (handle_command api cmd) (\<lambda>te t. due (owed_after te) r t) s"
proof -
  note ok = due_ok [OF assms]
  note fin = go_on_call [OF finish_op_spec [OF _ calm_spec_op]] go_on_call [OF finish_op_spec]
  show ?thesis
  proof (cases cmd)
    case (CmdUpdateEndpoint host hostname port)
    with assms show ?thesis by (simp add: handle_command_def go_on_call turn_update_endpoint_spec)
  next
    case (CmdLoad request i)
    with assms have "wp (turn_load api request i) (\<lambda>_ t. due [] r t) s"
      by (intro wp_mono [OF turn_load_spec]) auto
    with CmdLoad show ?thesis by (simp add: handle_command_def go_on_call)
  next
    case (CmdSetVolume level i)
    with assms show ?thesis by (simp add: handle_command_def set_aside_call turn_set_volume_spec)
  next
    case (CmdGetVolume i)
    with assms ok show ?thesis by (simp add: handle_command_def fin(1) [OF _ handle_get_volume_spec])
  next
    case (CmdStop i)
    with assms ok show ?thesis by (simp add: handle_command_def fin(2) [OF _ handle_stop_spec])
  next
    case (CmdPause at i)
    with assms ok show ?thesis by (simp add: handle_command_def fin(1) [OF _ handle_pause_cmd_spec])
  next
    case (CmdPlay i)
    with assms ok show ?thesis by (simp add: handle_command_def fin(1) [OF _ handle_play_spec])
  next
    case (CmdMediaStatus i)
    with assms ok show ?thesis by (simp add: handle_command_def fin(1) [OF _ handle_media_status_spec])
  next
    case (CmdStopBestEffort i)
    with assms have "wp (turn_stop_best_effort api i) (\<lambda>_ t. due [] r t) s"
      by (intro wp_mono [OF turn_stop_best_effort_spec]) auto
    with CmdStopBestEffort show ?thesis by (simp add: handle_command_def go_on_call)
  next
    case (CmdUpdateMetadata track)
    with assms show ?thesis by (simp add: handle_command_def set_aside_call turn_metadata_spec)
  next
    case (CmdSetPlaybackDevices request i)
    with assms ok show ?thesis
      by (simp add: handle_command_def fin(1) [OF _ handle_set_playback_devices_spec])
  next
    case (CmdMultizoneStatus i)
    with assms ok show ?thesis
      by (simp add: handle_command_def fin(1) [OF _ handle_multizone_status_spec])
  next
    case (CmdTakeSession i)
    have "wp handle_take_session (\<lambda>taken. wp (send_reply api i (ReplyTaken taken))
        (\<lambda>_ t. due [] r t)) s"
      by (rule due_call [OF _ handle_take_session_spec [OF ok]])
        (use assms CmdTakeSession in \<open>auto intro: send_reply_call\<close>)
    with CmdTakeSession show ?thesis by (simp add: handle_command_def go_on_call)
  next
    case (CmdAdopt session sess load i)
    with assms ok show ?thesis by (simp add: handle_command_def fin(2) [OF _ handle_adopt_spec])
  next
    case CmdShutdown
    with assms show ?thesis by (simp add: handle_command_def turn_exit_spec)
  qed
qed

text \<open>A turn that announces a loss is an idle tick: \<open>declared\<close> tells from which state.\<close>

definition turned :: "'e worker \<Rightarrow> turn_end \<Rightarrow> 'e worker \<Rightarrow> bool" where
  "turned s te t \<longleftrightarrow>
     worker_ok t \<and> ledger (owed_after te) t \<and> terminal_step s t \<and>
     (no_loss s t \<or> (declared s t \<and> w_device s \<noteq> None))"

lemma due_turned: "due (owed_after te) s t \<Longrightarrow> turned s te t"
  by (simp add: due_def turned_def cmd_step_def)

lemma tick_turn_spec:
  assumes "due [] s u" and "w_active u = w_active s" and "w_device u = w_device s"
    and "w_loss_streak u = w_loss_streak s" and "loss_entry u = loss_entry s"
    and "filter is_loss (w_out u) = filter is_loss (w_out s)"
  shows "wp (go_on (with_hard_deadline api (on_idle_tick api))) (turned s) u"
proof -
  have settled: "turned s (GoOn None) v"
    if t: "worker_ok t" "quiet_or_declared u t" "w_device u = None \<longrightarrow> no_loss u t"
      and v: "worker_ok v" "op_step t v" "no_loss t v" "w_active v = w_active t" for t v
  proof -
    have op: "op_step u v" and "no_loss u v \<or> declared u v" and "w_device u = None \<longrightarrow> no_loss u v"
      using t v by (auto simp: quiet_or_declared_def declared_def no_loss_def intro: op_step_trans)
    moreover have "no_loss u v \<Longrightarrow> no_loss s v" "declared u v \<Longrightarrow> declared s v"
      using assms by (simp_all add: no_loss_def declared_def)
    moreover have "ledger [] v" using assms(1) op by (simp add: due_def ledger_op)
    moreover have "terminal_step s v"
      using assms(1) op by (auto simp: due_def cmd_step_def op_step_def intro: terminal_step_trans)
    ultimately show ?thesis using v(1) assms(3) by (auto simp: turned_def)
  qed
  show ?thesis
    unfolding go_on_def with_hard_deadline_def
    apply simp
    apply (rule wp_mono [OF on_idle_tick_spec [OF due_ok [OF assms(1)]]])
    apply (simp add: wp_ask apply_hard_deadline_device_clear_def split: prod.split)
    apply (intro allI conjI impI)
    subgoal for t
      by (rule conn_op_call [OF sync_relay_spec])
        (auto simp: worker_ok_split conn_stepD no_device_ok intro!: settled [where t = t])
    subgoal for t by (rule settled [where t = t]) auto
    done
qed

lemma next_loop_wait_call: "(\<And>a e. Q a (s\<lparr>w_env := e\<rparr>)) \<Longrightarrow> wp (next_loop_wait api) Q s"
  by (simp add: next_loop_wait_def wp_ask split: prod.split)

lemma worker_turn_spec:
  assumes "worker_ok s" and "ledger (replies_of (pending_cmds p)) s"
  shows "wp (worker_turn api p) (turned s) s"
proof (cases p)
  case (Some cmd)
  with assms have "due (reply_of cmd) s s" by (simp add: due_def)
  from handle_command_spec [OF this, of api] Some show ?thesis
    by (simp add: worker_turn_def) (erule wp_mono, rule due_turned)
next
  case None
  have d: "due [] s (s\<lparr>w_env := e\<rparr>)" for e using assms None by (simp add: due_def)
  show ?thesis
    unfolding worker_turn_def recv_timeout_def
    apply (simp add: None)
    apply (rule next_loop_wait_call)
    apply (rule arrivals_call [OF d])
    subgoal premises prems for wait e cmds e' t
    proof (cases "w_queue t")
      case Nil
      have tick: "wp (go_on (with_hard_deadline api (on_idle_tick api))) (turned s) (t\<lparr>w_env := e''\<rparr>)" for e''
        by (rule tick_turn_spec) (use prems(2-) in \<open>simp_all add: loss_entry_def\<close>)
      have quit: "wp (turn_exit api) (turned s) (t\<lparr>w_env := e''\<rparr>)" for e''
        by (rule wp_mono [OF turn_exit_spec due_turned]) (use prems(2-) in simp_all)
      show ?thesis using tick quit by (simp add: Nil wp_ask split: prod.split)
    next
      case (Cons c rest)
      have "due (reply_of c) s (t\<lparr>w_queue := rest\<rparr>)"
        by (rule queue_split [OF prems(2)]) (simp add: Cons)
      from handle_command_spec [OF this, of api] show ?thesis
        by (simp add: Cons) (erule wp_mono, rule due_turned)
    qed
    done
qed

section \<open>Runs of the loop\<close>

lemma worker_loop_spec:
  assumes "worker_ok s" and "ledger (replies_of (pending_cmds p)) s"
  shows "wp (worker_loop n api p)
    (\<lambda>te t. worker_ok t \<and> ledger (owed_after te) t \<and> terminal_step s t) s"
  using assms
proof (induction n arbitrary: p s)
  case 0
  then show ?case by simp
next
  case (Suc n)
  show ?case
    apply simp
    apply (rule wp_mono [OF worker_turn_spec [OF Suc.prems]])
    subgoal for te t
    proof (cases te)
      case Exit
      assume "turned s te t"
      with Exit show ?thesis by (simp add: turned_def)
    next
      case (GoOn q)
      assume "turned s te t"
      with GoOn have t: "worker_ok t" "ledger (replies_of (pending_cmds q)) t" "terminal_step s t"
        by (simp_all add: turned_def)
      show ?thesis
        unfolding GoOn turn_end.case
        by (rule wp_mono [OF Suc.IH [OF t(1,2)]]) (use t(3) in \<open>auto intro: terminal_step_trans\<close>)
    qed
    done
qed

end
