(* ===== verification/Cast_Promises.thy ===== *)
theory Cast_Promises
  imports Cast_Wf_Loop
begin

text \<open>
  What a Cast worker promises to the pool and to the bridge (\<open>src/cast/pool.rs\<close>), for every behaviour of
  the device, the network, the clock and the other threads.
\<close>

section \<open>A device to run against\<close>

text \<open>A clock that moves ten milliseconds per reading, commands that arrive in batches, and a device
  that answers everything; \<open>alive\<close> says whether it can be reached.\<close>

type_synonym demo_env = "instant \<times> cast_cmd list list"

definition demo_app :: receiver_app where
  "demo_app = \<lparr>app_id = DEFAULT_MEDIA_RECEIVER_APP_ID, app_session_id = ''s'', app_transport_id = ''t'',
     app_namespaces = [MEDIA_NAMESPACE]\<rparr>"

definition demo_entry :: status_entry where
  "demo_entry = \<lparr>entry_media_session_id = 5, current_item_id = Some 1, entry_player_state = PlayerPlaying,
     entry_idle_reason = None, entry_current_time = None\<rparr>"

definition demo_volume :: receiver_volume where
  "demo_volume = \<lparr>volume_level = Some f32_one, volume_muted = Some False\<rparr>"

definition demo_wire :: "bool \<Rightarrow> 'a \<Rightarrow> 'e \<Rightarrow> (wire_error + 'a) \<times> 'e" where
  "demo_wire alive x e = (if alive then Inr x else Inl (WireIo ''broken pipe''), e)"

definition demo_api :: "bool \<Rightarrow> demo_env cast_api" where
  "demo_api alive = \<lparr>
     clock = (\<lambda>(t, q). (t, (t + from_millis 10, q))),
     arriving = (\<lambda>wait (t, q). case q of [] \<Rightarrow> ([], (t + wait, [])) | c # cs \<Rightarrow> (c, (t + wait, cs))),
     senders_gone = (\<lambda>e. (False, e)),
     reply_gone = (\<lambda>r e. (False, e)),
     is_abandoned = (\<lambda>r e. (False, e)),
     end_announced = (\<lambda>e. (False, e)),
     relay_taken = (\<lambda>e. (False, e)),
     deadline_passed = (\<lambda>e. (False, e)),
     resolve_ipv4 = (\<lambda>h e. (None, e)),
     wake_host = (\<lambda>h e. ((), e)),
     spawn_relay = (\<lambda>h p e. (if alive then Inr (''127.0.0.1'', 1, 1) else Inl ''no route to host'', e)),
     tls_connect = (\<lambda>p e. (Inr (), e)),
     dev_connect = (\<lambda>c d. demo_wire alive ()),
     dev_ping = (\<lambda>c. demo_wire alive ()),
     dev_pong = (\<lambda>c. demo_wire alive ()),
     dev_receive = (\<lambda>c e. (Inl (WireTimeout ''timed out''), e)),
     dev_launch = (\<lambda>c. demo_wire alive demo_app),
     dev_load = (\<lambda>c t s m. demo_wire alive [demo_entry]),
     dev_receiver_status = (\<lambda>c. demo_wire alive \<lparr>rs_apps = [demo_app], rs_volume = demo_volume\<rparr>),
     dev_media_status = (\<lambda>c t m. demo_wire alive [demo_entry]),
     dev_set_volume = (\<lambda>c l. demo_wire alive demo_volume),
     dev_pause = (\<lambda>c t m. demo_wire alive demo_entry),
     dev_play = (\<lambda>c t m. demo_wire alive demo_entry),
     dev_stop = (\<lambda>c t m. demo_wire alive demo_entry),
     dev_request_id = (\<lambda>c e. (1, e)),
     dev_send = (\<lambda>c n d b. demo_wire alive ()),
     dev_messages = (\<lambda>c e. (([], WireTimeout ''timed out''), e)),
     json_of_text = (\<lambda>s. None),
     decode_status = (\<lambda>j. None),
     debug_pairs = (\<lambda>ps. []),
     internal_text = (\<lambda>s. s)\<rparr>"

definition demo_session :: media_session_ref where
  "demo_session = \<lparr>transport_id = ''t'', session_id = ''s'', media_session_id = 5, queue_item_id = Some 1\<rparr>"

definition demo_load :: media_load_request where
  "demo_load = load_flac ''http://h/x.flac'' Live"

text \<open>A worker that is connected, and one whose device stopped answering once while it played.\<close>

definition demo_worker :: "demo_env worker" where
  "demo_worker = (initial_worker ''d'' ''h'' [] 8009 True True True False 0 (0, []))
     \<lparr>w_device := Some 1, w_relay := Some 1, w_reachable := True, w_reachable_flag := True\<rparr>"

definition demo_suspect :: "demo_env worker" where
  "demo_suspect = demo_worker\<lparr>w_active := Some demo_session, w_active_since := Some 0, w_loss_streak := 1,
     w_tracker := expect_player IntentPlaying 0 default_tracker\<rparr>"

lemmas demo_defs = demo_worker_def demo_suspect_def initial_worker_def default_tracker_def expect_player_def
  worker_ok_def conn_ok_def sess_ok_def tracker_ok_def OWNERSHIP_LOSS_CONFIRMATIONS_def VOLUME_ECHO_HISTORY_def

text \<open>What evaluating a handler on the demo device unfolds.\<close>

lemmas demo_run = demo_api_def demo_wire_def demo_app_def demo_entry_def demo_volume_def demo_session_def
  turn_load_def deliver_load_def stop_if_active_def send_reply_def with_hard_deadline_def
  handle_load_def load_once_def commit_load_session_def set_active_session_def the_device_def wire_def
  load_commit_decision_def media_session_from_status_def wp_ask

lemma demo_ok: "worker_ok demo_worker" "worker_ok demo_suspect"
  by (simp_all add: demo_defs)

lemma demo_ledger: "ledger [] demo_worker" "ledger [] demo_suspect"
  by (simp_all add: ledger_def demo_worker_def demo_suspect_def initial_worker_def arrived_ids_def answered_ids_def)

section \<open>The whole run of a worker\<close>

lemma initial_worker_ok: "worker_ok (initial_worker i h hn p a b c sh now e)"
  "ledger [] (initial_worker i h hn p a b c sh now e)"
  by (simp_all add: demo_defs ledger_def arrived_ids_def answered_ids_def)

lemma worker_main_spec:
  "wp (worker_main n api) (\<lambda>te t. worker_ok t \<and> ledger (owed_after te) t)
     (initial_worker i h hn p a b c sh now e)"
proof -
  let ?s = "initial_worker i h hn p a b c sh now e"
  show ?thesis
    unfolding worker_main_def
    apply simp
    apply (rule conn_op_call [OF ensure_connected_spec])
      apply (simp_all add: worker_ok_split initial_worker_ok)
    subgoal for r t
      using worker_loop_spec [of t None n api] ledger_op [of ?s t "[]"] initial_worker_ok(2) [of i h hn p a b c sh now e]
      by (auto intro: wp_mono)
    done
qed

text \<open>
  C24: The state of a worker is consistent after any number of turns, whatever the device, the network
  and the other threads do: the local and the shared reachability and terminal flags agree; a
  terminal failure excludes a connection and a connection implies reachability; the session's
  clock, loss count, re-LOAD latch and expected player state exist exactly while a session is tracked;
  the loss count stays below the number of confirmations that ends the session; and at most 128
  commanded volume levels are remembered.
\<close>

theorem worker_state_consistent:
  "wp (worker_main n api) (\<lambda>_ t. worker_ok t)
     (initial_worker device host hostname port watch_lost watch_recovered watch_remote session_host now e)"
  by (rule wp_mono [OF worker_main_spec]) simp

text \<open>
  C2: No command of a worker is lost, answered twice or answered out of turn: at every moment the
  replies that arrived commands asked for are exactly, in order of arrival, those already sent,
  then the reply of the command set aside by coalescing, then those still queued. Coalesced volume
  commands are each answered.
\<close>

theorem commands_answered_in_order:
  "wp (worker_main n api) (\<lambda>te t.
       arrived_ids (w_out t) = answered_ids (w_out t) @ owed_after te @ replies_of (w_queue t))
     (initial_worker device host hostname port watch_lost watch_recovered watch_remote session_host now e)"
  by (rule wp_mono [OF worker_main_spec]) (simp add: ledger_def)

section \<open>LOAD\<close>

text \<open>
  C3: A LOAD never installs a session its caller was not told about. After the turn of a LOAD either no
  session is tracked, or the one from before it still is, or the tracked session was sent to the
  caller as the \<open>Ok\<close> reply of this LOAD, and the channel accepted it. This covers a caller that gave up
  before, during or after the wire LOAD, a dropped reply channel, a retry on a new connection, and a
  hard deadline that fires.
\<close>

theorem load_installs_only_acknowledged:
  assumes "worker_ok s" and "ledger [i] s"
  shows "wp (turn_load api request i) (\<lambda>_ t.
      w_active t = None \<or> w_active t = w_active s \<or>
      (\<exists>session. w_active t = Some session \<and>
        Answered i (ReplySession (Inr session)) \<in> set (w_out t))) s"
proof -
  from assms have "due [i] s s" by (simp add: due_def)
  from turn_load_spec [OF this, of api request] show ?thesis
    by (rule wp_mono) (auto simp: load_outcome_def)
qed

definition demo_loading :: "demo_env worker" where
  "demo_loading = demo_worker\<lparr>w_out := [Arrived (CmdLoad demo_load 7)]\<rparr>"

lemma demo_loading_ok: "worker_ok demo_loading" "ledger [7] demo_loading"
  by (simp_all add: demo_loading_def demo_defs ledger_def arrived_ids_def answered_ids_def)

theorem load_installs_only_acknowledged_witness:
  "wp (turn_load (demo_api True) demo_load 7) (\<lambda>_ t.
      w_active t = None \<or> w_active t = w_active demo_loading \<or>
      (\<exists>session. w_active t = Some session \<and>
        Answered 7 (ReplySession (Inr session)) \<in> set (w_out t))) demo_loading \<and>
   wp (turn_load (demo_api True) demo_load 7) (\<lambda>_ t. w_active t = Some demo_session) demo_loading"
proof
  show "wp (turn_load (demo_api True) demo_load 7) (\<lambda>_ t.
      w_active t = None \<or> w_active t = w_active demo_loading \<or>
      (\<exists>session. w_active t = Some session \<and>
        Answered 7 (ReplySession (Inr session)) \<in> set (w_out t))) demo_loading"
    by (rule load_installs_only_acknowledged [OF demo_loading_ok])
  show "wp (turn_load (demo_api True) demo_load 7) (\<lambda>_ t. w_active t = Some demo_session) demo_loading"
    by (simp add: demo_run demo_loading_def demo_worker_def initial_worker_def)
qed

section \<open>Losing the receiver\<close>

text \<open>
  C28: Another app taking the receiver is believed only on the second consecutive signal. A turn of a
  worker announces a lost session only if a session was tracked on a live connection and one signal
  had already been counted; the session is then no longer tracked, so the announcement is not repeated.
\<close>

theorem ownership_lost_confirmed:
  assumes "worker_ok s" and "ledger (replies_of (pending_cmds p)) s"
  shows "wp (worker_turn api p) (\<lambda>_ t.
      filter is_loss (w_out t) = filter is_loss (w_out s) \<or>
      (w_loss_streak s = 1 \<and> w_active s \<noteq> None \<and> w_device s \<noteq> None \<and> w_active t = None)) s"
  by (rule wp_mono [OF worker_turn_spec [OF assms]]) (auto simp: turned_def no_loss_def declared_def)

theorem ownership_lost_confirmed_witness:
  "wp (worker_turn (demo_api False) None) (\<lambda>_ t.
      filter is_loss (w_out t) = filter is_loss (w_out demo_suspect) \<or>
      (w_loss_streak demo_suspect = 1 \<and> w_active demo_suspect \<noteq> None \<and> w_device demo_suspect \<noteq> None \<and>
       w_active t = None)) demo_suspect \<and>
   wp count_failed_ping (\<lambda>_ t. filter is_loss (w_out t) = [OwnershipLost ''d'']) demo_suspect"
proof
  show "wp (worker_turn (demo_api False) None) (\<lambda>_ t.
      filter is_loss (w_out t) = filter is_loss (w_out demo_suspect) \<or>
      (w_loss_streak demo_suspect = 1 \<and> w_active demo_suspect \<noteq> None \<and> w_device demo_suspect \<noteq> None \<and>
       w_active t = None)) demo_suspect"
    by (rule ownership_lost_confirmed) (simp_all add: demo_ok demo_ledger)
  show "wp count_failed_ping (\<lambda>_ t. filter is_loss (w_out t) = [OwnershipLost ''d'']) demo_suspect"
    by (simp add: count_failed_ping_def demo_suspect_def demo_worker_def initial_worker_def loss_entry_def
        OWNERSHIP_LOSS_CONFIRMATIONS_def)
qed

section \<open>Terminal failures\<close>

text \<open>
  C29: A terminal failure (no TLS version or cipher in common) is final for the process: from a state
  with the latch set, no number of turns dials the device again, whatever commands arrive, including
  LOADs, endpoint updates and retries that force a reconnect.
\<close>

theorem terminal_failure_is_final:
  assumes "worker_ok s" and "ledger (replies_of (pending_cmds p)) s" and "w_terminal_failed s"
  shows "wp (worker_loop n api p) (\<lambda>_ t. filter is_dial (w_out t) = filter is_dial (w_out s)) s"
  by (rule wp_mono [OF worker_loop_spec [OF assms(1,2)]]) (simp add: terminal_step_def assms(3))

definition demo_terminal :: "demo_env worker" where
  "demo_terminal = (initial_worker ''d'' ''h'' [] 8009 True True True False 0 (0, [[CmdLoad demo_load 7]]))
     \<lparr>w_terminal_failed := True, w_terminal_flag := True, w_out := [Dialled ''h'' 8009]\<rparr>"

theorem terminal_failure_is_final_witness:
  "wp (worker_loop 5 (demo_api True) None) (\<lambda>_ t.
      filter is_dial (w_out t) = filter is_dial (w_out demo_terminal)) demo_terminal"
  by (rule terminal_failure_is_final)
    (simp_all add: demo_terminal_def demo_defs ledger_def arrived_ids_def answered_ids_def)

section \<open>Adopting a moved session\<close>

lemma adoptable_app_sound:
  "adoptable_app dbg apps sess = Inr app \<Longrightarrow>
     app \<in> set apps \<and> app_session_id app = sess \<and> MEDIA_NAMESPACE \<in> set (app_namespaces app)"
  by (auto simp: adoptable_app_def list_ex_iff find_Some_iff split: option.splits if_splits)

definition adopted_from :: "'e cast_api \<Rightarrow> string \<Rightarrow> media_session_ref \<Rightarrow> bool" where
  "adopted_from api sess r \<longleftrightarrow>
     (\<exists>c e st e' app. dev_receiver_status api c e = (Inr st, e') \<and> app \<in> set (rs_apps st) \<and>
        MEDIA_NAMESPACE \<in> set (app_namespaces app) \<and> app_session_id app = sess \<and>
        session_id r = sess \<and> transport_id r = app_transport_id app)"

lemma read_adopted_session_from:
  "wp (read_adopted_session api session sess) (\<lambda>r t. \<forall>a. r = Inr a \<longrightarrow> adopted_from api sess a) s"
proof -
  have wires: "wp (wire op f) Q u"
    if "\<And>e. Q (Inl e) (u\<lparr>w_env := snd (f (w_env u))\<rparr>)"
      "\<And>x. fst (f (w_env u)) = Inr x \<Longrightarrow> Q (Inr x) (u\<lparr>w_env := snd (f (w_env u))\<rparr>)" for op f Q u
    using that by (cases "f (w_env u)") (auto simp: wire_def wp_ask split: sum.split)
  show ?thesis
    unfolding read_adopted_session_def
    apply (simp split: option.split)
    apply (intro allI impI)
    apply (rule wires)
     apply simp
    apply (simp split: sum.split)
    apply (intro allI impI)
    apply (rule wire_call)
    apply (simp split: sum.split)
    apply (intro allI impI)
    apply (rule wire_call)
    apply (auto split: sum.split list.split dest!: adoptable_app_sound simp: adopted_from_def)
    subgoal for c st app
      by (rule exI [of _ c], rule exI [of _ "w_env s"], rule exI [of _ st])
        (cases "dev_receiver_status api c (w_env s)", auto)
    done
qed

lemma wp_trivial: "wp m (\<lambda>_ _. True) s"
  by (simp add: wp_def)

text \<open>
  A worker that adopts a moved session controls what really plays on its own host. When the hand-over
  succeeds, the tracked session carries the receiver session id that was asked for, and its transport
  is that of an app with this session id and the media namespace which the host's own status listed;
  the transport id from the old host is never used.
\<close>

theorem adopted_session_is_on_host:
  assumes "worker_ok s"
  shows "wp (handle_adopt api session sess load) (\<lambda>r t.
      r = Inr () \<longrightarrow> (\<exists>a. w_active t = Some a \<and> adopted_from api sess a)) s"
proof -
  have read: "wp (read_adopted_session api session sess)
      (\<lambda>r t. (worker_ok t \<and> calm u t \<and> True) \<and> (\<forall>a. r = Inr a \<longrightarrow> adopted_from api sess a)) u"
    if "worker_ok u" for u
    by (rule wp_conj [OF read_adopted_session_spec [OF that] read_adopted_session_from])
  show ?thesis
    using assms unfolding handle_adopt_def
    apply simp
    apply (rule calm_conn_call [OF connect_if_needed_spec, where r = s])
       apply (simp_all add: worker_ok_split split: sum.split)
    apply (intro allI impI)
    apply (rule wp_mono [OF read])
     apply (auto simp: wp_trivial set_active_session_def wp_ask split: sum.split prod.split)
    done
qed

theorem adopted_session_is_on_host_witness:
  "wp (handle_adopt (demo_api True) (demo_session\<lparr>transport_id := ''old''\<rparr>) ''s'' None) (\<lambda>r t.
      r = Inr () \<longrightarrow> (\<exists>a. w_active t = Some a \<and> adopted_from (demo_api True) ''s'' a)) demo_worker \<and>
   wp (handle_adopt (demo_api True) (demo_session\<lparr>transport_id := ''old''\<rparr>) ''s'' None)
     (\<lambda>r t. r = Inr () \<and> w_active t = Some demo_session) demo_worker"
proof
  show "wp (handle_adopt (demo_api True) (demo_session\<lparr>transport_id := ''old''\<rparr>) ''s'' None) (\<lambda>r t.
      r = Inr () \<longrightarrow> (\<exists>a. w_active t = Some a \<and> adopted_from (demo_api True) ''s'' a)) demo_worker"
    by (rule adopted_session_is_on_host [OF demo_ok(1)])
  show "wp (handle_adopt (demo_api True) (demo_session\<lparr>transport_id := ''old''\<rparr>) ''s'' None)
     (\<lambda>r t. r = Inr () \<and> w_active t = Some demo_session) demo_worker"
    by (simp add: demo_run handle_adopt_def connect_if_needed_def read_adopted_session_def adoptable_app_def
        demo_worker_def initial_worker_def)
qed

section \<open>Coalescing\<close>

fun is_set_volume :: "cast_cmd \<Rightarrow> bool" where
  "is_set_volume (CmdSetVolume level r) = True"
| "is_set_volume _ = False"

definition levels_of :: "cast_cmd list \<Rightarrow> f32 list" where
  "levels_of cmds = List.map_filter (\<lambda>c. case c of CmdSetVolume level r \<Rightarrow> Some level | _ \<Rightarrow> None) cmds"

text \<open>
  Coalescing volume commands is taking the maximal run of volume commands at the head of the queue:
  the level that is sent is the last of the run, every reply channel of the run is kept in order, the
  command after the run is set aside, and what follows it stays queued.
\<close>

theorem coalesced_volume_is_last_of_run:
  "coalesce_set_volume level rs q =
     ((last (level # levels_of (takeWhile is_set_volume q)),
       rs @ replies_of (takeWhile is_set_volume q),
       (case dropWhile is_set_volume q of [] \<Rightarrow> None | c # _ \<Rightarrow> Some c)),
      tl (dropWhile is_set_volume q))"
proof (induction level rs q rule: coalesce_set_volume.induct)
  case (1 level rs)
  then show ?case by (simp add: levels_of_def List.map_filter_simps)
next
  case (2 level rs c q)
  then show ?case by (cases c) (auto simp: levels_of_def List.map_filter_simps)
qed

section \<open>Reconnect delay\<close>

lemma base_pos: "1000 \<le> backoff_base_ms n" and base_cap: "backoff_base_ms n \<le> 60000"
  by (simp_all add: backoff_base_ms_def as_millis_def RECONNECT_BACKOFF_START_def RECONNECT_BACKOFF_CAP_def
      from_secs_def)

text \<open>
  The delay before reconnect attempt \<open>n\<close> is the doubling backoff from one second, capped at sixty,
  within twenty percent: with base \<open>min (2 ^ min n 6) 60\<close> seconds it lies between 0.8 and 1.2 times the
  base for every attempt number and every device id, so no overflow or wrap-around of the jitter
  arithmetic ever produces a delay outside the band.
\<close>

theorem reconnect_delay_in_band:
  "from_millis (8 * (min (1000 * 2 ^ min (unat n) 6) 60000) div 10) \<le> reconnect_backoff_delay n seed \<and>
   reconnect_backoff_delay n seed \<le> from_millis (12 * (min (1000 * 2 ^ min (unat n) 6) 60000) div 10)"
proof -
  define b where "b = backoff_base_ms n"
  define f where "f = backoff_permille n seed"
  have b: "b = min (1000 * 2 ^ min (unat n) 6) 60000"
    by (simp add: b_def backoff_base_ms_def as_millis_def RECONNECT_BACKOFF_START_def
        RECONNECT_BACKOFF_CAP_def from_secs_def)
  have b1: "1000 \<le> b" unfolding b_def by (rule base_pos)
  have f: "800 \<le> f" "f \<le> 1199"
  proof -
    let ?u = "unat (seed * 0x9E3779B97F4A7C15 + ucast n * 0x85EBCA6B) mod 1000"
    have eq: "f = 800 + ?u * 400 div 1000" by (simp add: f_def backoff_permille_def Let_def)
    have "?u \<le> 999" by (simp add: less_Suc_eq_le [symmetric])
    then have "?u * 400 div 1000 \<le> 399" by linarith
    then show "800 \<le> f" "f \<le> 1199" unfolding eq by simp_all
  qed
  have lo: "8 * b div 10 \<le> b * f div 1000"
  proof -
    have "8 * b div 10 = b * 800 div 1000" by simp
    also have "\<dots> \<le> b * f div 1000" by (intro div_le_mono mult_le_mono2 f)
    finally show ?thesis .
  qed
  have hi: "b * f div 1000 \<le> 12 * b div 10"
  proof -
    have "b * f div 1000 \<le> b * 1200 div 1000" using f by (intro div_le_mono mult_le_mono2) simp
    also have "\<dots> = 12 * b div 10" by simp
    finally show ?thesis .
  qed
  have pos: "1 \<le> b * f div 1000" using lo b1 by simp
  have "reconnect_backoff_delay n seed = from_millis (b * f div 1000)"
    using pos by (simp add: reconnect_backoff_delay_def b_def f_def max_def)
  with lo hi show ?thesis by (simp add: b [symmetric] from_millis_def)
qed

section \<open>Attribution\<close>

text \<open>What the worker reports while it observes a list of player states, with the time of each.\<close>

fun player_events :: "remote_tracker \<Rightarrow> (player_state \<times> instant) list \<Rightarrow> cast_remote_kind list" where
  "player_events t [] = []"
| "player_events t ((st, at) # obs) =
     (case observe_player st at t of
        (t', None) \<Rightarrow> player_events t' obs
      | (t', Some k) \<Rightarrow> k # player_events t' obs)"

definition settled_intents :: "instant \<Rightarrow> (player_state \<times> instant) list \<Rightarrow> player_intent list" where
  "settled_intents until obs =
     List.map_filter (\<lambda>(st, at). if until \<le> at then observed_intent st else None) obs"

text \<open>
  C38: A pause or resume made on the Cast device is reported exactly once, and our own is never echoed.
  After a command of ours, the reported events are the changes in the sequence that starts with the
  commanded state and continues with the playing and paused states observed after the settle time;
  buffering, idle and everything observed during the settle time are invisible.
\<close>

theorem player_changes_reported_once:
  "player_events (expect_player i now t) obs =
     map intent_kind (tl (remdups_adj (i # settled_intents (now + OWN_COMMAND_SETTLE) obs)))"
proof -
  have "player_events t' obs = map intent_kind (tl (remdups_adj (i # settled_intents u obs)))"
    if "rt_intent t' = Some i" "rt_player_settle_until t' = Some u" for t' u
    using that
  proof (induction obs arbitrary: i t')
    case Nil
    then show ?case by (simp add: settled_intents_def List.map_filter_simps)
  next
    case (Cons ob obs)
    obtain st at where ob: "ob = (st, at)" by force
    show ?case
    proof (cases "observed_intent st")
      case None
      then show ?thesis
        using Cons.IH [OF Cons.prems]
        by (simp add: ob observe_player_def settled_intents_def List.map_filter_simps)
    next
      case (Some j)
      have changed: "player_events (t'\<lparr>rt_intent := Some j\<rparr>) obs =
          map intent_kind (tl (remdups_adj (j # settled_intents u obs)))"
        by (rule Cons.IH) (simp_all add: Cons.prems)
      have first: "map intent_kind (remdups_adj (j # xs)) =
          intent_kind j # map intent_kind (tl (remdups_adj (j # xs)))" for xs
        by (simp add: remdups_adj_Cons split: list.split)
      show ?thesis
        using Some Cons.IH [OF Cons.prems] changed Cons.prems first [of "settled_intents u obs"]
        by (auto simp: ob observe_player_def settled_intents_def List.map_filter_simps settling_def)
    qed
  qed
  then show ?thesis by (simp add: expect_player_def)
qed

text \<open>
  A level we set is not reported back as a user's change, however late the device echoes it: after a
  volume command, a status received within the ten-second window whose level is within the matching
  tolerance of the commanded one, with the mute flag unchanged, reports nothing.
\<close>

theorem commanded_volume_not_echoed:
  assumes "rt_volume t = Some (old, muted)"
    and "at \<le> now" and "now \<le> at + VOLUME_ECHO_WINDOW"
    and "same_level (volume_level_clamped level) (volume_level_clamped reported)"
  shows "snd (observe_volume reported muted now (expect_volume_command level at t)) = None"
proof -
  let ?P = "\<lambda>(_ :: f32, at). now - at > VOLUME_ECHO_WINDOW"
  have kept: "(c, at) \<in> set (dropWhile ?P (xs @ [(c, at)]))" for xs and c :: f32
  proof (induction xs)
    case Nil
    then show ?case using assms(3) by simp
  next
    case (Cons x xs)
    then show ?case by simp
  qed
  then have "list_ex (\<lambda>(commanded, _). same_level commanded (volume_level_clamped reported))
      (dropWhile ?P (xs @ [(volume_level_clamped level, at)]))" for xs
    using assms(4) kept [of "volume_level_clamped level" xs] by (force simp: list_ex_iff)
  then show ?thesis
    by (simp add: observe_volume_def expect_volume_command_def is_volume_echo_def assms(1) Let_def
        split: bool.split)
qed

theorem commanded_volume_not_echoed_witness:
  "snd (observe_volume (F32 0x3F000001) False (from_secs 9)
     (expect_volume_command (F32 0x3F000000) 0 (default_tracker\<lparr>rt_volume := Some (f32_one, False)\<rparr>))) = None"
  by (rule commanded_volume_not_echoed [where old = f32_one])
    (simp_all add: default_tracker_def VOLUME_ECHO_WINDOW_def from_secs_def same_level_def f32_within_def
      volume_level_clamped_def f32_less_def f32_is_nan_def f32_is_infinite_def f32_scaled_def f32_scaled_abs_def
      f32_exponent_def f32_fraction_def f32_magnitude_def f32_negative_def f32_ulp_def VOLUME_MATCH_EPSILON_def
      f32_zero_def f32_one_def)

end
