(* ===== verification/Cast_Pool.thy ===== *)
theory Cast_Pool
  imports Cast_Loop
begin

text \<open>
  The pool of Cast workers (\<open>CastPool\<close> in \<open>src/cast/pool.rs\<close>): the map of handles, the threads behind
  them, and the calls of the \<open>CastControl\<close> interface.

  A thread is a number; \<open>p_live\<close> lists the threads whose \<open>worker_main\<close> has not returned, with the key
  they were started for, and \<open>p_joins\<close> the joins in progress (of \<open>remove\<close> itself or of the reaper it
  leaves behind after its timeout, which end the same way). A call sends one command and waits; what the
  wait yields is an argument. Each operation between two lock acquisitions is one function.
\<close>

section \<open>State\<close>

type_synonym thread_id = nat

record pool_handle =
  ph_thread :: "thread_id option"
  ph_receiver :: thread_id
  ph_host :: string
  ph_hostname :: string
  ph_port :: u16
  ph_exiting :: bool
  ph_reachable :: bool
  ph_terminal :: bool
  ph_stand_down :: bool
  ph_session_host :: bool

record cast_pool =
  p_workers :: "(string, pool_handle) hashmap"
  p_live :: "(thread_id \<times> string) list"
  p_joins :: "(thread_id \<times> string) list"
  p_next :: thread_id
  p_sent :: "(thread_id \<times> cast_cmd) list"
  p_relays_cut :: "string list"

definition pool_new :: cast_pool where
  "pool_new = \<lparr>p_workers = [], p_live = [], p_joins = [], p_next = 0, p_sent = [], p_relays_cut = []\<rparr>"

definition edit_handle :: "string \<Rightarrow> (pool_handle \<Rightarrow> pool_handle) \<Rightarrow> cast_pool \<Rightarrow> cast_pool" where
  "edit_handle key f p =
     (case hm_get (p_workers p) key of
        None \<Rightarrow> p
      | Some h \<Rightarrow> p\<lparr>p_workers := hm_insert key (f h) (p_workers p)\<rparr>)"

text \<open>\<open>Sender::send\<close> fails when the receiving thread is gone.\<close>

definition receiver_alive :: "pool_handle \<Rightarrow> cast_pool \<Rightarrow> bool" where
  "receiver_alive h p \<longleftrightarrow> ph_receiver h \<in> fst ` set (p_live p)"

definition post :: "pool_handle \<Rightarrow> cast_cmd \<Rightarrow> cast_pool \<Rightarrow> cast_pool" where
  "post h cmd p =
     (if receiver_alive h p then p\<lparr>p_sent := p_sent p @ [(ph_receiver h, cmd)]\<rparr> else p)"

section \<open>Workers\<close>

definition new_handle :: "thread_id \<Rightarrow> string \<Rightarrow> string \<Rightarrow> u16 \<Rightarrow> bool \<Rightarrow> pool_handle" where
  "new_handle th host hostname port session_host =
     \<lparr>ph_thread = Some th, ph_receiver = th, ph_host = host, ph_hostname = hostname, ph_port = port,
      ph_exiting = False, ph_reachable = False, ph_terminal = False, ph_stand_down = False,
      ph_session_host = session_host\<rparr>"

definition retarget :: "string \<Rightarrow> string \<Rightarrow> u16 \<Rightarrow> pool_handle \<Rightarrow> pool_handle" where
  "retarget host hostname port h = h\<lparr>ph_host := host, ph_hostname := hostname, ph_port := port\<rparr>"

text \<open>\<open>spawned\<close> tells whether the operating system gave a thread.\<close>

definition ensure_worker ::
  "string \<Rightarrow> string \<Rightarrow> string \<Rightarrow> u16 \<Rightarrow> bool \<Rightarrow> bool \<Rightarrow> cast_pool \<Rightarrow> cast_pool" where
  "ensure_worker key host hostname port session_host spawned p =
     (case hm_get (p_workers p) key of
        Some h \<Rightarrow>
          if \<not> ensure_may_spawn_for_slot (ph_exiting h) then p
          else if ph_host h \<noteq> host \<or> ph_hostname h \<noteq> hostname \<or> ph_port h \<noteq> port then
            edit_handle key (retarget host hostname port)
              (post h (CmdUpdateEndpoint host hostname port) p)
          else p
      | None \<Rightarrow>
          if spawned then
            p\<lparr>p_workers := hm_insert key (new_handle (p_next p) host hostname port session_host) (p_workers p),
              p_live := p_live p @ [(p_next p, key)],
              p_next := p_next p + 1\<rparr>
          else p\<lparr>p_next := p_next p + 1\<rparr>)"

definition open_session_host :: "string \<Rightarrow> string \<Rightarrow> u16 \<Rightarrow> bool \<Rightarrow> cast_pool \<Rightarrow> cast_pool" where
  "open_session_host key host port spawned p = ensure_worker key host [] port True spawned p"

definition pool_is_reachable :: "cast_pool \<Rightarrow> string \<Rightarrow> bool" where
  "pool_is_reachable p key =
     (case hm_get (p_workers p) key of None \<Rightarrow> False | Some h \<Rightarrow> \<not> ph_exiting h \<and> ph_reachable h)"

definition pool_is_terminal_failed :: "cast_pool \<Rightarrow> string \<Rightarrow> bool" where
  "pool_is_terminal_failed p key =
     (case hm_get (p_workers p) key of None \<Rightarrow> False | Some h \<Rightarrow> ph_terminal h)"

definition device_ids :: "cast_pool \<Rightarrow> string list" where
  "device_ids p = map fst (filter (\<lambda>(_, h). \<not> ph_session_host h) (p_workers p))"

text \<open>
  \<open>remove\<close> up to the join: with a thread to join the entry stays as a tombstone, otherwise it is
  dropped.
\<close>

definition remove_begin :: "string \<Rightarrow> cast_pool \<Rightarrow> cast_pool" where
  "remove_begin key p =
     (case hm_get (p_workers p) key of
        None \<Rightarrow> p
      | Some h \<Rightarrow>
          if ph_exiting h then p
          else
            (let p1 = post h CmdShutdown
                   (edit_handle key (\<lambda>h. h\<lparr>ph_exiting := True, ph_thread := None\<rparr>) p)
                   \<lparr>p_relays_cut := p_relays_cut p @ [key]\<rparr>
             in (case ph_thread h of
                   Some th \<Rightarrow> p1\<lparr>p_joins := p_joins p1 @ [(th, key)]\<rparr>
                 | None \<Rightarrow> p1\<lparr>p_workers := hm_remove key (p_workers p1)\<rparr>)))"

text \<open>A thread returns from \<open>worker_main\<close>; a join that waited for it removes the map entry.\<close>

definition thread_exits :: "thread_id \<Rightarrow> cast_pool \<Rightarrow> cast_pool" where
  "thread_exits th p = p\<lparr>p_live := filter (\<lambda>(t, _). t \<noteq> th) (p_live p)\<rparr>"

definition join_done :: "thread_id \<Rightarrow> string \<Rightarrow> cast_pool \<Rightarrow> cast_pool" where
  "join_done th key p =
     p\<lparr>p_workers := hm_remove key (p_workers p),
       p_joins := filter (\<lambda>j. j \<noteq> (th, key)) (p_joins p)\<rparr>"

definition pool_close_session_host :: "string \<Rightarrow> cast_pool \<Rightarrow> cast_pool" where
  "pool_close_session_host key p =
     (if (case hm_get (p_workers p) key of None \<Rightarrow> False | Some h \<Rightarrow> ph_session_host h)
      then remove_begin key p else p)"

definition pool_shutdown :: "cast_pool \<Rightarrow> cast_pool" where
  "pool_shutdown p = foldl (\<lambda>q key. remove_begin key q) p (map fst (p_workers p))"

definition session_ended :: "string \<Rightarrow> cast_pool \<Rightarrow> cast_pool" where
  "session_ended key p = edit_handle key (\<lambda>h. h\<lparr>ph_stand_down := True\<rparr>) p"

section \<open>Calls\<close>

text \<open>What \<open>recv_timeout\<close> on the reply channel yields.\<close>

datatype 'a awaited = Delivered 'a | TimedOut | Dropped

definition no_worker :: "string \<Rightarrow> error" where
  "no_worker key = ErrCast (''no warm Cast worker for '' @ key)"

definition worker_gone :: "string \<Rightarrow> error" where
  "worker_gone key = ErrCast (''warm Cast worker for '' @ key @ '' disconnected'')"

definition call_worker :: "string \<Rightarrow> cast_cmd \<Rightarrow> cast_pool \<Rightarrow> cast_pool \<times> unit result" where
  "call_worker key cmd p =
     (case hm_get (p_workers p) key of
        None \<Rightarrow> (p, Inl (no_worker key))
      | Some h \<Rightarrow>
          if receiver_alive h p then (post h cmd p, Inr ()) else (p, Inl (worker_gone key)))"

definition await_reply :: "string \<Rightarrow> string \<Rightarrow> string \<Rightarrow> 'a result awaited \<Rightarrow> 'a result" where
  "await_reply timed_out dropped key w =
     (case w of
        Delivered r \<Rightarrow> r
      | TimedOut \<Rightarrow> Inl (ErrCast (timed_out @ '' for '' @ key))
      | Dropped \<Rightarrow> Inl (ErrCast (dropped @ '' for '' @ key)))"

definition then_await ::
  "cast_pool \<times> unit result \<Rightarrow> 'a result \<Rightarrow> cast_pool \<times> 'a result" where
  "then_await sent answer = (case sent of (p, Inl e) \<Rightarrow> (p, Inl e) | (p, Inr _) \<Rightarrow> (p, answer))"

definition pool_stop :: "string \<Rightarrow> reply_id \<Rightarrow> unit result awaited \<Rightarrow> cast_pool \<Rightarrow> cast_pool \<times> unit result" where
  "pool_stop key r w p = then_await (call_worker key (CmdStop r) p)
     (await_reply ''warm Cast stop timed out'' ''warm Cast stop reply dropped'' key w)"

definition pool_set_volume ::
  "string \<Rightarrow> f32 \<Rightarrow> reply_id \<Rightarrow> unit result awaited \<Rightarrow> cast_pool \<Rightarrow> cast_pool \<times> unit result" where
  "pool_set_volume key level r w p = then_await (call_worker key (CmdSetVolume level r) p)
     (await_reply ''warm Cast set_volume timed out'' ''warm Cast set_volume reply dropped'' key w)"

definition pool_get_volume ::
  "string \<Rightarrow> reply_id \<Rightarrow> f32 result awaited \<Rightarrow> cast_pool \<Rightarrow> cast_pool \<times> f32 result" where
  "pool_get_volume key r w p = then_await (call_worker key (CmdGetVolume r) p)
     (await_reply ''warm Cast get_volume timed out'' ''warm Cast get_volume reply dropped'' key w)"

definition pool_pause ::
  "string \<Rightarrow> instant \<Rightarrow> reply_id \<Rightarrow> media_playback result awaited \<Rightarrow> cast_pool
    \<Rightarrow> cast_pool \<times> media_playback result" where
  "pool_pause key now r w p = then_await (call_worker key (CmdPause now r) p)
     (await_reply ''warm Cast pause timed out'' ''warm Cast pause reply dropped'' key w)"

definition pool_play :: "string \<Rightarrow> reply_id \<Rightarrow> unit result awaited \<Rightarrow> cast_pool \<Rightarrow> cast_pool \<times> unit result" where
  "pool_play key r w p = then_await (call_worker key (CmdPlay r) p)
     (await_reply ''warm Cast play timed out'' ''warm Cast play reply dropped'' key w)"

definition pool_media_playback ::
  "string \<Rightarrow> reply_id \<Rightarrow> media_playback result awaited \<Rightarrow> cast_pool \<Rightarrow> cast_pool \<times> media_playback result" where
  "pool_media_playback key r w p = then_await (call_worker key (CmdMediaStatus r) p)
     (await_reply ''warm Cast media status timed out'' ''warm Cast media status reply dropped'' key w)"

definition pool_set_playback_devices ::
  "string \<Rightarrow> set_playback_devices \<Rightarrow> reply_id \<Rightarrow> playback_session_update result awaited \<Rightarrow> cast_pool
    \<Rightarrow> cast_pool \<times> playback_session_update result" where
  "pool_set_playback_devices key request r w p = then_await (call_worker key (CmdSetPlaybackDevices request r) p)
     (await_reply ''multizone request timed out'' ''multizone reply dropped'' key w)"

definition pool_multizone_members ::
  "string \<Rightarrow> reply_id \<Rightarrow> multizone_member list result awaited \<Rightarrow> cast_pool
    \<Rightarrow> cast_pool \<times> multizone_member list result" where
  "pool_multizone_members key r w p = then_await (call_worker key (CmdMultizoneStatus r) p)
     (await_reply ''multizone status timed out'' ''multizone status reply dropped'' key w)"

definition pool_stop_best_effort :: "string \<Rightarrow> reply_id \<Rightarrow> unit awaited \<Rightarrow> cast_pool \<Rightarrow> cast_pool \<times> bool" where
  "pool_stop_best_effort key r w p =
     (case call_worker key (CmdStopBestEffort r) p of
        (p', Inl _) \<Rightarrow> (p', False)
      | (p', Inr _) \<Rightarrow> (p', w = Delivered ()))"

definition pool_update_metadata :: "string \<Rightarrow> cast_track \<Rightarrow> cast_pool \<Rightarrow> cast_pool" where
  "pool_update_metadata key track p = fst (call_worker key (CmdUpdateMetadata track) p)"

text \<open>LOAD also tells whether it marked the command abandoned.\<close>

definition pool_load ::
  "string \<Rightarrow> media_load_request \<Rightarrow> reply_id \<Rightarrow> media_session_ref result awaited \<Rightarrow> cast_pool
    \<Rightarrow> cast_pool \<times> media_session_ref result \<times> bool" where
  "pool_load key request r w p =
     (case call_worker key (CmdLoad request r) p of
        (p', Inl e) \<Rightarrow> (p', Inl e, False)
      | (p', Inr _) \<Rightarrow>
          (p', await_reply (''warm Cast load timed out after ''
                 @ show_nat (COMMAND_TIMEOUT div 1000000000) @ ''s'') ''warm Cast load reply dropped'' key w,
           (case w of Delivered _ \<Rightarrow> False | _ \<Rightarrow> True)))"

definition pool_adopt ::
  "string \<Rightarrow> media_session_ref \<Rightarrow> string \<Rightarrow> media_load_request option \<Rightarrow> reply_id \<Rightarrow> unit result awaited
    \<Rightarrow> cast_pool \<Rightarrow> cast_pool \<times> unit result" where
  "pool_adopt key session sess load r w p = then_await (call_worker key (CmdAdopt session sess load r) p)
     (await_reply ''session adopt timed out'' ''session adopt reply dropped'' key w)"

definition move_session ::
  "string \<Rightarrow> string \<Rightarrow> string option \<Rightarrow> reply_id \<Rightarrow>
    (media_session_ref \<times> media_load_request option) option awaited \<Rightarrow> reply_id \<Rightarrow> unit result awaited
    \<Rightarrow> cast_pool \<Rightarrow> cast_pool \<times> unit result" where
  "move_session from to sess r1 w1 r2 w2 p =
     (case call_worker from (CmdTakeSession r1) p of
        (p', Inl e) \<Rightarrow> (p', Inl e)
      | (p', Inr _) \<Rightarrow>
          (case w1 of
             Delivered (Some (session, load)) \<Rightarrow>
               pool_adopt to session (case sess of None \<Rightarrow> session_id session | Some s \<Rightarrow> s) load r2 w2 p'
           | Delivered None \<Rightarrow> (p', Inl (ErrCast (''no active session on '' @ from @ '' to move'')))
           | _ \<Rightarrow> (p', Inl (ErrCast (''session hand-off from '' @ from @ '' timed out'')))))"

section \<open>Steps\<close>

inductive pool_step :: "cast_pool \<Rightarrow> cast_pool \<Rightarrow> bool" where
  step_ensure: "pool_step p (ensure_worker key host hostname port sh spawned p)"
| step_remove: "pool_step p (remove_begin key p)"
| step_close: "pool_step p (pool_close_session_host key p)"
| step_shutdown: "pool_step p (pool_shutdown p)"
| step_exit: "pool_step p (thread_exits th p)"
| step_join: "(th, key) \<in> set (p_joins p) \<Longrightarrow> th \<notin> fst ` set (p_live p) \<Longrightarrow> pool_step p (join_done th key p)"
| step_call: "pool_step p (fst (call_worker key cmd p))"
| step_ended: "pool_step p (session_ended key p)"
| step_flags: "pool_step p (edit_handle key (\<lambda>h. h\<lparr>ph_reachable := r, ph_terminal := t, ph_stand_down := d\<rparr>) p)"

inductive pool_reachable :: "cast_pool \<Rightarrow> bool" where
  pool_start: "pool_reachable pool_new"
| pool_next: "pool_reachable p \<Longrightarrow> pool_step p q \<Longrightarrow> pool_reachable q"

end
