(* ===== verification/Cast_Pool_Promises.thy ===== *)
theory Cast_Pool_Promises
  imports Cast_Pool
begin

text \<open>
  The pool of Cast workers (\<open>src/cast/pool.rs\<close>) never runs two threads for one device, and moving a
  session between workers either hands it over or leaves the target alone.
\<close>

section \<open>The invariant\<close>

definition handle_ok :: "cast_pool \<Rightarrow> string \<Rightarrow> pool_handle \<Rightarrow> bool" where
  "handle_ok p key h \<longleftrightarrow>
     ph_receiver h < p_next p \<and>
     (if ph_exiting h then ph_thread h = None \<and> (ph_receiver h, key) \<in> set (p_joins p)
      else ph_thread h = Some (ph_receiver h))"

definition pool_ok :: "cast_pool \<Rightarrow> bool" where
  "pool_ok p \<longleftrightarrow>
     hm_ok (p_workers p) \<and> distinct (map fst (p_live p)) \<and>
     (\<forall>key h. hm_get (p_workers p) key = Some h \<longrightarrow> handle_ok p key h) \<and>
     (\<forall>(th, key) \<in> set (p_live p). \<exists>h. hm_get (p_workers p) key = Some h \<and> ph_receiver h = th) \<and>
     (\<forall>(th, key) \<in> set (p_joins p).
        \<exists>h. hm_get (p_workers p) key = Some h \<and> ph_exiting h \<and> ph_receiver h = th)"

lemma pool_okD:
  assumes "pool_ok p"
  shows "hm_ok (p_workers p)" "distinct (map fst (p_live p))"
    "\<And>key h. hm_get (p_workers p) key = Some h \<Longrightarrow> handle_ok p key h"
    "\<And>th key. (th, key) \<in> set (p_live p) \<Longrightarrow> \<exists>h. hm_get (p_workers p) key = Some h \<and> ph_receiver h = th"
    "\<And>th key. (th, key) \<in> set (p_joins p) \<Longrightarrow>
       \<exists>h. hm_get (p_workers p) key = Some h \<and> ph_exiting h \<and> ph_receiver h = th"
  using assms by (auto simp: pool_ok_def)

lemma pool_okI:
  assumes "hm_ok (p_workers p)" "distinct (map fst (p_live p))"
    "\<And>key h. hm_get (p_workers p) key = Some h \<Longrightarrow> handle_ok p key h"
    "\<And>th key. (th, key) \<in> set (p_live p) \<Longrightarrow> \<exists>h. hm_get (p_workers p) key = Some h \<and> ph_receiver h = th"
    "\<And>th key. (th, key) \<in> set (p_joins p) \<Longrightarrow>
       \<exists>h. hm_get (p_workers p) key = Some h \<and> ph_exiting h \<and> ph_receiver h = th"
  shows "pool_ok p"
  using assms by (auto simp: pool_ok_def)

lemma handleD:
  assumes "pool_ok p" and "hm_get (p_workers p) key = Some h"
  shows "ph_receiver h < p_next p" "ph_exiting h \<Longrightarrow> ph_thread h = None"
    "ph_exiting h \<Longrightarrow> (ph_receiver h, key) \<in> set (p_joins p)"
    "\<not> ph_exiting h \<Longrightarrow> ph_thread h = Some (ph_receiver h)"
  using pool_okD(3) [OF assms] by (auto simp: handle_ok_def split: if_splits)

lemma pool_ok_live_bound: "pool_ok p \<Longrightarrow> (th, key) \<in> set (p_live p) \<Longrightarrow> th < p_next p"
  by (metis handle_ok_def pool_okD(3,4))

lemma pool_ok_logs [simp]:
  "pool_ok (p\<lparr>p_sent := s\<rparr>) = pool_ok p" "pool_ok (p\<lparr>p_relays_cut := c\<rparr>) = pool_ok p"
  by (simp_all add: pool_ok_def handle_ok_def)

lemma pool_ok_post [simp]: "pool_ok (post h cmd p) = pool_ok p"
  by (simp add: post_def)

lemma post_fields [simp]:
  "p_workers (post h cmd p) = p_workers p" "p_live (post h cmd p) = p_live p"
  "p_joins (post h cmd p) = p_joins p" "p_next (post h cmd p) = p_next p"
  by (simp_all add: post_def)

text \<open>Editing a handle without touching its thread, its receiver or its tombstone.\<close>

definition same_thread :: "(pool_handle \<Rightarrow> pool_handle) \<Rightarrow> bool" where
  "same_thread f \<longleftrightarrow>
     (\<forall>h. ph_thread (f h) = ph_thread h \<and> ph_receiver (f h) = ph_receiver h \<and> ph_exiting (f h) = ph_exiting h)"

lemma edit_handle_fields [simp]:
  "p_live (edit_handle key f p) = p_live p" "p_joins (edit_handle key f p) = p_joins p"
  "p_next (edit_handle key f p) = p_next p"
  "hm_get (p_workers (edit_handle key f p)) k =
     (if k = key then map_option f (hm_get (p_workers p) k) else hm_get (p_workers p) k)"
  "hm_ok (p_workers p) \<Longrightarrow> hm_ok (p_workers (edit_handle key f p))"
  by (auto simp: edit_handle_def split: option.split)

lemma edit_handle_ok:
  assumes ok: "pool_ok p" and f: "same_thread f"
  shows "pool_ok (edit_handle key f p)"
proof (rule pool_okI)
  fix k h
  assume "hm_get (p_workers (edit_handle key f p)) k = Some h"
  then obtain h0 where h0: "hm_get (p_workers p) k = Some h0" "h = h0 \<or> h = f h0"
    by (auto split: if_splits)
  have "handle_ok p k h0" by (rule pool_okD(3) [OF ok h0(1)])
  moreover have "ph_thread h = ph_thread h0" "ph_receiver h = ph_receiver h0" "ph_exiting h = ph_exiting h0"
    using h0(2) f by (auto simp: same_thread_def)
  ultimately show "handle_ok (edit_handle key f p) k h" by (simp add: handle_ok_def)
next
  fix th k
  assume "(th, k) \<in> set (p_live (edit_handle key f p))"
  then have "(th, k) \<in> set (p_live p)" by simp
  from pool_okD(4) [OF ok this] obtain h where "hm_get (p_workers p) k = Some h" "ph_receiver h = th"
    by blast
  with f show "\<exists>h. hm_get (p_workers (edit_handle key f p)) k = Some h \<and> ph_receiver h = th"
    by (cases "k = key") (simp_all add: same_thread_def)
next
  fix th k
  assume "(th, k) \<in> set (p_joins (edit_handle key f p))"
  then have "(th, k) \<in> set (p_joins p)" by simp
  from pool_okD(5) [OF ok this]
  obtain h where "hm_get (p_workers p) k = Some h" "ph_exiting h" "ph_receiver h = th" by blast
  with f show "\<exists>h. hm_get (p_workers (edit_handle key f p)) k = Some h \<and> ph_exiting h \<and> ph_receiver h = th"
    by (cases "k = key") (simp_all add: same_thread_def)
qed (use pool_okD [OF ok] in simp_all)

lemma ensure_worker_ok:
  assumes ok: "pool_ok p"
  shows "pool_ok (ensure_worker key host hostname port sh spawned p)"
proof (cases "hm_get (p_workers p) key")
  case (Some h)
  have "same_thread (retarget host hostname port)" by (simp add: same_thread_def retarget_def)
  with ok Some show ?thesis by (simp add: ensure_worker_def edit_handle_ok)
next
  case None
  have fresh: "th < p_next p" if "(th, k) \<in> set (p_live p)" for th k
    by (rule pool_ok_live_bound [OF ok that])
  have nokey: "k \<noteq> key" if "(th, k) \<in> set (p_live p) \<or> (th, k) \<in> set (p_joins p)" for th k
    using that None pool_okD(4,5) [OF ok] by fastforce
  show ?thesis
  proof (cases spawned)
    case True
    show ?thesis
    proof (rule pool_okI)
      show "distinct (map fst (p_live (ensure_worker key host hostname port sh spawned p)))"
        using pool_okD(2) [OF ok] fresh None True by (force simp: ensure_worker_def)
    qed (use None True ok nokey in \<open>auto simp: ensure_worker_def handle_ok_def new_handle_def
        dest: pool_okD(1,2,4,5) handleD split: if_splits intro: less_SucI\<close>)
  next
    case False
    with None ok show ?thesis
      by (auto simp: ensure_worker_def pool_ok_def handle_ok_def less_SucI)
  qed
qed

lemma remove_begin_ok:
  assumes ok: "pool_ok p"
  shows "pool_ok (remove_begin key p)"
proof (cases "hm_get (p_workers p) key")
  case None
  with ok show ?thesis by (simp add: remove_begin_def)
next
  case (Some h)
  show ?thesis
  proof (cases "ph_exiting h")
    case True
    with ok Some show ?thesis by (simp add: remove_begin_def)
  next
    case False
    with pool_okD(3) [OF ok Some] have th: "ph_thread h = Some (ph_receiver h)" "ph_receiver h < p_next p"
      by (simp_all add: handle_ok_def)
    have nojoin: "k \<noteq> key" if "(t, k) \<in> set (p_joins p)" for t k
      using that pool_okD(5) [OF ok that] Some False by auto
    show ?thesis
      using ok Some False th nojoin
      by (intro pool_okI)
        (auto simp: remove_begin_def edit_handle_def Let_def handle_ok_def dest: pool_okD(1,2,4,5) handleD
          split: if_splits)
  qed
qed

interpretation removal: event_machine "\<lambda>p key. remove_begin key p" pool_ok
  by unfold_locales (rule remove_begin_ok)

lemma thread_exits_ok: "pool_ok p \<Longrightarrow> pool_ok (thread_exits th p)"
  unfolding thread_exits_def
  by (rule pool_okI) (auto simp: handle_ok_def dest: pool_okD(1,2,4,5) handleD intro: distinct_map_filter)

lemma join_done_ok:
  assumes ok: "pool_ok p" and join: "(th, key) \<in> set (p_joins p)" and gone: "th \<notin> fst ` set (p_live p)"
  shows "pool_ok (join_done th key p)"
proof -
  obtain h where h: "hm_get (p_workers p) key = Some h" "ph_exiting h" "ph_receiver h = th"
    using pool_okD(5) [OF ok join] by blast
  have live: "k \<noteq> key" if "(t, k) \<in> set (p_live p)" for t k
    using that pool_okD(4) [OF ok that] h gone by force
  have joins: "t = th" if "(t, key) \<in> set (p_joins p)" for t
    using pool_okD(5) [OF ok that] h by auto
  show ?thesis
    unfolding join_done_def
    using ok live joins
    by (intro pool_okI) (auto simp: handle_ok_def dest: pool_okD(1,2,4,5) handleD split: if_splits)
qed

inductive_cases pool_stepE: "pool_step p q"

lemma pool_step_ok: "pool_step p q \<Longrightarrow> pool_ok p \<Longrightarrow> pool_ok q"
proof (induction rule: pool_step.induct)
  case (step_shutdown p)
  then show ?case by (simp add: pool_shutdown_def removal.run_inv)
next
  case (step_call p key cmd)
  then show ?case by (simp add: call_worker_def split: option.split)
qed (auto simp: ensure_worker_ok remove_begin_ok pool_close_session_host_def thread_exits_ok join_done_ok
    session_ended_def same_thread_def intro: edit_handle_ok)

lemma pool_new_ok: "pool_ok pool_new"
  by (simp add: pool_new_def pool_ok_def)

lemma pool_reachable_ok: "pool_reachable p \<Longrightarrow> pool_ok p"
  by (induction rule: pool_reachable.induct) (auto simp: pool_new_ok intro: pool_step_ok)

section \<open>One thread per device\<close>

lemma one_per_key:
  assumes "pool_ok p"
  shows "distinct (map snd (p_live p))"
proof -
  have "th = th'" if "(th, key) \<in> set (p_live p)" "(th', key) \<in> set (p_live p)" for th th' key
    using pool_okD(4) [OF assms that(1)] pool_okD(4) [OF assms that(2)] by auto
  then have "inj_on snd (set (p_live p))" by (auto simp: inj_on_def)
  moreover have "distinct (p_live p)" using pool_okD(2) [OF assms] by (simp add: distinct_map)
  ultimately show ?thesis by (simp add: distinct_map)
qed

text \<open>
  C6: Whatever the order of appearances, endpoint changes, removals, join timeouts, late thread exits,
  reapers and process shutdown, no two worker threads of one device are ever alive together: the
  tombstone of a removed worker blocks a new one until its thread has really exited, so two workers
  never fight over one Cast control connection.
\<close>

theorem one_worker_per_device:
  assumes "pool_reachable p"
  shows "distinct (map snd (p_live p))"
  by (rule one_per_key [OF pool_reachable_ok [OF assms]])

text \<open>A device leaves and returns while its old thread still runs, then the thread exits.\<close>

definition returning :: cast_pool where
  "returning =
     (let p1 = ensure_worker ''d'' ''10.0.0.2'' [] 8009 False True pool_new;
          p2 = remove_begin ''d'' p1;
          p3 = ensure_worker ''d'' ''10.0.0.3'' [] 8009 False True p2;
          p4 = thread_exits 0 p3;
          p5 = join_done 0 ''d'' p4
      in ensure_worker ''d'' ''10.0.0.3'' [] 8009 False True p5)"

lemma returning_reachable: "pool_reachable returning"
proof -
  let ?p1 = "ensure_worker ''d'' ''10.0.0.2'' [] 8009 False True pool_new"
  let ?p2 = "remove_begin ''d'' ?p1"
  let ?p3 = "ensure_worker ''d'' ''10.0.0.3'' [] 8009 False True ?p2"
  let ?p4 = "thread_exits 0 ?p3"
  have "pool_reachable ?p1" by (rule pool_next [OF pool_start step_ensure])
  from pool_next [OF this step_remove] have "pool_reachable ?p2" .
  from pool_next [OF this step_ensure] have "pool_reachable ?p3" .
  from pool_next [OF this step_exit] have p4: "pool_reachable ?p4" .
  have "(0, ''d'') \<in> set (p_joins ?p4)" "0 \<notin> fst ` set (p_live ?p4)"
    by (simp_all add: ensure_worker_def remove_begin_def thread_exits_def edit_handle_def post_def
        receiver_alive_def new_handle_def pool_new_def ensure_may_spawn_for_slot_def)
  from pool_next [OF p4 step_join [OF this]] have "pool_reachable (join_done 0 ''d'' ?p4)" .
  from pool_next [OF this step_ensure] show ?thesis unfolding returning_def Let_def .
qed

theorem one_worker_per_device_witness:
  "distinct (map snd (p_live returning)) \<and> p_live returning = [(1, ''d'')]"
proof
  show "distinct (map snd (p_live returning))" by (rule one_worker_per_device [OF returning_reachable])
  show "p_live returning = [(1, ''d'')]"
    by (simp add: returning_def ensure_worker_def remove_begin_def thread_exits_def join_done_def
        edit_handle_def post_def receiver_alive_def new_handle_def pool_new_def
        ensure_may_spawn_for_slot_def)
qed

end
