(* ===== verification/Cast_Load_Race.thy ===== *)
theory Cast_Load_Race
  imports Cast_Pool
begin

text \<open>
  The race between the caller of LOAD and the worker (\<open>CastPool::load\<close> and the \<open>Load\<close> command of
  \<open>worker_main\<close> in \<open>src/cast/pool.rs\<close>), one atomic access per step: the worker reads \<open>abandoned\<close>
  before and after it installs the session and before it answers, and its \<open>send\<close> fails only when the
  receiver is dropped; the caller's \<open>recv_timeout\<close>, its store to \<open>abandoned\<close> and the drop of the
  receiver at its return are three steps. Only the session of this LOAD is followed.
\<close>

section \<open>The two threads\<close>

datatype load_pc =
    LoadWire
  | LoadCommit
  | LoadInstalled
  | LoadHandled bool
  | LoadReplying bool
  | LoadReplied

datatype caller_pc = CallerWaiting | CallerTimedOut | CallerAbandoned | CallerReturned bool

record load_race =
  lr_pc :: load_pc
  lr_caller :: caller_pc
  lr_abandoned :: bool
  lr_receiver :: bool
  lr_channel :: "bool option"
  lr_active :: bool

definition race_start :: load_race where
  "race_start = \<lparr>lr_pc = LoadWire, lr_caller = CallerWaiting, lr_abandoned = False, lr_receiver = True,
     lr_channel = None, lr_active = False\<rparr>"

text \<open>\<open>wire_ok\<close> is the outcome of the LOAD on the wire, retry included.\<close>

fun worker_race_step :: "bool \<Rightarrow> load_race \<Rightarrow> load_race" where
  "worker_race_step wire_ok s =
     (case lr_pc s of
        LoadWire \<Rightarrow> s\<lparr>lr_pc := (if wire_ok then LoadCommit else LoadHandled False)\<rparr>
      | LoadCommit \<Rightarrow>
          (case load_commit_decision (lr_abandoned s) of
             AbandonAndStop \<Rightarrow> s\<lparr>lr_active := False, lr_pc := LoadHandled False\<rparr>
           | InstallActive \<Rightarrow> s\<lparr>lr_active := True, lr_pc := LoadInstalled\<rparr>)
      | LoadInstalled \<Rightarrow>
          (if lr_abandoned s then s\<lparr>lr_active := False, lr_pc := LoadHandled False\<rparr>
           else s\<lparr>lr_pc := LoadHandled True\<rparr>)
      | LoadHandled ok \<Rightarrow>
          (if lr_abandoned s then s\<lparr>lr_active := False, lr_pc := LoadReplying False\<rparr>
           else s\<lparr>lr_pc := LoadReplying ok\<rparr>)
      | LoadReplying ok \<Rightarrow>
          (if lr_receiver s then s\<lparr>lr_channel := Some ok, lr_pc := LoadReplied\<rparr>
           else s\<lparr>lr_active := False, lr_pc := LoadReplied\<rparr>)
      | LoadReplied \<Rightarrow> s)"

text \<open>\<open>recv_timeout\<close> returns what is in the channel; it can time out only while the channel is empty.\<close>

fun caller_race_step :: "load_race \<Rightarrow> load_race" where
  "caller_race_step s =
     (case lr_caller s of
        CallerWaiting \<Rightarrow>
          (case lr_channel s of
             Some ok \<Rightarrow> s\<lparr>lr_caller := CallerReturned ok, lr_channel := None, lr_receiver := False\<rparr>
           | None \<Rightarrow> s\<lparr>lr_caller := CallerTimedOut\<rparr>)
      | CallerTimedOut \<Rightarrow> s\<lparr>lr_abandoned := True, lr_caller := CallerAbandoned\<rparr>
      | CallerAbandoned \<Rightarrow> s\<lparr>lr_receiver := False, lr_caller := CallerReturned False\<rparr>
      | CallerReturned ok \<Rightarrow> s)"

datatype race_turn = WorkerTurn bool | CallerTurn

fun race_step :: "load_race \<Rightarrow> race_turn \<Rightarrow> load_race" where
  "race_step s (WorkerTurn wire_ok) = worker_race_step wire_ok s"
| "race_step s CallerTurn = caller_race_step s"

definition race_over :: "load_race \<Rightarrow> bool" where
  "race_over s \<longleftrightarrow> lr_pc s = LoadReplied \<and> (\<exists>ok. lr_caller s = CallerReturned ok)"

section \<open>The invariant\<close>

definition race_ok :: "load_race \<Rightarrow> bool" where
  "race_ok s \<longleftrightarrow>
     (case lr_pc s of
        LoadWire \<Rightarrow> \<not> lr_active s
      | LoadCommit \<Rightarrow> \<not> lr_active s
      | LoadInstalled \<Rightarrow> lr_active s
      | LoadHandled ok \<Rightarrow> lr_active s = ok
      | LoadReplying ok \<Rightarrow> lr_active s = ok
      | LoadReplied \<Rightarrow> True) \<and>
     (lr_channel s \<noteq> None \<longrightarrow> lr_pc s = LoadReplied \<and> lr_channel s = Some (lr_active s)) \<and>
     (lr_receiver s \<longleftrightarrow> (\<forall>ok. lr_caller s \<noteq> CallerReturned ok)) \<and>
     (lr_pc s = LoadReplied \<and> lr_channel s = None \<longrightarrow> lr_caller s = CallerReturned (lr_active s)) \<and>
     (lr_caller s = CallerReturned True \<longrightarrow> lr_pc s = LoadReplied \<and> lr_channel s = None)"

lemma race_step_ok: "race_ok s \<Longrightarrow> race_ok (race_step s turn)"
  by (cases turn; cases "lr_pc s"; cases "lr_caller s"; cases "lr_channel s")
    (auto simp: race_ok_def load_commit_decision_def)

lemma race_start_ok: "race_ok race_start"
  by (simp add: race_ok_def race_start_def)

interpretation race: event_machine race_step race_ok
  by unfold_locales (rule race_step_ok)

text \<open>
  A LOAD whose caller was told it failed leaves a session behind in one way only. However the steps of
  worker and caller interleave, when both are done, the session is tracked exactly when the caller
  was told \<open>Ok\<close>, or an \<open>Ok\<close> lies unread in the reply channel: the worker's last look at \<open>abandoned\<close> and
  its \<open>send\<close> both fell between the caller's timeout and its store.
\<close>

theorem late_load_window:
  assumes "race_over (foldl race_step race_start turns)"
  shows "lr_active (foldl race_step race_start turns) \<longleftrightarrow>
     lr_caller (foldl race_step race_start turns) = CallerReturned True \<or>
     lr_channel (foldl race_step race_start turns) = Some True"
proof -
  have "race_ok (foldl race_step race_start turns)" by (rule race.run_inv [OF race_start_ok])
  with assms show ?thesis
    by (cases "lr_channel (foldl race_step race_start turns)") (auto simp: race_ok_def race_over_def)
qed

text \<open>The window is real: the caller times out after the worker's last look and before its send.\<close>

definition unlucky_turns :: "race_turn list" where
  "unlucky_turns = replicate 4 (WorkerTurn True) @ [CallerTurn, WorkerTurn True, CallerTurn, CallerTurn]"

theorem late_load_window_witness:
  "(lr_active (foldl race_step race_start unlucky_turns) \<longleftrightarrow>
     lr_caller (foldl race_step race_start unlucky_turns) = CallerReturned True \<or>
     lr_channel (foldl race_step race_start unlucky_turns) = Some True) \<and>
   lr_active (foldl race_step race_start unlucky_turns) \<and>
   lr_caller (foldl race_step race_start unlucky_turns) = CallerReturned False"
proof -
  have run: "foldl race_step race_start unlucky_turns =
      \<lparr>lr_pc = LoadReplied, lr_caller = CallerReturned False, lr_abandoned = True, lr_receiver = False,
       lr_channel = Some True, lr_active = True\<rparr>"
    by (simp add: unlucky_turns_def race_start_def load_commit_decision_def numeral_eq_Suc)
  then have "race_over (foldl race_step race_start unlucky_turns)" by (auto simp: race_over_def)
  from late_load_window [OF this] run show ?thesis by simp
qed

end
