(* ===== verification/Flac_Stream.thy ===== *)
theory Flac_Stream
  imports Audio
begin

text \<open>
  The live FLAC encoder (\<open>src/audio/flac.rs\<close>). The \<open>flacenc\<close> crate is a parameter: \<open>flac_info\<close> builds and
  checks the stream description and the encoder configuration, \<open>flac_head\<close> writes the \<open>fLaC\<close> marker with
  STREAMINFO, \<open>flac_frame\<close> encodes one block as the frame with the given number. \<open>'x\<close> is the crate's
  stream description. The reusable buffers are not modelled: a chunk is its bytes.
\<close>

record 'x flac_api =
  flac_info :: "nat \<Rightarrow> nat \<Rightarrow> nat \<Rightarrow> 'x result"
  flac_head :: "'x \<Rightarrow> u8 list result"
  flac_frame :: "'x \<Rightarrow> nat \<Rightarrow> int list \<Rightarrow> u8 list result"

definition FLAC_BLOCK_SIZE :: usize where
  "FLAC_BLOCK_SIZE = 2048"

definition live_stream_info :: "('x, 'z) flac_api_scheme \<Rightarrow> u32 \<Rightarrow> u16 \<Rightarrow> 'x result" where
  "live_stream_info api rate ch =
     (if ch = 0 then Inl (ErrAudio ''channels must be at least 1'')
      else if rate = 0 then Inl (ErrAudio ''sample_rate must be non-zero'')
      else flac_info api (unat rate) (unat ch) FLAC_BLOCK_SIZE)"

definition max_live_frame_bytes :: "usize \<Rightarrow> usize" where
  "max_live_frame_bytes ch =
     (let bits = usize_sat_mul FLAC_BLOCK_SIZE 17;
          verbatim_subframe = usize_sat_add ((bits + 7) div 8) 1
      in usize_sat_add (usize_sat_mul ch verbatim_subframe) 19)"

definition round_up_to_flac_blocks :: "usize \<Rightarrow> usize" where
  "round_up_to_flac_blocks frames =
     (if frames = 0 then 0
      else usize_sat_mul ((frames + (FLAC_BLOCK_SIZE - 1)) div FLAC_BLOCK_SIZE) FLAC_BLOCK_SIZE)"

record 'x flac_encoder =
  fe_channels :: u16
  fe_info :: 'x
  fe_frame_number :: usize

definition flac_encoder_new :: "('x, 'z) flac_api_scheme \<Rightarrow> u32 \<Rightarrow> u16 \<Rightarrow> 'x flac_encoder result" where
  "flac_encoder_new api rate ch =
     (case live_stream_info api rate ch of
        Inl e \<Rightarrow> Inl e
      | Inr info \<Rightarrow> Inr \<lparr>fe_channels = ch, fe_info = info, fe_frame_number = 0\<rparr>)"

definition header_bytes :: "('x, 'z) flac_api_scheme \<Rightarrow> 'x flac_encoder \<Rightarrow> u8 list result" where
  "header_bytes api enc = flac_head api (fe_info enc)"

definition block_samples :: "u16 \<Rightarrow> nat" where
  "block_samples ch = usize_sat_mul FLAC_BLOCK_SIZE (unat ch)"

definition block_size_error :: "nat \<Rightarrow> u16 \<Rightarrow> error" where
  "block_size_error n ch = ErrAudio (''FLAC block has '' @ show_nat n @ '' samples, expected '' @
     show_nat (block_samples ch) @ '' ('' @ show_nat FLAC_BLOCK_SIZE @ '' frames x '' @ show_nat (unat ch)
     @ '' channels)'')"

definition encode_block ::
  "('x, 'z) flac_api_scheme \<Rightarrow> int list \<Rightarrow> 'x flac_encoder \<Rightarrow> (u8 list \<times> 'x flac_encoder) result" where
  "encode_block api xs enc =
     (if length xs \<noteq> block_samples (fe_channels enc)
      then Inl (block_size_error (length xs) (fe_channels enc))
      else
        (case flac_frame api (fe_info enc) (fe_frame_number enc) xs of
           Inl e \<Rightarrow> Inl e
         | Inr bytes \<Rightarrow> Inr (bytes, enc\<lparr>fe_frame_number := usize_sat_add (fe_frame_number enc) 1\<rparr>)))"

section \<open>Facts\<close>

lemma block_samples_exact: "block_samples ch = 2048 * unat ch"
proof -
  have "unat ch < 65536" using unsigned_less [of ch, where ?'a = nat] by simp
  then have "2048 * unat ch < 2 ^ 64 - 1" by simp
  then show ?thesis by (simp add: block_samples_def FLAC_BLOCK_SIZE_def usize_sat_mul_def usize_max_def)
qed

lemma rounded_to_blocks:
  assumes "frames \<le> 2 ^ 63"
  shows "2048 dvd round_up_to_flac_blocks frames" and "frames \<le> round_up_to_flac_blocks frames"
    and "round_up_to_flac_blocks frames < frames + 2048"
proof -
  let ?r = "(frames + 2047) div 2048 * 2048"
  have le: "?r \<le> frames + 2047" by simp
  with assms have "round_up_to_flac_blocks frames = (if frames = 0 then 0 else ?r)"
    by (simp add: round_up_to_flac_blocks_def FLAC_BLOCK_SIZE_def usize_sat_mul_def usize_max_def)
  moreover have "frames \<le> ?r"
    using div_mult_mod_eq [of "frames + 2047" 2048] mod_less_divisor [of 2048 "frames + 2047"] by linarith
  ultimately show "2048 dvd round_up_to_flac_blocks frames" "frames \<le> round_up_to_flac_blocks frames"
    "round_up_to_flac_blocks frames < frames + 2048"
    using le by (cases "frames = 0"; force)+
qed

lemma encode_block_full:
  assumes "encode_block api xs enc = Inr (bytes, enc')"
  shows "length xs = block_samples (fe_channels enc)"
    and "flac_frame api (fe_info enc) (fe_frame_number enc) xs = Inr bytes"
    and "enc' = enc\<lparr>fe_frame_number := usize_sat_add (fe_frame_number enc) 1\<rparr>"
  using assms by (auto simp: encode_block_def split: if_splits sum.splits)

end
