(* ===== verification/Media_Body.thy ===== *)
theory Media_Body
  imports Media_State Flac_Stream
begin

text \<open>
  The live bodies of \<open>/stream\<close> (\<open>src/media/http.rs\<close>): what a WAV or FLAC body does each time it is polled,
  the silence before a body without audio, the pacing, and the byte count at which a WAV body ends.

  \<open>stream::unfold\<close> polls one closure again and again. Between two accesses to state that other tasks share
  (the generation counter, the ring, the progress cells) anything may happen, so a body is a program
  counter and one function per stretch between two such accesses. \<open>b_out\<close>, \<open>b_taken\<close> and \<open>b_silence\<close> record
  what the body handed out, the samples it took from its ring and the frames of silence it put in front.
  Log lines and reusable buffers are left out.
\<close>

section \<open>Constants and silence\<close>

definition LIVE_CHUNK_FRAMES :: usize where
  "LIVE_CHUNK_FRAMES = 1024"

definition SILENCE_PREROLL :: duration where
  "SILENCE_PREROLL = from_secs 2"

definition PACE_LATE_SLACK :: duration where
  "PACE_LATE_SLACK = from_millis 50"

definition saturating_sub :: "'a::len word \<Rightarrow> 'a word \<Rightarrow> 'a word" where
  "saturating_sub a b = (if b \<le> a then a - b else 0)"

definition live_body_threshold :: "u64 \<Rightarrow> u64" where
  "live_body_threshold cap = max cap 44"

definition silence_preroll_frames :: "u32 \<Rightarrow> pcm_ring \<Rightarrow> usize \<Rightarrow> usize" where
  "silence_preroll_frames rate r min_real_frames =
     (if max min_real_frames 1 \<le> available_frames r then 0
      else unat (saturating_mul (ucast (max rate 1) :: u64) (of_nat (SILENCE_PREROLL div 1000000)) div 1000))"

section \<open>Pacing\<close>

record pace_decision =
  pace_sleep :: "duration option"
  pace_rebaseline :: "duration option"

definition pace_plan ::
  "u64 \<Rightarrow> usize \<Rightarrow> u32 \<Rightarrow> instant \<Rightarrow> instant \<Rightarrow> duration \<Rightarrow> duration \<Rightarrow> pace_decision" where
  "pace_plan frames_emitted next_frames rate origin now live_lead late_slack =
     (let r = (ucast (max rate 1) :: u64);
          total_after = saturating_add frames_emitted (of_nat next_frames);
          audio_ms = saturating_mul total_after 1000 div r;
          due = origin + from_millis (unat audio_ms);
          wake_at = (if live_lead \<le> due then due - live_lead else origin)
      in if now < wake_at then \<lparr>pace_sleep = Some (wake_at - now), pace_rebaseline = None\<rparr>
         else
           let lateness = now - due
           in \<lparr>pace_sleep = None, pace_rebaseline = (if late_slack < lateness then Some lateness else None)\<rparr>)"

text \<open>Yields the new pace origin and the instant before which the chunk is not emitted.\<close>

definition pace_realtime_shared ::
  "u64 \<Rightarrow> instant option \<Rightarrow> u32 \<Rightarrow> usize \<Rightarrow> pcm_ring \<Rightarrow> usize \<Rightarrow> instant \<Rightarrow> instant \<times> instant" where
  "pace_realtime_shared frames_emitted pace_origin rate next_frames r backlog_threshold now =
     (let origin = (case pace_origin of None \<Rightarrow> now | Some t \<Rightarrow> t);
          plan = pace_plan frames_emitted next_frames rate origin now CAST_READ_AHEAD PACE_LATE_SLACK;
          origin' =
            (case pace_rebaseline plan of
               None \<Rightarrow> origin
             | Some lateness \<Rightarrow> if backlog_threshold \<le> available_frames r then origin else origin + lateness)
      in (origin', (case pace_sleep plan of None \<Rightarrow> now | Some d \<Rightarrow> now + d)))"

section \<open>State of a body\<close>

text \<open>
  \<open>BodyReady\<close>: about to run the closure (or the top of its loop). \<open>BodyAvail\<close>: a FLAC body saw a full block
  and is about to look at the generation again. \<open>BodyPop n\<close>: about to pop up to \<open>n\<close> frames. \<open>BodyGot\<close>: popped,
  about to pace. \<open>BodyPaced t\<close>: asleep until \<open>t\<close>, then it encodes and emits. \<open>BodyEmit\<close>: about to emit bytes
  that need no encoding (the header, the final padding).
\<close>

datatype body_pc =
    BodyReady
  | BodyAvail
  | BodyPop usize
  | BodyGot "int list" usize
  | BodyPaced instant "int list" usize
  | BodyEmit "u8 list"
  | BodyEnded

record live_body =
  b_ring :: nat
  b_header :: "u8 list option"
  b_preroll :: usize
  b_channels :: u16
  b_rate :: u32
  b_generation :: u64
  b_sent :: u64
  b_frames :: u64
  b_origin :: "instant option"
  b_pc :: body_pc
  b_out :: "u8 list"
  b_taken :: "int list"
  b_silence :: nat

record wav_body = live_body +
  b_threshold :: u64

record 'x flac_body = live_body +
  b_encoder :: "'x flac_encoder"
  b_blocks :: "int list list"

definition goto :: "body_pc \<Rightarrow> 'z live_body_scheme \<Rightarrow> 'z live_body_scheme" where
  "goto pc b = b\<lparr>b_pc := pc\<rparr>"

definition stale :: "u64 \<Rightarrow> 'z live_body_scheme \<Rightarrow> bool" where
  "stale gen b \<longleftrightarrow> gen \<noteq> b_generation b"

definition i16_to_le_bytes :: "int list \<Rightarrow> u8 list" where
  "i16_to_le_bytes xs = concat (map (\<lambda>x. u16_le (word_of_int x)) xs)"

section \<open>Taking a step\<close>

text \<open>The progress cells of the server after a body emitted (\<open>emit_chunk\<close>).\<close>

definition report_progress :: "u64 \<Rightarrow> instant \<Rightarrow> media_handle \<Rightarrow> media_handle" where
  "report_progress sent now m = m\<lparr>bytes_served := sent, last_body_write := Some now\<rparr>"

definition emit_chunk :: "u8 list \<Rightarrow> usize \<Rightarrow> 'z live_body_scheme \<Rightarrow> 'z live_body_scheme" where
  "emit_chunk chunk pcm_frames b =
     b\<lparr>b_sent := saturating_add (b_sent b) (of_nat (length chunk)),
       b_frames := (if 0 < pcm_frames then saturating_add (b_frames b) (of_nat pcm_frames) else b_frames b),
       b_out := b_out b @ chunk,
       b_pc := BodyReady\<rparr>"

definition crosses_threshold :: "u8 list \<Rightarrow> wav_body \<Rightarrow> bool" where
  "crosses_threshold chunk b \<longleftrightarrow>
     b_sent b < b_threshold b \<and> b_threshold b \<le> saturating_add (b_sent b) (of_nat (length chunk))"

text \<open>A poll of the WAV body up to the pop or the emission (\<open>live_wav_byte_stream\<close>).\<close>

definition wav_room :: "wav_body \<Rightarrow> u64" where
  "wav_room b = saturating_sub (b_threshold b) (b_sent b)"

definition bytes_per_frame :: "u16 \<Rightarrow> u64" where
  "bytes_per_frame ch = saturating_mul (ucast ch) 2"

definition wav_ready :: "u64 \<Rightarrow> wav_body \<Rightarrow> wav_body" where
  "wav_ready gen b =
     (if stale gen b \<or> b_threshold b \<le> b_sent b then goto BodyEnded b
      else
        (case b_header b of
           Some hdr \<Rightarrow> goto (BodyEmit hdr) (b\<lparr>b_header := None\<rparr>)
         | None \<Rightarrow>
             if bytes_per_frame (b_channels b) = 0 then goto BodyEnded b
             else
               let fit = unat (wav_room b div bytes_per_frame (b_channels b)) in
               if fit = 0 then goto (BodyEmit (replicate (unat (wav_room b)) 0)) b
               else if 0 < b_preroll b then
                 let n = min (min (b_preroll b) LIVE_CHUNK_FRAMES) fit in
                 goto (BodyPaced 0 (replicate (usize_sat_mul n (unat (b_channels b))) 0) n)
                   (b\<lparr>b_preroll := b_preroll b - n, b_silence := b_silence b + n\<rparr>)
               else goto (BodyPop (min LIVE_CHUNK_FRAMES fit)) b))"

text \<open>The same for FLAC; the closure looks whether the ring holds a full block.\<close>

definition flac_ready :: "u64 \<Rightarrow> pcm_ring \<Rightarrow> 'x flac_body \<Rightarrow> 'x flac_body" where
  "flac_ready gen r b =
     (if stale gen b then goto BodyEnded b
      else
        (case b_header b of
           Some hdr \<Rightarrow> goto (BodyEmit hdr) (b\<lparr>b_header := None\<rparr>)
         | None \<Rightarrow>
             if 0 < b_preroll b then
               let n = min (b_preroll b) FLAC_BLOCK_SIZE in
               goto (BodyPaced 0 (replicate (usize_sat_mul n (unat (b_channels b))) 0) n)
                 (b\<lparr>b_preroll := b_preroll b - n, b_silence := b_silence b + n\<rparr>)
             else if available_frames r < FLAC_BLOCK_SIZE then b
             else goto BodyAvail b))"

definition flac_avail :: "u64 \<Rightarrow> 'x flac_body \<Rightarrow> 'x flac_body" where
  "flac_avail gen b = (if stale gen b then goto BodyEnded b else goto (BodyPop FLAC_BLOCK_SIZE) b)"

text \<open>
  The pop. An empty ring, and for FLAC a short pop, sends the body back to the top of its loop; the
  generation check after a short FLAC pop is the first thing the loop does.
\<close>

definition wav_pop :: "usize \<Rightarrow> pcm_ring \<Rightarrow> wav_body \<Rightarrow> pcm_ring \<times> wav_body" where
  "wav_pop want r b =
     (case pop_i16 want r of
        (r', frames, xs) \<Rightarrow>
          if frames = 0 then (r', goto BodyReady b)
          else (r', goto (BodyGot xs frames) (b\<lparr>b_taken := b_taken b @ xs\<rparr>)))"

definition flac_pop :: "usize \<Rightarrow> pcm_ring \<Rightarrow> 'x flac_body \<Rightarrow> pcm_ring \<times> 'x flac_body" where
  "flac_pop want r b =
     (case pop_i16 want r of
        (r', frames, xs) \<Rightarrow>
          if frames < FLAC_BLOCK_SIZE then (r', goto BodyReady b)
          else (r', goto (BodyGot xs frames) (b\<lparr>b_taken := b_taken b @ xs\<rparr>)))"

definition pace :: "usize \<Rightarrow> pcm_ring \<Rightarrow> instant \<Rightarrow> int list \<Rightarrow> usize \<Rightarrow> 'z live_body_scheme \<Rightarrow> 'z live_body_scheme" where
  "pace backlog r now xs frames b =
     (case pace_realtime_shared (b_frames b) (b_origin b) (b_rate b) frames r backlog now of
        (origin, wake) \<Rightarrow> goto (BodyPaced wake xs frames) (b\<lparr>b_origin := Some origin\<rparr>))"

definition flac_got :: "u64 \<Rightarrow> pcm_ring \<Rightarrow> instant \<Rightarrow> int list \<Rightarrow> usize \<Rightarrow> 'x flac_body \<Rightarrow> 'x flac_body" where
  "flac_got gen r now xs frames b =
     (if stale gen b then goto BodyEnded b else pace FLAC_BLOCK_SIZE r now xs frames b)"

definition flac_encode ::
  "('x, 'z) flac_api_scheme \<Rightarrow> int list \<Rightarrow> usize \<Rightarrow> 'x flac_body \<Rightarrow> u8 list option \<times> 'x flac_body" where
  "flac_encode api xs frames b =
     (case encode_block api xs (b_encoder b) of
        Inl _ \<Rightarrow> (None, goto BodyEnded b)
      | Inr (chunk, enc) \<Rightarrow>
          (Some chunk, emit_chunk chunk frames (b\<lparr>b_encoder := enc, b_blocks := b_blocks b @ [xs]\<rparr>)))"

end
