(* ===== verification/Media_Server.thy ===== *)
theory Media_Server
  imports Media_Body
begin

text \<open>
  The media server with its requests and live bodies (\<open>src/media/http.rs\<close>): \<open>serve_stream\<close>,
  \<open>serve_stream_head\<close>, \<open>serve_artwork\<close>, the handle operations of the bridge, the rings that AirPlay fills, and
  every interleaving of them. The number of polls and the clock at each step are the schedule's.

  \<open>header_ok\<close> tells which strings the \<open>http\<close> crate accepts as a header value. A response holds what the
  handler sets; what \<open>hyper\<close> adds is not part of it.
\<close>

section \<open>Responses\<close>

record 'x media_api = "'x flac_api" +
  header_ok :: "string \<Rightarrow> bool"

record http_response =
  status_code :: nat
  content_type_header :: "string option"
  content_length_header :: "nat option"
  accept_ranges_none :: bool
  cache_forever :: bool

definition plain_response :: "nat \<Rightarrow> http_response" where
  "plain_response code = \<lparr>status_code = code, content_type_header = None, content_length_header = None,
     accept_ranges_none = False, cache_forever = False\<rparr>"

definition typed :: "'x media_api \<Rightarrow> string \<Rightarrow> http_response \<Rightarrow> http_response" where
  "typed api t r = (if header_ok api t then r\<lparr>content_type_header := Some t\<rparr> else r)"

definition serve_artwork :: "'x media_api \<Rightarrow> u64 \<Rightarrow> media_handle \<Rightarrow> http_response \<times> u8 list" where
  "serve_artwork api i m =
     (case served_artwork m of
        Some art \<Rightarrow>
          if art_id art = i
          then ((typed api (art_type art) (plain_response 200))\<lparr>cache_forever := True\<rparr>, art_body art)
          else (plain_response 404, [])
      | None \<Rightarrow> (plain_response 404, []))"

definition live_response :: "string \<Rightarrow> nat option \<Rightarrow> http_response" where
  "live_response t len = \<lparr>status_code = 200, content_type_header = Some t, content_length_header = len,
     accept_ranges_none = True, cache_forever = False\<rparr>"

definition serve_stream_head :: "'x media_api \<Rightarrow> media_handle \<Rightarrow> http_response" where
  "serve_stream_head api m =
     (case content m of
        StaticBody t body \<Rightarrow> (typed api t (plain_response 200))\<lparr>content_length_header := Some (length body)\<rparr>
      | LiveWav _ _ _ \<Rightarrow> live_response ''audio/wav'' (Some (unat LIVE_CONTENT_LENGTH))
      | LiveFlac _ _ _ \<Rightarrow> live_response ''audio/flac'' None
      | EmptyContent \<Rightarrow> plain_response 404)"

section \<open>GET\<close>

definition new_live_body :: "nat \<Rightarrow> u8 list \<Rightarrow> usize \<Rightarrow> u16 \<Rightarrow> u32 \<Rightarrow> u64 \<Rightarrow> live_body" where
  "new_live_body ring hdr preroll ch rate gen =
     \<lparr>b_ring = ring, b_header = Some hdr, b_preroll = preroll, b_channels = ch, b_rate = rate,
      b_generation = gen, b_sent = 0, b_frames = 0, b_origin = None, b_pc = BodyReady, b_out = [],
      b_taken = [], b_silence = 0\<rparr>"

definition live_wav_response ::
  "nat \<Rightarrow> u16 \<Rightarrow> u32 \<Rightarrow> u64 \<Rightarrow> u64 \<Rightarrow> pcm_ring \<Rightarrow> http_response \<times> wav_body option" where
  "live_wav_response ring chans rate gen cap r =
     (let ch = max chans 1; rt = max rate 1; threshold = live_body_threshold cap in
      case continuous_wav_header ch rt of
        Inl _ \<Rightarrow> (plain_response 500, None)
      | Inr hdr \<Rightarrow>
          (live_response ''audio/wav'' (Some (unat threshold)),
           Some (live_body.extend (new_live_body ring hdr (silence_preroll_frames rt r 1) ch rt gen)
             (wav_body.fields threshold))))"

definition live_flac_response ::
  "'x media_api \<Rightarrow> nat \<Rightarrow> u16 \<Rightarrow> u32 \<Rightarrow> u64 \<Rightarrow> pcm_ring \<Rightarrow> http_response \<times> 'x flac_body option" where
  "live_flac_response api ring chans rate gen r =
     (let ch = max chans 1; rt = max rate 1 in
      case flac_encoder_new api rt ch of
        Inl _ \<Rightarrow> (plain_response 500, None)
      | Inr enc \<Rightarrow>
          (case header_bytes api enc of
             Inl _ \<Rightarrow> (plain_response 500, None)
           | Inr hdr \<Rightarrow>
               (live_response ''audio/flac'' None,
                Some (live_body.extend
                  (new_live_body ring hdr
                    (round_up_to_flac_blocks (silence_preroll_frames rt r FLAC_BLOCK_SIZE)) ch rt gen)
                  (flac_body.fields enc [])))))"

section \<open>The server\<close>

text \<open>
  A GET reads the content slot, then (for live content) takes a generation, then resets the progress cells and
  opens its body.
\<close>

datatype get_pc = GetRead media_content | GetOpened media_content u64

datatype 'x stream_body = WavStream wav_body | FlacStream "'x flac_body"

record 'x media_sys =
  sy_handle :: media_handle
  sy_rollovers :: u64
  sy_rings :: "nat \<Rightarrow> pcm_ring"
  sy_gets :: "get_pc list"
  sy_bodies :: "'x stream_body list"
  sy_replies :: "http_response list"

definition reply :: "http_response \<Rightarrow> 'x media_sys \<Rightarrow> 'x media_sys" where
  "reply r s = s\<lparr>sy_replies := sy_replies s @ [r]\<rparr>"

definition edit_handle_of :: "(media_handle \<Rightarrow> media_handle) \<Rightarrow> 'x media_sys \<Rightarrow> 'x media_sys" where
  "edit_handle_of f s = s\<lparr>sy_handle := f (sy_handle s)\<rparr>"

definition set_ring :: "nat \<Rightarrow> pcm_ring \<Rightarrow> 'x media_sys \<Rightarrow> 'x media_sys" where
  "set_ring i r s = s\<lparr>sy_rings := (sy_rings s)(i := r)\<rparr>"

definition reset_progress :: "media_handle \<Rightarrow> media_handle" where
  "reset_progress m = m\<lparr>bytes_served := 0, last_body_write := None\<rparr>"

definition remove_nth :: "nat \<Rightarrow> 'a list \<Rightarrow> 'a list" where
  "remove_nth i xs = take i xs @ drop (i + 1) xs"

definition open_body :: "http_response \<Rightarrow> 'x stream_body option \<Rightarrow> 'x media_sys \<Rightarrow> 'x media_sys" where
  "open_body resp b s =
     (case b of
        None \<Rightarrow> reply resp (edit_handle_of reset_progress s)
      | Some body \<Rightarrow> reply resp ((edit_handle_of reset_progress s)\<lparr>sy_bodies := sy_bodies s @ [body]\<rparr>))"

definition get_step :: "'x media_api \<Rightarrow> nat \<Rightarrow> 'x media_sys \<Rightarrow> 'x media_sys" where
  "get_step api i s =
     (if length (sy_gets s) \<le> i then s
      else
        (case sy_gets s ! i of
           GetRead (StaticBody t body) \<Rightarrow>
             reply (typed api t (plain_response 200)) (s\<lparr>sy_gets := remove_nth i (sy_gets s)\<rparr>)
         | GetRead EmptyContent \<Rightarrow> reply (plain_response 404) (s\<lparr>sy_gets := remove_nth i (sy_gets s)\<rparr>)
         | GetRead c \<Rightarrow>
             (edit_handle_of end_live_bodies s)
               \<lparr>sy_gets := (sy_gets s)[i := GetOpened c (live_generation (sy_handle s) + 1)]\<rparr>
         | GetOpened (LiveWav r ch rate) gen \<Rightarrow>
             (case live_wav_response (ring_ptr r) ch rate gen (max_body_bytes (sy_handle s))
                     (sy_rings s (ring_ptr r)) of
                (resp, b) \<Rightarrow>
                  open_body resp (map_option WavStream b) (s\<lparr>sy_gets := remove_nth i (sy_gets s)\<rparr>))
         | GetOpened (LiveFlac r ch rate) gen \<Rightarrow>
             (case live_flac_response api (ring_ptr r) ch rate gen (sy_rings s (ring_ptr r)) of
                (resp, b) \<Rightarrow>
                  open_body resp (map_option FlacStream b) (s\<lparr>sy_gets := remove_nth i (sy_gets s)\<rparr>))
         | GetOpened _ _ \<Rightarrow> s))"

definition wav_emit :: "u8 list \<Rightarrow> usize \<Rightarrow> instant \<Rightarrow> 'x media_sys \<Rightarrow> wav_body \<Rightarrow> 'x media_sys \<times> wav_body" where
  "wav_emit chunk frames now s b =
     (let b' = emit_chunk chunk frames b;
          s' = edit_handle_of (report_progress (b_sent b') now) s
      in (if crosses_threshold chunk b then s'\<lparr>sy_rollovers := sy_rollovers s' + 1\<rparr> else s', b'))"

definition wav_step :: "instant \<Rightarrow> 'x media_sys \<Rightarrow> wav_body \<Rightarrow> 'x media_sys \<times> wav_body" where
  "wav_step now s b =
     (let gen = live_generation (sy_handle s); r = sy_rings s (b_ring b) in
      case b_pc b of
        BodyReady \<Rightarrow> (s, wav_ready gen b)
      | BodyPop want \<Rightarrow> (case wav_pop want r b of (r', b') \<Rightarrow> (set_ring (b_ring b) r' s, b'))
      | BodyGot xs frames \<Rightarrow> (s, pace LIVE_CHUNK_FRAMES r now xs frames b)
      | BodyPaced wake xs frames \<Rightarrow>
          if now < wake then (s, b) else wav_emit (i16_to_le_bytes xs) frames now s b
      | BodyEmit chunk \<Rightarrow> wav_emit chunk 0 now s b
      | BodyAvail \<Rightarrow> (s, b)
      | BodyEnded \<Rightarrow> (s, b))"

definition flac_step ::
  "'x media_api \<Rightarrow> instant \<Rightarrow> 'x media_sys \<Rightarrow> 'x flac_body \<Rightarrow> 'x media_sys \<times> 'x flac_body" where
  "flac_step api now s b =
     (let gen = live_generation (sy_handle s); r = sy_rings s (b_ring b) in
      case b_pc b of
        BodyReady \<Rightarrow> (s, flac_ready gen r b)
      | BodyAvail \<Rightarrow> (s, flac_avail gen b)
      | BodyPop want \<Rightarrow> (case flac_pop want r b of (r', b') \<Rightarrow> (set_ring (b_ring b) r' s, b'))
      | BodyGot xs frames \<Rightarrow> (s, flac_got gen r now xs frames b)
      | BodyPaced wake xs frames \<Rightarrow>
          if now < wake then (s, b)
          else
            (case flac_encode api xs frames b of
               (None, b') \<Rightarrow> (s, b')
             | (Some chunk, b') \<Rightarrow> (edit_handle_of (report_progress (b_sent b') now) s, b'))
      | BodyEmit chunk \<Rightarrow>
          (let b' = emit_chunk chunk 0 b in (edit_handle_of (report_progress (b_sent b') now) s, b'))
      | BodyEnded \<Rightarrow> (s, b))"

definition body_step :: "'x media_api \<Rightarrow> nat \<Rightarrow> instant \<Rightarrow> 'x media_sys \<Rightarrow> 'x media_sys" where
  "body_step api i now s =
     (if length (sy_bodies s) \<le> i then s
      else
        (case sy_bodies s ! i of
           WavStream b \<Rightarrow>
             (case wav_step now s b of (s', b') \<Rightarrow> s'\<lparr>sy_bodies := (sy_bodies s)[i := WavStream b']\<rparr>)
         | FlacStream b \<Rightarrow>
             (case flac_step api now s b of (s', b') \<Rightarrow> s'\<lparr>sy_bodies := (sy_bodies s)[i := FlacStream b']\<rparr>)))"

text \<open>
  \<open>EvGet\<close> starts a GET, \<open>EvGetStep\<close> and \<open>EvBody\<close> advance one, \<open>EvRing\<close> is an operation of AirPlay on a ring (a push
  or a flush), the others are calls of the bridge.
\<close>

datatype media_event =
    EvGet
  | EvGetStep nat
  | EvBody nat instant
  | EvRing nat ring_op
  | EvSetContent media_content
  | EvSetArtwork "artwork option"
  | EvSetCap u64
  | EvEndBodies
  | EvInvalidate
  | EvShutdown

definition media_step :: "'x media_api \<Rightarrow> 'x media_sys \<Rightarrow> media_event \<Rightarrow> 'x media_sys" where
  "media_step api s e =
     (case e of
        EvGet \<Rightarrow> s\<lparr>sy_gets := sy_gets s @ [GetRead (content (sy_handle s))]\<rparr>
      | EvGetStep i \<Rightarrow> get_step api i s
      | EvBody i now \<Rightarrow> body_step api i now s
      | EvRing i x \<Rightarrow> set_ring i (fst (ring_apply x (sy_rings s i))) s
      | EvSetContent c \<Rightarrow> edit_handle_of (set_content c) s
      | EvSetArtwork a \<Rightarrow> edit_handle_of (set_artwork a) s
      | EvSetCap n \<Rightarrow> edit_handle_of (set_max_body_bytes n) s
      | EvEndBodies \<Rightarrow> edit_handle_of end_live_bodies s
      | EvInvalidate \<Rightarrow> edit_handle_of invalidate_live s
      | EvShutdown \<Rightarrow> edit_handle_of media_shutdown s)"

definition media_start :: "string \<Rightarrow> (nat \<Rightarrow> pcm_ring) \<Rightarrow> 'x media_sys" where
  "media_start url rings =
     \<lparr>sy_handle = \<lparr>base_url = url, content = EmptyContent, live_generation = 0,
        max_body_bytes = LIVE_CONTENT_LENGTH, bytes_served = 0, last_body_write = None,
        served_artwork = None, serving = True\<rparr>,
      sy_rollovers = 0, sy_rings = rings, sy_gets = [], sy_bodies = [], sy_replies = []\<rparr>"

section \<open>The rollover signal\<close>

text \<open>
  \<open>RolloverSignal\<close> with one waiter in \<open>wait_past\<close>. \<open>signal\<close> stores the count and then calls \<open>notify_waiters\<close>, which
  wakes exactly the \<open>Notified\<close> futures created before it (the documented behaviour of \<open>tokio::sync::Notify\<close>); other
  threads may come between. \<open>rs_epoch\<close> counts the calls of \<open>notify_waiters\<close>, a future remembers the epoch it
  was created in, and \<open>rs_between\<close> counts the signals that stored but did not notify yet.
\<close>

datatype wait_pc = WaitCheck | WaitRegister | WaitRecheck nat | WaitNotified nat | WaitReturned u64

record rollover_signal =
  rs_count :: u64
  rs_epoch :: nat
  rs_between :: nat
  rs_waiter :: wait_pc

datatype rollover_event = SignalStore | SignalNotify | WaiterStep

definition signal_step :: "u64 \<Rightarrow> rollover_signal \<Rightarrow> rollover_event \<Rightarrow> rollover_signal" where
  "signal_step seen s e =
     (case e of
        SignalStore \<Rightarrow> s\<lparr>rs_count := rs_count s + 1, rs_between := rs_between s + 1\<rparr>
      | SignalNotify \<Rightarrow>
          if rs_between s = 0 then s else s\<lparr>rs_epoch := rs_epoch s + 1, rs_between := rs_between s - 1\<rparr>
      | WaiterStep \<Rightarrow>
          (case rs_waiter s of
             WaitCheck \<Rightarrow>
               s\<lparr>rs_waiter := (if seen < rs_count s then WaitReturned (rs_count s) else WaitRegister)\<rparr>
           | WaitRegister \<Rightarrow> s\<lparr>rs_waiter := WaitRecheck (rs_epoch s)\<rparr>
           | WaitRecheck at \<Rightarrow>
               s\<lparr>rs_waiter := (if seen < rs_count s then WaitReturned (rs_count s) else WaitNotified at)\<rparr>
           | WaitNotified at \<Rightarrow> if at < rs_epoch s then s\<lparr>rs_waiter := WaitCheck\<rparr> else s
           | WaitReturned n \<Rightarrow> s))"

definition rollover_start :: "u64 \<Rightarrow> rollover_signal" where
  "rollover_start n = \<lparr>rs_count = n, rs_epoch = 0, rs_between = 0, rs_waiter = WaitCheck\<rparr>"

end
