(* ===== verification/Media_Wf.thy ===== *)
theory Media_Wf
  imports Media_Server
begin

text \<open>
  Invariants of the live bodies and of the media server: what a WAV and a FLAC body have handed out at
  every program counter, when a WAV body signals a rollover, and that each GET gets a generation of its own.
\<close>

section \<open>Arithmetic\<close>

lemma u16_below: "unat (ch :: u16) < 65536"
  using unsigned_less [of ch, where ?'a = nat] by simp

lemma bytes_per_frame_unat: "unat (bytes_per_frame ch) = 2 * unat ch"
proof -
  have small: "unat ch < 65536" by (rule u16_below)
  then have c: "unat (ucast ch :: u64) = unat ch" by (simp add: unsigned_ucast_eq take_bit_nat_eq_self)
  with small have "unat (ucast ch :: u64) * unat (2 :: u64) < 2 ^ 64" by simp
  with c small show ?thesis
    by (simp add: bytes_per_frame_def saturating_mul_def unat_word_ariths)
qed

lemma small_sat_mul: "n \<le> 2048 \<Longrightarrow> usize_sat_mul n (unat (ch :: u16)) = n * unat ch"
proof -
  assume "n \<le> 2048"
  then have "n * unat ch \<le> 2048 * 65536" by (intro mult_mono) (use u16_below [of ch] in simp_all)
  then show ?thesis by (simp add: usize_sat_mul_def usize_max_def)
qed

lemma saturating_add_exact:
  assumes "unat a + n < 2 ^ 64"
  shows "unat (saturating_add (a :: u64) (of_nat n)) = unat a + n"
proof -
  have "unat (of_nat n :: u64) = n" using assms by (simp add: unat_of_nat)
  with assms show ?thesis by (simp add: saturating_add_def unat_word_ariths)
qed

lemma room_unat: "b_sent b \<le> b_threshold b \<Longrightarrow> unat (wav_room b) = unat (b_threshold b) - unat (b_sent b)"
  by (simp add: wav_room_def saturating_sub_def unat_sub word_le_nat_alt)

lemma le_bytes_length [simp]: "length (i16_to_le_bytes xs) = 2 * length xs"
  by (induction xs) (simp_all add: i16_to_le_bytes_def u16_le_def)

lemma le_bytes_empty [simp]: "i16_to_le_bytes xs = [] \<longleftrightarrow> xs = []" "[] = i16_to_le_bytes xs \<longleftrightarrow> xs = []"
  by (cases xs; simp add: i16_to_le_bytes_def u16_le_def)+

lemma le_bytes_append [simp]: "i16_to_le_bytes (xs @ ys) = i16_to_le_bytes xs @ i16_to_le_bytes ys"
  by (simp add: i16_to_le_bytes_def)

lemma pop_i16_frames:
  assumes "pop_i16 want r = (r', frames, xs)" and "want \<le> 2048"
    and "channel_count r = unat (ch :: u16)"
  shows "frames \<le> want" and "length xs = frames * unat ch" and "channel_count r' = channel_count r"
proof -
  let ?n = "take_frames_of want r"
  have n: "?n \<le> want" by (simp add: take_frames_of_def)
  then have mul: "usize_sat_mul ?n (channel_count r) = ?n * unat ch"
    using assms(2) small_sat_mul [of ?n ch] by (simp add: assms(3))
  have "?n * unat ch \<le> length (samples r) div unat ch * unat ch"
    by (simp add: take_frames_of_def assms(3))
  also have "\<dots> \<le> length (samples r)" by simp
  finally have fits: "?n * unat ch \<le> length (samples r)" .
  show "frames \<le> want" "length xs = frames * unat ch" "channel_count r' = channel_count r"
    using assms(1) n fits
    by (auto simp: pop_i16_def Let_def mul split: if_splits) (simp_all add: channel_count_def)
qed

section \<open>A WAV body\<close>

text \<open>What a body has to hand out so far: its header, its silence, and the samples it took, in order.\<close>

definition wav_head :: "wav_body \<Rightarrow> u8 list" where
  "wav_head b = (case continuous_wav_header (b_channels b) (b_rate b) of Inl _ \<Rightarrow> [] | Inr h \<Rightarrow> h)"

definition body_pcm :: "'z live_body_scheme \<Rightarrow> int list" where
  "body_pcm b = replicate (b_silence b * unat (b_channels b)) 0 @ b_taken b"

definition wav_bytes :: "wav_body \<Rightarrow> u8 list" where
  "wav_bytes b = wav_head b @ i16_to_le_bytes (body_pcm b)"

definition untouched :: "'z live_body_scheme \<Rightarrow> bool" where
  "untouched b \<longleftrightarrow> b_out b = [] \<and> b_silence b = 0 \<and> b_taken b = []"

definition fits_in :: "nat \<Rightarrow> wav_body \<Rightarrow> bool" where
  "fits_in n b \<longleftrightarrow> 0 < n \<and> length (b_out b) + n \<le> unat (b_threshold b)"

definition wav_idle :: "wav_body \<Rightarrow> bool" where
  "wav_idle b \<longleftrightarrow>
     (case b_header b of
        Some h \<Rightarrow> h = wav_head b \<and> untouched b
      | None \<Rightarrow> b_out b = wav_bytes b \<or>
          (length (b_out b) = unat (b_threshold b) \<and> (\<exists>k. b_out b = wav_bytes b @ replicate k 0)))"

definition wav_pc_ok :: "wav_body \<Rightarrow> bool" where
  "wav_pc_ok b \<longleftrightarrow>
     (case b_pc b of
        BodyReady \<Rightarrow> wav_idle b
      | BodyEnded \<Rightarrow> wav_idle b
      | BodyAvail \<Rightarrow> False
      | BodyPop n \<Rightarrow> b_header b = None \<and> b_preroll b = 0 \<and> b_out b = wav_bytes b \<and> n \<le> LIVE_CHUNK_FRAMES \<and>
          fits_in (2 * (n * unat (b_channels b))) b
      | BodyGot xs n \<Rightarrow> b_header b = None \<and> b_out b @ i16_to_le_bytes xs = wav_bytes b \<and> fits_in (2 * length xs) b
      | BodyPaced t xs n \<Rightarrow>
          b_header b = None \<and> b_out b @ i16_to_le_bytes xs = wav_bytes b \<and> fits_in (2 * length xs) b
      | BodyEmit chunk \<Rightarrow> b_header b = None \<and> fits_in (length chunk) b \<and>
          (untouched b \<and> chunk = wav_head b \<or>
           b_out b = wav_bytes b \<and> chunk = replicate (length chunk) 0 \<and>
           length (b_out b) + length chunk = unat (b_threshold b)))"

definition wav_ok :: "wav_body \<Rightarrow> bool" where
  "wav_ok b \<longleftrightarrow> b_channels b \<noteq> 0 \<and> 44 \<le> unat (b_threshold b) \<and> length (wav_head b) = 44 \<and>
     unat (b_sent b) = length (b_out b) \<and> length (b_out b) \<le> unat (b_threshold b) \<and>
     (0 < b_preroll b \<longrightarrow> b_taken b = []) \<and> wav_pc_ok b"

lemma wav_head_length: "ch \<noteq> 0 \<Longrightarrow> rt \<noteq> 0 \<Longrightarrow> \<exists>h. continuous_wav_header ch rt = Inr h \<and> length h = 44"
  using wav_layout [of ch rt "- 1 div 2"] by (auto simp: continuous_wav_header_def)

lemma goto_simps [simp]:
  "b_ring (goto pc b) = b_ring b" "b_header (goto pc b) = b_header b" "b_preroll (goto pc b) = b_preroll b"
  "b_channels (goto pc b) = b_channels b" "b_rate (goto pc b) = b_rate b" "b_generation (goto pc b) = b_generation b"
  "b_sent (goto pc b) = b_sent b" "b_frames (goto pc b) = b_frames b" "b_origin (goto pc b) = b_origin b"
  "b_pc (goto pc b) = pc" "b_out (goto pc b) = b_out b" "b_taken (goto pc b) = b_taken b"
  "b_silence (goto pc b) = b_silence b"
  by (simp_all add: goto_def)

lemma goto_wav_simps [simp]:
  "b_threshold (goto pc b) = b_threshold b" "wav_head (goto pc b) = wav_head b" "wav_bytes (goto pc b) = wav_bytes b"
  by (simp_all add: goto_def wav_head_def wav_bytes_def body_pcm_def)

lemma pcm_simps [simp]:
  "body_pcm (goto pc b) = body_pcm b" "untouched (goto pc b) = untouched b"
  "body_pcm (b\<lparr>b_header := h\<rparr>) = body_pcm b" "untouched (b\<lparr>b_header := h\<rparr>) = untouched b"
  "body_pcm (b\<lparr>b_origin := t\<rparr>) = body_pcm b"
  by (simp_all add: goto_def body_pcm_def untouched_def)

lemma update_wav_simps [simp]:
  "wav_head (b\<lparr>b_header := h\<rparr>) = wav_head b" "wav_bytes (b\<lparr>b_header := h\<rparr>) = wav_bytes b"
  "wav_head (b\<lparr>b_origin := t\<rparr>) = wav_head b" "wav_bytes (b\<lparr>b_origin := t\<rparr>) = wav_bytes b"
  "wav_head (b\<lparr>b_taken := xs\<rparr>) = wav_head b"
  "wav_head (b\<lparr>b_preroll := n, b_silence := m\<rparr>) = wav_head b"
  by (simp_all add: wav_head_def wav_bytes_def)

lemma idle_goto [simp]: "wav_idle (goto pc b) = wav_idle b"
  by (simp add: wav_idle_def cong: option.case_cong)

lemma taken_bytes: "wav_bytes (b\<lparr>b_taken := b_taken b @ xs\<rparr>) = wav_bytes b @ i16_to_le_bytes xs"
  by (simp add: wav_bytes_def body_pcm_def)

lemma silence_bytes:
  "b_taken b = [] \<Longrightarrow> wav_bytes (b\<lparr>b_preroll := k, b_silence := b_silence b + n\<rparr>) =
     wav_bytes b @ i16_to_le_bytes (replicate (n * unat (b_channels b)) 0)"
  by (simp add: wav_bytes_def body_pcm_def replicate_add add_mult_distrib)

lemma wav_ready_ok:
  assumes ok: "wav_ok b" and pc: "b_pc b = BodyReady"
  shows "wav_ok (wav_ready gen b)"
proof (cases "stale gen b \<or> b_threshold b \<le> b_sent b")
  case True
  with assms show ?thesis by (simp add: wav_ready_def wav_ok_def wav_pc_ok_def)
next
  case False
  then have below: "b_sent b < b_threshold b" by (simp add: not_le)
  then have room: "unat (wav_room b) = unat (b_threshold b) - length (b_out b)" "length (b_out b) < unat (b_threshold b)"
    using ok by (simp_all add: room_unat wav_ok_def less_imp_le word_less_nat_alt)
  show ?thesis
  proof (cases "b_header b")
    case (Some h)
    with False assms show ?thesis
      by (simp add: wav_ready_def wav_ok_def wav_pc_ok_def wav_idle_def fits_in_def untouched_def)
  next
    case None
    let ?ch = "unat (b_channels b)"
    have ch: "0 < ?ch" using ok by (simp add: wav_ok_def unat_gt_0)
    have bpf: "unat (bytes_per_frame (b_channels b)) = 2 * ?ch" by (rule bytes_per_frame_unat)
    with ch have bpf0: "bytes_per_frame (b_channels b) \<noteq> 0" by (metis mult_eq_0_iff nat_less_le unat_eq_zero zero_neq_numeral)
    define fit where "fit = unat (wav_room b div bytes_per_frame (b_channels b))"
    have fit: "fit = (unat (b_threshold b) - length (b_out b)) div (2 * ?ch)"
      by (simp add: fit_def unat_div bpf room)
    have bytes: "b_out b = wav_bytes b"
      using ok pc None room(2) by (auto simp: wav_ok_def wav_pc_ok_def wav_idle_def)
    have out: "unat (b_sent b) = length (b_out b)" using ok by (simp add: wav_ok_def)
    have within: "2 * (n * ?ch) \<le> unat (b_threshold b) - length (b_out b)" if "n \<le> fit" for n
    proof -
      have "n * (2 * ?ch) \<le> fit * (2 * ?ch)" using that by simp
      also have "\<dots> \<le> unat (b_threshold b) - length (b_out b)" unfolding fit by (rule div_times_less_eq_dividend)
      finally show ?thesis by (simp add: ac_simps)
    qed
    show ?thesis
    proof (cases "fit = 0")
      case True
      with False None bpf0 ok bytes room show ?thesis
        by (simp add: wav_ready_def wav_ok_def wav_pc_ok_def fit_def [symmetric] fits_in_def Let_def)
    next
      case nonzero: False
      show ?thesis
      proof (cases "0 < b_preroll b")
        case True
        define n where "n = min (min (b_preroll b) LIVE_CHUNK_FRAMES) fit"
        have n: "0 < n" "n \<le> fit" "n \<le> 1024" using True nonzero by (simp_all add: n_def LIVE_CHUNK_FRAMES_def)
        then have mul: "usize_sat_mul n ?ch = n * ?ch" by (simp add: small_sat_mul)
        then have room_n: "0 < 2 * (n * ?ch)" "length (b_out b) + 2 * (n * ?ch) \<le> unat (b_threshold b)"
          using n ch within [of n] room(2) by (simp_all)
        have "wav_ready gen b = goto (BodyPaced 0 (replicate (n * ?ch) 0) n)
            (b\<lparr>b_preroll := b_preroll b - n, b_silence := b_silence b + n\<rparr>)"
          using False None bpf0 nonzero True mul
          by (simp add: wav_ready_def fit_def [symmetric] n_def [symmetric] Let_def)
        with ok True None bytes room_n show ?thesis
          by (simp add: wav_ok_def wav_pc_ok_def fits_in_def silence_bytes)
      next
        case no_preroll: False
        define n where "n = min LIVE_CHUNK_FRAMES fit"
        have n: "0 < n" "n \<le> fit" using nonzero by (simp_all add: n_def LIVE_CHUNK_FRAMES_def)
        then have room_n: "0 < 2 * (n * ?ch)" "length (b_out b) + 2 * (n * ?ch) \<le> unat (b_threshold b)"
          using ch within [of n] room(2) by (simp_all)
        have "wav_ready gen b = goto (BodyPop n) b"
          using False None bpf0 nonzero no_preroll
          by (simp add: wav_ready_def fit_def [symmetric] n_def [symmetric] Let_def)
        with ok no_preroll None bytes room_n show ?thesis
          by (simp add: wav_ok_def wav_pc_ok_def fits_in_def n_def)
      qed
    qed
  qed
qed

lemma wav_pop_ok:
  assumes ok: "wav_ok b" and pc: "b_pc b = BodyPop n" and r: "channel_count r = unat (b_channels b)"
  shows "wav_ok (snd (wav_pop n r b))" and "channel_count (fst (wav_pop n r b)) = channel_count r"
proof -
  obtain r' frames xs where p: "pop_i16 n r = (r', frames, xs)" by (cases "pop_i16 n r") auto
  have n: "n \<le> 2048" "length (b_out b) + 2 * (n * unat (b_channels b)) \<le> unat (b_threshold b)"
    "b_out b = wav_bytes b" "b_header b = None"
    using ok pc by (auto simp: wav_ok_def wav_pc_ok_def fits_in_def LIVE_CHUNK_FRAMES_def)
  note popped = pop_i16_frames [OF p n(1) r]
  then show "channel_count (fst (wav_pop n r b)) = channel_count r"
    by (simp add: wav_pop_def p)
  have "length xs \<le> n * unat (b_channels b)" unfolding popped(2) using popped(1) by simp
  then have fits: "length (b_out b) + 2 * length xs \<le> unat (b_threshold b)" using n(2) by linarith
  show "wav_ok (snd (wav_pop n r b))"
  proof (cases "frames = 0")
    case True
    with ok pc n show ?thesis
      by (simp add: wav_pop_def p wav_ok_def wav_pc_ok_def wav_idle_def)
  next
    case False
    have "0 < unat (b_channels b)" using ok by (simp add: wav_ok_def unat_gt_0)
    with False have "0 < length xs" by (simp add: popped(2))
    with False ok pc n fits show ?thesis
      by (simp add: wav_pop_def p wav_ok_def wav_pc_ok_def fits_in_def taken_bytes)
  qed
qed

lemma wav_pace_ok:
  "wav_ok b \<Longrightarrow> b_pc b = BodyGot xs n \<Longrightarrow> wav_ok (pace backlog r now xs n b)"
  by (simp add: pace_def case_prod_beta wav_ok_def wav_pc_ok_def fits_in_def)

text \<open>What is emitted, and whether it crosses the end of the body.\<close>

lemma emit_sent:
  assumes "unat (b_sent b) = length (b_out b)" and "length (b_out b) + length chunk < 2 ^ 64"
  shows "unat (b_sent (emit_chunk chunk n b)) = length (b_out b @ chunk)"
  using assms saturating_add_exact [of "b_sent b" "length chunk"] by (simp add: emit_chunk_def)

definition due_chunk :: "wav_body \<Rightarrow> u8 list \<Rightarrow> bool" where
  "due_chunk b chunk \<longleftrightarrow> (b_pc b = BodyEmit chunk \<or>
     (\<exists>t xs n. b_pc b = BodyPaced t xs n \<and> chunk = i16_to_le_bytes xs))"

lemma due_chunk_fits:
  assumes "wav_ok b" and "due_chunk b chunk"
  shows "0 < length chunk" and "length (b_out b) + length chunk \<le> unat (b_threshold b)"
    and "b_out b @ chunk = wav_bytes b \<or>
      length (b_out b @ chunk) = unat (b_threshold b) \<and> (\<exists>k. b_out b @ chunk = wav_bytes b @ replicate k 0)"
    and "b_header b = None"
proof -
  have head: "untouched b \<Longrightarrow> wav_bytes b = wav_head b" "untouched b \<Longrightarrow> b_out b = []"
    by (simp_all add: untouched_def wav_bytes_def body_pcm_def i16_to_le_bytes_def)
  have pad: "chunk = replicate (length chunk) 0 \<Longrightarrow> \<exists>k. chunk = replicate k 0" by metis
  show "0 < length chunk" "length (b_out b) + length chunk \<le> unat (b_threshold b)" "b_header b = None"
    using assms by (auto simp: due_chunk_def wav_ok_def wav_pc_ok_def fits_in_def)
  show "b_out b @ chunk = wav_bytes b \<or>
      length (b_out b @ chunk) = unat (b_threshold b) \<and> (\<exists>k. b_out b @ chunk = wav_bytes b @ replicate k 0)"
    using assms head pad by (auto simp: due_chunk_def wav_ok_def wav_pc_ok_def)
qed

lemma below_u64: "n \<le> unat (t :: u64) \<Longrightarrow> n < 2 ^ 64"
  using unsigned_less [of t, where ?'a = nat] by simp

lemma emit_simps [simp]:
  "b_header (emit_chunk chunk n b) = b_header b" "b_out (emit_chunk chunk n b) = b_out b @ chunk"
  "b_pc (emit_chunk chunk n b) = BodyReady" "b_channels (emit_chunk chunk n b) = b_channels b"
  "b_preroll (emit_chunk chunk n b) = b_preroll b" "b_taken (emit_chunk chunk n b) = b_taken b"
  "b_silence (emit_chunk chunk n b) = b_silence b" "b_generation (emit_chunk chunk n b) = b_generation b"
  "b_ring (emit_chunk chunk n b) = b_ring b" "body_pcm (emit_chunk chunk n b) = body_pcm b"
  by (simp_all add: emit_chunk_def body_pcm_def)

lemma emit_wav_simps [simp]:
  "b_threshold (emit_chunk chunk n b) = b_threshold b" "wav_head (emit_chunk chunk n b) = wav_head b"
  "wav_bytes (emit_chunk chunk n b) = wav_bytes b"
  by (simp_all add: emit_chunk_def wav_head_def wav_bytes_def body_pcm_def)

lemma wav_emit_ok:
  assumes "wav_ok b" and "due_chunk b chunk"
  shows "wav_ok (emit_chunk chunk n b)"
proof -
  note fits = due_chunk_fits [OF assms]
  have "unat (b_sent (emit_chunk chunk n b)) = length (b_out b @ chunk)"
    by (rule emit_sent) (use assms(1) fits(2) below_u64 in \<open>auto simp: wav_ok_def\<close>)
  with assms(1) fits show ?thesis by (simp add: wav_ok_def wav_pc_ok_def wav_idle_def)
qed

definition full_body :: "wav_body \<Rightarrow> bool" where
  "full_body b \<longleftrightarrow> b_threshold b \<le> b_sent b"

lemma crosses_iff_fills:
  assumes "wav_ok b" and "due_chunk b chunk"
  shows "\<not> full_body b" and "crosses_threshold chunk b \<longleftrightarrow> full_body (emit_chunk chunk n b)"
proof -
  have lt: "length (b_out b) < unat (b_threshold b)"
    using due_chunk_fits(1,2) [OF assms] by linarith
  have sent: "unat (b_sent b) = length (b_out b)" using assms(1) by (simp add: wav_ok_def)
  with lt show "\<not> full_body b" by (simp add: full_body_def not_le word_less_nat_alt)
  then show "crosses_threshold chunk b \<longleftrightarrow> full_body (emit_chunk chunk n b)"
    by (simp add: full_body_def crosses_threshold_def not_le) (simp add: emit_chunk_def)
qed

section \<open>A FLAC body\<close>

text \<open>Encoding a list of blocks one after the other.\<close>

fun encode_all ::
  "('x, 'z) flac_api_scheme \<Rightarrow> int list list \<Rightarrow> 'x flac_encoder \<Rightarrow> (u8 list \<times> 'x flac_encoder) result" where
  "encode_all api [] enc = Inr ([], enc)"
| "encode_all api (xs # blocks) enc =
     (case encode_block api xs enc of
        Inl e \<Rightarrow> Inl e
      | Inr (bytes, enc1) \<Rightarrow>
          (case encode_all api blocks enc1 of
             Inl e \<Rightarrow> Inl e
           | Inr (rest, enc2) \<Rightarrow> Inr (bytes @ rest, enc2)))"

lemma encode_all_snoc:
  "encode_all api blocks enc = Inr (bytes, enc1) \<Longrightarrow> encode_block api xs enc1 = Inr (chunk, enc2) \<Longrightarrow>
   encode_all api (blocks @ [xs]) enc = Inr (bytes @ chunk, enc2)"
  by (induction blocks arbitrary: enc bytes) (auto split: sum.splits prod.splits)

definition fresh_encoder :: "'x flac_body \<Rightarrow> 'x flac_encoder" where
  "fresh_encoder b = (b_encoder b)\<lparr>fe_frame_number := 0\<rparr>"

definition flac_head_of :: "('x, 'z) flac_api_scheme \<Rightarrow> 'x flac_body \<Rightarrow> u8 list" where
  "flac_head_of api b = (case header_bytes api (b_encoder b) of Inl _ \<Rightarrow> [] | Inr h \<Rightarrow> h)"

definition flac_sent :: "('x, 'z) flac_api_scheme \<Rightarrow> 'x flac_body \<Rightarrow> bool" where
  "flac_sent api b \<longleftrightarrow> b_header b = None \<and>
     (\<exists>bytes. encode_all api (b_blocks b) (fresh_encoder b) = Inr (bytes, b_encoder b) \<and>
        b_out b = flac_head_of api b @ bytes)"

definition flac_unstarted :: "('x, 'z) flac_api_scheme \<Rightarrow> u8 list \<Rightarrow> 'x flac_body \<Rightarrow> bool" where
  "flac_unstarted api h b \<longleftrightarrow> h = flac_head_of api b \<and> untouched b \<and> b_blocks b = [] \<and>
     fe_frame_number (b_encoder b) = 0"

definition flac_pc_ok :: "('x, 'z) flac_api_scheme \<Rightarrow> 'x flac_body \<Rightarrow> bool" where
  "flac_pc_ok api b \<longleftrightarrow>
     (case b_pc b of
        BodyReady \<Rightarrow>
          (case b_header b of
             Some h \<Rightarrow> flac_unstarted api h b
           | None \<Rightarrow> flac_sent api b \<and> concat (b_blocks b) = body_pcm b)
      | BodyEnded \<Rightarrow>
          (case b_header b of
             Some h \<Rightarrow> flac_unstarted api h b
           | None \<Rightarrow> flac_sent api b \<and> prefix (concat (b_blocks b)) (body_pcm b))
      | BodyAvail \<Rightarrow> flac_sent api b \<and> b_preroll b = 0 \<and> concat (b_blocks b) = body_pcm b
      | BodyPop n \<Rightarrow> flac_sent api b \<and> b_preroll b = 0 \<and> concat (b_blocks b) = body_pcm b \<and> n = FLAC_BLOCK_SIZE
      | BodyGot xs n \<Rightarrow> flac_sent api b \<and> concat (b_blocks b) @ xs = body_pcm b \<and>
          length xs = block_samples (b_channels b)
      | BodyPaced t xs n \<Rightarrow> flac_sent api b \<and> concat (b_blocks b) @ xs = body_pcm b \<and>
          length xs = block_samples (b_channels b)
      | BodyEmit chunk \<Rightarrow> b_header b = None \<and> flac_unstarted api chunk b)"

definition flac_ok :: "('x, 'z) flac_api_scheme \<Rightarrow> 'x flac_body \<Rightarrow> bool" where
  "flac_ok api b \<longleftrightarrow> fe_channels (b_encoder b) = b_channels b \<and> FLAC_BLOCK_SIZE dvd b_preroll b \<and>
     (0 < b_preroll b \<longrightarrow> b_taken b = []) \<and> flac_pc_ok api b"

lemma goto_flac_simps [simp]:
  "b_encoder (goto pc b) = b_encoder b" "b_blocks (goto pc b) = b_blocks b"
  "flac_head_of api (goto pc b) = flac_head_of api b" "fresh_encoder (goto pc b) = fresh_encoder b"
  "flac_sent api (goto pc b) = flac_sent api b" "flac_unstarted api h (goto pc b) = flac_unstarted api h b"
  by (simp_all add: goto_def flac_head_of_def fresh_encoder_def flac_sent_def flac_unstarted_def untouched_def)

lemma update_flac_simps [simp]:
  "flac_sent api (b\<lparr>b_taken := xs\<rparr>) = flac_sent api b" "flac_sent api (b\<lparr>b_origin := t\<rparr>) = flac_sent api b"
  "flac_sent api (b\<lparr>b_preroll := n, b_silence := m\<rparr>) = flac_sent api b"
  "flac_unstarted api h (b\<lparr>b_header := x\<rparr>) = flac_unstarted api h b"
  by (simp_all add: flac_head_of_def fresh_encoder_def flac_sent_def flac_unstarted_def untouched_def)

lemma taken_pcm: "body_pcm (b\<lparr>b_taken := b_taken b @ xs\<rparr>) = body_pcm b @ xs"
  by (simp add: body_pcm_def)

lemma silence_pcm:
  "b_taken b = [] \<Longrightarrow> body_pcm (b\<lparr>b_preroll := k, b_silence := b_silence b + n\<rparr>) =
     body_pcm b @ replicate (n * unat (b_channels b)) 0"
  by (simp add: body_pcm_def replicate_add add_mult_distrib)

lemma flac_ready_ok:
  assumes ok: "flac_ok api b" and pc: "b_pc b = BodyReady"
  shows "flac_ok api (flac_ready gen r b)"
proof (cases "stale gen b")
  case True
  with assms show ?thesis
    by (simp add: flac_ready_def flac_ok_def flac_pc_ok_def cong: option.case_cong)
      (auto split: option.splits)
next
  case False
  show ?thesis
  proof (cases "b_header b")
    case (Some h)
    with False assms show ?thesis by (simp add: flac_ready_def flac_ok_def flac_pc_ok_def)
  next
    case None
    show ?thesis
    proof (cases "0 < b_preroll b")
      case True
      then have n: "min (b_preroll b) FLAC_BLOCK_SIZE = FLAC_BLOCK_SIZE"
        using ok dvd_imp_le [of FLAC_BLOCK_SIZE "b_preroll b"] by (simp add: flac_ok_def)
      have "FLAC_BLOCK_SIZE dvd b_preroll b - FLAC_BLOCK_SIZE" using ok by (simp add: flac_ok_def)
      moreover have "usize_sat_mul FLAC_BLOCK_SIZE (unat (b_channels b)) = FLAC_BLOCK_SIZE * unat (b_channels b)"
        by (rule small_sat_mul) (simp add: FLAC_BLOCK_SIZE_def)
      ultimately show ?thesis
        using False None True assms n
        by (simp add: flac_ready_def flac_ok_def flac_pc_ok_def silence_pcm block_samples_def Let_def)
    next
      case no_preroll: False
      with False None assms show ?thesis
        by (simp add: flac_ready_def flac_ok_def flac_pc_ok_def)
    qed
  qed
qed

lemma flac_avail_ok: "flac_ok api b \<Longrightarrow> b_pc b = BodyAvail \<Longrightarrow> flac_ok api (flac_avail gen b)"
  by (cases "b_header b") (auto simp: flac_avail_def flac_ok_def flac_pc_ok_def flac_sent_def)

lemma flac_pop_ok:
  assumes ok: "flac_ok api b" and pc: "b_pc b = BodyPop n" and r: "channel_count r = unat (b_channels b)"
  shows "flac_ok api (snd (flac_pop n r b))" and "channel_count (fst (flac_pop n r b)) = channel_count r"
proof -
  obtain r' frames xs where p: "pop_i16 n r = (r', frames, xs)" by (cases "pop_i16 n r") auto
  have n: "n = 2048" "n \<le> 2048" "b_header b = None" "b_preroll b = 0"
    using ok pc by (auto simp: flac_ok_def flac_pc_ok_def flac_sent_def FLAC_BLOCK_SIZE_def)
  note popped = pop_i16_frames [OF p n(2) r]
  then show "channel_count (fst (flac_pop n r b)) = channel_count r"
    by (simp add: flac_pop_def p)
  have eq: "snd (flac_pop n r b) = (if frames < FLAC_BLOCK_SIZE then goto BodyReady b
      else goto (BodyGot xs frames) (b\<lparr>b_taken := b_taken b @ xs\<rparr>))"
    by (simp add: flac_pop_def p)
  show "flac_ok api (snd (flac_pop n r b))"
  proof (cases "frames < FLAC_BLOCK_SIZE")
    case True
    with ok pc n(3,4) show ?thesis unfolding eq by (simp add: flac_ok_def flac_pc_ok_def)
  next
    case False
    then have "frames = 2048" using popped(1) n(1) by (simp add: FLAC_BLOCK_SIZE_def)
    then have "length xs = block_samples (b_channels b)" by (simp add: popped(2) block_samples_exact)
    with False ok pc n(3,4) show ?thesis
      unfolding eq by (simp add: flac_ok_def flac_pc_ok_def taken_pcm)
  qed
qed

lemma flac_got_ok:
  assumes "flac_ok api b" and "b_pc b = BodyGot xs n"
  shows "flac_ok api (flac_got gen r now xs n b)"
proof (cases "stale gen b")
  case True
  have "prefix ys (ys @ xs)" for ys by simp
  with True assms show ?thesis
    by (auto simp: flac_got_def flac_ok_def flac_pc_ok_def flac_sent_def)
      (metis prefixI)+
next
  case False
  with assms show ?thesis
    by (simp add: flac_got_def pace_def case_prod_beta flac_ok_def flac_pc_ok_def)
qed

lemma emit_flac_simps [simp]:
  "b_encoder (emit_chunk chunk n b) = b_encoder b" "b_blocks (emit_chunk chunk n b) = b_blocks b"
  "flac_head_of api (emit_chunk chunk n b) = flac_head_of api b"
  "fresh_encoder (emit_chunk chunk n b) = fresh_encoder b"
  by (simp_all add: emit_chunk_def flac_head_of_def fresh_encoder_def)

lemma flac_emit_head_ok:
  assumes "flac_ok api b" and "b_pc b = BodyEmit chunk"
  shows "flac_ok api (emit_chunk chunk 0 b)"
proof -
  have "fe_frame_number (b_encoder b) = 0 \<Longrightarrow> fresh_encoder b = b_encoder b"
    by (simp add: fresh_encoder_def)
  moreover have "untouched b \<Longrightarrow> body_pcm b = []" by (simp add: untouched_def body_pcm_def)
  ultimately show ?thesis
    using assms by (auto simp: flac_ok_def flac_pc_ok_def flac_sent_def flac_unstarted_def untouched_def)
qed

lemma flac_encode_ok:
  assumes ok: "flac_ok api b" and pc: "b_pc b = BodyPaced t xs n"
  shows "flac_ok api (snd (flac_encode api xs n b))"
proof (cases "encode_block api xs (b_encoder b)")
  case (Inl e)
  have "concat (b_blocks b) @ xs = body_pcm b \<Longrightarrow> prefix (concat (b_blocks b)) (body_pcm b)"
    by (metis prefixI)
  with Inl assms show ?thesis
    by (simp add: flac_encode_def flac_ok_def flac_pc_ok_def flac_sent_def)
next
  case (Inr res)
  obtain chunk enc where res: "res = (chunk, enc)" by (cases res)
  note full = encode_block_full [OF Inr [unfolded res]]
  let ?b = "b\<lparr>b_encoder := enc, b_blocks := b_blocks b @ [xs]\<rparr>"
  obtain bytes where bytes: "encode_all api (b_blocks b) (fresh_encoder b) = Inr (bytes, b_encoder b)"
    "b_out b = flac_head_of api b @ bytes" "b_header b = None"
    using ok pc by (auto simp: flac_ok_def flac_pc_ok_def flac_sent_def)
  have same: "fresh_encoder ?b = fresh_encoder b" "flac_head_of api ?b = flac_head_of api b"
    "body_pcm ?b = body_pcm b"
    using full(3) by (simp_all add: fresh_encoder_def flac_head_of_def header_bytes_def body_pcm_def)
  have "encode_all api (b_blocks b @ [xs]) (fresh_encoder b) = Inr (bytes @ chunk, enc)"
    by (rule encode_all_snoc [OF bytes(1) Inr [unfolded res]])
  then have "flac_sent api (emit_chunk chunk n ?b)"
    using bytes same by (simp add: flac_sent_def)
  moreover have "fe_channels enc = fe_channels (b_encoder b)" using full(3) by simp
  ultimately show ?thesis
    using ok pc same bytes(3)
    by (simp add: flac_encode_def Inr res flac_ok_def flac_pc_ok_def)
qed

end
