(* ===== verification/Media_Sys_Wf.thy ===== *)
theory Media_Sys_Wf
  imports Media_Wf "HOL-Library.Multiset"
begin

text \<open>
  The invariant of the whole media server: the channel counts of rings and bodies agree, every body is as
  \<open>Media_Wf\<close> says, the rollover counter counts the bodies that ended at their Content-Length, and no two GETs
  share a generation.
\<close>

section \<open>One step of a body\<close>

fun stream_state :: "'x stream_body \<Rightarrow> live_body" where
  "stream_state (WavStream b) = live_body.truncate b"
| "stream_state (FlacStream b) = live_body.truncate b"

fun stream_full :: "'x stream_body \<Rightarrow> bool" where
  "stream_full (WavStream b) = full_body b"
| "stream_full (FlacStream b) = False"

definition generation_of :: "'x stream_body \<Rightarrow> u64" where
  "generation_of x = b_generation (stream_state x)"

lemma generation_of_simps [simp]:
  "generation_of (WavStream b) = b_generation b" "generation_of (FlacStream c) = b_generation c"
  by (simp_all add: generation_of_def live_body.defs)

fun stream_ok :: "'x media_api \<Rightarrow> (nat \<Rightarrow> nat) \<Rightarrow> 'x stream_body \<Rightarrow> bool" where
  "stream_ok api chs (WavStream b) \<longleftrightarrow> wav_ok b \<and> chs (b_ring b) = unat (b_channels b)"
| "stream_ok api chs (FlacStream b) \<longleftrightarrow> flac_ok api b \<and> chs (b_ring b) = unat (b_channels b)"

definition rings_ok :: "(nat \<Rightarrow> nat) \<Rightarrow> 'x media_sys \<Rightarrow> bool" where
  "rings_ok chs s \<longleftrightarrow> (\<forall>i. channel_count (sy_rings s i) = chs i)"

lemma rings_frames [simp]:
  "rings_ok chs (edit_handle_of f s) = rings_ok chs s" "rings_ok chs (reply x s) = rings_ok chs s"
  "rings_ok chs (s\<lparr>sy_bodies := bs\<rparr>) = rings_ok chs s" "rings_ok chs (s\<lparr>sy_gets := gs\<rparr>) = rings_ok chs s"
  "rings_ok chs (s\<lparr>sy_rollovers := n\<rparr>) = rings_ok chs s"
  by (simp_all add: rings_ok_def edit_handle_of_def reply_def)

lemma rings_set_ring: "rings_ok chs s \<Longrightarrow> channel_count r = chs i \<Longrightarrow> rings_ok chs (set_ring i r s)"
  by (simp add: rings_ok_def set_ring_def)

text \<open>What a step of a body leaves alone.\<close>

definition beside :: "'x media_sys \<Rightarrow> 'x media_sys \<Rightarrow> bool" where
  "beside s t \<longleftrightarrow> sy_gets t = sy_gets s \<and> sy_bodies t = sy_bodies s \<and> sy_replies t = sy_replies s \<and>
     content (sy_handle t) = content (sy_handle s) \<and>
     live_generation (sy_handle t) = live_generation (sy_handle s)"

lemma beside_simps [simp]:
  "beside s s" "beside s (set_ring i r s)" "beside s (edit_handle_of (report_progress n now) s)"
  "beside s ((edit_handle_of (report_progress n now) s)\<lparr>sy_rollovers := k\<rparr>)"
  by (simp_all add: beside_def set_ring_def edit_handle_of_def report_progress_def)

lemma wav_ready_frame [simp]:
  "b_ring (wav_ready gen b) = b_ring b" "b_channels (wav_ready gen b) = b_channels b"
  "b_generation (wav_ready gen b) = b_generation b" "full_body (wav_ready gen b) = full_body b"
  by (auto simp: wav_ready_def full_body_def Let_def split: option.split)

lemma goto_full [simp]: "full_body (goto pc b) = full_body b"
  by (simp add: full_body_def)

lemma emit_threshold_full: "full_body b \<Longrightarrow> wav_ok b \<Longrightarrow> \<not> due_chunk b chunk"
  using crosses_iff_fills(1) by blast

lemma report_keeps_rollovers [simp]:
  "sy_rollovers (edit_handle_of f s) = sy_rollovers s" "sy_rollovers (set_ring i r s) = sy_rollovers s"
  by (simp_all add: edit_handle_of_def set_ring_def)

lemma wav_emit_facts:
  assumes "wav_ok b" and "due_chunk b chunk" and "wav_emit chunk n now s b = (t, b')"
  shows "wav_ok b' \<and> (rings_ok chs s \<longrightarrow> rings_ok chs t) \<and> beside s t \<and>
    sy_rollovers t = sy_rollovers s + (if full_body b' \<and> \<not> full_body b then 1 else 0) \<and>
    (full_body b \<longrightarrow> full_body b') \<and>
    b_ring b' = b_ring b \<and> b_channels b' = b_channels b \<and> b_generation b' = b_generation b"
  using assms(3) wav_emit_ok [OF assms(1,2), of n] crosses_iff_fills [OF assms(1,2)]
  by (auto simp: wav_emit_def Let_def split: if_splits)

lemma wav_step_facts:
  assumes "wav_ok b" and "rings_ok chs s" and "chs (b_ring b) = unat (b_channels b)"
    and "wav_step now s b = (t, b')"
  shows "wav_ok b' \<and> rings_ok chs t \<and> beside s t \<and>
    sy_rollovers t = sy_rollovers s + (if full_body b' \<and> \<not> full_body b then 1 else 0) \<and>
    (full_body b \<longrightarrow> full_body b') \<and>
    b_ring b' = b_ring b \<and> b_channels b' = b_channels b \<and> b_generation b' = b_generation b"
proof -
  have count: "channel_count (sy_rings s (b_ring b)) = unat (b_channels b)"
    using assms(2,3) by (simp add: rings_ok_def)
  show ?thesis
  proof (cases "b_pc b")
    case BodyReady
    with assms wav_ready_ok [OF assms(1) BodyReady] show ?thesis by (auto simp: wav_step_def Let_def)
  next
    case BodyAvail
    with assms show ?thesis by (auto simp: wav_step_def Let_def)
  next
    case (BodyPop n)
    note popped = wav_pop_ok [OF assms(1) BodyPop count]
    have same: "b_ring (snd (wav_pop n r b)) = b_ring b" "b_channels (snd (wav_pop n r b)) = b_channels b"
      "b_generation (snd (wav_pop n r b)) = b_generation b" "full_body (snd (wav_pop n r b)) = full_body b" for r
      by (auto simp: wav_pop_def full_body_def split: prod.split)
    have "t = set_ring (b_ring b) (fst (wav_pop n (sy_rings s (b_ring b)) b)) s"
      "b' = snd (wav_pop n (sy_rings s (b_ring b)) b)"
      using assms(4) BodyPop by (simp_all add: wav_step_def Let_def case_prod_beta)
    with popped same assms(2,3) count show ?thesis
      by (simp add: rings_set_ring)
  next
    case (BodyGot xs n)
    have "t = s" "b' = pace LIVE_CHUNK_FRAMES (sy_rings s (b_ring b)) now xs n b"
      using assms(4) BodyGot by (auto simp: wav_step_def Let_def)
    with assms(2) wav_pace_ok [OF assms(1) BodyGot] show ?thesis
      by (simp add: pace_def case_prod_beta full_body_def)
  next
    case (BodyPaced wake xs n)
    show ?thesis
    proof (cases "now < wake")
      case True
      with assms BodyPaced show ?thesis by (simp add: wav_step_def Let_def)
    next
      case False
      with assms(4) BodyPaced have "wav_emit (i16_to_le_bytes xs) n now s b = (t, b')"
        by (simp add: wav_step_def Let_def)
      moreover have "due_chunk b (i16_to_le_bytes xs)" using BodyPaced by (auto simp: due_chunk_def)
      ultimately show ?thesis using wav_emit_facts [OF assms(1)] assms(2) by blast
    qed
  next
    case (BodyEmit chunk)
    with assms(4) have "wav_emit chunk 0 now s b = (t, b')" by (simp add: wav_step_def Let_def)
    moreover have "due_chunk b chunk" using BodyEmit by (simp add: due_chunk_def)
    ultimately show ?thesis using wav_emit_facts [OF assms(1)] assms(2) by blast
  next
    case BodyEnded
    with assms show ?thesis by (simp add: wav_step_def Let_def)
  qed
qed

lemma flac_frames:
  "b_ring (flac_ready gen r b) = b_ring b" "b_channels (flac_ready gen r b) = b_channels b"
  "b_generation (flac_ready gen r b) = b_generation b"
  "b_ring (flac_avail gen b) = b_ring b" "b_channels (flac_avail gen b) = b_channels b"
  "b_generation (flac_avail gen b) = b_generation b"
  "b_ring (snd (flac_pop n r b)) = b_ring b" "b_channels (snd (flac_pop n r b)) = b_channels b"
  "b_generation (snd (flac_pop n r b)) = b_generation b"
  "b_ring (flac_got gen r now xs n b) = b_ring b" "b_channels (flac_got gen r now xs n b) = b_channels b"
  "b_generation (flac_got gen r now xs n b) = b_generation b"
  "b_ring (snd (flac_encode api xs n b)) = b_ring b" "b_channels (snd (flac_encode api xs n b)) = b_channels b"
  "b_generation (snd (flac_encode api xs n b)) = b_generation b"
  by (auto simp: flac_ready_def flac_avail_def flac_pop_def flac_got_def flac_encode_def pace_def case_prod_beta
      Let_def split: option.split prod.split sum.split)

lemma flac_step_facts:
  assumes "flac_ok api b" and "rings_ok chs s" and "chs (b_ring b) = unat (b_channels b)"
    and "flac_step api now s b = (t, b')"
  shows "flac_ok api b' \<and> rings_ok chs t \<and> beside s t \<and> sy_rollovers t = sy_rollovers s \<and>
    b_ring b' = b_ring b \<and> b_channels b' = b_channels b \<and> b_generation b' = b_generation b"
proof -
  have count: "channel_count (sy_rings s (b_ring b)) = unat (b_channels b)"
    using assms(2,3) by (simp add: rings_ok_def)
  show ?thesis
  proof (cases "b_pc b")
    case BodyReady
    with assms(2,4) flac_ready_ok [OF assms(1) BodyReady] show ?thesis
      by (auto simp: flac_step_def Let_def flac_frames)
  next
    case BodyAvail
    with assms(2,4) flac_avail_ok [OF assms(1) BodyAvail] show ?thesis
      by (auto simp: flac_step_def Let_def flac_frames)
  next
    case (BodyPop n)
    note popped = flac_pop_ok [OF assms(1) BodyPop count]
    have "t = set_ring (b_ring b) (fst (flac_pop n (sy_rings s (b_ring b)) b)) s"
      "b' = snd (flac_pop n (sy_rings s (b_ring b)) b)"
      using assms(4) BodyPop by (simp_all add: flac_step_def Let_def case_prod_beta)
    with popped assms(2,3) count show ?thesis by (simp add: rings_set_ring flac_frames)
  next
    case (BodyGot xs n)
    with assms(2,4) flac_got_ok [OF assms(1) BodyGot] show ?thesis
      by (auto simp: flac_step_def Let_def flac_frames)
  next
    case (BodyPaced wake xs n)
    have b': "flac_ok api (snd (flac_encode api xs n b))" by (rule flac_encode_ok [OF assms(1) BodyPaced])
    have "now < wake \<and> t = s \<and> b' = b \<or>
        (\<exists>k. t = s \<or> t = edit_handle_of (report_progress k now) s) \<and> b' = snd (flac_encode api xs n b)"
      using assms(4) BodyPaced
      by (auto simp: flac_step_def Let_def split: if_splits prod.splits option.splits)
    with b' assms(1,2) show ?thesis by (auto simp: flac_frames)
  next
    case (BodyEmit chunk)
    with assms(2,4) flac_emit_head_ok [OF assms(1) BodyEmit] show ?thesis
      by (auto simp: flac_step_def Let_def)
  next
    case BodyEnded
    with assms show ?thesis by (simp add: flac_step_def Let_def)
  qed
qed

section \<open>The invariant\<close>

fun content_fits :: "(nat \<Rightarrow> nat) \<Rightarrow> media_content \<Rightarrow> bool" where
  "content_fits chs (LiveWav r ch rate) \<longleftrightarrow> chs (ring_ptr r) = unat (max ch 1)"
| "content_fits chs (LiveFlac r ch rate) \<longleftrightarrow> chs (ring_ptr r) = unat (max ch 1)"
| "content_fits chs _ \<longleftrightarrow> True"

fun get_content :: "get_pc \<Rightarrow> media_content" where
  "get_content (GetRead c) = c"
| "get_content (GetOpened c gen) = c"

definition full_count :: "'x stream_body list \<Rightarrow> nat" where
  "full_count bs = length (filter stream_full bs)"

definition media_ok :: "'x media_api \<Rightarrow> (nat \<Rightarrow> nat) \<Rightarrow> 'x media_sys \<Rightarrow> bool" where
  "media_ok api chs s \<longleftrightarrow> rings_ok chs s \<and> content_fits chs (content (sy_handle s)) \<and>
     (\<forall>g \<in> set (sy_gets s). content_fits chs (get_content g)) \<and>
     (\<forall>b \<in> set (sy_bodies s). stream_ok api chs b) \<and>
     sy_rollovers s = of_nat (full_count (sy_bodies s))"

fun event_fits :: "(nat \<Rightarrow> nat) \<Rightarrow> media_event \<Rightarrow> bool" where
  "event_fits chs (EvSetContent c) \<longleftrightarrow> content_fits chs c"
| "event_fits chs _ \<longleftrightarrow> True"

lemma filter_update_count:
  assumes "i < length xs"
  shows "length (filter P (xs[i := y])) + (if P (xs ! i) then 1 else 0) =
    length (filter P xs) + (if P y then 1 else 0)"
proof -
  have "filter P xs = filter P (take i xs @ xs ! i # drop (Suc i) xs)"
    using id_take_nth_drop [OF assms] by simp
  with assms show ?thesis by (simp add: upd_conv_take_nth_drop)
qed

lemma max_one_pos: "max x (1 :: 'a::len word) \<noteq> 0"
  by (metis max.cobounded2 word_le_0_iff zero_neq_one)

lemma new_wav_ok:
  assumes "live_wav_response ring chans rate gen cap r = (resp, Some b)"
  shows "wav_ok b \<and> b_ring b = ring \<and> b_channels b = max chans 1 \<and> \<not> full_body b \<and> b_generation b = gen"
proof -
  have ch: "max chans 1 \<noteq> 0" "max rate 1 \<noteq> 0" by (rule max_one_pos)+
  obtain h where h: "continuous_wav_header (max chans 1) (max rate 1) = Inr h" "length h = 44"
    using wav_head_length [OF ch] by blast
  have "44 \<le> max cap (44 :: u64)" by simp
  then have cap: "44 \<le> unat (max cap 44)" by (simp add: word_le_nat_alt)
  with assms ch h show ?thesis
    by (auto simp: live_wav_response_def Let_def new_live_body_def live_body.defs wav_body.defs
        wav_ok_def wav_pc_ok_def wav_idle_def wav_head_def untouched_def full_body_def live_body_threshold_def
        word_le_nat_alt)
qed

lemma preroll_below: "silence_preroll_frames rate r n \<le> 2 ^ 63"
proof -
  have "unat (w div 1000 :: u64) \<le> 2 ^ 63" for w
  proof -
    have "unat w div 1000 \<le> 2 ^ 64 div 1000"
      using unsigned_less [of w, where ?'a = nat] by (intro div_le_mono) simp
    then show ?thesis by (simp add: unat_div)
  qed
  then show ?thesis by (simp add: silence_preroll_frames_def)
qed

lemma new_flac_ok:
  assumes "live_flac_response api ring chans rate gen r = (resp, Some b)"
  shows "flac_ok api b \<and> b_ring b = ring \<and> b_channels b = max chans 1 \<and> b_generation b = gen"
  using assms rounded_to_blocks(1) [OF preroll_below]
  by (auto simp: FLAC_BLOCK_SIZE_def live_flac_response_def Let_def new_live_body_def live_body.defs flac_body.defs
      flac_encoder_new_def flac_ok_def flac_pc_ok_def flac_unstarted_def flac_head_of_def untouched_def
      split: sum.splits)

lemma replace_body_ok:
  assumes ok: "media_ok api chs s" and i: "i < length (sy_bodies s)"
    and "rings_ok chs t" "beside s t" "stream_ok api chs y"
    and full: "stream_full (sy_bodies s ! i) \<longrightarrow> stream_full y"
    and roll: "sy_rollovers t = sy_rollovers s + (if stream_full y \<and> \<not> stream_full (sy_bodies s ! i) then 1 else 0)"
  shows "media_ok api chs (t\<lparr>sy_bodies := (sy_bodies s)[i := y]\<rparr>)"
proof -
  have "full_count ((sy_bodies s)[i := y]) =
      full_count (sy_bodies s) + (if stream_full y \<and> \<not> stream_full (sy_bodies s ! i) then 1 else 0)"
    using filter_update_count [OF i, of stream_full y] full
    by (simp add: full_count_def split: if_splits)
  then show ?thesis
    using assms set_update_subset_insert [of "sy_bodies s" i y] by (auto simp: media_ok_def beside_def)
qed

lemma body_step_media_ok:
  assumes ok: "media_ok api chs s"
  shows "media_ok api chs (body_step api i now s)"
proof (cases "i < length (sy_bodies s)")
  case False
  with ok show ?thesis by (simp add: body_step_def)
next
  case i: True
  then have x: "stream_ok api chs (sy_bodies s ! i)" using ok by (simp add: media_ok_def)
  have rings: "rings_ok chs s" using ok by (simp add: media_ok_def)
  show ?thesis
  proof (cases "sy_bodies s ! i")
    case (WavStream b)
    obtain t b' where step: "wav_step now s b = (t, b')" by (cases "wav_step now s b")
    have "wav_ok b" "chs (b_ring b) = unat (b_channels b)" using x by (simp_all add: WavStream)
    note facts = wav_step_facts [OF this(1) rings this(2) step]
    have "media_ok api chs (t\<lparr>sy_bodies := (sy_bodies s)[i := WavStream b']\<rparr>)"
      by (rule replace_body_ok [OF ok i]) (use facts x in \<open>simp_all add: WavStream\<close>)
    with i show ?thesis by (simp add: body_step_def WavStream step)
  next
    case (FlacStream b)
    obtain t b' where step: "flac_step api now s b = (t, b')" by (cases "flac_step api now s b")
    have "flac_ok api b" "chs (b_ring b) = unat (b_channels b)" using x by (simp_all add: FlacStream)
    note facts = flac_step_facts [OF this(1) rings this(2) step]
    have "media_ok api chs (t\<lparr>sy_bodies := (sy_bodies s)[i := FlacStream b']\<rparr>)"
      by (rule replace_body_ok [OF ok i]) (use facts x in \<open>simp_all add: FlacStream\<close>)
    with i show ?thesis by (simp add: body_step_def FlacStream step)
  qed
qed

lemma set_remove_nth: "set (remove_nth i xs) \<subseteq> set xs"
  by (auto simp: remove_nth_def dest: in_set_takeD in_set_dropD)

lemma answer_ok:
  assumes "media_ok api chs s"
  shows "media_ok api chs (reply x (s\<lparr>sy_gets := remove_nth i (sy_gets s)\<rparr>))"
  using assms set_remove_nth [of i "sy_gets s"] by (auto simp: media_ok_def reply_def rings_ok_def)

lemma open_body_ok:
  assumes "media_ok api chs s" and "\<And>y. x = Some y \<Longrightarrow> stream_ok api chs y \<and> \<not> stream_full y"
  shows "media_ok api chs (open_body resp x (s\<lparr>sy_gets := remove_nth i (sy_gets s)\<rparr>))"
  using assms set_remove_nth [of i "sy_gets s"]
  by (cases x) (auto simp: open_body_def media_ok_def full_count_def edit_handle_of_def reset_progress_def
      reply_def rings_ok_def)

lemma get_step_media_ok:
  assumes ok: "media_ok api chs s"
  shows "media_ok api chs (get_step api i s)"
proof (cases "i < length (sy_gets s)")
  case False
  with ok show ?thesis by (simp add: get_step_def)
next
  case i: True
  then have g: "content_fits chs (get_content (sy_gets s ! i))" using ok by (simp add: media_ok_def)
  have opened: "media_ok api chs ((edit_handle_of end_live_bodies s)\<lparr>sy_gets := (sy_gets s)[i := GetOpened c n]\<rparr>)"
    if "content_fits chs c" for c n
    using ok that set_update_subset_insert [of "sy_gets s" i "GetOpened c n"]
    by (auto simp: media_ok_def edit_handle_of_def end_live_bodies_def rings_ok_def)
  show ?thesis
  proof (cases "sy_gets s ! i")
    case (GetRead c)
    with i g opened answer_ok [OF ok] show ?thesis by (cases c) (simp_all add: get_step_def)
  next
    case (GetOpened c gen)
    show ?thesis
    proof (cases c)
      case (LiveWav r ch rate)
      have "stream_ok api chs (WavStream b) \<and> \<not> stream_full (WavStream b)"
        if "live_wav_response (ring_ptr r) ch rate gen cap x = (resp, Some b)" for resp b x cap
        using new_wav_ok [OF that] g by (simp add: GetOpened LiveWav)
      with i show ?thesis
        by (auto simp: get_step_def GetOpened LiveWav split: prod.split intro!: open_body_ok [OF ok])
    next
      case (LiveFlac r ch rate)
      have "stream_ok api chs (FlacStream b) \<and> \<not> stream_full (FlacStream b)"
        if "live_flac_response api (ring_ptr r) ch rate gen x = (resp, Some b)" for resp b x
        using new_flac_ok [OF that] g by (simp add: GetOpened LiveFlac)
      with i show ?thesis
        by (auto simp: get_step_def GetOpened LiveFlac split: prod.split intro!: open_body_ok [OF ok])
    qed (use i ok in \<open>simp_all add: get_step_def GetOpened\<close>)
  qed
qed

lemma ring_apply_channels: "channel_count (fst (ring_apply x r)) = channel_count r"
  by (cases x) (simp_all add: ring_frame)

lemma media_step_ok:
  assumes ok: "media_ok api chs s" and "event_fits chs e"
  shows "media_ok api chs (media_step api s e)"
proof (cases e)
  case (EvGetStep i)
  with get_step_media_ok [OF ok] show ?thesis by (simp add: media_step_def)
next
  case (EvBody i now)
  with body_step_media_ok [OF ok] show ?thesis by (simp add: media_step_def)
next
  case (EvRing i x)
  with ok show ?thesis
    by (auto simp: media_step_def media_ok_def set_ring_def rings_ok_def ring_apply_channels)
qed (use assms in \<open>auto simp: media_step_def media_ok_def edit_handle_of_def rings_ok_def set_content_def
      set_artwork_def set_max_body_bytes_def end_live_bodies_def invalidate_live_def media_shutdown_def\<close>)

text \<open>A run whose content always names rings with the channel count it states.\<close>

interpretation server_runs: guarded_machine "media_step api" "media_ok api chs" "event_fits chs" for api chs
  by unfold_locales (rule media_step_ok)

lemma media_start_ok:
  assumes "\<And>i. channel_count (rings i) = chs i"
  shows "media_ok api chs (media_start url rings)"
  using assms by (simp add: media_ok_def media_start_def rings_ok_def full_count_def)

end
