(* ===== verification/Media_Promises.thy ===== *)
theory Media_Promises
  imports Media_Sys_Wf
begin

text \<open>
  What the media server promises over every interleaving of GETs, live bodies, AirPlay and the bridge.
\<close>

section \<open>Generations\<close>

fun opened_generations :: "get_pc \<Rightarrow> u64 list" where
  "opened_generations (GetRead c) = []"
| "opened_generations (GetOpened c gen) = [gen]"

definition get_generations :: "'x media_sys \<Rightarrow> u64 multiset" where
  "get_generations s = mset (map generation_of (sy_bodies s)) + mset (concat (map opened_generations (sy_gets s)))"

definition get_generations_ok :: "nat \<Rightarrow> 'x media_sys \<Rightarrow> bool" where
  "get_generations_ok k s \<longleftrightarrow> (\<forall>g. count (get_generations s) g \<le> 1) \<and>
     (\<forall>g \<in># get_generations s. unat g \<le> unat (live_generation (sy_handle s))) \<and>
     unat (live_generation (sy_handle s)) \<le> k"

lemma split_nth: "i < length xs \<Longrightarrow> \<exists>ys zs. xs = ys @ xs ! i # zs \<and> length ys = i"
  by (rule exI [of _ "take i xs"], rule exI [of _ "drop (Suc i) xs"]) (simp add: id_take_nth_drop [symmetric])

lemma concat_update:
  assumes "i < length xs"
  shows "mset (concat (map f (xs[i := y]))) + mset (f (xs ! i)) = mset (concat (map f xs)) + mset (f y)"
    and "mset (concat (map f (remove_nth i xs))) + mset (f (xs ! i)) = mset (concat (map f xs))"
proof -
  obtain ys zs where xs: "xs = ys @ xs ! i # zs" "length ys = i" using split_nth [OF assms] by blast
  define x where "x = xs ! i"
  have "xs = ys @ x # zs" using xs(1) by (simp add: x_def)
  then show "mset (concat (map f (xs[i := y]))) + mset (f (xs ! i)) = mset (concat (map f xs)) + mset (f y)"
    "mset (concat (map f (remove_nth i xs))) + mset (f (xs ! i)) = mset (concat (map f xs))"
    using xs(2) by (auto simp: remove_nth_def list_update_append)
qed

lemma stream_step_generation:
  "b_generation (snd (wav_step now s b)) = b_generation b" "beside s (fst (wav_step now s b))"
  "b_generation (snd (flac_step api now s c)) = b_generation c" "beside s (fst (flac_step api now s c))"
  by (auto simp: wav_step_def flac_step_def flac_frames wav_pop_def wav_emit_def flac_encode_def flac_pop_def
      pace_def case_prod_beta Let_def split: body_pc.split option.split prod.split sum.split)

lemma body_step_generations:
  "get_generations (body_step api i now s) = get_generations s \<and>
   live_generation (sy_handle (body_step api i now s)) = live_generation (sy_handle s)"
proof (cases "i < length (sy_bodies s)")
  case False
  then show ?thesis by (simp add: body_step_def)
next
  case i: True
  have keep: "map generation_of ((sy_bodies s)[i := y]) = map generation_of (sy_bodies s)"
    if "generation_of y = generation_of (sy_bodies s ! i)" for y
    using i that by (simp add: map_update) (metis list_update_id map_update nth_map)
  show ?thesis
  proof (cases "sy_bodies s ! i")
    case (WavStream b)
    with i keep [of "WavStream (snd (wav_step now s b))"] stream_step_generation(1,2) [where b = b and s = s and now = now] show ?thesis
      by (simp add: body_step_def case_prod_beta get_generations_def beside_def)
  next
    case (FlacStream b)
    with i keep [of "FlacStream (snd (flac_step api now s b))"] stream_step_generation(3,4) [where c = b and s = s and now = now and api = api]
    show ?thesis by (simp add: body_step_def case_prod_beta get_generations_def beside_def)
  qed
qed

lemma next_generation:
  assumes "unat g \<le> k" and "Suc k < 2 ^ 64"
  shows "unat (g + 1 :: u64) = unat g + 1"
  using assms by (simp add: unat_word_ariths)

lemma subset_generations_ok:
  assumes "get_generations_ok k s" and "get_generations t \<subseteq># get_generations s"
    and "live_generation (sy_handle t) = live_generation (sy_handle s)"
  shows "get_generations_ok (Suc k) t"
  using assms mset_subset_eq_count [OF assms(2)] set_mset_mono [OF assms(2)]
  by (auto simp: get_generations_ok_def intro: order_trans)

lemma raised_generations_ok:
  assumes "get_generations_ok k s" and "Suc k < 2 ^ 64" and "get_generations t = get_generations s"
    and "live_generation (sy_handle t) = live_generation (sy_handle s) + 1"
  shows "get_generations_ok (Suc k) t"
  using assms next_generation [of "live_generation (sy_handle s)" k] by (force simp: get_generations_ok_def)

lemma new_generation_ok:
  assumes "get_generations_ok k s" and "Suc k < 2 ^ 64"
    and "get_generations t = add_mset (live_generation (sy_handle s) + 1) (get_generations s)"
    and "live_generation (sy_handle t) = live_generation (sy_handle s) + 1"
  shows "get_generations_ok (Suc k) t"
proof -
  let ?g = "live_generation (sy_handle s) + 1"
  have up: "unat ?g = unat (live_generation (sy_handle s)) + 1"
    by (rule next_generation [OF _ assms(2)]) (use assms(1) in \<open>simp add: get_generations_ok_def\<close>)
  then have "?g \<notin># get_generations s" using assms(1) by (force simp: get_generations_ok_def)
  then have "count (get_generations s) ?g = 0" by (simp add: not_in_iff)
  with up assms show ?thesis by (force simp: get_generations_ok_def)
qed

lemma get_step_generations:
  assumes "get_generations_ok k s" and "Suc k < 2 ^ 64"
  shows "get_generations_ok (Suc k) (get_step api i s)"
proof (cases "i < length (sy_gets s)")
  case False
  with assms show ?thesis by (intro subset_generations_ok [OF assms(1)]) (simp_all add: get_step_def)
next
  case i: True
  note edit = concat_update [OF i, of opened_generations]
  show ?thesis
  proof (cases "sy_gets s ! i")
    case (GetRead c)
    have gone: "mset (concat (map opened_generations (remove_nth i (sy_gets s)))) =
        mset (concat (map opened_generations (sy_gets s)))"
      using edit(2) GetRead by simp
    show ?thesis
    proof (cases "\<exists>r ch rate. c = LiveWav r ch rate \<or> c = LiveFlac r ch rate")
      case True
      then have step: "get_step api i s = (edit_handle_of end_live_bodies s)
          \<lparr>sy_gets := (sy_gets s)[i := GetOpened c (live_generation (sy_handle s) + 1)]\<rparr>"
        using i GetRead by (auto simp: get_step_def)
      show ?thesis
        unfolding step
        by (rule new_generation_ok [OF assms])
          (use edit(1) [of "GetOpened c (live_generation (sy_handle s) + 1)"] GetRead in
            \<open>simp_all add: get_generations_def edit_handle_of_def end_live_bodies_def\<close>)
    next
      case False
      then obtain resp where "get_step api i s = reply resp (s\<lparr>sy_gets := remove_nth i (sy_gets s)\<rparr>)"
        using i GetRead by (cases c) (auto simp: get_step_def)
      then show ?thesis
        by (intro subset_generations_ok [OF assms(1)]) (simp_all add: get_generations_def reply_def gone)
    qed
  next
    case (GetOpened c gen)
    have gone: "mset (concat (map opened_generations (sy_gets s))) =
        add_mset gen (mset (concat (map opened_generations (remove_nth i (sy_gets s)))))"
      using edit(2) GetOpened by simp
    have opened: "get_generations_ok (Suc k) (open_body resp x (s\<lparr>sy_gets := remove_nth i (sy_gets s)\<rparr>))"
      if "\<And>y. x = Some y \<Longrightarrow> generation_of y = gen" for resp x
      by (rule subset_generations_ok [OF assms(1)])
        (use that in \<open>auto simp: open_body_def get_generations_def reply_def edit_handle_of_def reset_progress_def gone
          split: option.split\<close>)
    show ?thesis
    proof (cases c)
      case (LiveWav r ch rate)
      with i show ?thesis
        by (auto simp: get_step_def GetOpened split: prod.split intro!: opened dest: new_wav_ok)
    next
      case (LiveFlac r ch rate)
      with i show ?thesis
        by (auto simp: get_step_def GetOpened split: prod.split intro!: opened dest: new_flac_ok)
    qed (use i assms in \<open>auto simp: get_step_def GetOpened intro: subset_generations_ok\<close>)
  qed
qed

lemma media_step_generations:
  assumes "get_generations_ok k s" and "Suc k < 2 ^ 64"
  shows "get_generations_ok (Suc k) (media_step api s e)"
proof (cases e)
  case EvGet
  with assms show ?thesis
    by (intro subset_generations_ok [OF assms(1)]) (simp_all add: media_step_def get_generations_def)
next
  case (EvGetStep i)
  with get_step_generations [OF assms] show ?thesis by (simp add: media_step_def)
next
  case (EvBody i now)
  with body_step_generations [of api i now s] show ?thesis
    by (intro subset_generations_ok [OF assms(1)]) (simp_all add: media_step_def)
next
  case EvEndBodies
  then show ?thesis
    by (intro raised_generations_ok [OF assms])
      (simp_all add: media_step_def get_generations_def edit_handle_of_def end_live_bodies_def)
next
  case EvInvalidate
  then show ?thesis
    by (intro raised_generations_ok [OF assms])
      (simp_all add: media_step_def get_generations_def edit_handle_of_def invalidate_live_def)
next
  case EvShutdown
  then show ?thesis
    by (intro raised_generations_ok [OF assms])
      (simp_all add: media_step_def get_generations_def edit_handle_of_def media_shutdown_def invalidate_live_def)
qed (simp add: media_step_def, rule subset_generations_ok [OF assms(1)],
    simp_all add: get_generations_def edit_handle_of_def set_ring_def set_content_def set_artwork_def
      set_max_body_bytes_def)+

lemma run_generations:
  "length es < 2 ^ 64 \<Longrightarrow> get_generations_ok (length es) (foldl (media_step api) (media_start url rings) es)"
proof (induction es rule: rev_induct)
  case Nil
  then show ?case by (simp add: get_generations_ok_def get_generations_def media_start_def)
next
  case (snoc e es)
  then show ?case using media_step_generations [of "length es" _ api e] by simp
qed

text \<open>
  C15: At most one body is current. Whatever GETs, probes, flushes, shutdowns and body steps interleave, never
  more than one live body carries the current generation, so at most one body goes on taking audio from a
  ring; the others end at their next look at the counter. (The counter has 64 bits; the run is shorter.)
\<close>

theorem one_current_body:
  assumes "length es < 2 ^ 64" and "s = foldl (media_step api) (media_start url rings) es"
  shows "length (filter (\<lambda>b. generation_of b = live_generation (sy_handle s)) (sy_bodies s)) \<le> 1"
proof -
  let ?g = "live_generation (sy_handle s)"
  have each: "count (mset (map generation_of bs)) g = length (filter (\<lambda>b. generation_of b = g) bs)"
    for bs :: "'x stream_body list" and g
    by (induction bs) auto
  have "count (mset (map generation_of (sy_bodies s))) ?g \<le> count (get_generations s) ?g"
    by (simp add: get_generations_def)
  also have "\<dots> \<le> 1"
    using run_generations [OF assms(1), of api url rings] by (simp add: get_generations_ok_def assms(2))
  finally show ?thesis by (simp only: each)
qed

section \<open>What a body sends\<close>

lemma run_media_ok:
  assumes "\<And>i. channel_count (rings i) = chs i" and "list_all (event_fits chs) es"
  shows "media_ok api chs (foldl (media_step api) (media_start url rings) es)"
  by (rule server_runs.run_inv [OF media_start_ok [OF assms(1)] assms(2)])

lemma wav_out_prefix:
  assumes "wav_ok b"
  shows "\<exists>k. prefix (b_out b) (wav_bytes b @ replicate k 0)"
proof -
  have "prefix (b_out b) (b_out b @ xs)" for xs by simp
  then have sent: "b_out b @ xs = wav_bytes b \<Longrightarrow> prefix (b_out b) (wav_bytes b @ replicate 0 0)" for xs
    by (metis append_Nil2 replicate_0)
  show ?thesis
  proof (cases "b_out b = [] \<or> (\<exists>xs. b_out b @ xs = wav_bytes b) \<or> (\<exists>k. b_out b = wav_bytes b @ replicate k 0)")
    case True
    then show ?thesis using sent by (metis Nil_prefix prefix_order.refl)
  next
    case False
    then show ?thesis
      using assms by (cases "b_pc b"; cases "b_header b")
        (auto simp: wav_ok_def wav_pc_ok_def wav_idle_def untouched_def intro: exI [of _ 0])
  qed
qed

text \<open>
  C16: A WAV body sends its header, its silence and the samples it took from the ring, in order and without a gap,
  and never more than its Content-Length: in every reachable state the bytes sent are a prefix of that
  byte string, padded with zeros only at the very end, and they are at most as many as the Content-Length
  the response announced. This needs that the content names the channel count of its ring.
\<close>

theorem wav_body_keeps_length_and_order:
  assumes "\<And>i. channel_count (rings i) = chs i" and "list_all (event_fits chs) es"
    and "WavStream b \<in> set (sy_bodies (foldl (media_step api) (media_start url rings) es))"
  shows "length (b_out b) \<le> unat (b_threshold b) \<and> (\<exists>k. prefix (b_out b) (wav_bytes b @ replicate k 0))"
proof -
  have "wav_ok b" using run_media_ok [OF assms(1,2), of api url] assms(3) by (force simp: media_ok_def)
  then show ?thesis using wav_out_prefix by (simp add: wav_ok_def)
qed

fun reached_length :: "'x stream_body \<Rightarrow> bool" where
  "reached_length (WavStream b) \<longleftrightarrow> length (b_out b) = unat (b_threshold b)"
| "reached_length (FlacStream b) \<longleftrightarrow> False"

text \<open>
  C21: The bridge is told of a rollover exactly when a WAV body has sent its whole Content-Length: the
  counter that the rollover loop waits on is the number of bodies that reached their length, so none is
  signalled twice, early, or not at all.
\<close>

theorem rollovers_count_full_bodies:
  assumes "\<And>i. channel_count (rings i) = chs i" and "list_all (event_fits chs) es"
    and "s = foldl (media_step api) (media_start url rings) es"
  shows "sy_rollovers s = of_nat (length (filter reached_length (sy_bodies s)))"
proof -
  have ok: "media_ok api chs s" using run_media_ok [OF assms(1,2)] by (simp add: assms(3))
  have "stream_full x = reached_length x" if "stream_ok api chs x" for x
    using that by (cases x) (auto simp: full_body_def wav_ok_def word_le_nat_alt)
  then have "filter stream_full (sy_bodies s) = filter reached_length (sy_bodies s)"
    using ok by (intro filter_cong) (auto simp: media_ok_def)
  with ok show ?thesis by (simp add: media_ok_def full_count_def)
qed

lemma flac_out_shape:
  assumes "flac_ok api b"
  shows "(b_out b = [] \<or> (\<exists>bytes. encode_all api (b_blocks b) (fresh_encoder b) = Inr (bytes, b_encoder b) \<and>
      b_out b = flac_head_of api b @ bytes)) \<and> prefix (concat (b_blocks b)) (body_pcm b)"
  using assms
  by (cases "b_pc b"; cases "b_header b")
    (auto simp: flac_ok_def flac_pc_ok_def flac_sent_def flac_unstarted_def untouched_def, (metis prefixI)+)

text \<open>
  C17: A FLAC body is the encoding of whole blocks: in every reachable state it has sent nothing, or the stream
  header followed by exactly the frames that encoding its blocks one after the other from frame number
  zero yields; every block is full, and the blocks are the leading silence followed by the samples it took,
  in order and without a gap.
\<close>

theorem flac_body_is_encoded_blocks:
  assumes "\<And>i. channel_count (rings i) = chs i" and "list_all (event_fits chs) es"
    and "FlacStream b \<in> set (sy_bodies (foldl (media_step api) (media_start url rings) es))"
  shows "(b_out b = [] \<or> (\<exists>bytes. encode_all api (b_blocks b) (fresh_encoder b) = Inr (bytes, b_encoder b) \<and>
      b_out b = flac_head_of api b @ bytes)) \<and> prefix (concat (b_blocks b)) (body_pcm b)"
proof -
  have "flac_ok api b" using run_media_ok [OF assms(1,2), of api url] assms(3) by (force simp: media_ok_def)
  then show ?thesis by (rule flac_out_shape)
qed

text \<open>
  HEAD sets the headers that GET sets for the same live content while the body cap has its default. It opens
  no body: \<open>serve_stream_head\<close> only reads the content slot.
\<close>

lemma head_matches_get:
  assumes "content m = LiveWav r ch rate" and "max_body_bytes m = LIVE_CONTENT_LENGTH"
  shows "fst (live_wav_response (ring_ptr r) ch rate gen (max_body_bytes m) ring) = serve_stream_head api m"
proof -
  have "max ch 1 \<noteq> 0" "max rate 1 \<noteq> 0" by (rule max_one_pos)+
  from wav_head_length [OF this] assms show ?thesis
    by (auto simp: live_wav_response_def serve_stream_head_def live_body_threshold_def LIVE_CONTENT_LENGTH_def Let_def)
qed

text \<open>
  A body that was superseded while it paced still emits its last chunk, and writes its own byte count over
  the progress that the new GET has reset.
\<close>

lemma superseded_body_reports_progress:
  assumes "b_pc b = BodyPaced wake xs n" and "wake \<le> now"
  shows "bytes_served (sy_handle (fst (wav_step now s b))) = b_sent (snd (wav_step now s b))"
    and "b_out (snd (wav_step now s b)) = b_out b @ i16_to_le_bytes xs"
  using assms by (simp_all add: wav_step_def wav_emit_def edit_handle_of_def report_progress_def Let_def)

section \<open>Pacing\<close>

definition played_until :: "u64 \<Rightarrow> usize \<Rightarrow> u32 \<Rightarrow> duration" where
  "played_until frames next_frames rate = from_millis ((unat frames + next_frames) * 1000 div unat (max rate 1))"

lemma audio_ms_exact:
  assumes "(unat frames + next_frames) * 1000 < 2 ^ 64"
  shows "from_millis (unat (saturating_mul (saturating_add frames (of_nat next_frames)) 1000 div
    (ucast (max rate 1 :: u32) :: u64))) = played_until frames next_frames rate"
proof -
  have total: "unat (saturating_add frames (of_nat next_frames)) = unat frames + next_frames"
    by (rule saturating_add_exact) (use assms in simp)
  then have "unat (saturating_add frames (of_nat next_frames)) * unat (1000 :: u64) < 2 ^ 64"
    using assms by simp
  then have "unat (saturating_mul (saturating_add frames (of_nat next_frames)) 1000) = (unat frames + next_frames) * 1000"
    using assms by (simp add: saturating_mul_def unat_word_ariths total)
  moreover have "unat (ucast (max rate 1) :: u64) = unat (max rate 1)"
    using unsigned_less [of "max rate 1", where ?'a = nat] by (simp add: unsigned_ucast_eq take_bit_nat_eq_self)
  ultimately show ?thesis by (simp add: played_until_def unat_div)
qed

text \<open>
  C22: Pacing keeps the Cast device at most the read-ahead of eight seconds ahead of real time, and never
  waits longer than that takes: when the chunk may leave, the audio up to its end lies at most eight seconds
  after the time elapsed since the (possibly advanced) pace origin; the origin never moves back or into the future, and
  the wait ends no later than the moment the lead is down to eight seconds.
\<close>

theorem pacing_keeps_lead:
  assumes "pace_realtime_shared frames (Some origin) rate next_frames r backlog now = (origin', wake)"
    and "(unat frames + next_frames) * 1000 < 2 ^ 64" and "origin \<le> now"
  shows "origin' + played_until frames next_frames rate \<le> wake + CAST_READ_AHEAD \<and>
    origin \<le> origin' \<and> origin' \<le> now \<and>
    now \<le> wake \<and> (wake = now \<or> wake + CAST_READ_AHEAD = origin + played_until frames next_frames rate)"
proof -
  define played where "played = played_until frames next_frames rate"
  define lead where "lead = CAST_READ_AHEAD"
  have plan: "pace_plan frames next_frames rate origin now lead slack =
      (let due = origin + played; wake_at = (if lead \<le> due then due - lead else origin)
       in if now < wake_at then \<lparr>pace_sleep = Some (wake_at - now), pace_rebaseline = None\<rparr>
          else \<lparr>pace_sleep = None, pace_rebaseline = (if slack < now - due then Some (now - due) else None)\<rparr>)"
    for slack
    unfolding pace_plan_def Let_def audio_ms_exact [OF assms(2)] played_def by simp
  show ?thesis
    using assms(1,3)
    unfolding pace_realtime_shared_def lead_def [symmetric] played_def [symmetric] plan Let_def option.case
    by (auto split: if_splits)
qed

section \<open>Rollover wake-up\<close>

definition rollover_ok :: "u64 \<Rightarrow> rollover_signal \<Rightarrow> bool" where
  "rollover_ok seen s \<longleftrightarrow>
     (case rs_waiter s of
        WaitRecheck at \<Rightarrow> at \<le> rs_epoch s
      | WaitNotified at \<Rightarrow> at \<le> rs_epoch s \<and> (seen < rs_count s \<longrightarrow> at < rs_epoch s \<or> 0 < rs_between s)
      | WaitReturned n \<Rightarrow> seen < n
      | _ \<Rightarrow> True)"

lemma signal_step_ok: "rollover_ok seen s \<Longrightarrow> rollover_ok seen (signal_step seen s e)"
  by (cases e; cases "rs_waiter s") (auto simp: rollover_ok_def signal_step_def)

interpretation signals: event_machine "signal_step seen" "rollover_ok seen" for seen
  by unfold_locales (rule signal_step_ok)

text \<open>
  C23: A rollover is never slept through. However signals and the waiter interleave, when the count has passed what
  the waiter has seen and every signal has finished, the waiter is not stuck: its next step leaves the wait,
  and \<open>wait_past\<close> only ever returns a count greater than \<open>seen\<close>.
\<close>

theorem rollover_not_slept_through:
  assumes "s = foldl (signal_step seen) (rollover_start n) es" and "seen < rs_count s" and "rs_between s = 0"
  shows "rs_waiter (signal_step seen s WaiterStep) \<noteq> rs_waiter s \<or> (\<exists>k. rs_waiter s = WaitReturned k \<and> seen < k)"
proof -
  have "rollover_ok seen (rollover_start n)" by (simp add: rollover_ok_def rollover_start_def)
  then have "rollover_ok seen s" unfolding assms(1) by (rule signals.run_inv)
  with assms(2,3) show ?thesis
    by (cases "rs_waiter s") (auto simp: rollover_ok_def signal_step_def)
qed

section \<open>Concrete runs\<close>

text \<open>A GET of WAV content with a body of 44 bytes, and one of FLAC content, each up to the header.\<close>

definition demo_codec :: "unit media_api" where
  "demo_codec = \<lparr>flac_info = \<lambda>rate ch block. Inr (), flac_head = \<lambda>_. Inr [102, 76, 97, 67],
     flac_frame = \<lambda>_ n xs. Inr [of_nat n], header_ok = \<lambda>_. True\<rparr>"

definition demo_rings :: "nat \<Rightarrow> pcm_ring" where
  "demo_rings = (\<lambda>i. ring_new 2 4)"

definition demo_wav_run :: "media_event list" where
  "demo_wav_run = [EvSetContent (LiveWav \<lparr>ring_ptr = 0, ring_channels = 2\<rparr> 2 44100), EvSetCap 0, EvGet,
     EvGetStep 0, EvGetStep 0, EvBody 0 5, EvBody 0 6]"

definition demo_flac_run :: "media_event list" where
  "demo_flac_run = [EvSetContent (LiveFlac \<lparr>ring_ptr = 0, ring_channels = 2\<rparr> 2 44100), EvGet,
     EvGetStep 0, EvGetStep 0, EvBody 0 5, EvBody 0 6]"

lemma demo_rings_channels: "channel_count (demo_rings i) = 2"
  by (simp add: demo_rings_def ring_new_def channel_count_def Let_def)

lemma demo_fits: "list_all (event_fits (\<lambda>_. 2)) demo_wav_run" "list_all (event_fits (\<lambda>_. 2)) demo_flac_run"
  by (simp_all add: demo_wav_run_def demo_flac_run_def)

lemmas run_simps = media_step_def get_step_def body_step_def edit_handle_of_def set_content_def
  set_max_body_bytes_def end_live_bodies_def reset_progress_def open_body_def reply_def remove_nth_def
  media_start_def generation_of_def new_live_body_def live_body.defs

lemma demo_wav_body:
  "\<exists>b. sy_bodies (foldl (media_step demo_codec) (media_start ''u'' demo_rings) demo_wav_run) = [WavStream b] \<and>
     length (b_out b) = 44 \<and> unat (b_threshold b) = 44"
proof -
  obtain h where h: "continuous_wav_header 2 44100 = Inr h" "length h = 44"
    using wav_head_length [of 2 44100] by auto
  then show ?thesis
    by (simp add: demo_wav_run_def run_simps live_wav_response_def wav_body.defs live_body_threshold_def
        wav_step_def wav_ready_def stale_def goto_def wav_emit_def emit_chunk_def Let_def)
qed

lemma demo_flac_body:
  "\<exists>b. sy_bodies (foldl (media_step demo_codec) (media_start ''u'' demo_rings) demo_flac_run) = [FlacStream b] \<and>
     b_out b = [102, 76, 97, 67]"
  by (simp add: demo_flac_run_def run_simps live_flac_response_def flac_body.defs flac_encoder_new_def
      live_stream_info_def header_bytes_def demo_codec_def flac_step_def flac_ready_def stale_def goto_def
      emit_chunk_def Let_def)

text \<open>
  A GET that read the content slot before a shutdown takes its generation after it, so its body is current although
  the shutdown ended all live bodies.
\<close>

definition demo_late_get :: "media_event list" where
  "demo_late_get = [EvSetContent (LiveWav \<lparr>ring_ptr = 0, ring_channels = 2\<rparr> 2 44100), EvGet, EvShutdown,
     EvGetStep 0, EvGetStep 0]"

lemma get_survives_shutdown:
  "\<exists>b. sy_bodies (foldl (media_step demo_codec) (media_start ''u'' demo_rings) demo_late_get) = [WavStream b] \<and>
     b_generation b = live_generation (sy_handle (foldl (media_step demo_codec) (media_start ''u'' demo_rings) demo_late_get)) \<and>
     b_pc b = BodyReady"
proof -
  obtain h where h: "continuous_wav_header 2 44100 = Inr h" "length h = 44"
    using wav_head_length [of 2 44100] by auto
  then show ?thesis
    by (simp add: demo_late_get_def run_simps live_wav_response_def wav_body.defs media_shutdown_def
        invalidate_live_def Let_def)
qed

theorem one_current_body_witness:
  "length (filter (\<lambda>b. generation_of b = live_generation (sy_handle
       (foldl (media_step demo_codec) (media_start ''u'' demo_rings) demo_wav_run)))
     (sy_bodies (foldl (media_step demo_codec) (media_start ''u'' demo_rings) demo_wav_run))) \<le> 1"
  by (rule one_current_body [OF _ refl]) (simp add: demo_wav_run_def)

theorem wav_body_keeps_length_and_order_witness:
  "\<exists>b. WavStream b \<in> set (sy_bodies (foldl (media_step demo_codec) (media_start ''u'' demo_rings) demo_wav_run)) \<and>
     b_out b \<noteq> [] \<and> length (b_out b) \<le> unat (b_threshold b) \<and> (\<exists>k. prefix (b_out b) (wav_bytes b @ replicate k 0))"
proof -
  obtain b where b: "sy_bodies (foldl (media_step demo_codec) (media_start ''u'' demo_rings) demo_wav_run) = [WavStream b]"
    "length (b_out b) = 44" using demo_wav_body by blast
  have "length (b_out b) \<le> unat (b_threshold b) \<and> (\<exists>k. prefix (b_out b) (wav_bytes b @ replicate k 0))"
    by (rule wav_body_keeps_length_and_order [of demo_rings "\<lambda>_. 2", OF demo_rings_channels demo_fits(1), where api = demo_codec and url = "''u''"])
      (simp add: b)
  with b show ?thesis by (intro exI [of _ b]) auto
qed

theorem rollovers_count_full_bodies_witness:
  "sy_rollovers (foldl (media_step demo_codec) (media_start ''u'' demo_rings) demo_wav_run) = 1"
proof -
  obtain b where b: "sy_bodies (foldl (media_step demo_codec) (media_start ''u'' demo_rings) demo_wav_run) = [WavStream b]"
    "length (b_out b) = 44" "unat (b_threshold b) = 44" using demo_wav_body by blast
  with rollovers_count_full_bodies [of demo_rings "\<lambda>_. 2", OF demo_rings_channels demo_fits(1) refl, where api = demo_codec and url = "''u''"]
  show ?thesis by simp
qed

theorem flac_body_is_encoded_blocks_witness:
  "\<exists>b. FlacStream b \<in> set (sy_bodies (foldl (media_step demo_codec) (media_start ''u'' demo_rings) demo_flac_run)) \<and>
     b_out b = [102, 76, 97, 67] \<and> prefix (concat (b_blocks b)) (body_pcm b)"
proof -
  obtain b where b: "sy_bodies (foldl (media_step demo_codec) (media_start ''u'' demo_rings) demo_flac_run) = [FlacStream b]"
    "b_out b = [102, 76, 97, 67]" using demo_flac_body by blast
  have "FlacStream b \<in> set (sy_bodies (foldl (media_step demo_codec) (media_start ''u'' demo_rings) demo_flac_run))"
    by (simp add: b)
  with flac_body_is_encoded_blocks [of demo_rings "\<lambda>_. 2", OF demo_rings_channels demo_fits(2) this] b show ?thesis by auto
qed

text \<open>Ten seconds of audio were sent within one second: the next chunk waits until second three.\<close>

theorem pacing_keeps_lead_witness:
  "snd (pace_realtime_shared 440000 (Some 0) 44000 44000 (ring_new 2 4) 1024 (from_secs 1)) = from_secs 3 \<and>
   played_until 440000 44000 44000 \<le> from_secs 3 + CAST_READ_AHEAD"
proof -
  have pace: "pace_realtime_shared 440000 (Some 0) 44000 44000 (ring_new 2 4) 1024 (from_secs 1) = (0, from_secs 3)"
    by (simp add: pace_realtime_shared_def pace_plan_def CAST_READ_AHEAD_def PACE_LATE_SLACK_def from_secs_def
        from_millis_def saturating_add_def saturating_mul_def Let_def)
  have "0 + played_until 440000 44000 44000 \<le> from_secs 3 + CAST_READ_AHEAD \<and> (0 :: nat) \<le> 0 \<and> 0 \<le> from_secs 1 \<and>
      from_secs 1 \<le> from_secs 3 \<and>
      (from_secs 3 = from_secs 1 \<or> from_secs 3 + CAST_READ_AHEAD = 0 + played_until 440000 44000 44000)"
    by (rule pacing_keeps_lead [OF pace]) simp_all
  with pace show ?thesis by simp
qed

text \<open>The signal comes between the waiter's first look and its registration.\<close>

definition demo_signals :: "rollover_event list" where
  "demo_signals = [WaiterStep, WaiterStep, WaiterStep, SignalStore, SignalNotify]"

theorem rollover_not_slept_through_witness:
  "rs_waiter (foldl (signal_step 0) (rollover_start 0) demo_signals) = WaitNotified 0 \<and>
   rs_waiter (signal_step 0 (foldl (signal_step 0) (rollover_start 0) demo_signals) WaiterStep) \<noteq> WaitNotified 0"
proof -
  have at: "foldl (signal_step 0) (rollover_start 0) demo_signals =
      \<lparr>rs_count = 1, rs_epoch = 1, rs_between = 0, rs_waiter = WaitNotified 0\<rparr>"
    by (simp add: demo_signals_def rollover_start_def signal_step_def)
  with rollover_not_slept_through [OF refl, of 0 0 demo_signals] show ?thesis by simp
qed

end
