(* ===== verification/Bridge_Run.thy ===== *)
theory Bridge_Run
  imports Bridge_System
begin

text \<open>
  \<open>Bridge::run\<close> and its device workers (\<open>src/bridge/worker.rs\<close>): intake of the AirPlay events and of the
  events a hand-over redispatches, the route to one sequential worker per device, the recreation of a
  dead worker, shutdown, the bounded join, and the end of every session.

  \<open>run_step\<close> interleaves the loop, every worker, every other task of the bridge and a shutdown request.
  A worker is at \<open>worker_at\<close> while a session start or the end of a session waits. \<open>routed\<close>, \<open>taken\<close> and \<open>lost\<close> are
  history: the events the loop has routed, those a worker has received, and those still in its inbox when it
  finished, which went with its receiver. A poll of the biased \<open>select!\<close> is one step, and so is the route of an
  event.
\<close>

section \<open>Workers\<close>

datatype worker_pc = WorkerIdle | WorkerStarting nat | WorkerEnding ended_pc | WorkerExited | WorkerDropped

record device_worker =
  worker_device :: string
  inbox :: "airplay_event list"
  worker_at :: worker_pc
  taken :: "airplay_event list"
  lost :: "airplay_event list"

definition worker_new :: "string \<Rightarrow> device_worker" where
  "worker_new d = \<lparr>worker_device = d, inbox = [], worker_at = WorkerIdle, taken = [], lost = []\<rparr>"

text \<open>A finished worker has dropped its receiver, with what was queued: a send to it fails.\<close>

definition finished :: "device_worker \<Rightarrow> bool" where
  "finished w \<longleftrightarrow> worker_at w = WorkerExited \<or> worker_at w = WorkerDropped"

datatype run_stage = RunLoop | RunDraining | RunJoining | RunEnded

record bridge_loop =
  run_sys :: system
  intake :: "airplay_event list"
  intake_open :: bool
  redispatch_received :: nat
  stop_requested :: bool
  worker_senders :: "(string, nat) hashmap"
  worker_set :: "device_worker list"
  run_phase :: run_stage
  routed :: "airplay_event list"

definition run_new :: "registry \<Rightarrow> bridge_loop" where
  "run_new r = \<lparr>run_sys = sys_new r, intake = [], intake_open = True, redispatch_received = 0,
     stop_requested = False, worker_senders = [], worker_set = [], run_phase = RunLoop, routed = []\<rparr>"

text \<open>The events handed to the redispatch channel, in order; the first \<open>redispatch_received\<close> are routed.\<close>

definition redispatches :: "bridge_effect list \<Rightarrow> airplay_event list" where
  "redispatches es = List.map_filter (\<lambda>e. case e of RedispatchEvent ev \<Rightarrow> Some ev | _ \<Rightarrow> None) es"

definition redispatch_queue :: "bridge_loop \<Rightarrow> airplay_event list" where
  "redispatch_queue x = drop (redispatch_received x) (redispatches (effects (sys_bridge (run_sys x))))"

definition upd_bridge :: "(bridge \<Rightarrow> bridge) \<Rightarrow> bridge_loop \<Rightarrow> bridge_loop" where
  "upd_bridge f x = x\<lparr>run_sys := (run_sys x)\<lparr>sys_bridge := f (sys_bridge (run_sys x))\<rparr>\<rparr>"

definition upd_worker :: "nat \<Rightarrow> (device_worker \<Rightarrow> device_worker) \<Rightarrow> bridge_loop \<Rightarrow> bridge_loop" where
  "upd_worker w f x = x\<lparr>worker_set := (worker_set x)[w := f (worker_set x ! w)]\<rparr>"

section \<open>Routing\<close>

definition spawn_worker :: "string \<Rightarrow> bridge_loop \<Rightarrow> nat \<times> bridge_loop" where
  "spawn_worker d x =
     (let w = length (worker_set x)
      in (w, x\<lparr>worker_set := worker_set x @ [worker_new d], worker_senders := hm_insert d w (worker_senders x)\<rparr>))"

definition send_to :: "nat \<Rightarrow> airplay_event \<Rightarrow> bridge_loop \<Rightarrow> bridge_loop option" where
  "send_to w ev x =
     (if finished (worker_set x ! w) then None
      else Some (upd_worker w (\<lambda>d. d\<lparr>inbox := inbox d @ [ev]\<rparr>) x))"

definition send_or_recreate :: "string \<Rightarrow> nat \<Rightarrow> airplay_event \<Rightarrow> bridge_loop \<Rightarrow> bridge_loop" where
  "send_or_recreate d w ev x =
     (case send_to w ev x of
        Some y \<Rightarrow> y
      | None \<Rightarrow>
          let (w', x2) = spawn_worker d (x\<lparr>worker_senders := hm_remove d (worker_senders x)\<rparr>)
          in case send_to w' ev x2 of Some y \<Rightarrow> y | None \<Rightarrow> x2)"

definition route_event :: "airplay_event \<Rightarrow> bridge_loop \<Rightarrow> bridge_loop" where
  "route_event ev x =
     (let d = event_device_id ev;
          x0 = x\<lparr>routed := routed x @ [ev]\<rparr>;
          x1 = (if hm_get (worker_senders x0) d = None then snd (spawn_worker d x0) else x0)
      in case hm_get (worker_senders x1) d of
           None \<Rightarrow> x1
         | Some w \<Rightarrow> send_or_recreate d w ev x1)"

section \<open>A worker's turn\<close>

definition receive_event :: "nat \<Rightarrow> airplay_event \<Rightarrow> bridge_loop \<Rightarrow> bridge_loop" where
  "receive_event w ev = upd_worker w (\<lambda>d. d\<lparr>inbox := tl (inbox d), taken := taken d @ [ev]\<rparr>)"

definition begin_start ::
  "nat \<Rightarrow> string \<Rightarrow> u32 \<Rightarrow> ring_ref \<Rightarrow> string option \<Rightarrow> ring_ref option \<Rightarrow> bridge_loop \<Rightarrow> bridge_loop" where
  "begin_start w d rate ring grp current x =
     (let (b', st) = handle_session_start d rate ring grp current (sys_bridge (run_sys x));
          i = length (start_tasks (run_sys x))
      in case st of
           StartRunning j pc \<Rightarrow>
             upd_worker w (\<lambda>dw. dw\<lparr>worker_at := WorkerStarting i\<rparr>)
               (x\<lparr>run_sys := (run_sys x)\<lparr>sys_bridge := b', start_tasks := start_tasks (run_sys x) @ [(j, st)]\<rparr>\<rparr>)
         | StartEnded res \<Rightarrow>
             upd_bridge (group_check_owner d) (x\<lparr>run_sys := (run_sys x)\<lparr>sys_bridge := b'\<rparr>\<rparr>))"

definition handle_event ::
  "nat \<Rightarrow> airplay_event \<Rightarrow> ring_ref option \<Rightarrow> instant \<Rightarrow> bridge_loop \<Rightarrow> bridge_loop" where
  "handle_event w ev current now x =
     (case ev of
        EvStarted d rate ring grp \<Rightarrow> begin_start w d rate ring grp current x
      | EvEnded d \<Rightarrow>
          (case ended_decision_of d current (sys_bridge (run_sys x)) of
             None \<Rightarrow> x
           | Some decision \<Rightarrow> upd_worker w (\<lambda>dw. dw\<lparr>worker_at := WorkerEnding (EndedAct decision)\<rparr>) x)
      | _ \<Rightarrow> upd_bridge (dispatch_event ev current now) x)"

text \<open>The next stretch of \<open>handle_ended\<close>; it awaits the teardown of the session it has taken.\<close>

definition ending_ready :: "ended_pc \<Rightarrow> bridge_loop \<Rightarrow> bool" where
  "ending_ready pc x \<longleftrightarrow> (case pc of EndedTeardown i \<Rightarrow> td_pcs (run_sys x) i = TdDone | _ \<Rightarrow> True)"

definition continue_ending :: "nat \<Rightarrow> ended_pc \<Rightarrow> bridge_loop \<Rightarrow> bridge_loop" where
  "continue_ending w pc x =
     (case handle_ended (worker_device (worker_set x ! w)) pc (sys_bridge (run_sys x)) of
        (b', next) \<Rightarrow>
          upd_worker w (\<lambda>dw. dw\<lparr>worker_at := (case next of None \<Rightarrow> WorkerIdle | Some pc' \<Rightarrow> WorkerEnding pc')\<rparr>)
            (upd_bridge (\<lambda>_. b') x))"

text \<open>The future of a start is dropped with its worker: \<open>StartingGuard\<close> clears what is still \<open>Starting\<close>.\<close>

definition drop_start :: "worker_pc \<Rightarrow> system \<Rightarrow> system" where
  "drop_start pc x =
     (case pc of
        WorkerStarting i \<Rightarrow>
          (case start_tasks x ! i of
             (j, StartRunning j' p) \<Rightarrow>
               x\<lparr>sys_bridge := start_abandoned j (sys_bridge x),
                 start_tasks := (start_tasks x)[i := (j, StartEnded (Inr ()))]\<rparr>
           | _ \<Rightarrow> x)
      | _ \<Rightarrow> x)"

definition stop_worker :: "worker_pc \<Rightarrow> nat \<Rightarrow> bridge_loop \<Rightarrow> bridge_loop" where
  "stop_worker pc w x =
     upd_worker w (\<lambda>d. d\<lparr>worker_at := pc, lost := inbox d, inbox := []\<rparr>)
       (x\<lparr>run_sys := drop_start (worker_at (worker_set x ! w)) (run_sys x)\<rparr>)"

definition inbox_closed :: "nat \<Rightarrow> bridge_loop \<Rightarrow> bool" where
  "inbox_closed w x \<longleftrightarrow> hm_get (worker_senders x) (worker_device (worker_set x ! w)) \<noteq> Some w"

section \<open>The other tasks\<close>

text \<open>
  What runs beside the workers: callbacks, watchdogs and checks, the waits of a start (its own worker
  polls it), re-LOADs, rollover loops, group reconciliations and teardowns. A teardown whose task was aborted
  with the bridge takes no further step.
\<close>

fun done_by_run :: "bridge_op \<Rightarrow> bool" where
  "done_by_run (OpEvent _ _ _) = True"
| "done_by_run (OpEnded _ _) = True"
| "done_by_run OpEndAll = True"
| "done_by_run OpForgetGroups = True"
| "done_by_run _ = False"

inductive task_step :: "system \<Rightarrow> system \<Rightarrow> bool" where
  "\<not> done_by_run op \<Longrightarrow> task_step x (x\<lparr>sys_bridge := apply_op op (sys_bridge x)\<rparr>)"
| "i < length (start_tasks x) \<Longrightarrow> start_tasks x ! i = (j, StartRunning j' pc) \<Longrightarrow>
   start_step j pc inp (sys_bridge x) = (b', st) \<Longrightarrow>
   task_step x (x\<lparr>sys_bridge := b', start_tasks := (start_tasks x)[i := (j, st)]\<rparr>)"
| "reload_plan d g flush (sys_bridge x) = Inr rlj \<Longrightarrow>
   task_step x (x\<lparr>reload_tasks := reload_tasks x @ [(rlj, ReloadRunning RlWantFlight)]\<rparr>)"
| "i < length (reload_tasks x) \<Longrightarrow> reload_tasks x ! i = (j, ReloadRunning rpc) \<Longrightarrow>
   reload_step j rpc rin (sys_bridge x) = (b', rst) \<or> reload_abort j rpc (sys_bridge x) = (b', rst) \<Longrightarrow>
   task_step x (x\<lparr>sys_bridge := b', reload_tasks := (reload_tasks x)[i := (j, rst)]\<rparr>)"
| "ro_sid rj < next_sid (sys_bridge x) \<Longrightarrow> task_step x (x\<lparr>rollover_tasks := rollover_tasks x @ [(rj, RoIdle 0)]\<rparr>)"
| "i < length (rollover_tasks x) \<Longrightarrow> rollover_tasks x ! i = (rj, ropc) \<Longrightarrow>
   rollover_step rj ropc roin (sys_bridge x) = (b', ropc') \<or> rollover_abort rj ropc (sys_bridge x) = (b', ropc') \<Longrightarrow>
   task_step x (x\<lparr>sys_bridge := b', rollover_tasks := (rollover_tasks x)[i := (rj, ropc')]\<rparr>)"
| "task_step x (x\<lparr>group_tasks := group_tasks x @ [(u, GrSleeping)]\<rparr>)"
| "i < length (group_tasks x) \<Longrightarrow> group_tasks x ! i = (u, gpc) \<Longrightarrow>
   group_step u gpc gin (sys_bridge x) = (b', gpc') \<Longrightarrow>
   task_step x (x\<lparr>sys_bridge := b', group_tasks := (group_tasks x)[i := (u, gpc')]\<rparr>)"
| "i < length (teardowns (effects (sys_bridge x))) \<Longrightarrow>
   td_step (teardowns (effects (sys_bridge x)) ! i) (td_pcs x i) stopped (sys_bridge x) = (b', tpc') \<Longrightarrow>
   task_step x (x\<lparr>sys_bridge := b', td_pcs := (td_pcs x)(i := tpc')\<rparr>)"

section \<open>The run\<close>

definition close_intake :: "bridge_loop \<Rightarrow> bridge_loop" where
  "close_intake x = x\<lparr>intake := [], intake_open := False, worker_senders := [], run_phase := RunDraining\<rparr>"

inductive run_step :: "bridge_loop \<Rightarrow> bridge_loop \<Rightarrow> bool" where
  arrive: "intake_open x \<Longrightarrow> run_step x (x\<lparr>intake := intake x @ [ev]\<rparr>)"
| senders_gone: "run_step x (x\<lparr>intake_open := False\<rparr>)"
| request_shutdown: "run_step x (x\<lparr>stop_requested := True\<rparr>)"
| task: "task_step (run_sys x) s' \<Longrightarrow> run_step x (x\<lparr>run_sys := s'\<rparr>)"
| route_redispatch:
    "run_phase x = RunLoop \<Longrightarrow> \<not> stop_requested x \<Longrightarrow> redispatch_queue x = ev # evs \<Longrightarrow>
     run_step x (route_event ev (x\<lparr>redispatch_received := redispatch_received x + 1\<rparr>))"
| route_intake:
    "run_phase x = RunLoop \<Longrightarrow> \<not> stop_requested x \<Longrightarrow> redispatch_queue x = [] \<Longrightarrow> intake x = ev # evs \<Longrightarrow>
     run_step x (route_event ev (x\<lparr>intake := evs\<rparr>))"
| intake_ends:
    "run_phase x = RunLoop \<Longrightarrow>
     stop_requested x \<or> (redispatch_queue x = [] \<and> intake x = [] \<and> \<not> intake_open x) \<Longrightarrow>
     run_step x (close_intake x)"
| worker_receives:
    "w < length (worker_set x) \<Longrightarrow> worker_at (worker_set x ! w) = WorkerIdle \<Longrightarrow> \<not> stop_requested x \<Longrightarrow>
     inbox (worker_set x ! w) = ev # evs \<Longrightarrow>
     slot_generation (slot_of (event_device_id ev) (sys_bridge (run_sys x))) \<noteq> - 1 \<Longrightarrow>
     run_step x (handle_event w ev current now (receive_event w ev x))"
| worker_started:
    "w < length (worker_set x) \<Longrightarrow> worker_at (worker_set x ! w) = WorkerStarting i \<Longrightarrow> \<not> stop_requested x \<Longrightarrow>
     start_tasks (run_sys x) ! i = (j, StartEnded res) \<Longrightarrow>
     run_step x (upd_worker w (\<lambda>d. d\<lparr>worker_at := WorkerIdle\<rparr>)
       (upd_bridge (group_check_owner (worker_device (worker_set x ! w))) x))"
| worker_ending:
    "w < length (worker_set x) \<Longrightarrow> worker_at (worker_set x ! w) = WorkerEnding pc \<Longrightarrow> ending_ready pc x \<Longrightarrow>
     run_step x (continue_ending w pc x)"
| worker_exits:
    "w < length (worker_set x) \<Longrightarrow> \<not> finished (worker_set x ! w) \<Longrightarrow>
     stop_requested x \<and> (\<forall>pc. worker_at (worker_set x ! w) \<noteq> WorkerEnding pc) \<or> (worker_at (worker_set x ! w) = WorkerIdle \<and> inbox (worker_set x ! w) = [] \<and> inbox_closed w x) \<Longrightarrow>
     run_step x (stop_worker WorkerExited w x)"
| worker_dropped: \<comment> \<open>a panic, at any time, or the abort at the join's deadline\<close>
    "w < length (worker_set x) \<Longrightarrow> \<not> finished (worker_set x ! w) \<Longrightarrow>
     run_step x (stop_worker WorkerDropped w x)"
| sessions_ended:
    "run_phase x = RunDraining \<Longrightarrow> \<forall>w \<in> set (worker_set x). finished w \<Longrightarrow>
     run_step x (upd_bridge end_all_sessions (x\<lparr>run_phase := RunJoining\<rparr>))"
| run_returns: \<comment> \<open>the detached tasks have ended, or were aborted at the deadline\<close>
    "run_phase x = RunJoining \<Longrightarrow> run_step x (upd_bridge forget_all_groups (x\<lparr>run_phase := RunEnded\<rparr>))"

inductive run_reachable :: "registry \<Rightarrow> bridge_loop \<Rightarrow> bool" for r where
  run_init: "run_reachable r (run_new r)"
| run_next: "run_reachable r x \<Longrightarrow> run_step x y \<Longrightarrow> run_reachable r y"

inductive_cases run_stepE: "run_step x y"
inductive_cases task_stepE: "task_step x y"

end
