(* ===== verification/Bridge_Quiesce.thy ===== *)
theory Bridge_Quiesce
  imports Bridge_Run
begin

text \<open>
  A bridge without a live slot keeps none: only a session start makes a slot live, and the tasks that
  may still run when the workers have ended start no session.
\<close>

definition all_idle :: "bridge \<Rightarrow> bool" where
  "all_idle b \<longleftrightarrow> (\<forall>d. \<not> has_session d b)"

lemma all_idle_state: "all_idle b \<Longrightarrow> state_of d b = None \<or> state_of d b = Some Idle"
proof -
  assume "all_idle b"
  then have "\<not> has_session d b" by (simp add: all_idle_def)
  then show ?thesis
    by (cases "state_of d b") (auto simp: has_session_def elim: is_live.elims)
qed

lemma all_idle_playing [simp]: "all_idle b \<Longrightarrow> playing_at d b = None"
  using all_idle_state [of b d] by (auto simp: playing_at_def)

lemma all_idle_following [simp]: "all_idle b \<Longrightarrow> following_at d b = None"
  using all_idle_state [of b d] by (auto simp: following_at_def)

lemma all_idle_devices: "all_idle b \<Longrightarrow> devices b' = devices b \<Longrightarrow> all_idle b'"
  by (simp add: all_idle_def has_session_def state_of_def)

lemma all_idle_updates [simp]:
  "all_idle (emit e b) = all_idle b" "all_idle (emit_all es b) = all_idle b"
  "all_idle (set_group u g b) = all_idle b" "all_idle (upd_cells n f b) = all_idle b"
  "all_idle (b\<lparr>groups := gs\<rparr>) = all_idle b" "all_idle (b\<lparr>flac_fallback := fl\<rparr>) = all_idle b"
  "all_idle (b\<lparr>group_volumes := v\<rparr>) = all_idle b" "all_idle (stop_pump p b) = all_idle b"
  "all_idle (remember_flac_fallback d b) = all_idle b" "all_idle (with_group u h b) = all_idle b"
  "all_idle (set_flight n held b) = all_idle b" "all_idle (close_hosts ks b) = all_idle b"
  by (simp_all add: all_idle_def has_session_def state_of_def remember_flac_fallback_def with_group_def
      set_flight_def close_hosts_def stop_pump_def split: option.split)

lemma all_idle_set_idle: "all_idle b \<Longrightarrow> all_idle (set_state d Idle b)"
  by (auto simp: all_idle_def has_session_def)

lemma all_idle_redispatch: "all_idle b \<Longrightarrow> all_idle (redispatch_start d b)"
  by (auto simp: redispatch_start_def split: option.split device_state.split)

lemma all_idle_promote: "all_idle b \<Longrightarrow> all_idle (promote_if_ownerless u b)"
  by (auto simp: promote_if_ownerless_def all_idle_redispatch split: option.split list.split)

lemma all_idle_check_owner: "all_idle b \<Longrightarrow> all_idle (group_check_owner d b)"
proof -
  have "all_idle x \<Longrightarrow> all_idle (foldl (\<lambda>acc u. promote_if_ownerless u acc) x us)" for x us
    by (induction us arbitrary: x) (simp_all add: all_idle_promote)
  then show "all_idle b \<Longrightarrow> all_idle (group_check_owner d b)"
    by (simp add: group_check_owner_def Let_def)
qed

lemma all_idle_take: "all_idle b \<Longrightarrow> all_idle (fst (take_live_session d b))"
  using all_idle_state [of b d] by (auto simp: take_live_session_def)

lemma all_idle_session_end: "all_idle b \<Longrightarrow> all_idle (handle_session_end d b)"
  using all_idle_state [of b d] by (auto simp: handle_session_end_def take_live_session_def)

lemma all_idle_end_group: "all_idle b \<Longrightarrow> all_idle (fst (end_group u b))"
  by (rule end_group_rule [of all_idle]) (auto intro: all_idle_set_idle)

lemma all_idle_end_cast: "all_idle b \<Longrightarrow> all_idle (fst (end_cast_session pc b))"
  by (cases pc) (auto simp: case_prod_beta all_idle_session_end all_idle_end_group split: option.split)

lemma all_idle_terminal: "all_idle b \<Longrightarrow> all_idle (terminal_stall_end d g b)"
  by (auto simp: terminal_stall_end_def Let_def take_live_session_if_gen_def session_group_def
      case_prod_beta all_idle_end_group split: option.split)

lemma all_idle_spawn [simp]: "all_idle b \<Longrightarrow> spawn_session_task d g t b = b"
  by (simp add: spawn_session_task_def)

lemma all_idle_ops:
  "all_idle b \<Longrightarrow> all_idle (on_cast_remote key kind now b)"
  "all_idle b \<Longrightarrow> all_idle (fst (on_media_recovered key now1 now2 b))"
  "all_idle b \<Longrightarrow> all_idle (fst (stall_watchdog_tick d g frames now now1 now2 b))"
  "all_idle b \<Longrightarrow> all_idle (fst (cast_pause_check d g n b))"
  "all_idle b \<Longrightarrow> all_idle (fst (cast_play_check d g n b))"
  "all_idle b \<Longrightarrow> all_idle (cast_play_reply d g r b)"
  "all_idle b \<Longrightarrow> all_idle (probe_after_pause d g n b)"
  by (auto simp: on_cast_remote_def on_media_recovered_def stall_watchdog_tick_def cast_pause_check_def
      cast_play_check_def cast_play_reply_def probe_after_pause_def take_stall_snapshot_def
      plan_media_recovered_flac_def speaker_changed_def pause_locally_for_cast_def is_locally_paused_def
      record_remote_volume_def Let_def split: option.split cast_remote_kind.split sum.split)

lemma all_idle_stall_outcome: "all_idle b \<Longrightarrow> all_idle (fst (stall_reload_outcome d g now1 now2 tick r b))"
  by (auto simp: stall_reload_outcome_def stall_act_def handle_stall_reload_def note_stall_reload_and_flac_strike_def
      owe_stall_reload_def all_idle_terminal split: stall_tick.split reload_outcome.split stall_action_kind.split)

lemma all_idle_volume_turn: "all_idle b \<Longrightarrow> all_idle (fst (apply_group_volume_turn u now1 now2 status b))"
  by (auto simp: apply_group_volume_turn_def take_group_volume_def set_member_levels_def store_group_members_def
      Let_def split: option.split sum.split)

lemma all_idle_op: "\<not> done_by_run op \<Longrightarrow> all_idle b \<Longrightarrow> all_idle (apply_op op b)"
  by (cases op) (simp_all add: all_idle_check_owner all_idle_end_cast all_idle_session_end all_idle_ops
      all_idle_stall_outcome all_idle_volume_turn)

lemma all_idle_confirm [simp]: "all_idle b \<Longrightarrow> confirm_group_session d b = b"
  by (simp add: confirm_group_session_def session_group_def)

lemma all_idle_thread:
  "all_idle (fst (thread_begin j b)) = all_idle b" "all_idle (fst (thread_finish j key r b)) = all_idle b"
  "all_idle (rollover_thread_finish rj pol r b) = all_idle b"
  by (simp_all add: all_idle_def has_session_def)
    (simp add: rollover_thread_finish_def load_volume_effect_def Let_def split: sum.split option.split)

lemma all_idle_reload: "all_idle b \<Longrightarrow> all_idle (fst (reload_step j pc inp b))"
proof -
  assume idle: "all_idle b"
  have tb: "all_idle b'" if "thread_begin j b = (b', r)" for b' r
    using all_idle_thread(1) [of j b] that idle by simp
  have tf: "all_idle b'" if "thread_finish j key r b = (b', a)" for b' key r a
    using all_idle_thread(2) [of j key r b] that idle by simp
  show ?thesis
    using idle
    by (cases pc; cases inp)
      (auto simp: reload_enter_def reload_publish_def reload_accept_def accept_reload_def reload_gate_def reload_end_def
        all_idle_thread Let_def
        split: prod.split thread_start.split load_attempt.split sum.split dest: tb tf)
qed

lemma all_idle_tasks:
  "all_idle b \<Longrightarrow> all_idle (fst (reload_abort j rpc b))"
  "all_idle b \<Longrightarrow> all_idle (fst (rollover_step rj ropc roin b))"
  "all_idle b \<Longrightarrow> all_idle (fst (rollover_abort rj ropc b))"
proof -
  assume idle: "all_idle b"
  show "all_idle (fst (reload_abort j rpc b))" using idle by (cases rpc) (simp_all add: reload_end_def)
  show "all_idle (fst (rollover_step rj ropc roin b))"
    using idle by (cases ropc; cases roin) (simp_all add: Let_def all_idle_thread)
  show "all_idle (fst (rollover_abort rj ropc b))" using idle by (cases ropc) simp_all
qed

lemma all_idle_group_step: "all_idle b \<Longrightarrow> all_idle (fst (group_step u gpc gin b))"
proof -
  assume idle: "all_idle b"
  have fold: "all_idle x \<Longrightarrow> all_idle (foldl (\<lambda>acc i. redispatch_start i acc) x ids)" for x ids
    by (induction ids arbitrary: x) (simp_all add: all_idle_redispatch)
  have dirty: "all_idle b'" if "set_reconcile_dirty u v b = (b', r)" for v b' r
    using that idle by (auto simp: set_reconcile_dirty_def)
  have pass: "all_idle b'" if "finish_reconcile_pass u b = (b', r)" for b' r
    using that idle by (auto simp: finish_reconcile_pass_def split: option.splits if_splits)
  have answer: "all_idle b'" if "apply_group_plan_answer u plan r b = (b', e)" for plan r b' e
    using that idle
    by (auto simp: apply_group_plan_answer_def exclude_members_def confirm_members_def fold split: sum.splits if_splits)
  have send: "all_idle b2" if "follow_endpoint_send n e b' = (b2, r)" "all_idle b'" for n e b' b2 r
    using that by (auto simp: follow_endpoint_send_def Let_def split: if_splits)
  have moved: "all_idle (follow_endpoint_answer u o' n k r b)" for o' n k r
    using idle
    by (auto simp: follow_endpoint_answer_def reload_group_owner_def set_route_media_def close_session_host_def Let_def
        split: option.split sum.split)
  show ?thesis
    using idle
    by (cases gpc; cases gin)
      (auto simp: apply_group_plan_send_def moved split: prod.split option.split bool.split dest: dirty pass answer
        intro: send)
qed

lemma all_idle_td_step: "all_idle b \<Longrightarrow> all_idle (fst (td_step j pc stopped b))"
  by (cases pc) (simp_all add: Let_def)

text \<open>Every task that may run beside the workers, when no start is in flight.\<close>

lemma all_idle_task:
  assumes "task_step x y" "all_idle (sys_bridge x)" "\<And>i j j' pc. i < length (start_tasks x) \<Longrightarrow> start_tasks x ! i \<noteq> (j, StartRunning j' pc)"
  shows "all_idle (sys_bridge y)"
  using assms
proof (induction rule: task_step.induct)
  case (4 i x j rpc rin b' rst)
  then show ?case
    using all_idle_reload [of "sys_bridge x" j rpc rin] all_idle_tasks(1) [of "sys_bridge x" j rpc] by auto
next
  case (6 i x rj ropc roin b' ropc')
  then show ?case
    using all_idle_tasks(2) [of "sys_bridge x" rj ropc roin] all_idle_tasks(3) [of "sys_bridge x" rj ropc] by auto
next
  case (8 i x u gpc gin b' gpc')
  then show ?case using all_idle_group_step [of "sys_bridge x" u gpc gin] by simp
next
  case (9 i x stopped b' tpc')
  then show ?case
    using all_idle_td_step [of "sys_bridge x" "teardowns (effects (sys_bridge x)) ! i" "td_pcs x i" stopped] by simp
qed (auto simp: all_idle_op)

lemma end_all_idle: "all_idle (end_all_sessions b)" "all_idle b \<Longrightarrow> all_idle (forget_all_groups b)"
  by (auto simp: all_idle_def has_session_def state_of_def end_all_sessions_def Let_def forget_all_groups_def
      close_hosts_def emit_all_def hm_get_map split: option.splits)

end
