(* ===== verification/Bridge_Run_Promises.thy ===== *)
theory Bridge_Run_Promises
  imports Bridge_Quiesce Bridge_Promises
begin

text \<open>
  What \<open>Bridge::run\<close> promises with its workers: every run is a run of the interleaving the bridge's
  invariants are proved for, the events of a device keep their order and have one worker at a time, a
  device has one start in flight at most, nothing starts after a shutdown request, and a requested
  shutdown can always return, with no session left.
\<close>

section \<open>The order of a device's events\<close>

definition worker_events :: "string \<Rightarrow> device_worker list \<Rightarrow> airplay_event list" where
  "worker_events d ws = concat (map (\<lambda>w. taken w @ lost w @ inbox w) (filter (\<lambda>w. worker_device w = d) ws))"

lemma worker_events_append [simp]: "worker_events d (ws @ vs) = worker_events d ws @ worker_events d vs"
  by (simp add: worker_events_def)

lemma worker_events_Cons:
  "worker_events d (w # ws) = (if worker_device w = d then taken w @ lost w @ inbox w else []) @ worker_events d ws"
  by (simp add: worker_events_def)

lemma worker_events_Nil [simp]: "worker_events d [] = []"
  by (simp add: worker_events_def)

lemma worker_events_none: "(\<And>w. w \<in> set ws \<Longrightarrow> worker_device w \<noteq> d) \<Longrightarrow> worker_events d ws = []"
  by (simp add: worker_events_def)

lemma worker_events_update:
  assumes "w < length ws" "worker_device v = worker_device (ws ! w)"
    and "taken v @ lost v @ inbox v = taken (ws ! w) @ lost (ws ! w) @ inbox (ws ! w) @ new"
    and last: "new \<noteq> [] \<Longrightarrow> (\<And>i. w < i \<Longrightarrow> i < length ws \<Longrightarrow> worker_device (ws ! i) \<noteq> worker_device (ws ! w))"
  shows "worker_events d (ws[w := v]) = worker_events d ws @ (if d = worker_device (ws ! w) then new else [])"
proof -
  have ws: "ws = take w ws @ ws ! w # drop (Suc w) ws" using assms(1) by (rule id_take_nth_drop)
  have up: "ws[w := v] = take w ws @ v # drop (Suc w) ws" using assms(1) by (rule upd_conv_take_nth_drop)
  have tail: "worker_events d (drop (Suc w) ws) = []" if "new \<noteq> []" "d = worker_device (ws ! w)"
  proof (rule worker_events_none)
    fix u
    assume "u \<in> set (drop (Suc w) ws)"
    then obtain k where "k < length ws - Suc w" "u = ws ! (Suc w + k)" by (auto simp: in_set_conv_nth)
    then show "worker_device u \<noteq> d" using last [OF that(1), of "Suc w + k"] that(2) by simp
  qed
  have "worker_events d (ws[w := v]) = worker_events d (take w ws) @
      (if worker_device (ws ! w) = d then taken (ws ! w) @ lost (ws ! w) @ inbox (ws ! w) @ new else []) @ worker_events d (drop (Suc w) ws)"
    unfolding up using assms(2,3) by (simp add: worker_events_Cons)
  moreover have "worker_events d ws = worker_events d (take w ws) @
      (if worker_device (ws ! w) = d then taken (ws ! w) @ lost (ws ! w) @ inbox (ws ! w) else []) @ worker_events d (drop (Suc w) ws)"
    by (subst ws) (simp add: worker_events_Cons)
  ultimately show ?thesis using tail by (cases "new = []") auto
qed

section \<open>The invariant of the run\<close>

definition start_running :: "nat \<Rightarrow> system \<Rightarrow> bool" where
  "start_running i s \<longleftrightarrow> i < length (start_tasks s) \<and> (\<exists>j pc. snd (start_tasks s ! i) = StartRunning j pc)"

definition senders_ok :: "bridge_loop \<Rightarrow> bool" where
  "senders_ok x \<longleftrightarrow>
     (\<forall>d w. hm_get (worker_senders x) d = Some w \<longrightarrow>
        w < length (worker_set x) \<and> worker_device (worker_set x ! w) = d \<and>
        (\<forall>i < length (worker_set x). w < i \<longrightarrow> worker_device (worker_set x ! i) \<noteq> d))"

definition workers_ok :: "bridge_loop \<Rightarrow> bool" where
  "workers_ok x \<longleftrightarrow>
     (\<forall>i < length (worker_set x). \<forall>k < length (worker_set x).
        \<not> finished (worker_set x ! i) \<longrightarrow> \<not> finished (worker_set x ! k) \<longrightarrow>
        worker_device (worker_set x ! i) = worker_device (worker_set x ! k) \<longrightarrow> i = k) \<and>
     (\<forall>w < length (worker_set x).
        (\<forall>e \<in> set (taken (worker_set x ! w) @ lost (worker_set x ! w) @ inbox (worker_set x ! w)).
           event_device_id e = worker_device (worker_set x ! w)) \<and>
        (\<not> finished (worker_set x ! w) \<longrightarrow>
           (run_phase x = RunLoop \<longrightarrow> hm_get (worker_senders x) (worker_device (worker_set x ! w)) = Some w) \<and>
           run_phase x \<noteq> RunEnded \<and> run_phase x \<noteq> RunJoining \<and> lost (worker_set x ! w) = []))"

definition starts_ok :: "bridge_loop \<Rightarrow> bool" where
  "starts_ok x \<longleftrightarrow>
     (\<forall>w < length (worker_set x). \<forall>i. worker_at (worker_set x ! w) = WorkerStarting i \<longrightarrow>
        i < length (start_tasks (run_sys x)) \<and>
        sj_device (fst (start_tasks (run_sys x) ! i)) = worker_device (worker_set x ! w)) \<and>
     (\<forall>i. start_running i (run_sys x) \<longrightarrow>
        (\<exists>w < length (worker_set x). worker_at (worker_set x ! w) = WorkerStarting i))"

definition order_ok :: "bridge_loop \<Rightarrow> bool" where
  "order_ok x \<longleftrightarrow> (\<forall>d. filter (\<lambda>e. event_device_id e = d) (routed x) = worker_events d (worker_set x))"

definition run_ok :: "bridge_loop \<Rightarrow> bool" where
  "run_ok x \<longleftrightarrow> senders_ok x \<and> workers_ok x \<and> starts_ok x \<and> order_ok x"

lemma run_ok_new: "run_ok (run_new r)"
  by (simp add: run_ok_def senders_ok_def workers_ok_def starts_ok_def order_ok_def run_new_def sys_new_def
      start_running_def worker_events_def)

lemma loop_sender:
  assumes "workers_ok x" "run_phase x = RunLoop" "w < length (worker_set x)" "\<not> finished (worker_set x ! w)"
  shows "hm_get (worker_senders x) (worker_device (worker_set x ! w)) = Some w"
  using assms unfolding workers_ok_def by blast

lemma workers_okI:
  assumes "\<And>i k. i < length (worker_set x) \<Longrightarrow> k < length (worker_set x) \<Longrightarrow> \<not> finished (worker_set x ! i) \<Longrightarrow>
      \<not> finished (worker_set x ! k) \<Longrightarrow> worker_device (worker_set x ! i) = worker_device (worker_set x ! k) \<Longrightarrow> i = k"
    and "\<And>w e. w < length (worker_set x) \<Longrightarrow> e \<in> set (taken (worker_set x ! w) @ lost (worker_set x ! w) @ inbox (worker_set x ! w)) \<Longrightarrow>
      event_device_id e = worker_device (worker_set x ! w)"
    and "\<And>w. w < length (worker_set x) \<Longrightarrow> \<not> finished (worker_set x ! w) \<Longrightarrow> run_phase x = RunLoop \<Longrightarrow>
      hm_get (worker_senders x) (worker_device (worker_set x ! w)) = Some w"
    and "\<And>w. w < length (worker_set x) \<Longrightarrow> \<not> finished (worker_set x ! w) \<Longrightarrow> run_phase x \<noteq> RunEnded \<and> run_phase x \<noteq> RunJoining \<and> lost (worker_set x ! w) = []"
  shows "workers_ok x"
  unfolding workers_ok_def using assms by blast

lemma workers_okD:
  assumes "workers_ok x"
  shows "i < length (worker_set x) \<Longrightarrow> k < length (worker_set x) \<Longrightarrow> \<not> finished (worker_set x ! i) \<Longrightarrow>
      \<not> finished (worker_set x ! k) \<Longrightarrow> worker_device (worker_set x ! i) = worker_device (worker_set x ! k) \<Longrightarrow> i = k"
    and "w < length (worker_set x) \<Longrightarrow> e \<in> set (taken (worker_set x ! w) @ lost (worker_set x ! w) @ inbox (worker_set x ! w)) \<Longrightarrow>
      event_device_id e = worker_device (worker_set x ! w)"
    and "w < length (worker_set x) \<Longrightarrow> \<not> finished (worker_set x ! w) \<Longrightarrow> run_phase x \<noteq> RunEnded \<and> run_phase x \<noteq> RunJoining \<and> lost (worker_set x ! w) = []"
  using assms unfolding workers_ok_def by blast+

section \<open>Routing\<close>

lemma spawn_worker_ok:
  assumes ok: "senders_ok x" "workers_ok x" "starts_ok x" and loop: "run_phase x = RunLoop"
    and free: "\<forall>w < length (worker_set x). worker_device (worker_set x ! w) = d \<longrightarrow> finished (worker_set x ! w)"
    and s: "spawn_worker d x = (w, y)"
  shows "senders_ok y" "workers_ok y" "starts_ok y"
    "hm_get (worker_senders y) d = Some w" "w = length (worker_set x)" "worker_set y = worker_set x @ [worker_new d]"
    "run_phase y = RunLoop" "run_sys y = run_sys x" "routed y = routed x"
proof -
  show w: "w = length (worker_set x)" and ws: "worker_set y = worker_set x @ [worker_new d]"
    and "run_phase y = RunLoop" and sys: "run_sys y = run_sys x" and "routed y = routed x"
    using s loop by (auto simp: spawn_worker_def Let_def)
  have snd: "worker_senders y = hm_insert d w (worker_senders x)" using s by (auto simp: spawn_worker_def Let_def)
  show "hm_get (worker_senders y) d = Some w" by (simp add: snd)
  show "senders_ok y"
    using ok(1) by (auto simp: senders_ok_def ws snd w nth_append less_Suc_eq worker_new_def split: if_splits)
  have nth: "worker_set y ! v = (if v = length (worker_set x) then worker_new d else worker_set x ! v)"
    if "v < length (worker_set y)" for v
    using that unfolding ws by (auto simp: nth_append)
  have len: "length (worker_set y) = Suc (length (worker_set x))" by (simp add: ws)
  have phase: "run_phase y = RunLoop" using s loop by (auto simp: spawn_worker_def Let_def)
  show "workers_ok y"
  proof (rule workers_okI)
    fix i k
    assume a: "i < length (worker_set y)" "k < length (worker_set y)" "\<not> finished (worker_set y ! i)"
      "\<not> finished (worker_set y ! k)" "worker_device (worker_set y ! i) = worker_device (worker_set y ! k)"
    have new: False if "v < length (worker_set x)" "\<not> finished (worker_set x ! v)" "worker_device (worker_set x ! v) = d" for v
      using free that by blast
    show "i = k"
      using a new [of i] new [of k] workers_okD(1) [OF ok(2), of i k]
      by (simp add: nth len less_Suc_eq worker_new_def split: if_splits)
  next
    fix v e
    assume "v < length (worker_set y)" "e \<in> set (taken (worker_set y ! v) @ lost (worker_set y ! v) @ inbox (worker_set y ! v))"
    then show "event_device_id e = worker_device (worker_set y ! v)"
      using workers_okD(2) [OF ok(2), of v e] by (simp add: nth len less_Suc_eq worker_new_def split: if_splits)
  next
    fix v
    assume v: "v < length (worker_set y)" "\<not> finished (worker_set y ! v)"
    show "hm_get (worker_senders y) (worker_device (worker_set y ! v)) = Some v"
    proof (cases "v = length (worker_set x)")
      case True
      then show ?thesis using v by (simp add: nth worker_new_def snd w)
    next
      case False
      then have x: "v < length (worker_set x)" "\<not> finished (worker_set x ! v)" using v by (simp_all add: len nth)
      with free have "worker_device (worker_set x ! v) \<noteq> d" by blast
      with False loop_sender [OF ok(2) loop x] v show ?thesis by (simp add: nth snd)
    qed
  next
    fix v
    assume "v < length (worker_set y)" "\<not> finished (worker_set y ! v)"
    then show "run_phase y \<noteq> RunEnded \<and> run_phase y \<noteq> RunJoining \<and> lost (worker_set y ! v) = []"
      using workers_okD(3) [OF ok(2), of v] by (simp add: nth len less_Suc_eq worker_new_def phase split: if_splits)
  qed
  have "\<exists>v < length (worker_set y). worker_at (worker_set y ! v) = WorkerStarting i" if "start_running i (run_sys x)" for i
  proof -
    obtain v where "v < length (worker_set x)" "worker_at (worker_set x ! v) = WorkerStarting i"
      using ok(3) \<open>start_running i (run_sys x)\<close> by (auto simp: starts_ok_def)
    then show ?thesis by (intro exI [of _ v]) (simp add: ws nth_append)
  qed
  then show "starts_ok y"
    using ok(3) by (auto simp: starts_ok_def ws sys nth_append less_Suc_eq worker_new_def split: if_splits)
qed

text \<open>An event sent to a worker that runs.\<close>

definition has_live_inbox :: "airplay_event \<Rightarrow> bridge_loop \<Rightarrow> bool" where
  "has_live_inbox ev x \<longleftrightarrow>
     (\<exists>w < length (worker_set x). worker_device (worker_set x ! w) = event_device_id ev \<and>
        \<not> finished (worker_set x ! w) \<and> (\<exists>q. inbox (worker_set x ! w) = q @ [ev]))"

lemma sent_ok:
  assumes ok: "senders_ok x" "workers_ok x" "starts_ok x"
    and w: "hm_get (worker_senders x) (event_device_id ev) = Some w" and s: "send_to w ev x = Some y"
  shows "senders_ok y" "workers_ok y" "starts_ok y" "run_sys y = run_sys x" "run_phase y = run_phase x" "routed y = routed x"
    "worker_events d (worker_set y) = worker_events d (worker_set x) @ filter (\<lambda>e. event_device_id e = d) [ev]"
    "has_live_inbox ev y"
proof -
  have y: "y = upd_worker w (\<lambda>d. d\<lparr>inbox := inbox d @ [ev]\<rparr>) x" and fin: "\<not> finished (worker_set x ! w)"
    using s by (auto simp: send_to_def split: if_splits)
  from ok(1) w have lt: "w < length (worker_set x)" and dev: "worker_device (worker_set x ! w) = event_device_id ev"
    and last: "\<And>i. w < i \<Longrightarrow> i < length (worker_set x) \<Longrightarrow> worker_device (worker_set x ! i) \<noteq> event_device_id ev"
    by (auto simp: senders_ok_def)
  show "run_sys y = run_sys x" "run_phase y = run_phase x" "routed y = routed x" by (simp_all add: y upd_worker_def)
  have len: "length (worker_set y) = length (worker_set x)" by (simp add: y upd_worker_def)
  have same: "worker_device (worker_set y ! i) = worker_device (worker_set x ! i)"
    "worker_at (worker_set y ! i) = worker_at (worker_set x ! i)"
    "finished (worker_set y ! i) = finished (worker_set x ! i)" if "i < length (worker_set x)" for i
    using that by (cases "i = w"; simp add: y upd_worker_def finished_def)+
  have lost: "lost (worker_set y ! i) = lost (worker_set x ! i)" if "i < length (worker_set x)" for i
    using that by (cases "i = w") (simp_all add: y upd_worker_def)
  have snd: "worker_senders y = worker_senders x" by (simp add: y upd_worker_def)
  show "senders_ok y" using ok(1) by (simp add: senders_ok_def len snd same cong: conj_cong)
  have evs: "set (taken (worker_set y ! i) @ lost (worker_set y ! i) @ inbox (worker_set y ! i)) \<subseteq>
      insert ev (set (taken (worker_set x ! i) @ lost (worker_set x ! i) @ inbox (worker_set x ! i)))" if "i < length (worker_set x)" for i
    using that by (cases "i = w") (auto simp: y upd_worker_def)
  have other: "set (taken (worker_set y ! i) @ lost (worker_set y ! i) @ inbox (worker_set y ! i)) =
      set (taken (worker_set x ! i) @ lost (worker_set x ! i) @ inbox (worker_set x ! i))" if "i < length (worker_set x)" "i \<noteq> w" for i
    using that by (simp add: y upd_worker_def)
  have phase: "run_phase y = run_phase x" by (simp add: y upd_worker_def)
  show "workers_ok y"
  proof (rule workers_okI)
    fix v e
    assume v: "v < length (worker_set y)" and e: "e \<in> set (taken (worker_set y ! v) @ lost (worker_set y ! v) @ inbox (worker_set y ! v))"
    then have vx: "v < length (worker_set x)" by (simp add: len)
    show "event_device_id e = worker_device (worker_set y ! v)"
    proof (cases "v = w \<and> e = ev")
      case True
      then show ?thesis using same(1) [OF vx] dev by simp
    next
      case False
      then have "e \<in> set (taken (worker_set x ! v) @ lost (worker_set x ! v) @ inbox (worker_set x ! v))" using evs [OF vx] other [OF vx] e by blast
      then show ?thesis using workers_okD(2) [OF ok(2) vx] same(1) [OF vx] by simp
    qed
  qed (use workers_okD(1,3) [OF ok(2)] loop_sender [OF ok(2)] in \<open>simp_all add: len snd same phase lost\<close>)
  show "has_live_inbox ev y" unfolding has_live_inbox_def
    using lt dev fin by (intro exI [of _ w]) (simp add: len same, simp add: y upd_worker_def)
  have sys: "run_sys y = run_sys x" by (simp add: y upd_worker_def)
  show "starts_ok y" using ok(3) by (simp add: starts_ok_def len same sys cong: conj_cong)
  show "worker_events d (worker_set y) = worker_events d (worker_set x) @ filter (\<lambda>e. event_device_id e = d) [ev]"
    unfolding y upd_worker_def
    using worker_events_update [OF lt, of "(worker_set x ! w)\<lparr>inbox := inbox (worker_set x ! w) @ [ev]\<rparr>" "[ev]" d] last dev
    by (auto split: if_splits)
qed

lemma route_event_ok:
  assumes ok: "run_ok x" and loop: "run_phase x = RunLoop"
  shows "run_ok (route_event ev x)" "run_sys (route_event ev x) = run_sys x" "has_live_inbox ev (route_event ev x)"
proof -
  let ?d = "event_device_id ev"
  let ?x0 = "x\<lparr>routed := routed x @ [ev]\<rparr>"
  have ok0: "senders_ok ?x0" "workers_ok ?x0" "starts_ok ?x0"
    using ok by (simp_all add: run_ok_def senders_ok_def workers_ok_def starts_ok_def)
  have loop0: "run_phase ?x0 = RunLoop" using loop by simp
  define x1 where "x1 = (if hm_get (worker_senders ?x0) ?d = None then snd (spawn_worker ?d ?x0) else ?x0)"
  have free: "\<forall>w < length (worker_set ?x0). worker_device (worker_set ?x0 ! w) = ?d \<longrightarrow> finished (worker_set ?x0 ! w)"
    if "hm_get (worker_senders ?x0) ?d = None"
    using loop_sender [OF ok0(2) loop0] that by fastforce
  have "\<exists>w. senders_ok x1 \<and> workers_ok x1 \<and> starts_ok x1 \<and> run_phase x1 = RunLoop \<and> run_sys x1 = run_sys x \<and>
      routed x1 = routed x @ [ev] \<and> hm_get (worker_senders x1) ?d = Some w \<and>
      (\<forall>d. worker_events d (worker_set x1) = worker_events d (worker_set x))"
  proof (cases "hm_get (worker_senders ?x0) ?d")
    case None
    obtain w y where sp: "spawn_worker ?d ?x0 = (w, y)" by force
    with None have "x1 = y" by (simp add: x1_def)
    with spawn_worker_ok [OF ok0 loop0 free [OF None] sp] show ?thesis
      by (auto simp: worker_new_def worker_events_Cons)
  next
    case (Some w)
    then have "x1 = ?x0" by (simp add: x1_def)
    with Some ok0 loop show ?thesis by auto
  qed
  then obtain w where ok1: "senders_ok x1" "workers_ok x1" "starts_ok x1" and loop1: "run_phase x1 = RunLoop"
    and frame1: "run_sys x1 = run_sys x" "routed x1 = routed x @ [ev]" and w: "hm_get (worker_senders x1) ?d = Some w"
    and ev1: "\<And>d. worker_events d (worker_set x1) = worker_events d (worker_set x)" by blast
  have r: "route_event ev x = send_or_recreate ?d w ev x1"
    unfolding route_event_def Let_def x1_def [symmetric] by (simp add: w)
  have fin: "run_ok y \<and> run_sys y = run_sys x \<and> has_live_inbox ev y"
    if "has_live_inbox ev y" "senders_ok y" "workers_ok y" "starts_ok y" "run_sys y = run_sys x" "routed y = routed x @ [ev]"
      "\<And>d. worker_events d (worker_set y) = worker_events d (worker_set x) @ filter (\<lambda>e. event_device_id e = d) [ev]" for y
    using that ok by (simp add: run_ok_def order_ok_def)
  have "run_ok (send_or_recreate ?d w ev x1) \<and> run_sys (send_or_recreate ?d w ev x1) = run_sys x \<and>
      has_live_inbox ev (send_or_recreate ?d w ev x1)"
  proof (cases "send_to w ev x1")
    case (Some y)
    with sent_ok [OF ok1 w Some] show ?thesis by (intro fin) (simp_all add: send_or_recreate_def frame1 ev1)
  next
    case None
    then have dead: "finished (worker_set x1 ! w)" by (simp add: send_to_def split: if_splits)
    let ?x2 = "x1\<lparr>worker_senders := hm_remove ?d (worker_senders x1)\<rparr>"
    have free2: "\<forall>v < length (worker_set ?x2). worker_device (worker_set ?x2 ! v) = ?d \<longrightarrow> finished (worker_set ?x2 ! v)"
      using loop_sender [OF ok1(2) loop1] w dead by fastforce
    have ok2: "senders_ok ?x2" "workers_ok ?x2" "starts_ok ?x2" "run_phase ?x2 = RunLoop"
    proof -
      show "senders_ok ?x2" "starts_ok ?x2" "run_phase ?x2 = RunLoop"
        using ok1(1,3) loop1 by (simp_all add: senders_ok_def starts_ok_def)
      have "hm_get (worker_senders ?x2) (worker_device (worker_set x1 ! v)) = Some v"
        if "v < length (worker_set x1)" "\<not> finished (worker_set x1 ! v)" for v
        using loop_sender [OF ok1(2) loop1 that] free2 that by auto
      with ok1(2) show "workers_ok ?x2" by (simp add: workers_ok_def)
    qed
    obtain v y where sp: "spawn_worker ?d ?x2 = (v, y)" by force
    note S = spawn_worker_ok [OF ok2 free2 sp]
    have "worker_set y ! v = worker_new ?d" using S(5,6) by simp
    then have "\<not> finished (worker_set y ! v)" by (simp add: worker_new_def finished_def)
    then obtain z where z: "send_to v ev y = Some z" by (simp add: send_to_def)
    with None sp have "send_or_recreate ?d w ev x1 = z" by (simp add: send_or_recreate_def)
    with sent_ok [OF S(1-3) S(4) z] show ?thesis
      by (intro fin) (simp_all add: S frame1 ev1 worker_new_def worker_events_Cons)
  qed
  with r show "run_ok (route_event ev x)" "run_sys (route_event ev x) = run_sys x" "has_live_inbox ev (route_event ev x)"
    by simp_all
qed

text \<open>The workers of a device that have not finished: one at most, and it gets the device's events.\<close>

definition live_workers :: "string \<Rightarrow> bridge_loop \<Rightarrow> nat list" where
  "live_workers d x =
     filter (\<lambda>w. worker_device (worker_set x ! w) = d \<and> \<not> finished (worker_set x ! w)) [0..<length (worker_set x)]"

lemma live_workers_mem:
  "w \<in> set (live_workers d x) \<longleftrightarrow>
   w < length (worker_set x) \<and> worker_device (worker_set x ! w) = d \<and> \<not> finished (worker_set x ! w)"
  by (auto simp: live_workers_def)

lemma live_workers_one:
  assumes "run_ok x"
  shows "length (live_workers d x) \<le> 1"
proof -
  have "distinct (live_workers d x)" by (simp add: live_workers_def)
  moreover have "v = w" if "v \<in> set (live_workers d x)" "w \<in> set (live_workers d x)" for v w
    using that assms workers_okD(1) [of x v w] by (auto simp: live_workers_mem run_ok_def)
  ultimately show ?thesis
    using card_le_Suc0_iff_eq [of "set (live_workers d x)"] distinct_card [of "live_workers d x"] by auto
qed

lemma route_delivers:
  assumes ok: "run_ok x" and loop: "run_phase x = RunLoop"
  shows "length (live_workers (event_device_id ev) x) \<le> 1 \<and>
     worker_set (route_event ev x) =
       (case live_workers (event_device_id ev) x of
          [] \<Rightarrow> worker_set x @ [(worker_new (event_device_id ev))\<lparr>inbox := [ev]\<rparr>]
        | w # _ \<Rightarrow> (worker_set x)[w := (worker_set x ! w)\<lparr>inbox := inbox (worker_set x ! w) @ [ev]\<rparr>])"
proof (intro conjI)
  let ?d = "event_device_id ev"
  show "length (live_workers ?d x) \<le> 1" using ok by (rule live_workers_one)
  show "worker_set (route_event ev x) =
       (case live_workers ?d x of
          [] \<Rightarrow> worker_set x @ [(worker_new ?d)\<lparr>inbox := [ev]\<rparr>]
        | w # _ \<Rightarrow> (worker_set x)[w := (worker_set x ! w)\<lparr>inbox := inbox (worker_set x ! w) @ [ev]\<rparr>])"
  proof (cases "live_workers ?d x")
    case (Cons w ws)
    then have w: "w < length (worker_set x)" "worker_device (worker_set x ! w) = ?d" "\<not> finished (worker_set x ! w)"
      using live_workers_mem [of w ?d x] by auto
    with loop_sender [of x w] ok loop have "hm_get (worker_senders x) ?d = Some w" by (simp add: run_ok_def)
    with w Cons show ?thesis
      by (simp add: route_event_def Let_def send_or_recreate_def send_to_def upd_worker_def)
  next
    case Nil
    show ?thesis
    proof (cases "hm_get (worker_senders x) ?d")
      case None
      then show ?thesis
        using Nil
        by (simp add: route_event_def Let_def spawn_worker_def send_or_recreate_def send_to_def upd_worker_def
            finished_def worker_new_def nth_append)
    next
      case (Some w)
      then have "w < length (worker_set x)" "worker_device (worker_set x ! w) = ?d"
        using ok by (auto simp: run_ok_def senders_ok_def)
      then have "finished (worker_set x ! w)" using Nil live_workers_mem [of w ?d x] by simp
      with Some Nil show ?thesis
        by (simp add: route_event_def Let_def spawn_worker_def send_or_recreate_def send_to_def upd_worker_def)
          (simp add: finished_def worker_new_def)
    qed
  qed
qed

section \<open>Workers and tasks\<close>

text \<open>A worker's turn, with what it does to the starts in flight.\<close>

lemma worker_turn_ok:
  assumes ok: "run_ok x" and w: "w < length (worker_set x)"
    and f: "worker_device (f (worker_set x ! w)) = worker_device (worker_set x ! w)"
      "taken (f (worker_set x ! w)) @ lost (f (worker_set x ! w)) @ inbox (f (worker_set x ! w)) = taken (worker_set x ! w) @ lost (worker_set x ! w) @ inbox (worker_set x ! w)"
      "finished (worker_set x ! w) \<Longrightarrow> finished (f (worker_set x ! w))"
      "\<not> finished (f (worker_set x ! w)) \<Longrightarrow> lost (f (worker_set x ! w)) = lost (worker_set x ! w)"
    and len: "length (start_tasks (run_sys x)) \<le> length (start_tasks s')"
    and dev: "\<And>i. i < length (start_tasks (run_sys x)) \<Longrightarrow>
       sj_device (fst (start_tasks s' ! i)) = sj_device (fst (start_tasks (run_sys x) ! i))"
    and own: "\<And>i. worker_at (f (worker_set x ! w)) = WorkerStarting i \<Longrightarrow>
       i < length (start_tasks s') \<and> sj_device (fst (start_tasks s' ! i)) = worker_device (worker_set x ! w)"
    and run: "\<And>i. start_running i s' \<Longrightarrow>
       worker_at (f (worker_set x ! w)) = WorkerStarting i \<or>
       (start_running i (run_sys x) \<and> worker_at (worker_set x ! w) \<noteq> WorkerStarting i)"
  shows "run_ok (upd_worker w f (x\<lparr>run_sys := s'\<rparr>))"
proof -
  let ?y = "upd_worker w f (x\<lparr>run_sys := s'\<rparr>)"
  have ws: "worker_set ?y = (worker_set x)[w := f (worker_set x ! w)]" by (simp add: upd_worker_def)
  have nth: "worker_set ?y ! i = (if i = w then f (worker_set x ! w) else worker_set x ! i)"
    if "i < length (worker_set x)" for i using that w by (simp add: ws nth_list_update)
  have frame: "worker_senders ?y = worker_senders x" "run_phase ?y = run_phase x" "routed ?y = routed x" "run_sys ?y = s'"
    by (simp_all add: upd_worker_def)
  have wlen: "length (worker_set ?y) = length (worker_set x)" by (simp add: ws)
  have dv: "worker_device (worker_set ?y ! i) = worker_device (worker_set x ! i)" if "i < length (worker_set x)" for i
    using that f(1) by (simp add: nth)
  have evs: "set (taken (worker_set ?y ! i) @ lost (worker_set ?y ! i) @ inbox (worker_set ?y ! i)) = set (taken (worker_set x ! i) @ lost (worker_set x ! i) @ inbox (worker_set x ! i))"
    if "i < length (worker_set x)" for i using that arg_cong [OF f(2), of set] by (simp add: nth)
  have fi: "\<not> finished (worker_set ?y ! i) \<Longrightarrow> \<not> finished (worker_set x ! i)" if "i < length (worker_set x)" for i
    using that f(3) by (auto simp: nth split: if_splits)
  have lost: "\<not> finished (worker_set ?y ! i) \<Longrightarrow> lost (worker_set ?y ! i) = lost (worker_set x ! i)"
    if "i < length (worker_set x)" for i using that f(4) by (auto simp: nth split: if_splits)
  have "senders_ok ?y"
    using ok by (simp add: run_ok_def senders_ok_def frame wlen dv)
  moreover have "workers_ok ?y"
    using ok unfolding run_ok_def workers_ok_def frame wlen by (metis dv evs fi lost)
  moreover have "starts_ok ?y"
  proof -
    have old: "\<And>v i. v < length (worker_set x) \<Longrightarrow> worker_at (worker_set x ! v) = WorkerStarting i \<Longrightarrow>
        i < length (start_tasks (run_sys x)) \<and> sj_device (fst (start_tasks (run_sys x) ! i)) = worker_device (worker_set x ! v)"
      and held: "\<And>i. start_running i (run_sys x) \<Longrightarrow> \<exists>v < length (worker_set x). worker_at (worker_set x ! v) = WorkerStarting i"
      using ok by (auto simp: run_ok_def starts_ok_def)
    have "\<exists>v < length (worker_set x). worker_at (worker_set ?y ! v) = WorkerStarting i" if "start_running i s'" for i
      using run [OF that] held [of i] w by (metis nth)
    moreover have "i < length (start_tasks s') \<and> sj_device (fst (start_tasks s' ! i)) = worker_device (worker_set ?y ! v)"
      if "v < length (worker_set x)" "worker_at (worker_set ?y ! v) = WorkerStarting i" for v i
      using that own [of i] old [of v i] dev [of i] len f(1) by (auto simp: nth split: if_splits)
    ultimately show ?thesis by (simp add: starts_ok_def wlen frame)
  qed
  moreover have "order_ok ?y"
    using ok worker_events_update [OF w f(1), of "[]"] f(2) by (simp add: run_ok_def order_ok_def frame ws)
  ultimately show ?thesis by (simp add: run_ok_def)
qed

text \<open>Everything else leaves the workers alone.\<close>

lemma other_step_ok:
  assumes ok: "run_ok x"
    and same: "worker_set y = worker_set x" "worker_senders y = worker_senders x \<or> run_phase y \<noteq> RunLoop \<and> worker_senders y = []"
      "routed y = routed x" "run_phase y = run_phase x \<or> run_phase y = RunDraining \<or>
        (run_phase y = RunEnded \<or> run_phase y = RunJoining) \<and> (\<forall>w < length (worker_set x). finished (worker_set x ! w))"
    and starts: "length (start_tasks (run_sys y)) = length (start_tasks (run_sys x))"
      "\<And>i. sj_device (fst (start_tasks (run_sys y) ! i)) = sj_device (fst (start_tasks (run_sys x) ! i))"
      "\<And>i. start_running i (run_sys y) \<Longrightarrow> start_running i (run_sys x)"
  shows "run_ok y"
proof -
  have "senders_ok y"
    using ok same(1,2) by (cases "worker_senders y = []") (auto simp: run_ok_def senders_ok_def)
  moreover have "workers_ok y"
    using ok same(1,2,4) by (auto simp: run_ok_def workers_ok_def)
  moreover have "starts_ok y" using ok same(1) starts by (simp add: run_ok_def starts_ok_def)
  moreover have "order_ok y" using ok same(1,3) by (simp add: run_ok_def order_ok_def)
  ultimately show ?thesis by (simp add: run_ok_def)
qed

lemma task_step_starts:
  assumes "task_step x y"
  shows "length (start_tasks y) = length (start_tasks x)"
    "fst (start_tasks y ! i) = fst (start_tasks x ! i)"
    "start_running i y \<Longrightarrow> start_running i x"
  using assms by (auto elim!: task_stepE simp: start_running_def nth_list_update split: if_splits)

lemma task_step_sys: "task_step x y \<Longrightarrow> sys_step x y"
proof (induction rule: task_step.induct)
  case (1 op x)
  then have "\<not> is_start op" by (cases op) auto
  then show ?case by (rule sys_step.op)
qed (auto intro: sys_step.intros)

lemma upd_bridge_frame [simp]:
  "worker_set (upd_bridge g x) = worker_set x" "worker_senders (upd_bridge g x) = worker_senders x"
  "routed (upd_bridge g x) = routed x" "run_phase (upd_bridge g x) = run_phase x"
  "start_tasks (run_sys (upd_bridge g x)) = start_tasks (run_sys x)"
  "stop_requested (upd_bridge g x) = stop_requested x"
  by (simp_all add: upd_bridge_def)

lemma start_running_bridge [simp]: "start_running i (run_sys (upd_bridge g x)) = start_running i (run_sys x)"
  by (simp add: start_running_def)

lemma upd_bridge_ok: "run_ok x \<Longrightarrow> run_ok (upd_bridge g x)"
  by (rule other_step_ok) simp_all

lemma receive_event_ok:
  assumes "run_ok x" "w < length (worker_set x)" "inbox (worker_set x ! w) = ev # evs"
    and "worker_at (worker_set x ! w) = WorkerIdle"
  shows "run_ok (receive_event w ev x)"
proof -
  have "lost (worker_set x ! w) = []"
    using assms workers_okD(3) [of x w] by (simp add: run_ok_def finished_def)
  then show ?thesis
    using assms worker_turn_ok [of x w "\<lambda>d. d\<lparr>inbox := tl (inbox d), taken := taken d @ [ev]\<rparr>" "run_sys x"]
    by (simp add: receive_event_def finished_def run_ok_def starts_ok_def)
qed

lemma start_running_append:
  "start_running i (s\<lparr>sys_bridge := b', start_tasks := start_tasks s @ [(j, st)]\<rparr>) \<Longrightarrow>
   start_running i s \<or> i = length (start_tasks s)"
  by (auto simp: start_running_def nth_append less_Suc_eq)

lemma begin_start_ok:
  assumes ok: "run_ok x" and w: "w < length (worker_set x)" and idle: "worker_at (worker_set x ! w) = WorkerIdle"
    and d: "worker_device (worker_set x ! w) = d"
  shows "run_ok (begin_start w d rate ring grp current x)"
proof -
  obtain b' st where h: "handle_session_start d rate ring grp current (sys_bridge (run_sys x)) = (b', st)" by force
  show ?thesis
  proof (cases st)
    case (StartEnded res)
    have "run_ok (x\<lparr>run_sys := (run_sys x)\<lparr>sys_bridge := b'\<rparr>\<rparr>)"
      by (rule other_step_ok [OF ok]) (simp_all add: start_running_def)
    then show ?thesis by (simp add: begin_start_def h StartEnded upd_bridge_ok)
  next
    case (StartRunning j pc)
    let ?s = "(run_sys x)\<lparr>sys_bridge := b', start_tasks := start_tasks (run_sys x) @ [(j, st)]\<rparr>"
    have "sj_device j = d" using start_status_job(2) h StartRunning by blast
    then have "run_ok (upd_worker w (\<lambda>dw. dw\<lparr>worker_at := WorkerStarting (length (start_tasks (run_sys x)))\<rparr>) (x\<lparr>run_sys := ?s\<rparr>))"
      using idle d by (intro worker_turn_ok [OF ok w])
        (auto simp: finished_def nth_append dest: start_running_append)
    then show ?thesis by (simp add: begin_start_def h StartRunning)
  qed
qed

lemma worker_at_ok:
  assumes ok: "run_ok x" and w: "w < length (worker_set x)"
    and old: "worker_at (worker_set x ! w) = WorkerIdle \<or> worker_at (worker_set x ! w) = WorkerEnding pc"
    and new: "new = WorkerIdle \<or> new = WorkerEnding pc'"
  shows "run_ok (upd_worker w (\<lambda>d. d\<lparr>worker_at := new\<rparr>) x)"
proof -
  have "run_ok (upd_worker w (\<lambda>d. d\<lparr>worker_at := new\<rparr>) (x\<lparr>run_sys := run_sys x\<rparr>))"
    by (rule worker_turn_ok [OF ok w]) (use ok old new in \<open>auto simp: finished_def run_ok_def starts_ok_def\<close>)
  then show ?thesis by simp
qed

lemma continue_ending_ok:
  assumes "run_ok x" "w < length (worker_set x)" "worker_at (worker_set x ! w) = WorkerEnding pc"
  shows "run_ok (continue_ending w pc x)"
  using assms
  by (auto simp: continue_ending_def upd_bridge_ok split: prod.split option.split
      intro!: worker_at_ok [where pc = pc and pc' = "_ :: ended_pc"])

lemma handle_event_ok:
  assumes ok: "run_ok x" and w: "w < length (worker_set x)" and idle: "worker_at (worker_set x ! w) = WorkerIdle"
    and ev: "inbox (worker_set x ! w) = ev # evs"
  shows "run_ok (handle_event w ev current now (receive_event w ev x))"
proof -
  let ?x = "receive_event w ev x"
  have x: "run_ok ?x" using ok w ev idle by (rule receive_event_ok)
  have "event_device_id ev = worker_device (worker_set x ! w)"
    using ok workers_okD(2) [of x w ev] w ev by (simp add: run_ok_def)
  then have dev: "event_device_id ev = worker_device (worker_set x ! w)" .
  have at: "w < length (worker_set ?x)" "worker_at (worker_set ?x ! w) = WorkerIdle"
    using w idle by (simp_all add: receive_event_def upd_worker_def)
  show ?thesis
  proof (cases ev)
    case (EvEnded d)
    then show ?thesis
      using x worker_at_ok [OF x at(1), where pc' = "EndedAct _"] at(2)
      by (simp add: handle_event_def split: option.split)
  qed (use x dev w idle in \<open>auto simp: handle_event_def upd_bridge_ok receive_event_def upd_worker_def
      intro!: begin_start_ok\<close>)
qed

lemma ended_update:
  assumes "xs ! k = (j, StartRunning j' p)"
  shows "fst (xs[k := (j, StartEnded res)] ! i) = fst (xs ! i)"
    and "snd (xs[k := (j, StartEnded res)] ! i) = StartRunning j'' p'' \<Longrightarrow> i < length xs \<Longrightarrow>
      snd (xs ! i) = StartRunning j'' p'' \<and> i \<noteq> k"
proof -
  show "fst (xs[k := (j, StartEnded res)] ! i) = fst (xs ! i)"
    using assms by (cases "k < length xs"; cases "i = k") (simp_all add: not_less list_update_beyond)
  show "snd (xs[k := (j, StartEnded res)] ! i) = StartRunning j'' p'' \<Longrightarrow> i < length xs \<Longrightarrow>
      snd (xs ! i) = StartRunning j'' p'' \<and> i \<noteq> k"
    by (cases "i = k") simp_all
qed

lemma drop_start_cases:
  obtains (dropped) i j j' p where "pc = WorkerStarting i" "start_tasks s ! i = (j, StartRunning j' p)"
      "drop_start pc s = s\<lparr>sys_bridge := start_abandoned j (sys_bridge s),
         start_tasks := (start_tasks s)[i := (j, StartEnded (Inr ()))]\<rparr>"
  | (kept) "drop_start pc s = s" "\<And>i. pc = WorkerStarting i \<Longrightarrow> \<not> start_running i s"
proof (cases pc)
  case (WorkerStarting i)
  obtain j st where t: "start_tasks s ! i = (j, st)" by force
  show ?thesis
  proof (cases st)
    case (StartRunning j' p)
    with WorkerStarting t show ?thesis by (intro dropped) (simp_all add: drop_start_def)
  next
    case (StartEnded res)
    with WorkerStarting t show ?thesis by (intro kept) (simp_all add: drop_start_def start_running_def)
  qed
qed (auto intro: kept simp: drop_start_def)

lemma drop_start_starts:
  shows "length (start_tasks (drop_start pc s)) = length (start_tasks s)"
    and "fst (start_tasks (drop_start pc s) ! i) = fst (start_tasks s ! i)"
    and "start_running i (drop_start pc s) \<Longrightarrow> start_running i s \<and> pc \<noteq> WorkerStarting i"
proof -
  show "length (start_tasks (drop_start pc s)) = length (start_tasks s)"
    by (cases rule: drop_start_cases [of pc s]) simp_all
  show "fst (start_tasks (drop_start pc s) ! i) = fst (start_tasks s ! i)"
    by (cases rule: drop_start_cases [of pc s]) (simp_all add: ended_update)
  assume r: "start_running i (drop_start pc s)"
  show "start_running i s \<and> pc \<noteq> WorkerStarting i"
  proof (cases rule: drop_start_cases [of pc s])
    case (dropped k j j' p)
    from r obtain j'' p'' where i: "i < length (start_tasks s)"
      and "snd ((start_tasks s)[k := (j, StartEnded (Inr ()))] ! i) = StartRunning j'' p''"
      by (auto simp: start_running_def dropped(3))
    from ended_update(2) [OF dropped(2) this(2,1)] i dropped(1) show ?thesis by (auto simp: start_running_def)
  next
    case kept
    with r show ?thesis by auto
  qed
qed

lemma stop_worker_ok:
  assumes "run_ok x" "w < length (worker_set x)" "\<not> finished (worker_set x ! w)"
    and "pc = WorkerExited \<or> pc = WorkerDropped"
  shows "run_ok (stop_worker pc w x)"
proof -
  have "lost (worker_set x ! w) = []" using assms(1-3) workers_okD(3) [of x w] by (simp add: run_ok_def)
  then show ?thesis
    unfolding stop_worker_def
    by (intro worker_turn_ok [OF assms(1,2)])
      (use assms(4) in \<open>auto simp: drop_start_starts finished_def dest: drop_start_starts(3)\<close>)
qed

lemma worker_started_ok:
  assumes ok: "run_ok x" and w: "w < length (worker_set x)" and pc: "worker_at (worker_set x ! w) = WorkerStarting i"
    and ended: "start_tasks (run_sys x) ! i = (j, StartEnded res)"
  shows "run_ok (upd_worker w (\<lambda>d. d\<lparr>worker_at := WorkerIdle\<rparr>) (upd_bridge g x))"
proof -
  have "upd_bridge g x = x\<lparr>run_sys := (run_sys x)\<lparr>sys_bridge := g (sys_bridge (run_sys x))\<rparr>\<rparr>"
    by (simp add: upd_bridge_def)
  then show ?thesis
    using pc ended by (auto intro!: worker_turn_ok [OF ok w] simp: finished_def start_running_def)
qed

lemma run_step_ok: "run_step x y \<Longrightarrow> run_ok x \<Longrightarrow> run_ok y"
proof (induction rule: run_step.induct)
  case (task x s')
  then show ?case by (intro other_step_ok [OF task(2)]) (simp_all add: task_step_starts task_step_starts(3) [OF task(1)])
next
  case (route_redispatch x ev evs)
  have "run_ok (x\<lparr>redispatch_received := redispatch_received x + 1\<rparr>)"
    by (rule other_step_ok [OF route_redispatch(4)]) simp_all
  with route_redispatch show ?case by (intro route_event_ok) simp_all
next
  case (route_intake x ev evs)
  have "run_ok (x\<lparr>intake := evs\<rparr>)"
    by (rule other_step_ok [OF route_intake(5)]) simp_all
  with route_intake show ?case by (intro route_event_ok) simp_all
next
  case (intake_ends x)
  then show ?case by (intro other_step_ok [OF intake_ends(3)]) (simp_all add: close_intake_def)
next
  case (worker_receives w x ev evs current now)
  then show ?case by (intro handle_event_ok)
next
  case (sessions_ended x)
  have "run_ok (x\<lparr>run_phase := RunJoining\<rparr>)"
    by (rule other_step_ok [OF sessions_ended(3)]) (use sessions_ended(2) in simp_all)
  then show ?case by (rule upd_bridge_ok)
next
  case (run_returns x)
  have "\<forall>w < length (worker_set x). finished (worker_set x ! w)"
    using run_returns workers_okD(3) [of x] by (auto simp: run_ok_def)
  then have "run_ok (x\<lparr>run_phase := RunEnded\<rparr>)"
    by (intro other_step_ok [OF run_returns(2)]) simp_all
  then show ?case by (rule upd_bridge_ok)
qed (auto intro: stop_worker_ok worker_started_ok continue_ending_ok other_step_ok)

lemma run_reachable_ok: "run_reachable r x \<Longrightarrow> run_ok x"
  by (induction rule: run_reachable.induct) (auto simp: run_ok_new intro: run_step_ok)

section \<open>A run is a run of the system\<close>

lemma receive_event_sys [simp]: "run_sys (receive_event w e x) = run_sys x"
  by (simp add: receive_event_def upd_worker_def)

lemma drop_start_system:
  assumes ok: "run_ok x" and w: "w < length (worker_set x)" and r: "reachable r (run_sys x)"
  shows "reachable r (drop_start (worker_at (worker_set x ! w)) (run_sys x))"
proof (cases rule: drop_start_cases [of "worker_at (worker_set x ! w)" "run_sys x"])
  case (dropped i j j' p)
  have "i < length (start_tasks (run_sys x))" using ok w dropped(1) by (auto simp: run_ok_def starts_ok_def)
  from sys_step.start_drop [OF this dropped(2)] r show ?thesis
    unfolding dropped(3) by (rule reachable.step [rotated])
qed (use r in simp)

lemma run_step_system:
  assumes "run_step x y" "run_ok x" "reachable r (run_sys x)"
  shows "reachable r (run_sys y)"
  using assms
proof (induction rule: run_step.induct)
  case (task x s')
  then show ?case using task_step_sys reachable.step by fastforce
next
  case (route_redispatch x ev evs)
  have "run_ok (x\<lparr>redispatch_received := redispatch_received x + 1\<rparr>)"
    by (rule other_step_ok [OF route_redispatch(4)]) simp_all
  with route_redispatch route_event_ok(2) show ?case by simp
next
  case (route_intake x ev evs)
  have "run_ok (x\<lparr>intake := evs\<rparr>)" by (rule other_step_ok [OF route_intake(5)]) simp_all
  with route_intake route_event_ok(2) show ?case by simp
next
  case (worker_receives w x ev evs current now)
  let ?x = "receive_event w ev x"
  show ?case
  proof (cases ev)
    case (EvStarted d rate ring grp)
    obtain b' st where h: "handle_session_start d rate ring grp current (sys_bridge (run_sys x)) = (b', st)" by force
    let ?s = "(run_sys x)\<lparr>sys_bridge := b', start_tasks := start_tasks (run_sys x) @ (case st of StartRunning j _ \<Rightarrow> [(j, st)] | _ \<Rightarrow> [])\<rparr>"
    have "sys_step (run_sys x) ?s"
      using worker_receives(5) h EvStarted by (intro sys_step.start_begin) simp_all
    with worker_receives have s: "reachable r ?s" by (blast intro: reachable.step)
    show ?thesis
    proof (cases st)
      case (StartRunning j pc)
      with s show ?thesis by (simp add: handle_event_def EvStarted begin_start_def h upd_worker_def)
    next
      case (StartEnded res)
      have "sys_step ?s (?s\<lparr>sys_bridge := apply_op (OpGroupCheck d) (sys_bridge ?s)\<rparr>)" by (rule sys_step.op) simp
      with s have "reachable r (?s\<lparr>sys_bridge := apply_op (OpGroupCheck d) (sys_bridge ?s)\<rparr>)" by (rule reachable.step)
      with StartEnded show ?thesis by (simp add: handle_event_def EvStarted begin_start_def h upd_bridge_def)
    qed
  next
    case (EvEnded d)
    then show ?thesis using worker_receives by (simp add: handle_event_def upd_worker_def split: option.split)
  qed (use worker_receives reachable.step [OF _ sys_step.op [of "OpEvent ev current now" "run_sys x"]] in
      \<open>simp_all add: handle_event_def upd_bridge_def\<close>)
next
  case (worker_started w x i j res)
  have "sys_step (run_sys x) ((run_sys x)\<lparr>sys_bridge :=
      apply_op (OpGroupCheck (worker_device (worker_set x ! w))) (sys_bridge (run_sys x))\<rparr>)"
    by (rule sys_step.op) simp
  with worker_started show ?case by (auto simp: upd_worker_def upd_bridge_def intro: reachable.step)
next
  case (worker_exits w x)
  then show ?case using drop_start_system by (simp add: stop_worker_def upd_worker_def)
next
  case (worker_dropped w x)
  then show ?case using drop_start_system by (simp add: stop_worker_def upd_worker_def)
next
  case (worker_ending w x pc)
  have "sys_step (run_sys x) ((run_sys x)\<lparr>sys_bridge :=
      apply_op (OpEnded (worker_device (worker_set x ! w)) pc) (sys_bridge (run_sys x))\<rparr>)"
    by (rule sys_step.op) simp
  with worker_ending show ?case
    by (auto simp: continue_ending_def upd_worker_def upd_bridge_def split: prod.split intro: reachable.step)
next
  case (sessions_ended x)
  have "sys_step (run_sys x) ((run_sys x)\<lparr>sys_bridge := apply_op OpEndAll (sys_bridge (run_sys x))\<rparr>)"
    by (rule sys_step.op) simp
  with sessions_ended show ?case by (auto simp: upd_bridge_def intro: reachable.step)
next
  case (run_returns x)
  have "sys_step (run_sys x) ((run_sys x)\<lparr>sys_bridge := apply_op OpForgetGroups (sys_bridge (run_sys x))\<rparr>)"
    by (rule sys_step.op) simp
  with run_returns show ?case by (auto simp: upd_bridge_def intro: reachable.step)
qed (simp_all add: close_intake_def)

lemma run_reachable_system: "run_reachable r x \<Longrightarrow> reachable r (run_sys x)"
proof (induction rule: run_reachable.induct)
  case run_init
  show ?case by (simp add: run_new_def reachable.init)
next
  case (run_next x y)
  then show ?case using run_step_system run_reachable_ok by blast
qed

section \<open>Shutdown\<close>

lemma route_keeps_stop [simp]: "stop_requested (route_event ev x) = stop_requested x"
  by (auto simp: route_event_def send_or_recreate_def send_to_def spawn_worker_def upd_worker_def Let_def
      split: option.splits prod.splits)

lemma drop_start_count [simp]: "length (start_tasks (drop_start pc s)) = length (start_tasks s)"
  by (rule drop_start_starts)

lemma map_taken_upd [simp]:
  "w < length (worker_set x) \<Longrightarrow> taken (f (worker_set x ! w)) = taken (worker_set x ! w) \<Longrightarrow>
   map taken (worker_set (upd_worker w f x)) = map taken (worker_set x)"
  by (simp add: upd_worker_def map_update list_update_same_conv)

lemma upd_worker_frame [simp]:
  "stop_requested (upd_worker w f x) = stop_requested x" "routed (upd_worker w f x) = routed x"
  "run_sys (upd_worker w f x) = run_sys x" "run_phase (upd_worker w f x) = run_phase x"
  "length (worker_set (upd_worker w f x)) = length (worker_set x)"
  by (simp_all add: upd_worker_def)

lemma stopped_step:
  assumes "run_step x y" "stop_requested x"
  shows "stop_requested y \<and> routed y = routed x \<and> map taken (worker_set y) = map taken (worker_set x) \<and>
     length (start_tasks (run_sys y)) = length (start_tasks (run_sys x))"
  using assms
proof (induction rule: run_step.induct)
  case (task x s')
  then show ?case by (simp add: task_step_starts(1))
qed (simp_all add: close_intake_def stop_worker_def continue_ending_def split: prod.split)

text \<open>Once the sessions have been ended nothing is live again.\<close>

definition joined_idle :: "bridge_loop \<Rightarrow> bool" where
  "joined_idle x \<longleftrightarrow>
     (run_phase x = RunJoining \<or> run_phase x = RunEnded \<longrightarrow> all_idle (sys_bridge (run_sys x)))"

lemma joined_quiet:
  assumes ok: "run_ok x" and joined: "run_phase x = RunJoining \<or> run_phase x = RunEnded"
  shows "w < length (worker_set x) \<Longrightarrow> finished (worker_set x ! w)" "\<not> start_running i (run_sys x)"
proof -
  have fin: "finished (worker_set x ! v)" if "v < length (worker_set x)" for v
    using ok that joined workers_okD(3) [of x v] by (auto simp: run_ok_def)
  show "w < length (worker_set x) \<Longrightarrow> finished (worker_set x ! w)" using fin .
  show "\<not> start_running i (run_sys x)"
  proof
    assume "start_running i (run_sys x)"
    then obtain v where "v < length (worker_set x)" "worker_at (worker_set x ! v) = WorkerStarting i"
      using ok by (auto simp: run_ok_def starts_ok_def)
    with fin [of v] show False by (simp add: finished_def)
  qed
qed

lemma route_keeps_phase [simp]: "run_phase (route_event ev x) = run_phase x"
  by (auto simp: route_event_def send_or_recreate_def send_to_def spawn_worker_def upd_worker_def Let_def
      split: option.splits prod.splits)

lemma run_step_joined: "run_step x y \<Longrightarrow> run_ok x \<Longrightarrow> joined_idle x \<Longrightarrow> joined_idle y"
proof (induction rule: run_step.induct)
  case (task x s')
  show ?case
    unfolding joined_idle_def
  proof
    assume "run_phase (x\<lparr>run_sys := s'\<rparr>) = RunJoining \<or> run_phase (x\<lparr>run_sys := s'\<rparr>) = RunEnded"
    then have j: "run_phase x = RunJoining \<or> run_phase x = RunEnded" by simp
    have "start_tasks (run_sys x) ! i \<noteq> (j, StartRunning j' pc)" if "i < length (start_tasks (run_sys x))" for i j j' pc
      using joined_quiet(2) [OF task(2) j, of i] that by (auto simp: start_running_def)
    with all_idle_task [OF task(1)] task(3) j show "all_idle (sys_bridge (run_sys (x\<lparr>run_sys := s'\<rparr>)))"
      by (simp add: joined_idle_def)
  qed
next
  case (worker_receives w x ev evs current now)
  then have "run_phase x \<noteq> RunJoining \<and> run_phase x \<noteq> RunEnded"
    using joined_quiet(1) [of x w] by (auto simp: finished_def)
  then show ?case
    by (auto simp: joined_idle_def handle_event_def begin_start_def receive_event_def upd_worker_def upd_bridge_def
        Let_def split: airplay_event.split start_status.split prod.split option.split)
next
  case (worker_started w x i j res)
  then show ?case using joined_quiet(1) [of x w] by (auto simp: joined_idle_def finished_def)
next
  case (worker_ending w x pc)
  then show ?case
    using joined_quiet(1) [of x w]
    by (auto simp: joined_idle_def finished_def continue_ending_def split: prod.split)
next
  case (worker_exits w x)
  then show ?case using joined_quiet(1) [of x w] by (auto simp: joined_idle_def stop_worker_def)
next
  case (worker_dropped w x)
  then show ?case using joined_quiet(1) [of x w] by (auto simp: joined_idle_def stop_worker_def)
next
  case (sessions_ended x)
  then show ?case by (simp add: joined_idle_def upd_bridge_def end_all_idle)
next
  case (run_returns x)
  then show ?case by (simp add: joined_idle_def upd_bridge_def end_all_idle)
qed (simp_all add: joined_idle_def close_intake_def)

lemma run_reachable_joined: "run_reachable r x \<Longrightarrow> joined_idle x"
  by (induction rule: run_reachable.induct)
    (auto simp: joined_idle_def run_new_def intro: run_step_joined [unfolded joined_idle_def, rule_format] run_reachable_ok)

lemma all_exit:
  "stop_requested x \<Longrightarrow> run_phase x = RunDraining \<Longrightarrow> n \<le> length (worker_set x) \<Longrightarrow>
   (\<forall>w < n. finished (worker_set x ! w)) \<Longrightarrow>
   \<exists>y. run_step\<^sup>*\<^sup>* x y \<and> run_phase y = RunDraining \<and> (\<forall>w < length (worker_set y). finished (worker_set y ! w))"
proof (induction "length (worker_set x) - n" arbitrary: x n)
  case 0
  then show ?case by (intro exI [of _ x]) simp
next
  case (Suc k)
  then have n: "n < length (worker_set x)" and k: "k = length (worker_set x) - Suc n" by simp_all
  define pc where
    "pc = (case worker_at (worker_set x ! n) of WorkerEnding p \<Rightarrow> WorkerDropped | _ \<Rightarrow> WorkerExited)"
  define y where "y = (if finished (worker_set x ! n) then x else stop_worker pc n x)"
  have y: "run_step\<^sup>*\<^sup>* x y"
    using run_step.worker_exits [OF n] run_step.worker_dropped [OF n] Suc.prems(1)
    by (auto simp: y_def pc_def split: worker_pc.split)
  have fpc: "pc = WorkerExited \<or> pc = WorkerDropped" by (simp add: pc_def split: worker_pc.split)
  have len: "length (worker_set y) = length (worker_set x)" by (simp add: y_def stop_worker_def)
  have fin: "finished (worker_set y ! w)" if "w < Suc n" for w
    using that Suc.prems(4) n
    using fpc by (cases "w = n") (auto simp: y_def stop_worker_def upd_worker_def finished_def less_Suc_eq)
  have "\<exists>z. run_step\<^sup>*\<^sup>* y z \<and> run_phase z = RunDraining \<and> (\<forall>w < length (worker_set z). finished (worker_set z ! w))"
    using n fin Suc.prems(1,2) by (intro Suc.hyps(1) [of y "Suc n"]) (auto simp: k len, simp_all add: y_def stop_worker_def)
  with y show ?case by (meson rtranclp_trans)
qed

lemma run_reaches: "run_step\<^sup>*\<^sup>* x y \<Longrightarrow> run_reachable r x \<Longrightarrow> run_reachable r y"
  by (induction rule: rtranclp_induct) (auto intro: run_reachable.run_next)

lemma stopped_run_returns:
  assumes x: "run_reachable r x" and stop: "stop_requested x" and phase: "run_phase x \<noteq> RunEnded"
  shows "\<exists>y. run_step\<^sup>*\<^sup>* x y \<and> run_phase y = RunEnded"
proof -
  have ended: "\<exists>z. run_step\<^sup>*\<^sup>* y z \<and> run_phase z = RunEnded" if "run_phase y = RunJoining" for y
    using run_step.run_returns [OF that]
    by (intro exI [of _ "upd_bridge forget_all_groups (y\<lparr>run_phase := RunEnded\<rparr>)"]) auto
  have drained: "\<exists>z. run_step\<^sup>*\<^sup>* y z \<and> run_phase z = RunEnded" if y: "run_phase y = RunDraining" "stop_requested y" for y
  proof -
    obtain v where v: "run_step\<^sup>*\<^sup>* y v" "run_phase v = RunDraining"
      and fin: "\<forall>w < length (worker_set v). finished (worker_set v ! w)"
      using all_exit [OF y(2,1), of 0] by auto
    let ?j = "upd_bridge end_all_sessions (v\<lparr>run_phase := RunJoining\<rparr>)"
    have "run_step v ?j" using v(2) fin by (intro run_step.sessions_ended) (auto simp: in_set_conv_nth)
    moreover obtain z where "run_step\<^sup>*\<^sup>* ?j z" "run_phase z = RunEnded" using ended [of ?j] by auto
    ultimately show ?thesis using v(1) by (meson converse_rtranclp_into_rtranclp rtranclp_trans)
  qed
  show ?thesis
  proof (cases "run_phase x")
    case RunLoop
    then have "run_step x (close_intake x)" using stop by (intro run_step.intake_ends) simp_all
    moreover obtain z where "run_step\<^sup>*\<^sup>* (close_intake x) z" "run_phase z = RunEnded"
      using drained [of "close_intake x"] stop by (auto simp: close_intake_def)
    ultimately show ?thesis by (meson converse_rtranclp_into_rtranclp)
  qed (use ended drained stop phase in auto)
qed

section \<open>What a worker that finishes drops\<close>

definition loss_ok :: "bridge_loop \<Rightarrow> bool" where
  "loss_ok x \<longleftrightarrow>
     (\<forall>w \<in> set (worker_set x).
        (lost w \<noteq> [] \<longrightarrow> worker_at w = WorkerDropped \<or> worker_at w = WorkerExited \<and> stop_requested x) \<and>
        (finished w \<longrightarrow> inbox w = []))"

lemma loss_upd_worker:
  assumes "loss_ok x" "w < length (worker_set x)"
    and "lost (f (worker_set x ! w)) \<noteq> [] \<Longrightarrow> worker_at (f (worker_set x ! w)) = WorkerDropped \<or>
      worker_at (f (worker_set x ! w)) = WorkerExited \<and> stop_requested x"
    and "finished (f (worker_set x ! w)) \<Longrightarrow> inbox (f (worker_set x ! w)) = []"
  shows "loss_ok (upd_worker w f x)"
  using assms(1,3,4) by (auto simp: loss_ok_def upd_worker_def dest!: set_update_subset_insert [THEN subsetD])

lemma loss_cong:
  "loss_ok x \<Longrightarrow> worker_set y = worker_set x \<Longrightarrow> (stop_requested x \<Longrightarrow> stop_requested y) \<Longrightarrow> loss_ok y"
  by (auto simp: loss_ok_def)

lemma loss_at:
  assumes "loss_ok x" "w < length (worker_set x)" "\<not> finished (worker_set x ! w)"
  shows "lost (worker_set x ! w) = []"
  using assms nth_mem [OF assms(2)] by (auto simp: loss_ok_def finished_def)

lemma loss_set_at:
  assumes "loss_ok x" "w < length (worker_set x)" "\<not> finished (worker_set x ! w)"
    and "new \<noteq> WorkerExited" "new \<noteq> WorkerDropped"
  shows "loss_ok (upd_worker w (\<lambda>d. d\<lparr>worker_at := new\<rparr>) x)"
  using assms loss_at [OF assms(1-3)] by (intro loss_upd_worker) (simp_all add: finished_def)

lemma loss_route:
  assumes "loss_ok x" "run_ok x" "run_phase x = RunLoop"
  shows "loss_ok (route_event ev x)"
proof -
  have "loss_ok (x\<lparr>worker_set := worker_set (route_event ev x)\<rparr>)"
  proof (cases "live_workers (event_device_id ev) x")
    case Nil
    with route_delivers [OF assms(2,3), of ev] assms(1) show ?thesis
      by (auto simp: loss_ok_def worker_new_def finished_def)
  next
    case (Cons w ws)
    then have w: "w < length (worker_set x)" "\<not> finished (worker_set x ! w)"
      using live_workers_mem [of w "event_device_id ev" x] by auto
    have "loss_ok (upd_worker w (\<lambda>d. d\<lparr>inbox := inbox d @ [ev]\<rparr>) x)"
      using loss_at [OF assms(1) w] w by (intro loss_upd_worker [OF assms(1) w(1)]) (simp_all add: finished_def)
    with route_delivers [OF assms(2,3), of ev] Cons show ?thesis by (simp add: upd_worker_def)
  qed
  then show ?thesis by (rule loss_cong) simp_all
qed

lemma run_step_loss: "run_step x y \<Longrightarrow> run_ok x \<Longrightarrow> loss_ok x \<Longrightarrow> loss_ok y"
proof (induction rule: run_step.induct)
  case (route_redispatch x ev evs)
  have "run_ok (x\<lparr>redispatch_received := redispatch_received x + 1\<rparr>)"
    by (rule other_step_ok [OF route_redispatch(4)]) simp_all
  with route_redispatch show ?case by (intro loss_route) (auto intro: loss_cong)
next
  case (route_intake x ev evs)
  have "run_ok (x\<lparr>intake := evs\<rparr>)"
    by (rule other_step_ok [OF route_intake(5)]) simp_all
  with route_intake show ?case by (intro loss_route) (auto intro: loss_cong)
next
  case (worker_receives w x ev evs current now)
  let ?x = "receive_event w ev x"
  have fin: "\<not> finished (worker_set x ! w)" using worker_receives(2) by (simp add: finished_def)
  have x: "loss_ok ?x" unfolding receive_event_def
    using loss_at [OF worker_receives(7,1) fin] worker_receives(1,2,7)
    by (intro loss_upd_worker) (simp_all add: finished_def)
  have at: "w < length (worker_set ?x)" "\<not> finished (worker_set ?x ! w)"
    using worker_receives(1) fin by (simp_all add: receive_event_def upd_worker_def finished_def)
  have sys: "loss_ok (?x\<lparr>run_sys := s\<rparr>)" for s using x by (rule loss_cong) simp_all
  have starting: "loss_ok (upd_worker w (\<lambda>dw. dw\<lparr>worker_at := WorkerStarting i\<rparr>) (?x\<lparr>run_sys := s\<rparr>))" for i s
    using at by (intro loss_set_at [OF sys]) simp_all
  have ending: "loss_ok (upd_worker w (\<lambda>dw. dw\<lparr>worker_at := WorkerEnding pc\<rparr>) ?x)" for pc
    using at by (intro loss_set_at [OF x]) simp_all
  have bridge: "loss_ok (upd_bridge g (?x\<lparr>run_sys := s\<rparr>))" "loss_ok (upd_bridge g ?x)" for g s
    by (rule loss_cong [OF sys], simp_all) (rule loss_cong [OF x], simp_all)
  show ?case
    using x starting ending bridge
    by (cases ev) (auto simp: handle_event_def begin_start_def Let_def split: prod.split option.split start_status.split)
next
  case (worker_started w x i j res)
  have "loss_ok (upd_bridge (group_check_owner (worker_device (worker_set x ! w))) x)"
    using worker_started(6) by (rule loss_cong) simp_all
  then show ?case using worker_started(1,2) by (intro loss_set_at) (simp_all add: finished_def)
next
  case (worker_ending w x pc)
  have "loss_ok (upd_bridge g x)" for g using worker_ending(5) by (rule loss_cong) simp_all
  then show ?case
    using worker_ending(1,2)
    by (auto simp: continue_ending_def finished_def split: prod.split option.split intro!: loss_set_at)
next
  case (worker_exits w x)
  show ?case
    unfolding stop_worker_def
    by (rule loss_upd_worker) (use worker_exits in \<open>auto simp: loss_ok_def\<close>)
next
  case (worker_dropped w x)
  show ?case
    unfolding stop_worker_def
    by (rule loss_upd_worker) (use worker_dropped in \<open>auto simp: loss_ok_def\<close>)
qed (auto intro: loss_cong simp: close_intake_def)

lemma run_reachable_loss: "run_reachable r x \<Longrightarrow> loss_ok x"
proof (induction rule: run_reachable.induct)
  case run_init
  show ?case by (simp add: loss_ok_def run_new_def)
next
  case (run_next x y)
  then show ?case using run_step_loss run_reachable_ok by blast
qed

section \<open>A concrete run\<close>

definition demo_source :: ring_ref where
  "demo_source = \<lparr>ring_ptr = 7, ring_channels = 2\<rparr>"

definition demo_started :: airplay_event where
  "demo_started = EvStarted ''d'' 48000 demo_source None"

text \<open>One event, routed to a fresh worker, whose start is in flight.\<close>

lemma demo_routed:
  "\<exists>x. run_reachable demo_registry x \<and> worker_set x = [(worker_new ''d'')\<lparr>inbox := [demo_started]\<rparr>] \<and>
     run_sys x = sys_new demo_registry \<and> \<not> stop_requested x \<and> run_phase x = RunLoop \<and> routed x = [demo_started]"
proof -
  let ?x0 = "run_new demo_registry"
  let ?x1 = "?x0\<lparr>intake := [demo_started]\<rparr>"
  define x2 where "x2 = route_event demo_started (?x1\<lparr>intake := []\<rparr>)"
  have ev: "event_device_id demo_started = ''d''" by (simp add: demo_started_def)
  have x1: "run_reachable demo_registry ?x1"
    using run_step.arrive [of ?x0 demo_started] by (intro run_next [OF run_init]) (simp add: run_new_def)
  have "run_reachable demo_registry x2"
    using run_step.route_intake [of ?x1 demo_started "[]"]
    by (intro run_next [OF x1]) (simp add: x2_def run_new_def redispatch_queue_def redispatches_def sys_new_def bridge_new_def)
  moreover have "worker_set x2 = [(worker_new ''d'')\<lparr>inbox := [demo_started]\<rparr>]"
    "run_sys x2 = sys_new demo_registry" "\<not> stop_requested x2" "run_phase x2 = RunLoop" "routed x2 = [demo_started]"
    by (simp_all add: x2_def route_event_def Let_def run_new_def ev spawn_worker_def send_or_recreate_def
        send_to_def upd_worker_def worker_new_def finished_def)
  ultimately show ?thesis by blast
qed

lemma demo_loop_run:
  "\<exists>x. run_reachable demo_registry x \<and> start_running 0 (run_sys x) \<and> routed x = [demo_started] \<and>
     length (worker_set x) = 1 \<and> worker_device (worker_set x ! 0) = ''d'' \<and> taken (worker_set x ! 0) = [demo_started] \<and>
     run_phase x = RunLoop \<and> \<not> stop_requested x"
proof -
  obtain x2 where x2: "run_reachable demo_registry x2" and w: "worker_set x2 = [(worker_new ''d'')\<lparr>inbox := [demo_started]\<rparr>]"
    "run_sys x2 = sys_new demo_registry" "\<not> stop_requested x2" "run_phase x2 = RunLoop" "routed x2 = [demo_started]"
    using demo_routed by blast
  let ?x3 = "handle_event 0 demo_started (Some demo_source) 0 (receive_event 0 demo_started x2)"
  have "run_step x2 ?x3"
    by (rule run_step.worker_receives) (simp_all add: w worker_new_def sys_new_def bridge_new_def
        slot_of_def hm_entry_def default_slot_def)
  with x2 have x3: "run_reachable demo_registry ?x3" by (rule run_next)
  let ?b = "bridge_new demo_registry"
  obtain b1 g prior where a: "accept_start ''d'' ?b = (b1, g, prior)" using prod_cases3 by blast
  have "registry_of (detach_prior prior SkipStopForReplace b1) = demo_registry"
    using a by (auto simp: accept_start_def Let_def detach_prior_def detach_teardown_def bridge_new_def
        split: prod.splits option.splits)
  moreover have "get ''d'' demo_registry = Some (example_device\<lparr>last_seen := 0\<rparr>)"
    by (simp add: demo_registry_def appear_def example_device_def device_new_def
        Let_def registry_new_def get_def clear_pending_def)
  ultimately obtain b' j where h: "handle_session_start ''d'' 48000 demo_source None (Some demo_source) ?b = (b', StartRunning j AtPrebuffer)"
    by (auto simp: handle_session_start_def accept_member_def a Let_def ring_is_current_def ptr_eq_def)
  have "start_running 0 (run_sys ?x3) \<and> routed ?x3 = [demo_started] \<and>
     length (worker_set ?x3) = 1 \<and> worker_device (worker_set ?x3 ! 0) = ''d'' \<and> taken (worker_set ?x3 ! 0) = [demo_started] \<and>
     run_phase ?x3 = RunLoop \<and> \<not> stop_requested ?x3"
    unfolding handle_event_def demo_started_def airplay_event.case
    unfolding demo_started_def [symmetric]
    by (simp add: begin_start_def w sys_new_def h Let_def upd_worker_def receive_event_def start_running_def worker_new_def)
  with x3 show ?thesis by blast
qed

definition distinct_or_none :: "'a list \<Rightarrow> ('a \<Rightarrow> bool) \<Rightarrow> bool" where
  "distinct_or_none xs p \<longleftrightarrow> (\<forall>i < length xs. \<forall>k < length xs. p (xs ! i) \<longrightarrow> p (xs ! k) \<longrightarrow> i = k)"

lemma at_most_one: "distinct_or_none xs p \<Longrightarrow> length (filter p xs) \<le> 1"
proof (induction xs)
  case (Cons a xs)
  have tl: "distinct_or_none xs p" unfolding distinct_or_none_def
  proof (intro allI impI)
    fix i k
    assume "i < length xs" "k < length xs" "p (xs ! i)" "p (xs ! k)"
    with Cons.prems [unfolded distinct_or_none_def, rule_format, of "Suc i" "Suc k"] show "i = k" by simp
  qed
  show ?case
  proof (cases "p a")
    case True
    have "\<not> p b" if b: "b \<in> set xs" for b
    proof
      assume "p b"
      obtain k where "k < length xs" "b = xs ! k" using b by (auto simp: in_set_conv_nth)
      with Cons.prems [unfolded distinct_or_none_def, rule_format, of 0 "Suc k"] True \<open>p b\<close> show False by simp
    qed
    then show ?thesis using True by (simp add: filter_empty_conv)
  qed (use Cons.IH [OF tl] in simp)
qed simp

section \<open>What a run promises\<close>

text \<open>
  C10: The loop delivers an event to the one worker of its device: at most one worker of the device runs; if one does,
  the event goes to the end of its inbox; if none does (there was none, or it has finished), one fresh worker of that
  device starts with the event. No other worker and nothing of the bridge changes.
\<close>

theorem routed_event_delivered:
  assumes "run_reachable r x" "run_phase x = RunLoop"
  shows "length (live_workers (event_device_id ev) x) \<le> 1 \<and>
     worker_set (route_event ev x) =
       (case live_workers (event_device_id ev) x of
          [] \<Rightarrow> worker_set x @ [(worker_new (event_device_id ev))\<lparr>inbox := [ev]\<rparr>]
        | w # _ \<Rightarrow> (worker_set x)[w := (worker_set x ! w)\<lparr>inbox := inbox (worker_set x ! w) @ [ev]\<rparr>]) \<and>
     run_sys (route_event ev x) = run_sys x"
  using route_delivers [OF run_reachable_ok [OF assms(1)] assms(2)] route_event_ok(2) [OF run_reachable_ok [OF assms(1)] assms(2)]
  by blast

theorem routed_event_delivered_witness:
  "\<exists>x :: bridge_loop. routed x = [demo_started] \<and>
     worker_set (route_event (EvEnded ''d'') x) = [(worker_new ''d'')\<lparr>inbox := [demo_started, EvEnded ''d'']\<rparr>] \<and>
     worker_set (route_event (EvEnded ''e'') x) = worker_set x @ [(worker_new ''e'')\<lparr>inbox := [EvEnded ''e'']\<rparr>]"
proof -
  obtain x where x: "run_reachable demo_registry x" "run_phase x = RunLoop" "routed x = [demo_started]"
    and one: "worker_set x = [(worker_new ''d'')\<lparr>inbox := [demo_started]\<rparr>]" using demo_routed by blast
  have "live_workers ''d'' x = [0]" "live_workers ''e'' x = []"
    by (simp_all add: live_workers_def one worker_new_def finished_def)
  with routed_event_delivered [OF x(1,2), of "EvEnded ''d''"] routed_event_delivered [OF x(1,2), of "EvEnded ''e''"] x(3)
  show ?thesis by (intro exI [of _ x]) (simp add: one)
qed

text \<open>
  C11: The events of a device keep their order, and none disappears but with a worker that died: what was routed for
  a device is, in order, for one worker after the other, what it took, what was queued when it finished and was
  dropped with its receiver, and what still waits in its inbox. Only a worker that panicked or was aborted, or that
  left because of a shutdown request, drops anything, and a finished worker has no inbox; at any time at most one
  worker of a device has not finished.
\<close>

theorem device_events_in_order:
  assumes "run_reachable r x"
  shows "filter (\<lambda>e. event_device_id e = d) (routed x) = worker_events d (worker_set x) \<and>
     length (live_workers d x) \<le> 1 \<and>
     (\<forall>w \<in> set (worker_set x).
        (lost w \<noteq> [] \<longrightarrow> worker_at w = WorkerDropped \<or> worker_at w = WorkerExited \<and> stop_requested x) \<and>
        (finished w \<longrightarrow> inbox w = []))"
  using run_reachable_ok [OF assms] run_reachable_loss [OF assms] live_workers_one [OF run_reachable_ok [OF assms]]
  by (simp add: run_ok_def order_ok_def loss_ok_def)

theorem device_events_in_order_witness:
  "\<exists>x :: bridge_loop. routed x = [demo_started] \<and> worker_events ''d'' (worker_set x) = [demo_started]"
proof -
  obtain x where x: "run_reachable demo_registry x" and r: "routed x = [demo_started]" using demo_loop_run by blast
  from device_events_in_order [OF x, of "''d''"] r show ?thesis
    by (intro exI [of _ x]) (simp add: demo_started_def)
qed

text \<open>
  C13: A device has at most one session start in flight: two starts that wait for anything have different devices.
\<close>

theorem one_start_per_device:
  assumes "run_reachable r x" and "start_running i (run_sys x)" "start_running k (run_sys x)"
    and "sj_device (fst (start_tasks (run_sys x) ! i)) = sj_device (fst (start_tasks (run_sys x) ! k))"
  shows "i = k"
proof -
  have ok: "run_ok x" using assms(1) by (rule run_reachable_ok)
  have held: "\<exists>v < length (worker_set x). worker_at (worker_set x ! v) = WorkerStarting n"
    if "start_running n (run_sys x)" for n
    using ok that by (simp add: run_ok_def starts_ok_def)
  obtain v where v: "v < length (worker_set x)" "worker_at (worker_set x ! v) = WorkerStarting i"
    using held [OF assms(2)] by blast
  obtain w where w: "w < length (worker_set x)" "worker_at (worker_set x ! w) = WorkerStarting k"
    using held [OF assms(3)] by blast
  from ok v w assms(4) have "worker_device (worker_set x ! v) = worker_device (worker_set x ! w)"
    by (auto simp: run_ok_def starts_ok_def)
  with ok v w have "v = w" using workers_okD(1) [of x v w] by (simp add: run_ok_def finished_def)
  with v w show ?thesis by simp
qed

theorem one_start_per_device_witness:
  "\<exists>x :: bridge_loop. start_running 0 (run_sys x) \<and>
     \<not> (start_running 5 (run_sys x) \<and>
        sj_device (fst (start_tasks (run_sys x) ! 0)) = sj_device (fst (start_tasks (run_sys x) ! 5)))"
proof -
  obtain x where x: "run_reachable demo_registry x" "start_running 0 (run_sys x)" using demo_loop_run by blast
  then show ?thesis using one_start_per_device [OF x(1,2), of 5] by (intro exI [of _ x]) auto
qed

text \<open>
  C12: Shutdown wins over queued events, and it can always finish: once requested, no further step routes an event,
  lets a worker take one or begins a session start; and from every state of the run there are steps that let
  \<open>Bridge::run\<close> return, with no session left on any device and no start in flight.
\<close>

theorem requested_shutdown_returns:
  assumes x: "run_reachable r x" and stop: "stop_requested x" and phase: "run_phase x \<noteq> RunEnded"
  shows "(\<forall>y. run_step\<^sup>*\<^sup>* x y \<longrightarrow>
      routed y = routed x \<and> map taken (worker_set y) = map taken (worker_set x) \<and>
      length (start_tasks (run_sys y)) = length (start_tasks (run_sys x))) \<and>
    (\<exists>y. run_step\<^sup>*\<^sup>* x y \<and> run_phase y = RunEnded \<and>
      (\<forall>d. \<not> has_session d (sys_bridge (run_sys y))) \<and> (\<forall>i. \<not> start_running i (run_sys y)))"
proof (intro conjI allI impI)
  fix y
  assume "run_step\<^sup>*\<^sup>* x y"
  then have "stop_requested y \<and> routed y = routed x \<and> map taken (worker_set y) = map taken (worker_set x) \<and>
      length (start_tasks (run_sys y)) = length (start_tasks (run_sys x))"
  proof (induction rule: rtranclp_induct)
    case base
    then show ?case using stop by simp
  next
    case (step y z)
    then show ?case using stopped_step [OF step(2)] by simp
  qed
  then show "routed y = routed x" "map taken (worker_set y) = map taken (worker_set x)"
    "length (start_tasks (run_sys y)) = length (start_tasks (run_sys x))" by auto
next
  obtain y where y: "run_step\<^sup>*\<^sup>* x y" "run_phase y = RunEnded"
    using stopped_run_returns [OF assms] by blast
  moreover have r: "run_reachable r y" using y(1) x by (rule run_reaches)
  moreover have "\<forall>d. \<not> has_session d (sys_bridge (run_sys y))"
    using run_reachable_joined [OF r] y(2) by (simp add: joined_idle_def all_idle_def)
  ultimately show "\<exists>y. run_step\<^sup>*\<^sup>* x y \<and> run_phase y = RunEnded \<and>
      (\<forall>d. \<not> has_session d (sys_bridge (run_sys y))) \<and> (\<forall>i. \<not> start_running i (run_sys y))"
    using joined_quiet(2) [OF run_reachable_ok] by blast
qed

theorem requested_shutdown_returns_witness:
  "\<exists>(x :: bridge_loop) y. start_running 0 (run_sys x) \<and> run_step\<^sup>*\<^sup>* x y \<and> run_phase y = RunEnded \<and> \<not> start_running 0 (run_sys y)"
proof -
  obtain x where x: "run_reachable demo_registry x" "start_running 0 (run_sys x)" "run_phase x = RunLoop"
    using demo_loop_run by blast
  let ?x = "x\<lparr>stop_requested := True\<rparr>"
  have "run_reachable demo_registry ?x" using x(1) run_step.request_shutdown by (rule run_next)
  from requested_shutdown_returns [OF this] x(3) obtain y where
    "run_step\<^sup>*\<^sup>* ?x y" "run_phase y = RunEnded" "\<not> start_running 0 (run_sys y)" by auto
  with x(2) show ?thesis by (intro exI [of _ ?x] exI [of _ y]) simp
qed

end
