(* ===== verification/Text_Parse.thy ===== *)
theory Text_Parse
  imports Text_Error
begin

text \<open>
  The string operations of the standard library that the parsers of the program use, on UTF-8 bytes.

  White space is Unicode's \<open>White_Space\<close>: \<open>ws_len\<close> is the number of bytes of a white-space character
  at the start of a string (0 when it does not start with one), and \<open>ws_len_rev\<close> the same for the end of a
  reversed one. A continuation byte never starts a character, so reading byte by byte splits UTF-8 text where
  reading character by character does.
\<close>

section \<open>White space\<close>

definition char_byte :: "char \<Rightarrow> nat" where
  "char_byte c = of_char c"

definition is_ascii_space :: "char \<Rightarrow> bool" where
  "is_ascii_space c \<longleftrightarrow> char_byte c = 32 \<or> (9 \<le> char_byte c \<and> char_byte c \<le> 13)"

definition two_byte_space :: "nat \<Rightarrow> nat \<Rightarrow> bool" where
  "two_byte_space a b \<longleftrightarrow> a = 0xC2 \<and> (b = 0x85 \<or> b = 0xA0)"

definition three_byte_space :: "nat \<Rightarrow> nat \<Rightarrow> nat \<Rightarrow> bool" where
  "three_byte_space a b c \<longleftrightarrow>
     (a = 0xE1 \<and> b = 0x9A \<and> c = 0x80) \<or>
     (a = 0xE2 \<and> b = 0x80 \<and> ((0x80 \<le> c \<and> c \<le> 0x8A) \<or> c = 0xA8 \<or> c = 0xA9 \<or> c = 0xAF)) \<or>
     (a = 0xE2 \<and> b = 0x81 \<and> c = 0x9F) \<or> (a = 0xE3 \<and> b = 0x80 \<and> c = 0x80)"

fun ws_len :: "string \<Rightarrow> nat" where
  "ws_len [] = 0"
| "ws_len [a] = (if is_ascii_space a then 1 else 0)"
| "ws_len [a, b] =
     (if is_ascii_space a then 1 else if two_byte_space (char_byte a) (char_byte b) then 2 else 0)"
| "ws_len (a # b # c # s) =
     (if is_ascii_space a then 1 else if two_byte_space (char_byte a) (char_byte b) then 2
      else if three_byte_space (char_byte a) (char_byte b) (char_byte c) then 3 else 0)"

fun ws_len_rev :: "string \<Rightarrow> nat" where
  "ws_len_rev [] = 0"
| "ws_len_rev [a] = (if is_ascii_space a then 1 else 0)"
| "ws_len_rev [b, a] =
     (if is_ascii_space b then 1 else if two_byte_space (char_byte a) (char_byte b) then 2 else 0)"
| "ws_len_rev (c # b # a # s) =
     (if is_ascii_space c then 1 else if two_byte_space (char_byte b) (char_byte c) then 2
      else if three_byte_space (char_byte a) (char_byte b) (char_byte c) then 3 else 0)"

lemma ws_len_le: "ws_len s \<le> length s"
  by (cases s rule: ws_len.cases) auto

lemma ws_len_rev_le: "ws_len_rev s \<le> length s"
  by (cases s rule: ws_len_rev.cases) auto

function trim_start :: "string \<Rightarrow> string" where
  "trim_start s = (if ws_len s = 0 then s else trim_start (drop (ws_len s) s))"
  by pat_completeness auto
termination
proof (relation "measure length")
  fix s :: string
  assume "ws_len s \<noteq> 0"
  then show "(drop (ws_len s) s, s) \<in> measure length" using ws_len_le [of s] by simp
qed simp

function trim_start_rev :: "string \<Rightarrow> string" where
  "trim_start_rev s = (if ws_len_rev s = 0 then s else trim_start_rev (drop (ws_len_rev s) s))"
  by pat_completeness auto
termination
proof (relation "measure length")
  fix s :: string
  assume "ws_len_rev s \<noteq> 0"
  then show "(drop (ws_len_rev s) s, s) \<in> measure length" using ws_len_rev_le [of s] by simp
qed simp

declare trim_start.simps [simp del] trim_start_rev.simps [simp del]

definition str_trim :: "string \<Rightarrow> string" where
  "str_trim s = rev (trim_start_rev (rev (trim_start s)))"

text \<open>\<open>split_whitespace\<close>: the runs between white space.\<close>

function words_from :: "string \<Rightarrow> string \<Rightarrow> string list" where
  "words_from cur [] = (if cur = [] then [] else [cur])"
| "words_from cur (c # s) =
     (if ws_len (c # s) = 0 then words_from (cur @ [c]) s
      else (if cur = [] then [] else [cur]) @ words_from [] (drop (ws_len (c # s)) (c # s)))"
  by pat_completeness auto
termination
proof (relation "measure (\<lambda>(cur, s). length s)")
  fix cur :: string and c s
  assume "ws_len (c # s) \<noteq> 0"
  then show "(([], drop (ws_len (c # s)) (c # s)), cur, c # s) \<in> measure (\<lambda>(cur, s). length s)"
    using ws_len_le [of "c # s"] by (auto simp: Suc_diff_le)
qed auto

definition split_whitespace :: "string \<Rightarrow> string list" where
  "split_whitespace s = words_from [] s"

section \<open>Searching and splitting\<close>

fun str_find :: "string \<Rightarrow> string \<Rightarrow> nat option" where
  "str_find [] p = (if p = [] then Some 0 else None)"
| "str_find (c # s) p = (if starts_with (c # s) p then Some 0 else map_option Suc (str_find s p))"

definition split_once :: "string \<Rightarrow> string \<Rightarrow> (string \<times> string) option" where
  "split_once s p = map_option (\<lambda>i. (take i s, drop (i + length p) s)) (str_find s p)"

fun split_on :: "char \<Rightarrow> string \<Rightarrow> string list" where
  "split_on d [] = [[]]"
| "split_on d (c # s) =
     (if c = d then [] # split_on d s
      else case split_on d s of [] \<Rightarrow> [[c]] | x # xs \<Rightarrow> (c # x) # xs)"

text \<open>\<open>rsplit_once\<close> for one ASCII character: split at its last occurrence.\<close>

fun rsplit_once :: "char \<Rightarrow> string \<Rightarrow> (string \<times> string) option" where
  "rsplit_once d [] = None"
| "rsplit_once d (c # s) =
     (case rsplit_once d s of Some (a, b) \<Rightarrow> Some (c # a, b)
      | None \<Rightarrow> if c = d then Some ([], s) else None)"

definition trim_end_char :: "char \<Rightarrow> string \<Rightarrow> string" where
  "trim_end_char d s = rev (dropWhile (\<lambda>c. c = d) (rev s))"

definition replace_char :: "char \<Rightarrow> string \<Rightarrow> string \<Rightarrow> string" where
  "replace_char d w s = concat (map (\<lambda>c. if c = d then w else [c]) s)"

text \<open>\<open>lines\<close>: without the empty piece after a final newline, and without a carriage return before a newline.\<close>

definition strip_cr :: "string \<Rightarrow> string" where
  "strip_cr s = (if s \<noteq> [] \<and> char_byte (last s) = 13 then butlast s else s)"

definition str_lines :: "string \<Rightarrow> string list" where
  "str_lines s =
     (let ps = split_on (CHR 0x0A) s
      in if last ps = [] then map strip_cr (butlast ps) else map strip_cr (butlast ps) @ [last ps])"

section \<open>Numbers\<close>

text \<open>\<open>parse\<close> for an unsigned type with largest value \<open>biggest\<close>: digits with an optional plus sign.\<close>

fun digits_value :: "nat \<Rightarrow> string \<Rightarrow> nat option" where
  "digits_value acc [] = Some acc"
| "digits_value acc (c # s) =
     (if is_ascii_digit c then digits_value (10 * acc + (char_byte c - 48)) s else None)"

definition parse_unsigned :: "nat \<Rightarrow> string \<Rightarrow> nat option" where
  "parse_unsigned biggest s =
     (let ds = (case s of [] \<Rightarrow> [] | c # s' \<Rightarrow> if c = CHR ''+'' then s' else s)
      in if ds = [] then None
         else case digits_value 0 ds of None \<Rightarrow> None | Some n \<Rightarrow> if n \<le> biggest then Some n else None)"

lemma digits_value_append:
  "digits_value acc (a @ b) = (case digits_value acc a of None \<Rightarrow> None | Some v \<Rightarrow> digits_value v b)"
  by (induction acc a rule: digits_value.induct) auto

lemma digit_char:
  assumes "k < 10"
  shows "is_ascii_digit (char_of (48 + k))" and "char_byte (char_of (48 + k)) = 48 + k"
  using assms by (simp_all add: is_ascii_digit_def char_byte_def)

lemma digits_value_show: "digits_value 0 (show_nat n) = Some n"
proof (induction n rule: show_nat.induct)
  case (1 n)
  show ?case
  proof (cases "n < 10")
    case True
    then have "show_nat n = [char_of (48 + n)]" by (subst show_nat.simps) simp
    then show ?thesis using digit_char [OF True] by simp
  next
    case False
    then have eq: "show_nat n = show_nat (n div 10) @ [char_of (48 + n mod 10)]"
      by (subst show_nat.simps) simp
    have "n mod 10 < 10" by simp
    from digit_char [OF this] 1 [OF False] show ?thesis
      unfolding eq digits_value_append by simp
  qed
qed

lemma show_nat_digits: "c \<in> set (show_nat n) \<Longrightarrow> is_ascii_digit c"
proof (induction n rule: show_nat.induct)
  case (1 n)
  show ?case
  proof (cases "n < 10")
    case True
    then have "show_nat n = [char_of (48 + n)]" by (subst show_nat.simps) simp
    then show ?thesis using digit_char(1) [OF True] 1(2) by simp
  next
    case False
    then have eq: "show_nat n = show_nat (n div 10) @ [char_of (48 + n mod 10)]"
      by (subst show_nat.simps) simp
    have "n mod 10 < 10" by simp
    from digit_char(1) [OF this] 1 False show ?thesis unfolding eq by auto
  qed
qed

lemma show_nat_nonempty: "show_nat n \<noteq> []"
  by (subst show_nat.simps) simp

lemma parse_unsigned_show: "n \<le> biggest \<Longrightarrow> parse_unsigned biggest (show_nat n) = Some n"
proof -
  assume le: "n \<le> biggest"
  obtain c s where cs: "show_nat n = c # s" using show_nat_nonempty [of n] by (cases "show_nat n") auto
  then have "is_ascii_digit c" using show_nat_digits [of c n] by simp
  then have "c \<noteq> CHR ''+''" by (auto simp: is_ascii_digit_def)
  then show ?thesis using le digits_value_show [of n] by (simp add: parse_unsigned_def Let_def cs)
qed

lemma digits_value_some: "digits_value acc s = Some n \<Longrightarrow> \<forall>c \<in> set s. is_ascii_digit c"
  by (induction acc s rule: digits_value.induct) (auto split: if_splits)

section \<open>Facts about splitting\<close>

lemma split_on_nonempty: "split_on d s \<noteq> []"
  by (cases s) (auto split: list.split)

lemma split_on_append_sep:
  assumes "d \<notin> set a"
  shows "split_on d (a @ d # s) = a # split_on d s"
  using assms by (induction a) auto

lemma split_on_single: "d \<notin> set a \<Longrightarrow> split_on d a = [a]"
  by (induction a) auto

lemma str_find_some:
  "str_find s p = Some i \<Longrightarrow> s = take i s @ p @ drop (i + length p) s"
proof (induction s arbitrary: i)
  case Nil
  then show ?case by (simp split: if_splits)
next
  case (Cons c s)
  show ?case
  proof (cases "starts_with (c # s) p")
    case True
    then have i: "i = 0" using Cons.prems by simp
    obtain rest where "c # s = p @ rest" using True by (auto simp: starts_with_iff)
    then show ?thesis unfolding i by simp
  next
    case False
    then obtain j where j: "i = Suc j" "str_find s p = Some j" using Cons.prems by auto
    then show ?thesis using Cons.IH [OF j(2)] by simp
  qed
qed

lemma str_find_char: "str_find (a @ d # s) [d] = Some (length a)" if "d \<notin> set a"
  using that by (induction a) (auto simp: starts_with_def)

lemma split_once_char: "d \<notin> set a \<Longrightarrow> split_once (a @ d # s) [d] = Some (a, s)"
  by (simp add: split_once_def str_find_char)

end
