(* ===== verification/Net_Addr.thy ===== *)
theory Net_Addr
  imports Text_Parse "HOL-Library.List_Lexorder" "HOL-Library.Char_ord"
begin

text \<open>
  Addresses as the program handles them (\<open>src/net.rs\<close>, \<open>std::net\<close>): IPv4 and IPv6 addresses and socket
  addresses, their text, their order, and the choice among candidates. What a host name resolves to, and the
  interfaces of the host, come from the operating system and are arguments.
\<close>

section \<open>std::net\<close>

datatype ipv4 = Ipv4 u8 u8 u8 u8

datatype ipv6 = Ipv6 u16 u16 u16 u16 u16 u16 u16 u16

text \<open>\<open>SocketAddr\<close>: port, and for IPv6 the flow information and the scope id.\<close>

datatype socket_addr = SockV4 ipv4 u16 | SockV6 ipv6 u16 u32 u32

fun v4_octets :: "ipv4 \<Rightarrow> u8 list" where
  "v4_octets (Ipv4 a b c d) = [a, b, c, d]"

fun v6_segments :: "ipv6 \<Rightarrow> u16 list" where
  "v6_segments (Ipv6 a b c d e f g h) = [a, b, c, d, e, f, g, h]"

fun v6_of_segments :: "u16 list \<Rightarrow> ipv6 option" where
  "v6_of_segments [a, b, c, d, e, f, g, h] = Some (Ipv6 a b c d e f g h)"
| "v6_of_segments _ = None"

definition v4_unspecified :: "ipv4 \<Rightarrow> bool" where
  "v4_unspecified a \<longleftrightarrow> a = Ipv4 0 0 0 0"

fun v4_loopback :: "ipv4 \<Rightarrow> bool" where
  "v4_loopback (Ipv4 a b c d) = (a = 127)"

fun v4_multicast :: "ipv4 \<Rightarrow> bool" where
  "v4_multicast (Ipv4 a b c d) = (224 \<le> a \<and> a \<le> 239)"

definition v4_broadcast :: "ipv4 \<Rightarrow> bool" where
  "v4_broadcast a \<longleftrightarrow> a = Ipv4 255 255 255 255"

definition v6_unspecified :: "ipv6 \<Rightarrow> bool" where
  "v6_unspecified a \<longleftrightarrow> a = Ipv6 0 0 0 0 0 0 0 0"

definition v6_loopback :: "ipv6 \<Rightarrow> bool" where
  "v6_loopback a \<longleftrightarrow> a = Ipv6 0 0 0 0 0 0 0 1"

fun v6_multicast :: "ipv6 \<Rightarrow> bool" where
  "v6_multicast (Ipv6 a b c d e f g h) = (and a 0xFF00 = 0xFF00)"

fun v6_link_local :: "ipv6 \<Rightarrow> bool" where
  "v6_link_local (Ipv6 a b c d e f g h) = (and a 0xFFC0 = 0xFE80)"

definition high_byte :: "u16 \<Rightarrow> u8" where
  "high_byte w = ucast (drop_bit 8 w)"

definition low_byte :: "u16 \<Rightarrow> u8" where
  "low_byte w = ucast w"

definition seg_of_bytes :: "u8 \<Rightarrow> u8 \<Rightarrow> u16" where
  "seg_of_bytes hi lo = or (push_bit 8 (ucast hi)) (ucast lo)"

fun to_ipv4_mapped :: "ipv6 \<Rightarrow> ipv4 option" where
  "to_ipv4_mapped (Ipv6 a b c d e f g h) =
     (if a = 0 \<and> b = 0 \<and> c = 0 \<and> d = 0 \<and> e = 0 \<and> f = 0xFFFF
      then Some (Ipv4 (high_byte g) (low_byte g) (high_byte h) (low_byte h)) else None)"

section \<open>Text of an IPv4 address\<close>

fun v4_text :: "ipv4 \<Rightarrow> string" where
  "v4_text (Ipv4 a b c d) =
     show_nat (unat a) @ ''.'' @ show_nat (unat b) @ ''.'' @ show_nat (unat c) @ ''.'' @ show_nat (unat d)"

text \<open>An octet has one to three digits, no leading zero, and is at most 255.\<close>

definition parse_octet :: "string \<Rightarrow> u8 option" where
  "parse_octet s =
     (if s = [] \<or> 3 < length s \<or> (1 < length s \<and> hd s = CHR ''0'') then None
      else case digits_value 0 s of None \<Rightarrow> None | Some n \<Rightarrow> if n \<le> 255 then Some (of_nat n) else None)"

fun octets_to_v4 :: "u8 option list \<Rightarrow> ipv4 option" where
  "octets_to_v4 [Some a, Some b, Some c, Some d] = Some (Ipv4 a b c d)"
| "octets_to_v4 _ = None"

definition parse_v4 :: "string \<Rightarrow> ipv4 option" where
  "parse_v4 s = octets_to_v4 (map parse_octet (split_on (CHR ''.'') s))"

section \<open>Text of an IPv6 address\<close>

definition hex_char :: "nat \<Rightarrow> char" where
  "hex_char n = (if n < 10 then char_of (48 + n) else char_of (87 + n))"

fun show_hex :: "nat \<Rightarrow> string" where
  "show_hex n = (if n < 16 then [hex_char n] else show_hex (n div 16) @ [hex_char (n mod 16)])"

declare show_hex.simps [simp del]

definition hex_val :: "char \<Rightarrow> nat option" where
  "hex_val c =
     (let b = char_byte c in
      if 48 \<le> b \<and> b \<le> 57 then Some (b - 48)
      else if 97 \<le> b \<and> b \<le> 102 then Some (b - 87)
      else if 65 \<le> b \<and> b \<le> 70 then Some (b - 55) else None)"

fun hex_value :: "nat \<Rightarrow> string \<Rightarrow> nat option" where
  "hex_value acc [] = Some acc"
| "hex_value acc (c # s) = (case hex_val c of None \<Rightarrow> None | Some v \<Rightarrow> hex_value (16 * acc + v) s)"

definition parse_group :: "string \<Rightarrow> u16 option" where
  "parse_group s = (if s = [] \<or> 4 < length s then None else map_option of_nat (hex_value 0 s))"

fun join_with :: "char \<Rightarrow> string list \<Rightarrow> string" where
  "join_with d [] = []"
| "join_with d [x] = x"
| "join_with d (x # y # ys) = x @ d # join_with d (y # ys)"

definition segs_text :: "u16 list \<Rightarrow> string" where
  "segs_text ws = join_with (CHR '':'') (map (\<lambda>w. show_hex (unat w)) ws)"

text \<open>The first longest run of zero segments, as (start, length).\<close>

fun zero_run :: "nat \<Rightarrow> nat \<times> nat \<Rightarrow> nat \<times> nat \<Rightarrow> u16 list \<Rightarrow> nat \<times> nat" where
  "zero_run i longest current [] = longest"
| "zero_run i longest (cs, cl) (w # ws) =
     (if w = 0 then
        let cur = (if cl = 0 then i else cs, cl + 1)
        in zero_run (i + 1) (if snd longest < snd cur then cur else longest) cur ws
      else zero_run (i + 1) longest (0, 0) ws)"

definition v6_text :: "ipv6 \<Rightarrow> string" where
  "v6_text a =
     (case to_ipv4_mapped a of
        Some v4 \<Rightarrow> ''::ffff:'' @ v4_text v4
      | None \<Rightarrow>
          let segs = v6_segments a; (start, len) = zero_run 0 (0, 0) (0, 0) segs
          in if 1 < len then segs_text (take start segs) @ ''::'' @ segs_text (drop (start + len) segs)
             else segs_text segs)"

fun v6_groups :: "bool \<Rightarrow> string list \<Rightarrow> u16 list option" where
  "v6_groups allow_v4 [] = Some []"
| "v6_groups allow_v4 [s] =
     (case parse_group s of Some w \<Rightarrow> Some [w]
      | None \<Rightarrow>
          (if allow_v4 then
             (case parse_v4 s of None \<Rightarrow> None
              | Some (Ipv4 a b c d) \<Rightarrow> Some [seg_of_bytes a b, seg_of_bytes c d])
           else None))"
| "v6_groups allow_v4 (s # t # ss) =
     (case parse_group s of None \<Rightarrow> None
      | Some w \<Rightarrow> map_option (\<lambda>ws. w # ws) (v6_groups allow_v4 (t # ss)))"

definition v6_side :: "bool \<Rightarrow> string \<Rightarrow> u16 list option" where
  "v6_side allow_v4 s = (if s = [] then Some [] else v6_groups allow_v4 (split_on (CHR '':'') s))"

definition parse_v6 :: "string \<Rightarrow> ipv6 option" where
  "parse_v6 s =
     (case split_once s ''::'' of
        None \<Rightarrow> (case v6_side True s of None \<Rightarrow> None | Some ws \<Rightarrow> v6_of_segments ws)
      | Some (h, t) \<Rightarrow>
          (case (v6_side False h, v6_side True t) of
             (Some a, Some b) \<Rightarrow>
               if length a + length b \<le> 7 then v6_of_segments (a @ replicate (8 - length a - length b) 0 @ b) else None
           | _ \<Rightarrow> None))"

section \<open>Hosts (net.rs)\<close>

definition strip_brackets :: "string \<Rightarrow> string" where
  "strip_brackets s =
     (if s \<noteq> [] \<and> hd s = CHR ''['' \<and> tl s \<noteq> [] \<and> last (tl s) = CHR '']'' then butlast (tl s) else s)"

definition parse_ip_host :: "(string \<Rightarrow> u32 option) \<Rightarrow> string \<Rightarrow> socket_addr option" where
  "parse_ip_host interface_index host =
     (let inner = strip_brackets (str_trim host) in
      case parse_v4 inner of
        Some v4 \<Rightarrow> Some (SockV4 v4 0)
      | None \<Rightarrow>
          (let (addr_part, zone) = (case split_once inner ''%'' of None \<Rightarrow> (inner, None) | Some (a, z) \<Rightarrow> (a, Some z)) in
           case parse_v6 addr_part of None \<Rightarrow> None
           | Some v6 \<Rightarrow>
               (case to_ipv4_mapped v6 of
                  Some v4 \<Rightarrow> Some (SockV4 v4 0)
                | None \<Rightarrow>
                    (case zone of None \<Rightarrow> Some (SockV6 v6 0 0 0)
                     | Some name \<Rightarrow>
                         (case parse_unsigned (2 ^ 32 - 1) name of
                            Some n \<Rightarrow> Some (SockV6 v6 0 0 (of_nat n))
                          | None \<Rightarrow> map_option (SockV6 v6 0 0) (interface_index name))))))"

fun format_ip_host :: "socket_addr \<Rightarrow> string" where
  "format_ip_host (SockV4 v4 port) = v4_text v4"
| "format_ip_host (SockV6 v6 port flow scope) =
     (case to_ipv4_mapped v6 of
        None \<Rightarrow> if v6_link_local v6 \<and> scope \<noteq> 0 then v6_text v6 @ ''%'' @ show_nat (unat scope) else v6_text v6
      | Some v4 \<Rightarrow> v4_text v4)"

fun unmap_ipv4 :: "socket_addr \<Rightarrow> socket_addr" where
  "unmap_ipv4 (SockV4 v4 port) = SockV4 v4 port"
| "unmap_ipv4 (SockV6 v6 port flow scope) =
     (case to_ipv4_mapped v6 of None \<Rightarrow> SockV6 v6 port flow scope | Some v4 \<Rightarrow> SockV4 v4 port)"

fun same_class_c :: "ipv4 \<Rightarrow> ipv4 \<Rightarrow> bool" where
  "same_class_c (Ipv4 a b c d) (Ipv4 a' b' c' d') = (a = a' \<and> b = b' \<and> c = c')"

fun cast_addr_rank :: "ipv4 option \<Rightarrow> socket_addr \<Rightarrow> nat option" where
  "cast_addr_rank local_v4 (SockV4 ip port) =
     (if v4_unspecified ip \<or> v4_multicast ip \<or> v4_broadcast ip then None
      else if (case local_v4 of None \<Rightarrow> False | Some l \<Rightarrow> same_class_c l ip) then Some 0 else Some 1)"
| "cast_addr_rank local_v4 (SockV6 ip port flow scope) =
     (if v6_unspecified ip \<or> v6_multicast ip then None
      else if v6_link_local ip then (if scope \<noteq> 0 then Some 3 else None) else Some 2)"

text \<open>\<open>min_by_key\<close>: the first element with the least key.\<close>

fun min_by_rank :: "(nat \<times> 'a) list \<Rightarrow> (nat \<times> 'a) option" where
  "min_by_rank [] = None"
| "min_by_rank (x # xs) =
     (case min_by_rank xs of None \<Rightarrow> Some x | Some y \<Rightarrow> if fst x \<le> fst y then Some x else Some y)"

definition select_cast_addr :: "socket_addr list \<Rightarrow> ipv4 option \<Rightarrow> socket_addr option" where
  "select_cast_addr candidates local_v4 =
     map_option snd (min_by_rank
       (List.map_filter (\<lambda>a. map_option (\<lambda>rank. (rank, a)) (cast_addr_rank local_v4 a)) (map unmap_ipv4 candidates)))"

text \<open>Resolution: \<open>lookup\<close> is what the system's resolver answers for a name.\<close>

definition resolve_host_addr ::
  "(string \<Rightarrow> u32 option) \<Rightarrow> (string \<Rightarrow> socket_addr list option) \<Rightarrow> string \<Rightarrow> socket_addr option" where
  "resolve_host_addr interface_index lookup hostname =
     (let host = trim_end_char (CHR ''.'') (str_trim hostname) in
      if host = [] then None
      else case parse_ip_host interface_index host of Some a \<Rightarrow> Some a
           | None \<Rightarrow> (case lookup host of None \<Rightarrow> None | Some addrs \<Rightarrow> select_cast_addr addrs None))"

definition resolve_host_ip ::
  "(string \<Rightarrow> u32 option) \<Rightarrow> (string \<Rightarrow> socket_addr list option) \<Rightarrow> string \<Rightarrow> string option" where
  "resolve_host_ip interface_index lookup hostname =
     map_option format_ip_host (resolve_host_addr interface_index lookup hostname)"

fun first_v4 :: "socket_addr list \<Rightarrow> ipv4 option" where
  "first_v4 [] = None"
| "first_v4 (SockV4 v4 port # as) = Some v4"
| "first_v4 (SockV6 v6 port flow scope # as) = first_v4 as"

definition resolve_host_ipv4 :: "(string \<Rightarrow> socket_addr list option) \<Rightarrow> string \<Rightarrow> string option" where
  "resolve_host_ipv4 lookup hostname =
     (let host = trim_end_char (CHR ''.'') (str_trim hostname) in
      if host = [] then None
      else case parse_v4 host of Some v4 \<Rightarrow> Some (v4_text v4)
           | None \<Rightarrow> (case lookup host of None \<Rightarrow> None | Some addrs \<Rightarrow> map_option v4_text (first_v4 addrs)))"

definition push_host :: "string \<Rightarrow> string list \<Rightarrow> string list" where
  "push_host s out = (if s \<noteq> [] \<and> s \<notin> set out then out @ [s] else out)"

definition cast_connect_hosts :: "(string \<Rightarrow> socket_addr list option) \<Rightarrow> string \<Rightarrow> string option \<Rightarrow> string list" where
  "cast_connect_hosts lookup host hostname =
     (let out1 = (case resolve_host_ipv4 lookup host of None \<Rightarrow> [] | Some ip \<Rightarrow> push_host ip []);
          out2 = push_host (trim_end_char (CHR ''.'') (str_trim host)) out1
      in case hostname of None \<Rightarrow> out2
         | Some raw \<Rightarrow>
             let name = trim_end_char (CHR ''.'') (str_trim raw);
                 out3 = (case resolve_host_ipv4 lookup name of None \<Rightarrow> out2 | Some ip \<Rightarrow> push_host ip out2)
             in push_host name out3)"

end
