(* ===== verification/Net_Text.thy ===== *)
theory Net_Text
  imports Net_Addr
begin

text \<open>
  The text of an address reads back as the address (\<open>format_ip_host\<close> and \<open>parse_ip_host\<close> of \<open>src/net.rs\<close>),
  including the compressed form of IPv6, the IPv4-mapped form, and the scope of a link-local address.
\<close>

section \<open>Characters\<close>

text \<open>The characters of address text: letters, digits, dots and colons; no space, bracket or percent sign.\<close>

definition addr_char :: "char \<Rightarrow> bool" where
  "addr_char c \<longleftrightarrow> c \<in> {CHR '':'', CHR ''.''} \<or> hex_val c \<noteq> None"

lemma hex_char_val: "n < 16 \<Longrightarrow> hex_val (hex_char n) = Some n"
  by (auto simp: hex_char_def hex_val_def char_byte_def Let_def)

lemma digit_hex_val: "is_ascii_digit c \<Longrightarrow> hex_val c \<noteq> None"
  by (auto simp: is_ascii_digit_def hex_val_def char_byte_def Let_def)

lemma special_hex [simp]: "hex_val (CHR '':'') = None" "hex_val (CHR ''.'') = None" "hex_val (CHR ''%'') = None"
    "hex_val (CHR ''['') = None"
  by (simp_all add: hex_val_def char_byte_def)

lemma special_digit [simp]: "\<not> is_ascii_digit (CHR '':'')" "\<not> is_ascii_digit (CHR ''.'')"
    "\<not> is_ascii_digit (CHR ''%'')"
  by (simp_all add: is_ascii_digit_def)

text \<open>Text without white space is its own trim.\<close>

definition plain_char :: "char \<Rightarrow> bool" where
  "plain_char c \<longleftrightarrow> 33 \<le> char_byte c \<and> char_byte c < 127"

lemma plain_ws: "s \<noteq> [] \<longrightarrow> plain_char (hd s) \<Longrightarrow> ws_len s = 0"
  by (cases s rule: ws_len.cases)
    (auto simp: plain_char_def is_ascii_space_def two_byte_space_def three_byte_space_def)

lemma plain_ws_rev: "s \<noteq> [] \<longrightarrow> plain_char (hd s) \<Longrightarrow> ws_len_rev s = 0"
  by (cases s rule: ws_len_rev.cases)
    (auto simp: plain_char_def is_ascii_space_def two_byte_space_def three_byte_space_def)

lemma trim_plain: "(\<forall>c \<in> set s. plain_char c) \<Longrightarrow> str_trim s = s"
proof -
  assume plain: "\<forall>c \<in> set s. plain_char c"
  have "ws_len s = 0" using plain by (intro plain_ws) auto
  moreover have "ws_len_rev (rev s) = 0" using plain by (intro plain_ws_rev) (auto simp: hd_rev)
  ultimately show ?thesis by (simp add: str_trim_def trim_start.simps [of s] trim_start_rev.simps [of "rev s"])
qed

lemma addr_char_plain: "addr_char c \<Longrightarrow> plain_char c"
  by (auto simp: addr_char_def plain_char_def hex_val_def char_byte_def Let_def split: if_splits)

section \<open>IPv4\<close>

lemma show_nat_length: "0 < k \<Longrightarrow> n < 10 ^ k \<Longrightarrow> length (show_nat n) \<le> k"
proof (induction k arbitrary: n)
  case 0
  then show ?case by simp
next
  case (Suc k)
  show ?case
  proof (cases "n < 10")
    case True
    then show ?thesis by (subst show_nat.simps) simp
  next
    case False
    then have "0 < k" using Suc.prems(2) by (cases k) auto
    moreover have "n div 10 < 10 ^ k" using Suc.prems(2) by (simp add: div_less_iff_less_mult mult.commute)
    ultimately have "length (show_nat (n div 10)) \<le> k" by (rule Suc.IH)
    then show ?thesis using False by (subst show_nat.simps) simp
  qed
qed

lemma show_nat_head: "10 \<le> n \<Longrightarrow> hd (show_nat n) \<noteq> CHR ''0''"
proof (induction n rule: show_nat.induct)
  case (1 n)
  then have eq: "show_nat n = show_nat (n div 10) @ [char_of (48 + n mod 10)]" by (subst show_nat.simps) simp
  show ?case
  proof (cases "n div 10 < 10")
    case True
    then have "show_nat (n div 10) = [char_of (48 + n div 10)]" by (subst show_nat.simps) simp
    moreover have "char_byte (char_of (48 + n div 10)) \<noteq> char_byte (CHR ''0'')"
      using digit_char(2) [OF True] 1(2) by (simp add: char_byte_def)
    ultimately show ?thesis unfolding eq by auto
  next
    case False
    then show ?thesis using 1 show_nat_nonempty [of "n div 10"] unfolding eq by simp
  qed
qed

lemma parse_octet_show: "parse_octet (show_nat (unat a)) = Some a"
proof -
  have small: "unat a < 256" using unat_below [of a] by simp
  then have "unat a < 10 ^ 3" by simp
  then have len: "length (show_nat (unat a)) \<le> 3" by (intro show_nat_length) simp_all
  have "hd (show_nat (unat a)) \<noteq> CHR ''0''" if "1 < length (show_nat (unat a))"
  proof (cases "unat a < 10")
    case True
    then have "length (show_nat (unat a)) = 1" by (subst show_nat.simps) simp
    with that show ?thesis by simp
  next
    case False
    then show ?thesis by (intro show_nat_head) simp
  qed
  then show ?thesis
    using len small digits_value_show [of "unat a"] show_nat_nonempty [of "unat a"]
    by (auto simp: parse_octet_def)
qed

lemma show_nat_free: "\<not> is_ascii_digit d \<Longrightarrow> d \<notin> set (show_nat n)"
  using show_nat_digits by blast

lemma parse_v4_text: "parse_v4 (v4_text a) = Some a"
proof (cases a)
  case (Ipv4 p q r s)
  have "split_on (CHR ''.'') (v4_text a) = map (\<lambda>x. show_nat (unat x)) [p, q, r, s]"
    using Ipv4 by (simp add: split_on_append_sep split_on_single show_nat_free)
  then have "map parse_octet (split_on (CHR ''.'') (v4_text a)) = [Some p, Some q, Some r, Some s]"
    by (simp add: parse_octet_show)
  then show ?thesis using Ipv4 by (simp add: parse_v4_def)
qed

lemma v4_text_chars: "c \<in> set (v4_text a) \<Longrightarrow> is_ascii_digit c \<or> c = CHR ''.''"
  by (cases a) (auto dest: show_nat_digits)

lemma v4_text_addr: "c \<in> set (v4_text a) \<Longrightarrow> addr_char c"
  using v4_text_chars [of c a] digit_hex_val [of c] by (auto simp: addr_char_def)

lemma v4_text_nonempty: "v4_text a \<noteq> []"
  by (cases a) simp

lemma split_on_keeps: "c \<in> set s \<Longrightarrow> c \<noteq> d \<Longrightarrow> \<exists>p \<in> set (split_on d s). c \<in> set p"
proof (induction s)
  case Nil
  then show ?case by simp
next
  case (Cons a s)
  obtain x xs where sp: "split_on d s = x # xs"
    using split_on_nonempty [of d s] by (cases "split_on d s") auto
  show ?case using Cons by (auto simp: sp)
qed

lemma parse_v4_no_colon: "CHR '':'' \<in> set s \<Longrightarrow> parse_v4 s = None"
proof -
  assume colon: "CHR '':'' \<in> set s"
  have "\<exists>p \<in> set (split_on (CHR ''.'') s). CHR '':'' \<in> set p"
    using colon by (rule split_on_keeps) simp
  then obtain p where p: "p \<in> set (split_on (CHR ''.'') s)" "CHR '':'' \<in> set p" by blast
  have "digits_value 0 p = None"
  proof (rule ccontr)
    assume "digits_value 0 p \<noteq> None"
    then obtain n where "digits_value 0 p = Some n" by auto
    from digits_value_some [OF this] p(2) show False by auto
  qed
  then have "parse_octet p = None" by (simp add: parse_octet_def)
  then have none: "None \<in> set (map parse_octet (split_on (CHR ''.'') s))" using p(1) by force
  have "octets_to_v4 os = None" if "None \<in> set os" for os
    using that by (cases os rule: octets_to_v4.cases) auto
  then show ?thesis using none by (simp add: parse_v4_def)
qed

section \<open>Hexadecimal groups\<close>

lemma hex_value_append:
  "hex_value acc (a @ b) = (case hex_value acc a of None \<Rightarrow> None | Some v \<Rightarrow> hex_value v b)"
  by (induction acc a rule: hex_value.induct) (auto split: option.split)

lemma hex_value_show: "hex_value 0 (show_hex n) = Some n"
proof (induction n rule: show_hex.induct)
  case (1 n)
  show ?case
  proof (cases "n < 16")
    case True
    then show ?thesis by (subst show_hex.simps) (simp add: hex_char_val)
  next
    case False
    then show ?thesis using 1 by (subst show_hex.simps) (simp add: hex_value_append hex_char_val)
  qed
qed

lemma show_hex_chars: "c \<in> set (show_hex n) \<Longrightarrow> hex_val c \<noteq> None"
proof (induction n rule: show_hex.induct)
  case (1 n)
  show ?case
  proof (cases "n < 16")
    case True
    then have "show_hex n = [hex_char n]" by (subst show_hex.simps) simp
    then show ?thesis using hex_char_val [OF True] 1(2) by simp
  next
    case False
    then have eq: "show_hex n = show_hex (n div 16) @ [hex_char (n mod 16)]" by (subst show_hex.simps) simp
    have "n mod 16 < 16" by simp
    from hex_char_val [OF this] 1 False show ?thesis unfolding eq by auto
  qed
qed

lemma show_hex_nonempty: "show_hex n \<noteq> []"
  by (subst show_hex.simps) simp

lemma show_hex_length: "0 < k \<Longrightarrow> n < 16 ^ k \<Longrightarrow> length (show_hex n) \<le> k"
proof (induction k arbitrary: n)
  case 0
  then show ?case by simp
next
  case (Suc k)
  show ?case
  proof (cases "n < 16")
    case True
    then show ?thesis by (subst show_hex.simps) simp
  next
    case False
    then have "0 < k" using Suc.prems(2) by (cases k) auto
    moreover have "n div 16 < 16 ^ k" using Suc.prems(2) by (simp add: div_less_iff_less_mult mult.commute)
    ultimately have "length (show_hex (n div 16)) \<le> k" by (rule Suc.IH)
    then show ?thesis using False by (subst show_hex.simps) simp
  qed
qed

lemma parse_group_show: "parse_group (show_hex (unat w)) = Some w"
proof -
  have "unat w < 16 ^ 4" using unat_below [of w] by simp
  then have "length (show_hex (unat w)) \<le> 4" by (intro show_hex_length) simp_all
  then show ?thesis
    using show_hex_nonempty [of "unat w"] hex_value_show [of "unat w"] by (simp add: parse_group_def)
qed

lemma show_hex_free: "hex_val d = None \<Longrightarrow> d \<notin> set (show_hex n)"
  using show_hex_chars by blast

section \<open>Segments joined by colons\<close>

lemma split_join:
  "xs \<noteq> [] \<Longrightarrow> \<forall>x \<in> set xs. d \<notin> set x \<Longrightarrow> split_on d (join_with d xs) = xs"
  by (induction d xs rule: join_with.induct) (simp_all add: split_on_single split_on_append_sep)

lemma join_nonempty: "xs \<noteq> [] \<Longrightarrow> \<forall>x \<in> set xs. x \<noteq> [] \<Longrightarrow> join_with d xs \<noteq> []"
  by (induction d xs rule: join_with.induct) auto

lemma groups_show: "v6_groups allow (map (\<lambda>w. show_hex (unat w)) ws) = Some ws"
  by (induction ws rule: induct_list012) (simp_all add: parse_group_show)

lemma side_text: "v6_side allow (segs_text ws) = Some ws"
proof (cases ws)
  case Nil
  then show ?thesis by (simp add: v6_side_def segs_text_def)
next
  case (Cons w ws')
  let ?xs = "map (\<lambda>w. show_hex (unat w)) ws"
  have "join_with (CHR '':'') ?xs \<noteq> []" by (rule join_nonempty) (auto simp: Cons show_hex_nonempty)
  moreover have "split_on (CHR '':'') (join_with (CHR '':'') ?xs) = ?xs"
    by (rule split_join) (auto simp: Cons show_hex_free)
  ultimately show ?thesis by (simp add: v6_side_def segs_text_def groups_show)
qed

lemma find_skip: "d \<notin> set x \<Longrightarrow> str_find (x @ s) (d # p) = map_option (\<lambda>i. length x + i) (str_find s (d # p))"
proof (induction x)
  case Nil
  then show ?case by (cases "str_find s (d # p)") auto
next
  case (Cons c x)
  then show ?case by (cases "str_find s (d # p)") (auto simp: starts_with_def)
qed

lemma find_join:
  assumes "\<forall>x \<in> set xs. d \<notin> set x \<and> x \<noteq> []"
  shows "str_find (join_with d xs) [d, d] = None"
    and "str_find (join_with d xs @ [d, d] @ t) [d, d] = Some (length (join_with d xs))"
proof -
  have both: "str_find (join_with d xs) [d, d] = None \<and>
      str_find (join_with d xs @ [d, d] @ t) [d, d] = Some (length (join_with d xs))"
    using assms
  proof (induction d xs rule: join_with.induct)
    case (1 d)
    then show ?case by (simp add: starts_with_def)
  next
    case (2 d x)
    then show ?case using find_skip [of d x "[]" "[d]"] find_skip [of d x "[d, d] @ t" "[d]"]
      by (simp add: starts_with_def)
  next
    case (3 d x y ys)
    obtain c r where c: "join_with d (y # ys) = c # r" "c \<noteq> d"
    proof -
      obtain c r' where y: "y = c # r'" using "3.prems" by (cases y) auto
      then have "c \<noteq> d" using "3.prems" by auto
      moreover obtain r where "join_with d (y # ys) = c # r" using y by (cases ys) auto
      ultimately show ?thesis using that by blast
    qed
    have sep: "str_find (d # (join_with d (y # ys) @ s)) [d, d] = map_option Suc (str_find (join_with d (y # ys) @ s) [d, d])" for s
      using c by (simp add: starts_with_def)
    have IH: "str_find (join_with d (y # ys)) [d, d] = None"
        "str_find (join_with d (y # ys) @ [d, d] @ t) [d, d] = Some (length (join_with d (y # ys)))"
      using 3 by auto
    have x: "d \<notin> set x" using "3.prems" by simp
    have "str_find (join_with d (x # y # ys)) [d, d] = None"
      using find_skip [OF x, of "d # join_with d (y # ys)" "[d]"] sep [of "[]"] IH(1) by simp
    moreover have "str_find (join_with d (x # y # ys) @ [d, d] @ t) [d, d] = Some (length (join_with d (x # y # ys)))"
      using find_skip [OF x, of "d # (join_with d (y # ys) @ [d, d] @ t)" "[d]"] sep [of "[d, d] @ t"] IH(2) by simp
    ultimately show ?case by blast
  qed
  then show "str_find (join_with d xs) [d, d] = None"
    "str_find (join_with d xs @ [d, d] @ t) [d, d] = Some (length (join_with d xs))" by blast+
qed

lemma segs_split:
  "split_once (segs_text ws) ''::'' = None" "split_once (segs_text ws @ ''::'' @ t) ''::'' = Some (segs_text ws, t)"
proof -
  have ok: "\<forall>x \<in> set (map (\<lambda>w. show_hex (unat w)) ws). CHR '':'' \<notin> set x \<and> x \<noteq> []"
    by (auto simp: show_hex_free show_hex_nonempty)
  show "split_once (segs_text ws) ''::'' = None"
    using find_join(1) [OF ok] by (simp add: split_once_def segs_text_def)
  show "split_once (segs_text ws @ ''::'' @ t) ''::'' = Some (segs_text ws, t)"
    using find_join(2) [OF ok, of t] by (simp add: split_once_def segs_text_def)
qed

section \<open>The run of zeros\<close>

definition zero_span :: "u16 list \<Rightarrow> nat \<Rightarrow> nat \<times> nat \<Rightarrow> bool" where
  "zero_span full i sp \<longleftrightarrow> fst sp + snd sp \<le> i \<and> (\<forall>j < snd sp. full ! (fst sp + j) = 0)"

lemma zero_run_span:
  assumes "zero_span full i longest" and "zero_span full i cur" and "0 < snd cur \<longrightarrow> fst cur + snd cur = i"
    and "drop i full = ws" and "i \<le> length full"
  shows "zero_span full (length full) (zero_run i longest cur ws)"
  using assms
proof (induction i longest cur ws rule: zero_run.induct)
  case (1 i longest current)
  then show ?case by (auto simp: zero_span_def)
next
  case (2 i longest cs cl w ws)
  have i: "i < length full"
  proof (rule ccontr)
    assume "\<not> i < length full"
    then show False using "2.prems"(4) by simp
  qed
  have w: "full ! i = w" by (rule nth_via_drop) (rule "2.prems"(4))
  have rest: "drop (i + 1) full = ws" using "2.prems"(4) by (metis Suc_eq_plus1 drop_Suc list.sel(3) tl_drop)
  show ?case
  proof (cases "w = 0")
    case False
    have "zero_span full (i + 1) longest" "zero_span full (i + 1) (0, 0)"
      using "2.prems"(1) by (auto simp: zero_span_def)
    then show ?thesis using "2.IH"(2) [OF False] False rest i by simp
  next
    case True
    define cur where "cur = (if cl = 0 then i else cs, cl + 1)"
    have cur: "zero_span full (i + 1) cur" "fst cur + snd cur = i + 1"
    proof -
      show "fst cur + snd cur = i + 1" using "2.prems"(3) by (auto simp: cur_def)
      show "zero_span full (i + 1) cur"
        using "2.prems"(2,3) w True by (auto simp: zero_span_def cur_def less_Suc_eq)
    qed
    have "zero_span full (i + 1) longest" using "2.prems"(1) by (auto simp: zero_span_def)
    then have "zero_span full (i + 1) (if snd longest < snd cur then cur else longest)" using cur by simp
    then have "zero_span full (length full) (zero_run (i + 1) (if snd longest < snd cur then cur else longest) cur ws)"
      using cur rest i by (intro "2.IH"(1) [OF True cur_def]) auto
    then show ?thesis unfolding cur_def by (simp only: True zero_run.simps Let_def simp_thms if_True)
  qed
qed

lemma zero_run_cut:
  assumes "zero_run 0 (0, 0) (0, 0) segs = (start, len)"
  shows "take start segs @ replicate len 0 @ drop (start + len) segs = segs" and "start + len \<le> length segs"
proof -
  have "zero_span segs (length segs) (zero_run 0 (0, 0) (0, 0) segs)"
    by (rule zero_run_span) (auto simp: zero_span_def)
  then have span: "start + len \<le> length segs" "\<forall>j < len. segs ! (start + j) = 0"
    using assms by (simp_all add: zero_span_def)
  then show "start + len \<le> length segs" by simp
  show "take start segs @ replicate len 0 @ drop (start + len) segs = segs"
  proof (rule nth_equalityI)
    show "length (take start segs @ replicate len 0 @ drop (start + len) segs) = length segs" using span(1) by simp
  next
    fix i
    assume "i < length (take start segs @ replicate len 0 @ drop (start + len) segs)"
    then have i: "i < length segs" using span(1) by simp
    consider "i < start" | "start \<le> i" "i < start + len" | "start + len \<le> i" by linarith
    then show "(take start segs @ replicate len 0 @ drop (start + len) segs) ! i = segs ! i"
    proof cases
      case 2
      then have j: "i - start < len" by linarith
      then have "segs ! i = 0" using span(2) [rule_format, of "i - start"] 2 by simp
      then show ?thesis using 2 j span(1) by (simp add: nth_append min_def)
    qed (use span(1) i in \<open>auto simp: nth_append min_def\<close>)
  qed
qed

section \<open>IPv6\<close>

lemma of_segments: "v6_of_segments (v6_segments a) = Some a"
  by (cases a) simp

lemma segments_length: "length (v6_segments a) = 8"
  by (cases a) simp

lemma bytes_of_segment: "seg_of_bytes (high_byte w) (low_byte w) = w"
  by (rule bit_word_eqI) (auto simp: seg_of_bytes_def high_byte_def low_byte_def bit_simps)

lemma parse_group_v4: "parse_group (v4_text a) = None"
proof -
  have dot: "CHR ''.'' \<in> set (v4_text a)" by (cases a) simp
  have "hex_value acc s = None" if "CHR ''.'' \<in> set s" for acc s
    using that by (induction acc s rule: hex_value.induct) (auto split: option.split)
  then show ?thesis using dot by (simp add: parse_group_def)
qed

lemma parse_v6_text: "parse_v6 (v6_text a) = Some a"
proof (cases "to_ipv4_mapped a")
  case (Some v4)
  obtain p q r s where v4: "v4 = Ipv4 p q r s" by (cases v4)
  have free: "CHR '':'' \<notin> set (v4_text v4)" using v4_text_chars [of "CHR '':''" v4] by auto
  have shown: "v6_text a = [] @ ''::'' @ ''ffff:'' @ v4_text v4" using Some by (simp add: v6_text_def)
  have once: "split_once (v6_text a) ''::'' = Some ([], ''ffff:'' @ v4_text v4)"
    unfolding shown by (simp add: split_once_def starts_with_def)
  have "split_on (CHR '':'') (''ffff:'' @ v4_text v4) = [''ffff'', v4_text v4]"
    using free by (simp add: split_on_single)
  moreover have "parse_group ''ffff'' = Some 0xFFFF"
    by (simp add: parse_group_def hex_val_def char_byte_def Let_def)
  ultimately have "v6_side True (''ffff:'' @ v4_text v4) = Some [0xFFFF, seg_of_bytes p q, seg_of_bytes r s]"
    by (simp add: v6_side_def parse_group_v4 parse_v4_text v4 del: v4_text.simps)
  then have "parse_v6 (v6_text a) = v6_of_segments [0, 0, 0, 0, 0, 0xFFFF, seg_of_bytes p q, seg_of_bytes r s]"
    by (simp add: parse_v6_def once v6_side_def [of False] numeral_eq_Suc)
  moreover have "a = Ipv6 0 0 0 0 0 0xFFFF (seg_of_bytes p q) (seg_of_bytes r s)"
    using Some v4 by (cases a) (auto simp: bytes_of_segment split: if_splits)
  ultimately show ?thesis by simp
next
  case None
  define segs where "segs = v6_segments a"
  obtain start len where run: "zero_run 0 (0, 0) (0, 0) segs = (start, len)" by force
  note cut = zero_run_cut [OF run]
  have len8: "length segs = 8" by (simp add: segs_def segments_length)
  show ?thesis
  proof (cases "1 < len")
    case True
    have shown: "v6_text a = segs_text (take start segs) @ ''::'' @ segs_text (drop (start + len) segs)"
      using None True run by (simp add: v6_text_def segs_def Let_def)
    have total: "length (take start segs) + length (drop (start + len) segs) = 8 - len" "8 - (8 - len) = len"
      using cut(2) len8 True by auto
    have "8 - length (take start segs) - length (drop (start + len) segs) = len" using total by linarith
    moreover have "length (take start segs) + length (drop (start + len) segs) \<le> 7" using total(1) True by linarith
    moreover have "parse_v6 (v6_text a) =
        (if length (take start segs) + length (drop (start + len) segs) \<le> 7
         then v6_of_segments (take start segs
           @ replicate (8 - length (take start segs) - length (drop (start + len) segs)) 0 @ drop (start + len) segs)
         else None)"
      unfolding shown parse_v6_def segs_split(2) by (simp add: side_text del: length_take length_drop)
    ultimately have "parse_v6 (v6_text a) = v6_of_segments (take start segs @ replicate len 0 @ drop (start + len) segs)"
      by (simp only: if_True)
    then show ?thesis unfolding cut(1) by (simp add: segs_def of_segments)
  next
    case False
    then have "v6_text a = segs_text segs" using None False run by (simp add: v6_text_def segs_def Let_def)
    then show ?thesis by (simp add: parse_v6_def segs_split(1) side_text segs_def of_segments)
  qed
qed

section \<open>Hosts read back\<close>

lemma segs_text_chars: "c \<in> set (segs_text ws) \<Longrightarrow> addr_char c"
proof -
  have join: "c \<in> set (join_with d xs) \<Longrightarrow> c = d \<or> (\<exists>x \<in> set xs. c \<in> set x)" for d xs
    by (induction d xs rule: join_with.induct) auto
  assume "c \<in> set (segs_text ws)"
  then have "c = CHR '':'' \<or> (\<exists>w \<in> set ws. c \<in> set (show_hex (unat w)))"
    unfolding segs_text_def by (auto dest!: join)
  then show "addr_char c" by (auto simp: addr_char_def dest: show_hex_chars)
qed

lemma v6_text_chars: "c \<in> set (v6_text a) \<Longrightarrow> addr_char c"
proof -
  have mapped: "c \<in> set ''::ffff:'' \<Longrightarrow> addr_char c"
    by (auto simp: addr_char_def hex_val_def char_byte_def)
  have colon: "addr_char (CHR '':'')" by (simp add: addr_char_def)
  assume "c \<in> set (v6_text a)"
  then show "addr_char c"
    using mapped colon segs_text_chars v4_text_addr
    by (auto simp del: v4_text.simps simp: v6_text_def Let_def split: option.splits prod.splits if_splits)
qed

lemma v6_text_colon: "CHR '':'' \<in> set (v6_text a)"
proof (cases a)
  case (Ipv6 s1 s2 s3 s4 s5 s6 s7 s8)
  have "CHR '':'' \<in> set (segs_text (v6_segments a))" using Ipv6 by (simp add: segs_text_def)
  then show ?thesis
    by (cases "zero_run 0 (0, 0) (0, 0) (v6_segments a)") (auto simp: v6_text_def Let_def split: option.splits)
qed

lemma addr_text_inner: "\<forall>c \<in> set s. addr_char c \<Longrightarrow> strip_brackets s = s \<and> CHR ''%'' \<notin> set s"
proof -
  assume ok: "\<forall>c \<in> set s. addr_char c"
  have "\<not> addr_char (CHR ''['')" "\<not> addr_char (CHR ''%'')" by (simp_all add: addr_char_def)
  then show ?thesis using ok by (cases s) (auto simp: strip_brackets_def)
qed

text \<open>What \<open>format_ip_host\<close> keeps of an address: the port goes, a mapped address is IPv4, and only a link-local
  address has a scope.\<close>

fun canonical_addr :: "socket_addr \<Rightarrow> socket_addr" where
  "canonical_addr (SockV4 v4 port) = SockV4 v4 0"
| "canonical_addr (SockV6 v6 port flow scope) =
     (case to_ipv4_mapped v6 of Some v4 \<Rightarrow> SockV4 v4 0
      | None \<Rightarrow> SockV6 v6 0 0 (if v6_link_local v6 then scope else 0))"

lemma str_find_absent: "d \<notin> set s \<Longrightarrow> str_find s [d] = None"
  by (induction s) (auto simp: starts_with_def)

lemma parse_host_v4: "parse_ip_host idx (v4_text v4) = Some (SockV4 v4 0)"
proof -
  have ok: "\<forall>c \<in> set (v4_text v4). addr_char c" using v4_text_addr by blast
  then have "str_trim (v4_text v4) = v4_text v4" by (intro trim_plain) (auto dest: addr_char_plain)
  then show ?thesis using addr_text_inner [OF ok] by (simp add: parse_ip_host_def parse_v4_text del: v4_text.simps)
qed

lemma parse_host_v6:
  assumes "to_ipv4_mapped v6 = None"
  shows "parse_ip_host idx (v6_text v6) = Some (SockV6 v6 0 0 0)"
proof -
  have ok: "\<forall>c \<in> set (v6_text v6). addr_char c" using v6_text_chars by blast
  then have "str_trim (v6_text v6) = v6_text v6" by (intro trim_plain) (auto dest: addr_char_plain)
  moreover have "split_once (v6_text v6) ''%'' = None"
    using addr_text_inner [OF ok] by (simp add: split_once_def str_find_absent)
  ultimately show ?thesis
    using addr_text_inner [OF ok] assms parse_v4_no_colon [OF v6_text_colon [of v6]]
    by (simp add: parse_ip_host_def Let_def parse_v6_text)
qed

lemma parse_host_scoped:
  fixes scope :: u32
  assumes "to_ipv4_mapped v6 = None"
  shows "parse_ip_host idx (v6_text v6 @ ''%'' @ show_nat (unat scope)) = Some (SockV6 v6 0 0 scope)"
proof -
  let ?s = "v6_text v6 @ ''%'' @ show_nat (unat scope)"
  have ok: "\<forall>c \<in> set (v6_text v6). addr_char c" using v6_text_chars by blast
  have digits: "\<forall>c \<in> set (show_nat (unat scope)). is_ascii_digit c" using show_nat_digits by blast
  have digit_plain: "is_ascii_digit c \<Longrightarrow> plain_char c" for c
    by (auto simp: is_ascii_digit_def plain_char_def char_byte_def)
  have "plain_char (CHR ''%'')" by (simp add: plain_char_def char_byte_def)
  then have "str_trim ?s = ?s" using ok digits
    by (intro trim_plain) (auto dest: addr_char_plain digit_plain)
  moreover have "strip_brackets ?s = ?s"
  proof -
    obtain c r where c: "v6_text v6 = c # r" using v6_text_colon [of v6] by (cases "v6_text v6") auto
    have "addr_char c" using ok unfolding c by simp
    then have "c \<noteq> CHR ''[''" by (intro notI) (simp add: addr_char_def)
    then show ?thesis by (simp add: strip_brackets_def c)
  qed
  moreover have "split_once ?s ''%'' = Some (v6_text v6, show_nat (unat scope))"
    using addr_text_inner [OF ok] by (simp add: split_once_char)
  moreover have "parse_unsigned (2 ^ 32 - 1) (show_nat (unat scope)) = Some (unat scope)"
    using unat_below [of scope] by (intro parse_unsigned_show) simp
  moreover have "parse_v4 ?s = None" by (rule parse_v4_no_colon) (simp add: v6_text_colon)
  ultimately show ?thesis using assms by (simp add: parse_ip_host_def Let_def parse_v6_text)
qed

text \<open>
  C32: host_round_trip. A Cast host string written by \<open>format_ip_host\<close> is read back by \<open>parse_ip_host\<close> as the same
  address, for every IPv4 and IPv6 address and whatever the interface table holds: the longest run of zero
  segments is compressed and expanded again, an IPv4-mapped address comes back as its IPv4 address, and a link-local
  address keeps its scope. Only what the text does not carry (port, flow, the scope of an address that is not
  link-local) is zero.
\<close>

theorem host_round_trip: "parse_ip_host idx (format_ip_host a) = Some (canonical_addr a)"
proof (cases a)
  case (SockV4 v4 port)
  then show ?thesis by (simp only: parse_host_v4 format_ip_host.simps canonical_addr.simps)
next
  case (SockV6 v6 port flow scope)
  show ?thesis
  proof (cases "to_ipv4_mapped v6")
    case (Some v4)
    then have "format_ip_host a = v4_text v4" "canonical_addr a = SockV4 v4 0" using SockV6 by simp_all
    then show ?thesis by (simp only: parse_host_v4)
  next
    case None
    show ?thesis
    proof (cases "v6_link_local v6 \<and> scope \<noteq> 0")
      case True
      then have "format_ip_host a = v6_text v6 @ ''%'' @ show_nat (unat scope)" using None SockV6 by simp
      moreover have "canonical_addr a = SockV6 v6 0 0 scope" using True None SockV6 by simp
      ultimately show ?thesis by (simp only: parse_host_scoped [OF None])
    next
      case False
      then have "format_ip_host a = v6_text v6" using None SockV6 by simp
      moreover have "canonical_addr a = SockV6 v6 0 0 0" using False None SockV6 by auto
      ultimately show ?thesis by (simp only: parse_host_v6 [OF None])
    qed
  qed
qed

section \<open>The choice among addresses\<close>

lemma min_by_rank_none: "min_by_rank xs = None \<longleftrightarrow> xs = []"
  by (induction xs) (auto split: option.splits if_splits)

lemma min_by_rank_some:
  "min_by_rank xs = Some y \<Longrightarrow>
     \<exists>before after. xs = before @ y # after \<and> (\<forall>x \<in> set before. fst y < fst x) \<and> (\<forall>x \<in> set after. fst y \<le> fst x)"
proof (induction xs arbitrary: y)
  case Nil
  then show ?case by simp
next
  case (Cons x xs)
  show ?case
  proof (cases "min_by_rank xs")
    case None
    then have "xs = []" "y = x" using Cons.prems by (simp_all add: min_by_rank_none)
    then show ?thesis by (intro exI [of _ "[]"]) simp
  next
    case (Some z)
    from Cons.IH [OF Some] obtain before after where parts:
      "xs = before @ z # after" "\<forall>x \<in> set before. fst z < fst x" "\<forall>x \<in> set after. fst z \<le> fst x" by blast
    show ?thesis
    proof (cases "fst x \<le> fst z")
      case True
      then have "y = x" using Cons.prems Some by simp
      then show ?thesis using parts True by (intro exI [of _ "[]"] exI [of _ xs]) auto
    next
      case False
      then have "y = z" using Cons.prems Some by simp
      then show ?thesis using parts False by (intro exI [of _ "x # before"] exI [of _ after]) auto
    qed
  qed
qed

lemma rank_bound: "cast_addr_rank l a = Some r \<Longrightarrow> r \<le> 3"
  by (cases "(l, a)" rule: cast_addr_rank.cases) (auto split: if_splits)

lemma map_filter_split:
  "List.map_filter f xs = before @ y # after \<Longrightarrow>
     \<exists>pre x post. xs = pre @ x # post \<and> f x = Some y \<and> List.map_filter f pre = before \<and> List.map_filter f post = after"
proof (induction xs arbitrary: before)
  case Nil
  then show ?case by (simp add: List.map_filter_def)
next
  case (Cons x xs)
  show ?case
  proof (cases "f x")
    case None
    then have "List.map_filter f xs = before @ y # after" using Cons.prems by (simp add: List.map_filter_def)
    from Cons.IH [OF this] obtain pre z post where
      "xs = pre @ z # post" "f z = Some y" "List.map_filter f pre = before" "List.map_filter f post = after" by blast
    then show ?thesis using None by (intro exI [of _ "x # pre"] exI [of _ z] exI [of _ post]) (simp add: List.map_filter_def)
  next
    case (Some v)
    show ?thesis
    proof (cases before)
      case Nil
      then show ?thesis using Cons.prems Some
        by (intro exI [of _ "[]"] exI [of _ x] exI [of _ xs]) (simp add: List.map_filter_def)
    next
      case (Cons b bs)
      then have b: "b = v" "List.map_filter f xs = bs @ y # after"
        using Cons.prems Some by (simp_all add: List.map_filter_def)
      from Cons.IH [OF b(2)] obtain pre z post where
        "xs = pre @ z # post" "f z = Some y" "List.map_filter f pre = bs" "List.map_filter f post = after" by blast
      then show ?thesis using Some Cons b(1)
        by (intro exI [of _ "x # pre"] exI [of _ z] exI [of _ post]) (simp add: List.map_filter_def)
    qed
  qed
qed

text \<open>
  select_best_addr. Among the addresses a name resolves to, \<open>select_cast_addr\<close> takes a usable one whenever
  there is one, never an unspecified, multicast, broadcast or unscoped link-local address, of the best rank (the
  host's own /24, then other IPv4, then routable IPv6, then scoped link-local IPv6), and the first of the resolver's
  order among equals; it gives nothing only when no candidate is usable.
\<close>

theorem select_best_addr:
  "case select_cast_addr candidates local_v4 of
     None \<Rightarrow> \<forall>a \<in> set candidates. cast_addr_rank local_v4 (unmap_ipv4 a) = None
   | Some best \<Rightarrow>
       \<exists>before chosen after rank.
         candidates = before @ chosen # after \<and> best = unmap_ipv4 chosen \<and> cast_addr_rank local_v4 best = Some rank \<and>
         (\<forall>a \<in> set before. \<forall>r. cast_addr_rank local_v4 (unmap_ipv4 a) = Some r \<longrightarrow> rank < r) \<and>
         (\<forall>a \<in> set after. \<forall>r. cast_addr_rank local_v4 (unmap_ipv4 a) = Some r \<longrightarrow> rank \<le> r)"
proof -
  define f where "f = (\<lambda>a. map_option (\<lambda>rank. (rank, unmap_ipv4 a)) (cast_addr_rank local_v4 (unmap_ipv4 a)))"
  have eq: "select_cast_addr candidates local_v4 = map_option snd (min_by_rank (List.map_filter f candidates))"
    by (simp add: select_cast_addr_def f_def List.map_filter_def filter_map comp_def)
  have mem: "cast_addr_rank local_v4 (unmap_ipv4 a) = Some r \<Longrightarrow> a \<in> set as \<Longrightarrow>
      (r, unmap_ipv4 a) \<in> set (List.map_filter f as)" for a r as
    by (force simp: List.map_filter_def f_def)
  show ?thesis
  proof (cases "min_by_rank (List.map_filter f candidates)")
    case None
    then have "List.map_filter f candidates = []" by (simp add: min_by_rank_none)
    then have "cast_addr_rank local_v4 (unmap_ipv4 a) = None" if "a \<in> set candidates" for a
      using mem [OF _ that] by (cases "cast_addr_rank local_v4 (unmap_ipv4 a)") auto
    then show ?thesis using eq None by simp
  next
    case (Some y)
    from min_by_rank_some [OF Some] obtain before after where parts:
      "List.map_filter f candidates = before @ y # after"
      "\<forall>x \<in> set before. fst y < fst x" "\<forall>x \<in> set after. fst y \<le> fst x" by blast
    from map_filter_split [OF parts(1)] obtain pre x post where x:
      "candidates = pre @ x # post" "f x = Some y" "List.map_filter f pre = before" "List.map_filter f post = after"
      by blast
    have best: "snd y = unmap_ipv4 x" "cast_addr_rank local_v4 (snd y) = Some (fst y)"
      using x(2) by (auto simp: f_def)
    have "\<forall>a \<in> set pre. \<forall>r. cast_addr_rank local_v4 (unmap_ipv4 a) = Some r \<longrightarrow> fst y < r"
      using mem [of _ _ pre] parts(2) x(3) by fastforce
    moreover have "\<forall>a \<in> set post. \<forall>r. cast_addr_rank local_v4 (unmap_ipv4 a) = Some r \<longrightarrow> fst y \<le> r"
      using mem [of _ _ post] parts(3) x(4) by fastforce
    ultimately show ?thesis using eq Some x(1) best by auto
  qed
qed

text \<open>At a name with an IPv6 address, a foreign IPv4 address and one of the host's subnet, the last is chosen.\<close>

theorem select_best_addr_witness:
  "select_cast_addr [SockV6 (Ipv6 0x2001 0xdb8 0 0 0 0 0 1) 0 0 0, SockV4 (Ipv4 10 0 0 9) 0, SockV4 (Ipv4 192 168 1 7) 0]
     (Some (Ipv4 192 168 1 2)) = Some (SockV4 (Ipv4 192 168 1 7) 0) \<and>
   select_cast_addr [SockV4 (Ipv4 0 0 0 0) 80] None = None"
  using select_best_addr [of "[SockV6 (Ipv6 0x2001 0xdb8 0 0 0 0 0 1) 0 0 0, SockV4 (Ipv4 10 0 0 9) 0,
      SockV4 (Ipv4 192 168 1 7) 0]" "Some (Ipv4 192 168 1 2)"] select_best_addr [of "[SockV4 (Ipv4 0 0 0 0) 80]" None]
  by (auto simp: select_cast_addr_def List.map_filter_def v4_unspecified_def v4_broadcast_def v6_unspecified_def)

end
