(* ===== verification/Net_Local.thy ===== *)
theory Net_Local
  imports Net_Text "HOL-Library.Product_Lexorder"
begin

text \<open>
  The local side of the network (\<open>src/net.rs\<close>): which of the host's addresses to advertise and to dial from,
  the dial itself, the wake probes, the relay's shutdown handles and copy loop, the macOS permission diagnosis, and
  the socket kick through \<open>ss\<close>. What the operating system answers (interface list, route table text, resolver,
  socket calls) is an argument.
\<close>

section \<open>The order of addresses\<close>

text \<open>\<open>Ord\<close> of \<open>Ipv4Addr\<close> compares the octets in order.\<close>

instantiation ipv4 :: linorder
begin

definition less_eq_ipv4 :: "ipv4 \<Rightarrow> ipv4 \<Rightarrow> bool" where
  "less_eq_ipv4 a b \<longleftrightarrow> v4_octets a \<le> v4_octets b"

definition less_ipv4 :: "ipv4 \<Rightarrow> ipv4 \<Rightarrow> bool" where
  "less_ipv4 a b \<longleftrightarrow> v4_octets a < v4_octets b"

instance
proof
  have inj: "v4_octets a = v4_octets b \<Longrightarrow> a = b" for a b by (cases a; cases b) simp
  fix a b c :: ipv4
  show "(a < b) = (a \<le> b \<and> \<not> b \<le> a)" by (auto simp: less_eq_ipv4_def less_ipv4_def)
  show "a \<le> a" by (simp add: less_eq_ipv4_def)
  show "a \<le> b \<Longrightarrow> b \<le> c \<Longrightarrow> a \<le> c" by (auto simp: less_eq_ipv4_def)
  show "a \<le> b \<Longrightarrow> b \<le> a \<Longrightarrow> a = b" by (auto simp: less_eq_ipv4_def intro: inj)
  show "a \<le> b \<or> b \<le> a" by (auto simp: less_eq_ipv4_def)
qed

end

fun v4_bits :: "ipv4 \<Rightarrow> u32" where
  "v4_bits (Ipv4 a b c d) =
     or (push_bit 24 (ucast a)) (or (push_bit 16 (ucast b)) (or (push_bit 8 (ucast c)) (ucast d)))"

datatype ip_addr = IpV4 ipv4 | IpV6 ipv6

fun set_port :: "u16 \<Rightarrow> socket_addr \<Rightarrow> socket_addr" where
  "set_port p (SockV4 a port) = SockV4 a p"
| "set_port p (SockV6 a port flow scope) = SockV6 a p flow scope"

fun addr_ip :: "socket_addr \<Rightarrow> ip_addr" where
  "addr_ip (SockV4 a port) = IpV4 a"
| "addr_ip (SockV6 a port flow scope) = IpV6 a"

section \<open>Interfaces\<close>

text \<open>An entry of the interface list: \<open>IfV4\<close> has the address and its netmask.\<close>

datatype if_addr = IfV4 ipv4 ipv4 | IfV6 ipv6

record iface =
  iface_name :: string
  iface_index :: "u32 option"
  iface_addr :: if_addr
  iface_loopback :: bool

text \<open>What the operating system knows: the interface list (\<open>None\<close> when it cannot be read), the text of
  \<open>/proc/net/route\<close>, the resolver, and the local address a UDP socket connected to a destination gets.\<close>

record net_env =
  env_ifaces :: "iface list option"
  env_routes :: "string option"
  env_lookup :: "string \<Rightarrow> socket_addr list option"
  env_udp :: "socket_addr \<Rightarrow> ip_addr option"

definition interface_index :: "net_env \<Rightarrow> string \<Rightarrow> u32 option" where
  "interface_index env n =
     Option.bind (env_ifaces env) (\<lambda>ifs. Option.bind (find (\<lambda>i. iface_name i = n) ifs) iface_index)"

definition is_blacklisted_iface :: "string \<Rightarrow> bool" where
  "is_blacklisted_iface n \<longleftrightarrow>
     n = ''docker0'' \<or> n = ''hassio'' \<or> starts_with n ''veth'' \<or> starts_with n ''br-'' \<or> starts_with n ''tun'' \<or>
     starts_with n ''tap'' \<or> starts_with n ''wg'' \<or> starts_with n ''tailscale''"

definition iface_preference :: "string \<Rightarrow> int" where
  "iface_preference n =
     (if is_blacklisted_iface n then -1
      else if n = ''en0'' \<or> n = ''eth0'' \<or> n = ''end0'' then 0
      else if starts_with n ''en'' \<or> starts_with n ''eth'' \<or> starts_with n ''end'' then
        (if n = ''en7'' \<or> n = ''en8'' \<or> n = ''en9'' then 50 else 10)
      else if starts_with n ''wlan'' \<or> starts_with n ''wlp'' then 5
      else if starts_with n ''bridge'' \<or> starts_with n ''vmenet'' \<or> starts_with n ''utun'' \<or> starts_with n ''awdl'' then -1
      else 40)"

definition is_advertiseable_v4 :: "ipv4 \<Rightarrow> bool" where
  "is_advertiseable_v4 a \<longleftrightarrow> \<not> v4_unspecified a \<and> \<not> v4_loopback a \<and> \<not> v4_multicast a \<and> \<not> v4_broadcast a"

definition is_routable_v6 :: "ipv6 \<Rightarrow> bool" where
  "is_routable_v6 a \<longleftrightarrow> \<not> v6_unspecified a \<and> \<not> v6_loopback a \<and> \<not> v6_multicast a \<and> \<not> v6_link_local a"

section \<open>The default route\<close>

text \<open>The scan of \<open>/proc/net/route\<close> stops, with no answer, at a line of fewer than two columns.\<close>

fun default_iface :: "string list \<Rightarrow> string option" where
  "default_iface [] = None"
| "default_iface (l # ls) =
     (case split_whitespace l of
        n # dest # cols \<Rightarrow> if dest \<noteq> ''00000000'' then default_iface ls else Some n
      | _ \<Rightarrow> None)"

definition default_route_ipv4_linux :: "net_env \<Rightarrow> ipv4 option" where
  "default_route_ipv4_linux env =
     (case env_routes env of None \<Rightarrow> None
      | Some content \<Rightarrow>
          (case default_iface (drop 1 (str_lines content)) of None \<Rightarrow> None
           | Some n \<Rightarrow>
               (case env_ifaces env of None \<Rightarrow> None
                | Some ifs \<Rightarrow>
                    (case List.map_filter (\<lambda>i. case iface_addr i of
                         IfV4 a m \<Rightarrow> if iface_name i = n \<and> is_advertiseable_v4 a then Some a else None
                       | IfV6 a \<Rightarrow> None) ifs
                     of [] \<Rightarrow> None | a # as \<Rightarrow> Some a))))"

section \<open>Ranking the local addresses\<close>

definition i32_min :: int where
  "i32_min = - (2 ^ 31)"

definition i32_saturating_sub :: "int \<Rightarrow> int \<Rightarrow> int" where
  "i32_saturating_sub a b = max i32_min (a - b)"

fun v4_link_local :: "ipv4 \<Rightarrow> bool" where
  "v4_link_local (Ipv4 a b c d) = (a = 169 \<and> b = 254)"

definition same_subnet :: "ipv4 \<Rightarrow> ipv4 \<Rightarrow> ipv4 \<Rightarrow> bool" where
  "same_subnet ip netmask peer \<longleftrightarrow>
     and (v4_bits ip) (v4_bits netmask) = and (v4_bits peer) (v4_bits netmask) \<or> same_class_c ip peer"

definition iface_score :: "ipv4 option \<Rightarrow> ipv4 option \<Rightarrow> iface \<Rightarrow> (int \<times> ipv4) option" where
  "iface_score default_ip peer i =
     (if iface_loopback i then None
      else case iface_addr i of IfV6 a \<Rightarrow> None
      | IfV4 ip netmask \<Rightarrow>
          if \<not> is_advertiseable_v4 ip then None
          else if v4_link_local ip then None
          else
            let score = iface_preference (iface_name i)
            in if score < 0 then None
               else
                 let rank1 = (case peer of None \<Rightarrow> score
                              | Some p \<Rightarrow> if same_subnet ip netmask p then i32_saturating_sub score 100 else score);
                     rank2 = (if default_ip = Some ip then i32_saturating_sub rank1 20 else rank1)
                 in Some (rank2, ip))"

definition push_new :: "'a \<Rightarrow> 'a list \<Rightarrow> 'a list" where
  "push_new x out = (if x \<in> set out then out else out @ [x])"

definition preferred_local_ipv4s_for_peer :: "net_env \<Rightarrow> ipv4 option \<Rightarrow> ipv4 list" where
  "preferred_local_ipv4s_for_peer env peer =
     (case env_ifaces env of None \<Rightarrow> []
      | Some ifs \<Rightarrow>
          let scored = List.map_filter (iface_score (default_route_ipv4_linux env) peer) ifs
          in fold (\<lambda>(rank, ip). push_new ip) (sort_key (\<lambda>x. x) scored) [])"

definition preferred_local_ipv4s :: "net_env \<Rightarrow> ipv4 list" where
  "preferred_local_ipv4s env = preferred_local_ipv4s_for_peer env None"

section \<open>The host to advertise\<close>

definition udp_discover_ipv4 :: "net_env \<Rightarrow> ipv4 \<Rightarrow> u16 \<Rightarrow> ipv4 option" where
  "udp_discover_ipv4 env dest port =
     (case env_udp env (SockV4 dest port) of
        Some (IpV4 a) \<Rightarrow> if is_advertiseable_v4 a then Some a else None
      | _ \<Rightarrow> None)"

definition advertise_host_ip :: "net_env \<Rightarrow> string" where
  "advertise_host_ip env =
     (case preferred_local_ipv4s env of ip # ips \<Rightarrow> v4_text ip
      | [] \<Rightarrow> (case udp_discover_ipv4 env (Ipv4 8 8 8 8) 80 of Some ip \<Rightarrow> v4_text ip
              | None \<Rightarrow> v4_text (Ipv4 127 0 0 1)))"

definition routable_ipv6_on_interface :: "net_env \<Rightarrow> u32 \<Rightarrow> ipv6 option" where
  "routable_ipv6_on_interface env index =
     (if index = 0 then None
      else case env_ifaces env of None \<Rightarrow> None
      | Some ifs \<Rightarrow>
          (case List.map_filter (\<lambda>i. case iface_addr i of
               IfV6 a \<Rightarrow> if is_routable_v6 a then Some a else None | IfV4 a m \<Rightarrow> None)
             (filter (\<lambda>i. iface_index i = Some index) ifs)
           of [] \<Rightarrow> None | a # as \<Rightarrow> Some a))"

definition advertise_ipv6_for_peer :: "net_env \<Rightarrow> ipv6 \<Rightarrow> u32 \<Rightarrow> u32 \<Rightarrow> ipv6 option" where
  "advertise_ipv6_for_peer env peer flow scope =
     (case env_udp env (SockV6 peer 8009 flow scope) of
        Some (IpV6 source) \<Rightarrow>
          if v6_unspecified source then None
          else if \<not> v6_link_local source then Some source
          else (case routable_ipv6_on_interface env scope of Some a \<Rightarrow> Some a | None \<Rightarrow> Some source)
      | _ \<Rightarrow> None)"

definition resolve_addr :: "net_env \<Rightarrow> string \<Rightarrow> socket_addr option" where
  "resolve_addr env = resolve_host_addr (interface_index env) (env_lookup env)"

definition advertise_host_for_peer :: "net_env \<Rightarrow> string \<Rightarrow> string" where
  "advertise_host_for_peer env peer_host =
     (let peer = trim_end_char (CHR ''.'') (str_trim peer_host) in
      if peer = [] then advertise_host_ip env
      else case resolve_addr env peer of
        Some (SockV4 ip port) \<Rightarrow>
          (case preferred_local_ipv4s_for_peer env (Some ip) of l # ls \<Rightarrow> v4_text l
           | [] \<Rightarrow> (case udp_discover_ipv4 env ip 8009 of Some l \<Rightarrow> v4_text l | None \<Rightarrow> advertise_host_ip env))
      | Some (SockV6 ip port flow scope) \<Rightarrow>
          (case advertise_ipv6_for_peer env ip flow scope of
             Some l \<Rightarrow> ''['' @ v6_text l @ '']'' | None \<Rightarrow> advertise_host_ip env)
      | None \<Rightarrow> advertise_host_ip env)"

section \<open>Dialling\<close>

datatype io_error_kind = KindWouldBlock | KindTimedOut | KindInterrupted | KindInvalidData | KindAddrNotAvailable | KindOther

record io_error =
  io_kind :: io_error_kind
  raw_os_error :: "int option"

definition resolve_dest_addr :: "net_env \<Rightarrow> string \<Rightarrow> u16 \<Rightarrow> io_error + socket_addr" where
  "resolve_dest_addr env host port =
     (case resolve_addr env host of
        None \<Rightarrow> Inl \<lparr>io_kind = KindAddrNotAvailable, raw_os_error = None\<rparr>
      | Some a \<Rightarrow> Inr (set_port port a))"

text \<open>A connected stream with the local address reported, and whether keepalive probes were asked for.
  \<open>connect\<close> is \<open>tcp_connect_from\<close>: the outcome of dialling \<open>dest\<close> from a source address.\<close>

type_synonym 's dialled = "'s \<times> ip_addr \<times> bool"

definition tcp_connect_cast_unbound ::
  "(ipv4 option \<Rightarrow> socket_addr \<Rightarrow> io_error + 's) \<Rightarrow> ('s \<Rightarrow> ip_addr option) \<Rightarrow> socket_addr \<Rightarrow> bool \<Rightarrow> io_error option \<Rightarrow>
   io_error + 's dialled" where
  "tcp_connect_cast_unbound connect local_ip dest keepalive last_err =
     (case connect None dest of
        Inr stream \<Rightarrow>
          Inr (stream, (case local_ip stream of Some ip \<Rightarrow> ip | None \<Rightarrow> IpV4 (Ipv4 0 0 0 0)), keepalive)
      | Inl err \<Rightarrow> Inl (case last_err of Some e \<Rightarrow> e | None \<Rightarrow> err))"

fun dial_each ::
  "(ipv4 option \<Rightarrow> socket_addr \<Rightarrow> io_error + 's) \<Rightarrow> ('s \<Rightarrow> ip_addr option) \<Rightarrow> socket_addr \<Rightarrow> ipv4 list \<Rightarrow> io_error option \<Rightarrow>
   io_error + 's dialled" where
  "dial_each connect local_ip dest [] last_err = tcp_connect_cast_unbound connect local_ip dest True last_err"
| "dial_each connect local_ip dest (l # ls) last_err =
     (case connect (Some l) dest of
        Inr stream \<Rightarrow> Inr (stream, IpV4 l, True)
      | Inl err \<Rightarrow> dial_each connect local_ip dest ls (Some err))"

definition tcp_connect_cast_bound ::
  "net_env \<Rightarrow> (ipv4 option \<Rightarrow> socket_addr \<Rightarrow> io_error + 's) \<Rightarrow> ('s \<Rightarrow> ip_addr option) \<Rightarrow> string \<Rightarrow> u16 \<Rightarrow>
   io_error + 's dialled" where
  "tcp_connect_cast_bound env connect local_ip dest_host dest_port =
     (case resolve_dest_addr env dest_host dest_port of
        Inl err \<Rightarrow> Inl err
      | Inr (SockV6 ip port flow scope) \<Rightarrow>
          tcp_connect_cast_unbound connect local_ip (SockV6 ip port flow scope) (\<not> v6_loopback ip) None
      | Inr (SockV4 ip port) \<Rightarrow>
          let dest = SockV4 ip port; lo = Ipv4 127 0 0 1
          in if v4_loopback ip then
               (case connect (Some lo) dest of
                  Inr stream \<Rightarrow> Inr (stream, IpV4 lo, False)
                | Inl err \<Rightarrow>
                    (case connect None dest of
                       Inl err \<Rightarrow> Inl err | Inr stream \<Rightarrow> Inr (stream, IpV4 lo, False)))
             else dial_each connect local_ip dest (preferred_local_ipv4s_for_peer env (Some ip)) None)"

datatype probe = UdpPoke socket_addr | TcpSyn "ipv4 option" socket_addr

definition wake_cast_host :: "net_env \<Rightarrow> string \<Rightarrow> probe list" where
  "wake_cast_host env host =
     (case resolve_addr env host of None \<Rightarrow> []
      | Some addr \<Rightarrow>
          let dest = set_port 8009 addr
          in [UdpPoke dest]
             @ (case dest of SockV4 ip port \<Rightarrow> map (\<lambda>l. TcpSyn (Some l) dest) (preferred_local_ipv4s_for_peer env (Some ip))
                | SockV6 ip port flow scope \<Rightarrow> [])
             @ [TcpSyn None dest])"

section \<open>Socket options\<close>

definition CAST_RELAY_IO_TIMEOUT :: duration where
  "CAST_RELAY_IO_TIMEOUT = from_secs 12"

definition CAST_TCP_KEEPALIVE_TIME :: duration where
  "CAST_TCP_KEEPALIVE_TIME = from_secs 30"

definition CAST_TCP_KEEPALIVE_INTERVAL :: duration where
  "CAST_TCP_KEEPALIVE_INTERVAL = from_secs 10"

datatype socket_option = ReadTimeout "duration option" | WriteTimeout "duration option" | Keepalive duration duration

text \<open>\<open>cloned\<close>: whether the stream could be cloned for the keepalive setting.\<close>

definition apply_cast_socket_options :: "bool \<Rightarrow> bool \<Rightarrow> socket_option list" where
  "apply_cast_socket_options cloned keepalive =
     [ReadTimeout (Some CAST_RELAY_IO_TIMEOUT), WriteTimeout (Some CAST_RELAY_IO_TIMEOUT)]
     @ (if keepalive \<and> cloned then [Keepalive CAST_TCP_KEEPALIVE_TIME CAST_TCP_KEEPALIVE_INTERVAL] else [])"

section \<open>The relay's shutdown handles\<close>

record 's relay_ends =
  relay_remote :: "'s option"
  relay_client :: "'s option"

datatype 's socket_call = ShutdownBoth 's | SetOption 's socket_option

definition relay_new :: "'s relay_ends" where
  "relay_new = \<lparr>relay_remote = None, relay_client = None\<rparr>"

definition relay_set_remote :: "'s \<Rightarrow> 's relay_ends \<Rightarrow> 's relay_ends" where
  "relay_set_remote stream r = r\<lparr>relay_remote := Some stream\<rparr>"

definition relay_set_client :: "'s \<Rightarrow> 's relay_ends \<Rightarrow> 's relay_ends" where
  "relay_set_client stream r = r\<lparr>relay_client := Some stream\<rparr>"

definition relay_shutdown :: "'s relay_ends \<Rightarrow> 's relay_ends \<times> 's socket_call list" where
  "relay_shutdown r =
     (r\<lparr>relay_remote := None, relay_client := None\<rparr>,
      (case relay_remote r of None \<Rightarrow> [] | Some x \<Rightarrow> [ShutdownBoth x])
      @ (case relay_client r of None \<Rightarrow> [] | Some x \<Rightarrow> [ShutdownBoth x]))"

definition set_client_read_timeout :: "duration option \<Rightarrow> 's relay_ends \<Rightarrow> 's socket_call list" where
  "set_client_read_timeout timeout r =
     (case relay_client r of None \<Rightarrow> [] | Some x \<Rightarrow> [SetOption x (ReadTimeout timeout)])"

definition restore_client_read_timeout :: "'s relay_ends \<Rightarrow> 's socket_call list" where
  "restore_client_read_timeout r = set_client_read_timeout (Some CAST_RELAY_IO_TIMEOUT) r"

section \<open>The copy loop\<close>

text \<open>One direction of the relay, on the sequence of what \<open>read\<close> returns: bytes (at most the 8 KiB buffer; no
  bytes is the end), or an error. \<open>write\<close> is \<open>write_all\<close>, on the bytes written before: an error or success. The
  result is the bytes the writer has accepted, and how the loop ended; \<open>None\<close> when the reads run out first (the
  loop is still waiting).\<close>

datatype read_result = ReadBytes "u8 list" | ReadError io_error

definition COPY_BUFFER :: nat where
  "COPY_BUFFER = 8 * 1024"

fun copy_ignoring_idle_timeouts ::
  "(u8 list \<Rightarrow> u8 list \<Rightarrow> io_error option) \<Rightarrow> u64 \<Rightarrow> u8 list \<Rightarrow> read_result list \<Rightarrow> u8 list \<times> (io_error + u64) option" where
  "copy_ignoring_idle_timeouts write n out [] = (out, None)"
| "copy_ignoring_idle_timeouts write n out (ReadBytes chunk # rs) =
     (if chunk = [] then (out, Some (Inr n))
      else if COPY_BUFFER < length chunk then (out, Some (Inl \<lparr>io_kind = KindInvalidData, raw_os_error = None\<rparr>))
      else case write out chunk of Some err \<Rightarrow> (out, Some (Inl err))
           | None \<Rightarrow>
               copy_ignoring_idle_timeouts write (saturating_add n (of_nat (length chunk))) (out @ chunk) rs)"
| "copy_ignoring_idle_timeouts write n out (ReadError err # rs) =
     (if io_kind err = KindWouldBlock \<or> io_kind err = KindTimedOut then copy_ignoring_idle_timeouts write n out rs
      else if io_kind err = KindInterrupted then copy_ignoring_idle_timeouts write n out rs
      else (out, Some (Inl err)))"

section \<open>The macOS permission diagnosis\<close>

definition MACOS_EHOSTUNREACH :: int where
  "MACOS_EHOSTUNREACH = 65"

definition macos_local_network_permission_signature :: "nat \<Rightarrow> u32 \<Rightarrow> bool" where
  "macos_local_network_permission_signature distinct_hosts consecutive \<longleftrightarrow> 2 \<le> distinct_hosts \<or> 3 \<le> consecutive"

text \<open>The diagnosis state, and whether the one-shot message is out.\<close>

record macos_diag =
  hosts_with_ehostunreach :: "ip_addr list"
  last_host :: "ip_addr option"
  consecutive_on_host :: u32
  diag_done :: bool

definition macos_diag_new :: macos_diag where
  "macos_diag_new = \<lparr>hosts_with_ehostunreach = [], last_host = None, consecutive_on_host = 0, diag_done = False\<rparr>"

definition note_macos_local_network_diag :: "ip_addr \<Rightarrow> io_error \<Rightarrow> macos_diag \<Rightarrow> macos_diag \<times> bool" where
  "note_macos_local_network_diag dest err d =
     (if raw_os_error err = Some MACOS_EHOSTUNREACH then
        let hosts = push_new dest (hosts_with_ehostunreach d);
            n = (if last_host d = Some dest then saturating_add (consecutive_on_host d) 1 else 1);
            d1 = d\<lparr>hosts_with_ehostunreach := hosts, last_host := Some dest, consecutive_on_host := n\<rparr>
        in if macos_local_network_permission_signature (length hosts) n
           then (d1\<lparr>diag_done := True\<rparr>, \<not> diag_done d) else (d1, False)
      else (d\<lparr>consecutive_on_host := 0, last_host := None\<rparr>, False))"

section \<open>Closing sockets through ss\<close>

definition is_ss_socket_line :: "string \<Rightarrow> bool" where
  "is_ss_socket_line line =
     (let trimmed = str_trim line in
      if trimmed = [] then False
      else let first = (case split_whitespace trimmed of [] \<Rightarrow> [] | w # ws \<Rightarrow> w);
               lower = to_ascii_lowercase first
           in lower \<noteq> ''netid'' \<and> lower \<noteq> ''state'')"

definition count_ss_socket_lines :: "string \<Rightarrow> nat" where
  "count_ss_socket_lines out = length (filter is_ss_socket_line (str_lines out))"

text \<open>\<open>run_ss no_header\<close>: the exit success and output of \<open>ss -K\<close>, with or without \<open>-H\<close>; \<open>None\<close> when it cannot be
  started.\<close>

datatype ss_outcome = SsMissing | SsFailed | SsClosed nat

definition force_close_tcp :: "(bool \<Rightarrow> (bool \<times> string) option) \<Rightarrow> ss_outcome" where
  "force_close_tcp run_ss =
     (case run_ss True of None \<Rightarrow> SsMissing
      | Some (True, out) \<Rightarrow> SsClosed (count_ss_socket_lines out)
      | Some (False, out) \<Rightarrow>
          (case run_ss False of None \<Rightarrow> SsMissing
           | Some (success, out) \<Rightarrow> if success then SsClosed (count_ss_socket_lines out) else SsFailed))"

end
