(* ===== verification/Net_Promises.thy ===== *)
theory Net_Promises
  imports Net_Local
begin

text \<open>
  What the local side of the network promises: the ranking of source addresses, the order in which a dial tries
  them and the error it reports, and the relay's copy loop.
\<close>

section \<open>Pushing without duplicates\<close>

lemma fold_push_new:
  "\<exists>zs. fold push_new xs acc = acc @ zs \<and> set zs = set xs - set acc \<and> (distinct acc \<longrightarrow> distinct (acc @ zs))"
proof (induction xs arbitrary: acc)
  case Nil
  then show ?case by simp
next
  case (Cons x xs)
  show ?case
  proof (cases "x \<in> set acc")
    case True
    then show ?thesis using Cons.IH [of acc] by (auto simp: push_new_def)
  next
    case False
    from Cons.IH [of "acc @ [x]"] obtain zs where zs: "fold push_new xs (acc @ [x]) = (acc @ [x]) @ zs"
      "set zs = set xs - set (acc @ [x])" "distinct (acc @ [x]) \<longrightarrow> distinct ((acc @ [x]) @ zs)" by blast
    have "fold push_new (x # xs) acc = acc @ x # zs" using False zs(1) by (simp add: push_new_def)
    moreover have "set (x # zs) = set (x # xs) - set acc" using False zs(2) by auto
    moreover have "distinct acc \<longrightarrow> distinct (acc @ x # zs)" using False zs(3) by simp
    ultimately show ?thesis by blast
  qed
qed

lemma push_pairs: "fold (\<lambda>(r, ip). push_new ip) xs acc = fold push_new (map snd xs) acc"
  by (induction xs arbitrary: acc) auto

section \<open>Which addresses are ranked\<close>

definition usable_iface :: "iface \<Rightarrow> ipv4 \<Rightarrow> ipv4 \<Rightarrow> bool" where
  "usable_iface i ip netmask \<longleftrightarrow>
     \<not> iface_loopback i \<and> iface_addr i = IfV4 ip netmask \<and> is_advertiseable_v4 ip \<and> \<not> v4_link_local ip \<and>
     0 \<le> iface_preference (iface_name i)"

definition usable_address :: "iface list \<Rightarrow> ipv4 \<Rightarrow> bool" where
  "usable_address ifs ip \<longleftrightarrow> (\<exists>i \<in> set ifs. \<exists>netmask. usable_iface i ip netmask)"

text \<open>The address is on the peer's network, through one of the interfaces that have it.\<close>

definition near_address :: "iface list \<Rightarrow> ipv4 \<Rightarrow> ipv4 \<Rightarrow> bool" where
  "near_address ifs peer ip \<longleftrightarrow>
     (\<exists>i \<in> set ifs. \<exists>netmask. usable_iface i ip netmask \<and> same_subnet ip netmask peer)"

lemma preference_bound: "iface_preference n \<le> 50"
proof -
  have bound: "a \<le> k \<Longrightarrow> b \<le> k \<Longrightarrow> (if c then a else b) \<le> k" for a b k :: int and c by simp
  show ?thesis unfolding iface_preference_def by (intro bound) simp_all
qed

lemma score_some:
  assumes "iface_score d (Some p) i = Some (r, ip)"
  shows "\<exists>netmask. usable_iface i ip netmask \<and> (if same_subnet ip netmask p then r \<le> -50 else -20 \<le> r)"
proof -
  define s where "s = iface_preference (iface_name i)"
  have s50: "s \<le> 50" unfolding s_def by (rule preference_bound)
  show ?thesis
  proof (cases "iface_addr i")
    case (IfV6 a)
    then show ?thesis using assms by (simp add: iface_score_def split: if_splits)
  next
    case (IfV4 a m)
    have ok1: "\<not> iface_loopback i" by (rule ccontr) (use assms in \<open>simp add: iface_score_def\<close>)
    have ok2: "is_advertiseable_v4 a" by (rule ccontr) (use assms IfV4 ok1 in \<open>simp add: iface_score_def\<close>)
    have ok3: "\<not> v4_link_local a" by (rule ccontr) (use assms IfV4 ok1 in \<open>simp add: iface_score_def split: if_splits\<close>)
    have ok4: "0 \<le> s"
      unfolding s_def by (rule ccontr) (use assms IfV4 ok1 ok2 ok3 in \<open>simp add: iface_score_def\<close>)
    note ok = ok1 ok2 ok3 ok4
    define r1 where "r1 = (if same_subnet a m p then i32_saturating_sub s 100 else s)"
    have "(r, ip) = (if d = Some a then i32_saturating_sub r1 20 else r1, a)"
      using assms ok by (simp add: iface_score_def IfV4 Let_def s_def r1_def split: if_splits)
    then have ip: "ip = a" and r: "r = (if d = Some a then i32_saturating_sub r1 20 else r1)" by simp_all
    have r1: "if same_subnet a m p then r1 = s - 100 else r1 = s"
      using s50 ok(4) by (simp add: r1_def i32_saturating_sub_def i32_min_def)
    have "r = r1 \<or> r = r1 - 20" using r r1 s50 ok(4)
      by (cases "same_subnet a m p") (auto simp: i32_saturating_sub_def i32_min_def)
    then have "if same_subnet a m p then r \<le> -50 else -20 \<le> r" using r1 s50 ok(4) by (auto split: if_splits)
    then show ?thesis using ok ip IfV4 unfolding s_def by (auto simp: usable_iface_def)
  qed
qed

lemma score_usable: "usable_iface i ip netmask \<Longrightarrow> \<exists>r. iface_score d p i = Some (r, ip)"
  by (simp add: iface_score_def usable_iface_def Let_def)

lemma sorted_pairs_split:
  fixes xs :: "(int \<times> 'a::linorder) list"
  assumes "sorted xs"
  shows "xs = filter (\<lambda>x. fst x < b) xs @ filter (\<lambda>x. \<not> fst x < b) xs"
  using assms
proof (induction xs)
  case Nil
  then show ?case by simp
next
  case (Cons x xs)
  show ?case
  proof (cases "fst x < b")
    case True
    then show ?thesis using Cons by simp
  next
    case False
    then have "\<forall>y \<in> set xs. \<not> fst y < b" using Cons.prems by (fastforce simp: less_eq_prod_def)
    then have "filter (\<lambda>x. fst x < b) xs = []" "filter (\<lambda>x. \<not> fst x < b) xs = xs"
      by (simp_all add: filter_empty_conv)
    then show ?thesis using False by simp
  qed
qed

text \<open>
  C33: near_sources_first. For a Cast device with address \<open>peer\<close>, the ranked local addresses are exactly the usable
  IPv4 addresses of the host (never loopback, link-local, unspecified, multicast or broadcast, never on a container,
  bridge or tunnel interface), each once, and every address on the device's own network comes before every other:
  neither the preference for primary interfaces nor the default route can put a foreign network first.
\<close>

theorem near_sources_first:
  assumes "env_ifaces env = Some ifs"
  shows "distinct (preferred_local_ipv4s_for_peer env (Some peer)) \<and>
    set (preferred_local_ipv4s_for_peer env (Some peer)) = {ip. usable_address ifs ip} \<and>
    preferred_local_ipv4s_for_peer env (Some peer)
      = filter (near_address ifs peer) (preferred_local_ipv4s_for_peer env (Some peer))
        @ filter (\<lambda>ip. \<not> near_address ifs peer ip) (preferred_local_ipv4s_for_peer env (Some peer))"
proof -
  define scored where "scored = List.map_filter (iface_score (default_route_ipv4_linux env) (Some peer)) ifs"
  define xs where "xs = sort_key (\<lambda>x. x) scored"
  define out where "out = preferred_local_ipv4s_for_peer env (Some peer)"
  have set_xs: "set xs = set scored" by (simp add: xs_def)
  have out: "out = fold push_new (map snd xs) []"
    using assms by (simp add: out_def preferred_local_ipv4s_for_peer_def xs_def scored_def push_pairs)
  have entry: "\<exists>i \<in> set ifs. \<exists>netmask. usable_iface i ip netmask \<and> (if same_subnet ip netmask peer then r \<le> -50 else -20 \<le> r)"
    if "(r, ip) \<in> set xs" for r ip
    using that score_some unfolding set_xs by (fastforce simp: scored_def List.map_filter_def)
  have listed: "\<exists>r. (r, ip) \<in> set xs \<and> (same_subnet ip netmask peer \<longrightarrow> r \<le> -50)"
    if mem: "i \<in> set ifs" and usable: "usable_iface i ip netmask" for i ip netmask
  proof -
    obtain r where r: "iface_score (default_route_ipv4_linux env) (Some peer) i = Some (r, ip)"
      using score_usable [OF usable] by blast
    then have "(r, ip) \<in> set xs" unfolding set_xs using mem by (force simp: scored_def List.map_filter_def)
    moreover have "same_subnet ip netmask peer \<longrightarrow> r \<le> -50"
      using  score_some [OF r] usable by (auto simp: usable_iface_def)
    ultimately show ?thesis by blast
  qed
  from fold_push_new [of "map snd xs" "[]"] have basic: "distinct out" "set out = snd ` set xs" by (auto simp: out)
  have all: "set out = {ip. usable_address ifs ip}"
    unfolding basic(2) using entry listed by (force simp: usable_address_def)
  let ?A = "map snd (filter (\<lambda>x. fst x < -30) xs)" and ?B = "map snd (filter (\<lambda>x. \<not> fst x < -30) xs)"
  have "sorted xs" by (metis sorted_sort_key list.map_ident xs_def)
  from arg_cong [OF sorted_pairs_split [OF this, of "-30"], of "map snd"] have split: "map snd xs = ?A @ ?B" by simp
  have near_A: "near_address ifs peer ip" if "ip \<in> set ?A" for ip
  proof -
    from that obtain r where r: "(r, ip) \<in> set xs" "r < -30" by auto
    from entry [OF r(1)] r(2) show ?thesis by (force simp: near_address_def split: if_splits)
  qed
  have A_near: "ip \<in> set ?A" if "near_address ifs peer ip" for ip
    using that listed by (force simp: near_address_def)
  from fold_push_new [of ?A "[]"] obtain as where as: "fold push_new ?A [] = as" "set as = set ?A" by auto
  from fold_push_new [of ?B as] obtain bs where bs: "fold push_new ?B as = as @ bs" "set bs = set ?B - set as" by blast
  have "out = as @ bs" unfolding out split using as(1) bs(1) by simp
  moreover have "\<forall>ip \<in> set as. near_address ifs peer ip" using near_A as(2) by blast
  moreover have "\<forall>ip \<in> set bs. \<not> near_address ifs peer ip" using A_near as(2) bs(2) by blast
  ultimately have "out = filter (near_address ifs peer) out @ filter (\<lambda>ip. \<not> near_address ifs peer ip) out"
    by (simp add: filter_id_conv filter_empty_conv)
  then show ?thesis using basic(1) all unfolding out_def by blast
qed

text \<open>A host with a foreign primary interface, a docked one on the speaker's network, and a container bridge.\<close>

definition example_env :: net_env where
  "example_env =
     \<lparr>env_ifaces = Some
        [\<lparr>iface_name = ''en0'', iface_index = Some 4, iface_addr = IfV4 (Ipv4 10 0 0 2) (Ipv4 255 255 255 0), iface_loopback = False\<rparr>,
         \<lparr>iface_name = ''en7'', iface_index = Some 9, iface_addr = IfV4 (Ipv4 192 168 1 20) (Ipv4 255 255 255 0), iface_loopback = False\<rparr>,
         \<lparr>iface_name = ''docker0'', iface_index = Some 11, iface_addr = IfV4 (Ipv4 172 17 0 1) (Ipv4 255 255 0 0), iface_loopback = False\<rparr>],
      env_routes = None, env_lookup = (\<lambda>h. None), env_udp = (\<lambda>d. None)\<rparr>"

lemma example_ranking:
  "preferred_local_ipv4s_for_peer example_env (Some (Ipv4 192 168 1 7)) = [Ipv4 192 168 1 20, Ipv4 10 0 0 2]"
  by code_simp

theorem near_sources_first_witness:
  "\<exists>ifs. env_ifaces example_env = Some ifs \<and>
     preferred_local_ipv4s_for_peer example_env (Some (Ipv4 192 168 1 7)) = [Ipv4 192 168 1 20, Ipv4 10 0 0 2] \<and>
     {ip. usable_address ifs ip} = {Ipv4 192 168 1 20, Ipv4 10 0 0 2}"
proof -
  obtain ifs where ifs: "env_ifaces example_env = Some ifs" by (simp add: example_env_def)
  from near_sources_first [OF ifs, of "Ipv4 192 168 1 7"] ifs show ?thesis unfolding example_ranking by auto
qed

section \<open>The dial\<close>

definition is_failed :: "'e + 'a \<Rightarrow> bool" where
  "is_failed r \<longleftrightarrow> (case r of Inl e \<Rightarrow> True | Inr x \<Rightarrow> False)"

lemma dial_each_order:
  "dial_each connect local_ip dest ls last_err =
     (case dropWhile (\<lambda>l. is_failed (connect (Some l) dest)) ls of
        l # rest \<Rightarrow> Inr (projr (connect (Some l) dest), IpV4 l, True)
      | [] \<Rightarrow> tcp_connect_cast_unbound connect local_ip dest True
                (if ls = [] then last_err else Some (projl (connect (Some (last ls)) dest))))"
proof (induction ls arbitrary: last_err)
  case Nil
  then show ?case by simp
next
  case (Cons l ls)
  show ?case
  proof (cases "connect (Some l) dest")
    case (Inl e)
    have "dial_each connect local_ip dest (l # ls) last_err = dial_each connect local_ip dest ls (Some e)"
      by (simp add: Inl)
    moreover have "(if ls = [] then Some e else Some (projl (connect (Some (last ls)) dest)))
        = Some (projl (connect (Some (last (l # ls))) dest))"
      by (simp add: Inl)
    ultimately have "dial_each connect local_ip dest (l # ls) last_err =
        (case dropWhile (\<lambda>l. is_failed (connect (Some l) dest)) ls of
           l # rest \<Rightarrow> Inr (projr (connect (Some l) dest), IpV4 l, True)
         | [] \<Rightarrow> tcp_connect_cast_unbound connect local_ip dest True (Some (projl (connect (Some (last (l # ls))) dest))))"
      using Cons.IH [of "Some e"] by presburger
    then show ?thesis by (simp add: Inl is_failed_def)
  next
    case (Inr x)
    then show ?thesis by (simp add: is_failed_def)
  qed
qed

definition unbound_ip :: "('s \<Rightarrow> ip_addr option) \<Rightarrow> 's \<Rightarrow> ip_addr" where
  "unbound_ip local_ip stream = (case local_ip stream of Some a \<Rightarrow> a | None \<Rightarrow> IpV4 (Ipv4 0 0 0 0))"

text \<open>
  C36: What a dial tries, for every host. A host that does not resolve fails without a dial. An IPv6 address is dialled
  once, from the kernel's choice of source. A loopback address is dialled from 127.0.0.1 and then from the kernel's
  choice. Any other IPv4 address is dialled from each ranked local address in order, then from the kernel's choice;
  the first that connects is used. It fails only when all have failed, and then reports the error of the last ranked
  address (of the kernel's choice when there is none). Keepalive is asked for except on loopback.
\<close>

theorem dial_tries_every_source:
  fixes connect :: "ipv4 option \<Rightarrow> socket_addr \<Rightarrow> io_error + 's"
  shows "tcp_connect_cast_bound env connect local_ip host port =
    (case resolve_addr env host of
       None \<Rightarrow> Inl \<lparr>io_kind = KindAddrNotAvailable, raw_os_error = None\<rparr>
     | Some (SockV6 ip p flow scope) \<Rightarrow>
         map_sum id (\<lambda>stream. (stream, unbound_ip local_ip stream, \<not> v6_loopback ip)) (connect None (SockV6 ip port flow scope))
     | Some (SockV4 ip p) \<Rightarrow>
         let dest = SockV4 ip port; lo = Ipv4 127 0 0 1; locals = preferred_local_ipv4s_for_peer env (Some ip)
         in if v4_loopback ip then
              map_sum id (\<lambda>stream. (stream, IpV4 lo, False))
                (if is_failed (connect (Some lo) dest) then connect None dest else connect (Some lo) dest)
            else (case dropWhile (\<lambda>l. is_failed (connect (Some l) dest)) locals of
               l # rest \<Rightarrow> Inr (projr (connect (Some l) dest), IpV4 l, True)
             | [] \<Rightarrow>
                 map_sum (\<lambda>err. if locals = [] then err else projl (connect (Some (last locals)) dest))
                   (\<lambda>stream. (stream, unbound_ip local_ip stream, True)) (connect None dest)))"
proof (cases "resolve_addr env host")
  case None
  then show ?thesis by (simp add: tcp_connect_cast_bound_def resolve_dest_addr_def)
next
  case (Some a)
  show ?thesis
  proof (cases a)
    case (SockV6 ip p flow scope)
    with Some show ?thesis
      by (simp add: tcp_connect_cast_bound_def resolve_dest_addr_def tcp_connect_cast_unbound_def unbound_ip_def
          split: sum.split)
  next
    case (SockV4 ip p)
    let ?dest = "SockV4 ip port" and ?locals = "preferred_local_ipv4s_for_peer env (Some ip)"
    show ?thesis
    proof (cases "v4_loopback ip")
      case True
      with Some SockV4 show ?thesis
        by (simp add: tcp_connect_cast_bound_def resolve_dest_addr_def is_failed_def Let_def split: sum.split)
    next
      case False
      then have "tcp_connect_cast_bound env connect local_ip host port = dial_each connect local_ip ?dest ?locals None"
        using Some SockV4 by (simp add: tcp_connect_cast_bound_def resolve_dest_addr_def)
      with Some SockV4 False show ?thesis
        by (cases "dropWhile (\<lambda>l. is_failed (connect (Some l) ?dest)) ?locals")
          (auto simp: dial_each_order tcp_connect_cast_unbound_def unbound_ip_def Let_def
            split: sum.split simp del: dropWhile_eq_Nil_conv)
    qed
  qed
qed

section \<open>The relay's copy loop\<close>

primrec read_bytes :: "read_result \<Rightarrow> u8 list" where
  "read_bytes (ReadBytes bs) = bs"
| "read_bytes (ReadError e) = []"

definition idle_error :: "io_error \<Rightarrow> bool" where
  "idle_error e \<longleftrightarrow> io_kind e \<in> {KindWouldBlock, KindTimedOut, KindInterrupted}"

text \<open>Reads that end the loop by themselves: the end of the stream and errors that are not idle timeouts.\<close>

definition ends_copy :: "read_result \<Rightarrow> bool" where
  "ends_copy r \<longleftrightarrow>
     (case r of ReadBytes bs \<Rightarrow> bs = [] \<or> COPY_BUFFER < length bs | ReadError e \<Rightarrow> \<not> idle_error e)"

text \<open>
  relay_passes_all_bytes. While the writer accepts, the relay hands on every byte that was read before the end
  of the stream, in order and once, whatever idle timeouts and interruptions lie between the reads; it ends at the
  first read that is the end or a real error, and otherwise keeps waiting.
\<close>

theorem relay_passes_all_bytes:
  "fst (copy_ignoring_idle_timeouts (\<lambda>done chunk. None) n out rs)
     = out @ concat (map read_bytes (takeWhile (\<lambda>r. \<not> ends_copy r) rs)) \<and>
   (snd (copy_ignoring_idle_timeouts (\<lambda>done chunk. None) n out rs) = None \<longleftrightarrow> (\<forall>r \<in> set rs. \<not> ends_copy r))"
proof (induction rs arbitrary: n out)
  case Nil
  then show ?case by simp
next
  case (Cons r rs)
  then show ?case by (cases r) (auto simp: ends_copy_def idle_error_def)
qed

section \<open>The macOS diagnosis\<close>

fun diag_run :: "macos_diag \<Rightarrow> (ip_addr \<times> io_error) list \<Rightarrow> macos_diag \<times> bool list" where
  "diag_run d [] = (d, [])"
| "diag_run d ((dest, err) # fs) =
     (let (d1, shown) = note_macos_local_network_diag dest err d; (d2, rest) = diag_run d1 fs in (d2, shown # rest))"

lemma diag_done_keeps: "diag_done d \<Longrightarrow> diag_done (fst (note_macos_local_network_diag dest err d)) \<and>
    \<not> snd (note_macos_local_network_diag dest err d)"
  by (simp add: note_macos_local_network_diag_def Let_def)

lemma diag_shown_done: "snd (note_macos_local_network_diag dest err d) \<Longrightarrow> diag_done (fst (note_macos_local_network_diag dest err d))"
  by (auto simp: note_macos_local_network_diag_def Let_def split: if_splits)

lemma diag_silent: "diag_done d \<Longrightarrow> True \<notin> set (snd (diag_run d fs))"
proof (induction fs arbitrary: d)
  case Nil
  then show ?case by simp
next
  case (Cons f fs)
  obtain dest err where f: "f = (dest, err)" by (cases f)
  from diag_done_keeps [OF Cons.prems, of dest err] Cons.IH [of "fst (note_macos_local_network_diag dest err d)"]
  show ?case by (auto simp: f case_prod_beta Let_def)
qed

text \<open>The message appears at most once in the life of the process.\<close>

lemma diag_shown_once: "length (filter (\<lambda>b. b) (snd (diag_run d fs))) \<le> 1"
proof (induction fs arbitrary: d)
  case Nil
  then show ?case by simp
next
  case (Cons f fs)
  obtain dest err where f: "f = (dest, err)" by (cases f)
  let ?n = "note_macos_local_network_diag dest err d"
  show ?case
  proof (cases "snd ?n")
    case True
    then have "True \<notin> set (snd (diag_run (fst ?n) fs))" by (intro diag_silent diag_shown_done)
    then have "filter (\<lambda>b. b) (snd (diag_run (fst ?n) fs)) = []" by (auto simp: filter_empty_conv)
    then show ?thesis using True by (simp add: f case_prod_beta Let_def)
  next
    case False
    then show ?thesis using Cons.IH [of "fst ?n"] by (simp add: f case_prod_beta Let_def)
  qed
qed

end
