(* ===== verification/Media_Start.thy ===== *)
theory Media_Start
  imports Media_Server Net_Promises
begin

text \<open>
  The start of a media server (\<open>MediaServer::start\<close> in \<open>src/media/http.rs\<close>), with the advertised host of
  \<open>src/net.rs\<close>, and the rate-limited report of samples a ring dropped while a body is served. Binding the listener
  and its port are arguments.
\<close>

section \<open>The start\<close>

definition media_bind_ip :: "string \<Rightarrow> ip_addr" where
  "media_bind_ip advertise_host =
     (if starts_with (str_trim advertise_host) ''['' then IpV6 (Ipv6 0 0 0 0 0 0 0 0) else IpV4 (Ipv4 0 0 0 0))"

definition media_base_url :: "string \<Rightarrow> u16 \<Rightarrow> string" where
  "media_base_url advertise_host port =
     (let trimmed = str_trim advertise_host;
          advertise = (if trimmed = [] then ''127.0.0.1'' else trimmed)
      in ''http://'' @ advertise @ '':'' @ show_nat (unat port))"

definition media_server_start ::
  "string \<Rightarrow> (ip_addr \<Rightarrow> string option) \<Rightarrow> string + u16 \<Rightarrow> (nat \<Rightarrow> pcm_ring) \<Rightarrow> 'x media_sys result" where
  "media_server_start advertise_host bind local_port rings =
     (case bind (media_bind_ip advertise_host) of
        Some err \<Rightarrow> Inl (ErrMedia (''bind failed: '' @ err))
      | None \<Rightarrow>
          (case local_port of
             Inl err \<Rightarrow> Inl (ErrMedia (''local_addr failed: '' @ err))
           | Inr port \<Rightarrow> Inr (media_start (media_base_url advertise_host port) rings)))"

section \<open>Drops of the ring\<close>

definition DROP_LOG_INTERVAL :: duration where
  "DROP_LOG_INTERVAL = from_secs 1"

record drop_log =
  last_drops_seen :: u64
  last_drop_log :: "instant option"

definition drop_log_new :: drop_log where
  "drop_log_new = \<lparr>last_drops_seen = 0, last_drop_log = None\<rparr>"

text \<open>The result is the number of frames reported, if a report is made.\<close>

definition maybe_log_ring_drops :: "u64 \<Rightarrow> instant \<Rightarrow> drop_log \<Rightarrow> drop_log \<times> u64 option" where
  "maybe_log_ring_drops drops now l =
     (if drops \<le> last_drops_seen l then (l, None)
      else if (case last_drop_log l of None \<Rightarrow> True | Some t \<Rightarrow> DROP_LOG_INTERVAL \<le> now - t)
      then (l\<lparr>last_drops_seen := drops, last_drop_log := Some now\<rparr>, Some (drops - last_drops_seen l))
      else (l, None))"

fun drop_reports :: "(u64 \<times> instant) list \<Rightarrow> drop_log \<Rightarrow> drop_log \<times> (instant \<times> u64) list" where
  "drop_reports [] l = (l, [])"
| "drop_reports ((drops, now) # polls) l =
     (let (l1, report) = maybe_log_ring_drops drops now l;
          (l2, rest) = drop_reports polls l1
      in (l2, (case report of None \<Rightarrow> rest | Some n \<Rightarrow> (now, n) # rest)))"

text \<open>Reports add up to the last count seen, whatever polls were left out.\<close>

lemma drop_reports_total:
  "unat (last_drops_seen l) + (\<Sum>(t, n) \<leftarrow> snd (drop_reports polls l). unat n) =
   unat (last_drops_seen (fst (drop_reports polls l)))"
proof (induction polls arbitrary: l)
  case Nil
  then show ?case by simp
next
  case (Cons p polls)
  obtain drops now where p: "p = (drops, now)" by force
  obtain l1 report where m: "maybe_log_ring_drops drops now l = (l1, report)" by force
  obtain l2 rest where r: "drop_reports polls l1 = (l2, rest)" by force
  have step: "unat (last_drops_seen l) + (case report of None \<Rightarrow> 0 | Some n \<Rightarrow> unat n) = unat (last_drops_seen l1)"
    using m by (auto simp: maybe_log_ring_drops_def unat_sub word_le_nat_alt split: if_splits)
  show ?case using Cons.IH [of l1] step by (cases report) (simp_all add: p m r)
qed

lemma drop_report_spaced:
  "maybe_log_ring_drops drops now l = (l1, Some n) \<Longrightarrow> 0 < n \<and> last_drop_log l1 = Some now \<and>
     (case last_drop_log l of None \<Rightarrow> True | Some t \<Rightarrow> t + DROP_LOG_INTERVAL \<le> now)"
proof -
  assume m: "maybe_log_ring_drops drops now l = (l1, Some n)"
  then have d: "last_drops_seen l < drops" "n = drops - last_drops_seen l" "last_drop_log l1 = Some now"
    by (auto simp: maybe_log_ring_drops_def split: if_splits)
  have "0 < n" using d(1,2) by (simp add: word_less_nat_alt unat_sub word_le_nat_alt)
  moreover have "0 < DROP_LOG_INTERVAL" by (simp add: DROP_LOG_INTERVAL_def from_secs_def)
  then have "case last_drop_log l of None \<Rightarrow> True | Some t \<Rightarrow> t + DROP_LOG_INTERVAL \<le> now"
    using m by (auto simp: maybe_log_ring_drops_def split: if_splits option.splits)
  ultimately show ?thesis using d(3) by simp
qed

section \<open>The URL and the socket\<close>

definition example_ring :: pcm_ring where
  "example_ring = ring_new 2 1024"

lemma v4_host_plain: "str_trim (v4_text a) = v4_text a"
  using v4_text_addr addr_char_plain by (intro trim_plain) blast

lemma bracket_plain: "plain_char (CHR ''['')" "plain_char (CHR '']'')"
  by (simp_all add: plain_char_def char_byte_def)

lemma v6_host_plain: "str_trim (''['' @ v6_text a @ '']'') = ''['' @ v6_text a @ '']''"
  using v6_text_chars addr_char_plain bracket_plain by (intro trim_plain) auto

lemma v4_no_bracket: "\<not> starts_with (v4_text a) ''[''"
proof -
  have "v4_text a \<noteq> []" by (rule v4_text_nonempty)
  then have "hd (v4_text a) \<in> set (v4_text a)" by (rule hd_in_set)
  from v4_text_chars [OF this] have "hd (v4_text a) \<noteq> CHR ''[''" by (auto simp: is_ascii_digit_def)
  then show ?thesis using v4_text_nonempty [of a] by (cases "v4_text a") (auto simp: starts_with_def)
qed

lemma advertised_host_cases:
  "(\<exists>a. advertise_host_for_peer env peer = v4_text a) \<or> (\<exists>a. advertise_host_for_peer env peer = ''['' @ v6_text a @ '']'')"
proof -
  have own: "\<exists>a. advertise_host_ip env = v4_text a"
    unfolding advertise_host_ip_def by (auto simp del: v4_text.simps split: list.splits option.splits)
  show ?thesis unfolding advertise_host_for_peer_def Let_def
    using own by (auto simp del: v4_text.simps split: option.splits socket_addr.splits list.splits)
qed

text \<open>
  A media server started for a device serves at the URL it gives to Cast: the host in the URL is an IP literal,
  IPv4, or IPv6 in brackets, the port is the listener's, and the listener was bound in that literal's family.
\<close>

theorem media_url_matches_socket:
  assumes start: "media_server_start (advertise_host_for_peer env peer) bind local_port rings = Inr s"
  shows "\<exists>host port. base_url (sy_handle s) = ''http://'' @ host @ '':'' @ show_nat (unat port) \<and> local_port = Inr port \<and>
    ((\<exists>a. host = v4_text a) \<and> bind (IpV4 (Ipv4 0 0 0 0)) = None \<or>
     (\<exists>a. host = ''['' @ v6_text a @ '']'') \<and> bind (IpV6 (Ipv6 0 0 0 0 0 0 0 0)) = None)"
proof -
  let ?host = "advertise_host_for_peer env peer"
  obtain port where p: "bind (media_bind_ip ?host) = None" "local_port = Inr port"
    "s = media_start (media_base_url ?host port) rings"
    using start by (auto simp: media_server_start_def split: option.splits sum.splits)
  have url: "base_url (sy_handle s) = media_base_url ?host port" by (simp add: p(3) media_start_def)
  from advertised_host_cases [of env peer] show ?thesis
  proof
    assume "\<exists>a. ?host = v4_text a"
    then obtain a where a: "?host = v4_text a" by blast
    have "bind (IpV4 (Ipv4 0 0 0 0)) = None"
      using p(1) v4_no_bracket [of a] by (simp add: media_bind_ip_def a v4_host_plain del: v4_text.simps)
    moreover have "base_url (sy_handle s) = ''http://'' @ v4_text a @ '':'' @ show_nat (unat port)"
      by (simp add: url media_base_url_def a v4_host_plain v4_text_nonempty del: v4_text.simps)
    ultimately show ?thesis using p(2) by blast
  next
    assume "\<exists>a. ?host = ''['' @ v6_text a @ '']''"
    then obtain a where a: "?host = ''['' @ v6_text a @ '']''" by blast
    have "bind (IpV6 (Ipv6 0 0 0 0 0 0 0 0)) = None"
      using p(1) unfolding media_bind_ip_def a v6_host_plain by (simp add: starts_with_def)
    moreover have "base_url (sy_handle s) = ''http://'' @ (''['' @ v6_text a @ '']'') @ '':'' @ show_nat (unat port)"
      unfolding url media_base_url_def a v6_host_plain by simp
    ultimately show ?thesis using p(2) by blast
  qed
qed

theorem media_url_matches_socket_witness:
  "\<exists>(s :: nat media_sys) host.
     media_server_start (advertise_host_for_peer example_env ''192.168.1.7'') (\<lambda>_. None) (Inr 8009) (\<lambda>_. example_ring) = Inr s \<and>
     base_url (sy_handle s) = ''http://'' @ host @ '':'' @ show_nat 8009"
proof -
  let ?start = "media_server_start (advertise_host_for_peer example_env ''192.168.1.7'') (\<lambda>_. None) (Inr 8009) (\<lambda>_. example_ring)
    :: nat media_sys result"
  obtain s where s: "?start = Inr s" by (simp add: media_server_start_def)
  from media_url_matches_socket [OF s] obtain host where
    "base_url (sy_handle s) = ''http://'' @ host @ '':'' @ show_nat (unat (8009 :: u16))" by auto
  with s show ?thesis by (intro exI [of _ s] exI [of _ host]) simp
qed

end
