(* ===== verification/Cast_Link.thy ===== *)
theory Cast_Link
  imports Net_Local
begin

text \<open>
  The link a Cast worker talks over: the TLS configuration with its certificate verifier (\<open>src/cast/tls.rs\<close>), the
  localhost relay to the source-bound connection (\<open>src/net.rs\<close>), and the warm device on top of it (\<open>src/cast/pool.rs\<close>).
  The certificate parser, the signature algorithms, \<open>rustls\<close> and the sockets are arguments. Certificates, messages,
  keys and signatures are values of any type.
\<close>

section \<open>Errors\<close>

text \<open>The errors of \<open>webpki\<close> that the program tells apart, and those of \<open>rustls\<close> that it returns.\<close>

datatype webpki_error =
    BadDer
  | TrailingData
  | InvalidSignatureForPublicKey
  | UnsupportedSignatureAlgorithm "u8 list" "u8 list"
  | OtherWebpki string

datatype certificate_error =
    BadEncoding
  | BadSignature
  | UnsupportedAlgorithmContext "u8 list" "u8 list"
  | OtherCertificate webpki_error

datatype tls_error =
    InvalidCertificate certificate_error
  | UnadvertisedSigScheme
  | OtherTls string

fun rustls_error :: "webpki_error \<Rightarrow> tls_error" where
  "rustls_error BadDer = InvalidCertificate BadEncoding"
| "rustls_error TrailingData = InvalidCertificate BadEncoding"
| "rustls_error InvalidSignatureForPublicKey = InvalidCertificate BadSignature"
| "rustls_error (UnsupportedSignatureAlgorithm sig_id key_id) =
     InvalidCertificate (UnsupportedAlgorithmContext sig_id key_id)"
| "rustls_error (OtherWebpki e) = InvalidCertificate (OtherCertificate (OtherWebpki e))"

section \<open>The certificate verifier\<close>

text \<open>\<open>mapping\<close>: the provider's algorithms by TLS signature scheme.\<close>

record ('scheme, 'alg) cert_verifier =
  sig_mapping :: "('scheme \<times> 'alg list) list"

record ('cert, 'spki, 'key, 'alg, 'msg, 'sig) crypto =
  parse_x509 :: "'cert \<Rightarrow> 'spki option"
  raw_public_key :: "'spki \<Rightarrow> webpki_error + 'key"
  check_signature :: "'key \<Rightarrow> 'alg \<Rightarrow> 'msg \<Rightarrow> 'sig \<Rightarrow> webpki_error option"

definition subject_public_key_info ::
  "('cert, 'spki, 'key, 'alg, 'msg, 'sig) crypto \<Rightarrow> 'cert \<Rightarrow> tls_error + 'spki" where
  "subject_public_key_info c cert =
     (case parse_x509 c cert of None \<Rightarrow> Inl (InvalidCertificate BadEncoding) | Some spki \<Rightarrow> Inr spki)"

definition algorithms_for :: "('scheme, 'alg) cert_verifier \<Rightarrow> 'scheme \<Rightarrow> tls_error + 'alg list" where
  "algorithms_for v scheme =
     (case List.find (\<lambda>(candidate, _). candidate = scheme) (sig_mapping v) of
        None \<Rightarrow> Inl UnadvertisedSigScheme
      | Some (_, algorithms) \<Rightarrow> Inr algorithms)"

fun try_candidates :: "('alg \<Rightarrow> webpki_error option) \<Rightarrow> 'alg list \<Rightarrow> webpki_error option \<Rightarrow> tls_error + unit" where
  "try_candidates check [] mismatch =
     Inl (case mismatch of None \<Rightarrow> UnadvertisedSigScheme | Some e \<Rightarrow> rustls_error e)"
| "try_candidates check (a # as) mismatch =
     (case check a of
        None \<Rightarrow> Inr ()
      | Some (UnsupportedSignatureAlgorithm sig_id key_id) \<Rightarrow>
          try_candidates check as (Some (UnsupportedSignatureAlgorithm sig_id key_id))
      | Some e \<Rightarrow> Inl (rustls_error e))"

definition verify_tls12 ::
  "('cert, 'spki, 'key, 'alg, 'msg, 'sig) crypto \<Rightarrow> ('scheme, 'alg) cert_verifier \<Rightarrow> 'msg \<Rightarrow> 'cert \<Rightarrow> 'scheme \<Rightarrow> 'sig
    \<Rightarrow> tls_error + unit" where
  "verify_tls12 c v msg cert scheme sig =
     (case algorithms_for v scheme of
        Inl e \<Rightarrow> Inl e
      | Inr candidates \<Rightarrow>
          (case subject_public_key_info c cert of
             Inl e \<Rightarrow> Inl e
           | Inr spki \<Rightarrow>
               (case raw_public_key c spki of
                  Inl e \<Rightarrow> Inl (rustls_error e)
                | Inr key \<Rightarrow> try_candidates (\<lambda>alg. check_signature c key alg msg sig) candidates None)))"

text \<open>\<open>verify_raw\<close> is the helper of \<open>rustls\<close> for TLS 1.3 with a raw key.\<close>

definition verify_tls13_signature ::
  "('spki \<Rightarrow> 'msg \<Rightarrow> 'scheme \<Rightarrow> 'sig \<Rightarrow> ('scheme, 'alg) cert_verifier \<Rightarrow> tls_error + unit) \<Rightarrow>
   ('cert, 'spki, 'key, 'alg, 'msg, 'sig) crypto \<Rightarrow> ('scheme, 'alg) cert_verifier \<Rightarrow> 'msg \<Rightarrow> 'cert \<Rightarrow> 'scheme \<Rightarrow> 'sig
    \<Rightarrow> tls_error + unit" where
  "verify_tls13_signature verify_raw c v msg cert scheme sig =
     (case subject_public_key_info c cert of
        Inl e \<Rightarrow> Inl e
      | Inr spki \<Rightarrow> verify_raw spki msg scheme sig v)"

text \<open>Any certificate chain is accepted: Cast devices present certificates they signed themselves.\<close>

definition verify_server_cert :: "'cert \<Rightarrow> 'cert list \<Rightarrow> string \<Rightarrow> tls_error + unit" where
  "verify_server_cert end_entity intermediates server_name = Inr ()"

definition supported_verify_schemes :: "('scheme, 'alg) cert_verifier \<Rightarrow> 'scheme list" where
  "supported_verify_schemes v = map fst (sig_mapping v)"

record ('scheme, 'alg, 'versions) tls_config =
  tls_versions :: 'versions
  tls_verifier :: "('scheme, 'alg) cert_verifier"
  tls_client_auth :: bool

definition client_config ::
  "tls_error + 'versions \<Rightarrow> ('scheme \<times> 'alg list) list \<Rightarrow> tls_error + ('scheme, 'alg, 'versions) tls_config" where
  "client_config safe_versions provider_algorithms =
     (case safe_versions of
        Inl e \<Rightarrow> Inl e
      | Inr vs \<Rightarrow> Inr \<lparr>tls_versions = vs, tls_verifier = \<lparr>sig_mapping = provider_algorithms\<rparr>, tls_client_auth = False\<rparr>)"

section \<open>The relay\<close>

text \<open>
  What setting up the relay meets: a clone of the device's stream for the shutdown handle, binding a local
  listener, its port, its accept timeout, the start of the relay thread.
\<close>

record 's relay_setup =
  remote_clone :: "'s option"
  bind_listener :: "io_error option"
  listener_port :: "io_error + u16"
  accept_timeout :: "io_error option"
  spawn_relay_err :: "io_error option"

definition LOCALHOST_TEXT :: string where
  "LOCALHOST_TEXT = ''127.0.0.1''"

definition spawn_cast_connect_relay ::
  "net_env \<Rightarrow> (ipv4 option \<Rightarrow> socket_addr \<Rightarrow> io_error + 's) \<Rightarrow> ('s \<Rightarrow> ip_addr option) \<Rightarrow> 's relay_setup \<Rightarrow> string \<Rightarrow> u16
    \<Rightarrow> io_error + (string \<times> u16 \<times> 's relay_ends)" where
  "spawn_cast_connect_relay env connect local_ip setup dest_host dest_port =
     (case tcp_connect_cast_bound env connect local_ip dest_host dest_port of
        Inl e \<Rightarrow> Inl e
      | Inr (remote, local_src, keepalive) \<Rightarrow>
          let ends = (case remote_clone setup of Some r \<Rightarrow> relay_set_remote r relay_new | None \<Rightarrow> relay_new)
          in case bind_listener setup of Some e \<Rightarrow> Inl e
             | None \<Rightarrow>
                 (case listener_port setup of
                    Inl e \<Rightarrow> Inl e
                  | Inr port \<Rightarrow>
                      (case accept_timeout setup of Some e \<Rightarrow> Inl e
                       | None \<Rightarrow>
                           (case spawn_relay_err setup of Some e \<Rightarrow> Inl e
                            | None \<Rightarrow> Inr (LOCALHOST_TEXT, port, ends)))))"

text \<open>
  The relay thread once \<open>rust_cast\<close> dialled in, or did not. \<open>client\<close> and its clone for the shutdown handle; the
  result is the handles and the options set on the client's socket, \<open>None\<close> when the device's stream is dropped.
\<close>

definition relay_accepted ::
  "io_error + 's \<Rightarrow> bool \<Rightarrow> 's option \<Rightarrow> 's relay_ends \<Rightarrow> 's relay_ends \<times> socket_option list option" where
  "relay_accepted accepted cloned client_clone ends =
     (case accepted of
        Inl e \<Rightarrow> (ends, None)
      | Inr client \<Rightarrow>
          ((case client_clone of Some c \<Rightarrow> relay_set_client c ends | None \<Rightarrow> ends),
           Some (apply_cast_socket_options cloned False)))"

record relayed =
  to_device :: "u8 list"
  device_half_closed :: bool
  to_client :: "u8 list"
  client_half_closed :: bool

text \<open>
  \<open>bridge_tcp_streams\<close>: both directions copy at once, each closes the write half of its target when it ends.
  \<open>None\<close>: a stream could not be cloned, and both are dropped.
\<close>

definition bridge_tcp_streams ::
  "bool \<Rightarrow> bool \<Rightarrow> (u8 list \<Rightarrow> u8 list \<Rightarrow> io_error option) \<Rightarrow> read_result list
    \<Rightarrow> (u8 list \<Rightarrow> u8 list \<Rightarrow> io_error option) \<Rightarrow> read_result list \<Rightarrow> relayed option" where
  "bridge_tcp_streams client_cloned remote_cloned remote_write client_reads client_write remote_reads =
     (if \<not> client_cloned then None
      else if \<not> remote_cloned then None
      else
        let (up, up_end) = copy_ignoring_idle_timeouts remote_write 0 [] client_reads;
            (down, down_end) = copy_ignoring_idle_timeouts client_write 0 [] remote_reads
        in Some \<lparr>to_device = up, device_half_closed = (up_end \<noteq> None),
                 to_client = down, client_half_closed = (down_end \<noteq> None)\<rparr>)"

definition bridge_over :: "relayed \<Rightarrow> bool" where
  "bridge_over r \<longleftrightarrow> device_half_closed r \<and> client_half_closed r"

section \<open>The warm device\<close>

text \<open>\<open>connect_local_relay\<close>: its steps in order, each with the error text it fails with.\<close>

fun first_failure :: "(string \<times> string option) list \<Rightarrow> string option" where
  "first_failure [] = None"
| "first_failure ((_, None) # steps) = first_failure steps"
| "first_failure ((prefix, Some err) # steps) = Some (prefix @ err)"

record warm_connect =
  tcp_connect_err :: "string option"
  read_timeout_err :: "string option"
  write_timeout_err :: "string option"
  try_clone_err :: "string option"
  tls_config_err :: "string option"
  server_name_err :: "string option"
  tls_client_err :: "string option"

definition connect_local_relay :: "warm_connect \<Rightarrow> string + socket_option list" where
  "connect_local_relay w =
     (case first_failure
        [(''tcp connect: '', tcp_connect_err w), (''set_read_timeout: '', read_timeout_err w),
         (''set_write_timeout: '', write_timeout_err w), (''tcp try_clone: '', try_clone_err w),
         (''tls config: '', tls_config_err w), (''server name: '', server_name_err w), (''tls client: '', tls_client_err w)] of
        Some err \<Rightarrow> Inl err
      | None \<Rightarrow> Inr [ReadTimeout (Some CAST_RELAY_IO_TIMEOUT), WriteTimeout (Some CAST_RELAY_IO_TIMEOUT)])"

text \<open>\<open>ShortReadTimeout\<close>: the read timeout around a drain, restored when the guard is dropped.\<close>

definition begin_short_read :: "duration \<Rightarrow> socket_option" where
  "begin_short_read timeout = ReadTimeout (Some timeout)"

definition restore_read_timeout :: socket_option where
  "restore_read_timeout = ReadTimeout (Some CAST_RELAY_IO_TIMEOUT)"

definition with_short_read :: "duration \<Rightarrow> socket_option list \<Rightarrow> socket_option list" where
  "with_short_read timeout body = begin_short_read timeout # body @ [restore_read_timeout]"

fun read_timeout_after :: "duration option \<Rightarrow> socket_option list \<Rightarrow> duration option" where
  "read_timeout_after t [] = t"
| "read_timeout_after t (ReadTimeout t' # os) = read_timeout_after t' os"
| "read_timeout_after t (WriteTimeout _ # os) = read_timeout_after t os"
| "read_timeout_after t (Keepalive _ _ # os) = read_timeout_after t os"

text \<open>\<open>receive\<close>: the first channel that can handle a message parses it.\<close>

record ('m, 'e, 'p) cast_channel =
  can_handle :: "'m \<Rightarrow> bool"
  parse_message :: "'m \<Rightarrow> 'e + 'p"

datatype ('m, 'p) link_message =
    ConnectionMessage 'p
  | HeartbeatMessage 'p
  | MediaMessage 'p
  | ReceiverMessage 'p
  | RawMessage 'm

record ('m, 'e, 'p) warm_device =
  connection_channel :: "('m, 'e, 'p) cast_channel"
  heartbeat_channel :: "('m, 'e, 'p) cast_channel"
  media_channel :: "('m, 'e, 'p) cast_channel"
  receiver_channel :: "('m, 'e, 'p) cast_channel"

definition receive_message :: "('m, 'e, 'p) warm_device \<Rightarrow> 'e + 'm \<Rightarrow> 'e + ('m, 'p) link_message" where
  "receive_message d received =
     (case received of
        Inl e \<Rightarrow> Inl e
      | Inr m \<Rightarrow>
          if can_handle (connection_channel d) m then map_sum id ConnectionMessage (parse_message (connection_channel d) m)
          else if can_handle (heartbeat_channel d) m then map_sum id HeartbeatMessage (parse_message (heartbeat_channel d) m)
          else if can_handle (media_channel d) m then map_sum id MediaMessage (parse_message (media_channel d) m)
          else if can_handle (receiver_channel d) m then map_sum id ReceiverMessage (parse_message (receiver_channel d) m)
          else Inr (RawMessage m))"

end
