(* ===== verification/Cast_Link_Promises.thy ===== *)
theory Cast_Link_Promises
  imports Cast_Link Net_Promises
begin

text \<open>
  What the link promises: a TLS 1.2 handshake is accepted exactly when an advertised algorithm that fits the key in
  the certificate verifies its signature; the relay's address is given out only for a connected device; both
  directions pass every byte; and the read timeout of a command is in force again after every drain.
\<close>

section \<open>The handshake signature\<close>

definition context_mismatch :: "webpki_error option \<Rightarrow> bool" where
  "context_mismatch r \<longleftrightarrow> (\<exists>sig_id key_id. r = Some (UnsupportedSignatureAlgorithm sig_id key_id))"

lemma try_candidates_accepts:
  "try_candidates check as mismatch = Inr () \<longleftrightarrow>
   (\<exists>pre a post. as = pre @ a # post \<and> list_all (\<lambda>b. context_mismatch (check b)) pre \<and> check a = None)"
proof (induction as arbitrary: mismatch)
  case Nil
  then show ?case by simp
next
  case (Cons b bs)
  show ?case
  proof (cases "context_mismatch (check b)")
    case True
    then obtain s k where b: "check b = Some (UnsupportedSignatureAlgorithm s k)" by (auto simp: context_mismatch_def)
    have "(\<exists>pre a post. b # bs = pre @ a # post \<and> list_all (\<lambda>b. context_mismatch (check b)) pre \<and> check a = None) \<longleftrightarrow>
        (\<exists>pre a post. bs = pre @ a # post \<and> list_all (\<lambda>b. context_mismatch (check b)) pre \<and> check a = None)"
      (is "?L \<longleftrightarrow> ?R")
    proof
      assume ?L
      then obtain pre a post where p: "b # bs = pre @ a # post" "list_all (\<lambda>b. context_mismatch (check b)) pre" "check a = None"
        by blast
      with b show ?R by (cases pre) auto
    next
      assume ?R
      then obtain pre a post where "bs = pre @ a # post" "list_all (\<lambda>b. context_mismatch (check b)) pre" "check a = None"
        by blast
      then show ?L using True by (intro exI [of _ "b # pre"] exI [of _ a] exI [of _ post]) simp
    qed
    with Cons.IH b show ?thesis by simp
  next
    case False
    have "(\<exists>pre a post. b # bs = pre @ a # post \<and> list_all (\<lambda>b. context_mismatch (check b)) pre \<and> check a = None) \<longleftrightarrow>
        check b = None" (is "?L \<longleftrightarrow> ?R")
    proof
      assume ?L
      then obtain pre a post where p: "b # bs = pre @ a # post" "list_all (\<lambda>b. context_mismatch (check b)) pre" "check a = None"
        by blast
      with False show ?R by (cases pre) auto
    next
      assume ?R
      then show ?L by (intro exI [of _ "[]"] exI [of _ b] exI [of _ bs]) simp
    qed
    with False show ?thesis by (auto simp: context_mismatch_def split: option.splits webpki_error.splits)
  qed
qed

text \<open>
  C30: A TLS 1.2 handshake signature is accepted exactly when its scheme is one the client advertised, the
  certificate contains a key, and the first of the scheme's algorithms that fits this key verifies the signature over
  the handshake with it. No other certificate property matters, and nothing is accepted unverified.
\<close>

theorem handshake_bound_to_key:
  "verify_tls12 c v msg cert scheme sig = Inr () \<longleftrightarrow>
   (\<exists>candidates spki key pre a post.
      algorithms_for v scheme = Inr candidates \<and> parse_x509 c cert = Some spki \<and> raw_public_key c spki = Inr key \<and>
      candidates = pre @ a # post \<and> list_all (\<lambda>b. context_mismatch (check_signature c key b msg sig)) pre \<and>
      check_signature c key a msg sig = None)"
  by (auto simp: verify_tls12_def subject_public_key_info_def try_candidates_accepts split: sum.splits option.splits)

lemma find_holds: "List.find p xs = Some y \<Longrightarrow> y \<in> set xs \<and> p y"
  by (induction xs) (auto split: if_splits)

lemma algorithms_advertised:
  assumes "algorithms_for v scheme = Inr algs"
  shows "scheme \<in> set (supported_verify_schemes v) \<and> (scheme, algs) \<in> set (sig_mapping v)"
proof -
  obtain y where y: "List.find (\<lambda>(candidate, _). candidate = scheme) (sig_mapping v) = Some y" "snd y = algs"
    using assms by (auto simp: algorithms_for_def split: option.splits)
  from find_holds [OF y(1)] y(2) have "(scheme, algs) \<in> set (sig_mapping v)" by (cases y) auto
  then show ?thesis by (force simp: supported_verify_schemes_def)
qed

section \<open>The relay\<close>

lemma relay_after_connect:
  assumes "spawn_cast_connect_relay env connect local_ip setup host port = Inr (relay_host, relay_port, ends)"
  shows "\<exists>remote. tcp_connect_cast_bound env connect local_ip host port = Inr remote"
    and "relay_host = LOCALHOST_TEXT" and "relay_client ends = None"
  using assms by (auto simp: spawn_cast_connect_relay_def Let_def relay_set_remote_def relay_new_def
      split: sum.splits option.splits prod.splits)

lemma relay_transparent:
  assumes "bridge_tcp_streams True True (\<lambda>_ _. None) client_reads (\<lambda>_ _. None) remote_reads = Some r"
  shows "to_device r = concat (map read_bytes (takeWhile (\<lambda>x. \<not> ends_copy x) client_reads))"
    and "to_client r = concat (map read_bytes (takeWhile (\<lambda>x. \<not> ends_copy x) remote_reads))"
    and "bridge_over r \<longleftrightarrow> (\<exists>x \<in> set client_reads. ends_copy x) \<and> (\<exists>x \<in> set remote_reads. ends_copy x)"
  using assms relay_passes_all_bytes [of 0 "[]" client_reads] relay_passes_all_bytes [of 0 "[]" remote_reads]
  by (auto simp: bridge_tcp_streams_def bridge_over_def split: prod.splits)

section \<open>The warm device\<close>

lemma read_timeout_append: "read_timeout_after t (xs @ ys) = read_timeout_after (read_timeout_after t xs) ys"
  by (induction t xs rule: read_timeout_after.induct) simp_all

lemma short_read_restores: "read_timeout_after t (with_short_read timeout body) = Some CAST_RELAY_IO_TIMEOUT"
  by (simp add: with_short_read_def read_timeout_append begin_short_read_def restore_read_timeout_def)

lemma receive_keeps_message:
  "receive_message d (Inr m) = Inr (RawMessage m') \<longleftrightarrow>
   m' = m \<and> \<not> can_handle (connection_channel d) m \<and> \<not> can_handle (heartbeat_channel d) m \<and>
   \<not> can_handle (media_channel d) m \<and> \<not> can_handle (receiver_channel d) m"
proof -
  have no: "map_sum id f s \<noteq> Inr (RawMessage m')" if "\<And>p. f p \<noteq> RawMessage m'" for f and s :: "'e + 'p"
    using that by (cases s) auto
  show ?thesis unfolding receive_message_def by (auto simp: no)
qed

end
