(* ===== verification/Names.thy ===== *)
theory Names
  imports Registry Text_Parse "HOL-Library.List_Lexorder" "HOL-Library.Char_ord" "HOL-Library.Multiset"
begin

text \<open>
  The configuration (\<open>src/config.rs\<close>) and the AirPlay names (\<open>src/names.rs\<close>).

  Strings are ordered by their bytes, as Rust orders them. \<open>lower\<close> is \<open>str::to_lowercase\<close>, that is Unicode's
  tables; nothing is assumed about it. \<open>iter\<close> is the order in which the hash map of name groups is walked:
  any function, and the theorems allow two runs to use two different ones. Reading the TOML file is
  the toml crate's work; what \<open>load_path\<close> does with its outcome is modelled.
\<close>

section \<open>Configuration\<close>

record device_config =
  dc_id :: string
  dc_name :: "string option"
  dc_hide :: bool

record config =
  cfg_devices :: "device_config list"

record resolved_override =
  display_name :: string
  renamed :: bool
  hidden :: bool

definition default_config :: config where
  "default_config = \<lparr>cfg_devices = []\<rparr>"

definition DEFAULT_CONFIG_PATH :: string where
  "DEFAULT_CONFIG_PATH = ''play-on-air.toml''"

definition STATE_SUBDIR :: string where
  "STATE_SUBDIR = ''play-on-air''"

definition resolve_config_path :: "string option \<Rightarrow> string option \<Rightarrow> string" where
  "resolve_config_path cli_path env_path =
     (case cli_path of Some p \<Rightarrow> p
      | None \<Rightarrow>
          (case env_path of
             Some e \<Rightarrow> let trimmed = str_trim e in if trimmed \<noteq> [] then trimmed else DEFAULT_CONFIG_PATH
           | None \<Rightarrow> DEFAULT_CONFIG_PATH))"

definition state_dir_from ::
  "(string \<Rightarrow> string \<Rightarrow> string) \<Rightarrow> string option \<Rightarrow> string option \<Rightarrow> string option \<Rightarrow> string option" where
  "state_dir_from path_join cli_path env_value platform =
     (case cli_path of Some p \<Rightarrow> Some p
      | None \<Rightarrow>
          (case map_option str_trim env_value of
             Some v \<Rightarrow> if v \<noteq> [] then Some v else map_option (\<lambda>d. path_join d STATE_SUBDIR) platform
           | None \<Rightarrow> map_option (\<lambda>d. path_join d STATE_SUBDIR) platform))"

text \<open>Reading the file: its contents, not found, or another error of the file system.\<close>

datatype file_read = FileText string | FileMissing | FileError string

definition load_path ::
  "(string \<Rightarrow> config_error + device_config list) \<Rightarrow> string \<Rightarrow> file_read \<Rightarrow> config result" where
  "load_path parse_file path outcome =
     (case outcome of
        FileText text \<Rightarrow>
          (case parse_file text of Inl e \<Rightarrow> Inl (ErrConfig path e) | Inr ds \<Rightarrow> Inr \<lparr>cfg_devices = ds\<rparr>)
      | FileMissing \<Rightarrow> Inr default_config
      | FileError e \<Rightarrow> Inl (ErrConfig path (ConfigIo e)))"

definition load_optional ::
  "(string \<Rightarrow> config_error + device_config list) \<Rightarrow> (string \<Rightarrow> file_read) \<Rightarrow> string option \<Rightarrow>
   string option \<Rightarrow> config result" where
  "load_optional parse_file disk cli_path env_path =
     (let path = resolve_config_path cli_path env_path in load_path parse_file path (disk path))"

definition matches_device :: "string \<Rightarrow> string \<Rightarrow> string \<Rightarrow> bool" where
  "matches_device pattern cast_name cast_id =
     (let pat = to_ascii_lowercase pattern
      in str_contains (to_ascii_lowercase cast_name) pat \<or> str_contains (to_ascii_lowercase cast_id) pat)"

definition override_of :: "device_config \<Rightarrow> string \<Rightarrow> resolved_override" where
  "override_of e cast_name =
     (let rename = (case dc_name e of None \<Rightarrow> None | Some n \<Rightarrow> if n = [] then None else Some n)
      in \<lparr>display_name = (case rename of None \<Rightarrow> cast_name | Some n \<Rightarrow> n), renamed = (rename \<noteq> None),
          hidden = dc_hide e\<rparr>)"

fun override_among :: "device_config list \<Rightarrow> string \<Rightarrow> string \<Rightarrow> resolved_override" where
  "override_among [] cast_name cast_id = \<lparr>display_name = cast_name, renamed = False, hidden = False\<rparr>"
| "override_among (e # es) cast_name cast_id =
     (if dc_id e = [] then override_among es cast_name cast_id
      else if matches_device (dc_id e) cast_name cast_id then override_of e cast_name
      else override_among es cast_name cast_id)"

definition device_override :: "config \<Rightarrow> string \<Rightarrow> string \<Rightarrow> resolved_override" where
  "device_override cfg cast_name cast_id = override_among (cfg_devices cfg) cast_name cast_id"

section \<open>Candidates and suffixes\<close>

record candidate =
  cand_id :: string
  cand_model :: string
  cand_name :: string
  cand_fixed :: bool

definition MIN_ID_SUFFIX_LEN :: usize where
  "MIN_ID_SUFFIX_LEN = 4"

definition name_key :: "(string \<Rightarrow> string) \<Rightarrow> string \<Rightarrow> string" where
  "name_key lower name = lower (str_trim name)"

definition id_chars :: "string \<Rightarrow> string" where
  "id_chars i = map ascii_lower (filter is_ascii_alphanumeric i)"

function id_suffix_from :: "string \<Rightarrow> string list \<Rightarrow> nat \<Rightarrow> string" where
  "id_suffix_from mine others len =
     (let prefix = take len mine;
          clashes = list_ex (\<lambda>other. starts_with other prefix) others
      in if \<not> clashes \<or> length mine \<le> len then prefix else id_suffix_from mine others (len + 1))"
  by pat_completeness auto
termination by (relation "measure (\<lambda>(mine, others, len). length mine - len)") auto

declare id_suffix_from.simps [simp del]

definition id_suffix :: "string \<Rightarrow> string list \<Rightarrow> string" where
  "id_suffix i ids =
     (let mine = id_chars i;
          others = map id_chars (filter (\<lambda>other. other \<noteq> i) ids)
      in id_suffix_from mine others (min MIN_ID_SUFFIX_LEN (length mine)))"

definition suffixed :: "string \<Rightarrow> string \<Rightarrow> string" where
  "suffixed name suffix = name @ '' ('' @ suffix @ '')''"

definition disambiguate :: "(string \<Rightarrow> string) \<Rightarrow> candidate list \<Rightarrow> (string \<times> string) list" where
  "disambiguate lower auto_named =
     (let ids = map cand_id auto_named
      in map (\<lambda>c.
           let model_unique =
                 cand_model c \<noteq> [] \<and> name_key lower (cand_model c) \<noteq> name_key lower (cand_name c) \<and>
                 length (filter (\<lambda>other. name_key lower (cand_model other) = name_key lower (cand_model c)) auto_named) = 1
           in (cand_id c, suffixed (cand_name c) (if model_unique then cand_model c else id_suffix (cand_id c) ids)))
         auto_named)"

section \<open>The names\<close>

definition candidate_of :: "config \<Rightarrow> (string, string) hashmap \<Rightarrow> device \<Rightarrow> candidate option" where
  "candidate_of cfg home_names d =
     (let over = device_override cfg (dev_name d) (dev_id d);
          home = hm_get home_names (dev_id d)
      in if hidden over then None
         else Some \<lparr>cand_id = dev_id d, cand_model = str_trim (dev_model d),
                    cand_name = (case home of None \<Rightarrow> display_name over | Some h \<Rightarrow> h),
                    cand_fixed = (renamed over \<or> home \<noteq> None)\<rparr>)"

definition visible_candidates :: "device list \<Rightarrow> config \<Rightarrow> (string, string) hashmap \<Rightarrow> candidate list" where
  "visible_candidates devices cfg home_names =
     sort_key cand_id (List.map_filter (candidate_of cfg home_names) devices)"

definition group_indices :: "(string \<Rightarrow> string) \<Rightarrow> candidate list \<Rightarrow> (string, nat list) hashmap" where
  "group_indices lower visible =
     foldl (\<lambda>g (idx, c). let k = name_key lower (cand_name c) in hm_insert k (hm_entry [] k g @ [idx]) g)
       [] (enumerate 0 visible)"

definition group_names :: "(string \<Rightarrow> string) \<Rightarrow> candidate list \<Rightarrow> nat list \<Rightarrow> (string \<times> string) list" where
  "group_names lower visible members =
     (let auto_named = filter (\<lambda>c. \<not> cand_fixed c) (map (\<lambda>i. visible ! i) members)
      in if length members < 2 then map (\<lambda>c. (cand_id c, cand_name c)) auto_named
         else disambiguate lower auto_named)"

definition insert_all :: "(string \<times> string) list \<Rightarrow> (string, string) hashmap \<Rightarrow> (string, string) hashmap" where
  "insert_all kvs m = foldl (\<lambda>acc (k, v). hm_insert k v acc) m kvs"

definition name_counts :: "(string \<Rightarrow> string) \<Rightarrow> string list \<Rightarrow> (string, nat) hashmap" where
  "name_counts lower ns =
     foldl (\<lambda>counts n. let k = name_key lower n in hm_insert k (hm_entry 0 k counts + 1) counts) [] ns"

definition resolve_suffix_clashes ::
  "(string \<Rightarrow> string) \<Rightarrow> candidate list \<Rightarrow> (string, string) hashmap \<Rightarrow> (string, string) hashmap" where
  "resolve_suffix_clashes lower visible names =
     (let counts = name_counts lower (hm_values names);
          all_ids = map cand_id visible
      in foldl (\<lambda>m c.
           case hm_get m (cand_id c) of None \<Rightarrow> m
           | Some current \<Rightarrow>
               let generated = (\<not> cand_fixed c \<and> current \<noteq> cand_name c)
               in if \<not> generated \<or> hm_entry 0 (name_key lower current) counts < 2 then m
                  else hm_insert (cand_id c) (suffixed (cand_name c) (id_suffix (cand_id c) all_ids)) m)
         names visible)"

definition airplay_names ::
  "(string \<Rightarrow> string) \<Rightarrow> (nat list list \<Rightarrow> nat list list) \<Rightarrow> device list \<Rightarrow> config \<Rightarrow>
   (string, string) hashmap \<Rightarrow> (string, string) hashmap" where
  "airplay_names lower iter devices cfg home_names =
     (let visible = visible_candidates devices cfg home_names;
          groups = group_indices lower visible;
          names1 = insert_all (concat (map (group_names lower visible) (iter (hm_values groups)))) [];
          names2 = insert_all (map (\<lambda>c. (cand_id c, cand_name c)) (filter cand_fixed visible)) names1
      in resolve_suffix_clashes lower visible names2)"

section \<open>The id suffix\<close>

definition prefix_free :: "nat \<Rightarrow> string \<Rightarrow> string list \<Rightarrow> bool" where
  "prefix_free len mine others \<longleftrightarrow> (\<forall>other \<in> set others. \<not> starts_with other (take len mine))"

lemma id_suffix_from_take:
  "\<exists>len'. id_suffix_from mine others len = take len' mine \<and> len \<le> len' \<and>
     (len' \<le> length mine \<or> len' = len) \<and> (prefix_free len' mine others \<or> length mine \<le> len') \<and>
     (\<forall>j. len \<le> j \<and> j < len' \<longrightarrow> \<not> prefix_free j mine others)"
proof (induction mine others len rule: id_suffix_from.induct)
  case (1 mine others len)
  show ?case
  proof (cases "prefix_free len mine others \<or> length mine \<le> len")
    case True
    then have "id_suffix_from mine others len = take len mine"
      by (subst id_suffix_from.simps) (auto simp: prefix_free_def list_ex_iff)
    then show ?thesis using True by (intro exI [of _ len]) auto
  next
    case False
    then have eq: "id_suffix_from mine others len = id_suffix_from mine others (len + 1)"
      by (subst id_suffix_from.simps) (auto simp: prefix_free_def list_ex_iff Let_def)
    have "\<not> (\<not> list_ex (\<lambda>other. starts_with other (take len mine)) others \<or> length mine \<le> len)"
      using False by (auto simp: prefix_free_def list_ex_iff)
    from 1 [OF refl refl this] obtain len' where *:
      "id_suffix_from mine others (len + 1) = take len' mine" "len + 1 \<le> len'"
      "len' \<le> length mine \<or> len' = len + 1" "prefix_free len' mine others \<or> length mine \<le> len'"
      "\<forall>j. len + 1 \<le> j \<and> j < len' \<longrightarrow> \<not> prefix_free j mine others" by blast
    have "\<not> prefix_free j mine others" if "len \<le> j" "j < len'" for j
      using that False *(5) by (cases "j = len") auto
    then show ?thesis using * False unfolding eq by (intro exI [of _ len']) auto
  qed
qed

lemma id_suffix_shape:
  "\<exists>n. id_suffix i ids = take n (id_chars i) \<and> n \<le> length (id_chars i) \<and>
     min MIN_ID_SUFFIX_LEN (length (id_chars i)) \<le> n \<and>
     ((\<forall>other \<in> set ids. other \<noteq> i \<longrightarrow> \<not> starts_with (id_chars other) (take n (id_chars i))) \<or>
      n = length (id_chars i)) \<and>
     (\<forall>j. min MIN_ID_SUFFIX_LEN (length (id_chars i)) \<le> j \<and> j < n \<longrightarrow>
        (\<exists>other \<in> set ids. other \<noteq> i \<and> starts_with (id_chars other) (take j (id_chars i))))"
proof -
  let ?mine = "id_chars i" and ?others = "map id_chars (filter (\<lambda>other. other \<noteq> i) ids)"
  let ?m = "min MIN_ID_SUFFIX_LEN (length ?mine)"
  obtain n where n: "id_suffix_from ?mine ?others ?m = take n ?mine" "?m \<le> n"
      "n \<le> length ?mine \<or> n = ?m" "prefix_free n ?mine ?others \<or> length ?mine \<le> n"
      "\<forall>j. ?m \<le> j \<and> j < n \<longrightarrow> \<not> prefix_free j ?mine ?others"
    using id_suffix_from_take [of ?mine ?others ?m] by blast
  have free: "prefix_free j ?mine ?others \<longleftrightarrow>
      (\<forall>other \<in> set ids. other \<noteq> i \<longrightarrow> \<not> starts_with (id_chars other) (take j (id_chars i)))" for j
    by (auto simp: prefix_free_def)
  have le: "n \<le> length ?mine" using n(3) by (metis min.cobounded2)
  have eq: "id_suffix i ids = take n ?mine" using n(1) by (simp add: id_suffix_def Let_def)
  have "prefix_free n ?mine ?others \<or> n = length ?mine" using n(4) le by (metis le_antisym)
  moreover have "\<exists>other \<in> set ids. other \<noteq> i \<and> starts_with (id_chars other) (take j (id_chars i))"
    if "?m \<le> j" "j < n" for j
    using n(5) that free [of j] by blast
  ultimately show ?thesis using eq le n(2) unfolding free by blast
qed

text \<open>
  id_suffix_shortest. The suffix is a prefix of the id's letters and digits, at least four of them where the id
  has that many. It belongs to no other id of the group, unless even the whole id is a prefix of
  another's, and no shorter admissible prefix would do.
\<close>

theorem id_suffix_shortest:
  "\<exists>n. id_suffix i ids = take n (id_chars i) \<and> min MIN_ID_SUFFIX_LEN (length (id_chars i)) \<le> n \<and>
     ((\<exists>other \<in> set ids. other \<noteq> i \<and> starts_with (id_chars other) (id_chars i)) \<or>
      (\<forall>other \<in> set ids. other \<noteq> i \<longrightarrow> \<not> starts_with (id_chars other) (take n (id_chars i)))) \<and>
     (\<forall>j. min MIN_ID_SUFFIX_LEN (length (id_chars i)) \<le> j \<and> j < n \<longrightarrow>
        (\<exists>other \<in> set ids. other \<noteq> i \<and> starts_with (id_chars other) (take j (id_chars i))))"
proof -
  obtain n where n: "id_suffix i ids = take n (id_chars i) \<and> n \<le> length (id_chars i) \<and>
     min MIN_ID_SUFFIX_LEN (length (id_chars i)) \<le> n \<and>
     ((\<forall>other \<in> set ids. other \<noteq> i \<longrightarrow> \<not> starts_with (id_chars other) (take n (id_chars i))) \<or>
      n = length (id_chars i)) \<and>
     (\<forall>j. min MIN_ID_SUFFIX_LEN (length (id_chars i)) \<le> j \<and> j < n \<longrightarrow>
        (\<exists>other \<in> set ids. other \<noteq> i \<and> starts_with (id_chars other) (take j (id_chars i))))"
    using id_suffix_shape [of i ids] by (rule exE)
  note parts = n [THEN conjunct1] n [THEN conjunct2, THEN conjunct2, THEN conjunct1]
    n [THEN conjunct2, THEN conjunct2, THEN conjunct2, THEN conjunct1]
    n [THEN conjunct2, THEN conjunct2, THEN conjunct2, THEN conjunct2]
  have "(\<exists>other \<in> set ids. other \<noteq> i \<and> starts_with (id_chars other) (id_chars i)) \<or>
      (\<forall>other \<in> set ids. other \<noteq> i \<longrightarrow> \<not> starts_with (id_chars other) (take n (id_chars i)))"
  proof (cases "n = length (id_chars i)")
    case True
    then have "take n (id_chars i) = id_chars i" by simp
    then show ?thesis by metis
  next
    case False
    then show ?thesis using parts(3) by blast
  qed
  then show ?thesis using parts(1,2,4) by (intro exI [of _ n] conjI)
qed

section \<open>The groups partition the devices\<close>

definition group_push :: "(string \<Rightarrow> string) \<Rightarrow> (string, nat list) hashmap \<Rightarrow> nat \<times> candidate \<Rightarrow> (string, nat list) hashmap" where
  "group_push lower g = (\<lambda>(idx, c).
     let k = name_key lower (cand_name c) in hm_insert k (hm_entry [] k g @ [idx]) g)"

lemma group_indices_fold: "group_indices lower visible = foldl (group_push lower) [] (enumerate 0 visible)"
  unfolding group_indices_def group_push_def by (rule refl)

lemma hm_insert_values:
  assumes "hm_ok m"
  shows "mset (concat (hm_values (hm_insert k (hm_entry [] k m @ xs) m))) = mset (concat (hm_values m)) + mset xs"
  using assms
proof (induction m)
  case Nil
  then show ?case by (simp add: hm_values_def hm_insert_def hm_entry_def hm_get_def)
next
  case (Cons kv m)
  obtain k' v' where kv: "kv = (k', v')" by force
  have ok: "hm_ok m" using Cons.prems by (simp add: hm_ok_def)
  show ?case
  proof (cases "k = k'")
    case True
    then show ?thesis by (simp add: kv hm_values_def hm_insert_def hm_entry_def hm_get_def)
  next
    case False
    then have e: "hm_entry [] k (kv # m) = hm_entry [] k m" by (simp add: kv hm_entry_def hm_get_def)
    show ?thesis
      using Cons.IH [OF ok] False unfolding e by (simp add: kv hm_values_def hm_insert_def)
  qed
qed

lemma group_fold:
  assumes "hm_ok g"
  shows "hm_ok (foldl (group_push lower) g ics) \<and>
    mset (concat (hm_values (foldl (group_push lower) g ics))) = mset (concat (hm_values g)) + mset (map fst ics)"
  using assms
proof (induction ics arbitrary: g)
  case Nil
  then show ?case by simp
next
  case (Cons ic ics)
  obtain i c where ic: "ic = (i, c)" by force
  have "hm_ok (group_push lower g ic)"
    using Cons.prems by (simp add: ic group_push_def Let_def hm.inv_put)
  moreover have "mset (concat (hm_values (group_push lower g ic))) = mset (concat (hm_values g)) + {#i#}"
    using hm_insert_values [OF Cons.prems, of _ "[i]"] by (simp add: ic group_push_def Let_def)
  ultimately show ?case using Cons.IH [of "group_push lower g ic"] by (simp add: ic)
qed

lemma groups_partition:
  "mset (concat (hm_values (group_indices lower visible))) = mset [0..<length visible]"
  using group_fold [of "[]" lower "enumerate 0 visible"]
  by (simp add: group_indices_fold hm_values_def del: mset_upt)

section \<open>Order does not matter\<close>

lemma insert_all_get:
  "distinct (map fst kvs) \<Longrightarrow>
   hm_get (insert_all kvs m) k = (case map_of kvs k of Some v \<Rightarrow> Some v | None \<Rightarrow> hm_get m k)"
proof (induction kvs arbitrary: m)
  case Nil
  then show ?case by (simp add: insert_all_def)
next
  case (Cons kv kvs)
  obtain k' v' where kv: "kv = (k', v')" by force
  have IH: "hm_get (insert_all kvs (hm_insert k' v' m)) k =
      (case map_of kvs k of Some v \<Rightarrow> Some v | None \<Rightarrow> hm_get (hm_insert k' v' m) k)"
    using Cons.IH Cons.prems by simp
  have "map_of kvs k' = None" using Cons.prems by (simp add: kv map_of_eq_None_iff)
  then show ?case using IH by (simp add: insert_all_def kv split: option.split)
qed

lemma insert_all_ok: "hm_ok m \<Longrightarrow> hm_ok (insert_all kvs m)"
  by (induction kvs arbitrary: m) (auto simp: insert_all_def hm.inv_put)

lemma group_names_ids:
  "map fst (group_names lower visible ms) = map cand_id (filter (\<lambda>c. \<not> cand_fixed c) (map (\<lambda>i. visible ! i) ms))"
  by (simp add: group_names_def disambiguate_def Let_def comp_def)

lemma concat_group_ids:
  "map fst (concat (map (group_names lower visible) gs)) =
   map cand_id (filter (\<lambda>c. \<not> cand_fixed c) (map (\<lambda>i. visible ! i) (concat gs)))"
  by (induction gs) (simp_all add: group_names_ids)

lemma group_pairs_distinct:
  assumes "distinct (map cand_id visible)" and "mset (concat gs) = mset [0..<length visible]"
  shows "distinct (map fst (concat (map (group_names lower visible) gs)))"
    and "fst ` set (concat (map (group_names lower visible) gs)) = cand_id ` {c \<in> set visible. \<not> cand_fixed c}"
proof -
  have eq: "mset (map (\<lambda>i. visible ! i) (concat gs)) = mset visible"
    using assms(2) by (metis map_nth mset_map)
  then have "mset (map cand_id (map (\<lambda>i. visible ! i) (concat gs))) = mset (map cand_id visible)"
    by (metis mset_map)
  then have "distinct (map cand_id (map (\<lambda>i. visible ! i) (concat gs)))"
    using assms(1) mset_eq_imp_distinct_iff by blast
  then show "distinct (map fst (concat (map (group_names lower visible) gs)))"
    unfolding concat_group_ids by (rule distinct_map_filter)
  have "set (map (\<lambda>i. visible ! i) (concat gs)) = set visible" using eq by (metis set_mset_mset)
  then have "set (filter (\<lambda>c. \<not> cand_fixed c) (map (\<lambda>i. visible ! i) (concat gs))) =
      {c \<in> set visible. \<not> cand_fixed c}" by (simp del: set_map set_concat add: set_filter)
  then have "set (map fst (concat (map (group_names lower visible) gs))) = cand_id ` {c \<in> set visible. \<not> cand_fixed c}"
    unfolding concat_group_ids by (metis set_map)
  then show "fst ` set (concat (map (group_names lower visible) gs)) = cand_id ` {c \<in> set visible. \<not> cand_fixed c}"
    by (metis set_map)
qed

lemma name_counts_entry:
  "hm_entry 0 k (name_counts lower ns) = length (filter (\<lambda>n. name_key lower n = k) ns)"
proof -
  have "hm_entry 0 k (foldl (\<lambda>counts n. let k = name_key lower n in hm_insert k (hm_entry 0 k counts + 1) counts) m ns) =
      hm_entry 0 k m + length (filter (\<lambda>n. name_key lower n = k) ns)" for m
    by (induction ns arbitrary: m) (auto simp: Let_def hm_entry_def)
  then show ?thesis by (simp add: name_counts_def hm_entry_def)
qed

lemma same_lookup_counts:
  assumes "hm_ok a" and "hm_ok b" and "hm_get a = hm_get b"
  shows "hm_entry 0 k (name_counts lower (hm_values a)) = hm_entry 0 k (name_counts lower (hm_values b))"
proof -
  have "set a = set b" using assms hm_get_iff by (metis subrelI subset_antisym)
  moreover have "distinct a" "distinct b" using assms(1,2) by (auto simp: hm_ok_def distinct_map)
  ultimately have "mset a = mset b" by (simp add: set_eq_iff_mset_eq_distinct)
  then have "mset (filter (\<lambda>n. name_key lower n = k) (hm_values a)) = mset (filter (\<lambda>n. name_key lower n = k) (hm_values b))"
    by (simp add: hm_values_def)
  then show ?thesis unfolding name_counts_entry by (metis size_mset)
qed

lemma resolve_same_lookup:
  assumes "hm_ok a" and "hm_ok b" and "hm_get a = hm_get b"
  shows "hm_get (resolve_suffix_clashes lower visible a) = hm_get (resolve_suffix_clashes lower visible b)"
proof -
  define step where "step = (\<lambda>(counts :: (string, nat) hashmap) m (c :: candidate).
           case hm_get m (cand_id c) of None \<Rightarrow> m
           | Some current \<Rightarrow>
               let generated = (\<not> cand_fixed c \<and> current \<noteq> cand_name c)
               in if \<not> generated \<or> hm_entry 0 (name_key lower current) counts < 2 then m
                  else hm_insert (cand_id c) (suffixed (cand_name c) (id_suffix (cand_id c) (map cand_id visible))) m)"
  let ?ca = "name_counts lower (hm_values a)" and ?cb = "name_counts lower (hm_values b)"
  have one: "hm_get (step ?ca m c) = hm_get (step ?cb m' c)" if "hm_get m = hm_get m'" for m m' c
    using that same_lookup_counts [OF assms] by (auto simp: step_def Let_def fun_eq_iff split: option.split)
  have "hm_get (foldl (step ?ca) m cs) = hm_get (foldl (step ?cb) m' cs)" if "hm_get m = hm_get m'" for m m' cs
    using that by (induction cs arbitrary: m m') (simp_all add: one)
  from this [OF assms(3)] show ?thesis
    by (simp add: resolve_suffix_clashes_def Let_def step_def)
qed

lemma visible_same:
  assumes "mset ds = mset ds'" and "distinct (map dev_id ds)"
  shows "visible_candidates ds cfg home_names = visible_candidates ds' cfg home_names"
proof -
  let ?f = "List.map_filter (candidate_of cfg home_names)"
  have f: "?f xs = map (the \<circ> candidate_of cfg home_names) (filter (\<lambda>x. candidate_of cfg home_names x \<noteq> None) xs)" for xs
    by (simp add: map_filter_def)
  have eq: "mset (?f ds) = mset (?f ds')" unfolding f using assms(1) by simp
  have "inj_on cand_id (set (?f ds'))"
  proof (rule inj_onI)
    fix x y
    assume xy: "x \<in> set (?f ds')" "y \<in> set (?f ds')" "cand_id x = cand_id y"
    then obtain a b where ab: "a \<in> set ds'" "b \<in> set ds'" "candidate_of cfg home_names a = Some x"
        "candidate_of cfg home_names b = Some y" unfolding f by auto
    then have "dev_id a = dev_id b" using xy(3) by (auto simp: candidate_of_def Let_def split: if_splits)
    then have "a = b" using ab(1,2) assms by (metis distinct_map inj_on_contraD set_mset_mset)
    then show "x = y" using ab(3,4) by simp
  qed
  then have "sort_key cand_id (?f ds') = sort_key cand_id (?f ds)"
    using eq by (intro sort_key_inj_key_eq) simp_all
  then show ?thesis by (simp add: visible_candidates_def)
qed

lemma visible_distinct:
  assumes "distinct (map dev_id ds)"
  shows "distinct (map cand_id (visible_candidates ds cfg home_names))"
proof -
  have "distinct (map cand_id (List.map_filter (candidate_of cfg home_names) ds)) \<and>
      cand_id ` set (List.map_filter (candidate_of cfg home_names) ds) \<subseteq> dev_id ` set ds"
    using assms
  proof (induction ds)
    case Nil
    then show ?case by (simp add: map_filter_def)
  next
    case (Cons d ds)
    have "cand_id c = dev_id d" if "candidate_of cfg home_names d = Some c" for c
      using that by (auto simp: candidate_of_def Let_def split: if_splits)
    with Cons show ?case by (auto simp: map_filter_simps split: option.splits)
  qed
  then show ?thesis
    by (metis (no_types) mset_eq_imp_distinct_iff mset_map mset_sort visible_candidates_def)
qed

definition first_names ::
  "(string \<Rightarrow> string) \<Rightarrow> (nat list list \<Rightarrow> nat list list) \<Rightarrow> candidate list \<Rightarrow> (string, string) hashmap" where
  "first_names lower iter visible =
     insert_all (map (\<lambda>c. (cand_id c, cand_name c)) (filter cand_fixed visible))
       (insert_all (concat (map (group_names lower visible) (iter (hm_values (group_indices lower visible))))) [])"

lemma airplay_names_first:
  "airplay_names lower iter ds cfg home_names =
   (let visible = visible_candidates ds cfg home_names
    in resolve_suffix_clashes lower visible (first_names lower iter visible))"
  by (simp add: airplay_names_def first_names_def Let_def)

lemma first_names_ok: "hm_ok (first_names lower iter visible)"
  by (simp add: first_names_def insert_all_ok)

lemma fixed_pairs_distinct:
  "distinct (map cand_id visible) \<Longrightarrow> distinct (map fst (map (\<lambda>c. (cand_id c, cand_name c)) (filter cand_fixed visible)))"
  by (simp add: comp_def distinct_map_filter)

lemma mset_concat_perm: "mset xs = mset ys \<Longrightarrow> mset (concat xs) = mset (concat ys)"
  by (metis mset_concat mset_map sum_mset_sum_list)

lemma iter_partition:
  assumes "\<And>gs. mset (iter gs) = mset gs"
  shows "mset (concat (iter (hm_values (group_indices lower visible)))) = mset [0..<length visible]"
  using groups_partition [of lower visible]
    mset_concat_perm [OF assms, of "hm_values (group_indices lower visible)"] by simp

lemma first_names_same:
  assumes "distinct (map cand_id visible)"
    and "\<And>gs. mset (iter gs) = mset gs" and "\<And>gs. mset (iter' gs) = mset gs"
  shows "hm_get (first_names lower iter visible) = hm_get (first_names lower iter' visible)"
proof -
  let ?g = "hm_values (group_indices lower visible)"
  let ?p = "\<lambda>it. concat (map (group_names lower visible) (it ?g))"
  note d = group_pairs_distinct(1) [OF assms(1) iter_partition, of _ lower lower]
  have "set (iter ?g) = set (iter' ?g)" using assms(2,3) by (metis set_mset_mset)
  then have "set (?p iter) = set (?p iter')" by (simp only: set_concat set_map)
  then have same: "map_of (?p iter) = map_of (?p iter')"
    using map_of_inject_set [OF d [OF assms(2)] d [OF assms(3)]] by blast
  have inner: "hm_get (insert_all (?p iter) []) = map_of (?p iter)" "hm_get (insert_all (?p iter') []) = map_of (?p iter')"
    using insert_all_get [OF d [OF assms(2)], of "[]"] insert_all_get [OF d [OF assms(3)], of "[]"]
    by (auto simp: fun_eq_iff split: option.split)
  show ?thesis
    using insert_all_get [OF fixed_pairs_distinct [OF assms(1)]]
    by (simp only: first_names_def fun_eq_iff inner same simp_thms)
qed

text \<open>
  C19: names_order_independent. The AirPlay name of every device is the same whatever the order of discovery and
  whatever order the hash map of groups is walked in.
\<close>

theorem names_order_independent:
  assumes "mset ds = mset ds'" and "distinct (map dev_id ds)"
    and "\<And>gs. mset (iter gs) = mset gs" and "\<And>gs. mset (iter' gs) = mset gs"
  shows "hm_get (airplay_names lower iter ds cfg home_names) d = hm_get (airplay_names lower iter' ds' cfg home_names) d"
proof -
  have "visible_candidates ds' cfg home_names = visible_candidates ds cfg home_names"
    using visible_same [OF assms(1,2)] by simp
  then show ?thesis
    unfolding airplay_names_first Let_def
    by (simp add: resolve_same_lookup [OF first_names_ok first_names_ok
          first_names_same [OF visible_distinct [OF assms(2)] assms(3,4)]])
qed

section \<open>Which name a device gets\<close>

lemma group_keys:
  assumes "\<forall>(k, ms) \<in> set g. \<forall>i \<in> set ms. i < length visible \<and> name_key lower (cand_name (visible ! i)) = k"
    and "\<forall>(i, c) \<in> set ics. i < length visible \<and> visible ! i = c"
  shows "\<forall>(k, ms) \<in> set (foldl (group_push lower) g ics).
    \<forall>i \<in> set ms. i < length visible \<and> name_key lower (cand_name (visible ! i)) = k"
  using assms
proof (induction ics arbitrary: g)
  case Nil
  then show ?case by simp
next
  case (Cons ic ics)
  obtain i c where ic: "ic = (i, c)" by force
  define k where "k = name_key lower (cand_name c)"
  have i: "i < length visible" "visible ! i = c" using Cons.prems(2) by (auto simp: ic)
  have entry: "j < length visible \<and> name_key lower (cand_name (visible ! j)) = k"
    if "j \<in> set (hm_entry [] k g)" for j
  proof (cases "hm_get g k")
    case None
    with that show ?thesis by (simp add: hm_entry_def)
  next
    case (Some v)
    then have "(k, v) \<in> set g" "j \<in> set v" using that hm_get_mem [of g k v] by (simp_all add: hm_entry_def)
    then show ?thesis using Cons.prems(1) by blast
  qed
  have "set (hm_insert k v g) \<subseteq> insert (k, v) (set g)" for v
    unfolding hm_insert_def by (induction g) auto
  then have sub: "set (group_push lower g ic) \<subseteq> insert (k, hm_entry [] k g @ [i]) (set g)"
    by (simp add: group_push_def ic Let_def k_def)
  have new: "\<forall>j \<in> set (hm_entry [] k g @ [i]). j < length visible \<and> name_key lower (cand_name (visible ! j)) = k"
    using entry i by (auto simp: k_def)
  have "\<forall>(k', ms) \<in> insert (k, hm_entry [] k g @ [i]) (set g).
      \<forall>i \<in> set ms. i < length visible \<and> name_key lower (cand_name (visible ! i)) = k'"
    using new Cons.prems(1) by simp
  then have "\<forall>(k', ms) \<in> set (group_push lower g ic).
      \<forall>i \<in> set ms. i < length visible \<and> name_key lower (cand_name (visible ! i)) = k'"
    using sub by (meson subsetD)
  then show ?case using Cons.IH [of "group_push lower g ic"] Cons.prems(2) by simp
qed

lemma group_members_share_key:
  assumes "ms \<in> set (hm_values (group_indices lower visible))" and "i \<in> set ms" and "j \<in> set ms"
  shows "name_key lower (cand_name (visible ! i)) = name_key lower (cand_name (visible ! j))"
proof -
  have "\<forall>(k, ms) \<in> set (group_indices lower visible).
      \<forall>i \<in> set ms. i < length visible \<and> name_key lower (cand_name (visible ! i)) = k"
    unfolding group_indices_fold by (rule group_keys) (auto simp: in_set_enumerate_eq)
  then show ?thesis using assms by (auto simp: hm_values_def)
qed

definition lone_name :: "(string \<Rightarrow> string) \<Rightarrow> candidate list \<Rightarrow> candidate \<Rightarrow> bool" where
  "lone_name lower visible c \<longleftrightarrow>
     (\<forall>o' \<in> set visible. name_key lower (cand_name o') = name_key lower (cand_name c) \<longrightarrow> o' = c)"

lemma group_names_value:
  assumes "distinct (map cand_id visible)" and "ms \<in> set (hm_values (group_indices lower visible))"
    and "(k, n) \<in> set (group_names lower visible ms)"
  shows "\<exists>c \<in> set visible. cand_id c = k \<and> \<not> cand_fixed c \<and>
    (n = cand_name c \<or> \<not> lone_name lower visible c \<and> (\<exists>w. n = suffixed (cand_name c) w))"
proof -
  have part: "mset (concat (hm_values (group_indices lower visible))) = mset [0..<length visible]"
    by (rule groups_partition)
  have "distinct (concat (hm_values (group_indices lower visible)))"
    using part mset_eq_imp_distinct_iff distinct_upt by blast
  then have dms: "distinct ms" using assms(2) by (simp add: distinct_concat_iff)
  have range: "i < length visible" if "i \<in> set ms" for i
  proof -
    have "i \<in> set (concat (hm_values (group_indices lower visible)))" using that assms(2) by auto
    then have "i \<in> set [0..<length visible]" using part by (metis set_mset_mset)
    then show ?thesis by simp
  qed
  obtain i where i: "i \<in> set ms" "\<not> cand_fixed (visible ! i)" "cand_id (visible ! i) = k"
    and n: "if length ms < 2 then n = cand_name (visible ! i) else \<exists>w. n = suffixed (cand_name (visible ! i)) w"
    using assms(3) by (auto simp: group_names_def disambiguate_def Let_def split: if_splits)
  have "\<not> lone_name lower visible (visible ! i)" if "\<not> length ms < 2"
  proof -
    have "\<exists>j \<in> set ms. j \<noteq> i"
    proof (rule ccontr)
      assume "\<not> (\<exists>j \<in> set ms. j \<noteq> i)"
      then have "set ms \<subseteq> {i}" by auto
      then have "card (set ms) \<le> 1" by (metis card.empty card_insert_disjoint card_mono empty_iff finite.emptyI
            finite.insertI One_nat_def)
      then show False using dms that by (simp add: distinct_card)
    qed
    then obtain j where j: "j \<in> set ms" "j \<noteq> i" by blast
    have "visible ! j \<noteq> visible ! i"
      using j(2) range [OF j(1)] range [OF i(1)] assms(1) by (metis distinct_map nth_eq_iff_index_eq)
    then show ?thesis
      using group_members_share_key [OF assms(2) j(1) i(1)] range [OF j(1)] by (auto simp: lone_name_def)
  qed
  then show ?thesis using i n range [OF i(1)] by (intro bexI [of _ "visible ! i"]) (auto split: if_splits)
qed

lemma resolve_get:
  assumes "distinct (map cand_id visible)"
  shows "hm_get (resolve_suffix_clashes lower visible m) k = hm_get m k \<or>
    (\<exists>c \<in> set visible. cand_id c = k \<and> \<not> cand_fixed c \<and> hm_get m k \<noteq> None \<and> hm_get m k \<noteq> Some (cand_name c) \<and>
      (\<exists>w. hm_get (resolve_suffix_clashes lower visible m) k = Some (suffixed (cand_name c) w)))"
proof -
  define step where "step = (\<lambda>(m0 :: (string, string) hashmap) (m :: (string, string) hashmap) (c :: candidate).
           case hm_get m (cand_id c) of None \<Rightarrow> m
           | Some current \<Rightarrow>
               let generated = (\<not> cand_fixed c \<and> current \<noteq> cand_name c)
               in if \<not> generated \<or> hm_entry 0 (name_key lower current) (name_counts lower (hm_values m0)) < 2 then m
                  else hm_insert (cand_id c) (suffixed (cand_name c) (id_suffix (cand_id c) (map cand_id visible))) m)"
  have other: "hm_get (foldl (step m0) m cs) k = hm_get m k" if "k \<notin> cand_id ` set cs" for m0 m k and cs
    using that by (induction cs arbitrary: m) (auto simp: step_def Let_def split: option.split)
  have "hm_get (foldl (step m0) m cs) k = hm_get m k \<or>
    (\<exists>c \<in> set cs. cand_id c = k \<and> \<not> cand_fixed c \<and> hm_get m k \<noteq> None \<and> hm_get m k \<noteq> Some (cand_name c) \<and>
      (\<exists>w. hm_get (foldl (step m0) m cs) k = Some (suffixed (cand_name c) w)))"
    if "distinct (map cand_id cs)" for m0 m and cs
    using that
  proof (induction cs arbitrary: m)
    case Nil
    then show ?case by simp
  next
    case (Cons c cs)
    show ?case
    proof (cases "cand_id c = k")
      case True
      then have "k \<notin> cand_id ` set cs" using Cons.prems by auto
      then have "hm_get (foldl (step m0) m (c # cs)) k = hm_get (step m0 m c) k" using other by simp
      moreover have "hm_get (step m0 m c) k = hm_get m k \<or>
          (\<not> cand_fixed c \<and> hm_get m k \<noteq> None \<and> hm_get m k \<noteq> Some (cand_name c) \<and>
           (\<exists>w. hm_get (step m0 m c) k = Some (suffixed (cand_name c) w)))"
        using True by (auto simp: step_def Let_def split: option.split)
      ultimately show ?thesis using True by auto
    next
      case False
      then have "hm_get (step m0 m c) k = hm_get m k"
        by (auto simp: step_def Let_def split: option.split)
      then show ?thesis using Cons.IH [of "step m0 m c"] Cons.prems by auto
    qed
  qed
  from this [OF assms, of m m] show ?thesis
    by (simp add: resolve_suffix_clashes_def Let_def step_def)
qed

lemma names_listed_cases:
  assumes "distinct (map dev_id ds)" and "\<And>gs. mset (iter gs) = mset gs" and "d \<in> set ds"
  shows "case candidate_of cfg home_names d of
      None \<Rightarrow> hm_get (airplay_names lower iter ds cfg home_names) (dev_id d) = None
    | Some c \<Rightarrow> \<exists>n. hm_get (airplay_names lower iter ds cfg home_names) (dev_id d) = Some n \<and>
        (if cand_fixed c \<or> lone_name lower (visible_candidates ds cfg home_names) c then n = cand_name c
         else n = cand_name c \<or> (\<exists>w. n = suffixed (cand_name c) w))"
proof -
  define visible where "visible = visible_candidates ds cfg home_names"
  define first where "first = first_names lower iter visible"
  have dist: "distinct (map cand_id visible)" unfolding visible_def by (rule visible_distinct) (rule assms(1))
  have names: "airplay_names lower iter ds cfg home_names = resolve_suffix_clashes lower visible first"
    by (simp add: airplay_names_first Let_def visible_def first_def)
  define pairs where "pairs = concat (map (group_names lower visible) (iter (hm_values (group_indices lower visible))))"
  define fixed where "fixed = map (\<lambda>c. (cand_id c, cand_name c)) (filter cand_fixed visible)"
  note part = iter_partition [OF assms(2), of lower visible]
  have first: "hm_get first k = (case map_of fixed k of Some v \<Rightarrow> Some v | None \<Rightarrow> map_of pairs k)" for k
    using insert_all_get [OF fixed_pairs_distinct [OF dist]] insert_all_get [OF group_pairs_distinct(1) [OF dist part]]
    by (simp add: first_def first_names_def pairs_def fixed_def split: option.split)
  have ids: "set visible = {c. \<exists>e \<in> set ds. candidate_of cfg home_names e = Some c}"
    by (force simp: visible_def visible_candidates_def map_filter_def image_iff)
  have cid: "cand_id c = dev_id e" if "candidate_of cfg home_names e = Some c" for c e
    using that by (auto simp: candidate_of_def Let_def split: if_splits)
  show ?thesis
  proof (cases "candidate_of cfg home_names d")
    case None
    have no: "dev_id d \<notin> cand_id ` set visible"
    proof
      assume "dev_id d \<in> cand_id ` set visible"
      then obtain e c where e: "e \<in> set ds" "candidate_of cfg home_names e = Some c" "dev_id e = dev_id d"
        using cid unfolding ids by force
      then have "e = d" using assms(1,3) by (metis distinct_map inj_on_contraD)
      then show False using e(2) None by simp
    qed
    have "map_of fixed (dev_id d) = None" using no by (auto simp: fixed_def map_of_eq_None_iff)
    moreover have "map_of pairs (dev_id d) = None"
      using no group_pairs_distinct(2) [OF dist part] by (auto simp: pairs_def map_of_eq_None_iff)
    ultimately have "hm_get first (dev_id d) = None" by (simp add: first)
    then show ?thesis using resolve_get [OF dist, of lower first "dev_id d"] no None by (auto simp: names)
  next
    case (Some c)
    have c: "c \<in> set visible" "cand_id c = dev_id d" using Some assms(3) cid ids by auto
    have uniq: "c' = c" if "c' \<in> set visible" "cand_id c' = dev_id d" for c'
      using that c dist by (metis distinct_map inj_on_contraD)
    let ?ok = "\<lambda>n. if cand_fixed c \<or> lone_name lower visible c then n = cand_name c
        else n = cand_name c \<or> (\<exists>w. n = suffixed (cand_name c) w)"
    have "\<exists>n. hm_get first (dev_id d) = Some n \<and> ?ok n"
    proof (cases "cand_fixed c")
      case True
      then have "(dev_id d, cand_name c) \<in> set fixed" using c by (force simp: fixed_def)
      then have "map_of fixed (dev_id d) = Some (cand_name c)"
        using fixed_pairs_distinct [OF dist] by (simp add: fixed_def)
      then show ?thesis using True by (simp add: first)
    next
      case False
      have "dev_id d \<notin> fst ` set fixed" using uniq False by (auto simp: fixed_def)
      then have none: "map_of fixed (dev_id d) = None" by (simp add: map_of_eq_None_iff)
      have "dev_id d \<in> fst ` set pairs"
        using group_pairs_distinct(2) [OF dist part] c False by (force simp: pairs_def)
      then obtain n where n: "(dev_id d, n) \<in> set pairs" by auto
      then have get: "map_of pairs (dev_id d) = Some n"
        using group_pairs_distinct(1) [OF dist part] by (simp add: pairs_def)
      obtain ms where ms: "ms \<in> set (iter (hm_values (group_indices lower visible)))"
          "(dev_id d, n) \<in> set (group_names lower visible ms)" using n by (auto simp: pairs_def)
      have "ms \<in> set (hm_values (group_indices lower visible))" using ms(1) assms(2) by (metis set_mset_mset)
      from group_names_value [OF dist this ms(2)] show ?thesis using uniq get none False by (auto simp: first)
    qed
    then obtain n where n: "hm_get first (dev_id d) = Some n" "?ok n" by blast
    have "\<exists>n. hm_get (resolve_suffix_clashes lower visible first) (dev_id d) = Some n \<and> ?ok n"
      using resolve_get [OF dist, of lower first "dev_id d"]
    proof
      assume "hm_get (resolve_suffix_clashes lower visible first) (dev_id d) = hm_get first (dev_id d)"
      then show ?thesis using n by (intro exI [of _ n]) simp
    next
      assume "\<exists>c \<in> set visible. cand_id c = dev_id d \<and> \<not> cand_fixed c \<and> hm_get first (dev_id d) \<noteq> None \<and>
        hm_get first (dev_id d) \<noteq> Some (cand_name c) \<and>
        (\<exists>w. hm_get (resolve_suffix_clashes lower visible first) (dev_id d) = Some (suffixed (cand_name c) w))"
      then obtain w where w: "\<not> cand_fixed c" "n \<noteq> cand_name c"
        "hm_get (resolve_suffix_clashes lower visible first) (dev_id d) = Some (suffixed (cand_name c) w)"
        using uniq n(1) by auto
      then have "?ok (suffixed (cand_name c) w)" using n(2) by (auto split: if_splits)
      then show ?thesis using w(3) by blast
    qed
    then show ?thesis unfolding names visible_def [symmetric] by (simp add: Some)
  qed
qed

lemma names_listed:
  assumes "distinct (map dev_id ds)" and "\<And>gs. mset (iter gs) = mset gs" and "d \<in> set ds"
  shows "hm_get (airplay_names lower iter ds cfg home_names) (dev_id d) \<noteq> None \<longleftrightarrow> candidate_of cfg home_names d \<noteq> None"
  using names_listed_cases [OF assms, where cfg = cfg and home_names = home_names and lower = lower] by (auto split: option.splits)

text \<open>
  names_cover_visible. Exactly the devices that the configuration does not hide get a name. A Home name or a
  configured rename is used verbatim; so is the Cast name of a device whose name no other visible device
  has; any other device gets its name, possibly with a suffix in parentheses.
\<close>

theorem names_cover_visible:
  assumes "distinct (map dev_id ds)" and "\<And>gs. mset (iter gs) = mset gs" and "d \<in> set ds"
  shows "case candidate_of cfg home_names d of
      None \<Rightarrow> hm_get (airplay_names lower iter ds cfg home_names) (dev_id d) = None
    | Some c \<Rightarrow> \<exists>n. hm_get (airplay_names lower iter ds cfg home_names) (dev_id d) = Some n \<and>
        (if cand_fixed c \<or> lone_name lower (visible_candidates ds cfg home_names) c then n = cand_name c
         else n = cand_name c \<or> (\<exists>w. n = suffixed (cand_name c) w))"
  by (rule names_listed_cases [OF assms])

section \<open>Witnesses and a clash\<close>

definition speaker :: "string \<Rightarrow> string \<Rightarrow> string \<Rightarrow> device" where
  "speaker i name model = (device_new i name [] [] 8009 i 0)\<lparr>dev_model := model\<rparr>"

definition kitchen_devices :: "device list" where
  "kitchen_devices = [speaker ''aaaa1'' ''Kitchen'' [], speaker ''bbbb2'' ''Kitchen'' []]"

lemma kitchen_distinct: "distinct (map dev_id kitchen_devices)"
  by (simp add: kitchen_devices_def speaker_def device_new_def)

theorem id_suffix_shortest_witness:
  "\<exists>n. id_suffix ''aaaa1'' [''aaaa1'', ''aaaa2''] = take n (id_chars ''aaaa1'') \<and>
     min MIN_ID_SUFFIX_LEN (length (id_chars ''aaaa1'')) \<le> n"
proof -
  obtain n where "id_suffix ''aaaa1'' [''aaaa1'', ''aaaa2''] = take n (id_chars ''aaaa1'')"
    "min MIN_ID_SUFFIX_LEN (length (id_chars ''aaaa1'')) \<le> n"
    using id_suffix_shortest [of "''aaaa1''" "[''aaaa1'', ''aaaa2'']"] by (elim exE conjE) (rule that)
  then show ?thesis by (intro exI conjI)
qed

theorem names_order_independent_witness:
  "hm_get (airplay_names to_ascii_lowercase id kitchen_devices default_config []) ''aaaa1'' =
   hm_get (airplay_names to_ascii_lowercase rev (rev kitchen_devices) default_config []) ''aaaa1''"
  by (rule names_order_independent) (simp_all add: kitchen_distinct)

theorem names_cover_visible_witness:
  "\<exists>n. hm_get (airplay_names to_ascii_lowercase id kitchen_devices default_config []) ''aaaa1'' = Some n"
proof -
  have d: "speaker ''aaaa1'' ''Kitchen'' [] \<in> set kitchen_devices" by (simp add: kitchen_devices_def)
  have c: "candidate_of default_config [] (speaker ''aaaa1'' ''Kitchen'' []) =
      Some \<lparr>cand_id = ''aaaa1'', cand_model = str_trim [], cand_name = ''Kitchen'', cand_fixed = False\<rparr>"
    by (simp add: candidate_of_def device_override_def default_config_def speaker_def device_new_def Let_def hm_get_def)
  have i: "dev_id (speaker ''aaaa1'' ''Kitchen'' []) = ''aaaa1''" by (simp add: speaker_def device_new_def)
  show ?thesis
    using names_cover_visible [OF kitchen_distinct _ d, where iter = id and cfg = default_config and home_names = "[]"
        and lower = to_ascii_lowercase]
    unfolding c i by auto
qed

text \<open>
  The last pass is meant to keep every advertised name distinct. It does not when the generated name already is
  the one with the id suffix: a third speaker that is really called like that keeps its name, and so does the
  generated one.
\<close>

definition clash_devices :: "device list" where
  "clash_devices = [speaker ''aaaa'' ''K'' [], speaker ''bb'' ''K'' [], speaker ''c'' ''K (aaaa)'' []]"

lemma suffix_clash_remains:
  "hm_get (airplay_names to_ascii_lowercase id clash_devices default_config []) ''aaaa'' = Some ''K (aaaa)'' \<and>
   hm_get (airplay_names to_ascii_lowercase id clash_devices default_config []) ''c'' = Some ''K (aaaa)''"
  by code_simp

end
