(* ===== verification/Airplay_Session.thy ===== *)
theory Airplay_Session
  imports Bridge_State Audio
begin

text \<open>
  One AirPlay receiver as the bridge hears it (\<open>src/airplay/mod.rs\<close>): the ring slot, the sessions that
  decode into rc_rings, and the handler that publishes \<open>AirPlaySessionEvent\<close>s.

  The receiver stack (shairplay) runs the callbacks on its own threads. \<open>ring_slot\<close> is a mutex:
  \<open>replace_ring\<close> and \<open>end_if_current\<close> are one step each, and \<open>audio_init\<close> is two, because it sends
  \<open>Started\<close> after it released the lock; anything may happen in between. The other callbacks
  belong to one session (\<open>&mut self\<close>) or lock the now-playing state, and are one step. A ring is
  known by its address; the store \<open>rc_rings\<close> holds what is in it. \<open>event_log\<close> is the channel to the bridge in
  the order of the sends, empty for ever when the receiver has no sender. The counter of artwork ids is
  shared by every receiver of the process, so it may also move between two steps.
\<close>

section \<open>State\<close>

record ring_session =
  rs_ring :: ring_ref
  cast_paused :: bool

record receiver_state =
  rc_device :: string
  has_event_tx :: bool
  ring_slot :: ring_ref
  rc_rings :: "(nat, pcm_ring) hashmap"
  next_ring :: nat
  rc_now_playing :: now_playing
  rc_group :: "string option"
  next_artwork_id :: u64
  event_log :: "airplay_event list"
  unpublished :: "(nat, ring_ref \<times> u32) hashmap"
  ring_sessions :: "(nat, ring_session) hashmap"

definition DEFAULT_RING_FRAMES :: usize where
  "DEFAULT_RING_FRAMES = 48000 * 2"

definition SESSION_RING_HEADROOM_SECONDS :: u64 where
  "SESSION_RING_HEADROOM_SECONDS = 8"

definition OUTPUT_MAX_CHANNELS :: u8 where
  "OUTPUT_MAX_CHANNELS = 2"

definition session_ring_frames :: "u32 \<Rightarrow> usize" where
  "session_ring_frames rate =
     (let seconds = saturating_add (of_nat (CAST_READ_AHEAD div from_secs 1)) SESSION_RING_HEADROOM_SECONDS
      in unat (saturating_mul (ucast (max rate 1)) seconds))"

definition send_event :: "airplay_event \<Rightarrow> receiver_state \<Rightarrow> receiver_state" where
  "send_event ev s = (if has_event_tx s then s\<lparr>event_log := event_log s @ [ev]\<rparr> else s)"

definition with_ring :: "ring_ref \<Rightarrow> (pcm_ring \<Rightarrow> pcm_ring) \<Rightarrow> receiver_state \<Rightarrow> receiver_state" where
  "with_ring r f s =
     s\<lparr>rc_rings := (case hm_get (rc_rings s) (ring_ptr r) of None \<Rightarrow> rc_rings s
                 | Some b \<Rightarrow> hm_insert (ring_ptr r) (f b) (rc_rings s))\<rparr>"

definition alloc_ring :: "u16 \<Rightarrow> usize \<Rightarrow> receiver_state \<Rightarrow> ring_ref \<times> receiver_state" where
  "alloc_ring ch frames s =
     (let b = ring_new ch frames; r = \<lparr>ring_ptr = next_ring s, ring_channels = channels b\<rparr>
      in (r, s\<lparr>rc_rings := hm_insert (ring_ptr r) b (rc_rings s), next_ring := next_ring s + 1\<rparr>))"

section \<open>The ring slot\<close>

definition current_ring :: "receiver_state \<Rightarrow> ring_ref" where
  "current_ring s = ring_slot s"

definition replace_ring :: "ring_ref \<Rightarrow> receiver_state \<Rightarrow> receiver_state" where
  "replace_ring r s = s\<lparr>ring_slot := r\<rparr>"

definition end_if_current :: "ring_ref \<Rightarrow> receiver_state \<Rightarrow> receiver_state \<times> bool" where
  "end_if_current r s =
     (if \<not> ptr_eq (ring_slot s) r then (s, False)
      else
        let s1 = with_ring r ring_clear s;
            (placeholder, s2) = alloc_ring (ring_channels r) DEFAULT_RING_FRAMES s1;
            s3 = s2\<lparr>ring_slot := placeholder\<rparr>
        in (send_event (EvEnded (rc_device s)) s3, True))"

section \<open>A session\<close>

definition ring_session_new :: "ring_ref \<Rightarrow> ring_session" where
  "ring_session_new r = \<lparr>rs_ring = r, cast_paused = False\<rparr>"

definition note_pcm :: "ring_session \<Rightarrow> receiver_state \<Rightarrow> ring_session \<times> receiver_state" where
  "note_pcm k s =
     (k\<lparr>cast_paused := False\<rparr>, if cast_paused k then send_event (EvResumed (rc_device s)) s else s)"

definition emit_flush_and_pause ::
  "instant \<Rightarrow> ring_session \<Rightarrow> receiver_state \<Rightarrow> ring_session \<times> receiver_state" where
  "emit_flush_and_pause now k s =
     (let s1 = with_ring (rs_ring k) ring_clear s;
          s2 = send_event (EvFlushed (rc_device s)) s1
      in (k\<lparr>cast_paused := True\<rparr>, if cast_paused k then s2 else send_event (EvPaused (rc_device s) now) s2))"

definition audio_process :: "f32 list \<Rightarrow> ring_session \<Rightarrow> receiver_state \<Rightarrow> ring_session \<times> receiver_state" where
  "audio_process xs k s =
     (let (k1, s1) = note_pcm k s in (k1, with_ring (rs_ring k) (push_f32 xs) s1))"

definition audio_flush :: "instant \<Rightarrow> ring_session \<Rightarrow> receiver_state \<Rightarrow> ring_session \<times> receiver_state" where
  "audio_flush now k s = emit_flush_and_pause now k s"

definition on_flush :: "instant \<Rightarrow> ring_session \<Rightarrow> receiver_state \<Rightarrow> ring_session \<times> receiver_state" where
  "on_flush now k s = emit_flush_and_pause now k s"

definition on_rate :: "u32 \<Rightarrow> instant \<Rightarrow> ring_session \<Rightarrow> receiver_state \<Rightarrow> ring_session \<times> receiver_state" where
  "on_rate rate now k s =
     (if rate = 0 then
        (k\<lparr>cast_paused := True\<rparr>, if cast_paused k then s else send_event (EvPaused (rc_device s) now) s)
      else
        (k\<lparr>cast_paused := False\<rparr>, if cast_paused k then send_event (EvResumed (rc_device s)) s else s))"

definition drop_session :: "ring_session \<Rightarrow> receiver_state \<Rightarrow> receiver_state" where
  "drop_session k s = fst (end_if_current (rs_ring k) s)"

section \<open>The handler\<close>

definition default_now_playing :: now_playing where
  "default_now_playing = \<lparr>np_title = None, np_artist = None, np_album = None, np_artwork = None\<rparr>"

text \<open>\<open>audio_init\<close> up to \<open>replace_ring\<close>, and from the send of \<open>Started\<close>.\<close>

definition init_replace :: "u32 \<Rightarrow> u8 \<Rightarrow> receiver_state \<Rightarrow> receiver_state" where
  "init_replace format_rate format_channels s =
     (let rate = max format_rate 1;
          ch = ucast (min (max format_channels 1) OUTPUT_MAX_CHANNELS);
          (r, s1) = alloc_ring ch (session_ring_frames rate) s;
          s2 = replace_ring r s1
      in s2\<lparr>unpublished := hm_insert (ring_ptr r) (r, rate) (unpublished s2)\<rparr>)"

definition init_publish :: "nat \<Rightarrow> receiver_state \<Rightarrow> receiver_state" where
  "init_publish p s =
     (case hm_get (unpublished s) p of None \<Rightarrow> s
      | Some (r, rate) \<Rightarrow>
          let s1 = send_event (EvStarted (rc_device s) rate r (rc_group s)) s
          in s1\<lparr>unpublished := hm_remove p (unpublished s1),
                ring_sessions := hm_insert p (ring_session_new r) (ring_sessions s1)\<rparr>)"

definition on_session_group :: "string option \<Rightarrow> bool \<Rightarrow> receiver_state \<Rightarrow> receiver_state" where
  "on_session_group uuid is_multi_select s = s\<lparr>rc_group := (if is_multi_select then uuid else None)\<rparr>"

definition on_volume :: "f32 \<Rightarrow> receiver_state \<Rightarrow> receiver_state" where
  "on_volume v s = send_event (EvVolume (rc_device s) v) s"

definition on_metadata ::
  "string option \<Rightarrow> string option \<Rightarrow> string option \<Rightarrow> receiver_state \<Rightarrow> receiver_state" where
  "on_metadata t_title t_artist t_album s =
     (let np = rc_now_playing s in
      if np_title np = t_title \<and> np_artist np = t_artist \<and> np_album np = t_album then s
      else
        let np' = np\<lparr>np_title := t_title, np_artist := t_artist, np_album := t_album\<rparr>
        in send_event (EvNowPlaying (rc_device s) np') (s\<lparr>rc_now_playing := np'\<rparr>))"

definition on_coverart :: "string \<Rightarrow> u8 list \<Rightarrow> receiver_state \<Rightarrow> receiver_state" where
  "on_coverart mime coverart s =
     (if length coverart > MAX_ARTWORK_BYTES then s
      else if (case np_artwork (rc_now_playing s) of None \<Rightarrow> False
               | Some art \<Rightarrow> art_type art = mime \<and> art_body art = coverart) then s
      else
        let art = \<lparr>art_id = next_artwork_id s, art_type = mime, art_body = coverart\<rparr>;
            np' = (rc_now_playing s)\<lparr>np_artwork := Some art\<rparr>
        in send_event (EvNowPlaying (rc_device s) np')
             (s\<lparr>next_artwork_id := next_artwork_id s + 1, rc_now_playing := np'\<rparr>))"

definition on_client_connected :: "receiver_state \<Rightarrow> receiver_state" where
  "on_client_connected s = s"

definition on_client_disconnected :: "receiver_state \<Rightarrow> receiver_state" where
  "on_client_disconnected s = s"

definition receiver_new :: "string \<Rightarrow> bool \<Rightarrow> u64 \<Rightarrow> receiver_state" where
  "receiver_new did tx art =
     (let s = \<lparr>rc_device = did, has_event_tx = tx, ring_slot = \<lparr>ring_ptr = 0, ring_channels = 2\<rparr>,
               rc_rings = [(0, ring_new 2 DEFAULT_RING_FRAMES)], next_ring = 1,
               rc_now_playing = default_now_playing, rc_group = None, next_artwork_id = art,
               event_log = [], unpublished = [], ring_sessions = []\<rparr>
      in s)"

section \<open>Runs\<close>

datatype session_op =
    AudioProcess "f32 list"
  | AudioFlush instant
  | OnRate u32 instant
  | OnFlush instant

fun session_step :: "session_op \<Rightarrow> ring_session \<Rightarrow> receiver_state \<Rightarrow> ring_session \<times> receiver_state" where
  "session_step (AudioProcess xs) k s = audio_process xs k s"
| "session_step (AudioFlush now) k s = audio_flush now k s"
| "session_step (OnRate rate now) k s = on_rate rate now k s"
| "session_step (OnFlush now) k s = on_flush now k s"

datatype airplay_op =
    InitReplace u32 u8
  | InitPublish nat
  | InSession nat session_op
  | DropSession nat
  | SessionGroup "string option" bool
  | SenderVolume f32
  | Metadata "string option" "string option" "string option"
  | Coverart string "u8 list"
  | ClientConnected
  | ClientDisconnected
  | ArtworkElsewhere

fun airplay_step :: "receiver_state \<Rightarrow> airplay_op \<Rightarrow> receiver_state" where
  "airplay_step s (InitReplace rate ch) = init_replace rate ch s"
| "airplay_step s (InitPublish p) = init_publish p s"
| "airplay_step s (InSession p op) =
     (case hm_get (ring_sessions s) p of None \<Rightarrow> s
      | Some k \<Rightarrow> let (k', s') = session_step op k s
                  in s'\<lparr>ring_sessions := hm_insert p k' (ring_sessions s')\<rparr>)"
| "airplay_step s (DropSession p) =
     (case hm_get (ring_sessions s) p of None \<Rightarrow> s
      | Some k \<Rightarrow> drop_session k (s\<lparr>ring_sessions := hm_remove p (ring_sessions s)\<rparr>))"
| "airplay_step s (SessionGroup uuid multi) = on_session_group uuid multi s"
| "airplay_step s (SenderVolume v) = on_volume v s"
| "airplay_step s (Metadata t a l) = on_metadata t a l s"
| "airplay_step s (Coverart mime body) = on_coverart mime body s"
| "airplay_step s ClientConnected = on_client_connected s"
| "airplay_step s ClientDisconnected = on_client_disconnected s"
| "airplay_step s ArtworkElsewhere = s\<lparr>next_artwork_id := next_artwork_id s + 1\<rparr>"

text \<open>
  What the bridge is told about the stream of a ring: an \<open>Ended\<close> (which names no ring) or the \<open>Started\<close>
  of that ring. It ignores the \<open>Started\<close> of a ring the receiver has replaced.
\<close>

fun concerns :: "nat \<Rightarrow> airplay_event \<Rightarrow> bool" where
  "concerns p (EvStarted d rate r g) = (ring_ptr r = p)"
| "concerns p (EvEnded d) = True"
| "concerns p _ = False"

definition told :: "nat \<Rightarrow> airplay_event list \<Rightarrow> airplay_event option" where
  "told p evs = (let xs = filter (concerns p) evs in if xs = [] then None else Some (last xs))"

text \<open>The pauses and resumes of a log: \<open>None\<close> once one is repeated, else whether it ends paused.\<close>

fun pause_monitor :: "bool \<Rightarrow> airplay_event list \<Rightarrow> bool option" where
  "pause_monitor p [] = Some p"
| "pause_monitor p (EvPaused d t # evs) = (if p then None else pause_monitor True evs)"
| "pause_monitor p (EvResumed d # evs) = (if p then pause_monitor False evs else None)"
| "pause_monitor p (ev # evs) = pause_monitor p evs"

fun now_playing_of :: "airplay_event list \<Rightarrow> now_playing list" where
  "now_playing_of [] = []"
| "now_playing_of (EvNowPlaying d np # evs) = np # now_playing_of evs"
| "now_playing_of (ev # evs) = now_playing_of evs"

section \<open>Invariants\<close>

definition stream_tracked :: "receiver_state \<Rightarrow> bool" where
  "stream_tracked s \<longleftrightarrow>
     ring_ptr (ring_slot s) < next_ring s \<and>
     (\<forall>p r rate. hm_get (unpublished s) p = Some (r, rate) \<longrightarrow> ring_ptr r = p \<and> p < next_ring s) \<and>
     (\<forall>p k. hm_get (ring_sessions s) p = Some k \<longrightarrow> ring_ptr (rs_ring k) = p \<and> p < next_ring s) \<and>
     (has_event_tx s \<longrightarrow>
      (\<forall>k. hm_get (ring_sessions s) (ring_ptr (ring_slot s)) = Some k \<longrightarrow>
         (\<exists>rate g. told (ring_ptr (ring_slot s)) (event_log s) = Some (EvStarted (rc_device s) rate (rs_ring k) g))))"

lemma told_append: "told p (evs @ [ev]) = (if concerns p ev then Some ev else told p evs)"
  by (simp add: told_def)

lemma pause_monitor_append:
  "pause_monitor p (a @ b) = (case pause_monitor p a of None \<Rightarrow> None | Some q \<Rightarrow> pause_monitor q b)"
  by (induction p a rule: pause_monitor.induct) auto

lemma now_playing_append: "now_playing_of (a @ b) = now_playing_of a @ now_playing_of b"
  by (induction a rule: now_playing_of.induct) auto

text \<open>Steps that leave the slot, the sessions and the lifecycle events alone.\<close>

definition same_streams :: "receiver_state \<Rightarrow> receiver_state \<Rightarrow> bool" where
  "same_streams s s' \<longleftrightarrow>
     rc_device s' = rc_device s \<and> has_event_tx s' = has_event_tx s \<and> ring_slot s' = ring_slot s \<and>
     next_ring s' = next_ring s \<and> unpublished s' = unpublished s \<and> ring_sessions s' = ring_sessions s \<and>
     (\<forall>p. told p (event_log s') = told p (event_log s))"

lemma same_streams_refl [simp]: "same_streams s s"
  by (simp add: same_streams_def)

lemma same_streams_trans: "same_streams a b \<Longrightarrow> same_streams b c \<Longrightarrow> same_streams a c"
  by (simp add: same_streams_def)

lemma same_streams_send: "(\<And>p. \<not> concerns p ev) \<Longrightarrow> same_streams s (send_event ev s)"
  by (simp add: same_streams_def send_event_def told_append)

lemma same_streams_ring [simp]: "same_streams s (with_ring r f s)"
  by (simp add: same_streams_def with_ring_def)

lemma same_streams_fields [simp]:
  "same_streams s (s\<lparr>rc_now_playing := np\<rparr>)"
  "same_streams s (s\<lparr>next_artwork_id := a, rc_now_playing := np\<rparr>)"
  "same_streams s (s\<lparr>next_artwork_id := a\<rparr>)"
  "same_streams s (s\<lparr>rc_group := g\<rparr>)"
  by (simp_all add: same_streams_def)

lemma same_streams_ok: "same_streams s s' \<Longrightarrow> stream_tracked s \<Longrightarrow> stream_tracked s'"
  by (simp add: same_streams_def stream_tracked_def)

lemma flush_frame: "same_streams s (snd (emit_flush_and_pause now k s))"
proof -
  have "same_streams s (send_event (EvFlushed (rc_device s)) (with_ring (rs_ring k) ring_clear s))"
    by (rule same_streams_trans [OF same_streams_ring same_streams_send]) simp
  moreover have "same_streams s1 (send_event (EvPaused d now) s1)" for s1 d
    by (rule same_streams_send) simp
  ultimately show ?thesis
    by (auto simp: emit_flush_and_pause_def Let_def intro: same_streams_trans)
qed

lemma process_frame: "same_streams s (snd (audio_process xs k s))"
proof -
  have "same_streams s (snd (note_pcm k s))"
    by (simp add: note_pcm_def same_streams_send)
  then show ?thesis
    by (auto simp: audio_process_def split: prod.split intro: same_streams_trans same_streams_ring)
qed

lemma rate_frame: "same_streams s (snd (on_rate rate now k s))"
  by (simp add: on_rate_def same_streams_send)

lemma session_step_frame: "same_streams s (snd (session_step op k s))"
  by (cases op) (simp_all add: process_frame rate_frame flush_frame audio_flush_def on_flush_def)

lemma session_step_ring: "rs_ring (fst (session_step op k s)) = rs_ring k"
  by (cases op)
    (simp_all add: audio_process_def audio_flush_def on_flush_def on_rate_def note_pcm_def
      emit_flush_and_pause_def Let_def)

lemma handler_frame:
  "same_streams s (on_session_group u m s)" "same_streams s (on_volume v s)"
  "same_streams s (on_metadata t a l s)" "same_streams s (on_coverart mime body s)"
  by (simp_all add: on_session_group_def on_volume_def on_metadata_def on_coverart_def Let_def
      same_streams_send same_streams_trans [OF same_streams_fields(1) same_streams_send]
      same_streams_trans [OF same_streams_fields(2) same_streams_send])

lemma in_session_ok:
  assumes "stream_tracked s" and "hm_get (ring_sessions s) p = Some k"
  shows "stream_tracked (airplay_step s (InSession p op))"
proof -
  obtain k' s' where st: "session_step op k s = (k', s')" by force
  have ok: "stream_tracked s'" and same: "same_streams s s'"
    using session_step_frame [of s op k] same_streams_ok [of s s'] assms(1) st by auto
  have ring: "rs_ring k' = rs_ring k" using session_step_ring [of op k s] st by simp
  have get: "hm_get (ring_sessions s') p = Some k" using same assms(2) by (simp add: same_streams_def)
  have "stream_tracked (s'\<lparr>ring_sessions := hm_insert p k' (ring_sessions s')\<rparr>)"
    using ok get ring by (auto simp: stream_tracked_def)
  with st assms(2) show ?thesis by simp
qed

lemma init_replace_ok:
  assumes "stream_tracked s"
  shows "stream_tracked (init_replace rate ch s)"
proof -
  have "hm_get (ring_sessions s) (next_ring s) = None"
    using assms by (cases "hm_get (ring_sessions s) (next_ring s)") (auto simp: stream_tracked_def)
  with assms show ?thesis
    by (auto simp: init_replace_def alloc_ring_def replace_ring_def stream_tracked_def Let_def less_Suc_eq)
qed

lemma init_publish_ok:
  assumes "stream_tracked s"
  shows "stream_tracked (init_publish p s)"
proof (cases "hm_get (unpublished s) p")
  case None
  with assms show ?thesis by (simp add: init_publish_def)
next
  case (Some x)
  obtain r rate where x: "x = (r, rate)" by force
  have r: "ring_ptr r = p" "p < next_ring s" using assms Some x by (auto simp: stream_tracked_def)
  show ?thesis
    using assms Some x r(2) unfolding r(1) [symmetric]
    by (auto simp: init_publish_def stream_tracked_def Let_def send_event_def told_append ring_session_new_def)
qed

lemma drop_session_ok:
  assumes "stream_tracked s" and k: "hm_get (ring_sessions s) p = Some k"
  shows "stream_tracked (drop_session k (s\<lparr>ring_sessions := hm_remove p (ring_sessions s)\<rparr>))"
proof -
  have ring: "ring_ptr (rs_ring k) = p" using assms by (auto simp: stream_tracked_def)
  have "hm_get (ring_sessions s) (next_ring s) = None"
    using assms by (cases "hm_get (ring_sessions s) (next_ring s)") (auto simp: stream_tracked_def)
  with assms ring show ?thesis
    by (auto simp: drop_session_def end_if_current_def alloc_ring_def stream_tracked_def Let_def send_event_def
        told_append with_ring_def ptr_eq_def less_Suc_eq)
qed

lemma airplay_step_ok: "stream_tracked s \<Longrightarrow> stream_tracked (airplay_step s op)"
proof (cases op)
  case (InSession p sop)
  assume "stream_tracked s"
  then show ?thesis using in_session_ok InSession by (cases "hm_get (ring_sessions s) p") auto
next
  case (DropSession p)
  assume "stream_tracked s"
  then show ?thesis using drop_session_ok DropSession by (cases "hm_get (ring_sessions s) p") auto
qed (auto simp: init_replace_ok init_publish_ok on_client_connected_def on_client_disconnected_def
    intro: same_streams_ok [OF handler_frame(1)] same_streams_ok [OF handler_frame(2)]
      same_streams_ok [OF handler_frame(3)] same_streams_ok [OF handler_frame(4)]
      same_streams_ok [OF same_streams_fields(3)])

interpretation airplay_runs: event_machine airplay_step stream_tracked
  by unfold_locales (rule airplay_step_ok)

lemma step_identity:
  "rc_device (airplay_step s op) = rc_device s \<and> has_event_tx (airplay_step s op) = has_event_tx s"
proof (cases op)
  case (InSession p sop)
  then show ?thesis
    using session_step_frame [of s sop]
    by (auto simp: same_streams_def split: option.split prod.split) (metis snd_conv)+
next
  case (DropSession p)
  then show ?thesis
    by (auto simp: drop_session_def end_if_current_def alloc_ring_def send_event_def with_ring_def Let_def
        split: option.split)
next
  case (SessionGroup u m)
  then show ?thesis using handler_frame(1) [of s] by (simp add: same_streams_def)
next
  case (SenderVolume v)
  then show ?thesis using handler_frame(2) [of s] by (simp add: same_streams_def)
next
  case (Metadata t a l)
  then show ?thesis using handler_frame(3) [of s] by (simp add: same_streams_def)
next
  case (Coverart m b)
  then show ?thesis using handler_frame(4) [of s] by (simp add: same_streams_def)
qed (auto simp: init_replace_def init_publish_def alloc_ring_def replace_ring_def send_event_def Let_def
    on_client_connected_def on_client_disconnected_def split: option.split)

lemma run_identity:
  "rc_device (foldl airplay_step s ops) = rc_device s"
  "has_event_tx (foldl airplay_step s ops) = has_event_tx s"
  by (induction ops arbitrary: s) (auto simp: step_identity)

lemma receiver_new_fields [simp]:
  "rc_device (receiver_new did tx art) = did" "has_event_tx (receiver_new did tx art) = tx"
  by (simp_all add: receiver_new_def)

lemma receiver_new_ok: "stream_tracked (receiver_new did tx art)"
  by (simp add: receiver_new_def stream_tracked_def)

section \<open>What the bridge is told\<close>

text \<open>
  C7: no_stale_end. Whatever the threads of the receiver stack do, when the stream of the current ring has a
  session, the last thing the bridge was told about it is its own \<open>Started\<close>, with that ring: no \<open>Ended\<close>
  of an older stream arrives after it.
\<close>

theorem no_stale_end:
  assumes "hm_get (ring_sessions s) (ring_ptr (current_ring s)) = Some k"
    and "s = foldl airplay_step (receiver_new did True art) ops"
  shows "\<exists>rate g. told (ring_ptr (current_ring s)) (event_log s) = Some (EvStarted did rate (rs_ring k) g)"
proof -
  have ok: "stream_tracked s" unfolding assms(2) by (rule airplay_runs.run_inv) (rule receiver_new_ok)
  have id: "rc_device s = did" "has_event_tx s" unfolding assms(2) by (simp_all add: run_identity)
  show ?thesis using ok assms(1) id by (auto simp: stream_tracked_def current_ring_def)
qed

text \<open>
  drop_ends_current_only. Dropping the session of the current ring empties that ring, puts a fresh placeholder in
  the slot and sends one \<open>Ended\<close>; dropping a superseded session changes neither the slot nor the log.
\<close>

theorem drop_ends_current_only:
  assumes "stream_tracked s" and "has_event_tx s" and "hm_get (ring_sessions s) p = Some k"
    and "s' = airplay_step s (DropSession p)"
  shows "hm_get (ring_sessions s') p = None \<and>
    (if p = ring_ptr (current_ring s)
     then event_log s' = event_log s @ [EvEnded (rc_device s)] \<and>
          hm_get (rc_rings s') p = map_option ring_clear (hm_get (rc_rings s) p) \<and>
          ring_ptr (current_ring s') = next_ring s \<and> hm_get (ring_sessions s') (next_ring s) = None
     else event_log s' = event_log s \<and> current_ring s' = current_ring s)"
proof -
  have ring: "ring_ptr (rs_ring k) = p" "p < next_ring s" using assms(1,3) by (auto simp: stream_tracked_def)
  have none: "hm_get (ring_sessions s) (next_ring s) = None"
    using assms(1) by (cases "hm_get (ring_sessions s) (next_ring s)") (auto simp: stream_tracked_def)
  show ?thesis
    using assms(2,3) ring none unfolding assms(4)
    by (auto simp: drop_session_def end_if_current_def alloc_ring_def Let_def send_event_def with_ring_def
        ptr_eq_def current_ring_def split: option.split)
qed

section \<open>Pauses and resumes\<close>

definition session_run ::
  "session_op list \<Rightarrow> ring_session \<times> receiver_state \<Rightarrow> ring_session \<times> receiver_state" where
  "session_run ops ks = foldl (\<lambda>(k, s) op. session_step op k s) ks ops"

lemma with_ring_log [simp]:
  "event_log (with_ring r f s) = event_log s" "has_event_tx (with_ring r f s) = has_event_tx s"
  "rc_device (with_ring r f s) = rc_device s"
  by (simp_all add: with_ring_def)

lemma send_event_log [simp]:
  "event_log (send_event ev s) = (if has_event_tx s then event_log s @ [ev] else event_log s)"
  "has_event_tx (send_event ev s) = has_event_tx s" "rc_device (send_event ev s) = rc_device s"
  "next_artwork_id (send_event ev s) = next_artwork_id s"
  by (simp_all add: send_event_def)

lemma session_step_pauses:
  assumes "has_event_tx s" and "session_step op k s = (k', s')"
  shows "has_event_tx s' \<and> (\<exists>new. event_log s' = event_log s @ new \<and>
    pause_monitor (cast_paused k) new = Some (cast_paused k'))"
  using assms
  by (cases op)
    (auto simp: audio_process_def audio_flush_def on_flush_def on_rate_def note_pcm_def emit_flush_and_pause_def
      Let_def split: if_splits)

lemma session_run_pauses:
  "has_event_tx s \<Longrightarrow> session_run ops (k, s) = (k', s') \<Longrightarrow>
   \<exists>new. event_log s' = event_log s @ new \<and> pause_monitor (cast_paused k) new = Some (cast_paused k')"
proof (induction ops arbitrary: k s)
  case Nil
  then show ?case by (simp add: session_run_def)
next
  case (Cons op ops)
  obtain k1 s1 where st: "session_step op k s = (k1, s1)" by force
  have run: "session_run ops (k1, s1) = (k', s')" using Cons.prems(2) st by (simp add: session_run_def)
  obtain n1 where n1: "has_event_tx s1" "event_log s1 = event_log s @ n1"
    "pause_monitor (cast_paused k) n1 = Some (cast_paused k1)"
    using session_step_pauses [OF Cons.prems(1) st] by blast
  obtain n2 where n2: "event_log s' = event_log s1 @ n2"
    "pause_monitor (cast_paused k1) n2 = Some (cast_paused k')"
    using Cons.IH [OF n1(1) run] by blast
  have "event_log s' = event_log s @ (n1 @ n2)" using n1(2) n2(1) by simp
  moreover have "pause_monitor (cast_paused k) (n1 @ n2) = Some (cast_paused k')"
    using n1(3) n2(2) by (simp add: pause_monitor_append)
  ultimately show ?case by blast
qed

text \<open>
  pauses_alternate. Over any callbacks of one session (PCM, flushes, rates), the events it sends alternate
  between \<open>Paused\<close> and \<open>Resumed\<close>, beginning with \<open>Paused\<close>, and end on the side its flag says.
\<close>

theorem pauses_alternate:
  assumes "has_event_tx s" and "session_run ops (ring_session_new r, s) = (k', s')"
  shows "\<exists>new. event_log s' = event_log s @ new \<and> pause_monitor False new = Some (cast_paused k')"
  using session_run_pauses [OF assms] by (simp add: ring_session_new_def)

section \<open>Now playing\<close>

definition now_playing_ok :: "receiver_state \<Rightarrow> bool" where
  "now_playing_ok s \<longleftrightarrow>
     has_event_tx s \<and>
     (let nps = default_now_playing # now_playing_of (event_log s)
      in last nps = rc_now_playing s \<and> distinct_adj nps)"

text \<open>The same for events that are no now-playing events.\<close>

lemma now_playing_other: "(\<And>d np. ev \<noteq> EvNowPlaying d np) \<Longrightarrow> now_playing_of (evs @ [ev]) = now_playing_of evs"
  by (cases ev) (auto simp: now_playing_append)

lemma now_playing_ok_other:
  assumes "now_playing_of (event_log s') = now_playing_of (event_log s)" and "rc_now_playing s' = rc_now_playing s"
    and "has_event_tx s' = has_event_tx s"
  shows "now_playing_ok s' = now_playing_ok s"
  using assms by (simp add: now_playing_ok_def)

lemma distinct_adj_snoc: "distinct_adj (xs @ [x]) \<longleftrightarrow> (xs = [] \<or> distinct_adj xs \<and> last xs \<noteq> x)"
  by (induction xs rule: induct_list012) auto

lemma now_playing_ok_send:
  assumes "now_playing_ok s" and "np \<noteq> rc_now_playing s" and "event_log s' = event_log s @ [EvNowPlaying d np]"
    and "rc_now_playing s' = np" and "has_event_tx s'"
  shows "now_playing_ok s'"
proof -
  define nps where "nps = default_now_playing # now_playing_of (event_log s)"
  have "distinct_adj (nps @ [np])"
    using assms(1,2) by (simp add: now_playing_ok_def nps_def [symmetric] distinct_adj_snoc Let_def)
  then show ?thesis using assms(3-5) by (simp add: now_playing_ok_def now_playing_append nps_def)
qed

lemma metadata_step:
  assumes "now_playing_ok s"
  shows "now_playing_ok (on_metadata t a l s)"
proof (cases "np_title (rc_now_playing s) = t \<and> np_artist (rc_now_playing s) = a \<and> np_album (rc_now_playing s) = l")
  case True
  then show ?thesis using assms by (simp add: on_metadata_def)
next
  case False
  define np where "np = (rc_now_playing s)\<lparr>np_title := t, np_artist := a, np_album := l\<rparr>"
  have "np_title np = t \<and> np_artist np = a \<and> np_album np = l" by (simp add: np_def)
  then have "np \<noteq> rc_now_playing s" using False by auto
  moreover have "on_metadata t a l s = send_event (EvNowPlaying (rc_device s) np) (s\<lparr>rc_now_playing := np\<rparr>)"
    using False by (auto simp: on_metadata_def np_def Let_def)
  moreover have "has_event_tx s" using assms by (simp add: now_playing_ok_def)
  ultimately show ?thesis
    using assms by (auto intro!: now_playing_ok_send [where s = s and np = np and d = "rc_device s"] simp: send_event_def)
qed

lemma coverart_step:
  assumes "now_playing_ok s"
  shows "now_playing_ok (on_coverart mime body s)"
proof (cases "on_coverart mime body s = s")
  case True
  then show ?thesis using assms by simp
next
  case False
  define art where "art = \<lparr>art_id = next_artwork_id s, art_type = mime, art_body = body\<rparr>"
  define np where "np = (rc_now_playing s)\<lparr>np_artwork := Some art\<rparr>"
  have "np \<noteq> rc_now_playing s"
  proof
    assume "np = rc_now_playing s"
    then have "np_artwork (rc_now_playing s) = Some art" by (metis np_def now_playing.select_convs(4) now_playing.surjective now_playing.update_convs(4))
    then show False using False by (simp add: on_coverart_def art_def)
  qed
  moreover have "on_coverart mime body s = send_event (EvNowPlaying (rc_device s) np)
      (s\<lparr>next_artwork_id := next_artwork_id s + 1, rc_now_playing := np\<rparr>)"
    using False by (auto simp: on_coverart_def np_def art_def Let_def split: if_splits)
  moreover have "has_event_tx s" using assms by (simp add: now_playing_ok_def)
  ultimately show ?thesis
    using assms by (auto intro!: now_playing_ok_send [where s = s and np = np and d = "rc_device s"] simp: send_event_def)
qed

lemma note_pcm_np:
  "now_playing_of (event_log (snd (session_step op k s))) = now_playing_of (event_log s)"
  "rc_now_playing (snd (session_step op k s)) = rc_now_playing s"
  "next_artwork_id (snd (session_step op k s)) = next_artwork_id s"
  by (cases op; auto simp: audio_process_def audio_flush_def on_flush_def on_rate_def note_pcm_def
      emit_flush_and_pause_def Let_def now_playing_append with_ring_def send_event_def)+

definition carries_now_playing :: "airplay_op \<Rightarrow> bool" where
  "carries_now_playing op \<longleftrightarrow> (case op of Metadata t a l \<Rightarrow> True | Coverart m b \<Rightarrow> True | _ \<Rightarrow> False)"

lemma other_step:
  assumes "\<not> carries_now_playing op"
  shows "now_playing_of (event_log (airplay_step s op)) = now_playing_of (event_log s) \<and>
    rc_now_playing (airplay_step s op) = rc_now_playing s"
proof (cases op)
  case (InSession p sop)
  show ?thesis
  proof (cases "hm_get (ring_sessions s) p")
    case (Some k)
    obtain k' s' where st: "session_step sop k s = (k', s')" by force
    then show ?thesis using InSession Some note_pcm_np(1,2) [of sop k s] by simp
  qed (simp add: InSession)
qed (use assms in \<open>auto simp: carries_now_playing_def init_replace_def init_publish_def alloc_ring_def
    replace_ring_def send_event_def with_ring_def Let_def drop_session_def end_if_current_def
    on_session_group_def on_volume_def on_client_connected_def on_client_disconnected_def now_playing_append
    split: option.split\<close>)

lemma now_playing_step: "now_playing_ok s \<Longrightarrow> now_playing_ok (airplay_step s op)"
proof (cases "carries_now_playing op")
  case True
  assume "now_playing_ok s"
  with True show ?thesis
    by (cases op) (simp_all add: carries_now_playing_def metadata_step coverart_step)
next
  case False
  assume "now_playing_ok s"
  then show ?thesis
    using other_step [OF False, of s] now_playing_ok_other [of "airplay_step s op" s]
    by (simp add: step_identity)
qed

interpretation now_playing_runs: event_machine airplay_step now_playing_ok
  by unfold_locales (rule now_playing_step)

text \<open>
  now_playing_published_once. The now-playing events form a sequence without immediate repetition, starting
  from an empty one, and the last of them is what the receiver answers when the bridge asks.
\<close>

theorem now_playing_published_once:
  "let s = foldl airplay_step (receiver_new did True art) ops;
       nps = default_now_playing # now_playing_of (event_log s)
   in distinct_adj nps \<and> last nps = rc_now_playing s"
proof -
  have "now_playing_ok (receiver_new did True art)"
    by (simp add: receiver_new_def now_playing_ok_def)
  then have "now_playing_ok (foldl airplay_step (receiver_new did True art) ops)"
    by (rule now_playing_runs.run_inv)
  then show ?thesis by (simp add: now_playing_ok_def Let_def)
qed

section \<open>Artwork ids\<close>

definition arts_of :: "receiver_state \<Rightarrow> artwork list" where
  "arts_of s = List.map_filter np_artwork (now_playing_of (event_log s))"

definition arts_ok :: "receiver_state \<Rightarrow> bool" where
  "arts_ok s \<longleftrightarrow>
     now_playing_ok s \<and>
     (\<forall>a \<in> set (arts_of s). unat (art_id a) < unat (next_artwork_id s)) \<and>
     (\<forall>a \<in> set (arts_of s). \<forall>b \<in> set (arts_of s). art_id a = art_id b \<longrightarrow> a = b)"

lemma current_art:
  assumes "now_playing_ok s" and "np_artwork (rc_now_playing s) = Some a"
  shows "a \<in> set (arts_of s)"
proof -
  define nps where "nps = now_playing_of (event_log s)"
  have last: "last (default_now_playing # nps) = rc_now_playing s"
    using assms(1) by (simp add: now_playing_ok_def nps_def)
  have "np_artwork default_now_playing = None" by (simp add: default_now_playing_def)
  then have "nps \<noteq> []" using assms(2) last by auto
  then have "rc_now_playing s \<in> set nps" using last by (metis last.simps last_in_set)
  then show ?thesis
    using assms(2) by (force simp: arts_of_def nps_def map_filter_def)
qed

lemma arts_same:
  assumes "arts_ok s" and "now_playing_ok s'" and "set (arts_of s') = set (arts_of s)"
    and "unat (next_artwork_id s) \<le> unat (next_artwork_id s')"
  shows "arts_ok s'"
  using assms unfolding arts_ok_def by (metis order_less_le_trans)

lemma arts_metadata:
  assumes "arts_ok s"
  shows "arts_ok (on_metadata t a l s)"
proof -
  have np: "now_playing_ok s" using assms by (simp add: arts_ok_def)
  have "set (arts_of (on_metadata t a l s)) = set (arts_of s)"
    using current_art [OF np]
    by (auto simp: arts_of_def on_metadata_def Let_def send_event_def now_playing_append map_filter_def
        split: if_splits)
  moreover have "next_artwork_id (on_metadata t a l s) = next_artwork_id s"
    by (simp add: on_metadata_def Let_def)
  ultimately show ?thesis
    using arts_same [OF assms metadata_step [OF np]] by simp
qed

lemma unat_next: "unat a + 1 < 2 ^ 64 \<Longrightarrow> unat (a + 1 :: u64) = unat a + 1"
  by (subst unat_add_lem [THEN iffD1]) simp_all

lemma arts_coverart:
  assumes "arts_ok s" and small: "unat (next_artwork_id s) + 1 < 2 ^ 64"
  shows "arts_ok (on_coverart mime body s)"
proof (cases "on_coverart mime body s = s")
  case True
  then show ?thesis using assms by simp
next
  case False
  define art where "art = \<lparr>art_id = next_artwork_id s, art_type = mime, art_body = body\<rparr>"
  define s' where "s' = on_coverart mime body s"
  have np: "now_playing_ok s" and tx: "has_event_tx s"
    using assms(1) by (auto simp: arts_ok_def now_playing_ok_def)
  have s': "s' = send_event (EvNowPlaying (rc_device s) ((rc_now_playing s)\<lparr>np_artwork := Some art\<rparr>))
      (s\<lparr>next_artwork_id := next_artwork_id s + 1,
         rc_now_playing := (rc_now_playing s)\<lparr>np_artwork := Some art\<rparr>\<rparr>)"
    using False by (auto simp: s'_def on_coverart_def art_def Let_def split: if_splits)
  have arts: "set (arts_of s') = insert art (set (arts_of s))"
    using tx unfolding s' by (simp add: arts_of_def now_playing_append map_filter_def send_event_def)
  have next_id: "unat (next_artwork_id s') = unat (next_artwork_id s) + 1"
    unfolding s' using small by (simp add: unat_next send_event_def)
  have new: "art_id art = next_artwork_id s" by (simp add: art_def)
  have fresh: "art_id b \<noteq> art_id art" if "b \<in> set (arts_of s)" for b
    using assms(1) that new by (auto simp: arts_ok_def)
  have "now_playing_ok s'" unfolding s'_def by (rule coverart_step [OF np])
  moreover have "unat (art_id b) < unat (next_artwork_id s')" if "b \<in> set (arts_of s')" for b
    using that arts next_id new assms(1) by (auto simp: arts_ok_def less_Suc_eq)
  moreover have "a = b" if "a \<in> set (arts_of s')" "b \<in> set (arts_of s')" "art_id a = art_id b" for a b
    using that arts fresh assms(1) by (auto simp: arts_ok_def) (metis fresh)+
  ultimately show ?thesis unfolding s'_def [symmetric] arts_ok_def by blast
qed

lemma other_step_art:
  assumes "\<not> carries_now_playing op"
  shows "next_artwork_id (airplay_step s op) =
    (if op = ArtworkElsewhere then next_artwork_id s + 1 else next_artwork_id s)"
proof (cases op)
  case (InSession p sop)
  show ?thesis
  proof (cases "hm_get (ring_sessions s) p")
    case (Some k)
    obtain k' s' where st: "session_step sop k s = (k', s')" by force
    then show ?thesis using InSession Some note_pcm_np(3) [of sop k s] by simp
  qed (simp add: InSession)
qed (use assms in \<open>auto simp: carries_now_playing_def init_replace_def init_publish_def alloc_ring_def
    replace_ring_def send_event_def with_ring_def Let_def drop_session_def end_if_current_def
    on_session_group_def on_volume_def on_client_connected_def on_client_disconnected_def
    split: option.split\<close>)

lemma arts_step:
  assumes "arts_ok s" and small: "unat (next_artwork_id s) + 1 < 2 ^ 64"
  shows "arts_ok (airplay_step s op) \<and>
    unat (next_artwork_id (airplay_step s op)) \<le> unat (next_artwork_id s) + 1"
proof (cases "carries_now_playing op")
  case True
  then show ?thesis
    using assms arts_metadata [OF assms(1)] arts_coverart [OF assms]
    by (cases op) (auto simp: carries_now_playing_def on_metadata_def on_coverart_def Let_def unat_next)
next
  case False
  have np: "now_playing_ok s" using assms(1) by (simp add: arts_ok_def)
  have "arts_of (airplay_step s op) = arts_of s" using other_step [OF False, of s] by (simp add: arts_of_def)
  then have "arts_ok (airplay_step s op)"
    using assms now_playing_step [OF np] other_step_art [OF False, of s]
    by (intro arts_same [OF assms(1)]) (auto simp: unat_next)
  then show ?thesis using other_step_art [OF False, of s] small by (auto simp: unat_next)
qed

lemma arts_run:
  "arts_ok s \<Longrightarrow> unat (next_artwork_id s) + length ops < 2 ^ 64 \<Longrightarrow> arts_ok (foldl airplay_step s ops)"
proof (induction ops arbitrary: s)
  case Nil
  then show ?case by simp
next
  case (Cons op ops)
  have "arts_ok (airplay_step s op) \<and> unat (next_artwork_id (airplay_step s op)) \<le> unat (next_artwork_id s) + 1"
    using Cons.prems by (intro arts_step) auto
  then show ?case using Cons.IH [of "airplay_step s op"] Cons.prems by simp
qed

text \<open>
  artwork_urls_unique. Two images the bridge is ever told about have different ids (so different
  \<open>/artwork\<close> URLs) unless they are the same image, as long as the process-wide counter does not wrap.
\<close>

theorem artwork_urls_unique:
  assumes "unat art + length ops < 2 ^ 64"
    and "a \<in> set (arts_of (foldl airplay_step (receiver_new did True art) ops))"
    and "b \<in> set (arts_of (foldl airplay_step (receiver_new did True art) ops))"
    and "art_id a = art_id b"
  shows "a = b"
proof -
  have "arts_ok (receiver_new did True art)"
    by (simp add: receiver_new_def arts_ok_def now_playing_ok_def arts_of_def map_filter_def)
  then have "arts_ok (foldl airplay_step (receiver_new did True art) ops)"
    by (rule arts_run) (use assms(1) in \<open>simp add: receiver_new_def\<close>)
  then show ?thesis using assms(2-4) by (auto simp: arts_ok_def)
qed

section \<open>Witnesses\<close>

text \<open>A second stream takes the slot before the session of the first one is dropped.\<close>

definition demo_stream_ops :: "airplay_op list" where
  "demo_stream_ops = [InitReplace 44100 2, InitPublish 1, InitReplace 48000 2, DropSession 1, InitPublish 2]"

definition demo_receiver :: receiver_state where
  "demo_receiver = foldl airplay_step (receiver_new ''tv'' True 1) demo_stream_ops"

lemmas demo_simps = demo_receiver_def demo_stream_ops_def receiver_new_def init_replace_def init_publish_def
  alloc_ring_def replace_ring_def send_event_def Let_def hm_get_def hm_insert_def hm_remove_def
  drop_session_def end_if_current_def ptr_eq_def ring_session_new_def current_ring_def with_ring_def

lemma demo_receiver_streams:
  "hm_get (ring_sessions demo_receiver) 2 = Some (ring_session_new (current_ring demo_receiver))"
  "ring_ptr (current_ring demo_receiver) = 2" "has_event_tx demo_receiver" "rc_device demo_receiver = ''tv''"
  by (simp_all add: demo_simps)

lemma demo_receiver_ok: "stream_tracked demo_receiver"
  unfolding demo_receiver_def by (rule airplay_runs.run_inv) (rule receiver_new_ok)

theorem no_stale_end_witness:
  "\<exists>rate g. told (ring_ptr (current_ring demo_receiver)) (event_log demo_receiver) =
     Some (EvStarted ''tv'' rate (current_ring demo_receiver) g)"
  using no_stale_end [of demo_receiver "ring_session_new (current_ring demo_receiver)" "''tv''" 1 demo_stream_ops]
  by (simp add: demo_receiver_streams) (simp add: demo_receiver_def ring_session_new_def)

theorem drop_ends_current_only_witness:
  "event_log (airplay_step demo_receiver (DropSession 2)) = event_log demo_receiver @ [EvEnded ''tv'']"
  using drop_ends_current_only [of demo_receiver 2 "ring_session_new (current_ring demo_receiver)",
      OF demo_receiver_ok demo_receiver_streams(3,1) refl]
  by (simp only: demo_receiver_streams refl if_True)

theorem pauses_alternate_witness:
  "\<exists>k' s' new. session_run [OnRate 0 5, OnFlush 6, AudioProcess []] (ring_session_new (ring_slot demo_receiver), demo_receiver)
       = (k', s') \<and> event_log s' = event_log demo_receiver @ new \<and> pause_monitor False new = Some False"
proof -
  define ops where "ops = [OnRate 0 5, OnFlush 6, AudioProcess []]"
  obtain k' s' where run: "session_run ops (ring_session_new (ring_slot demo_receiver), demo_receiver) = (k', s')"
    by force
  then have "\<not> cast_paused k'"
    by (auto simp: ops_def session_run_def audio_process_def note_pcm_def on_rate_def on_flush_def
        emit_flush_and_pause_def Let_def split: prod.splits)
  then show ?thesis
    using run pauses_alternate [OF demo_receiver_streams(3) run] unfolding ops_def by auto
qed

lemma demo_arts:
  "arts_of (foldl airplay_step (receiver_new d True 7) [Coverart m []]) = [\<lparr>art_id = 7, art_type = m, art_body = []\<rparr>]"
  by (simp add: receiver_new_def on_coverart_def default_now_playing_def arts_of_def map_filter_def Let_def)

theorem artwork_urls_unique_witness:
  "\<lparr>art_id = 7, art_type = ''image/png'', art_body = []\<rparr> = (\<lparr>art_id = 7, art_type = ''image/png'', art_body = []\<rparr> :: artwork)"
  by (rule artwork_urls_unique [where art = 7 and ops = "[Coverart ''image/png'' []]" and did = "''tv''"])
    (simp_all only: demo_arts list.set insert_iff simp_thms, simp_all)

end
