(* ===== verification/Airplay_Manager.thy ===== *)
theory Airplay_Manager
  imports Airplay_Session
begin

text \<open>
  The identity of a receiver and the set of receivers (\<open>src/airplay/mod.rs\<close>).

  \<open>ensure\<close> and \<open>kick_clients\<close> take the locks \<open>receivers\<close> and \<open>kicking\<close> one at a time and await in
  between, and run on different tasks. A call is therefore a program counter, and \<open>mgr_step\<close> runs one
  stretch between two awaits or lock acquisitions. Whether a server starts, and the
  texts of its errors, come from the receiver stack and are arguments. The hash behind the identity is
  \<open>DefaultHasher\<close>, whose algorithm the standard library leaves open: it is the parameter \<open>hash\<close>.
\<close>

section \<open>Identity\<close>

definition RAOP_PORT_BASE :: u16 where
  "RAOP_PORT_BASE = 5100"

definition RAOP_PORT_SPAN :: u64 where
  "RAOP_PORT_SPAN = 1000"

definition stable_hwaddr :: "(string \<Rightarrow> u64) \<Rightarrow> string \<Rightarrow> u8 list" where
  "stable_hwaddr hash d =
     (let h = hash d
      in [or (and (ucast (drop_bit 40 h)) 0xFE) 0x02, ucast (drop_bit 32 h), ucast (drop_bit 24 h),
          ucast (drop_bit 16 h), ucast (drop_bit 8 h), ucast h])"

definition stable_raop_port :: "(string \<Rightarrow> u64) \<Rightarrow> string \<Rightarrow> u16" where
  "stable_raop_port hash d = saturating_add RAOP_PORT_BASE (ucast (hash d mod RAOP_PORT_SPAN))"

definition hex_digit :: "nat \<Rightarrow> char" where
  "hex_digit n = (if n < 10 then char_of (48 + n) else char_of (87 + n))"

definition hex2 :: "u8 \<Rightarrow> string" where
  "hex2 b = [hex_digit (unat b div 16), hex_digit (unat b mod 16)]"

definition nth_or_zero :: "u8 list \<Rightarrow> nat \<Rightarrow> u8" where
  "nth_or_zero xs i = (if i < length xs then xs ! i else 0)"

definition format_hwaddr :: "u8 list \<Rightarrow> string" where
  "format_hwaddr mac =
     hex2 (nth_or_zero mac 0) @ '':'' @ hex2 (nth_or_zero mac 1) @ '':'' @ hex2 (nth_or_zero mac 2) @ '':'' @
     hex2 (nth_or_zero mac 3) @ '':'' @ hex2 (nth_or_zero mac 4) @ '':'' @ hex2 (nth_or_zero mac 5)"

section \<open>Receivers\<close>

record airplay_receiver =
  ar_device :: string
  ar_name :: string
  ar_port :: u16
  ar_audio :: receiver_state
  ar_reported_db :: f32
  volume_seeded_from_cast :: bool

definition receiver_build :: "(string \<Rightarrow> u64) \<Rightarrow> bool \<Rightarrow> u64 \<Rightarrow> string \<Rightarrow> string \<Rightarrow> airplay_receiver" where
  "receiver_build hash tx art d name =
     \<lparr>ar_device = d, ar_name = name, ar_port = stable_raop_port hash d, ar_audio = receiver_new d tx art,
      ar_reported_db = f32_zero, volume_seeded_from_cast = False\<rparr>"

definition rx_set_reported_volume_db :: "(f32 \<Rightarrow> f32) \<Rightarrow> f32 \<Rightarrow> airplay_receiver \<Rightarrow> airplay_receiver" where
  "rx_set_reported_volume_db server_clamp db rx =
     rx\<lparr>ar_reported_db := server_clamp db, volume_seeded_from_cast := True\<rparr>"

definition rx_report_volume :: "unit + string \<Rightarrow> airplay_receiver \<Rightarrow> airplay_receiver \<times> unit result" where
  "rx_report_volume outcome rx =
     (rx\<lparr>volume_seeded_from_cast := True\<rparr>,
      case outcome of Inl u \<Rightarrow> Inr ()
      | Inr err \<Rightarrow> Inl (ErrAirPlay (''report volume for '' @ ar_name rx @ '': '' @ err)))"

definition rx_send_media_remote_command :: "string \<Rightarrow> unit + string \<Rightarrow> airplay_receiver \<Rightarrow> unit result" where
  "rx_send_media_remote_command code outcome rx =
     (case outcome of Inl u \<Rightarrow> Inr ()
      | Inr err \<Rightarrow> Inl (ErrAirPlay (''send '' @ code @ '' to '' @ ar_name rx @ '': '' @ err)))"

section \<open>The manager\<close>

datatype manager_call =
    EnsureChecked string string
  | EnsureStale string string
  | EnsureCleared string string
  | EnsureStarted string airplay_receiver
  | KickMarked string
  | KickHolding string string
  | KickStarted string airplay_receiver
  | KickReturning string

fun call_device :: "manager_call \<Rightarrow> string" where
  "call_device (EnsureChecked d n) = d"
| "call_device (EnsureStale d n) = d"
| "call_device (EnsureCleared d n) = d"
| "call_device (EnsureStarted d r) = d"
| "call_device (KickMarked d) = d"
| "call_device (KickHolding d n) = d"
| "call_device (KickStarted d r) = d"
| "call_device (KickReturning d) = d"

record airplay_manager =
  receivers :: "(string, airplay_receiver) hashmap"
  kicking :: "string list"
  am_calls :: "(nat, manager_call) hashmap"
  am_event_tx :: bool

definition manager_new :: "bool \<Rightarrow> airplay_manager" where
  "manager_new tx = \<lparr>receivers = [], kicking = [], am_calls = [], am_event_tx = tx\<rparr>"

definition remove_receiver :: "string \<Rightarrow> airplay_manager \<Rightarrow> airplay_manager" where
  "remove_receiver d m = m\<lparr>receivers := hm_remove d (receivers m)\<rparr>"

definition set_call :: "nat \<Rightarrow> manager_call option \<Rightarrow> airplay_manager \<Rightarrow> airplay_manager" where
  "set_call c pc m =
     m\<lparr>am_calls := (case pc of None \<Rightarrow> hm_remove c (am_calls m) | Some p \<Rightarrow> hm_insert c p (am_calls m))\<rparr>"

definition ensure_call :: "nat \<Rightarrow> string \<Rightarrow> string \<Rightarrow> airplay_manager \<Rightarrow> airplay_manager" where
  "ensure_call c d name m =
     (if d \<in> set (kicking m) then m else set_call c (Some (EnsureChecked d name)) m)"

definition kick_clients_call :: "nat \<Rightarrow> string \<Rightarrow> airplay_manager \<Rightarrow> airplay_manager" where
  "kick_clients_call c d m =
     set_call c (Some (KickMarked d)) (m\<lparr>kicking := List.insert d (kicking m)\<rparr>)"

text \<open>
  \<open>continue_call\<close>: one stretch of a call. \<open>start\<close> is what building and starting a server yields at that point: the
  value of the artwork counter, or an error.
\<close>

fun continue_call ::
  "(string \<Rightarrow> u64) \<Rightarrow> u64 + string \<Rightarrow> nat \<Rightarrow> manager_call \<Rightarrow> airplay_manager \<Rightarrow> airplay_manager" where
  "continue_call hash start c (EnsureChecked d name) m =
     (case hm_get (receivers m) d of
        Some existing \<Rightarrow> if ar_name existing = name then set_call c None m else set_call c (Some (EnsureStale d name)) m
      | None \<Rightarrow> set_call c (Some (EnsureStale d name)) m)"
| "continue_call hash start c (EnsureStale d name) m =
     set_call c (Some (EnsureCleared d name)) (remove_receiver d m)"
| "continue_call hash start c (EnsureCleared d name) m =
     (case start of Inl art \<Rightarrow> set_call c (Some (EnsureStarted d (receiver_build hash (am_event_tx m) art d name))) m
      | Inr err \<Rightarrow> set_call c None m)"
| "continue_call hash start c (EnsureStarted d rx) m =
     set_call c None (m\<lparr>receivers := hm_insert d rx (receivers m)\<rparr>)"
| "continue_call hash start c (KickMarked d) m =
     (case hm_get (receivers m) d of None \<Rightarrow> set_call c (Some (KickReturning d)) m
      | Some rx \<Rightarrow> set_call c (Some (KickHolding d (ar_name rx))) (remove_receiver d m))"
| "continue_call hash start c (KickHolding d name) m =
     (case start of Inl art \<Rightarrow> set_call c (Some (KickStarted d (receiver_build hash (am_event_tx m) art d name))) m
      | Inr err \<Rightarrow> set_call c (Some (KickReturning d)) m)"
| "continue_call hash start c (KickStarted d rx) m =
     set_call c (Some (KickReturning d)) (m\<lparr>receivers := hm_insert d rx (receivers m)\<rparr>)"
| "continue_call hash start c (KickReturning d) m =
     set_call c None (m\<lparr>kicking := removeAll d (kicking m)\<rparr>)"

definition active_ids :: "airplay_manager \<Rightarrow> string list" where
  "active_ids m = map fst (receivers m)"

definition pcm_ring_of :: "airplay_manager \<Rightarrow> string \<Rightarrow> ring_ref option" where
  "pcm_ring_of m d = map_option (\<lambda>rx. current_ring (ar_audio rx)) (hm_get (receivers m) d)"

definition now_playing_at :: "airplay_manager \<Rightarrow> string \<Rightarrow> now_playing option" where
  "now_playing_at m d = map_option (\<lambda>rx. rc_now_playing (ar_audio rx)) (hm_get (receivers m) d)"

definition reported_volume_db :: "airplay_manager \<Rightarrow> string \<Rightarrow> f32 option" where
  "reported_volume_db m d = map_option ar_reported_db (hm_get (receivers m) d)"

definition needs_volume_seed :: "airplay_manager \<Rightarrow> string \<Rightarrow> bool" where
  "needs_volume_seed m d =
     (case hm_get (receivers m) d of None \<Rightarrow> False | Some rx \<Rightarrow> \<not> volume_seeded_from_cast rx)"

definition set_reported_volume_db ::
  "(f32 \<Rightarrow> f32) \<Rightarrow> string \<Rightarrow> f32 \<Rightarrow> airplay_manager \<Rightarrow> airplay_manager" where
  "set_reported_volume_db server_clamp d db m =
     (case hm_get (receivers m) d of None \<Rightarrow> m
      | Some rx \<Rightarrow> m\<lparr>receivers := hm_insert d (rx_set_reported_volume_db server_clamp db rx) (receivers m)\<rparr>)"

definition no_receiver_error :: "string \<Rightarrow> error" where
  "no_receiver_error d = ErrAirPlay (''no AirPlay receiver for '' @ d)"

definition report_volume ::
  "unit + string \<Rightarrow> string \<Rightarrow> airplay_manager \<Rightarrow> airplay_manager \<times> unit result" where
  "report_volume outcome d m =
     (case hm_get (receivers m) d of None \<Rightarrow> (m, Inl (no_receiver_error d))
      | Some rx \<Rightarrow> let (rx', res) = rx_report_volume outcome rx
                  in (m\<lparr>receivers := hm_insert d rx' (receivers m)\<rparr>, res))"

definition send_media_remote_command :: "string \<Rightarrow> unit + string \<Rightarrow> string \<Rightarrow> airplay_manager \<Rightarrow> unit result" where
  "send_media_remote_command code outcome d m =
     (case hm_get (receivers m) d of None \<Rightarrow> Inl (no_receiver_error d)
      | Some rx \<Rightarrow> rx_send_media_remote_command code outcome rx)"

section \<open>Runs\<close>

datatype manager_event =
    CallEnsure nat string string
  | CallKick nat string
  | Continue nat "u64 + string"
  | RemoveNow string
  | SeedVolume string f32
  | SenderReport string "unit + string"

definition mgr_step ::
  "(string \<Rightarrow> u64) \<Rightarrow> (f32 \<Rightarrow> f32) \<Rightarrow> airplay_manager \<Rightarrow> manager_event \<Rightarrow> airplay_manager" where
  "mgr_step hash server_clamp m ev =
     (case ev of
        CallEnsure c d name \<Rightarrow> if hm_get (am_calls m) c = None then ensure_call c d name m else m
      | CallKick c d \<Rightarrow> if hm_get (am_calls m) c = None then kick_clients_call c d m else m
      | Continue c start \<Rightarrow>
          (case hm_get (am_calls m) c of None \<Rightarrow> m | Some pc \<Rightarrow> continue_call hash start c pc m)
      | RemoveNow d \<Rightarrow> remove_receiver d m
      | SeedVolume d db \<Rightarrow> set_reported_volume_db server_clamp d db m
      | SenderReport d outcome \<Rightarrow> fst (report_volume outcome d m))"

section \<open>A kick keeps its device withdrawn\<close>

definition kick_holds :: "string \<Rightarrow> nat \<Rightarrow> string \<Rightarrow> airplay_manager \<Rightarrow> bool" where
  "kick_holds d k name m \<longleftrightarrow>
     hm_get (am_calls m) k = Some (KickHolding d name) \<and> d \<in> set (kicking m) \<and> hm_get (receivers m) d = None \<and>
     (\<forall>c pc. hm_get (am_calls m) c = Some pc \<and> c \<noteq> k \<longrightarrow> call_device pc \<noteq> d)"

text \<open>Anything may happen meanwhile except a second kick of the device and progress of this one.\<close>

fun leaves_kick_alone :: "string \<Rightarrow> nat \<Rightarrow> manager_event \<Rightarrow> bool" where
  "leaves_kick_alone d k (CallKick c d') = (d' \<noteq> d)"
| "leaves_kick_alone d k (Continue c start) = (c \<noteq> k)"
| "leaves_kick_alone d k ev = True"

lemma continue_other:
  assumes "call_device pc \<noteq> d" and "hm_get (am_calls m) c = Some pc" and "c \<noteq> k"
  shows "hm_get (am_calls (continue_call hash start c pc m)) k = hm_get (am_calls m) k"
    and "hm_get (receivers (continue_call hash start c pc m)) d = hm_get (receivers m) d"
    and "d \<in> set (kicking (continue_call hash start c pc m)) \<longleftrightarrow> d \<in> set (kicking m)"
    and "hm_get (am_calls (continue_call hash start c pc m)) j = Some pc' \<Longrightarrow> call_device pc' = d \<Longrightarrow>
      hm_get (am_calls m) j = Some pc'"
  using assms
  by (cases pc; auto simp: set_call_def remove_receiver_def split: option.splits sum.splits if_splits)+

lemma kick_holds_step:
  assumes "kick_holds d k name m" and "leaves_kick_alone d k ev"
  shows "kick_holds d k name (mgr_step hash server_clamp m ev)"
proof (cases ev)
  case (CallEnsure c d' n)
  then show ?thesis
    using assms by (auto simp: mgr_step_def ensure_call_def kick_holds_def set_call_def split: if_splits)
next
  case (CallKick c d')
  then show ?thesis
    using assms by (auto simp: mgr_step_def kick_clients_call_def kick_holds_def set_call_def split: if_splits)
next
  case (Continue c start)
  show ?thesis
  proof (cases "hm_get (am_calls m) c")
    case None
    then show ?thesis using assms(1) Continue by (simp add: mgr_step_def)
  next
    case (Some pc)
    have c: "c \<noteq> k" using assms(2) Continue by simp
    then have pc: "call_device pc \<noteq> d" using assms(1) Some by (auto simp: kick_holds_def)
    note other = continue_other [OF pc Some c, of hash start]
    have calls: "call_device pc' \<noteq> d"
      if "hm_get (am_calls (continue_call hash start c pc m)) j = Some pc'" "j \<noteq> k" for j pc'
      using other(4) [OF that(1)] that(2) assms(1) by (auto simp: kick_holds_def)
    show ?thesis
      using assms(1) Continue Some other(1-3) calls by (auto simp: mgr_step_def kick_holds_def)
  qed
next
  case (RemoveNow d')
  then show ?thesis using assms(1) by (simp add: mgr_step_def kick_holds_def remove_receiver_def)
next
  case (SeedVolume d' db)
  then show ?thesis
    using assms(1) by (auto simp: mgr_step_def kick_holds_def set_reported_volume_db_def split: option.split)
next
  case (SenderReport d' outcome)
  then show ?thesis
    using assms(1) by (auto simp: mgr_step_def kick_holds_def report_volume_def Let_def split: option.split prod.split)
qed

interpretation kick_hold: guarded_machine "mgr_step hash server_clamp" "kick_holds d k name" "leaves_kick_alone d k"
  for hash server_clamp d k name
  by unfold_locales (rule kick_holds_step)

text \<open>The steps that end a kick; \<open>start\<close> is what building and starting the new server yields.\<close>

definition kick_end :: "nat \<Rightarrow> u64 + string \<Rightarrow> manager_event list" where
  "kick_end k start = [Continue k start, Continue k start, Continue k start]"

text \<open>
  C20: A kick of an advertised device that begins while no other call on this device is under way keeps the device
  without a receiver during the hold, as long as no second kick of the same device begins: ticks that ask for a
  receiver of the device, removals, volume reports and all calls on other devices may come in between, in any order.
  Then a receiver with the old name is put back if the new server starts, none if it does not, and either way the
  mark is cleared and the call is over.
\<close>

theorem kick_holds_withdrawn:
  fixes hash :: "string \<Rightarrow> u64"
  assumes "hm_get (receivers m) d = Some rx" and "hm_get (am_calls m) k = None"
    and "\<forall>c pc. hm_get (am_calls m) c = Some pc \<longrightarrow> call_device pc \<noteq> d"
    and "list_all (leaves_kick_alone d k) evs"
    and "held = foldl (mgr_step hash server_clamp) m ([CallKick k d, Continue k first] @ evs)"
    and "over = foldl (mgr_step hash server_clamp) held (kick_end k start)"
  shows "hm_get (receivers held) d = None \<and> d \<in> set (kicking held) \<and>
    hm_get (receivers over) d =
      (case start of Inl art \<Rightarrow> Some (receiver_build hash (am_event_tx held) art d (ar_name rx)) | Inr err \<Rightarrow> None) \<and>
    d \<notin> set (kicking over) \<and> hm_get (am_calls over) k = None"
proof -
  define m1 where "m1 = foldl (mgr_step hash server_clamp) m [CallKick k d, Continue k first]"
  have "kick_holds d k (ar_name rx) m1"
    unfolding m1_def using assms(1-3)
    by (auto simp: mgr_step_def kick_clients_call_def set_call_def remove_receiver_def kick_holds_def
        split: if_splits)
  then have held: "kick_holds d k (ar_name rx) held"
    unfolding assms(5) foldl_append m1_def [symmetric] by (rule kick_hold.run_inv) (rule assms(4))
  then have "hm_get (am_calls held) k = Some (KickHolding d (ar_name rx))" by (simp add: kick_holds_def)
  then show ?thesis
    using held unfolding assms(6) kick_end_def
    by (cases start) (simp_all add: mgr_step_def set_call_def kick_holds_def)
qed

definition demo_manager :: airplay_manager where
  "demo_manager = \<lparr>receivers = [(''tv'', receiver_build (\<lambda>_. 7) True 1 ''tv'' ''TV'')], kicking = [], am_calls = [],
     am_event_tx = True\<rparr>"

definition demo_events :: "manager_event list" where
  "demo_events = [CallEnsure 3 ''tv'' ''Other'', RemoveNow ''tv'', CallEnsure 4 ''hall'' ''Hall'', Continue 4 (Inl 1)]"

theorem kick_holds_withdrawn_witness:
  "let held = foldl (mgr_step (\<lambda>_. 7) id) demo_manager ([CallKick 2 ''tv'', Continue 2 (Inl 1)] @ demo_events)
   in hm_get (receivers held) ''tv'' = None \<and> ''tv'' \<in> set (kicking held)"
proof -
  have "hm_get (receivers demo_manager) ''tv'' = Some (receiver_build (\<lambda>_. 7) True 1 ''tv'' ''TV'')"
    "hm_get (am_calls demo_manager) 2 = None"
    "\<forall>c pc. hm_get (am_calls demo_manager) c = Some pc \<longrightarrow> call_device pc \<noteq> ''tv''"
    "list_all (leaves_kick_alone ''tv'' 2) demo_events"
    by (simp_all add: demo_manager_def demo_events_def hm_get_def)
  from kick_holds_withdrawn [OF this refl refl, of "\<lambda>_. 7" id "Inl 1" "Inl 1"] show ?thesis by (simp only: Let_def)
qed

text \<open>
  The restriction matters. An \<open>ensure\<close> that looked at the mark before the kick began goes on after it and
  advertises the device during the hold; the kick then replaces that receiver.
\<close>

definition slip_events :: "string \<Rightarrow> manager_event list" where
  "slip_events d =
     [CallEnsure 1 d ''New name'', CallKick 2 d, Continue 2 (Inl 1), Continue 1 (Inl 1), Continue 1 (Inl 1),
      Continue 1 (Inl 1), Continue 1 (Inl 1)]"

lemma ensure_slips_into_kick:
  fixes hash :: "string \<Rightarrow> u64"
  defines "m0 \<equiv> \<lparr>receivers = [(''tv'', receiver_build hash True 1 ''tv'' ''TV'')], kicking = [], am_calls = [],
    am_event_tx = True\<rparr>"
  shows "let m = foldl (mgr_step hash id) m0 (slip_events ''tv'')
    in hm_get (am_calls m) 2 = Some (KickHolding ''tv'' ''TV'') \<and> ''tv'' \<in> set (kicking m) \<and>
       hm_get (receivers m) ''tv'' = Some (receiver_build hash True 1 ''tv'' ''New name'')"
  unfolding m0_def
  by (simp add: slip_events_def mgr_step_def ensure_call_def kick_clients_call_def set_call_def remove_receiver_def
      receiver_build_def hm_get_def hm_insert_def hm_remove_def)

text \<open>
  stable_identity_valid. The hardware address made from a device id is a locally administered unicast
  address of six bytes, and the RAOP port lies in 5100 to 6099, whatever the hash is.
\<close>

theorem stable_identity_valid:
  "length (stable_hwaddr hash d) = 6 \<and> \<not> bit (hd (stable_hwaddr hash d)) 0 \<and> bit (hd (stable_hwaddr hash d)) 1 \<and>
   5100 \<le> unat (stable_raop_port hash d) \<and> unat (stable_raop_port hash d) \<le> 6099"
proof -
  have bits: "\<not> bit (0xFE :: u8) 0" "\<not> bit (0x02 :: u8) 0" "bit (0x02 :: u8) 1"
    by (simp_all add: bit_simps)
  have "unat (hash d mod 1000) < 1000" by (simp add: unat_mod)
  then have "unat (ucast (hash d mod 1000) :: u16) < 1000"
    by (simp add: unsigned_ucast_eq take_bit_nat_eq_self)
  then have "unat (stable_raop_port hash d) = 5100 + unat (ucast (hash d mod 1000) :: u16)"
    by (simp add: stable_raop_port_def RAOP_PORT_BASE_def RAOP_PORT_SPAN_def unat_saturating_add)
  then show ?thesis
    using bits \<open>unat (ucast (hash d mod 1000) :: u16) < 1000\<close>
    by (simp add: stable_hwaddr_def Let_def bit_or_iff bit_and_iff)
qed

end
