(* ===== verification/App_Maintain.thy ===== *)
theory App_Maintain
  imports Names Airplay_Manager Volume_Map Cast_Pool
begin

text \<open>
  The maintain loop (\<open>src/app.rs\<close>): every two seconds it reconciles the AirPlay receivers, the Cast workers and
  the registry, seeds volumes, and withdraws what is gone. It drives the models of the registry, the AirPlay
  manager, the Cast pool and the names.

  The tick runs beside the bridge and the workers. What it reads from them (is there a session, has the worker failed
  for good, is it reachable) can change between two reads of one tick, so each read is an argument of its own,
  by the place it is made at. The awaits of the tick itself are sequential; \<open>ensure_now\<close> is the run of an
  undisturbed \<open>ensure\<close> (\<open>Airplay_Manager\<close> has the interleaved one), and of the removal of a worker the
  tick does the beginning, the join being the pool's. Log lines are left out.
\<close>

section \<open>Constants and pure decisions\<close>

definition VOLUME_SEED_MAX_ATTEMPTS :: u32 where
  "VOLUME_SEED_MAX_ATTEMPTS = 5"

definition MAINTAIN_RESTART_MAX :: nat where
  "MAINTAIN_RESTART_MAX = 5"

definition MAINTAIN_RESTART_WINDOW :: duration where
  "MAINTAIN_RESTART_WINDOW = from_secs 60"

definition is_desired_at_withdraw :: "bool \<Rightarrow> bool \<Rightarrow> bool" where
  "is_desired_at_withdraw in_desired_snapshot registry_has_device \<longleftrightarrow> in_desired_snapshot \<or> registry_has_device"

definition may_withdraw_after_session_recheck :: "bool \<Rightarrow> bool" where
  "may_withdraw_after_session_recheck has_session_now \<longleftrightarrow> \<not> has_session_now"

definition should_start_volume_seed :: "bool \<Rightarrow> u32 \<Rightarrow> bool \<Rightarrow> bool" where
  "should_start_volume_seed needs_seed attempts inflight \<longleftrightarrow>
     needs_seed \<and> \<not> inflight \<and> attempts < VOLUME_SEED_MAX_ATTEMPTS"

definition should_start_volume_seed_for_cast :: "bool \<Rightarrow> u32 \<Rightarrow> bool \<Rightarrow> bool \<Rightarrow> bool" where
  "should_start_volume_seed_for_cast needs_seed attempts inflight cast_terminal \<longleftrightarrow>
     \<not> cast_terminal \<and> should_start_volume_seed needs_seed attempts inflight"

section \<open>State\<close>

record maintain_guards =
  volume_attempts :: "(string, u32) hashmap"
  not_desired_since :: "(string, instant) hashmap"
  session_blocked :: "string list"
  known_ids :: "string list"
  volume_seed_inflight :: "string list"
  cast_names :: "(string, string) hashmap"

definition guards_default :: maintain_guards where
  "guards_default = \<lparr>volume_attempts = [], not_desired_since = [], session_blocked = [], known_ids = [],
     volume_seed_inflight = [], cast_names = []\<rparr>"

record app_state =
  ap_registry :: registry
  ap_airplay :: airplay_manager
  ap_pool :: cast_pool
  ap_guards :: maintain_guards
  ap_spawned_seeds :: "string list"

definition upd_guards :: "(maintain_guards \<Rightarrow> maintain_guards) \<Rightarrow> app_state \<Rightarrow> app_state" where
  "upd_guards f s = s\<lparr>ap_guards := f (ap_guards s)\<rparr>"

definition upd_airplay :: "(airplay_manager \<Rightarrow> airplay_manager) \<Rightarrow> app_state \<Rightarrow> app_state" where
  "upd_airplay f s = s\<lparr>ap_airplay := f (ap_airplay s)\<rparr>"

text \<open>What one tick reads from its surroundings.\<close>

datatype session_read = AtExpiry | AtExpiryRecheck | AtEnsure | AtWithdraw | AtWithdrawRecheck | AtOrphan

record tick_env =
  te_now :: instant
  te_linux :: bool
  te_session :: "session_read \<Rightarrow> string \<Rightarrow> bool"
  te_terminal :: "string \<Rightarrow> bool"
  te_terminal_at_seed :: "string \<Rightarrow> bool"
  te_reachable :: "string \<Rightarrow> bool"
  te_spawned :: "string \<Rightarrow> bool"
  te_start :: "string \<Rightarrow> u64 + string"
  te_home_names :: "(string, string) hashmap"

section \<open>The phases of a tick\<close>

definition note_gone :: "string \<Rightarrow> instant \<Rightarrow> maintain_guards \<Rightarrow> maintain_guards" where
  "note_gone d since g =
     g\<lparr>not_desired_since := hm_insert d since (not_desired_since g), known_ids := removeAll d (known_ids g)\<rparr>"

definition block_session :: "string \<Rightarrow> maintain_guards \<Rightarrow> maintain_guards" where
  "block_session d g = g\<lparr>session_blocked := List.insert d (session_blocked g)\<rparr>"

definition clear_gone :: "string \<Rightarrow> maintain_guards \<Rightarrow> maintain_guards" where
  "clear_gone d g =
     g\<lparr>not_desired_since := hm_remove d (not_desired_since g), session_blocked := removeAll d (session_blocked g)\<rparr>"

definition reset_attempts :: "string \<Rightarrow> maintain_guards \<Rightarrow> maintain_guards" where
  "reset_attempts d g = g\<lparr>volume_attempts := hm_remove d (volume_attempts g)\<rparr>"

definition apply_due_leaves :: "tick_env \<Rightarrow> app_state \<Rightarrow> app_state" where
  "apply_due_leaves env s =
     (let (due, r) = take_due_leaves (te_now env) (ap_registry s)
      in foldl (\<lambda>s dev. upd_guards (note_gone (dev_id dev)
             (case pending_leave_since dev of None \<Rightarrow> te_now env | Some t \<Rightarrow> t)) s)
           (s\<lparr>ap_registry := r\<rparr>) due)"

definition ancient_instant :: "instant \<Rightarrow> instant" where
  "ancient_instant now = (if SESSION_GUARD_GONE \<le> now then now - SESSION_GUARD_GONE else now)"

definition withdraw_now :: "string \<Rightarrow> app_state \<Rightarrow> app_state" where
  "withdraw_now d s =
     upd_guards (clear_gone d) (s\<lparr>ap_airplay := remove_receiver d (ap_airplay s), ap_pool := remove_begin d (ap_pool s)\<rparr>)"

definition expire_device :: "tick_env \<Rightarrow> app_state \<Rightarrow> device \<Rightarrow> app_state" where
  "expire_device env s dev =
     (let d = dev_id dev;
          s1 = upd_guards (note_gone d (ancient_instant (te_now env))) s
      in if te_session env AtExpiry d then upd_guards (block_session d) s1
         else if \<not> may_withdraw_after_session_recheck (te_session env AtExpiryRecheck d)
         then upd_guards (block_session d) s1
         else withdraw_now d s1)"

definition apply_stale_expiry :: "tick_env \<Rightarrow> app_state \<Rightarrow> app_state" where
  "apply_stale_expiry env s =
     (let (expired, r) =
            (if te_linux env
             then expire_stale_where DEFAULT_STALE_TTL
                    (\<lambda>dev. should_leave_linux_stale True (te_reachable env (dev_id dev))) (te_now env) (ap_registry s)
             else expire_stale DEFAULT_STALE_TTL (te_now env) (ap_registry s))
      in foldl (expire_device env) (s\<lparr>ap_registry := r\<rparr>) expired)"

definition reset_cancelled_leaves :: "app_state \<Rightarrow> app_state" where
  "reset_cancelled_leaves s =
     (let (ids, r) = drain_pending_leave_cancellations (ap_registry s)
      in foldl (\<lambda>s d. upd_guards (reset_attempts d) s) (s\<lparr>ap_registry := r\<rparr>) ids)"

definition ensure_now ::
  "(string \<Rightarrow> u64) \<Rightarrow> string \<Rightarrow> string \<Rightarrow> u64 + string \<Rightarrow> airplay_manager \<Rightarrow> airplay_manager" where
  "ensure_now hash d name start m =
     (if d \<in> set (kicking m) then m
      else if (case hm_get (receivers m) d of None \<Rightarrow> False | Some rx \<Rightarrow> ar_name rx = name) then m
      else
        let m1 = remove_receiver d m
        in (case start of Inr err \<Rightarrow> m1
            | Inl art \<Rightarrow> m1\<lparr>receivers := hm_insert d (receiver_build hash (am_event_tx m1) art d name) (receivers m1)\<rparr>))"

definition pool_ensure :: "device \<Rightarrow> bool \<Rightarrow> cast_pool \<Rightarrow> cast_pool" where
  "pool_ensure dev spawned p = ensure_worker (dev_id dev) (dev_host dev) (dev_hostname dev) (dev_port dev) False spawned p"

definition advertise_device ::
  "(string \<Rightarrow> u64) \<Rightarrow> tick_env \<Rightarrow> (string, string) hashmap \<Rightarrow> string list \<Rightarrow> app_state \<times> string list \<Rightarrow> device \<Rightarrow>
   app_state \<times> string list" where
  "advertise_device hash env names previously_advertised = (\<lambda>(s, desired) dev.
     let d = dev_id dev in
     case hm_get names d of None \<Rightarrow> (s, desired)
     | Some name \<Rightarrow>
         let s1 = (if d \<notin> set (known_ids (ap_guards s)) then upd_guards (reset_attempts d) s else s);
             s2 = s1\<lparr>ap_pool := pool_ensure dev (te_spawned env d) (ap_pool s1)\<rparr>;
             desired' = List.insert d desired
         in if te_terminal env d then
              (if d \<in> set previously_advertised \<or> d \<in> set (active_ids (ap_airplay s2))
               then (upd_airplay (remove_receiver d) s2, desired') else (s2, desired'))
            else if d \<in> set previously_advertised \<and> te_session env AtEnsure d then (s2, desired')
            else (upd_airplay (ensure_now hash d name (te_start env d)) s2, desired'))"

definition log_cast_renames :: "device list \<Rightarrow> maintain_guards \<Rightarrow> maintain_guards" where
  "log_cast_renames devs g =
     g\<lparr>cast_names := filter (\<lambda>(i, _). i \<in> dev_id ` set devs)
         (foldl (\<lambda>seen dev. hm_insert (dev_id dev) (dev_name dev) seen) (cast_names g) devs)\<rparr>"

definition start_volume_seed :: "tick_env \<Rightarrow> app_state \<Rightarrow> device \<Rightarrow> app_state" where
  "start_volume_seed env s dev =
     (let d = dev_id dev; g = ap_guards s in
      if \<not> needs_volume_seed (ap_airplay s) d then s
      else if \<not> should_start_volume_seed_for_cast True (hm_entry 0 d (volume_attempts g))
                   (d \<in> set (volume_seed_inflight g)) (te_terminal_at_seed env d) then s
      else s\<lparr>ap_guards := g\<lparr>volume_seed_inflight := List.insert d (volume_seed_inflight g)\<rparr>,
             ap_spawned_seeds := ap_spawned_seeds s @ [d]\<rparr>)"

definition sync_volume_seeds :: "tick_env \<Rightarrow> device list \<Rightarrow> app_state \<Rightarrow> app_state" where
  "sync_volume_seeds env devs s = foldl (start_volume_seed env) s devs"

definition withdraw_step :: "tick_env \<Rightarrow> string list \<Rightarrow> app_state \<Rightarrow> string \<Rightarrow> app_state" where
  "withdraw_step env desired s d =
     (if is_desired_at_withdraw (d \<in> set desired) (get d (ap_registry s) \<noteq> None) then upd_guards (clear_gone d) s
      else
        let since = hm_entry (te_now env) d (not_desired_since (ap_guards s));
            s1 = upd_guards (\<lambda>g. g\<lparr>not_desired_since := hm_insert d since (not_desired_since g)\<rparr>) s;
            gone_for = te_now env - since;
            has_session = te_session env AtWithdraw d;
            s2 = (if has_session then upd_guards (block_session d) s1 else s1);
            min_gone = (if d \<in> set (session_blocked (ap_guards s2)) then SESSION_GUARD_GONE else 0)
        in case decide_airplay_withdraw False has_session gone_for min_gone of
             Keep \<Rightarrow> s2
           | Defer \<Rightarrow> s2
           | Withdraw \<Rightarrow>
               if \<not> may_withdraw_after_session_recheck (te_session env AtWithdrawRecheck d)
               then upd_guards (block_session d) s2
               else withdraw_now d s2)"

definition withdraw_undesired :: "tick_env \<Rightarrow> string list \<Rightarrow> app_state \<Rightarrow> app_state" where
  "withdraw_undesired env desired s = foldl (withdraw_step env desired) s (active_ids (ap_airplay s))"

definition drop_orphan_cast_workers :: "tick_env \<Rightarrow> string list \<Rightarrow> app_state \<Rightarrow> app_state" where
  "drop_orphan_cast_workers env desired s =
     (let still_active = active_ids (ap_airplay s)
      in foldl (\<lambda>s d. if d \<in> set desired \<or> te_session env AtOrphan d \<or> d \<in> set still_active then s
                      else s\<lparr>ap_pool := remove_begin d (ap_pool s)\<rparr>)
           s (device_ids (ap_pool s)))"

definition maintain_airplay ::
  "(string \<Rightarrow> u64) \<Rightarrow> (string \<Rightarrow> string) \<Rightarrow> (nat list list \<Rightarrow> nat list list) \<Rightarrow> config \<Rightarrow> tick_env \<Rightarrow>
   app_state \<Rightarrow> app_state" where
  "maintain_airplay hash lower iter cfg env s0 =
     (let s1 = reset_cancelled_leaves (apply_stale_expiry env (apply_due_leaves env s0));
          devs = list_all_devices (ap_registry s1);
          s2 = upd_guards (log_cast_renames devs) s1;
          names = airplay_names lower iter devs cfg (te_home_names env);
          previously_advertised = active_ids (ap_airplay s2);
          (s3, desired) = foldl (advertise_device hash env names previously_advertised) (s2, []) devs;
          s4 = upd_guards (\<lambda>g. g\<lparr>known_ids := map dev_id devs\<rparr>) s3;
          s5 = sync_volume_seeds env devs s4;
          s6 = withdraw_undesired env desired s5
      in drop_orphan_cast_workers env desired s6)"

section \<open>Volume seeds\<close>

definition bump_volume_seed_attempt :: "string \<Rightarrow> maintain_guards \<Rightarrow> maintain_guards" where
  "bump_volume_seed_attempt d g =
     g\<lparr>volume_attempts := hm_insert d (saturating_add (hm_entry 0 d (volume_attempts g)) 1) (volume_attempts g)\<rparr>"

definition apply_volume_seed_success :: "(f32 \<Rightarrow> f32) \<Rightarrow> string \<Rightarrow> f32 \<Rightarrow> app_state \<Rightarrow> app_state" where
  "apply_volume_seed_success server_clamp d linear s =
     upd_airplay (set_reported_volume_db server_clamp d (cast_linear_to_airplay_db linear))
       (upd_guards (reset_attempts d) s)"

text \<open>
  The task of a seed: the blocking read ends in time, or the accounting timeout comes first and the task
  waits on; \<open>None\<close> is a failed read.
\<close>

definition seed_finished :: "string \<Rightarrow> maintain_guards \<Rightarrow> maintain_guards" where
  "seed_finished d g = g\<lparr>volume_seed_inflight := removeAll d (volume_seed_inflight g)\<rparr>"

definition seed_in_time :: "(f32 \<Rightarrow> f32) \<Rightarrow> string \<Rightarrow> f32 option \<Rightarrow> app_state \<Rightarrow> app_state" where
  "seed_in_time server_clamp d outcome s =
     upd_guards (seed_finished d)
       (case outcome of Some linear \<Rightarrow> apply_volume_seed_success server_clamp d linear s
        | None \<Rightarrow> upd_guards (bump_volume_seed_attempt d) s)"

definition seed_timed_out :: "string \<Rightarrow> app_state \<Rightarrow> app_state" where
  "seed_timed_out d s = upd_guards (bump_volume_seed_attempt d) s"

definition seed_late :: "(f32 \<Rightarrow> f32) \<Rightarrow> string \<Rightarrow> f32 option \<Rightarrow> app_state \<Rightarrow> app_state" where
  "seed_late server_clamp d outcome s =
     upd_guards (seed_finished d)
       (case outcome of Some linear \<Rightarrow> apply_volume_seed_success server_clamp d linear s | None \<Rightarrow> s)"

section \<open>The supervisor and shutdown\<close>

text \<open>A maintain task that ends with a join error at \<open>now\<close>: the new restart times, or \<open>None\<close> to give up.\<close>

definition supervise_restart :: "instant \<Rightarrow> instant list \<Rightarrow> instant list option" where
  "supervise_restart now restart_times =
     (let recent = filter (\<lambda>t. now - t < MAINTAIN_RESTART_WINDOW) restart_times
      in if MAINTAIN_RESTART_MAX \<le> length recent then None else Some (recent @ [now]))"

definition withdraw_all :: "airplay_manager \<Rightarrow> airplay_manager" where
  "withdraw_all m = foldl (\<lambda>m d. remove_receiver d m) m (active_ids m)"

end
