(* ===== verification/App_Promises.thy ===== *)
theory App_Promises
  imports App_Maintain
begin

text \<open>
  What a maintain tick promises (\<open>src/app.rs\<close>): it never touches the receiver of a live session, advertises every
  healthy device under its name, hides the broken ones, respects the floor after a session, starts one volume
  seed at a time, and its supervisor respawns it at a bounded rate.
\<close>

section \<open>Lookups through the phases\<close>

definition rx_at :: "app_state \<Rightarrow> string \<Rightarrow> airplay_receiver option" where
  "rx_at s d = hm_get (receivers (ap_airplay s)) d"

lemma rx_at_guards [simp]: "rx_at (upd_guards f s) d = rx_at s d"
  by (simp add: rx_at_def upd_guards_def)

lemma rx_at_registry [simp]: "rx_at (s\<lparr>ap_registry := r\<rparr>) d = rx_at s d"
  by (simp add: rx_at_def)

lemma rx_at_pool [simp]: "rx_at (s\<lparr>ap_pool := p\<rparr>) d = rx_at s d"
  by (simp add: rx_at_def)

lemma rx_at_remove: "rx_at (upd_airplay (remove_receiver d') s) d = (if d = d' then None else rx_at s d)"
  by (simp add: rx_at_def upd_airplay_def remove_receiver_def)

lemma rx_at_withdraw: "rx_at (withdraw_now d' s) d = (if d = d' then None else rx_at s d)"
  by (simp add: rx_at_def withdraw_now_def upd_guards_def remove_receiver_def)

lemma rx_at_ensure_other: "d \<noteq> d' \<Longrightarrow> rx_at (upd_airplay (ensure_now hash d' name start) s) d = rx_at s d"
  by (simp add: rx_at_def upd_airplay_def ensure_now_def remove_receiver_def Let_def split: option.split sum.split)

lemma rx_at_ensure_same:
  assumes "d \<notin> set (kicking (ap_airplay s))" and "start = Inl art"
  shows "\<exists>rx. rx_at (upd_airplay (ensure_now hash d name start) s) d = Some rx \<and> ar_name rx = name"
  using assms
  by (auto simp: rx_at_def upd_airplay_def ensure_now_def remove_receiver_def receiver_build_def Let_def
      split: option.splits)

lemma foldl_same: "(\<And>s x. x \<in> set xs \<Longrightarrow> f (step s x) = f s) \<Longrightarrow> f (foldl step s xs) = f s"
  by (induction xs arbitrary: s) auto

lemma active_ids_iff: "d \<in> set (active_ids (ap_airplay s)) \<longleftrightarrow> rx_at s d \<noteq> None"
  by (simp add: active_ids_def rx_at_def hm_get_None_iff)

text \<open>\<open>ensure_now\<close> is an \<open>ensure\<close> call whose steps run one after the other.\<close>

lemma ensure_now_steps:
  assumes "hm_get (am_calls m) c = None"
  shows "receivers (foldl (mgr_step hash server_clamp) m
           [CallEnsure c d name, Continue c start, Continue c start, Continue c start, Continue c start]) =
         receivers (ensure_now hash d name start m)"
proof (cases "d \<in> set (kicking m)")
  case True
  then show ?thesis using assms by (simp add: mgr_step_def ensure_call_def ensure_now_def)
next
  case False
  then show ?thesis
    using assms
    by (cases "hm_get (receivers m) d"; cases start)
      (simp_all add: mgr_step_def ensure_call_def set_call_def remove_receiver_def ensure_now_def Let_def)
qed

section \<open>The state before the device loop\<close>

definition tick_start :: "tick_env \<Rightarrow> app_state \<Rightarrow> app_state" where
  "tick_start env s = reset_cancelled_leaves (apply_stale_expiry env (apply_due_leaves env s))"

definition tick_devices :: "tick_env \<Rightarrow> app_state \<Rightarrow> device list" where
  "tick_devices env s = list_all_devices (ap_registry (tick_start env s))"

lemma due_leaves_rx [simp]: "rx_at (apply_due_leaves env s) d = rx_at s d"
proof -
  obtain due r where dl: "take_due_leaves (te_now env) (ap_registry s) = (due, r)" by force
  show ?thesis
    unfolding apply_due_leaves_def dl by simp (subst foldl_same [where f = "\<lambda>s. rx_at s d"], simp_all)
qed

lemma reset_cancelled_rx [simp]: "rx_at (reset_cancelled_leaves s) d = rx_at s d"
proof -
  obtain ids r where dr: "drain_pending_leave_cancellations (ap_registry s) = (ids, r)" by force
  show ?thesis
    unfolding reset_cancelled_leaves_def dr by simp (subst foldl_same [where f = "\<lambda>s. rx_at s d"], simp_all)
qed

lemma expire_device_rx:
  "rx_at (expire_device env s dev) d =
   (if dev_id dev = d \<and> \<not> te_session env AtExpiry d \<and> \<not> te_session env AtExpiryRecheck d then None else rx_at s d)"
  by (simp add: expire_device_def Let_def rx_at_withdraw may_withdraw_after_session_recheck_def)

lemma stale_expiry_rx:
  assumes "te_session env AtExpiry d"
  shows "rx_at (apply_stale_expiry env s) d = rx_at s d"
proof -
  obtain expired r where ex: "(if te_linux env
             then expire_stale_where DEFAULT_STALE_TTL
                    (\<lambda>dev. should_leave_linux_stale True (te_reachable env (dev_id dev))) (te_now env) (ap_registry s)
             else expire_stale DEFAULT_STALE_TTL (te_now env) (ap_registry s)) = (expired, r)" by force
  show ?thesis
    unfolding apply_stale_expiry_def ex using assms
    by simp (subst foldl_same [where f = "\<lambda>s. rx_at s d"], simp_all add: expire_device_rx)
qed

section \<open>The device loop\<close>

lemma advertise_other:
  assumes "dev_id dev \<noteq> d"
  shows "rx_at (fst (advertise_device hash env names prev sd dev)) d = rx_at (fst sd) d"
    and "kicking (ap_airplay (fst (advertise_device hash env names prev sd dev))) = kicking (ap_airplay (fst sd))"
    and "d \<in> set (snd (advertise_device hash env names prev sd dev)) \<longleftrightarrow> d \<in> set (snd sd)"
proof -
  obtain s desired where sd: "sd = (s, desired)" by force
  show "rx_at (fst (advertise_device hash env names prev sd dev)) d = rx_at (fst sd) d"
    using assms unfolding sd
    by (auto simp: advertise_device_def Let_def rx_at_remove rx_at_ensure_other split: option.split)
  show "kicking (ap_airplay (fst (advertise_device hash env names prev sd dev))) = kicking (ap_airplay (fst sd))"
    unfolding sd
    by (auto simp: advertise_device_def Let_def upd_airplay_def upd_guards_def remove_receiver_def ensure_now_def
        split: option.split sum.split)
  show "d \<in> set (snd (advertise_device hash env names prev sd dev)) \<longleftrightarrow> d \<in> set (snd sd)"
    using assms unfolding sd by (auto simp: advertise_device_def Let_def split: option.split)
qed

lemma advertise_kicking:
  "kicking (ap_airplay (fst (advertise_device hash env names prev sd dev))) = kicking (ap_airplay (fst sd))"
  by (cases sd)
    (auto simp: advertise_device_def Let_def upd_airplay_def upd_guards_def remove_receiver_def ensure_now_def
      split: option.split sum.split)

lemma advertise_loop_other:
  assumes "d \<notin> dev_id ` set devs"
  shows "rx_at (fst (foldl (advertise_device hash env names prev) sd devs)) d = rx_at (fst sd) d"
    and "d \<in> set (snd (foldl (advertise_device hash env names prev) sd devs)) \<longleftrightarrow> d \<in> set (snd sd)"
  using assms by (induction devs arbitrary: sd) (auto simp: advertise_other)

lemma advertise_loop_kicking:
  "kicking (ap_airplay (fst (foldl (advertise_device hash env names prev) sd devs))) = kicking (ap_airplay (fst sd))"
  by (induction devs arbitrary: sd) (auto simp: advertise_kicking)

text \<open>One device in a list with distinct ids: everything else leaves its receiver alone.\<close>

lemma advertise_loop_one:
  assumes "distinct (map dev_id devs)" and "dev \<in> set devs"
  shows "\<exists>s desired. rx_at s (dev_id dev) = rx_at (fst sd) (dev_id dev) \<and>
    kicking (ap_airplay s) = kicking (ap_airplay (fst sd)) \<and>
    rx_at (fst (foldl (advertise_device hash env names prev) sd devs)) (dev_id dev) =
      rx_at (fst (advertise_device hash env names prev (s, desired) dev)) (dev_id dev) \<and>
    (hm_get names (dev_id dev) \<noteq> None \<longrightarrow>
      dev_id dev \<in> set (snd (foldl (advertise_device hash env names prev) sd devs)))"
proof -
  obtain xs ys where split: "devs = xs @ dev # ys" using assms(2) by (metis split_list)
  have not: "dev_id dev \<notin> dev_id ` set xs" "dev_id dev \<notin> dev_id ` set ys"
    using assms(1) by (auto simp: split)
  obtain s desired where pre: "foldl (advertise_device hash env names prev) sd xs = (s, desired)" by force
  have "rx_at s (dev_id dev) = rx_at (fst sd) (dev_id dev)"
    using advertise_loop_other(1) [OF not(1), of hash env names prev sd] pre by simp
  moreover have "kicking (ap_airplay s) = kicking (ap_airplay (fst sd))"
    using advertise_loop_kicking [of hash env names prev sd xs] pre by simp
  moreover have "rx_at (fst (foldl (advertise_device hash env names prev) sd devs)) (dev_id dev) =
      rx_at (fst (advertise_device hash env names prev (s, desired) dev)) (dev_id dev)"
    by (simp add: split pre advertise_loop_other(1) [OF not(2)])
  moreover have "dev_id dev \<in> set (snd (foldl (advertise_device hash env names prev) sd devs))"
    if "hm_get names (dev_id dev) \<noteq> None"
    using that unfolding split foldl_append pre
    by (simp add: advertise_loop_other(2) [OF not(2)]) (auto simp: advertise_device_def Let_def)
  ultimately show ?thesis by blast
qed

section \<open>After the device loop\<close>

lemma seed_rx: "rx_at (start_volume_seed env s dev) d = rx_at s d"
  by (simp add: start_volume_seed_def Let_def rx_at_def)

lemma sync_rx [simp]: "rx_at (sync_volume_seeds env devs s) d = rx_at s d"
  unfolding sync_volume_seeds_def by (rule foldl_same [where f = "\<lambda>s. rx_at s d"]) (rule seed_rx)

lemma orphan_rx [simp]: "rx_at (drop_orphan_cast_workers env desired s) d = rx_at s d"
  unfolding drop_orphan_cast_workers_def Let_def by (rule foldl_same [where f = "\<lambda>s. rx_at s d"]) simp

lemma withdraw_step_other: "d \<noteq> d' \<Longrightarrow> rx_at (withdraw_step env desired s d') d = rx_at s d"
  by (simp add: withdraw_step_def Let_def rx_at_withdraw split: withdraw_decision.split)

lemma withdraw_step_session: "te_session env AtWithdraw d \<Longrightarrow> rx_at (withdraw_step env desired s d) d = rx_at s d"
  by (simp add: withdraw_step_def Let_def decide_airplay_withdraw_def)

lemma withdraw_step_desired: "d \<in> set desired \<Longrightarrow> rx_at (withdraw_step env desired s d) d = rx_at s d"
  by (simp add: withdraw_step_def is_desired_at_withdraw_def)

lemma withdraw_rx:
  assumes "te_session env AtWithdraw d \<or> d \<in> set desired"
  shows "rx_at (withdraw_undesired env desired s) d = rx_at s d"
  unfolding withdraw_undesired_def
proof (rule foldl_same [where f = "\<lambda>s. rx_at s d"])
  fix s d'
  show "rx_at (withdraw_step env desired s d') d = rx_at s d"
    using assms withdraw_step_other withdraw_step_session withdraw_step_desired by (cases "d = d'") auto
qed

text \<open>Withdrawing never adds a receiver.\<close>

lemma withdraw_step_none: "rx_at s d = None \<Longrightarrow> rx_at (withdraw_step env desired s d') d = None"
  by (cases "d = d'")
    (auto simp: withdraw_step_other withdraw_step_def Let_def rx_at_withdraw split: withdraw_decision.split)

lemma withdraw_none: "rx_at s d = None \<Longrightarrow> rx_at (withdraw_undesired env desired s) d = None"
proof -
  have "rx_at s d = None \<Longrightarrow> rx_at (foldl (withdraw_step env desired) s ds) d = None" for ds
    by (induction ds arbitrary: s) (auto simp: withdraw_step_none)
  then show "rx_at s d = None \<Longrightarrow> rx_at (withdraw_undesired env desired s) d = None"
    by (simp add: withdraw_undesired_def)
qed

text \<open>The whole tick, as far as one receiver is concerned.\<close>

lemma tick_rx:
  assumes "devs = tick_devices env s" and "s2 = upd_guards (log_cast_renames devs) (tick_start env s)"
    and "names = airplay_names lower iter devs cfg (te_home_names env)"
    and "foldl (advertise_device hash env names (active_ids (ap_airplay s2))) (s2, []) devs = (s3, desired)"
  shows "\<exists>s5. rx_at s5 d = rx_at s3 d \<and>
    rx_at (maintain_airplay hash lower iter cfg env s) d = rx_at (withdraw_undesired env desired s5) d"
proof -
  define s4 where "s4 = upd_guards (\<lambda>g. g\<lparr>known_ids := map dev_id devs\<rparr>) s3"
  have "maintain_airplay hash lower iter cfg env s =
      drop_orphan_cast_workers env desired (withdraw_undesired env desired (sync_volume_seeds env devs s4))"
    using assms unfolding maintain_airplay_def tick_start_def [symmetric] tick_devices_def Let_def s4_def
    by simp
  then show ?thesis by (intro exI [of _ "sync_volume_seeds env devs s4"]) (simp add: s4_def)
qed

section \<open>The registry through a tick\<close>

lemma foldl_guards_registry: "ap_registry (foldl (\<lambda>s x. upd_guards (f x) s) s xs) = ap_registry s"
  by (rule foldl_same [where f = ap_registry]) (simp add: upd_guards_def)

lemma expire_registry: "ap_registry (foldl (expire_device env) s devs) = ap_registry s"
  by (rule foldl_same [where f = ap_registry])
    (simp add: expire_device_def Let_def upd_guards_def withdraw_now_def)

lemma tick_start_registry_ok:
  assumes "registry_ok (ap_registry s)"
  shows "registry_ok (ap_registry (tick_start env s))"
proof -
  have "ap_registry (apply_due_leaves env s) = registry_step (ap_registry s) (TakeDue (te_now env))"
    by (simp add: apply_due_leaves_def foldl_guards_registry split: prod.split)
  then have 1: "registry_ok (ap_registry (apply_due_leaves env s))"
    by (simp only:) (rule registry_ok_step [OF assms])
  have "ap_registry (apply_stale_expiry env s') =
      (if te_linux env then registry_step (ap_registry s') (ExpireWhere DEFAULT_STALE_TTL
         (\<lambda>dev. should_leave_linux_stale True (te_reachable env (dev_id dev))) (te_now env))
       else registry_step (ap_registry s') (Prune DEFAULT_STALE_TTL (te_now env)))" for s'
    by (simp add: apply_stale_expiry_def expire_registry expire_stale_def split: prod.split)
  then have 2: "registry_ok (ap_registry (apply_stale_expiry env (apply_due_leaves env s)))"
    by (cases "te_linux env") (simp_all only: if_True if_False registry_ok_step [OF 1])
  have "ap_registry (reset_cancelled_leaves s') = registry_step (ap_registry s') DrainCancellations" for s'
    by (simp add: reset_cancelled_leaves_def foldl_guards_registry split: prod.split)
  then show ?thesis unfolding tick_start_def by (simp only: registry_ok_step [OF 2])
qed

lemma devices_distinct:
  assumes "registry_ok r"
  shows "distinct (map dev_id (list_all_devices r))"
proof -
  have "map dev_id (list_all_devices r) = map fst (inner r)"
    unfolding list_all_devices_def hm_values_def map_map
  proof (rule map_cong)
    fix kv
    assume kv: "kv \<in> set (inner r)"
    obtain k v where "kv = (k, v)" by force
    with kv assms show "(dev_id \<circ> snd) kv = fst kv" by (auto simp: registry_ok_def hm_get_iff)
  qed simp
  then show ?thesis using assms by (simp add: registry_ok_def hm_ok_def)
qed

section \<open>The promises\<close>

text \<open>
  C8: What a maintain tick does to the receiver of a device on which it sees a session at each of its three checks
  (when the device expired, before it advertises, before it withdraws). If the Cast worker of the device has failed
  for good and the device is listed under a name, the receiver is withdrawn: that is the one reason. In every other
  case it is left exactly as it is, not withdrawn, rebuilt or renamed, even when the device expires, leaves, or gets
  another name in this tick.
\<close>

theorem live_session_survives_tick:
  assumes "rx_at s d = Some rx"
    and "te_session env AtExpiry d" "te_session env AtEnsure d" "te_session env AtWithdraw d"
  shows "rx_at (maintain_airplay hash lower iter cfg env s) d =
    (if te_terminal env d \<and> d \<in> dev_id ` set (tick_devices env s) \<and>
        hm_get (airplay_names lower iter (tick_devices env s) cfg (te_home_names env)) d \<noteq> None
     then None else Some rx)"
proof -
  define devs where "devs = tick_devices env s"
  define s2 where "s2 = upd_guards (log_cast_renames devs) (tick_start env s)"
  define names where "names = airplay_names lower iter devs cfg (te_home_names env)"
  define prev where "prev = active_ids (ap_airplay s2)"
  define hidden where "hidden = (\<lambda>dev :: device. dev_id dev = d \<and> te_terminal env d \<and> hm_get names d \<noteq> None)"
  obtain s3 desired where loop: "foldl (advertise_device hash env names prev) (s2, []) devs = (s3, desired)" by force
  have start: "rx_at s2 d = Some rx"
    using assms(1,2) stale_expiry_rx [of env d] by (simp add: s2_def tick_start_def)
  have prev: "d \<in> set prev" using start active_ids_iff [of d s2] by (simp add: prev_def)
  have step: "rx_at (fst (advertise_device hash env names prev sd dev)) d = (if hidden dev then None else rx_at (fst sd) d)"
    for sd dev
  proof (cases "dev_id dev = d")
    case True
    then show ?thesis
      using prev assms(3)
      by (cases sd) (auto simp: advertise_device_def Let_def hidden_def rx_at_remove split: option.split)
  next
    case False
    then show ?thesis by (simp add: hidden_def advertise_other(1))
  qed
  have "rx_at (fst (foldl (advertise_device hash env names prev) sd xs)) d =
      (if \<exists>dev \<in> set xs. hidden dev then None else rx_at (fst sd) d)" for sd xs
    by (induction xs arbitrary: sd) (auto simp: step)
  from this [of "(s2, [])" devs] have s3: "rx_at s3 d = (if \<exists>dev \<in> set devs. hidden dev then None else Some rx)"
    using start loop by simp
  obtain s5 where "rx_at s5 d = rx_at s3 d"
    "rx_at (maintain_airplay hash lower iter cfg env s) d = rx_at (withdraw_undesired env desired s5) d"
    using tick_rx [OF devs_def s2_def names_def loop [unfolded prev_def], of d] by blast
  then have "rx_at (maintain_airplay hash lower iter cfg env s) d =
      (if \<exists>dev \<in> set devs. hidden dev then None else Some rx)"
    using withdraw_rx [of env d desired s5] assms(4) s3 by simp
  moreover have "(\<exists>dev \<in> set devs. hidden dev) \<longleftrightarrow> te_terminal env d \<and> d \<in> dev_id ` set devs \<and> hm_get names d \<noteq> None"
    by (auto simp: hidden_def)
  ultimately show ?thesis unfolding devs_def names_def by (simp only:)
qed

text \<open>
  tick_advertises_by_name. After a tick, a listed device that got a name has no receiver if its Cast worker has
  failed for good; otherwise, when its server starts, it is not being kicked and it had no session, it has a
  receiver under exactly that name.
\<close>

theorem tick_advertises_by_name:
  assumes "registry_ok (ap_registry s)" and "dev \<in> set (tick_devices env s)"
    and "hm_get (airplay_names lower iter (tick_devices env s) cfg (te_home_names env)) (dev_id dev) = Some name"
    and "\<not> te_session env AtEnsure (dev_id dev)" and "te_start env (dev_id dev) = Inl art"
    and "dev_id dev \<notin> set (kicking (ap_airplay (tick_start env s)))"
  shows "case rx_at (maintain_airplay hash lower iter cfg env s) (dev_id dev) of
      None \<Rightarrow> te_terminal env (dev_id dev)
    | Some rx \<Rightarrow> \<not> te_terminal env (dev_id dev) \<and> ar_name rx = name"
proof -
  define devs where "devs = tick_devices env s"
  define s2 where "s2 = upd_guards (log_cast_renames devs) (tick_start env s)"
  define names where "names = airplay_names lower iter devs cfg (te_home_names env)"
  define prev where "prev = active_ids (ap_airplay s2)"
  define d where "d = dev_id dev"
  have name: "hm_get names d = Some name" using assms(3) by (simp add: names_def devs_def d_def)
  obtain s3 desired where loop: "foldl (advertise_device hash env names prev) (s2, []) devs = (s3, desired)" by force
  have dist: "distinct (map dev_id devs)"
    unfolding devs_def tick_devices_def by (rule devices_distinct) (rule tick_start_registry_ok [OF assms(1)])
  have "dev \<in> set devs" using assms(2) by (simp add: devs_def)
  from advertise_loop_one [OF dist this, of "(s2, [])" hash env names prev] obtain s' desired' where one:
    "kicking (ap_airplay s') = kicking (ap_airplay s2)"
    "rx_at s3 d = rx_at (fst (advertise_device hash env names prev (s', desired') dev)) d" "d \<in> set desired"
    using loop name by (auto simp: d_def)
  have kick: "d \<notin> set (kicking (ap_airplay s'))"
    using assms(6) unfolding one(1) by (simp add: s2_def d_def upd_guards_def)
  have s3: "case rx_at s3 d of None \<Rightarrow> te_terminal env d | Some rx \<Rightarrow> \<not> te_terminal env d \<and> ar_name rx = name"
  proof (cases "te_terminal env d")
    case True
    define t where "t = (if d \<notin> set (known_ids (ap_guards s')) then upd_guards (reset_attempts d) s' else s')
      \<lparr>ap_pool := pool_ensure dev (te_spawned env d)
        (ap_pool (if d \<notin> set (known_ids (ap_guards s')) then upd_guards (reset_attempts d) s' else s'))\<rparr>"
    have "rx_at s3 d = (if d \<in> set prev \<or> d \<in> set (active_ids (ap_airplay t))
        then rx_at (upd_airplay (remove_receiver d) t) d else rx_at t d)"
      using True name unfolding one(2) by (simp add: advertise_device_def Let_def d_def [symmetric] t_def)
    then have "rx_at s3 d = None" using active_ids_iff [of d t] by (auto simp: rx_at_remove)
    then show ?thesis using True by simp
  next
    case False
    define t where "t = (if d \<notin> set (known_ids (ap_guards s')) then upd_guards (reset_attempts d) s' else s')
      \<lparr>ap_pool := pool_ensure dev (te_spawned env d)
        (ap_pool (if d \<notin> set (known_ids (ap_guards s')) then upd_guards (reset_attempts d) s' else s'))\<rparr>"
    have "rx_at s3 d = rx_at (upd_airplay (ensure_now hash d name (te_start env d)) t) d"
      using False name assms(4) unfolding one(2) by (simp add: advertise_device_def Let_def d_def [symmetric] t_def)
    moreover have "d \<notin> set (kicking (ap_airplay t))" using kick by (simp add: t_def upd_guards_def)
    ultimately show ?thesis
      using rx_at_ensure_same [of d t "te_start env d" art hash name] False assms(5) by (auto simp: d_def)
  qed
  obtain s5 where "rx_at s5 d = rx_at s3 d"
    "rx_at (maintain_airplay hash lower iter cfg env s) d = rx_at (withdraw_undesired env desired s5) d"
    using tick_rx [OF devs_def s2_def names_def loop [unfolded prev_def], of d] by blast
  then have "rx_at (maintain_airplay hash lower iter cfg env s) d = rx_at s3 d"
    using withdraw_rx [of env d desired s5] one(3) by simp
  then show ?thesis using s3 unfolding d_def by simp
qed

section \<open>The floor after a session\<close>

lemma withdraw_step_guards:
  assumes "d \<noteq> d'"
  shows "hm_get (not_desired_since (ap_guards (withdraw_step env desired s d'))) d = hm_get (not_desired_since (ap_guards s)) d"
    and "d \<in> set (session_blocked (ap_guards (withdraw_step env desired s d'))) \<longleftrightarrow> d \<in> set (session_blocked (ap_guards s))"
    and "ap_registry (withdraw_step env desired s d') = ap_registry s"
  using assms
  by (simp_all add: withdraw_step_def Let_def upd_guards_def clear_gone_def block_session_def withdraw_now_def
      split: withdraw_decision.split)

lemma withdraw_loop_guards:
  assumes "d \<notin> set ds"
  shows "hm_get (not_desired_since (ap_guards (foldl (withdraw_step env desired) s ds))) d = hm_get (not_desired_since (ap_guards s)) d
    \<and> (d \<in> set (session_blocked (ap_guards (foldl (withdraw_step env desired) s ds))) \<longleftrightarrow> d \<in> set (session_blocked (ap_guards s)))
    \<and> ap_registry (foldl (withdraw_step env desired) s ds) = ap_registry s
    \<and> rx_at (foldl (withdraw_step env desired) s ds) d = rx_at s d"
  using assms
proof (induction ds arbitrary: s)
  case Nil
  then show ?case by simp
next
  case (Cons d' ds)
  then have "d \<noteq> d'" by auto
  from withdraw_step_guards [OF this, of env desired s] withdraw_step_other [OF this, of env desired s] Cons
  show ?case by simp
qed

text \<open>
  withdraw_floor. A receiver whose device is gone is withdrawn at once, with its guard entries, when no session
  was ever seen on it since; after a session it stays until the device has been gone for a minute.
\<close>

theorem withdraw_floor:
  assumes "hm_ok (receivers (ap_airplay s))" and "rx_at s d = Some rx" and "d \<notin> set desired"
    and "get d (ap_registry s) = None" and "\<not> te_session env AtWithdraw d" and "\<not> te_session env AtWithdrawRecheck d"
    and "since = hm_entry (te_now env) d (not_desired_since (ap_guards s))"
  shows "if d \<in> set (session_blocked (ap_guards s)) \<and> te_now env - since < SESSION_GUARD_GONE
    then rx_at (withdraw_undesired env desired s) d = Some rx
    else rx_at (withdraw_undesired env desired s) d = None \<and>
         hm_get (not_desired_since (ap_guards (withdraw_undesired env desired s))) d = None \<and>
         d \<notin> set (session_blocked (ap_guards (withdraw_undesired env desired s)))"
proof -
  have "d \<in> set (active_ids (ap_airplay s))" using assms(2) active_ids_iff [of d s] by simp
  then obtain xs ys where split: "active_ids (ap_airplay s) = xs @ d # ys" by (metis split_list)
  have "distinct (active_ids (ap_airplay s))" using assms(1) by (simp add: active_ids_def hm_ok_def)
  then have not: "d \<notin> set xs" "d \<notin> set ys" by (auto simp: split)
  define s1 where "s1 = foldl (withdraw_step env desired) s xs"
  note pre = withdraw_loop_guards [OF not(1), of env desired s, folded s1_def]
  define s2 where "s2 = withdraw_step env desired s1 d"
  have whole: "withdraw_undesired env desired s = foldl (withdraw_step env desired) s2 ys"
    by (simp add: withdraw_undesired_def split s1_def s2_def)
  note post = withdraw_loop_guards [OF not(2), of env desired s2, folded whole]
  have since: "hm_entry (te_now env) d (not_desired_since (ap_guards s1)) = since"
    using pre assms(7) by (simp add: hm_entry_def)
  have reg: "get d (ap_registry s1) = None" using pre assms(4) by simp
  show ?thesis
  proof (cases "d \<in> set (session_blocked (ap_guards s)) \<and> te_now env - since < SESSION_GUARD_GONE")
    case True
    then have "rx_at s2 d = rx_at s1 d"
      using pre assms(3,5) reg
      by (simp add: s2_def withdraw_step_def is_desired_at_withdraw_def Let_def since decide_airplay_withdraw_def
          upd_guards_def rx_at_def)
    then show ?thesis using True pre post assms(2) by simp
  next
    case False
    have "rx_at s2 d = None \<and> hm_get (not_desired_since (ap_guards s2)) d = None \<and>
        d \<notin> set (session_blocked (ap_guards s2))"
      using False pre assms(3,5,6) reg
      by (auto simp: s2_def withdraw_step_def is_desired_at_withdraw_def Let_def since decide_airplay_withdraw_def
          may_withdraw_after_session_recheck_def upd_guards_def rx_at_def withdraw_now_def clear_gone_def
          remove_receiver_def not_less)
    then show ?thesis using False post by auto
  qed
qed

section \<open>The restart budget\<close>

fun supervise_log :: "instant list \<Rightarrow> instant list \<Rightarrow> instant list" where
  "supervise_log recent [] = []"
| "supervise_log recent (t # ts) =
     (case supervise_restart t recent of None \<Rightarrow> [] | Some recent' \<Rightarrow> t # supervise_log recent' ts)"

definition spaced :: "instant list \<Rightarrow> bool" where
  "spaced ts \<longleftrightarrow> (\<forall>i. i + MAINTAIN_RESTART_MAX < length ts \<longrightarrow>
     MAINTAIN_RESTART_WINDOW \<le> ts ! (i + MAINTAIN_RESTART_MAX) - ts ! i)"

lemma sorted_window:
  fixes past :: "instant list"
  assumes "sorted (past @ [t])" and "length (filter (\<lambda>p. t - p < w) past) < k" and "i + k = length past"
  shows "w \<le> t - past ! i"
proof (rule ccontr)
  assume far: "\<not> w \<le> t - past ! i"
  have "\<forall>p \<in> set (drop i past). t - p < w"
  proof
    fix p
    assume "p \<in> set (drop i past)"
    then obtain j where "j < length (drop i past)" "drop i past ! j = p" by (metis in_set_conv_nth)
    then have j: "i + j < length past" "p = past ! (i + j)" by auto
    have "past ! i \<le> past ! (i + j)" using assms(1) j(1) by (simp add: sorted_append sorted_nth_mono)
    then have "t - p \<le> t - past ! i" unfolding j(2) by (rule diff_le_mono2)
    then show "t - p < w" using far by linarith
  qed
  then have "length (drop i past) \<le> length (filter (\<lambda>p. t - p < w) past)"
    by (subst append_take_drop_id [of i past, symmetric], subst filter_append) simp
  then show False using assms(2,3) by simp
qed

lemma supervise_spaced:
  assumes "sorted (past @ ts)" and "spaced past" and "\<forall>t \<in> set ts. x \<le> t"
    and "recent = filter (\<lambda>p. x - p < MAINTAIN_RESTART_WINDOW) past"
  shows "spaced (past @ supervise_log recent ts)"
  using assms
proof (induction ts arbitrary: past recent x)
  case Nil
  then show ?case by simp
next
  case (Cons t ts)
  define kept where "kept = filter (\<lambda>p. t - p < MAINTAIN_RESTART_WINDOW) past"
  have same: "filter (\<lambda>p. t - p < MAINTAIN_RESTART_WINDOW) recent = kept"
    unfolding Cons.prems(4) kept_def filter_filter
    by (rule filter_cong) (use Cons.prems(3) in auto)
  show ?case
  proof (cases "MAINTAIN_RESTART_MAX \<le> length kept")
    case True
    then show ?thesis using Cons.prems(2) by (simp add: supervise_restart_def Let_def same)
  next
    case False
    have sorted: "sorted (past @ [t])" "sorted ((past @ [t]) @ ts)" using Cons.prems(1) by (auto simp: sorted_append)
    have "spaced (past @ [t])"
      unfolding spaced_def
    proof (intro allI impI)
      fix i
      assume i: "i + MAINTAIN_RESTART_MAX < length (past @ [t])"
      show "MAINTAIN_RESTART_WINDOW \<le> (past @ [t]) ! (i + MAINTAIN_RESTART_MAX) - (past @ [t]) ! i"
      proof (cases "i + MAINTAIN_RESTART_MAX = length past")
        case True
        then have "i < length past" by (simp add: MAINTAIN_RESTART_MAX_def)
        then show ?thesis
          using sorted_window [OF sorted(1) _ True] False True by (simp add: kept_def nth_append)
      next
        case no: False
        then show ?thesis using i Cons.prems(2) by (simp add: spaced_def nth_append)
      qed
    qed
    moreover have "\<forall>t' \<in> set ts. t \<le> t'" using Cons.prems(1) by (simp add: sorted_append)
    moreover have "kept @ [t] = filter (\<lambda>p. t - p < MAINTAIN_RESTART_WINDOW) (past @ [t])"
      by (simp add: kept_def MAINTAIN_RESTART_WINDOW_def from_secs_def)
    ultimately have "spaced ((past @ [t]) @ supervise_log (kept @ [t]) ts)"
      by (rule Cons.IH [OF sorted(2)])
    then show ?thesis using False by (simp add: supervise_restart_def Let_def same)
  qed
qed

text \<open>
  restart_budget. However often the maintain task dies, the supervisor never starts it again a sixth time within
  a minute: the respawn five after any respawn comes at least 60 s later.
\<close>

theorem restart_budget:
  assumes "sorted ts" and "i + MAINTAIN_RESTART_MAX < length (supervise_log [] ts)"
  shows "from_secs 60 \<le> supervise_log [] ts ! (i + MAINTAIN_RESTART_MAX) - supervise_log [] ts ! i"
proof -
  have "spaced ([] @ supervise_log [] ts)"
    by (rule supervise_spaced [where x = 0]) (use assms(1) in \<open>simp_all add: spaced_def\<close>)
  then show ?thesis using assms(2) by (simp add: spaced_def MAINTAIN_RESTART_WINDOW_def)
qed

section \<open>Volume seeds, beside the ticks\<close>

text \<open>
  \<open>sr_running\<close> lists the seed tasks that have not ended, with whether their accounting timeout has passed.
\<close>

record seed_run =
  sr_app :: app_state
  sr_running :: "(string, bool) hashmap"

datatype seed_event =
    SeedSync tick_env "device list"
  | SeedEnds string "f32 option"
  | SeedTimeout string
  | SeedReset string

fun seed_step :: "(f32 \<Rightarrow> f32) \<Rightarrow> seed_run \<Rightarrow> seed_event \<Rightarrow> seed_run" where
  "seed_step server_clamp r (SeedSync env devs) =
     (let s' = sync_volume_seeds env devs (sr_app r);
          spawned = drop (length (ap_spawned_seeds (sr_app r))) (ap_spawned_seeds s')
      in r\<lparr>sr_app := s', sr_running := foldl (\<lambda>m d. hm_insert d False m) (sr_running r) spawned\<rparr>)"
| "seed_step server_clamp r (SeedEnds d outcome) =
     (case hm_get (sr_running r) d of None \<Rightarrow> r
      | Some late \<Rightarrow> r\<lparr>sr_app := (if late then seed_late server_clamp d outcome (sr_app r)
                                else seed_in_time server_clamp d outcome (sr_app r)),
                     sr_running := hm_remove d (sr_running r)\<rparr>)"
| "seed_step server_clamp r (SeedTimeout d) =
     (if hm_get (sr_running r) d = Some False
      then r\<lparr>sr_app := seed_timed_out d (sr_app r), sr_running := hm_insert d True (sr_running r)\<rparr>
      else r)"
| "seed_step server_clamp r (SeedReset d) = r\<lparr>sr_app := upd_guards (reset_attempts d) (sr_app r)\<rparr>"

definition attempts_of :: "app_state \<Rightarrow> string \<Rightarrow> u32" where
  "attempts_of s d = hm_entry 0 d (volume_attempts (ap_guards s))"

definition seeds_ok :: "seed_run \<Rightarrow> bool" where
  "seeds_ok r \<longleftrightarrow>
     (\<forall>d. hm_get (sr_running r) d \<noteq> None \<longleftrightarrow> d \<in> set (volume_seed_inflight (ap_guards (sr_app r)))) \<and>
     (\<forall>d. unat (attempts_of (sr_app r) d) \<le> 5) \<and>
     (\<forall>d. hm_get (sr_running r) d = Some False \<longrightarrow> unat (attempts_of (sr_app r) d) < 5)"

text \<open>One pass over the devices: what it spawns, and that it only marks what it spawns.\<close>

lemma sync_spawns:
  "\<exists>new. ap_spawned_seeds (sync_volume_seeds env devs s) = ap_spawned_seeds s @ new \<and> distinct new \<and>
     (\<forall>d \<in> set new. d \<notin> set (volume_seed_inflight (ap_guards s)) \<and> unat (attempts_of s d) < 5 \<and>
        \<not> te_terminal_at_seed env d) \<and>
     set (volume_seed_inflight (ap_guards (sync_volume_seeds env devs s))) =
       set (volume_seed_inflight (ap_guards s)) \<union> set new \<and>
     volume_attempts (ap_guards (sync_volume_seeds env devs s)) = volume_attempts (ap_guards s)"
proof (induction devs arbitrary: s)
  case Nil
  then show ?case by (simp add: sync_volume_seeds_def)
next
  case (Cons dev devs)
  define d where "d = dev_id dev"
  define s1 where "s1 = start_volume_seed env s dev"
  have whole: "sync_volume_seeds env (dev # devs) s = sync_volume_seeds env devs s1"
    by (simp add: sync_volume_seeds_def s1_def)
  obtain new where new: "ap_spawned_seeds (sync_volume_seeds env devs s1) = ap_spawned_seeds s1 @ new" "distinct new"
    "\<forall>d \<in> set new. d \<notin> set (volume_seed_inflight (ap_guards s1)) \<and> unat (attempts_of s1 d) < 5 \<and>
        \<not> te_terminal_at_seed env d"
    "set (volume_seed_inflight (ap_guards (sync_volume_seeds env devs s1))) =
       set (volume_seed_inflight (ap_guards s1)) \<union> set new"
    "volume_attempts (ap_guards (sync_volume_seeds env devs s1)) = volume_attempts (ap_guards s1)"
    using Cons.IH [of s1] by blast
  show ?case
  proof (cases "s1 = s")
    case True
    then show ?thesis unfolding whole using new by (intro exI [of _ new]) simp
  next
    case False
    then have st: "d \<notin> set (volume_seed_inflight (ap_guards s))" "attempts_of s d < 5" "\<not> te_terminal_at_seed env d"
      "ap_spawned_seeds s1 = ap_spawned_seeds s @ [d]"
      "set (volume_seed_inflight (ap_guards s1)) = insert d (set (volume_seed_inflight (ap_guards s)))"
      "volume_attempts (ap_guards s1) = volume_attempts (ap_guards s)"
      by (auto simp: s1_def start_volume_seed_def Let_def d_def should_start_volume_seed_for_cast_def
          should_start_volume_seed_def VOLUME_SEED_MAX_ATTEMPTS_def attempts_of_def split: if_splits)
    have small: "unat (attempts_of s d) < 5" using st(2) by (simp add: word_less_nat_alt)
    have att: "attempts_of s1 = attempts_of s" using st(6) by (simp add: attempts_of_def fun_eq_iff)
    show ?thesis
      unfolding whole using new st small unfolding att
      by (intro exI [of _ "d # new"]) auto
  qed
qed

lemma spawn_running:
  "hm_get (foldl (\<lambda>m d. hm_insert d False m) m ds) d = (if d \<in> set ds then Some False else hm_get m d)"
  by (induction ds arbitrary: m) auto

lemma attempts_other [simp]:
  "attempts_of (upd_guards (seed_finished d) s) = attempts_of s"
  "attempts_of (upd_airplay f s) = attempts_of s"
  by (simp_all add: attempts_of_def upd_guards_def upd_airplay_def seed_finished_def fun_eq_iff)

lemma attempts_reset: "attempts_of (upd_guards (reset_attempts d) s) d' = (if d' = d then 0 else attempts_of s d')"
  by (simp add: attempts_of_def upd_guards_def reset_attempts_def hm_entry_def)

lemma attempts_bump:
  "unat (attempts_of s d) < 5 \<Longrightarrow>
   unat (attempts_of (upd_guards (bump_volume_seed_attempt d) s) d') =
     (if d' = d then unat (attempts_of s d) + 1 else unat (attempts_of s d'))"
  by (simp add: attempts_of_def upd_guards_def bump_volume_seed_attempt_def hm_entry_def unat_saturating_add)

lemma inflight_simps [simp]:
  "volume_seed_inflight (ap_guards (upd_guards (reset_attempts d) s)) = volume_seed_inflight (ap_guards s)"
  "volume_seed_inflight (ap_guards (upd_guards (bump_volume_seed_attempt d) s)) = volume_seed_inflight (ap_guards s)"
  "volume_seed_inflight (ap_guards (upd_airplay f s)) = volume_seed_inflight (ap_guards s)"
  "volume_seed_inflight (ap_guards (upd_guards (seed_finished d) s)) = removeAll d (volume_seed_inflight (ap_guards s))"
  by (simp_all add: upd_guards_def upd_airplay_def reset_attempts_def bump_volume_seed_attempt_def seed_finished_def)

lemma seeds_ok_step:
  assumes "seeds_ok r"
  shows "seeds_ok (seed_step server_clamp r ev)"
proof (cases ev)
  case (SeedSync env devs)
  obtain new where "ap_spawned_seeds (sync_volume_seeds env devs (sr_app r)) = ap_spawned_seeds (sr_app r) @ new"
     "\<forall>d \<in> set new. unat (attempts_of (sr_app r) d) < 5"
     "set (volume_seed_inflight (ap_guards (sync_volume_seeds env devs (sr_app r)))) =
       set (volume_seed_inflight (ap_guards (sr_app r))) \<union> set new"
     "volume_attempts (ap_guards (sync_volume_seeds env devs (sr_app r))) = volume_attempts (ap_guards (sr_app r))"
    using sync_spawns [of env devs "sr_app r"] by blast
  then show ?thesis
    using assms SeedSync by (auto simp: seeds_ok_def Let_def spawn_running attempts_of_def)
next
  case (SeedEnds d outcome)
  show ?thesis
  proof (cases "hm_get (sr_running r) d")
    case None
    then show ?thesis using assms SeedEnds by simp
  next
    case (Some late)
    have bound: "unat (attempts_of (sr_app r) d) < 5" if "\<not> late" using assms Some that by (simp add: seeds_ok_def)
    show ?thesis
      using assms SeedEnds Some bound
      by (cases late; cases outcome)
        (auto simp: seeds_ok_def seed_late_def seed_in_time_def apply_volume_seed_success_def attempts_reset
          attempts_bump)
  qed
next
  case (SeedTimeout d)
  then show ?thesis
    using assms by (auto simp: seeds_ok_def seed_timed_out_def attempts_bump)
next
  case (SeedReset d)
  then show ?thesis using assms by (auto simp: seeds_ok_def attempts_reset)
qed

interpretation seed_runs: event_machine "seed_step server_clamp" seeds_ok for server_clamp
  by unfold_locales (rule seeds_ok_step)

definition seed_fresh :: "app_state \<Rightarrow> seed_run" where
  "seed_fresh s = \<lparr>sr_app = s\<lparr>ap_guards := guards_default\<rparr>, sr_running = []\<rparr>"

text \<open>
  seeds_bounded. Whatever ticks, answers, timeouts and re-appearances happen, a tick starts a seed only for a
  device that has none running and fewer than five failures counted since it (re)appeared, and the count never exceeds five.
\<close>

theorem seeds_bounded:
  "let r = foldl (seed_step server_clamp) (seed_fresh s) evs;
       new = drop (length (ap_spawned_seeds (sr_app r))) (ap_spawned_seeds (sync_volume_seeds env devs (sr_app r)))
   in distinct new \<and>
      (\<forall>d. d \<in> set new \<longrightarrow> hm_get (sr_running r) d = None \<and> unat (attempts_of (sr_app r) d) < 5) \<and>
      (\<forall>d. unat (attempts_of (sr_app r) d) \<le> 5)"
proof -
  define r where "r = foldl (seed_step server_clamp) (seed_fresh s) evs"
  have "seeds_ok (seed_fresh s)" by (simp add: seeds_ok_def seed_fresh_def guards_default_def attempts_of_def hm_entry_def)
  then have ok: "seeds_ok r" unfolding r_def by (rule seed_runs.run_inv)
  obtain new where new: "ap_spawned_seeds (sync_volume_seeds env devs (sr_app r)) = ap_spawned_seeds (sr_app r) @ new"
     "distinct new" "\<forall>d \<in> set new. d \<notin> set (volume_seed_inflight (ap_guards (sr_app r))) \<and>
        unat (attempts_of (sr_app r) d) < 5"
    using sync_spawns [of env devs "sr_app r"] by blast
  have "hm_get (sr_running r) d = None" if "d \<in> set new" for d
    using ok new(3) that unfolding seeds_ok_def by blast
  then show ?thesis
    unfolding r_def [symmetric] Let_def using new ok by (simp add: seeds_ok_def)
qed

section \<open>Witnesses\<close>

definition tick_demo_env :: "bool \<Rightarrow> instant \<Rightarrow> tick_env" where
  "tick_demo_env session now =
     \<lparr>te_now = now, te_linux = True, te_session = (\<lambda>_ _. session), te_terminal = (\<lambda>_. False),
      te_terminal_at_seed = (\<lambda>_. False), te_reachable = (\<lambda>_. True), te_spawned = (\<lambda>_. True),
      te_start = (\<lambda>_. Inl 1), te_home_names = []\<rparr>"

definition demo_rx :: airplay_receiver where
  "demo_rx = receiver_build (\<lambda>_. 7) True 1 ''tv'' ''TV''"

definition tick_demo_app :: "(string, device) hashmap \<Rightarrow> (string, airplay_receiver) hashmap \<Rightarrow> app_state" where
  "tick_demo_app devs rxs =
     \<lparr>ap_registry = \<lparr>inner = devs, pending_leave_cancellations = []\<rparr>,
      ap_airplay = \<lparr>receivers = rxs, kicking = [], am_calls = [], am_event_tx = True\<rparr>,
      ap_pool = pool_new, ap_guards = guards_default, ap_spawned_seeds = []\<rparr>"

theorem withdraw_floor_witness:
  "rx_at (withdraw_undesired (tick_demo_env False 5) [] (tick_demo_app [] [(''tv'', demo_rx)])) ''tv'' = None"
proof -
  have blocked: "''tv'' \<notin> set (session_blocked (ap_guards (tick_demo_app [] [(''tv'', demo_rx)])))"
    by (simp add: tick_demo_app_def guards_default_def)
  show ?thesis
    using withdraw_floor [of "tick_demo_app [] [(''tv'', demo_rx)]" "''tv''" demo_rx "[]" "tick_demo_env False 5", OF _ _ _ _ _ _ refl]
    by (simp add: blocked) (simp add: rx_at_def tick_demo_app_def tick_demo_env_def hm_get_def hm_ok_def get_def)
qed

theorem restart_budget_witness:
  "from_secs 60 \<le> supervise_log [] (map from_secs [0, 1, 2, 3, 4, 60]) ! (0 + MAINTAIN_RESTART_MAX) -
     supervise_log [] (map from_secs [0, 1, 2, 3, 4, 60]) ! 0"
  by (rule restart_budget)
    (simp_all add: supervise_restart_def MAINTAIN_RESTART_MAX_def MAINTAIN_RESTART_WINDOW_def from_secs_def Let_def)

definition demo_tv :: device where
  "demo_tv = device_new ''tv'' ''TV'' ''10.0.0.9'' [] 8009 ''tv-1'' 4"

lemma demo_tick_start:
  "ap_registry (tick_start (tick_demo_env False 5) (tick_demo_app [(''tv'', demo_tv)] [])) = \<lparr>inner = [(''tv'', demo_tv)],
     pending_leave_cancellations = []\<rparr>"
  "ap_airplay (tick_start (tick_demo_env False 5) (tick_demo_app [(''tv'', demo_tv)] [])) =
     \<lparr>receivers = [], kicking = [], am_calls = [], am_event_tx = True\<rparr>"
  by (simp_all add: tick_start_def apply_due_leaves_def take_due_leaves_def tick_demo_app_def demo_tv_def device_new_def
      tick_demo_env_def apply_stale_expiry_def expire_stale_where_def is_pending_def DEFAULT_STALE_TTL_def from_secs_def
      reset_cancelled_leaves_def drain_pending_leave_cancellations_def)

lemma demo_tv_named:
  obtains name where "hm_get (airplay_names to_ascii_lowercase id [demo_tv] default_config []) ''tv'' = Some name"
proof -
  have tv: "dev_id demo_tv = ''tv''" by (simp add: demo_tv_def device_new_def)
  have "candidate_of default_config [] demo_tv \<noteq> None"
    by (simp add: candidate_of_def device_override_def default_config_def Let_def)
  then show ?thesis
    using that names_listed [of "[demo_tv]" id demo_tv to_ascii_lowercase default_config "[]"] tv by auto
qed

text \<open>A television in the registry, advertised under an old name, with a session; its worker works or has failed.\<close>

definition session_demo_env :: "bool \<Rightarrow> tick_env" where
  "session_demo_env terminal = (tick_demo_env True 5)\<lparr>te_terminal := (\<lambda>_. terminal)\<rparr>"

definition session_demo_rx :: airplay_receiver where
  "session_demo_rx = receiver_build (\<lambda>_. 7) True 1 ''tv'' ''Old name''"

theorem live_session_survives_tick_witness:
  "\<forall>terminal. rx_at (maintain_airplay (\<lambda>_. 7) to_ascii_lowercase id default_config (session_demo_env terminal)
     (tick_demo_app [(''tv'', demo_tv)] [(''tv'', session_demo_rx)])) ''tv'' =
     (if terminal then None else Some session_demo_rx)"
proof
  fix terminal
  let ?env = "session_demo_env terminal" and ?s = "tick_demo_app [(''tv'', demo_tv)] [(''tv'', session_demo_rx)]"
  have env: "te_session ?env r ''tv''" "te_home_names ?env = []" "te_terminal ?env ''tv'' = terminal" for r
    by (simp_all add: session_demo_env_def tick_demo_env_def)
  have rx: "rx_at ?s ''tv'' = Some session_demo_rx" by (simp add: rx_at_def tick_demo_app_def hm_get_def)
  have "tick_devices ?env ?s = [demo_tv]"
    by (simp add: tick_devices_def list_all_devices_def hm_values_def tick_start_def apply_due_leaves_def
        take_due_leaves_def tick_demo_app_def demo_tv_def device_new_def session_demo_env_def tick_demo_env_def
        apply_stale_expiry_def expire_stale_where_def is_pending_def DEFAULT_STALE_TTL_def from_secs_def
        reset_cancelled_leaves_def drain_pending_leave_cancellations_def)
  moreover obtain name where "hm_get (airplay_names to_ascii_lowercase id [demo_tv] default_config []) ''tv'' = Some name"
    by (rule demo_tv_named)
  moreover have "dev_id demo_tv = ''tv''" by (simp add: demo_tv_def device_new_def)
  ultimately show "rx_at (maintain_airplay (\<lambda>_. 7) to_ascii_lowercase id default_config ?env ?s) ''tv'' =
     (if terminal then None else Some session_demo_rx)"
    using live_session_survives_tick [OF rx env(1) env(1) env(1), of "\<lambda>_. 7" to_ascii_lowercase id default_config]
    by (simp add: env)
qed

theorem tick_advertises_by_name_witness:
  "\<exists>rx. rx_at (maintain_airplay (\<lambda>_. 7) to_ascii_lowercase id default_config (tick_demo_env False 5)
     (tick_demo_app [(''tv'', demo_tv)] [])) ''tv'' = Some rx"
proof -
  let ?env = "tick_demo_env False 5" and ?s = "tick_demo_app [(''tv'', demo_tv)] []"
  have devs: "tick_devices ?env ?s = [demo_tv]"
    by (simp add: tick_devices_def demo_tick_start list_all_devices_def hm_values_def)
  have tv: "dev_id demo_tv = ''tv''" "demo_tv \<in> set [demo_tv]" by (simp_all add: demo_tv_def device_new_def)
  obtain name where name: "hm_get (airplay_names to_ascii_lowercase id [demo_tv] default_config []) ''tv'' = Some name"
    by (rule demo_tv_named)
  have reg: "registry_ok (ap_registry ?s)"
    by (simp add: registry_ok_def tick_demo_app_def hm_ok_def hm_get_def demo_tv_def device_new_def)
  have env: "te_home_names ?env = []" "\<not> te_session ?env AtEnsure ''tv''" "te_start ?env ''tv'' = Inl 1"
    "\<not> te_terminal ?env ''tv''" by (simp_all add: tick_demo_env_def)
  have "''tv'' \<notin> set (kicking (ap_airplay (tick_start ?env ?s)))" by (simp add: demo_tick_start)
  from tick_advertises_by_name [OF reg, where dev = demo_tv and env = ?env and lower = to_ascii_lowercase and iter = id
      and cfg = default_config and name = name and art = 1 and hash = "\<lambda>_. 7", unfolded devs tv(1) env(1),
      OF tv(2) name env(2,3) this] show ?thesis
    using env(4) by (auto split: option.splits)
qed

lemma demo_seed_spawned:
  "ap_spawned_seeds (sync_volume_seeds (tick_demo_env False 5) [demo_tv] (sr_app (seed_fresh (tick_demo_app [] [(''tv'', demo_rx)])))) =
   [''tv'']" "ap_spawned_seeds (sr_app (seed_fresh (tick_demo_app [] [(''tv'', demo_rx)]))) = []"
  by (simp_all add: sync_volume_seeds_def start_volume_seed_def seed_fresh_def tick_demo_app_def demo_tv_def device_new_def
      demo_rx_def receiver_build_def needs_volume_seed_def guards_default_def tick_demo_env_def Let_def hm_get_def
      should_start_volume_seed_for_cast_def should_start_volume_seed_def VOLUME_SEED_MAX_ATTEMPTS_def hm_entry_def)

theorem seeds_bounded_witness:
  "hm_get (sr_running (seed_fresh (tick_demo_app [] [(''tv'', demo_rx)]))) ''tv'' = None \<and>
   unat (attempts_of (sr_app (seed_fresh (tick_demo_app [] [(''tv'', demo_rx)]))) ''tv'') < 5"
  using seeds_bounded [of id "tick_demo_app [] [(''tv'', demo_rx)]" "[]" "tick_demo_env False 5" "[demo_tv]"]
  unfolding Let_def foldl.simps demo_seed_spawned by simp

end
