(* ===== verification/Shutdown.thy ===== *)
theory Shutdown
  imports App_Maintain
begin

text \<open>
  Stopping: the hard stop of one receiver with its time limits (\<open>src/airplay/mod.rs\<close>), the maintain loop until
  shutdown, and the order in which \<open>App::run\<close> takes the program down (\<open>src/app.rs\<close>). Which wait ends in time is
  an argument; the result is what is done, in order.
\<close>

section \<open>Hard stop of a receiver\<close>

datatype stop_action = StopServer | DropServer | ForceClose u16

definition shutdown_hard :: "u16 \<Rightarrow> stop_action list" where
  "shutdown_hard port = [StopServer, ForceClose port]"

text \<open>On a multi-thread runtime the stop is awaited in place; otherwise a helper thread with its own runtime does it
  and the caller waits for the helper. A stop that overruns is dropped and the port closed by force.\<close>

record stop_env =
  se_multi_thread :: bool
  se_in_time :: bool
  se_spawned :: bool
  se_runtime_built :: bool
  se_done_in_time :: bool

definition timed_stop :: "stop_env \<Rightarrow> u16 \<Rightarrow> stop_action list" where
  "timed_stop env port = (if se_in_time env then shutdown_hard port else [ForceClose port])"

definition helper_stop :: "stop_env \<Rightarrow> u16 \<Rightarrow> stop_action list" where
  "helper_stop env port = (if se_runtime_built env then timed_stop env port else [ForceClose port, DropServer])"

definition await_shutdown_hard :: "stop_env \<Rightarrow> u16 \<Rightarrow> stop_action list" where
  "await_shutdown_hard env port =
     (if se_multi_thread env then timed_stop env port
      else if \<not> se_spawned env then [ForceClose port]
      else helper_stop env port @ (if se_done_in_time env then [] else [ForceClose port]))"

text \<open>Whatever overruns or fails, the port of a withdrawn receiver is closed.\<close>

lemma stop_frees_port: "ForceClose port \<in> set (await_shutdown_hard env port)"
  by (simp add: await_shutdown_hard_def timed_stop_def helper_stop_def shutdown_hard_def)

section \<open>The maintain loop\<close>

text \<open>What ends the pause after a tick: the two seconds, or a change of the shutdown channel (closed or not, and its
  value).\<close>

datatype wake = Slept | ShutdownChanged bool bool

record loop_turn =
  lt_stop :: bool
  lt_env :: tick_env
  lt_wake :: wake

definition ends_loop :: "wake \<Rightarrow> bool" where
  "ends_loop w \<longleftrightarrow> (case w of Slept \<Rightarrow> False | ShutdownChanged closed stop \<Rightarrow> closed \<or> stop)"

definition withdraw_on_shutdown :: "app_state \<Rightarrow> app_state" where
  "withdraw_on_shutdown s = upd_airplay withdraw_all s"

text \<open>The state after the turns, and whether the loop has ended.\<close>

fun maintain_loop :: "(tick_env \<Rightarrow> app_state \<Rightarrow> app_state) \<Rightarrow> loop_turn list \<Rightarrow> app_state \<Rightarrow> app_state \<times> bool" where
  "maintain_loop tick [] s = (s, False)"
| "maintain_loop tick (t # ts) s =
     (if lt_stop t then (withdraw_on_shutdown s, True)
      else
        let s1 = tick (lt_env t) s
        in if ends_loop (lt_wake t) then (withdraw_on_shutdown s1, True) else maintain_loop tick ts s1)"

section \<open>The whole program\<close>

datatype watch_task = OwnershipWatch | MediaRecoveredWatch | CastRemoteWatch

datatype run_action =
    JoinMaintain
  | AbortDiscovery
  | RequestBridgeShutdown
  | JoinBridge
  | AbortBridge
  | AbortWatch watch_task
  | JoinWatch watch_task
  | ShutdownPool

definition join_bridge_on_shutdown :: "bool \<Rightarrow> run_action list" where
  "join_bridge_on_shutdown in_budget = (if in_budget then [JoinBridge] else [AbortBridge, JoinBridge])"

definition stop_watch :: "watch_task \<Rightarrow> run_action list" where
  "stop_watch w = [AbortWatch w, JoinWatch w]"

definition run_shutdown :: "bool \<Rightarrow> run_action list" where
  "run_shutdown bridge_in_budget =
     [JoinMaintain, AbortDiscovery, RequestBridgeShutdown] @ join_bridge_on_shutdown bridge_in_budget @
     stop_watch OwnershipWatch @ stop_watch MediaRecoveredWatch @ stop_watch CastRemoteWatch @ [ShutdownPool]"

text \<open>The Cast pool outlives the bridge: the STOPs of the teardowns still find their workers.\<close>

lemma pool_down_last:
  "\<exists>before. run_shutdown in_budget = before @ [ShutdownPool] \<and> JoinBridge \<in> set before \<and> ShutdownPool \<notin> set before"
  by (simp add: run_shutdown_def join_bridge_on_shutdown_def stop_watch_def)

section \<open>No receiver is left\<close>

lemma withdraw_all_empty: "receivers (withdraw_all m) = []"
proof -
  have fold: "receivers (foldl (\<lambda>m d. remove_receiver d m) m ds) = foldl (\<lambda>acc d. hm_remove d acc) (receivers m) ds" for ds m
    by (induction ds arbitrary: m) (auto simp: remove_receiver_def)
  have none: "hm_get (receivers (withdraw_all m)) d = None" for d
    unfolding withdraw_all_def fold hm.lookup_fold_drop active_ids_def by (simp add: hm_get_None_iff)
  show ?thesis
  proof (cases "receivers (withdraw_all m)")
    case (Cons kv rest)
    then show ?thesis using none [of "fst kv"] by (simp add: hm_get_def)
  qed simp
qed

text \<open>
  shutdown_withdraws_receivers. When the maintain loop ends, by the flag before a tick or by a change of the
  shutdown channel after one, and whatever its ticks did, no AirPlay receiver is left advertised.
\<close>

theorem shutdown_withdraws_receivers:
  assumes "maintain_loop tick turns s = (s', True)"
  shows "active_ids (ap_airplay s') = []"
proof -
  have "snd (maintain_loop tick turns s) \<Longrightarrow> active_ids (ap_airplay (fst (maintain_loop tick turns s))) = []"
    by (induction tick turns s rule: maintain_loop.induct)
      (auto simp: Let_def withdraw_on_shutdown_def upd_airplay_def active_ids_def withdraw_all_empty)
  then show ?thesis using assms by simp
qed

definition advertised_app :: app_state where
  "advertised_app =
     \<lparr>ap_registry = registry_new,
      ap_airplay = \<lparr>receivers = [(''tv'', receiver_build (\<lambda>_. 7) True 1 ''tv'' ''TV'')], kicking = [], am_calls = [], am_event_tx = True\<rparr>,
      ap_pool = pool_new, ap_guards = guards_default, ap_spawned_seeds = []\<rparr>"

definition quiet_env :: tick_env where
  "quiet_env =
     \<lparr>te_now = 5, te_linux = True, te_session = (\<lambda>_ _. True), te_terminal = (\<lambda>_. False), te_terminal_at_seed = (\<lambda>_. False),
      te_reachable = (\<lambda>_. True), te_spawned = (\<lambda>_. True), te_start = (\<lambda>_. Inl 1), te_home_names = []\<rparr>"

theorem shutdown_withdraws_receivers_witness:
  "\<exists>s'. maintain_loop (maintain_airplay (\<lambda>_. 7) id id default_config)
      [\<lparr>lt_stop = False, lt_env = quiet_env, lt_wake = ShutdownChanged False True\<rparr>] advertised_app = (s', True) \<and>
    active_ids (ap_airplay advertised_app) = [''tv''] \<and> active_ids (ap_airplay s') = []"
proof -
  let ?turns = "[\<lparr>lt_stop = False, lt_env = quiet_env, lt_wake = ShutdownChanged False True\<rparr>]"
  obtain s' where s': "maintain_loop (maintain_airplay (\<lambda>_. 7) id id default_config) ?turns advertised_app = (s', True)"
    by (simp add: ends_loop_def Let_def)
  from shutdown_withdraws_receivers [OF this] s' show ?thesis by (auto simp: advertised_app_def active_ids_def)
qed

end
