(* ===== verification/App_Wiring.thy ===== *)
theory App_Wiring
  imports Group_Contracts Shutdown
begin

text \<open>
  What \<open>App::run\<close> connects (\<open>src/app.rs\<close>): three watch tasks carry the messages of the Cast pool to the bridge, and
  the ownership watch then disconnects the AirPlay clients of every device whose session ended. The other tasks of the
  program act on the bridge and on the AirPlay manager between any two steps. At the end: the signals and the exit
  code (\<open>src/main.rs\<close>).

  The ownership watch awaits the end of the Cast session and then one kick after the other, so it is a program
  counter: \<open>WatchKick d ds\<close> is inside the kick of \<open>d\<close>, which is the manager's call number \<open>OWNERSHIP_CALL\<close>. A turn of
  the watch is one stretch between two waits, taken when the wait is over.
\<close>

section \<open>The watches\<close>











section \<open>The invariant\<close>



lemma set_call_get [simp]: "hm_get (am_calls (set_call c pc m)) k = (if k = c then pc else hm_get (am_calls m) k)"
  by (cases pc) (auto simp: set_call_def)

lemma set_call_rest [simp]:
  "receivers (set_call c pc m) = receivers m" "kicking (set_call c pc m) = kicking m"
  "am_event_tx (set_call c pc m) = am_event_tx m"
  by (simp_all add: set_call_def)

lemma set_call_other: "am_calls (m\<lparr>kicking := ks\<rparr>) = am_calls m" "am_calls (m\<lparr>receivers := rs\<rparr>) = am_calls m"
  by simp_all

lemma remove_receiver_calls [simp]: "am_calls (remove_receiver d m) = am_calls m"
  by (simp add: remove_receiver_def)











section \<open>A loss disconnects the clients\<close>







text \<open>The members that the bridge names have no session any more.\<close>

lemma state_close_hosts [simp]: "state_of d (close_hosts hosts b) = state_of d b"
  by (simp add: close_hosts_def)

lemma end_cast_session_clears:
  assumes ok: "bridge_ok b" and e: "end_cast_session (CastEndGroup key grp) b = (b', Inr ds)"
  shows "\<exists>ms. ds = key # ms \<and> (\<forall>d \<in> set ms. \<not> has_session d b')"
proof (cases grp)
  case None
  with e show ?thesis by auto
next
  case (Some uuid)
  obtain b2 ms host where g: "end_group uuid b = (b2, ms, host)" using prod_cases3 by blast
  with e Some have b': "b' = close_hosts (opt_list host) b2" and ds: "ds = key # ms" by auto
  have "state_of d b2 = Some Idle" if "d \<in> set ms" for d
  proof (cases "hm_get (groups b) uuid")
    case None
    with g that show ?thesis by (simp add: end_group_def)
  next
    case (Some G)
    from end_group_clears [OF Some groups_ok_get [OF bridge_okD(2) [OF ok] Some] g] that show ?thesis by simp
  qed
  then show ?thesis by (auto simp: ds b' has_session_def)
qed

lemma session_end_clears: "\<not> has_session d (handle_session_end d b)"
proof -
  obtain b' r where t: "take_live_session d b = (b', r)" by force
  from take_live_session_ends [OF t] show ?thesis
    by (auto simp: handle_session_end_def t detach_teardown_def has_session_def split: option.split)
qed




section \<open>Signals and the exit code\<close>

text \<open>\<open>App::run\<close> waits until the shutdown flag is set or its sender is gone (\<open>None\<close>); \<open>False\<close>: it still waits.\<close>

fun wait_for_shutdown :: "bool \<Rightarrow> bool option list \<Rightarrow> bool" where
  "wait_for_shutdown True cs = True"
| "wait_for_shutdown False [] = False"
| "wait_for_shutdown False (None # cs) = True"
| "wait_for_shutdown False (Some v # cs) = wait_for_shutdown v cs"

datatype exit_code = ExitSuccess | ExitFailure

text \<open>
  What one wait for a signal sees: SIGINT, an error of its handler, which counts as the signal, or SIGTERM, if the
  handler of SIGTERM could be installed for this wait.
\<close>

datatype os_signal = Sigint | SigintError | Sigterm

fun wait_ends :: "bool \<Rightarrow> os_signal \<Rightarrow> bool" where
  "wait_ends sigterm Sigterm = sigterm"
| "wait_ends sigterm s = True"

datatype main_event = OsSignal os_signal | RunReturned

text \<open>
  The first signal sets the flag; a second one before \<open>App::run\<close> has returned ends the process at once with a
  failure code. \<open>App::run\<close> cannot return before the flag is set. \<open>sigterm\<close> tells of either wait whether it has a
  SIGTERM handler.
\<close>

fun after_start :: "(bool \<Rightarrow> bool) \<Rightarrow> bool \<Rightarrow> main_event list \<Rightarrow> exit_code option" where
  "after_start sigterm stopping [] = None"
| "after_start sigterm stopping (OsSignal s # es) =
     (if \<not> wait_ends (sigterm stopping) s then after_start sigterm stopping es
      else if stopping then Some ExitFailure
      else after_start sigterm True es)"
| "after_start sigterm stopping (RunReturned # es) =
     (if stopping then Some ExitSuccess else after_start sigterm stopping es)"

definition main_exit :: "(bool \<Rightarrow> bool) \<Rightarrow> config result \<Rightarrow> main_event list \<Rightarrow> exit_code option" where
  "main_exit sigterm loaded es =
     (case loaded of Inl err \<Rightarrow> Some ExitFailure | Inr cfg \<Rightarrow> after_start sigterm False es)"

lemma graceful_exit:
  "wait_ends (sigterm False) s \<Longrightarrow> main_exit sigterm (Inr cfg) (OsSignal s # RunReturned # es) = Some ExitSuccess"
  "wait_ends (sigterm False) s \<Longrightarrow> wait_ends (sigterm True) s' \<Longrightarrow>
   main_exit sigterm (Inr cfg) (OsSignal s # OsSignal s' # es) = Some ExitFailure"
  by (simp_all add: main_exit_def)

lemma runs_until_signal:
  "\<forall>s. OsSignal s \<notin> set es \<Longrightarrow> main_exit sigterm (Inr cfg) es = None"
proof -
  have "\<forall>s. OsSignal s \<notin> set es \<Longrightarrow> after_start sigterm False es = None"
  proof (induction es)
    case (Cons e es)
    then show ?case by (cases e) auto
  qed simp
  then show "\<forall>s. OsSignal s \<notin> set es \<Longrightarrow> ?thesis" by (simp add: main_exit_def)
qed

end
