(* ===== verification/Discover.thy ===== *)
theory Discover
  imports Net_Local Registry
begin

text \<open>
  Discovery of Cast devices (\<open>src/discover.rs\<close>): the lines of the \<open>dns-sd\<close> tool (browse, lookup, TXT), the
  classification of a resolved service, and the browse sessions of macOS and Linux, which turn events into
  operations of the registry. The child process, the mDNS daemon and the resolver are arguments: a session runs on
  the sequence of what they deliver, as the only writer of the registry while it lasts (the expiry of the maintain
  loop is not interleaved with it). Log lines are left out.
\<close>

section \<open>Browse lines\<close>

datatype browse_kind = BrowseAdd | BrowseRemove

record browse_event =
  be_kind :: browse_kind
  be_instance :: string

definition find_token_after :: "string \<Rightarrow> string \<Rightarrow> string option" where
  "find_token_after line token = map_option (\<lambda>i. drop (i + length token) line) (str_find line token)"

definition parse_browse_line :: "string \<Rightarrow> browse_event option" where
  "parse_browse_line line =
     (let trimmed = str_trim line in
      if trimmed = [] \<or> starts_with trimmed ''Browsing'' \<or> starts_with trimmed ''DATE:''
         \<or> starts_with trimmed ''Timestamp'' then None
      else
        case (case find_token_after trimmed '' Add '' of Some r \<Rightarrow> Some (BrowseAdd, r)
              | None \<Rightarrow>
                  (case find_token_after trimmed '' Rmv '' of Some r \<Rightarrow> Some (BrowseRemove, r)
                   | None \<Rightarrow> map_option (\<lambda>r. (BrowseRemove, r)) (find_token_after trimmed '' Remove '')))
        of None \<Rightarrow> None
        | Some (kind, rest) \<Rightarrow>
            (case split_once rest ''_googlecast._tcp.'' of None \<Rightarrow> None
             | Some (before, after) \<Rightarrow>
                 let instance_name = str_trim after
                 in if instance_name = [] then None
                    else Some \<lparr>be_kind = kind, be_instance = instance_name\<rparr>))"

section \<open>Lookup output\<close>

record resolve_info =
  ri_hostname :: string
  ri_port :: u16
  ri_txt :: string
  ri_address :: "string option"

record lookup_reachable =
  lr_hostname :: string
  lr_port :: u16
  lr_address :: "string option"
  lr_interface :: "u32 option"

definition is_octet_text :: "string \<Rightarrow> bool" where
  "is_octet_text part \<longleftrightarrow>
     part \<noteq> [] \<and> length part \<le> 3 \<and> list_all is_ascii_digit part \<and>
     (case parse_unsigned 65535 part of None \<Rightarrow> False | Some v \<Rightarrow> v \<le> 255)"

definition is_ipv4_literal :: "string \<Rightarrow> bool" where
  "is_ipv4_literal s \<longleftrightarrow>
     list_all is_octet_text (split_on (CHR ''.'') s) \<and> length (split_on (CHR ''.'') s) = 4"

definition ipv4_slash24_key :: "string \<Rightarrow> (nat \<times> nat \<times> nat) option" where
  "ipv4_slash24_key s =
     (if \<not> is_ipv4_literal s then None
      else case split_on (CHR ''.'') s of
        p # q # r # rest \<Rightarrow>
          (case (parse_unsigned 255 p, parse_unsigned 255 q, parse_unsigned 255 r) of
             (Some a, Some b, Some c) \<Rightarrow> Some (a, b, c) | _ \<Rightarrow> None)
      | _ \<Rightarrow> None)"

definition parse_reachable_line :: "(string \<Rightarrow> u32 option) \<Rightarrow> string \<Rightarrow> nat \<Rightarrow> lookup_reachable option" where
  "parse_reachable_line index trimmed reached =
     (case split_whitespace (drop (reached + length ''can be reached at '') trimmed) of
        [] \<Rightarrow> None
      | hostport # others \<Rightarrow>
          (case rsplit_once (CHR '':'') hostport of None \<Rightarrow> None
           | Some (h, p) \<Rightarrow>
               let host_raw = trim_end_char (CHR ''.'') h;
                   port = (case parse_unsigned 65535 p of None \<Rightarrow> 8009 | Some n \<Rightarrow> of_nat n);
                   interface =
                     (case str_find trimmed ''(interface '' of None \<Rightarrow> None
                      | Some i \<Rightarrow>
                          map_option of_nat
                            (parse_unsigned (2 ^ 32 - 1) (takeWhile is_ascii_digit (drop (i + length ''(interface '') trimmed))))
               in Some \<lparr>lr_hostname = host_raw, lr_port = port,
                        lr_address = map_option format_ip_host (parse_ip_host index host_raw),
                        lr_interface = interface\<rparr>))"

definition reach_host :: "lookup_reachable \<Rightarrow> string" where
  "reach_host r = (case lr_address r of Some a \<Rightarrow> a | None \<Rightarrow> lr_hostname r)"

fun first_some :: "('a \<Rightarrow> 'b option) \<Rightarrow> 'a list \<Rightarrow> 'b option" where
  "first_some f [] = None"
| "first_some f (x # xs) = (case f x of Some y \<Rightarrow> Some y | None \<Rightarrow> first_some f xs)"

definition choose_reachable :: "lookup_reachable list \<Rightarrow> string list \<Rightarrow> lookup_reachable option" where
  "choose_reachable reachables preferred =
     (if reachables = [] then None
      else
        case first_some (\<lambda>pref. find (\<lambda>r. lr_address r = Some pref \<or> lr_hostname r = pref) reachables) preferred
        of Some hit \<Rightarrow> Some hit
        | None \<Rightarrow>
        (case first_some (\<lambda>pref. case ipv4_slash24_key pref of None \<Rightarrow> None
                           | Some net \<Rightarrow> find (\<lambda>r. ipv4_slash24_key (reach_host r) = Some net) reachables) preferred
         of Some hit \<Rightarrow> Some hit
         | None \<Rightarrow>
         (case find (\<lambda>r. case lr_address r of None \<Rightarrow> True | Some a \<Rightarrow> CHR '':'' \<notin> set a) reachables
          of Some hit \<Rightarrow> Some hit
          | None \<Rightarrow> Some (hd reachables))))"

definition lookup_line ::
  "(string \<Rightarrow> u32 option) \<Rightarrow> string \<Rightarrow> lookup_reachable list \<times> string \<Rightarrow> lookup_reachable list \<times> string" where
  "lookup_line index raw st =
     (let trimmed = str_trim raw; (reachables, txt) = st;
          reachables1 = (case str_find trimmed ''can be reached at '' of None \<Rightarrow> reachables
                         | Some i \<Rightarrow>
                             (case parse_reachable_line index trimmed i of None \<Rightarrow> reachables
                              | Some entry \<Rightarrow> reachables @ [entry]));
          txt1 = (if str_contains trimmed ''id='' \<or> str_contains trimmed ''fn=''
                  then (if txt = [] then txt else txt @ '' '') @ trimmed else txt)
      in (reachables1, txt1))"

definition parse_lookup_output_with_preferred ::
  "(string \<Rightarrow> u32 option) \<Rightarrow> string \<Rightarrow> string list \<Rightarrow> resolve_info option" where
  "parse_lookup_output_with_preferred index output preferred =
     (let (reachables, txt) = fold (lookup_line index) (str_lines output) ([], [])
      in map_option (\<lambda>c. \<lparr>ri_hostname = lr_hostname c, ri_port = lr_port c, ri_txt = txt, ri_address = lr_address c\<rparr>)
           (choose_reachable reachables preferred))"

definition parse_lookup_output :: "(string \<Rightarrow> u32 option) \<Rightarrow> string \<Rightarrow> resolve_info option" where
  "parse_lookup_output index output = parse_lookup_output_with_preferred index output []"

section \<open>TXT records\<close>

text \<open>On bytes: after a backslash the next byte is taken as it is, and the other bytes of a character are never
  white space or a backslash, so this is the loop over characters.\<close>

function split_txt_from :: "string \<Rightarrow> string \<Rightarrow> string list" where
  "split_txt_from cur [] = (if cur = [] then [] else [cur])"
| "split_txt_from cur (c # s) =
     (if c = CHR 0x5C then
        (case s of [] \<Rightarrow> split_txt_from (cur @ [c]) [] | d # s' \<Rightarrow> split_txt_from (cur @ [c, d]) s')
      else if ws_len (c # s) \<noteq> 0 then
        (if cur = [] then [] else [cur]) @ split_txt_from [] (drop (ws_len (c # s)) (c # s))
      else split_txt_from (cur @ [c]) s)"
  by pat_completeness auto
termination
proof (relation "measure (\<lambda>(cur, s). length s)")
  fix cur :: string and c s
  assume "ws_len (c # s) \<noteq> 0"
  then show "(([], drop (ws_len (c # s)) (c # s)), cur, c # s) \<in> measure (\<lambda>(cur, s). length s)"
    using ws_len_le [of "c # s"] by (auto simp: Suc_diff_le)
qed auto

declare split_txt_from.simps(2) [simp del]

definition split_txt_parts :: "string \<Rightarrow> string list" where
  "split_txt_parts s = split_txt_from [] s"

fun unescape_dns_sd :: "string \<Rightarrow> string" where
  "unescape_dns_sd [] = []"
| "unescape_dns_sd [c] = (if c = CHR 0x5C then [] else [c])"
| "unescape_dns_sd (c # d # s) = (if c = CHR 0x5C then d # unescape_dns_sd s else c # unescape_dns_sd (d # s))"

definition insert_txt_part :: "string \<Rightarrow> (string, string) hashmap \<Rightarrow> (string, string) hashmap" where
  "insert_txt_part part m =
     (case split_once part ''='' of None \<Rightarrow> m | Some (k, v) \<Rightarrow> hm_insert k (unescape_dns_sd v) m)"

definition parse_txt_blob :: "string \<Rightarrow> (string, string) hashmap" where
  "parse_txt_blob txt = fold insert_txt_part (split_txt_parts txt) []"

section \<open>Classification\<close>

definition CAST_CAPABILITY_DYNAMIC_GROUP :: u64 where
  "CAST_CAPABILITY_DYNAMIC_GROUP = 64"

definition is_dynamic_cast_group :: "u64 \<Rightarrow> bool" where
  "is_dynamic_cast_group capabilities \<longleftrightarrow> and capabilities CAST_CAPABILITY_DYNAMIC_GROUP \<noteq> 0"

definition parse_cast_capabilities :: "string option \<Rightarrow> u64 option" where
  "parse_cast_capabilities ca =
     (case ca of None \<Rightarrow> None | Some s \<Rightarrow> map_option of_nat (parse_unsigned (2 ^ 64 - 1) (str_trim s)))"

datatype cast_service = CastDevice device | DynamicGroup device u64

definition classify_cast_service :: "device \<Rightarrow> string option \<Rightarrow> cast_service" where
  "classify_cast_service dev ca =
     (case parse_cast_capabilities ca of
        Some capabilities \<Rightarrow> if is_dynamic_cast_group capabilities then DynamicGroup dev capabilities else CastDevice dev
      | None \<Rightarrow> CastDevice dev)"

definition resolve_cast_host :: "net_env \<Rightarrow> string \<Rightarrow> string" where
  "resolve_cast_host env hostname =
     (case resolve_host_ip (interface_index env) (env_lookup env) hostname of
        Some ip \<Rightarrow> ip
      | None \<Rightarrow>
          let host = trim_end_char (CHR ''.'') hostname
          in if host = [] then ''127.0.0.1'' else host)"

definition non_empty_or :: "string \<Rightarrow> string option \<Rightarrow> string" where
  "non_empty_or fallback value = (case value of Some v \<Rightarrow> if v \<noteq> [] then v else fallback | None \<Rightarrow> fallback)"

definition cast_service_from_resolve :: "net_env \<Rightarrow> instant \<Rightarrow> string \<Rightarrow> resolve_info \<Rightarrow> cast_service" where
  "cast_service_from_resolve env now instance_name info =
     (let txt = parse_txt_blob (ri_txt info);
          did = non_empty_or instance_name (hm_get txt ''id'');
          name = non_empty_or (replace_char (CHR ''-'') '' '' instance_name) (hm_get txt ''fn'');
          model = (case hm_get txt ''md'' of None \<Rightarrow> [] | Some m \<Rightarrow> m);
          hostname = trim_end_char (CHR ''.'') (ri_hostname info);
          host = non_empty_or (resolve_cast_host env hostname) (map_option str_trim (ri_address info));
          port = (if ri_port info = 0 then 8009 else ri_port info);
          dev = with_model (device_new did name host hostname port instance_name now) model
      in classify_cast_service dev (hm_get txt ''ca''))"

section \<open>Sessions: shared steps\<close>

text \<open>The set \<open>ignored\<close> of instances whose group was logged lives as long as a session.\<close>

definition ignore_dynamic_group :: "device \<Rightarrow> u64 \<Rightarrow> registry \<times> string list \<Rightarrow> registry \<times> string list" where
  "ignore_dynamic_group dev capabilities st =
     (let (reg, ignored) = st in (snd (leave (dev_id dev) reg), push_new (dev_instance dev) ignored))"

definition service_found :: "instant \<Rightarrow> cast_service \<Rightarrow> registry \<times> string list \<Rightarrow> registry \<times> string list" where
  "service_found now service st =
     (case service of
        DynamicGroup dev capabilities \<Rightarrow> ignore_dynamic_group dev capabilities st
      | CastDevice dev \<Rightarrow> (snd (appear dev now (fst st)), snd st))"

definition leave_by_instance :: "instant \<Rightarrow> string \<Rightarrow> registry \<Rightarrow> registry" where
  "leave_by_instance now instance_name reg =
     snd (mark_pending_leave_by_instance instance_name now DEFAULT_PENDING_LEAVE reg)"

section \<open>macOS\<close>

text \<open>The lookup collects lines until it has a reach line and TXT, a read fails, or the deadline has passed.\<close>

definition lookup_enough :: "string \<Rightarrow> bool" where
  "lookup_enough buf \<longleftrightarrow>
     str_contains buf ''can be reached at '' \<and> (str_contains buf ''id='' \<or> str_contains buf ''fn='')"

fun collect_lookup :: "string \<Rightarrow> (string option \<times> bool) list \<Rightarrow> string" where
  "collect_lookup buf [] = buf"
| "collect_lookup buf ((raw_line, past_deadline) # rs) =
     (if past_deadline then buf
      else case raw_line of None \<Rightarrow> buf
      | Some content \<Rightarrow>
          let buf1 = buf @ content @ [CHR 0x0A]
          in if lookup_enough buf1 then buf1 else collect_lookup buf1 rs)"

definition run_lookup_dns_sd :: "string \<Rightarrow> error + (string option \<times> bool) list \<Rightarrow> string result" where
  "run_lookup_dns_sd instance_name child =
     (case child of
        Inl err \<Rightarrow> Inl err
      | Inr reads \<Rightarrow>
          let buf = collect_lookup [] reads
          in if buf = [] then Inl (ErrDiscovery (''empty dns-sd -L for '' @ instance_name)) else Inr buf)"

definition resolve_instance_dns_sd ::
  "net_env \<Rightarrow> instant \<Rightarrow> string \<Rightarrow> error + (string option \<times> bool) list \<Rightarrow> cast_service result" where
  "resolve_instance_dns_sd env now instance_name child =
     (case run_lookup_dns_sd instance_name child of
        Inl err \<Rightarrow> Inl err
      | Inr output \<Rightarrow>
          (case parse_lookup_output_with_preferred (interface_index env) output [advertise_host_ip env] of
             None \<Rightarrow> Inl (ErrDiscovery (''could not parse dns-sd -L for '' @ instance_name))
           | Some info \<Rightarrow> Inr (cast_service_from_resolve env now instance_name info)))"

text \<open>One line of the browse child, with what a lookup would deliver at that time. The list ends when the child
  exits or shutdown is seen.\<close>

record browse_read =
  br_now :: instant
  br_env :: net_env
  br_line :: "string option"
  br_lookup :: "string \<Rightarrow> error + (string option \<times> bool) list"

fun macos_session :: "registry \<times> string list \<Rightarrow> browse_read list \<Rightarrow> registry \<times> string list" where
  "macos_session st [] = st"
| "macos_session st (b # bs) =
     (case br_line b of None \<Rightarrow> st
      | Some line \<Rightarrow>
          (case parse_browse_line line of None \<Rightarrow> macos_session st bs
           | Some event \<Rightarrow>
               macos_session
                 (case be_kind event of
                    BrowseAdd \<Rightarrow>
                      (case resolve_instance_dns_sd (br_env b) (br_now b) (be_instance event) (br_lookup b (be_instance event)) of
                         Inl err \<Rightarrow> st
                       | Inr service \<Rightarrow> service_found (br_now b) service st)
                  | BrowseRemove \<Rightarrow> (leave_by_instance (br_now b) (be_instance event) (fst st), snd st))
                 bs))"

section \<open>Linux\<close>

datatype scoped_ip = ScopedV4 ipv4 | ScopedV6 ipv6 u32

text \<open>What the program reads of an \<open>mdns_sd::ResolvedService\<close>; \<open>md_properties\<close> is \<open>get\<close> with \<open>val_str\<close>, and
  \<open>md_addresses\<close> the address set in the order of its iteration.\<close>

record mdns_service =
  md_properties :: "string \<Rightarrow> string option"
  md_fullname :: string
  md_hostname :: string
  md_addresses :: "scoped_ip list"
  md_port :: u16

definition instance_from_mdns_fullname :: "string \<Rightarrow> string" where
  "instance_from_mdns_fullname fullname =
     (let label = str_trim (case split_once fullname ''._googlecast._tcp'' of None \<Rightarrow> fullname | Some (a, b) \<Rightarrow> a)
      in if label \<noteq> [] then label else fullname)"

fun candidate_addr :: "scoped_ip \<Rightarrow> socket_addr" where
  "candidate_addr (ScopedV4 a) = SockV4 a 0"
| "candidate_addr (ScopedV6 a scope) = SockV6 a 0 0 scope"

text \<open>\<open>Ord\<close> of \<open>SocketAddr\<close>: IPv4 before IPv6, then address, port, flow and scope.\<close>

fun addr_key :: "socket_addr \<Rightarrow> nat list" where
  "addr_key (SockV4 a port) = 0 # map unat (v4_octets a) @ [unat port]"
| "addr_key (SockV6 a port flow scope) = 1 # map unat (v6_segments a) @ [unat port, unat flow, unat scope]"

definition cast_service_from_mdns_resolved :: "net_env \<Rightarrow> instant \<Rightarrow> mdns_service \<Rightarrow> cast_service" where
  "cast_service_from_mdns_resolved env now resolved =
     (let label = instance_from_mdns_fullname (md_fullname resolved);
          did = non_empty_or label (md_properties resolved ''id'');
          name = non_empty_or (replace_char (CHR ''-'') '' '' label) (md_properties resolved ''fn'');
          model = (case md_properties resolved ''md'' of None \<Rightarrow> [] | Some m \<Rightarrow> m);
          hostname = trim_end_char (CHR ''.'') (md_hostname resolved);
          candidates = sort_key addr_key (map candidate_addr (md_addresses resolved));
          local_v4 = parse_v4 (advertise_host_ip env);
          host = (case select_cast_addr candidates local_v4 of
                    None \<Rightarrow> resolve_cast_host env hostname | Some a \<Rightarrow> format_ip_host a);
          port = (if md_port resolved = 0 then 8009 else md_port resolved);
          dev = with_model (device_new did name host hostname port label now) model
      in classify_cast_service dev (md_properties resolved ''ca''))"

datatype mdns_event =
    ServiceResolved mdns_service
  | ServiceRemoved string string
  | SearchStopped string
  | OtherEvent
  | RecvFailed string

text \<open>The events received, each with the time and the network; the list ends when shutdown is seen.\<close>

fun linux_session :: "registry \<times> string list \<Rightarrow> (instant \<times> net_env \<times> mdns_event) list \<Rightarrow> registry \<times> string list" where
  "linux_session st [] = st"
| "linux_session st ((now, env, event) # es) =
     (case event of
        ServiceResolved resolved \<Rightarrow>
          linux_session (service_found now (cast_service_from_mdns_resolved env now resolved) st) es
      | ServiceRemoved ty fullname \<Rightarrow> linux_session st es
      | SearchStopped ty \<Rightarrow> st
      | OtherEvent \<Rightarrow> linux_session st es
      | RecvFailed msg \<Rightarrow>
          if str_contains msg ''disconnect'' \<or> str_contains msg ''Disconnect'' then st else linux_session st es)"

section \<open>Restarts\<close>

text \<open>\<open>run_blocking\<close>: per session, whether shutdown was set before it, its outcome, and whether it was set after it;
  the result is the pauses before the next session.\<close>

fun run_blocking :: "(bool \<times> unit result \<times> bool) list \<Rightarrow> duration list" where
  "run_blocking [] = []"
| "run_blocking ((stop, outcome, stopped) # ss) =
     (if stop then []
      else case outcome of
        Inr u \<Rightarrow> if stopped then [] else from_secs 1 # run_blocking ss
      | Inl err \<Rightarrow> from_secs 2 # run_blocking ss)"

end
