(* ===== verification/Discover_Promises.thy ===== *)
theory Discover_Promises
  imports Discover Net_Promises "HOL-Library.Multiset"
begin

text \<open>
  What discovery promises: the TXT text of \<open>dns-sd\<close> reads back, an IPv6 literal is the last resort among the reach
  lines, the Linux choice of an address does not depend on the order of the address set, and a Linux session leaves
  the registry with the last service resolved for each id, dynamic groups excluded.
\<close>

section \<open>TXT text\<close>

fun escape_dns_sd :: "string \<Rightarrow> string" where
  "escape_dns_sd [] = []"
| "escape_dns_sd (c # s) =
     (if c = CHR '' '' \<or> c = CHR 0x5C then CHR 0x5C # c # escape_dns_sd s else c # escape_dns_sd s)"

definition txt_text :: "(string \<times> string) list \<Rightarrow> string" where
  "txt_text kvs = join_with (CHR '' '') (map (\<lambda>(k, v). k @ ''='' @ escape_dns_sd v) kvs)"

definition txt_value_char :: "char \<Rightarrow> bool" where
  "txt_value_char c \<longleftrightarrow> plain_char c \<or> c = CHR '' ''"

definition txt_key :: "string \<Rightarrow> bool" where
  "txt_key k \<longleftrightarrow> (\<forall>c \<in> set k. plain_char c \<and> c \<noteq> CHR ''='' \<and> c \<noteq> CHR 0x5C)"

lemma unescape_escape: "unescape_dns_sd (escape_dns_sd v) = v"
proof (induction v)
  case Nil
  then show ?case by simp
next
  case (Cons c v)
  then show ?case by (cases "escape_dns_sd v") auto
qed

lemma split_txt_escaped:
  "\<forall>c \<in> set v. txt_value_char c \<Longrightarrow> split_txt_from cur (escape_dns_sd v @ s) = split_txt_from (cur @ escape_dns_sd v) s"
proof (induction v arbitrary: cur)
  case Nil
  then show ?case by simp
next
  case (Cons c v)
  then have IH: "split_txt_from cur' (escape_dns_sd v @ s) = split_txt_from (cur' @ escape_dns_sd v) s" for cur' by simp
  show ?case
  proof (cases "c = CHR '' '' \<or> c = CHR 0x5C")
    case True
    then show ?thesis using IH [of "cur @ [CHR 0x5C, c]"] by (auto simp: split_txt_from.simps(2))
  next
    case False
    then have "plain_char c" using Cons.prems by (auto simp: txt_value_char_def)
    then have "ws_len (c # escape_dns_sd v @ s) = 0" by (intro plain_ws) simp
    then show ?thesis using IH [of "cur @ [c]"] False by (auto simp: split_txt_from.simps(2))
  qed
qed

lemma split_txt_plain:
  "\<forall>c \<in> set k. plain_char c \<and> c \<noteq> CHR 0x5C \<Longrightarrow> split_txt_from cur (k @ s) = split_txt_from (cur @ k) s"
proof (induction k arbitrary: cur)
  case Nil
  then show ?case by simp
next
  case (Cons c k)
  then have "ws_len (c # k @ s) = 0" by (intro plain_ws) simp
  then show ?case using Cons.IH [of "cur @ [c]"] Cons.prems by (auto simp: split_txt_from.simps(2))
qed

lemma split_txt_space: "split_txt_from cur (CHR '' '' # s) = (if cur = [] then [] else [cur]) @ split_txt_from [] s"
proof -
  have "ws_len (CHR '' '' # s) = 1" by (cases s; cases "tl s") (simp_all add: is_ascii_space_def char_byte_def)
  then show ?thesis by (simp add: split_txt_from.simps(2))
qed

definition txt_pair_ok :: "string \<times> string \<Rightarrow> bool" where
  "txt_pair_ok kv \<longleftrightarrow> txt_key (fst kv) \<and> (\<forall>c \<in> set (snd kv). txt_value_char c)"

lemma split_txt_pair:
  assumes "txt_pair_ok (k, v)"
  shows "split_txt_from [] ((k @ ''='' @ escape_dns_sd v) @ s) = split_txt_from (k @ ''='' @ escape_dns_sd v) s"
proof -
  have eq: "plain_char (CHR ''='') \<and> CHR ''='' \<noteq> CHR 0x5C" by (simp add: plain_char_def char_byte_def)
  have "split_txt_from [] ((k @ ''='') @ escape_dns_sd v @ s) = split_txt_from (k @ ''='') (escape_dns_sd v @ s)"
    using assms eq split_txt_plain [of "k @ ''=''" "[]" "escape_dns_sd v @ s"] by (auto simp: txt_pair_ok_def txt_key_def)
  also have "\<dots> = split_txt_from ((k @ ''='') @ escape_dns_sd v) s"
    using assms by (intro split_txt_escaped) (auto simp: txt_pair_ok_def)
  finally show ?thesis by simp
qed

lemma split_txt_text:
  "\<forall>kv \<in> set kvs. txt_pair_ok kv \<Longrightarrow> split_txt_parts (txt_text kvs) = map (\<lambda>(k, v). k @ ''='' @ escape_dns_sd v) kvs"
proof (induction kvs rule: induct_list012)
  case 1
  then show ?case by (simp add: split_txt_parts_def txt_text_def)
next
  case (2 kv)
  then show ?case using split_txt_pair [of "fst kv" "snd kv" "[]"]
    by (simp add: split_txt_parts_def txt_text_def case_prod_beta)
next
  case (3 kv kv' kvs)
  obtain k v where kv: "kv = (k, v)" by (cases kv)
  have rest: "split_txt_from [] (txt_text (kv' # kvs)) = map (\<lambda>(k, v). k @ ''='' @ escape_dns_sd v) (kv' # kvs)"
    using "3.IH"(2) "3.prems" by (simp add: split_txt_parts_def)
  have "txt_text (kv # kv' # kvs) = (k @ ''='' @ escape_dns_sd v) @ CHR '' '' # txt_text (kv' # kvs)"
    by (simp add: txt_text_def kv)
  then have "split_txt_parts (txt_text (kv # kv' # kvs))
      = split_txt_from [] ((k @ ''='' @ escape_dns_sd v) @ CHR '' '' # txt_text (kv' # kvs))"
    by (simp only: split_txt_parts_def)
  also have "\<dots> = split_txt_from (k @ ''='' @ escape_dns_sd v) (CHR '' '' # txt_text (kv' # kvs))"
    using "3.prems" by (intro split_txt_pair) (simp add: kv)
  also have "\<dots> = (k @ ''='' @ escape_dns_sd v) # split_txt_from [] (txt_text (kv' # kvs))"
    by (simp add: split_txt_space)
  finally show ?case using rest by (simp add: kv)
qed

lemma insert_txt_pair: "txt_pair_ok (k, v) \<Longrightarrow> insert_txt_part (k @ CHR ''='' # escape_dns_sd v) m = hm_insert k v m"
proof -
  assume ok: "txt_pair_ok (k, v)"
  then have "CHR ''='' \<notin> set k" by (auto simp: txt_pair_ok_def txt_key_def)
  then show ?thesis by (simp add: insert_txt_part_def split_once_char unescape_escape)
qed

text \<open>
  The TXT text that \<open>dns-sd\<close> prints (pairs separated by spaces, spaces and backslashes of a value
  escaped by a backslash) reads back as the pairs: each key has its own value, spaces and backslashes included, and
  no other key has one.
\<close>

theorem txt_round_trip:
  assumes "\<forall>kv \<in> set kvs. txt_pair_ok kv" and "distinct (map fst kvs)"
  shows "hm_get (parse_txt_blob (txt_text kvs)) key = map_of kvs key"
proof -
  have "fold insert_txt_part (map (\<lambda>(k, v). k @ ''='' @ escape_dns_sd v) kvs) m = fold (\<lambda>(k, v). hm_insert k v) kvs m"
    if "\<forall>kv \<in> set kvs. txt_pair_ok kv" for m kvs
    using that by (induction kvs arbitrary: m) (auto simp: insert_txt_pair)
  then have blob: "parse_txt_blob (txt_text kvs) = fold (\<lambda>(k, v). hm_insert k v) kvs []"
    using assms(1) by (simp add: parse_txt_blob_def split_txt_text)
  have "hm_get (fold (\<lambda>(k, v). hm_insert k v) kvs m) key = (case map_of kvs key of Some v \<Rightarrow> Some v | None \<Rightarrow> hm_get m key)"
    if "distinct (map fst kvs)" for m kvs
    using that
    by (induction kvs arbitrary: m) (auto split: option.split simp: map_of_eq_None_iff dest: map_of_SomeD intro: rev_image_eqI)
  from this [OF assms(2), of "[]"] show ?thesis unfolding blob by (simp split: option.split)
qed

theorem txt_round_trip_witness:
  "hm_get (parse_txt_blob (''id=4f fn=Den'' @ [CHR 0x5C] @ '' speaker ca=5'')) ''fn'' = Some ''Den speaker''"
proof -
  have "\<forall>kv \<in> set [(''id'', ''4f''), (''fn'', ''Den speaker''), (''ca'', ''5'')]. txt_pair_ok kv"
    by (simp add: txt_pair_ok_def txt_key_def txt_value_char_def plain_char_def char_byte_def)
  from txt_round_trip [OF this, of "''fn''"] show ?thesis by (simp add: txt_text_def)
qed

section \<open>The reach line\<close>

lemma find_hit: "find P xs = Some x \<Longrightarrow> x \<in> set xs \<and> P x"
  by (auto simp: find_Some_iff)

lemma first_some_some: "first_some f xs = Some y \<Longrightarrow> \<exists>x \<in> set xs. f x = Some y"
  by (induction xs) (auto split: option.splits)

definition literal_v6 :: "lookup_reachable \<Rightarrow> bool" where
  "literal_v6 r \<longleftrightarrow> (case lr_address r of None \<Rightarrow> False | Some a \<Rightarrow> CHR '':'' \<in> set a)"

lemma slash24_no_colon: "ipv4_slash24_key s = Some k \<Longrightarrow> CHR '':'' \<notin> set s"
proof
  assume "ipv4_slash24_key s = Some k" and colon: "CHR '':'' \<in> set s"
  then have "list_all is_octet_text (split_on (CHR ''.'') s)"
    by (simp add: ipv4_slash24_key_def is_ipv4_literal_def split: if_splits)
  then have digits: "\<forall>p \<in> set (split_on (CHR ''.'') s). \<forall>c \<in> set p. is_ascii_digit c"
    by (auto simp: list_all_iff is_octet_text_def)
  have "\<exists>p \<in> set (split_on (CHR ''.'') s). CHR '':'' \<in> set p"
    using colon by (rule split_on_keeps) simp
  then show False using digits special_digit(1) by blast
qed

text \<open>
  ipv6_reach_last. When a lookup has reach lines, one of them is chosen; and with IPv4 preferences an IPv6 literal
  is chosen only when every reach line is one.
\<close>

theorem ipv6_reach_last:
  assumes "reachables \<noteq> []" and "\<forall>p \<in> set preferred. CHR '':'' \<notin> set p"
    and "\<forall>r \<in> set reachables. literal_v6 r \<longrightarrow> CHR '':'' \<in> set (lr_hostname r)"
  shows "\<exists>r \<in> set reachables. choose_reachable reachables preferred = Some r \<and>
    (literal_v6 r \<longrightarrow> (\<forall>r' \<in> set reachables. literal_v6 r'))"
proof -
  let ?exact = "first_some (\<lambda>pref. find (\<lambda>r. lr_address r = Some pref \<or> lr_hostname r = pref) reachables) preferred"
  let ?net = "first_some (\<lambda>pref. case ipv4_slash24_key pref of None \<Rightarrow> None
      | Some net \<Rightarrow> find (\<lambda>r. ipv4_slash24_key (reach_host r) = Some net) reachables) preferred"
  let ?v4 = "find (\<lambda>r. case lr_address r of None \<Rightarrow> True | Some a \<Rightarrow> CHR '':'' \<notin> set a) reachables"
  show ?thesis
  proof (cases ?exact)
    case (Some r)
    then obtain p where p: "p \<in> set preferred" "find (\<lambda>r. lr_address r = Some p \<or> lr_hostname r = p) reachables = Some r"
      using first_some_some [OF Some] by blast
    from find_hit [OF p(2)] have "r \<in> set reachables" "\<not> literal_v6 r"
      using assms(2,3) p(1) by (auto simp: literal_v6_def)
    then show ?thesis using Some assms(1) by (auto simp: choose_reachable_def)
  next
    case none1: None
    show ?thesis
    proof (cases ?net)
      case (Some r)
      then obtain p net where p: "find (\<lambda>r. ipv4_slash24_key (reach_host r) = Some net) reachables = Some r"
        using first_some_some [OF Some] by (auto split: option.splits)
      from find_hit [OF p] have "r \<in> set reachables" "CHR '':'' \<notin> set (reach_host r)"
        using slash24_no_colon by auto
      moreover from this(2) have "\<not> literal_v6 r" by (auto simp: literal_v6_def reach_host_def split: option.splits)
      ultimately show ?thesis using none1 Some assms(1) by (auto simp: choose_reachable_def)
    next
      case none2: None
      show ?thesis
      proof (cases ?v4)
        case (Some r)
        from find_hit [OF Some] have "r \<in> set reachables" "\<not> literal_v6 r"
          by (auto simp: literal_v6_def split: option.splits)
        then show ?thesis using none1 none2 Some assms(1) by (auto simp: choose_reachable_def)
      next
        case None
        then have "\<forall>r \<in> set reachables. literal_v6 r"
          by (auto simp: find_None_iff literal_v6_def split: option.splits)
        then show ?thesis using none1 none2 None assms(1) by (auto simp: choose_reachable_def)
      qed
    qed
  qed
qed

definition reach_line :: "string \<Rightarrow> string option \<Rightarrow> lookup_reachable" where
  "reach_line h a = \<lparr>lr_hostname = h, lr_port = 8009, lr_address = a, lr_interface = None\<rparr>"

theorem ipv6_reach_last_witness:
  "choose_reachable [reach_line ''2001:db8::7'' (Some ''2001:db8::7''), reach_line ''nest.local'' None] [''10.0.0.2'']
     = Some (reach_line ''nest.local'' None)"
proof -
  let ?rs = "[reach_line ''2001:db8::7'' (Some ''2001:db8::7''), reach_line ''nest.local'' None]"
  have "?rs \<noteq> []" "\<forall>p \<in> set [''10.0.0.2'']. CHR '':'' \<notin> set p"
    "\<forall>r \<in> set ?rs. literal_v6 r \<longrightarrow> CHR '':'' \<in> set (lr_hostname r)"
    by (simp_all add: reach_line_def literal_v6_def)
  from ipv6_reach_last [OF this] show ?thesis by (auto simp: reach_line_def literal_v6_def)
qed

section \<open>The Linux choice of an address\<close>

lemma addr_key_inj: "addr_key a = addr_key b \<Longrightarrow> a = b"
proof -
  have word: "unat x = unat y \<Longrightarrow> x = y" for x y :: "'w::len word" by (rule unsigned_word_eqI)
  have v4: "map unat (v4_octets p) = map unat (v4_octets q) \<Longrightarrow> p = q" for p q by (cases p; cases q) (auto dest: word)
  have v6: "map unat (v6_segments p) = map unat (v6_segments q) \<Longrightarrow> p = q" for p q by (cases p; cases q) (auto dest: word)
  show "addr_key a = addr_key b \<Longrightarrow> a = b" using v4 v6 by (cases a; cases b) (auto dest: word)
qed

text \<open>
  address_order_irrelevant. The device built from an mDNS answer does not depend on the order in which the set of
  its addresses is iterated, so repeated resolves of an unchanged device register the same host.
\<close>

theorem address_order_irrelevant:
  assumes "mset addresses = mset (md_addresses resolved)"
  shows "cast_service_from_mdns_resolved env now (resolved\<lparr>md_addresses := addresses\<rparr>)
    = cast_service_from_mdns_resolved env now resolved"
proof -
  have "sort_key addr_key (map candidate_addr addresses) = sort_key addr_key (map candidate_addr (md_addresses resolved))"
    using assms by (intro sort_key_inj_key_eq) (auto simp: mset_map inj_on_def dest: addr_key_inj)
  then show ?thesis by (simp add: cast_service_from_mdns_resolved_def)
qed

definition nest_service :: mdns_service where
  "nest_service =
     \<lparr>md_properties = (\<lambda>k. if k = ''id'' then Some ''4f'' else if k = ''fn'' then Some ''Den'' else None),
      md_fullname = ''Nest-4f._googlecast._tcp.local.'', md_hostname = ''4f.local.'',
      md_addresses = [ScopedV6 (Ipv6 0x2001 0xdb8 0 0 0 0 0 7) 0, ScopedV4 (Ipv4 192 168 1 9), ScopedV4 (Ipv4 192 168 1 7)],
      md_port = 0\<rparr>"

theorem address_order_irrelevant_witness:
  "cast_service_from_mdns_resolved example_env 5
     (nest_service\<lparr>md_addresses := [ScopedV4 (Ipv4 192 168 1 7), ScopedV4 (Ipv4 192 168 1 9), ScopedV6 (Ipv6 0x2001 0xdb8 0 0 0 0 0 7) 0]\<rparr>)
   = cast_service_from_mdns_resolved example_env 5 nest_service"
  by (rule address_order_irrelevant) (simp add: nest_service_def)

section \<open>Browse lines\<close>

lemma find_contains: "str_find s p = None \<longleftrightarrow> \<not> str_contains s p"
  by (induction s) auto

lemma find_skip_second:
  "e \<notin> set x \<Longrightarrow> s = [] \<or> hd s \<noteq> e \<Longrightarrow>
     str_find (x @ s) (d # e # p) = map_option (\<lambda>i. length x + i) (str_find s (d # e # p))"
proof (induction x)
  case Nil
  then show ?case by (cases "str_find s (d # e # p)") auto
next
  case (Cons c x)
  have "\<not> starts_with ((c # x) @ s) (d # e # p)"
    using Cons.prems by (cases x; cases s) (auto simp: starts_with_def)
  then show ?case using Cons by (cases "str_find s (d # e # p)") auto
qed

lemma trim_spaces: "trim_start (replicate n (CHR '' '') @ s) = trim_start s"
proof (induction n)
  case 0
  then show ?case by simp
next
  case (Suc n)
  have one: "ws_len (CHR '' '' # t) = 1" for t
    by (cases t; cases "tl t") (simp_all add: is_ascii_space_def char_byte_def)
  have "trim_start (CHR '' '' # t) = trim_start t" for t
    by (subst trim_start.simps) (simp add: one)
  then show ?case using Suc by simp
qed

lemma trim_ends_plain: "s \<noteq> [] \<Longrightarrow> plain_char (hd s) \<Longrightarrow> plain_char (last s) \<Longrightarrow> str_trim s = s"
proof -
  assume s: "s \<noteq> []" "plain_char (hd s)" "plain_char (last s)"
  have "ws_len s = 0" using s by (intro plain_ws) simp
  moreover have "ws_len_rev (rev s) = 0" using s by (intro plain_ws_rev) (simp add: hd_rev)
  ultimately show ?thesis by (simp add: str_trim_def trim_start.simps [of s] trim_start_rev.simps [of "rev s"])
qed

fun kind_token :: "browse_kind \<Rightarrow> string" where
  "kind_token BrowseAdd = '' Add ''"
| "kind_token BrowseRemove = '' Rmv ''"

definition browse_line :: "browse_kind \<Rightarrow> string \<Rightarrow> string \<Rightarrow> nat \<Rightarrow> string \<Rightarrow> string" where
  "browse_line kind stamp mid pad inst =
     stamp @ kind_token kind @ mid @ ''_googlecast._tcp.'' @ replicate pad (CHR '' '') @ inst"

text \<open>The parts of a line as \<open>dns-sd -B\<close> prints them: a time stamp that begins with a digit, columns without capital
  A or underscore, and an instance name that begins and ends with a printing character.\<close>

definition browse_parts_ok :: "browse_kind \<Rightarrow> string \<Rightarrow> string \<Rightarrow> nat \<Rightarrow> string \<Rightarrow> bool" where
  "browse_parts_ok kind stamp mid pad inst \<longleftrightarrow>
     stamp \<noteq> [] \<and> is_ascii_digit (hd stamp) \<and> CHR ''A'' \<notin> set stamp \<and> CHR ''R'' \<notin> set stamp \<and>
     CHR ''A'' \<notin> set mid \<and> CHR ''_'' \<notin> set mid \<and> 0 < pad \<and>
     inst \<noteq> [] \<and> plain_char (hd inst) \<and> plain_char (last inst) \<and>
     (kind = BrowseRemove \<longrightarrow> \<not> str_contains (replicate pad (CHR '' '') @ inst) '' Add '')"

text \<open>
  browse_line_read. A browse line is read as the event it announces, with the instance name exactly as printed,
  spaces inside it included; for a removal this needs that the name does not itself contain the word "Add" between
  spaces.
\<close>

theorem browse_line_read:
  assumes "browse_parts_ok kind stamp mid pad inst"
  shows "parse_browse_line (browse_line kind stamp mid pad inst) = Some \<lparr>be_kind = kind, be_instance = inst\<rparr>"
proof -
  let ?spaces = "replicate pad (CHR '' '')"
  let ?rest = "mid @ ''_googlecast._tcp.'' @ ?spaces @ inst"
  let ?line = "stamp @ kind_token kind @ ?rest"
  note ok = assms [unfolded browse_parts_ok_def]
  obtain c stamp' where stamp: "stamp = c # stamp'" "is_ascii_digit c" using ok by (cases stamp) auto
  have line: "browse_line kind stamp mid pad inst = ?line" by (simp add: browse_line_def)
  have "plain_char c" using stamp(2) by (auto simp: is_ascii_digit_def plain_char_def char_byte_def)
  then have trim: "str_trim ?line = ?line" using ok stamp by (intro trim_ends_plain) auto
  have "c \<notin> {CHR ''B'', CHR ''D'', CHR ''T''}" using stamp(2) by (auto simp: is_ascii_digit_def)
  then have header: "\<not> starts_with ?line ''Browsing''" "\<not> starts_with ?line ''DATE:''" "\<not> starts_with ?line ''Timestamp''"
    by (auto simp: stamp(1) starts_with_def)
  have inst_trim: "str_trim (?spaces @ inst) = inst"
    using trim_ends_plain [of inst] ok by (simp add: str_trim_def trim_spaces)
  have "str_find (''_googlecast._tcp.'' @ ?spaces @ inst) ''_googlecast._tcp.'' = Some 0" by (simp add: starts_with_def)
  then have once: "split_once ?rest ''_googlecast._tcp.'' = Some (mid, ?spaces @ inst)"
    using find_skip [of "CHR ''_''" mid "''_googlecast._tcp.'' @ ?spaces @ inst" "''googlecast._tcp.''"] ok
    by (simp add: split_once_def)
  have found: "(case find_token_after ?line '' Add '' of Some r \<Rightarrow> Some (BrowseAdd, r)
      | None \<Rightarrow> (case find_token_after ?line '' Rmv '' of Some r \<Rightarrow> Some (BrowseRemove, r)
        | None \<Rightarrow> map_option (\<lambda>r. (BrowseRemove, r)) (find_token_after ?line '' Remove ''))) = Some (kind, ?rest)"
  proof (cases kind)
    case BrowseAdd
    have "str_find ('' Add '' @ ?rest) '' Add '' = Some 0" by (simp add: starts_with_def)
    then have "str_find ?line '' Add '' = Some (length stamp)"
      using find_skip_second [of "CHR ''A''" stamp "'' Add '' @ ?rest" "CHR '' ''" "''dd ''"] ok BrowseAdd by simp
    then show ?thesis using BrowseAdd by (simp add: find_token_after_def)
  next
    case BrowseRemove
    let ?before = "stamp @ '' Rmv '' @ mid @ ''_googlecast._tcp.''"
    have "str_find (?before @ ?spaces @ inst) '' Add '' = map_option (\<lambda>i. length ?before + i) (str_find (?spaces @ inst) '' Add '')"
      using ok by (intro find_skip_second) (auto simp: gr0_conv_Suc)
    then have none: "str_find ?line '' Add '' = None" using ok BrowseRemove by (simp add: find_contains)
    have "str_find ('' Rmv '' @ ?rest) '' Rmv '' = Some 0" by (simp add: starts_with_def)
    then have "str_find ?line '' Rmv '' = Some (length stamp)"
      using find_skip_second [of "CHR ''R''" stamp "'' Rmv '' @ ?rest" "CHR '' ''" "''mv ''"] ok BrowseRemove by simp
    then show ?thesis using none BrowseRemove by (simp add: find_token_after_def)
  qed
  have "?line \<noteq> []" by (simp add: stamp(1))
  then show ?thesis
    unfolding line parse_browse_line_def using header found once inst_trim ok by (simp only: trim Let_def) simp
qed

theorem browse_line_read_witness:
  "parse_browse_line ''21:42:26.808  Rmv        2  15 local.               _googlecast._tcp.    Den Audio''
     = Some \<lparr>be_kind = BrowseRemove, be_instance = ''Den Audio''\<rparr>"
proof -
  have "browse_parts_ok BrowseRemove ''21:42:26.808 '' ''       2  15 local.               '' 4 ''Den Audio''"
    by (simp add: browse_parts_ok_def is_ascii_digit_def plain_char_def char_byte_def numeral_eq_Suc starts_with_def)
  from browse_line_read [OF this] show ?thesis by (simp add: browse_line_def numeral_eq_Suc)
qed

text \<open>The removal of an instance whose name contains the word is not read: the token search for an addition comes
  first and finds it inside the name.\<close>

lemma removal_of_add_named_lost:
  "parse_browse_line ''21:42:26.808  Rmv        2  15 local.               _googlecast._tcp.    Den Add On'' = None"
  by code_simp

section \<open>The Linux session\<close>

definition stops_session :: "mdns_event \<Rightarrow> bool" where
  "stops_session e \<longleftrightarrow>
     (case e of SearchStopped ty \<Rightarrow> True
      | RecvFailed msg \<Rightarrow> str_contains msg ''disconnect'' \<or> str_contains msg ''Disconnect''
      | _ \<Rightarrow> False)"

fun service_device :: "cast_service \<Rightarrow> device" where
  "service_device (CastDevice d) = d"
| "service_device (DynamicGroup d capabilities) = d"

text \<open>The services resolved before the session ends, with the times.\<close>

fun resolved_services :: "(instant \<times> net_env \<times> mdns_event) list \<Rightarrow> (instant \<times> cast_service) list" where
  "resolved_services [] = []"
| "resolved_services ((now, env, event) # es) =
     (if stops_session event then []
      else case event of
        ServiceResolved resolved \<Rightarrow> (now, cast_service_from_mdns_resolved env now resolved) # resolved_services es
      | _ \<Rightarrow> resolved_services es)"

fun registered :: "instant \<times> cast_service \<Rightarrow> device option" where
  "registered (now, CastDevice d) = Some ((clear_pending d)\<lparr>last_seen := now\<rparr>)"
| "registered (now, DynamicGroup d capabilities) = None"

lemma service_found_get:
  "hm_get (inner (fst (service_found now s st))) x =
     (if dev_id (service_device s) = x then registered (now, s) else hm_get (inner (fst st)) x)"
  by (cases s; cases st)
    (auto simp: service_found_def ignore_dynamic_group_def appear_def leave_def Let_def)

text \<open>
  C9: registry_holds_last_resolve. After a Linux browse session, whatever events it saw, the registry has for each id
  exactly the last service resolved for it before the session ended, seen at that time and not pending leave; an id
  whose last service is a transient dynamic group is not registered, not even when it was before; and an id without
  a resolve is as before the session: removals reported by mDNS change nothing.
\<close>

theorem registry_holds_last_resolve:
  "hm_get (inner (fst (linux_session (reg, ignored) es))) x =
     (case rev (filter (\<lambda>ns. dev_id (service_device (snd ns)) = x) (resolved_services es)) of
        [] \<Rightarrow> hm_get (inner reg) x
      | latest # earlier \<Rightarrow> registered latest)"
proof -
  have "hm_get (inner (fst (linux_session st es))) x =
     (case rev (filter (\<lambda>ns. dev_id (service_device (snd ns)) = x) (resolved_services es)) of
        [] \<Rightarrow> hm_get (inner (fst st)) x | latest # earlier \<Rightarrow> registered latest)" for st
  proof (induction st es rule: linux_session.induct)
    case (1 st)
    then show ?case by simp
  next
    case (2 st now env event es)
    show ?case
    proof (cases event)
      case (ServiceResolved resolved)
      define s where "s = cast_service_from_mdns_resolved env now resolved"
      define r where "r = rev (filter (\<lambda>ns. dev_id (service_device (snd ns)) = x) (resolved_services es))"
      have "hm_get (inner (fst (linux_session (service_found now s st) es))) x =
          (case r of [] \<Rightarrow> hm_get (inner (fst (service_found now s st))) x | latest # earlier \<Rightarrow> registered latest)"
        unfolding s_def r_def by (rule "2.IH"(1) [OF ServiceResolved])
      then show ?thesis
        by (cases r) (auto simp: ServiceResolved stops_session_def service_found_get s_def [symmetric] r_def [symmetric])
    qed (use 2 in \<open>auto simp: stops_session_def\<close>)
  qed
  from this [of "(reg, ignored)"] show ?thesis by (simp only: fst_conv)
qed

end
