(* ===== verification/Pairing.thy ===== *)
theory Pairing
  imports Text_Parse "HOL-Library.List_Lexorder" "HOL-Library.Char_ord"
begin

text \<open>
  The pairing store of a receiver (\<open>src/airplay/pairing.rs\<close>): identity seed, paired controllers and Home name, held
  in memory and mirrored to one file per receiver by an atomic write; and the manager's table of stores
  (\<open>src/airplay/mod.rs\<close>). Hexadecimal and JSON encodings are arguments (\<open>codec\<close>); bytes of a file are a list over any
  type, so that no law about their contents is built in.
\<close>

section \<open>Ordered maps\<close>

text \<open>\<open>BTreeMap\<close>: pairs in strictly ascending order of the keys.\<close>

type_synonym ('k, 'v) btreemap = "('k \<times> 'v) list"

definition bt_ok :: "('k::linorder, 'v) btreemap \<Rightarrow> bool" where
  "bt_ok m \<longleftrightarrow> sorted_wrt (<) (map fst m)"

definition bt_get :: "('k, 'v) btreemap \<Rightarrow> 'k \<Rightarrow> 'v option" where
  "bt_get m k = map_of m k"

fun bt_insert :: "'k::linorder \<Rightarrow> 'v \<Rightarrow> ('k, 'v) btreemap \<Rightarrow> ('k, 'v) btreemap" where
  "bt_insert k v [] = [(k, v)]"
| "bt_insert k v ((k', v') # m) =
     (if k < k' then (k, v) # (k', v') # m else if k = k' then (k, v) # m else (k', v') # bt_insert k v m)"

definition bt_remove :: "'k \<Rightarrow> ('k, 'v) btreemap \<Rightarrow> ('k, 'v) btreemap" where
  "bt_remove k m = filter (\<lambda>kv. fst kv \<noteq> k) m"

definition bt_collect :: "('k::linorder \<times> 'v) list \<Rightarrow> ('k, 'v) btreemap" where
  "bt_collect kvs = fold (\<lambda>(k, v). bt_insert k v) kvs []"

lemma bt_insert_keys: "fst ` set (bt_insert k v m) = insert k (fst ` set m)"
  by (induction k v m rule: bt_insert.induct) auto

lemma bt_insert_ok: "bt_ok m \<Longrightarrow> bt_ok (bt_insert k v m)"
proof (induction k v m rule: bt_insert.induct)
  case (1 k v)
  then show ?case by (simp add: bt_ok_def)
next
  case (2 k v k' v' m)
  have keys: "set (map fst (bt_insert k v m)) = insert k (fst ` set m)" using bt_insert_keys [of k v m] by simp
  show ?case
  proof (cases "k' < k")
    case True
    then have "bt_ok (bt_insert k v m)" using 2 by (simp add: bt_ok_def)
    moreover have "bt_insert k v ((k', v') # m) = (k', v') # bt_insert k v m" using True by auto
    ultimately show ?thesis using True "2.prems" keys unfolding bt_ok_def
      by (simp only: list.map sorted_wrt.simps fst_conv keys) auto
  next
    case False
    then show ?thesis using "2.prems" by (force simp: bt_ok_def)
  qed
qed

interpretation bt: keyed_map bt_get bt_insert bt_remove bt_ok
proof
  fix m :: "('a::linorder \<times> 'b) list" and k j v
  show "bt_get (bt_insert k v m) j = (if j = k then Some v else bt_get m j)"
    by (induction k v m rule: bt_insert.induct) (auto simp: bt_get_def)
  show "bt_get (bt_remove k m) j = (if j = k then None else bt_get m j)"
    by (induction m) (auto simp: bt_get_def bt_remove_def)
  show "bt_ok m \<Longrightarrow> bt_ok (bt_insert k v m)" by (rule bt_insert_ok)
  show "bt_ok m \<Longrightarrow> bt_ok (bt_remove k m)"
    by (induction m) (auto simp: bt_ok_def bt_remove_def)
qed

section \<open>State\<close>

type_synonym key32 = "u8 list"

record pairing_file =
  pf_identity :: "string option"
  pf_controllers :: "(string, string) btreemap"
  pf_home_name :: "string option"

record pairing_state =
  ps_identity :: "key32 option"
  ps_controllers :: "(string, key32) btreemap"
  ps_home_name :: "string option"

definition pairing_default :: pairing_state where
  "pairing_default = \<lparr>ps_identity = None, ps_controllers = [], ps_home_name = None\<rparr>"

text \<open>\<open>hex::encode\<close>, \<open>hex::decode_to_slice\<close> into 32 bytes, \<open>serde_json::to_vec_pretty\<close> and \<open>from_slice\<close>.\<close>

record 'b codec =
  encode_key :: "key32 \<Rightarrow> string"
  decode_key :: "string \<Rightarrow> key32 option"
  to_json :: "pairing_file \<Rightarrow> 'b list option"
  from_json :: "'b list \<Rightarrow> pairing_file option"

definition pairing_from_file :: "'b codec \<Rightarrow> pairing_file \<Rightarrow> pairing_state" where
  "pairing_from_file c f =
     \<lparr>ps_identity = Option.bind (pf_identity f) (decode_key c),
      ps_controllers =
        bt_collect (List.map_filter (\<lambda>(cid, hex). map_option (\<lambda>key. (cid, key)) (decode_key c hex)) (pf_controllers f)),
      ps_home_name = (case pf_home_name f of None \<Rightarrow> None | Some n \<Rightarrow> if str_trim n \<noteq> [] then Some n else None)\<rparr>"

definition pairing_to_file :: "'b codec \<Rightarrow> pairing_state \<Rightarrow> pairing_file" where
  "pairing_to_file c s =
     \<lparr>pf_identity = map_option (encode_key c) (ps_identity s),
      pf_controllers = bt_collect (map (\<lambda>(cid, key). (cid, encode_key c key)) (ps_controllers s)),
      pf_home_name = ps_home_name s\<rparr>"

definition file_stem :: "string \<Rightarrow> string" where
  "file_stem device_id =
     map (\<lambda>c. if is_ascii_alphanumeric c \<or> c = CHR ''-'' \<or> c = CHR ''_'' then c else CHR ''_'') device_id"

section \<open>Files\<close>

record 'b disk_file =
  file_bytes :: "'b list"
  file_mode :: nat

text \<open>The pairing file and the temporary file beside it.\<close>

record 'b disk =
  disk_main :: "'b disk_file option"
  disk_tmp :: "'b disk_file option"

type_synonym 'b file_system = "string \<Rightarrow> 'b disk"

text \<open>Mode 600 (octal).\<close>

definition OWNER_ONLY :: nat where
  "OWNER_ONLY = 6 * 8 * 8"

text \<open>Where a write fails, or the process dies: both leave the disk as it is at that point. \<open>AtWriteAll n\<close> is after
  \<open>n\<close> of the bytes.\<close>

datatype write_point = AtCreateDir | AtRemoveTmp | AtOpenTmp | AtWriteAll nat | AtSync | AtRename

definition write_atomic :: "write_point option \<Rightarrow> 'b list option \<Rightarrow> 'b disk \<Rightarrow> 'b disk \<times> bool" where
  "write_atomic fault json d =
     (if fault = Some AtCreateDir then (d, False)
      else case json of None \<Rightarrow> (d, False)
      | Some bytes \<Rightarrow>
          if fault = Some AtRemoveTmp then (d, False)
          else
            let d1 = d\<lparr>disk_tmp := None\<rparr>
            in if fault = Some AtOpenTmp then (d1, False)
               else
                 case fault of
                   Some (AtWriteAll n) \<Rightarrow> (d1\<lparr>disk_tmp := Some \<lparr>file_bytes = take n bytes, file_mode = OWNER_ONLY\<rparr>\<rparr>, False)
                 | _ \<Rightarrow>
                     let d2 = d1\<lparr>disk_tmp := Some \<lparr>file_bytes = bytes, file_mode = OWNER_ONLY\<rparr>\<rparr>
                     in if fault = Some AtSync then (d2, False)
                        else if fault = Some AtRename then (d2, False)
                        else (d2\<lparr>disk_main := disk_tmp d2, disk_tmp := None\<rparr>, True))"

section \<open>The store\<close>

record pairing_store =
  store_path :: "string option"
  store_state :: pairing_state

definition PAIRING_SUBDIR :: string where
  "PAIRING_SUBDIR = ''pairing''"

definition pairing_dir :: "string \<Rightarrow> string" where
  "pairing_dir state_dir = state_dir @ ''/'' @ PAIRING_SUBDIR"

definition pairing_path :: "string \<Rightarrow> string \<Rightarrow> string" where
  "pairing_path dir device_id = dir @ ''/'' @ file_stem device_id @ ''.json''"

text \<open>\<open>unreadable\<close>: reading the file fails for a reason other than its absence.\<close>

definition pairing_load :: "'b codec \<Rightarrow> bool \<Rightarrow> 'b disk \<Rightarrow> pairing_state" where
  "pairing_load c unreadable d =
     (if unreadable then pairing_default
      else case disk_main d of None \<Rightarrow> pairing_default
      | Some f \<Rightarrow>
          (case from_json c (file_bytes f) of None \<Rightarrow> pairing_default | Some pf \<Rightarrow> pairing_from_file c pf))"

definition pairing_open :: "'b codec \<Rightarrow> bool \<Rightarrow> string \<Rightarrow> string \<Rightarrow> 'b file_system \<Rightarrow> pairing_store" where
  "pairing_open c unreadable dir device_id fs =
     \<lparr>store_path = Some (pairing_path dir device_id),
      store_state = pairing_load c unreadable (fs (pairing_path dir device_id))\<rparr>"

definition pairing_in_memory :: pairing_store where
  "pairing_in_memory = \<lparr>store_path = None, store_state = pairing_default\<rparr>"

definition persist :: "'b codec \<Rightarrow> write_point option \<Rightarrow> pairing_store \<Rightarrow> 'b file_system \<Rightarrow> 'b file_system" where
  "persist c fault st fs =
     (case store_path st of None \<Rightarrow> fs
      | Some path \<Rightarrow> fs(path := fst (write_atomic fault (to_json c (pairing_to_file c (store_state st))) (fs path))))"

definition store_upd :: "(pairing_state \<Rightarrow> pairing_state) \<Rightarrow> pairing_store \<Rightarrow> pairing_store" where
  "store_upd f st = st\<lparr>store_state := f (store_state st)\<rparr>"

definition ps_get :: "string \<Rightarrow> pairing_store \<Rightarrow> key32 option" where
  "ps_get cid st = bt_get (ps_controllers (store_state st)) cid"

definition ps_put ::
  "'b codec \<Rightarrow> write_point option \<Rightarrow> string \<Rightarrow> key32 \<Rightarrow> pairing_store \<times> 'b file_system \<Rightarrow> pairing_store \<times> 'b file_system" where
  "ps_put c fault cid key w =
     (let (st, fs) = w;
          previous = bt_get (ps_controllers (store_state st)) cid;
          st1 = store_upd (\<lambda>s. s\<lparr>ps_controllers := bt_insert cid key (ps_controllers s)\<rparr>) st
      in if previous \<noteq> Some key then (st1, persist c fault st1 fs) else (st1, fs))"

definition ps_remove ::
  "'b codec \<Rightarrow> write_point option \<Rightarrow> string \<Rightarrow> pairing_store \<times> 'b file_system \<Rightarrow> pairing_store \<times> 'b file_system" where
  "ps_remove c fault cid w =
     (let (st, fs) = w in
      if bt_get (ps_controllers (store_state st)) cid = None then w
      else
        let st1 = store_upd (\<lambda>s. s\<lparr>ps_controllers := bt_remove cid (ps_controllers s)\<rparr>) st;
            st2 = (if ps_controllers (store_state st1) = [] then store_upd (\<lambda>s. s\<lparr>ps_home_name := None\<rparr>) st1 else st1)
        in (st2, persist c fault st2 fs))"

definition has_any_pairing :: "pairing_store \<Rightarrow> bool" where
  "has_any_pairing st \<longleftrightarrow> ps_controllers (store_state st) \<noteq> []"

definition ps_list :: "pairing_store \<Rightarrow> (string \<times> key32) list" where
  "ps_list st = ps_controllers (store_state st)"

definition load_identity :: "pairing_store \<Rightarrow> key32 option" where
  "load_identity st = ps_identity (store_state st)"

definition save_identity ::
  "'b codec \<Rightarrow> write_point option \<Rightarrow> key32 \<Rightarrow> pairing_store \<times> 'b file_system \<Rightarrow> pairing_store \<times> 'b file_system" where
  "save_identity c fault seed w =
     (let (st, fs) = w; st1 = store_upd (\<lambda>s. s\<lparr>ps_identity := Some seed\<rparr>) st in (st1, persist c fault st1 fs))"

definition ps_home :: "pairing_store \<Rightarrow> string option" where
  "ps_home st = ps_home_name (store_state st)"

definition set_home_name ::
  "'b codec \<Rightarrow> write_point option \<Rightarrow> string \<Rightarrow> pairing_store \<times> 'b file_system \<Rightarrow> pairing_store \<times> 'b file_system" where
  "set_home_name c fault n w =
     (let (st, fs) = w in
      if ps_home_name (store_state st) \<noteq> Some n then
        let st1 = store_upd (\<lambda>s. s\<lparr>ps_home_name := Some n\<rparr>) st in (st1, persist c fault st1 fs)
      else w)"

datatype pairing_op = PairPut string key32 | PairRemove string | PairSaveIdentity key32 | PairSetHomeName string

fun pairing_step ::
  "'b codec \<Rightarrow> pairing_store \<times> 'b file_system \<Rightarrow> pairing_op \<times> write_point option \<Rightarrow> pairing_store \<times> 'b file_system" where
  "pairing_step c w (PairPut cid key, fault) = ps_put c fault cid key w"
| "pairing_step c w (PairRemove cid, fault) = ps_remove c fault cid w"
| "pairing_step c w (PairSaveIdentity seed, fault) = save_identity c fault seed w"
| "pairing_step c w (PairSetHomeName n, fault) = set_home_name c fault n w"

section \<open>The manager's stores\<close>

definition manager_pairing_store ::
  "'b codec \<Rightarrow> string option \<Rightarrow> 'b file_system \<Rightarrow> string \<Rightarrow> (string, pairing_store) hashmap \<Rightarrow>
   pairing_store \<times> (string, pairing_store) hashmap" where
  "manager_pairing_store c state_dir fs device_id stores =
     (case hm_get stores device_id of
        Some st \<Rightarrow> (st, stores)
      | None \<Rightarrow>
          let st = (case state_dir of None \<Rightarrow> pairing_in_memory
                    | Some dir \<Rightarrow> pairing_open c False (pairing_dir dir) device_id fs)
          in (st, hm_insert device_id st stores))"

fun home_names ::
  "'b codec \<Rightarrow> string option \<Rightarrow> 'b file_system \<Rightarrow> string list \<Rightarrow> (string, pairing_store) hashmap \<Rightarrow>
   (string, string) hashmap \<Rightarrow> (string, string) hashmap \<times> (string, pairing_store) hashmap" where
  "home_names c state_dir fs [] stores found = (found, stores)"
| "home_names c state_dir fs (did # ids) stores found =
     (let (st, stores1) = manager_pairing_store c state_dir fs did stores
      in home_names c state_dir fs ids stores1
           (case ps_home st of None \<Rightarrow> found | Some n \<Rightarrow> hm_insert did n found))"

end
