(* ===== verification/Pairing_Promises.thy ===== *)
theory Pairing_Promises
  imports Pairing
begin

text \<open>
  What the pairing store promises: a write leaves the old file or the complete new one, whatever fails; and a store
  reopened after a restart is the store as it was, or, after failed writes, one of its earlier states.
\<close>

section \<open>The atomic write\<close>

text \<open>
  pairing_write_atomic. Wherever a write of the pairing file fails or the process dies, the file is the old one,
  untouched, or the complete new content readable by the owner only, never a part of it; it is the new one exactly
  when the write reports success, and then no temporary file is left.
\<close>

theorem pairing_write_atomic:
  "case write_atomic fault json d of
     (d', True) \<Rightarrow> fault \<notin> {Some AtCreateDir, Some AtRemoveTmp, Some AtOpenTmp, Some AtSync, Some AtRename} \<and>
       d' = \<lparr>disk_main = map_option (\<lambda>bytes. \<lparr>file_bytes = bytes, file_mode = OWNER_ONLY\<rparr>) json, disk_tmp = None\<rparr> \<and>
       json \<noteq> None
   | (d', False) \<Rightarrow> disk_main d' = disk_main d \<and> (fault \<noteq> None \<or> json = None)"
  by (cases json; cases fault; cases "the fault") (auto simp: write_atomic_def Let_def)

section \<open>Collecting ordered maps\<close>

lemma bt_insert_last:
  "\<forall>x \<in> fst ` set m. x < k \<Longrightarrow> bt_insert k v m = m @ [(k, v)]"
  by (induction k v m rule: bt_insert.induct) auto

lemma bt_collect_ordered: "bt_ok kvs \<Longrightarrow> bt_collect kvs = kvs"
proof -
  have "bt_ok (m @ kvs) \<Longrightarrow> fold (\<lambda>(k, v). bt_insert k v) kvs m = m @ kvs" for m
  proof (induction kvs arbitrary: m)
    case Nil
    then show ?case by simp
  next
    case (Cons kv kvs)
    obtain k v where kv: "kv = (k, v)" by (cases kv)
    have "\<forall>x \<in> fst ` set m. x < k" using Cons.prems by (auto simp: kv bt_ok_def sorted_wrt_append)
    then have "bt_insert k v m = m @ [(k, v)]" by (rule bt_insert_last)
    then show ?case using Cons by (simp add: kv)
  qed
  from this [of "[]"] show "bt_ok kvs \<Longrightarrow> bt_collect kvs = kvs" by (simp add: bt_collect_def)
qed

lemma bt_collect_ok: "bt_ok (bt_collect kvs)"
proof -
  have "bt_ok m \<Longrightarrow> bt_ok (fold (\<lambda>(k, v). bt_insert k v) kvs m)" for m :: "('a::linorder, 'b) btreemap"
    by (induction kvs arbitrary: m) (auto intro: bt_insert_ok)
  from this [of "[]"] show ?thesis by (simp add: bt_collect_def bt_ok_def)
qed

lemma bt_insert_in: "kv \<in> set (bt_insert k v m) \<Longrightarrow> kv = (k, v) \<or> kv \<in> set m"
  by (induction k v m rule: bt_insert.induct) (auto split: if_splits)

lemma bt_collect_in: "kv \<in> set (bt_collect kvs) \<Longrightarrow> kv \<in> set kvs"
proof -
  have "kv \<in> set (fold (\<lambda>(k, v). bt_insert k v) kvs m) \<Longrightarrow> kv \<in> set kvs \<or> kv \<in> set m" for m
    by (induction kvs arbitrary: m) (auto dest: bt_insert_in)
  from this [of "[]"] show "kv \<in> set (bt_collect kvs) \<Longrightarrow> kv \<in> set kvs" by (simp add: bt_collect_def)
qed

section \<open>Encoding\<close>

text \<open>The laws of the encodings: hexadecimal of 32 bytes reads back and nothing but 32 bytes is read; a pairing file
  always has a JSON text, which reads back.\<close>

definition codec_ok :: "'b codec \<Rightarrow> bool" where
  "codec_ok c \<longleftrightarrow>
     (\<forall>key. length key = 32 \<longrightarrow> decode_key c (encode_key c key) = Some key) \<and>
     (\<forall>s key. decode_key c s = Some key \<longrightarrow> length key = 32) \<and>
     (\<forall>f. \<exists>bytes. to_json c f = Some bytes \<and> from_json c bytes = Some f)"

definition pairing_ok :: "pairing_state \<Rightarrow> bool" where
  "pairing_ok s \<longleftrightarrow>
     (\<forall>key. ps_identity s = Some key \<longrightarrow> length key = 32) \<and>
     bt_ok (ps_controllers s) \<and> (\<forall>kv \<in> set (ps_controllers s). length (snd kv) = 32) \<and>
     (\<forall>n. ps_home_name s = Some n \<longrightarrow> str_trim n \<noteq> [])"

lemma pairing_default_ok: "pairing_ok pairing_default"
  by (simp add: pairing_ok_def pairing_default_def bt_ok_def)

lemma from_file_ok: "codec_ok c \<Longrightarrow> pairing_ok (pairing_from_file c f)"
  by (auto simp: pairing_ok_def pairing_from_file_def codec_ok_def bt_collect_ok List.map_filter_def
      dest!: bt_collect_in split: option.splits if_splits bind_splits)

lemma from_to_file:
  assumes "codec_ok c" and "pairing_ok s"
  shows "pairing_from_file c (pairing_to_file c s) = s"
proof -
  let ?enc = "map (\<lambda>(cid, key). (cid, encode_key c key)) (ps_controllers s)"
  have keys: "decode_key c (encode_key c key) = Some key" if "length key = 32" for key
    using assms(1) that by (simp add: codec_ok_def)
  have "bt_ok ?enc" using assms(2) by (simp add: pairing_ok_def bt_ok_def comp_def case_prod_beta)
  then have enc: "bt_collect ?enc = ?enc" by (rule bt_collect_ordered)
  have "List.map_filter (\<lambda>(cid, hex). map_option (\<lambda>key. (cid, key)) (decode_key c hex))
      (map (\<lambda>(cid, key). (cid, encode_key c key)) m) = m" if "\<forall>kv \<in> set m. length (snd kv) = 32" for m
    using that by (induction m) (auto simp: List.map_filter_def keys)
  from this [of "ps_controllers s"] have dec: "List.map_filter (\<lambda>(cid, hex). map_option (\<lambda>key. (cid, key)) (decode_key c hex)) ?enc = ps_controllers s"
    using assms(2) by (auto simp: pairing_ok_def)
  have "bt_collect (ps_controllers s) = ps_controllers s"
    using assms(2) by (intro bt_collect_ordered) (simp add: pairing_ok_def)
  then show ?thesis
    using assms(2) keys
    by (cases "ps_identity s"; cases "ps_home_name s")
      (simp_all add: pairing_from_file_def pairing_to_file_def enc dec pairing_ok_def)
qed

section \<open>Restarts\<close>

text \<open>Operations with 32-byte keys and names that are not blank.\<close>

fun pairing_op_ok :: "pairing_op \<Rightarrow> bool" where
  "pairing_op_ok (PairPut cid key) = (length key = 32)"
| "pairing_op_ok (PairRemove cid) = True"
| "pairing_op_ok (PairSaveIdentity seed) = (length seed = 32)"
| "pairing_op_ok (PairSetHomeName n) = (str_trim n \<noteq> [])"

definition on_path :: "string \<Rightarrow> pairing_store \<times> 'b file_system \<Rightarrow> bool" where
  "on_path path w \<longleftrightarrow> store_path (fst w) = Some path \<and> pairing_ok (store_state (fst w))"

lemma write_main:
  "disk_main (fst (write_atomic fault (Some bytes) d)) =
     (if snd (write_atomic fault (Some bytes) d) then Some \<lparr>file_bytes = bytes, file_mode = OWNER_ONLY\<rparr> else disk_main d)"
  by (cases fault; cases "the fault") (auto simp: write_atomic_def Let_def)

lemma write_no_fault: "snd (write_atomic None (Some bytes) d)"
  by (simp add: write_atomic_def Let_def)

lemma load_persisted:
  assumes "codec_ok c" and "on_path path (st, fs)"
  shows "pairing_load c False (persist c fault st fs path) \<in> {store_state st, pairing_load c False (fs path)}"
    and "pairing_load c False (persist c None st fs path) = store_state st"
proof -
  from assms(1) have "\<exists>bytes. to_json c (pairing_to_file c (store_state st)) = Some bytes \<and>
      from_json c bytes = Some (pairing_to_file c (store_state st))" by (simp add: codec_ok_def)
  then obtain bytes where bytes: "to_json c (pairing_to_file c (store_state st)) = Some bytes"
      "from_json c bytes = Some (pairing_to_file c (store_state st))" by blast
  have again: "pairing_from_file c (pairing_to_file c (store_state st)) = store_state st"
    using assms by (intro from_to_file) (auto simp: on_path_def)
  have disk: "persist c f st fs path = fst (write_atomic f (Some bytes) (fs path))" for f
    using assms(2) bytes(1) by (simp add: persist_def on_path_def)
  have load: "pairing_load c False (persist c f st fs path) =
      (if snd (write_atomic f (Some bytes) (fs path)) then store_state st else pairing_load c False (fs path))" for f
    unfolding disk pairing_load_def by (simp add: write_main bytes(2) again)
  show "pairing_load c False (persist c fault st fs path) \<in> {store_state st, pairing_load c False (fs path)}"
    by (simp add: load)
  show "pairing_load c False (persist c None st fs path) = store_state st" by (simp add: load write_no_fault)
qed

lemma bt_insert_same: "bt_ok m \<Longrightarrow> bt_get m k = Some v \<Longrightarrow> bt_insert k v m = m"
proof (induction k v m rule: bt_insert.induct)
  case (1 k v)
  then show ?case by (simp add: bt_get_def)
next
  case (2 k v k' v' m)
  have tail: "bt_ok m" "\<forall>x \<in> fst ` set m. k' < x" using "2.prems"(1) by (auto simp: bt_ok_def)
  show ?case
  proof (cases "k = k'")
    case True
    then show ?thesis using "2.prems"(2) by (simp add: bt_get_def)
  next
    case False
    then have get: "bt_get m k = Some v" using "2.prems"(2) by (simp add: bt_get_def)
    then have "k \<in> fst ` set m" by (force simp: bt_get_def dest: map_of_SomeD)
    then have "k' < k" using tail(2) by blast
    then show ?thesis using "2.IH" tail(1) get by auto
  qed
qed

lemma step_shape:
  assumes "on_path path w" and "pairing_op_ok op"
  shows "pairing_step c w (op, fault) = w \<or>
    (\<exists>st. on_path path (st, snd w) \<and> pairing_step c w (op, fault) = (st, persist c fault st (snd w)))"
proof -
  obtain st fs where w: "w = (st, fs)" by (cases w)
  note ok = assms(1) [unfolded w on_path_def pairing_ok_def fst_conv]
  show ?thesis
  proof (cases op)
    case (PairPut cid key)
    let ?st = "store_upd (\<lambda>s. s\<lparr>ps_controllers := bt_insert cid key (ps_controllers s)\<rparr>) st"
    have "on_path path (?st, fs)"
      using ok assms(2) PairPut
      by (auto simp: on_path_def pairing_ok_def store_upd_def bt_insert_ok dest!: bt_insert_in)
    moreover have "?st = st" if "bt_get (ps_controllers (store_state st)) cid = Some key"
      using that ok by (simp add: store_upd_def bt_insert_same)
    ultimately show ?thesis by (auto simp: PairPut w ps_put_def Let_def)
  next
    case (PairRemove cid)
    let ?st1 = "store_upd (\<lambda>s. s\<lparr>ps_controllers := bt_remove cid (ps_controllers s)\<rparr>) st"
    let ?st2 = "if ps_controllers (store_state ?st1) = [] then store_upd (\<lambda>s. s\<lparr>ps_home_name := None\<rparr>) ?st1 else ?st1"
    have "on_path path (?st2, fs)"
      using ok bt.inv_drop [of "ps_controllers (store_state st)" cid]
      by (auto simp: on_path_def pairing_ok_def store_upd_def bt_remove_def)
    then show ?thesis by (auto simp: PairRemove w ps_remove_def Let_def)
  next
    case (PairSaveIdentity seed)
    then show ?thesis using ok assms(2)
      by (auto simp: w save_identity_def Let_def on_path_def pairing_ok_def store_upd_def)
  next
    case (PairSetHomeName n)
    then show ?thesis using ok assms(2)
      by (auto simp: w set_home_name_def Let_def on_path_def pairing_ok_def store_upd_def)
  qed
qed

lemma open_on_path: "codec_ok c \<Longrightarrow> on_path (pairing_path dir did) (pairing_open c unreadable dir did fs, fs)"
  by (auto simp: on_path_def pairing_open_def pairing_load_def pairing_default_ok from_file_ok split: option.split)

section \<open>Runs\<close>

text \<open>The store on its path agrees with its file.\<close>

definition in_step :: "'b codec \<Rightarrow> string \<Rightarrow> pairing_store \<times> 'b file_system \<Rightarrow> bool" where
  "in_step c path w \<longleftrightarrow> codec_ok c \<and> on_path path w \<and> pairing_load c False (snd w path) = store_state (fst w)"

interpretation mirrored: guarded_machine "\<lambda>w op. pairing_step c w (op, None)" "in_step c path" pairing_op_ok
proof
  fix w op
  assume w: "in_step c path w" and op: "pairing_op_ok op"
  then have "on_path path w" by (simp add: in_step_def)
  from step_shape [OF this op, of c None] show "in_step c path (pairing_step c w (op, None))"
    using w load_persisted(2) by (force simp: in_step_def on_path_def)
qed

text \<open>
  C34: pairing_survives_restart. After any sequence of operations whose writes succeed, opening the pairing file again
  gives exactly the store the process had: the identity, every controller with its key, and the Home name, whatever
  the file held when the store was first opened.
\<close>

theorem pairing_survives_restart:
  assumes "codec_ok c" and "list_all pairing_op_ok ops"
    and "w = foldl (\<lambda>w op. pairing_step c w (op, None)) (pairing_open c False dir did fs, fs) ops"
  shows "pairing_open c False dir did (snd w) = fst w"
proof -
  have "in_step c (pairing_path dir did) (pairing_open c False dir did fs, fs)"
    using assms(1) open_on_path by (simp add: in_step_def pairing_open_def)
  then have "in_step c (pairing_path dir did) w" unfolding assms(3) using assms(2) by (rule mirrored.run_inv)
  then show ?thesis by (simp add: in_step_def on_path_def pairing_open_def)
qed

text \<open>An instance of the encodings: one list element per file, and hexadecimal replaced by one character per byte.\<close>

definition plain_codec :: "pairing_file codec" where
  "plain_codec =
     \<lparr>encode_key = map (\<lambda>b. char_of (unat b)),
      decode_key = (\<lambda>s. if length s = 32 then Some (map (\<lambda>ch. of_nat (of_char ch)) s) else None),
      to_json = (\<lambda>f. Some [f]), from_json = (\<lambda>bs. case bs of [f] \<Rightarrow> Some f | _ \<Rightarrow> None)\<rparr>"

lemma plain_codec_ok: "codec_ok plain_codec"
proof -
  have byte: "of_nat (unat b mod 256) = b" for b :: u8
    using unat_below [of b] by simp
  have "map ((\<lambda>ch. of_nat (of_char ch)) \<circ> (\<lambda>b. char_of (unat b))) key = key" for key :: "u8 list"
    by (rule map_idI) (simp add: byte)
  then show ?thesis by (auto simp: codec_ok_def plain_codec_def comp_def)
qed

definition empty_fs :: "pairing_file file_system" where
  "empty_fs = (\<lambda>path. \<lparr>disk_main = None, disk_tmp = None\<rparr>)"

theorem pairing_survives_restart_witness:
  "\<exists>w. ps_home (fst w) = Some ''Kitchen'' \<and> ps_get ''c1'' (fst w) = Some (replicate 32 5) \<and>
     pairing_open plain_codec False ''p'' ''d:1'' (snd w) = fst w"
proof -
  define ops where "ops = [PairSaveIdentity (replicate 32 3), PairPut ''c1'' (replicate 32 5), PairSetHomeName ''Kitchen'']"
  define w where "w = foldl (\<lambda>w op. pairing_step plain_codec w (op, None)) (pairing_open plain_codec False ''p'' ''d:1'' empty_fs, empty_fs) ops"
  have "str_trim ''Kitchen'' \<noteq> []" by code_simp
  then have "list_all pairing_op_ok ops" by (simp add: ops_def)
  from pairing_survives_restart [OF plain_codec_ok this w_def] show ?thesis
    by (intro exI [of _ w])
      (simp add: w_def ops_def ps_home_def ps_get_def pairing_open_def pairing_load_def empty_fs_def save_identity_def
        ps_put_def set_home_name_def Let_def store_upd_def bt_get_def pairing_default_def)
qed

text \<open>The states the store goes through.\<close>

fun pairing_states ::
  "'b codec \<Rightarrow> pairing_store \<times> 'b file_system \<Rightarrow> (pairing_op \<times> write_point option) list \<Rightarrow> pairing_state list" where
  "pairing_states c w [] = [store_state (fst w)]"
| "pairing_states c w (e # es) = store_state (fst w) # pairing_states c (pairing_step c w e) es"

lemma states_head: "store_state (fst w) \<in> set (pairing_states c w es)"
  by (cases es) auto

lemma run_load:
  assumes "codec_ok c"
  shows "on_path path w \<Longrightarrow> list_all (\<lambda>e. pairing_op_ok (fst e)) es \<Longrightarrow>
    pairing_load c False (snd (foldl (pairing_step c) w es) path)
      \<in> insert (pairing_load c False (snd w path)) (set (pairing_states c w es))"
proof (induction es arbitrary: w)
  case Nil
  then show ?case by simp
next
  case (Cons e es)
  obtain op fault where e: "e = (op, fault)" by (cases e)
  let ?w = "pairing_step c w e"
  have op: "pairing_op_ok op" using Cons.prems(2) by (simp add: e)
  from step_shape [OF Cons.prems(1) op, of c fault] show ?case
  proof
    assume same: "pairing_step c w (op, fault) = w"
    then show ?thesis using Cons.IH [of w] Cons.prems by (auto simp: e)
  next
    assume "\<exists>st. on_path path (st, snd w) \<and> pairing_step c w (op, fault) = (st, persist c fault st (snd w))"
    then obtain st where st: "on_path path (st, snd w)" "?w = (st, persist c fault st (snd w))" by (auto simp: e)
    have "on_path path ?w" using st by (simp add: on_path_def)
    from Cons.IH [OF this] Cons.prems(2)
    have "pairing_load c False (snd (foldl (pairing_step c) ?w es) path)
        \<in> insert (pairing_load c False (snd ?w path)) (set (pairing_states c ?w es))" by simp
    moreover have "pairing_load c False (snd ?w path) \<in> {store_state st, pairing_load c False (snd w path)}"
      unfolding st(2) using load_persisted(1) [OF assms st(1)] by simp
    moreover have "store_state st \<in> set (pairing_states c ?w es)" using states_head [of ?w c es] st(2) by simp
    ultimately show ?thesis by auto
  qed
qed

text \<open>
  C18: failed_write_keeps_a_state. Whatever writes fail and wherever, a restart never finds a state the store did not
  have: it finds one of the states the process went through, the one it started with included.
\<close>

theorem failed_write_keeps_a_state:
  assumes "codec_ok c" and "list_all (\<lambda>e. pairing_op_ok (fst e)) es" and "w0 = (pairing_open c False dir did fs, fs)"
  shows "store_state (pairing_open c False dir did (snd (foldl (pairing_step c) w0 es))) \<in> set (pairing_states c w0 es)"
proof -
  have "on_path (pairing_path dir did) w0" unfolding assms(3) by (rule open_on_path [OF assms(1)])
  from run_load [OF assms(1) this assms(2)] states_head [of w0 c es]
  show ?thesis by (auto simp: pairing_open_def assms(3))
qed

theorem failed_write_keeps_a_state_witness:
  "\<exists>w0. store_state (pairing_open plain_codec False ''p'' ''d:1''
       (snd (foldl (pairing_step plain_codec) w0
         [(PairSaveIdentity (replicate 32 3), None), (PairPut ''c1'' (replicate 32 5), Some (AtWriteAll 0))])))
     \<in> set (pairing_states plain_codec w0
         [(PairSaveIdentity (replicate 32 3), None), (PairPut ''c1'' (replicate 32 5), Some (AtWriteAll 0))])"
proof -
  define w0 where "w0 = (pairing_open plain_codec False ''p'' ''d:1'' empty_fs, empty_fs)"
  have "list_all (\<lambda>e. pairing_op_ok (fst e))
      [(PairSaveIdentity (replicate 32 3), None :: write_point option), (PairPut ''c1'' (replicate 32 5), Some (AtWriteAll 0))]" by simp
  from failed_write_keeps_a_state [OF plain_codec_ok this w0_def] show ?thesis by blast
qed

text \<open>The last controller takes the Home name with it; the others do not.\<close>

lemma last_controller_takes_name:
  "ps_get cid st \<noteq> None \<Longrightarrow>
   ps_home (fst (ps_remove c fault cid (st, fs))) =
     (if bt_remove cid (ps_controllers (store_state st)) = [] then None else ps_home st)"
  by (auto simp: ps_remove_def ps_get_def ps_home_def store_upd_def Let_def)

end
