(* ===== verification/Spec2Isabelle.thy ===== *)
theory Spec2Isabelle
  imports Session_Contracts Group_Contracts Cast_Promises Cast_Pool_Promises Cast_Load_Race Media_Promises
    Bridge_Run_Promises Volume_Members Media_Start Cast_Link_Promises App_Promises App_Wiring
    Net_Promises Discover_Promises Pairing_Promises
begin

text \<open>
  Verification library for play-on-air, an AirPlay to Google Cast bridge written in Rust. Paths are under
  \<open>src/crates/play-on-air/src\<close>.

  \<^bold>\<open>The program.\<close> Discovery (\<open>discover.rs\<close>) turns mDNS events into operations of the device registry
  (\<open>registry.rs\<close>). Every two seconds the maintain loop (\<open>app.rs\<close>) reads the registry, gives each device an AirPlay
  name (\<open>names.rs\<close>, \<open>config.rs\<close>), keeps one AirPlay receiver (\<open>airplay/mod.rs\<close>, with its pairing store
  \<open>airplay/pairing.rs\<close>) and one Cast worker (\<open>cast/pool.rs\<close>) per device, and withdraws what is gone. A receiver
  decodes into a PCM ring (\<open>audio/pcm.rs\<close>) and publishes session events. The bridge (\<open>bridge\<close>) turns them into a
  Cast session: it starts a media server (\<open>media/http.rs\<close>) that serves the ring as a live WAV or FLAC body
  (\<open>audio/wav.rs\<close>, \<open>audio/flac.rs\<close>), asks the Cast worker to LOAD its URL, follows pause, resume, flush, volume and
  metadata, re-LOADs when the device lost the stream, and tears the session down. Receivers selected together in
  AirPlay share one Cast multizone session (\<open>bridge/group.rs\<close>, \<open>cast/multizone.rs\<close>). \<open>net.rs\<close> chooses the local
  addresses to advertise and to dial from.

  \<^bold>\<open>Representation.\<close> \<open>Prelude\<close>: machine integers are words, \<open>usize\<close>, \<open>Instant\<close> and \<open>Duration\<close> naturals (with the
  saturations written out), hash maps association lists whose order is the iteration order. Strings are UTF-8 bytes
  (\<open>Text_Error\<close>, \<open>Text_Parse\<close>), errors values of \<open>error\<close> in a sum, \<open>f32\<close> its bit pattern (\<open>Float32\<close>; \<open>Volume_Map\<close>
  adds rounding). A lock held over a whole operation makes it one function; an operation that awaits is a program
  counter and a step function (a start, a re-LOAD, a teardown, \<open>handle_ended\<close>, \<open>end_cast_session\<close>), so that any other
  operation may run at a wait. What the operating system, the network, the clock or a crate answers is an argument.

  \<^bold>\<open>Theories and the code they model.\<close>
  \<^item> Registry and errors: \<open>Registry\<close> (\<open>registry.rs\<close>), \<open>Text_Error\<close> (\<open>error.rs\<close>).
  \<^item> Bridge state and decisions: \<open>Bridge_State\<close>, \<open>Bridge_Slots\<close>, \<open>Bridge_Decisions\<close> (\<open>bridge/state.rs\<close>,
    \<open>bridge/mod.rs\<close> and the pure helpers of the other files). A session's cells that detached tasks share through
    \<open>Arc\<close>s are a store addressed by session number.
  \<^item> Bridge operations: \<open>Bridge_Start\<close> (\<open>start.rs\<close>), \<open>Bridge_Playback\<close> (\<open>playback.rs\<close>), \<open>Bridge_Reload\<close>
    (\<open>load.rs\<close>), \<open>Bridge_Fallback\<close> (\<open>fallback.rs\<close>, \<open>stall.rs\<close>), \<open>Bridge_Teardown\<close> (\<open>teardown.rs\<close>),
    \<open>Bridge_Group\<close> and \<open>Bridge_Tasks\<close> (\<open>group.rs\<close>, the rollover loop), \<open>Bridge_Volume\<close> (\<open>volume.rs\<close>, \<open>remote.rs\<close>).
  \<^item> Bridge as a system: \<open>Bridge_System\<close> interleaves all tasks (\<open>sys_step\<close>); \<open>Bridge_Wf\<close>, \<open>Bridge_Frames\<close> and
    \<open>Bridge_Safety\<close> hold its invariant; \<open>Bridge_Promises\<close>, \<open>Session_Contracts\<close> and \<open>Group_Contracts\<close> what follows.
    \<open>Bridge_Run\<close> (\<open>worker.rs\<close>) adds the event loop, the device workers and shutdown; \<open>Bridge_Quiesce\<close> and
    \<open>Bridge_Run_Promises\<close> hold what follows for it.
  \<^item> Cast: \<open>Cast_Payload\<close> (\<open>cast/mod.rs\<close>, \<open>cast/multizone.rs\<close>); the worker thread of \<open>cast/pool.rs\<close> in
    \<open>Cast_Decisions\<close>, \<open>Cast_Monad\<close> (its state and the monad of its handlers), \<open>Cast_Connection\<close>, \<open>Cast_Handlers\<close>,
    \<open>Cast_Ownership\<close> and \<open>Cast_Loop\<close>; the pool in \<open>Cast_Pool\<close>; the race of a LOAD with its caller's timeout in
    \<open>Cast_Load_Race\<close>; the TLS verifier (\<open>cast/tls.rs\<close>), the relay (\<open>net.rs\<close>) and the device behind the worker in
    \<open>Cast_Link\<close>. \<open>Cast_Wf\<close>, \<open>Cast_Wf_Handlers\<close>, \<open>Cast_Wf_Idle\<close> and \<open>Cast_Wf_Loop\<close> hold the worker's
    invariant and one rule per operation.
  \<^item> Media: \<open>Media_State\<close> (the handle the bridge drives), \<open>Media_Body\<close> (the WAV and FLAC bodies, one poll at a time),
    \<open>Media_Server\<close> (requests, and every interleaving), \<open>Media_Start\<close> (the sockets it
    binds, its drop log), \<open>Media_Wf\<close>, \<open>Media_Sys_Wf\<close>, \<open>Media_Promises\<close>
    (\<open>media/http.rs\<close>); \<open>Audio\<close> (\<open>audio/pcm.rs\<close>, \<open>audio/wav.rs\<close>), \<open>Flac_Stream\<close> (\<open>audio/flac.rs\<close>).
  \<^item> AirPlay: \<open>Airplay_Session\<close>, \<open>Airplay_Manager\<close>, \<open>Volume_Map\<close> (\<open>airplay/mod.rs\<close>),
    \<open>Volume_Members\<close> (the members of a speaker group), \<open>Pairing\<close> (\<open>airplay/pairing.rs\<close>).
  \<^item> Application: \<open>Names\<close> (\<open>names.rs\<close>, \<open>config.rs\<close>), \<open>App_Maintain\<close>, \<open>App_Wiring\<close> (the watch
    tasks; signals of \<open>main.rs\<close>) and \<open>Shutdown\<close> (\<open>app.rs\<close>), \<open>Discover\<close> (\<open>discover.rs\<close>), \<open>Net_Addr\<close> and \<open>Net_Local\<close> (\<open>net.rs\<close>).

  \<^bold>\<open>What is shown.\<close>
  \<^item> Interfaces. \<open>keyed_map\<close>, \<open>event_machine\<close> and \<open>ranked_machine\<close> (\<open>Prelude\<close>) are the contracts of the maps and of
    runs; the components interpret them, so that an invariant proved for a step holds of every run.
  \<^item> The bridge, over every interleaving: a session sits in one slot or was handed to one teardown; one re-LOAD per
    session at a time; exactly when a late LOAD of a session that was ended or replaced stops Cast (a replaced session
    stops its successor only when it was paused, which is a finding); generations do not go back; pause, resume and
    flush refine an abstract transport; a group moves to a new owner without stopping Cast. The loop with its workers
    runs inside that interleaving (\<open>run_reachable_system\<close>), delivers every event to the one live worker of its device,
    keeps the order of a device's events (those queued at a worker that dies are lost with it) and ends with no
    session.
  \<^item> The Cast worker and pool, for every behaviour of the device: every command is answered once and in order; a
    session is installed only when its reply was delivered (a caller whose timeout falls between the worker's last
    look and that delivery still gets one, \<open>Cast_Load_Race\<close>); one worker per device.
  \<^item> The media server: one body is current, a WAV body's length and sample order, rollovers.
  \<^item> The rest: a maintain tick leaves a live session's receiver alone unless its Cast worker failed for good; a kicked
    device stays withdrawn during the hold, if no other call on it was under way; names do not
    depend on the order of discovery; addresses and TXT records survive printing and parsing; a failed write of the
    pairing store loses nothing; a lost Cast session disconnects its AirPlay clients; shutdown withdraws every receiver.

  \<^bold>\<open>Bounds and fuel.\<close> Loops with a bound in the source have that bound (\<open>PREBUFFER_POLLS\<close>,
  \<open>UNSOLICITED_DRAIN_LIMIT\<close>, the deadline of a teardown). A loop that runs for the life of the process takes the
  list of what it receives, one element per turn, so that it ends when the list does and a statement about all lists
  is one about runs of any length. Nothing else needs fuel. The one assumption about counters is that a device's
  generation, which saturates at \<open>2 ^ 64 - 1\<close>, is not full when a start is accepted: a step that would accept one at
    the bound is not enabled (\<open>worker_receives\<close>).

  \<^bold>\<open>Atomicity assumed.\<close> A browse session of \<open>discover.rs\<close> (\<open>linux_session\<close>) runs as the only writer of the registry:
  the expiry done by the maintain loop meanwhile is not interleaved with it. A join deadline of a shutdown (with the
  abort of what is left) is a transition that may happen at any time while the join runs. Unless a machine is cut
  further (the liveness stores of a teardown, the threads of a LOAD), the synchronous code of a task between two waits
  is one step, even where it takes a lock twice.

  \<^bold>\<open>Not modelled.\<close> The vendored AirPlay stack and the FLAC encoder crate are parameters, as are the
  cryptography of TLS and the wire formats (JSON text, protobuf, TOML, HTTP) that crates read and write. Sockets,
  threads, child processes and the clock enter through what they answer. Parsing of the command line, the set-up of
  logging and log lines have no model, nor does the creation of tasks and channels in \<open>App::run\<close>: the initial states
  stand for it.
\<close>

end
